(* ===== verification/Prelude.thy ===== *)
theory Prelude
  imports Main "HOL-Library.Word" "HOL-Library.Signed_Division" "HOL-Library.Monad_Syntax"
    "HOL-Library.List_Lexorder" "HOL-Library.Char_ord"
begin

text \<open>
  Shared vocabulary of the development: how Go values, pointers, panics and checked indexing are
  rendered in HOL, and the generic lemmas on lists, options and words that the components share.

  \<^item> A Go call that may panic returns \<open>'a go\<close>: \<open>Ret v\<close> for a normal return and \<open>Panic\<close> for a
    run-time panic (index out of range, nil dereference, an explicit \<open>panic(...)\<close>).
  \<^item> A Go pointer that may be nil is \<open>'a ptr\<close>.
  \<^item> \<open>byte\<close>/\<open>uint8\<close> and \<open>uint32\<close> are words; \<open>int\<close>, \<open>int64\<close> are \<open>int\<close> (the code only uses them for
    lengths, indices, heights and sums of \<open>int32\<close> values, far from \<open>2 ^ 63\<close>); \<open>int32\<close> arithmetic
    is \<open>int\<close> with the wrap-around \<open>i32\<close> written out; division is the truncating \<open>sdiv\<close>.
  \<^item> Go strings are \<open>string\<close>, compared bytewise (\<open>Char_ord\<close> and \<open>List_Lexorder\<close>).
\<close>

unbundle bit_operations_syntax

named_theorems go_simps \<open>evaluation rules for the Go run-time operations\<close>

type_synonym byte = "8 word"
type_synonym bytes = "byte list"

subsection \<open>Panics\<close>

type_synonym 'a go = "'a option"

abbreviation Ret :: "'a \<Rightarrow> 'a go" where
  "Ret \<equiv> Some"

abbreviation Panic :: "'a go" where
  "Panic \<equiv> None"

subsection \<open>Pointers\<close>

datatype 'a ptr = Nil_ptr | Ptr (deref: 'a)

definition is_nil :: "'a ptr \<Rightarrow> bool" where
  "is_nil p = (case p of Nil_ptr \<Rightarrow> True | Ptr _ \<Rightarrow> False)"

lemma is_nil_simps [simp]: "is_nil Nil_ptr" "\<not> is_nil (Ptr x)"
  by (simp_all add: is_nil_def)

subsection \<open>Checked slice access\<close>

definition go_index :: "'a list \<Rightarrow> int \<Rightarrow> 'a go" where
  "go_index xs i = (if 0 \<le> i \<and> i < int (length xs) then Ret (xs ! nat i) else Panic)"

definition go_update :: "'a list \<Rightarrow> int \<Rightarrow> 'a \<Rightarrow> 'a list go" where
  "go_update xs i v = (if 0 \<le> i \<and> i < int (length xs) then Ret (xs[nat i := v]) else Panic)"

text \<open>\<open>xs[lo:hi]\<close>: the bounds must satisfy \<open>0 \<le> lo \<le> hi \<le> len(xs)\<close>.\<close>

definition go_slice :: "'a list \<Rightarrow> int \<Rightarrow> int \<Rightarrow> 'a list go" where
  "go_slice xs lo hi =
     (if 0 \<le> lo \<and> lo \<le> hi \<and> hi \<le> int (length xs)
      then Ret (take (nat (hi - lo)) (drop (nat lo) xs)) else Panic)"

lemma go_index_nat [go_simps, simp]:
  "n < length xs \<Longrightarrow> go_index xs (int n) = Ret (xs ! n)"
  by (simp add: go_index_def)

lemma go_index_Some_iff:
  "go_index xs i = Ret x \<longleftrightarrow> 0 \<le> i \<and> i < int (length xs) \<and> x = xs ! nat i"
  by (auto simp: go_index_def)

lemma go_update_nat [go_simps, simp]:
  "n < length xs \<Longrightarrow> go_update xs (int n) v = Ret (xs[n := v])"
  by (simp add: go_update_def)

lemma go_update_Some_iff:
  "go_update xs i v = Ret ys \<longleftrightarrow> 0 \<le> i \<and> i < int (length xs) \<and> ys = xs[nat i := v]"
  by (auto simp: go_update_def)

subsection \<open>Two's complement \<open>int32\<close> arithmetic\<close>

definition i32 :: "int \<Rightarrow> int" where
  "i32 x = (x + 2 ^ 31) mod 2 ^ 32 - 2 ^ 31"

lemma i32_id: "- (2 ^ 31) \<le> x \<Longrightarrow> x < 2 ^ 31 \<Longrightarrow> i32 x = x"
  by (simp add: i32_def)

lemma i32_range: "- (2 ^ 31) \<le> i32 x" "i32 x < 2 ^ 31"
  by (simp_all add: i32_def)

text \<open>Conversion to \<open>int8\<close>.\<close>

definition i8 :: "int \<Rightarrow> int" where
  "i8 x = (x + 2 ^ 7) mod 2 ^ 8 - 2 ^ 7"

lemma i8_id: "- (2 ^ 7) \<le> x \<Longrightarrow> x < 2 ^ 7 \<Longrightarrow> i8 x = x"
  by (simp add: i8_def)

subsection \<open>Truncating division by a positive constant\<close>

lemma sdiv_nonneg: "0 \<le> (a::int) \<Longrightarrow> 0 < b \<Longrightarrow> a sdiv b = a div b"
  by (simp add: signed_divide_int_def sgn_if)

lemma smod_nonneg: "0 \<le> (a::int) \<Longrightarrow> 0 < b \<Longrightarrow> a smod b = a mod b"
  by (cases "a = 0") (auto simp: signed_modulo_int_def sdiv_nonneg minus_div_mult_eq_mod sgn_if)

lemma two_thirds_gt: "0 \<le> (t::int) \<Longrightarrow> (v > (t * 2) sdiv 3) = (3 * v > 2 * t)"
  by (simp add: sdiv_nonneg) linarith

subsection \<open>Strings and bytes\<close>

definition str_bytes :: "string \<Rightarrow> bytes" where
  "str_bytes s = map of_char s"

definition bytes_str :: "bytes \<Rightarrow> string" where
  "bytes_str bz = map (\<lambda>b. char_of (unat b)) bz"

lemma bytes_str_bytes [simp]: "bytes_str (str_bytes s) = s"
proof -
  have "char_of (unat (of_char c :: byte)) = c" for c
  proof -
    have "unat (of_char c :: byte) = of_char c"
      by (simp add: of_char_def unat_of_nat flip: of_nat_of_char)
    then show ?thesis by simp
  qed
  then show ?thesis by (simp add: bytes_str_def str_bytes_def comp_def)
qed

lemma str_bytes_inject: "str_bytes s = str_bytes t \<longleftrightarrow> s = t"
  by (metis bytes_str_bytes)

lemma str_bytes_str [simp]: "str_bytes (bytes_str bz) = bz"
proof -
  have "of_char (char_of (unat b)) = b" for b :: byte
  proof -
    have "(of_char (char_of (unat b)) :: byte) = of_nat (of_char (char_of (unat b)))" by (rule of_nat_of_char [symmetric])
    also have "(of_char (char_of (unat b)) :: nat) = unat b mod 256" by (rule of_char_of)
    also have "unat b mod 256 = unat b"
    proof -
      have "unat b < 2 ^ LENGTH(8)" by (rule unsigned_less)
      then show ?thesis by simp
    qed
    finally show ?thesis by simp
  qed
  then show ?thesis by (simp add: bytes_str_def str_bytes_def comp_def)
qed

lemma bytes_str_inject: "bytes_str a = bytes_str b \<longleftrightarrow> a = b"
  by (metis str_bytes_str)

subsection \<open>Protocol buffers\<close>

text \<open>
  \<open>proto.Marshal\<close> and \<open>proto.Unmarshal\<close> of one message type: a third-party library, and so a
  parameter of every definition that uses it. \<open>None\<close> is a returned error. \<open>codec_ok\<close> is the
  documented behaviour the code relies on: what was marshalled unmarshals to an equal message.
\<close>

record 'm codec =
  Marshal :: "'m \<Rightarrow> bytes option"
  Unmarshal :: "bytes \<Rightarrow> 'm option"

definition codec_ok :: "'m codec \<Rightarrow> bool" where
  "codec_ok c \<longleftrightarrow> (\<forall>m bz. Marshal c m = Some bz \<longrightarrow> Unmarshal c bz = Some m)"

text \<open>\<open>MustProtoBytes\<close> panics on an error; the \<open>New...FromBytes\<close> functions return nil on an error.\<close>

definition MustProtoBytes :: "'m codec \<Rightarrow> 'm \<Rightarrow> bytes go" where
  "MustProtoBytes c m = (case Marshal c m of None \<Rightarrow> Panic | Some bz \<Rightarrow> Ret bz)"

definition from_bytes :: "'m codec \<Rightarrow> ('m \<Rightarrow> 'a go) \<Rightarrow> bytes \<Rightarrow> 'a ptr go" where
  "from_bytes c from_proto bz =
     (case Unmarshal c bz of
        None \<Rightarrow> Ret Nil_ptr
      | Some p \<Rightarrow> (case from_proto p of Panic \<Rightarrow> Panic | Ret x \<Rightarrow> Ret (Ptr x)))"

text \<open>A codec that knows one message: the concrete instance used to show that hypotheses can hold.\<close>

definition one_codec :: "'m \<Rightarrow> bytes \<Rightarrow> 'm codec" where
  "one_codec m0 bz0 = \<lparr>Marshal = (\<lambda>m. if m = m0 then Some bz0 else None),
                      Unmarshal = (\<lambda>bz. if bz = bz0 then Some m0 else None)\<rparr>"

lemma one_codec_ok [simp]: "codec_ok (one_codec m bz)"
  by (auto simp: codec_ok_def one_codec_def)

lemma Marshal_one_codec [simp]: "Marshal (one_codec m bz) m = Some bz"
  by (simp add: one_codec_def)

text \<open>
  The interface of a wire type: converting to the message struct and back gives the value, on the
  values that fit the widths of the message. Clients get the round trip through bytes.
\<close>

locale wire_type =
  fixes to_proto :: "'a \<Rightarrow> 'm go" and from_proto :: "'m \<Rightarrow> 'a go" and fits :: "'a \<Rightarrow> bool"
  assumes proto_inverse: "fits x \<Longrightarrow> \<exists>p. to_proto x = Ret p \<and> from_proto p = Ret x"
begin

lemma bytes_roundtrip:
  assumes "codec_ok c" "fits x" "do { p \<leftarrow> to_proto x; MustProtoBytes c p } = Ret bz"
  shows "from_bytes c from_proto bz = Ret (Ptr x)"
proof -
  obtain p where p: "to_proto x = Ret p" "from_proto p = Ret x" using proto_inverse [OF assms(2)] by blast
  then have "Marshal c p = Some bz" using assms(3) by (auto simp: MustProtoBytes_def split: option.splits)
  then show ?thesis using assms(1) p by (simp add: codec_ok_def from_bytes_def)
qed

lemma bytes_inject:
  assumes "codec_ok c" "fits x" "fits y"
    and "do { p \<leftarrow> to_proto x; MustProtoBytes c p } = Ret bz" "do { p \<leftarrow> to_proto y; MustProtoBytes c p } = Ret bz"
  shows "x = y"
  using bytes_roundtrip [OF assms(1,2,4)] bytes_roundtrip [OF assms(1,3,5)] by simp

end

end
