(* ===== verification/Hash.thy ===== *)
theory Hash
  imports Prelude
begin

text \<open>
  Model of \<open>crypto/hash/hash.go\<close>: SHA-256 of the Go standard library, written out (FIPS 180-4), and
  the truncated hash. Proofs about clients never unfold the compression function: they use only
  that a digest has \<open>Size\<close> = 32 bytes.
\<close>

section \<open>SHA-256\<close>

text \<open>
  The constants of the standard are the leading 32 fractional bits of the cube roots of the first 64
  primes, and of the square roots of the first 8. \<open>root_bits k n b r\<close> decides the low \<open>b\<close> bits of
  the integer \<open>k\<close>-th root of \<open>n\<close>.
\<close>

primrec root_bits :: "nat \<Rightarrow> int \<Rightarrow> nat \<Rightarrow> int \<Rightarrow> int" where
  "root_bits k n 0 r = r"
| "root_bits k n (Suc b) r = root_bits k n b (if (r + 2 ^ b) ^ k \<le> n then r + 2 ^ b else r)"

definition root_fraction :: "nat \<Rightarrow> int \<Rightarrow> 32 word" where
  "root_fraction k p = word_of_int (root_bits k (p * 2 ^ (32 * k)) 35 0)"

definition sha_primes :: "int list" where
  "sha_primes = filter (\<lambda>p. list_all (\<lambda>d. p mod d \<noteq> 0) [2..p - 1]) [2..311]"

definition sha_K :: "32 word list" where
  "sha_K = map (root_fraction 3) sha_primes"

type_synonym sha_state =
  "32 word \<times> 32 word \<times> 32 word \<times> 32 word \<times> 32 word \<times> 32 word \<times> 32 word \<times> 32 word"

definition sha_init :: sha_state where
  "sha_init = (let r = root_fraction 2 in (r 2, r 3, r 5, r 7, r 11, r 13, r 17, r 19))"

fun be_words :: "bytes \<Rightarrow> 32 word list" where
  "be_words (a # b # c # d # bs) =
     (push_bit 24 (ucast a) OR push_bit 16 (ucast b) OR push_bit 8 (ucast c) OR ucast d) # be_words bs"
| "be_words _ = []"

definition be_bytes :: "32 word \<Rightarrow> bytes" where
  "be_bytes w = [ucast (drop_bit 24 w), ucast (drop_bit 16 w), ucast (drop_bit 8 w), ucast w]"

definition be_bytes64 :: "64 word \<Rightarrow> bytes" where
  "be_bytes64 w = map (\<lambda>i. ucast (drop_bit (56 - 8 * i) w)) [0..<8]"

definition sha_pad :: "bytes \<Rightarrow> bytes" where
  "sha_pad m =
     (let n = length m; z = (if n mod 64 < 56 then 55 - n mod 64 else 119 - n mod 64)
      in m @ 0x80 # replicate z 0 @ be_bytes64 (of_nat (8 * n)))"

text \<open>The message schedule, most recent word first.\<close>

definition sha_next_w :: "32 word list \<Rightarrow> 32 word" where
  "sha_next_w ws =
     (let w15 = ws ! 14; w2 = ws ! 1;
          s0 = word_rotr 7 w15 XOR word_rotr 18 w15 XOR drop_bit 3 w15;
          s1 = word_rotr 17 w2 XOR word_rotr 19 w2 XOR drop_bit 10 w2
      in ws ! 15 + s0 + ws ! 6 + s1)"

primrec sha_extend :: "nat \<Rightarrow> 32 word list \<Rightarrow> 32 word list" where
  "sha_extend 0 ws = ws"
| "sha_extend (Suc n) ws = sha_extend n (sha_next_w ws # ws)"

definition sha_schedule :: "bytes \<Rightarrow> 32 word list" where
  "sha_schedule block = rev (sha_extend 48 (rev (be_words block)))"

fun sha_round :: "sha_state \<Rightarrow> 32 word \<times> 32 word \<Rightarrow> sha_state" where
  "sha_round (a, b, c, d, e, f, g, h) (k, w) =
     (let s1 = word_rotr 6 e XOR word_rotr 11 e XOR word_rotr 25 e;
          ch = (e AND f) XOR (NOT e AND g);
          t1 = h + s1 + ch + k + w;
          s0 = word_rotr 2 a XOR word_rotr 13 a XOR word_rotr 22 a;
          maj = (a AND b) XOR (a AND c) XOR (b AND c);
          t2 = s0 + maj
      in (t1 + t2, a, b, c, d + t1, e, f, g))"

fun sha_add :: "sha_state \<Rightarrow> sha_state \<Rightarrow> sha_state" where
  "sha_add (a, b, c, d, e, f, g, h) (a', b', c', d', e', f', g', h') =
     (a + a', b + b', c + c', d + d', e + e', f + f', g + g', h + h')"

definition sha_block :: "sha_state \<Rightarrow> bytes \<Rightarrow> sha_state" where
  "sha_block st block = sha_add st (foldl sha_round st (zip sha_K (sha_schedule block)))"

function sha_blocks :: "sha_state \<Rightarrow> bytes \<Rightarrow> sha_state" where
  "sha_blocks st m = (if length m < 64 then st else sha_blocks (sha_block st (take 64 m)) (drop 64 m))"
  by auto
termination by (relation "measure (\<lambda>(st, m). length m)") auto

declare sha_blocks.simps [simp del]

fun sha_digest :: "sha_state \<Rightarrow> bytes" where
  "sha_digest (a, b, c, d, e, f, g, h) = concat (map be_bytes [a, b, c, d, e, f, g, h])"

definition Sum256 :: "bytes \<Rightarrow> bytes" where
  "Sum256 bz = sha_digest (sha_blocks sha_init (sha_pad bz))"

section \<open>The package\<close>

definition HashSize :: int where "HashSize = 32"

definition TruncatedSize :: int where "TruncatedSize = 20"

definition Sum :: "bytes \<Rightarrow> bytes" where
  "Sum bz = Sum256 bz"

definition SumTruncated :: "bytes \<Rightarrow> bytes" where
  "SumTruncated bz = take (nat TruncatedSize) (Sum256 bz)"

text \<open>A \<open>hash.Hash\<close> object is what has been written to it since the last reset.\<close>

record sha256trunc =
  sha256 :: bytes

definition NewTruncated :: sha256trunc where
  "NewTruncated = \<lparr>sha256 = []\<rparr>"

definition trunc_Write :: "sha256trunc \<Rightarrow> bytes \<Rightarrow> sha256trunc \<times> int" where
  "trunc_Write h p = (h\<lparr>sha256 := sha256 h @ p\<rparr>, int (length p))"

definition trunc_Sum :: "sha256trunc \<Rightarrow> bytes \<Rightarrow> bytes" where
  "trunc_Sum h b = take (nat TruncatedSize) (b @ Sum256 (sha256 h))"

definition trunc_Reset :: "sha256trunc \<Rightarrow> sha256trunc" where
  "trunc_Reset h = h\<lparr>sha256 := []\<rparr>"

section \<open>Lemmas\<close>

lemma length_Sum256 [simp]: "length (Sum256 bz) = 32"
proof -
  have "length (sha_digest st) = 32" for st
    by (cases st rule: sha_digest.cases) (simp add: be_bytes_def)
  then show ?thesis by (simp add: Sum256_def)
qed

lemma length_Sum [simp]: "length (Sum bz) = 32"
  by (simp add: Sum_def)

lemma Sum_not_Nil [simp]: "Sum bz \<noteq> []"
  by (metis length_Sum length_0_conv zero_neq_numeral)

lemma length_SumTruncated [simp]: "length (SumTruncated bz) = 20"
  by (simp add: SumTruncated_def TruncatedSize_def)

lemma sha_pad_blocks: "length (sha_pad m) mod 64 = 0"
proof -
  define r where "r = length m mod 64"
  have r: "r < 64" "length m mod 64 = r" by (simp_all add: r_def)
  obtain q where q: "length m = 64 * q + r" using r_def by (metis mult_div_mod_eq)
  show ?thesis
  proof (cases "r < 56")
    case True
    then have "length (sha_pad m) = 64 * (q + 1)"
      using q r by (simp add: sha_pad_def Let_def be_bytes64_def)
    then show ?thesis by simp
  next
    case False
    then have "length (sha_pad m) = 64 * (q + 2)"
      using q r by (simp add: sha_pad_def Let_def be_bytes64_def)
    then show ?thesis by simp
  qed
qed

text \<open>Writing in pieces and summing an empty prefix is the one-shot truncated hash.\<close>

lemma trunc_Sum_SumTruncated:
  "trunc_Sum (fst (trunc_Write (fst (trunc_Write NewTruncated p)) q)) [] = SumTruncated (p @ q)"
  by (simp add: trunc_Sum_def trunc_Write_def NewTruncated_def SumTruncated_def)

end
