(* ===== verification/Merkle.thy ===== *)
theory Merkle
  imports Hash
begin

text \<open>
  Model of \<open>crypto/merkle\<close>: the RFC-6962 tree hash (recursive and the in-place iterative version),
  inclusion proofs built from a heap of \<open>ProofNode\<close>s with parent and sibling pointers, and proof
  verification. The lemmas: both tree hashes agree, every generated proof verifies, and a proof
  that verifies against the root of a list either is for the item at its index or yields two
  explicit, different hash inputs with the same SHA-256 digest.
\<close>

section \<open>hash.go and tree.go\<close>

definition emptyHash :: bytes where
  "emptyHash = Sum []"

definition leafHash :: "bytes \<Rightarrow> bytes" where
  "leafHash leaf = Sum (0 # leaf)"

definition innerHash :: "bytes \<Rightarrow> bytes \<Rightarrow> bytes" where
  "innerHash left right = Sum (1 # left @ right)"

text \<open>\<open>math/bits.Len\<close>: the number of bits needed for the value.\<close>

fun bits_Len :: "nat \<Rightarrow> nat" where
  "bits_Len n = (if n = 0 then 0 else Suc (bits_Len (n div 2)))"

declare bits_Len.simps [simp del]

definition getSplitPoint :: "int \<Rightarrow> int go" where
  "getSplitPoint len =
     (if len < 1 then Panic
      else (let bitlen = bits_Len (nat len); k = 2 ^ (bitlen - 1)
            in Ret (if k = len then k div 2 else k)))"

lemma bits_Len_bounds: "0 < n \<Longrightarrow> 2 ^ (bits_Len n - 1) \<le> n \<and> n < 2 ^ bits_Len n \<and> 0 < bits_Len n"
proof (induction n rule: bits_Len.induct)
  case (1 n)
  show ?case
  proof (cases "n = 1")
    case True
    then show ?thesis by (simp add: bits_Len.simps)
  next
    case False
    then have n2: "0 < n div 2" using "1.prems" by linarith
    with 1 have IH: "2 ^ (bits_Len (n div 2) - 1) \<le> n div 2" "n div 2 < 2 ^ bits_Len (n div 2)" "0 < bits_Len (n div 2)"
      by auto
    obtain j where j: "bits_Len (n div 2) = Suc j" using IH(3) by (auto simp: gr0_conv_Suc)
    have "bits_Len n = Suc (Suc j)" using "1.prems" j by (subst bits_Len.simps) simp
    moreover have "2 * 2 ^ j \<le> n" "n < 4 * 2 ^ j" using IH j by auto
    ultimately show ?thesis by simp
  qed
qed

text \<open>\<open>is_split n k\<close>: \<open>k\<close> is the largest power of two below \<open>n\<close>.\<close>

definition is_split :: "nat \<Rightarrow> nat \<Rightarrow> bool" where
  "is_split n k \<longleftrightarrow> (\<exists>j. k = 2 ^ j \<and> 2 ^ j < n \<and> n \<le> 2 * 2 ^ j)"

lemma is_split_unique: "is_split n k \<Longrightarrow> is_split n k' \<Longrightarrow> k = k'"
proof -
  have *: "i \<le> j" if "(2::nat) ^ i < n" "n \<le> 2 * 2 ^ j" for i j
  proof -
    have "(2::nat) ^ i < 2 ^ Suc j" using that by simp
    then show ?thesis by (simp del: power_Suc)
  qed
  assume "is_split n k" "is_split n k'"
  then show ?thesis using * unfolding is_split_def by (metis le_antisym)
qed

lemma is_split_bounds: "is_split n k \<Longrightarrow> 0 < k \<and> k < n"
  by (auto simp: is_split_def)

lemma is_split_half: "is_split n k \<Longrightarrow> 2 < n \<Longrightarrow> even k \<and> is_split (n div 2 + n mod 2) (k div 2)"
proof -
  assume k: "is_split n k" and n: "2 < n"
  then obtain j where j: "k = 2 ^ j" "2 ^ j < n" "n \<le> 2 * 2 ^ j" by (auto simp: is_split_def)
  then have "j \<noteq> 0" using n by (cases j) auto
  then obtain i where i: "j = Suc i" by (cases j) auto
  have "2 * 2 ^ i < n" "n \<le> 2 * (2 * 2 ^ i)" using j i by auto
  then have "2 ^ i < n div 2 + n mod 2" "n div 2 + n mod 2 \<le> 2 * 2 ^ i"
    by (cases "even n"; auto elim!: evenE oddE)+
  then show ?thesis using j i by (auto simp: is_split_def)
qed

lemma getSplitPoint_Suc_Suc:
  assumes "2 \<le> n"
  obtains k where "getSplitPoint (int n) = Ret (int k)" "is_split n k"
proof -
  define b where "b = bits_Len n"
  have b: "2 ^ (b - 1) \<le> n" "n < 2 ^ b" "0 < b" using bits_Len_bounds [of n] assms by (auto simp: b_def)
  obtain j where j: "b = Suc j" using b(3) by (auto simp: gr0_conv_Suc)
  have le: "(2::nat) ^ j \<le> n" "n < 2 * 2 ^ j" using b j by auto
  show thesis
  proof (cases "(2::nat) ^ j = n")
    case True
    then have "j \<noteq> 0" using assms by (cases j) auto
    then obtain i where i: "j = Suc i" by (cases j) auto
    have "getSplitPoint (int n) = Ret (int (2 ^ i))"
    proof -
      have "(2::int) ^ j = int n" using True by (metis of_nat_numeral of_nat_power)
      moreover have "bits_Len (nat (int n)) - 1 = j" using j by (simp add: b_def)
      ultimately have "getSplitPoint (int n) = Ret (2 ^ j div 2)"
        unfolding getSplitPoint_def Let_def using assms by simp
      moreover have "(2::int) ^ j div 2 = int (2 ^ i)" using i by simp
      ultimately show ?thesis by simp
    qed
    moreover have "is_split n (2 ^ i)" using True i by (auto simp: is_split_def)
    ultimately show thesis by (rule that)
  next
    case False
    then have "(2::int) ^ j \<noteq> int n" by (metis of_nat_eq_iff of_nat_numeral of_nat_power)
    then have "getSplitPoint (int n) = Ret (int (2 ^ j))"
      using assms j by (simp add: getSplitPoint_def b_def [symmetric] Let_def)
    moreover have "is_split n (2 ^ j)" using False le by (auto simp: is_split_def)
    ultimately show thesis by (rule that)
  qed
qed

lemma getSplitPoint_bounds: "getSplitPoint (int n) = Ret k \<Longrightarrow> 2 \<le> n \<Longrightarrow> 0 < k \<and> k < int n"
  by (metis getSplitPoint_Suc_Suc is_split_bounds of_nat_0_less_iff of_nat_less_iff option.inject)

function HashFromByteSlices :: "bytes list \<Rightarrow> bytes go" where
  "HashFromByteSlices items =
     (case items of
        [] \<Rightarrow> Ret emptyHash
      | [x] \<Rightarrow> Ret (leafHash x)
      | _ \<Rightarrow> do { k \<leftarrow> getSplitPoint (int (length items));
                 left \<leftarrow> HashFromByteSlices (take (nat k) items);
                 right \<leftarrow> HashFromByteSlices (drop (nat k) items);
                 Ret (innerHash left right) })"
  by auto
termination
proof (relation "measure length", goal_cases)
  case (2 items a x y zs k)
  then show ?case using getSplitPoint_bounds [of "length items" k] by (simp add: min_def; linarith)
next
  case (3 items a x y zs k left)
  then show ?case using getSplitPoint_bounds [of "length items" k] by simp
qed simp

declare HashFromByteSlices.simps [simp del]

text \<open>The iterative version: one pass rewrites the array in place.\<close>

function hash_pass :: "bytes list \<Rightarrow> int \<Rightarrow> int \<Rightarrow> int \<Rightarrow> (bytes list \<times> int) go" where
  "hash_pass items rp wp sz =
     (if rp < sz then
        if rp + 1 < sz then
          do { a \<leftarrow> go_index items rp; b \<leftarrow> go_index items (rp + 1);
               items' \<leftarrow> go_update items wp (innerHash a b);
               hash_pass items' (rp + 2) (wp + 1) sz }
        else
          do { a \<leftarrow> go_index items rp; items' \<leftarrow> go_update items wp a;
               hash_pass items' (rp + 1) (wp + 1) sz }
      else Ret (items, wp))"
  by auto
termination by (relation "measure (\<lambda>(items, rp, wp, sz). nat (sz - rp))") auto

declare hash_pass.simps [simp del]

partial_function (option) hash_outer :: "bytes list \<Rightarrow> int \<Rightarrow> bytes go option" where
  "hash_outer items sz =
     (if sz = 0 then Some (Ret emptyHash)
      else if sz = 1 then Some (go_index items 0)
      else case hash_pass items 0 0 sz of
             Panic \<Rightarrow> Some Panic
           | Ret (items', wp) \<Rightarrow> hash_outer items' wp)"

definition HashFromByteSlicesIterative :: "bytes list \<Rightarrow> bytes go option" where
  "HashFromByteSlicesIterative input = hash_outer (map leafHash input) (int (length input))"

section \<open>proof.go\<close>

definition MaxAunts :: int where "MaxAunts = 100"

text \<open>A \<open>[]byte\<close> whose nil-ness the code tests is a \<open>bytes ptr\<close>; \<open>bytes.Equal\<close> ignores it.\<close>

definition slice_bytes :: "bytes ptr \<Rightarrow> bytes" where
  "slice_bytes p = (case p of Nil_ptr \<Rightarrow> [] | Ptr bz \<Rightarrow> bz)"

lemma slice_bytes_simps [simp]: "slice_bytes Nil_ptr = []" "slice_bytes (Ptr bz) = bz"
  by (simp_all add: slice_bytes_def)

record Proof =
  Total :: int
  Index :: int
  LeafHash :: "bytes ptr"
  Aunts :: "bytes list"

datatype VerifyError = NegativeTotal | NegativeIndex | InvalidLeafHash | InvalidRootHash

datatype ValidateError = V_NegativeTotal | V_NegativeIndex | V_LeafHashSize | V_TooManyAunts | V_AuntSize nat

lemma getSplitPoint_pos: "getSplitPoint t = Ret k \<Longrightarrow> 1 < t \<Longrightarrow> 0 < k \<and> k < t"
  using getSplitPoint_bounds [of "nat t" k] by simp

function computeHashFromAunts :: "int \<Rightarrow> int \<Rightarrow> bytes ptr \<Rightarrow> bytes list \<Rightarrow> bytes ptr go" where
  "computeHashFromAunts index tot leaf_hash innerHashes =
     (if index \<ge> tot \<or> index < 0 \<or> tot \<le> 0 then Ret Nil_ptr
      else if tot = 0 then Panic
      else if tot = 1 then
        if length innerHashes \<noteq> 0 then Ret Nil_ptr else Ret leaf_hash
      else if length innerHashes = 0 then Ret Nil_ptr
      else
        do { numLeft \<leftarrow> getSplitPoint tot;
             if index < numLeft then
               do { leftHash \<leftarrow> computeHashFromAunts index numLeft leaf_hash (butlast innerHashes);
                    case leftHash of
                      Nil_ptr \<Rightarrow> Ret Nil_ptr
                    | Ptr l \<Rightarrow> Ret (Ptr (innerHash l (last innerHashes))) }
             else
               do { rightHash \<leftarrow> computeHashFromAunts (index - numLeft) (tot - numLeft) leaf_hash (butlast innerHashes);
                    case rightHash of
                      Nil_ptr \<Rightarrow> Ret Nil_ptr
                    | Ptr r \<Rightarrow> Ret (Ptr (innerHash (last innerHashes) r)) } })"
  by auto
termination by (relation "measure (\<lambda>(i, t, l, a). length a)") auto

declare computeHashFromAunts.simps [simp del]

definition ComputeRootHash :: "Proof \<Rightarrow> bytes ptr go" where
  "ComputeRootHash sp = computeHashFromAunts (Index sp) (Total sp) (LeafHash sp) (Aunts sp)"

definition Verify :: "Proof \<Rightarrow> bytes \<Rightarrow> bytes \<Rightarrow> (VerifyError + unit) go" where
  "Verify sp rootHash leaf =
     (let leaf_hash = leafHash leaf
      in if Total sp < 0 then Ret (Inl NegativeTotal)
         else if Index sp < 0 then Ret (Inl NegativeIndex)
         else if slice_bytes (LeafHash sp) \<noteq> leaf_hash then Ret (Inl InvalidLeafHash)
         else do { computedHash \<leftarrow> ComputeRootHash sp;
                   if slice_bytes computedHash \<noteq> rootHash then Ret (Inl InvalidRootHash)
                   else Ret (Inr ()) })"

fun check_aunts :: "nat \<Rightarrow> bytes list \<Rightarrow> ValidateError + unit" where
  "check_aunts i [] = Inr ()"
| "check_aunts i (a # as) = (if int (length a) \<noteq> HashSize then Inl (V_AuntSize i) else check_aunts (Suc i) as)"

definition Proof_ValidateBasic :: "Proof \<Rightarrow> ValidateError + unit" where
  "Proof_ValidateBasic sp =
     (if Total sp < 0 then Inl V_NegativeTotal
      else if Index sp < 0 then Inl V_NegativeIndex
      else if int (length (slice_bytes (LeafHash sp))) \<noteq> HashSize then Inl V_LeafHashSize
      else if int (length (Aunts sp)) > MaxAunts then Inl V_TooManyAunts
      else check_aunts 0 (Aunts sp))"

text \<open>The heap of \<open>ProofNode\<close>s: an address is the position at which the node was allocated.\<close>

record ProofNode =
  node_Hash :: bytes
  Parent :: "nat ptr"
  Left :: "nat ptr"
  Right :: "nat ptr"

type_synonym node_heap = "ProofNode list"

definition new_node :: "bytes \<Rightarrow> ProofNode" where
  "new_node h = \<lparr>node_Hash = h, Parent = Nil_ptr, Left = Nil_ptr, Right = Nil_ptr\<rparr>"

partial_function (option) FlattenAunts_loop :: "node_heap \<Rightarrow> nat ptr \<Rightarrow> bytes list \<Rightarrow> bytes list option" where
  "FlattenAunts_loop h spn innerHashes =
     (case spn of
        Nil_ptr \<Rightarrow> Some innerHashes
      | Ptr a \<Rightarrow>
          FlattenAunts_loop h (Parent (h ! a))
            (case Left (h ! a) of
               Ptr l \<Rightarrow> innerHashes @ [node_Hash (h ! l)]
             | Nil_ptr \<Rightarrow> (case Right (h ! a) of
                            Ptr r \<Rightarrow> innerHashes @ [node_Hash (h ! r)]
                          | Nil_ptr \<Rightarrow> innerHashes)))"

definition FlattenAunts :: "node_heap \<Rightarrow> nat \<Rightarrow> bytes list option" where
  "FlattenAunts h spn = FlattenAunts_loop h (Ptr spn) []"

function trailsFromByteSlices :: "bytes list \<Rightarrow> node_heap \<Rightarrow> (nat list \<times> nat \<times> node_heap) go" where
  "trailsFromByteSlices items h =
     (case items of
        [] \<Rightarrow> Ret ([], length h, h @ [new_node emptyHash])
      | [x] \<Rightarrow> Ret ([length h], length h, h @ [new_node (leafHash x)])
      | _ \<Rightarrow>
          do { k \<leftarrow> getSplitPoint (int (length items));
               (lefts, leftRoot, h1) \<leftarrow> trailsFromByteSlices (take (nat k) items) h;
               (rights, rightRoot, h2) \<leftarrow> trailsFromByteSlices (drop (nat k) items) h1;
               let rootHash = innerHash (node_Hash (h2 ! leftRoot)) (node_Hash (h2 ! rightRoot));
                   root = length h2;
                   h3 = h2 @ [new_node rootHash];
                   h4 = h3[leftRoot := (h3 ! leftRoot)\<lparr>Parent := Ptr root, Right := Ptr rightRoot\<rparr>];
                   h5 = h4[rightRoot := (h4 ! rightRoot)\<lparr>Parent := Ptr root, Left := Ptr leftRoot\<rparr>]
               in Ret (lefts @ rights, root, h5) })"
  by auto
termination
proof (relation "measure (length \<circ> fst)", goal_cases)
  case (2 items h a x y zs k)
  then show ?case using getSplitPoint_bounds [of "length items" k] by (simp add: min_def; linarith)
next
  case (3 items h a x y zs k)
  then show ?case using getSplitPoint_bounds [of "length items" k] by simp
qed simp

declare trailsFromByteSlices.simps [simp del]

fun proofs_loop :: "node_heap \<Rightarrow> int \<Rightarrow> nat \<Rightarrow> nat list \<Rightarrow> Proof list option" where
  "proofs_loop h n i [] = Some []"
| "proofs_loop h n i (t # ts) =
     do { aunts \<leftarrow> FlattenAunts h t;
          ps \<leftarrow> proofs_loop h n (Suc i) ts;
          Some (\<lparr>Total = n, Index = int i, LeafHash = Ptr (node_Hash (h ! t)), Aunts = aunts\<rparr> # ps) }"

definition ProofsFromByteSlices :: "bytes list \<Rightarrow> (bytes \<times> Proof list) option" where
  "ProofsFromByteSlices items =
     do { (trails, rootSPN, h) \<leftarrow> trailsFromByteSlices items [];
          ps \<leftarrow> proofs_loop h (int (length items)) 0 trails;
          Some (node_Hash (h ! rootSPN), ps) }"

section \<open>The reference tree hash\<close>

definition split_at :: "nat \<Rightarrow> nat" where
  "split_at n = nat (the (getSplitPoint (int n)))"

lemma getSplitPoint_split_at [simp]: "2 \<le> n \<Longrightarrow> getSplitPoint (int n) = Ret (int (split_at n))"
  by (metis getSplitPoint_Suc_Suc nat_int option.sel split_at_def)

lemma split_at_is_split: "2 \<le> n \<Longrightarrow> is_split n (split_at n)"
  by (metis getSplitPoint_Suc_Suc nat_int option.sel split_at_def)

lemma split_at_pos: "2 \<le> n \<Longrightarrow> 0 < split_at n" and split_at_less: "2 \<le> n \<Longrightarrow> split_at n < n"
  using split_at_is_split is_split_bounds by blast+

lemma split_at_int [simp]:
  "1 < t \<Longrightarrow> getSplitPoint t = Ret (int (split_at (nat t)))"
  using getSplitPoint_split_at [of "nat t"] by simp

lemma list_cases2: obtains "xs = []" | x where "xs = [x]" | x y zs where "xs = x # y # zs"
  by (metis list.exhaust)

function tree_hash :: "bytes list \<Rightarrow> bytes" where
  "tree_hash hs =
     (if length hs = 0 then emptyHash
      else if length hs = 1 then hs ! 0
      else innerHash (tree_hash (take (split_at (length hs)) hs)) (tree_hash (drop (split_at (length hs)) hs)))"
  by auto
termination
proof (relation "measure length", goal_cases)
  case (2 hs)
  then have "2 \<le> length hs" by (cases hs rule: list_cases2) auto
  then show ?case using split_at_less [of "length hs"] by simp
next
  case (3 hs)
  then have "2 \<le> length hs" by (cases hs rule: list_cases2) auto
  then show ?case using split_at_pos [of "length hs"] by auto
qed simp

declare tree_hash.simps [simp del]

lemma tree_hash_Nil [simp]: "tree_hash [] = emptyHash"
  by (simp add: tree_hash.simps)

lemma tree_hash_single [simp]: "tree_hash [x] = x"
  by (simp add: tree_hash.simps)

lemma tree_hash_split:
  "2 \<le> length hs \<Longrightarrow> tree_hash hs =
     innerHash (tree_hash (take (split_at (length hs)) hs)) (tree_hash (drop (split_at (length hs)) hs))"
  by (subst tree_hash.simps) auto

lemma HashFromByteSlices_tree_hash: "HashFromByteSlices items = Ret (tree_hash (map leafHash items))"
proof (induction "length items" arbitrary: items rule: less_induct)
  case less
  show ?case
  proof (cases items rule: list_cases2)
    case (3 x y zs)
    then have n: "2 \<le> length items" by simp
    let ?k = "split_at (length items)"
    have "HashFromByteSlices (take ?k items) = Ret (tree_hash (map leafHash (take ?k items)))"
      "HashFromByteSlices (drop ?k items) = Ret (tree_hash (map leafHash (drop ?k items)))"
      using less split_at_pos [OF n] split_at_less [OF n] n by auto
    then show ?thesis
      using 3 n tree_hash_split [of "map leafHash items"] getSplitPoint_split_at [OF n]
      by (subst HashFromByteSlices.simps) (simp del: split_at_int flip: take_map drop_map list.map)
  qed (simp_all add: HashFromByteSlices.simps)
qed

subsection \<open>The iterative version\<close>

fun pair_up :: "bytes list \<Rightarrow> bytes list" where
  "pair_up (a # b # hs) = innerHash a b # pair_up hs"
| "pair_up hs = hs"

lemma length_pair_up: "length (pair_up hs) = length hs div 2 + length hs mod 2"
  by (induction hs rule: pair_up.induct) auto

lemma pair_up_append: "even (length xs) \<Longrightarrow> pair_up (xs @ ys) = pair_up xs @ pair_up ys"
  by (induction xs rule: pair_up.induct) auto

lemma pair_up_single: "length hs \<le> 1 \<Longrightarrow> pair_up hs = hs"
  by (cases hs rule: pair_up.cases) auto

lemma tree_hash_pair_up: "tree_hash (pair_up hs) = tree_hash hs"
proof (induction "length hs" arbitrary: hs rule: less_induct)
  case less
  consider "length hs \<le> 1" | "length hs = 2" | "2 < length hs" by linarith
  then show ?case
  proof cases
    case 1
    then show ?thesis by (simp add: pair_up_single)
  next
    case 2
    then obtain a b where hs: "hs = [a, b]" by (auto simp: length_Suc_conv numeral_2_eq_2)
    have "split_at 2 = 1" using split_at_pos [of 2] split_at_less [of 2] by linarith
    then show ?thesis using hs tree_hash_split [of hs] by (simp add: numeral_2_eq_2)
  next
    case 3
    define n k where "n = length hs" and "k = split_at n"
    have k: "is_split n k" "0 < k" "k < n" "even k"
      using 3 split_at_is_split [of n] split_at_pos [of n] split_at_less [of n] is_split_half [of n k]
      by (auto simp: n_def k_def)
    let ?p = "pair_up hs"
    have p: "?p = pair_up (take k hs) @ pair_up (drop k hs)"
      using pair_up_append [of "take k hs" "drop k hs"] k by (simp add: n_def)
    have lp: "length ?p = n div 2 + n mod 2" by (simp add: length_pair_up n_def)
    then have lp2: "2 \<le> length ?p" using 3 unfolding n_def by presburger
    have "split_at (length ?p) = k div 2"
      using is_split_unique [OF split_at_is_split [OF lp2]] is_split_half [OF k(1)] 3 lp by (simp add: n_def)
    moreover have "length (pair_up (take k hs)) = k div 2" using k by (simp add: length_pair_up n_def)
    ultimately have "tree_hash ?p = innerHash (tree_hash (pair_up (take k hs))) (tree_hash (pair_up (drop k hs)))"
      using tree_hash_split [OF lp2] p by simp
    also have "\<dots> = innerHash (tree_hash (take k hs)) (tree_hash (drop k hs))"
      using less k by (simp add: n_def)
    also have "\<dots> = tree_hash hs" using tree_hash_split [of hs] 3 by (simp add: n_def k_def)
    finally show ?thesis .
  qed
qed

text \<open>The pass keeps the unread items and leaves the combined pairs at the front of the array.\<close>

lemma hash_pass_pair_up:
  assumes "w \<le> r" "r \<le> n" "n \<le> length items"
  shows "\<exists>items'. hash_pass items (int r) (int w) (int n) = Ret (items', int (w + length (pair_up (drop r (take n items))))) \<and>
     length items' = length items \<and>
     take (w + length (pair_up (drop r (take n items)))) items' = take w items @ pair_up (drop r (take n items))"
  using assms
proof (induction "n - r" arbitrary: items r w rule: less_induct)
  case less
  consider "r = n" | "Suc r = n" | "Suc r < n" using less.prems by linarith
  then show ?case
  proof cases
    case 1
    then show ?thesis using less.prems by (subst hash_pass.simps) simp
  next
    case 2
    then have d: "drop r (take n items) = [items ! r]"
      using less.prems by (simp add: drop_take Cons_nth_drop_Suc [symmetric] flip: 2)
    let ?i = "items[w := items ! r]"
    have "hash_pass ?i (int (Suc r)) (int (Suc w)) (int n) = Ret (?i, int (Suc w))"
      using 2 [symmetric] by (subst hash_pass.simps) simp
    then have "hash_pass items (int r) (int w) (int n) = Ret (?i, int (Suc w))"
      using 2 [symmetric] less.prems by (subst hash_pass.simps) (simp add: add.commute)
    moreover have "take (Suc w) ?i = take w items @ [items ! r]"
      using less.prems 2 by (simp add: take_Suc_conv_app_nth)
    ultimately show ?thesis using d by (intro exI [of _ ?i]) simp
  next
    case 3
    let ?v = "innerHash (items ! r) (items ! Suc r)"
    let ?i = "items[w := ?v]"
    have d: "drop r (take n items) = items ! r # items ! Suc r # drop (Suc (Suc r)) (take n items)"
      using 3 less.prems by (simp add: Cons_nth_drop_Suc [symmetric])
    have same: "drop (Suc (Suc r)) (take n ?i) = drop (Suc (Suc r)) (take n items)"
      using less.prems by (simp add: drop_update_cancel take_update_swap)
    have step: "hash_pass items (int r) (int w) (int n) = hash_pass ?i (int (Suc (Suc r))) (int (Suc w)) (int n)"
      using 3 less.prems go_index_nat [of "Suc r" items] by (subst hash_pass.simps) (simp add: algebra_simps)
    have "\<exists>items'. hash_pass ?i (int (Suc (Suc r))) (int (Suc w)) (int n) =
        Ret (items', int (Suc w + length (pair_up (drop (Suc (Suc r)) (take n ?i))))) \<and>
      length items' = length ?i \<and>
      take (Suc w + length (pair_up (drop (Suc (Suc r)) (take n ?i)))) items' =
        take (Suc w) ?i @ pair_up (drop (Suc (Suc r)) (take n ?i))"
      using 3 less.prems by (intro less.hyps) auto
    moreover have "take (Suc w) ?i = take w items @ [?v]"
      using less.prems 3 by (simp add: take_Suc_conv_app_nth)
    ultimately show ?thesis unfolding step d same by auto
  qed
qed

lemma hash_outer_tree_hash:
  "n \<le> length items \<Longrightarrow> hash_outer items (int n) = Some (Ret (tree_hash (take n items)))"
proof (induction n arbitrary: items rule: less_induct)
  case (less n)
  consider "n = 0" | "n = 1" | "2 \<le> n" by linarith
  then show ?case
  proof cases
    case 1
    then show ?thesis by (subst hash_outer.simps) simp
  next
    case 2
    then have "take n items = [items ! 0]" using less.prems by (cases items) auto
    moreover have "items \<noteq> []" using 2 less.prems by auto
    ultimately show ?thesis using 2 by (subst hash_outer.simps) (simp add: go_index_def)
  next
    case 3
    let ?m = "length (pair_up (take n items))"
    obtain items' where i: "hash_pass items 0 0 (int n) = Ret (items', int ?m)"
      "length items' = length items" "take ?m items' = pair_up (take n items)"
      using hash_pass_pair_up [of 0 0 n items] less.prems by auto
    have m: "?m < n" using 3 less.prems by (simp add: length_pair_up) presburger
    then have "hash_outer items' (int ?m) = Some (Ret (tree_hash (take n items)))"
      using less.IH [OF m, of items'] i less.prems by (simp add: tree_hash_pair_up)
    then show ?thesis using 3 i(1) by (subst hash_outer.simps) simp
  qed
qed

section \<open>Proof generation\<close>

text \<open>The aunts of position \<open>i\<close> in the reference tree, from the leaf's sibling to the root's child.\<close>

function aunts_of :: "bytes list \<Rightarrow> nat \<Rightarrow> bytes list" where
  "aunts_of hs i =
     (if length hs < 2 then []
      else let k = split_at (length hs)
           in if i < k then aunts_of (take k hs) i @ [tree_hash (drop k hs)]
              else aunts_of (drop k hs) (i - k) @ [tree_hash (take k hs)])"
  by auto
termination
proof (relation "measure (length \<circ> fst)", goal_cases)
  case (2 hs i k)
  then show ?case using split_at_less [of "length hs"] by simp
next
  case (3 hs i k)
  then show ?case using split_at_pos [of "length hs"] by auto
qed simp

declare aunts_of.simps [simp del]

lemma aunts_of_left:
  "2 \<le> length hs \<Longrightarrow> i < split_at (length hs) \<Longrightarrow>
   aunts_of hs i = aunts_of (take (split_at (length hs)) hs) i @ [tree_hash (drop (split_at (length hs)) hs)]"
  by (subst aunts_of.simps) (simp add: Let_def)

lemma aunts_of_right:
  "2 \<le> length hs \<Longrightarrow> \<not> i < split_at (length hs) \<Longrightarrow>
   aunts_of hs i = aunts_of (drop (split_at (length hs)) hs) (i - split_at (length hs)) @
                   [tree_hash (take (split_at (length hs)) hs)]"
  by (subst aunts_of.simps) (simp add: Let_def)

lemma aunts_of_short: "length hs < 2 \<Longrightarrow> aunts_of hs i = []"
  by (subst aunts_of.simps) simp

lemma computeHashFromAunts_aunts_of:
  "i < length hs \<Longrightarrow> computeHashFromAunts (int i) (int (length hs)) (Ptr (hs ! i)) (aunts_of hs i) = Ret (Ptr (tree_hash hs))"
proof (induction "length hs" arbitrary: hs i rule: less_induct)
  case less
  show ?case
  proof (cases "length hs < 2")
    case True
    then have "length hs = 1" using less.prems by linarith
    then obtain x where "hs = [x]" by (auto simp: length_Suc_conv)
    then show ?thesis using less.prems True by (subst computeHashFromAunts.simps) (simp add: aunts_of_short)
  next
    case False
    define k where "k = split_at (length hs)"
    have n: "2 \<le> length hs" using False by simp
    have k: "0 < k" "k < length hs" using split_at_pos [OF n] split_at_less [OF n] by (auto simp: k_def)
    have sp: "getSplitPoint (int (length hs)) = Ret (int k)" using getSplitPoint_split_at [OF n] by (simp add: k_def)
    show ?thesis
    proof (cases "i < k")
      case True
      have "computeHashFromAunts (int i) (int k) (Ptr (hs ! i)) (aunts_of (take k hs) i) = Ret (Ptr (tree_hash (take k hs)))"
        using less.hyps [of "take k hs" i] True k by simp
      moreover have "hs \<noteq> []" using n by auto
      ultimately show ?thesis
        using True n k sp less.prems aunts_of_left [OF n] tree_hash_split [OF n]
        by (subst computeHashFromAunts.simps) (simp add: k_def [symmetric])
    next
      case ge: False
      have "computeHashFromAunts (int (i - k)) (int (length hs - k)) (Ptr (hs ! i)) (aunts_of (drop k hs) (i - k)) = Ret (Ptr (tree_hash (drop k hs)))"
        using less.hyps [of "drop k hs" "i - k"] ge k less.prems by simp
      moreover have "hs \<noteq> []" using n by auto
      ultimately show ?thesis
        using ge n k sp less.prems aunts_of_right [OF n] tree_hash_split [OF n]
        by (subst computeHashFromAunts.simps) (simp add: k_def [symmetric] of_nat_diff)
    qed
  qed
qed

subsection \<open>The node heap\<close>

definition sibling :: "ProofNode \<Rightarrow> nat ptr" where
  "sibling n = (case Left n of Ptr l \<Rightarrow> Ptr l | Nil_ptr \<Rightarrow> Right n)"

inductive path :: "node_heap \<Rightarrow> nat \<Rightarrow> nat \<Rightarrow> bytes list \<Rightarrow> bool" for h where
  path_refl: "path h a a []"
| path_step: "a < length h \<Longrightarrow> Parent (h ! a) = Ptr b \<Longrightarrow> sibling (h ! a) = Ptr s \<Longrightarrow> s < length h \<Longrightarrow>
     path h b r as \<Longrightarrow> path h a r (node_Hash (h ! s) # as)"

definition keeps :: "node_heap \<Rightarrow> node_heap \<Rightarrow> bool" where
  "keeps h h' \<longleftrightarrow> length h \<le> length h' \<and>
     (\<forall>x < length h. node_Hash (h' ! x) = node_Hash (h ! x) \<and> (Parent (h ! x) \<noteq> Nil_ptr \<longrightarrow> h' ! x = h ! x))"

definition grows :: "node_heap \<Rightarrow> node_heap \<Rightarrow> bool" where
  "grows h h' \<longleftrightarrow> length h \<le> length h' \<and> (\<forall>x < length h. h' ! x = h ! x)"

lemma grows_keeps: "grows h h' \<Longrightarrow> keeps h h'"
  by (simp add: grows_def keeps_def)

lemma grows_trans: "grows h h' \<Longrightarrow> grows h' h'' \<Longrightarrow> grows h h''"
  by (simp add: grows_def)

lemma path_keeps: "path h a r as \<Longrightarrow> keeps h h' \<Longrightarrow> path h' a r as"
proof (induction rule: path.induct)
  case (path_step a b s r as)
  then have "h' ! a = h ! a" "node_Hash (h' ! s) = node_Hash (h ! s)" "a < length h'" "s < length h'"
    by (auto simp: keeps_def)
  then show ?case using path_step path.path_step [of a h' b s r as] by simp
qed (rule path.path_refl)

lemma path_snoc:
  "path h a r as \<Longrightarrow> r < length h \<Longrightarrow> Parent (h ! r) = Ptr p \<Longrightarrow> sibling (h ! r) = Ptr s \<Longrightarrow> s < length h \<Longrightarrow>
   path h a p (as @ [node_Hash (h ! s)])"
  by (induction rule: path.induct) (auto intro: path.intros)

lemma FlattenAunts_path:
  "path h a r as \<Longrightarrow> Parent (h ! r) = Nil_ptr \<Longrightarrow> Left (h ! r) = Nil_ptr \<Longrightarrow> Right (h ! r) = Nil_ptr \<Longrightarrow>
   FlattenAunts_loop h (Ptr a) acc = Some (acc @ as)"
proof (induction arbitrary: acc rule: path.induct)
  case (path_refl a)
  then show ?case
    by (subst FlattenAunts_loop.simps) (simp, subst FlattenAunts_loop.simps, simp)
next
  case (path_step a b s r as)
  then show ?case
    by (subst FlattenAunts_loop.simps) (auto simp: sibling_def split: ptr.splits)
qed

definition trail_spec :: "node_heap \<Rightarrow> bytes list \<Rightarrow> nat list \<Rightarrow> nat \<Rightarrow> node_heap \<Rightarrow> bool" where
  "trail_spec h0 items trails root h \<longleftrightarrow>
     grows h0 h \<and> length h0 \<le> root \<and> root < length h \<and>
     h ! root = new_node (tree_hash (map leafHash items)) \<and> length trails = length items \<and>
     (\<forall>i < length items. trails ! i < length h \<and> node_Hash (h ! (trails ! i)) = leafHash (items ! i) \<and>
        path h (trails ! i) root (aunts_of (map leafHash items) i))"

lemma trail_spec_join:
  assumes L: "trail_spec h0 (take k items) ls lr h1" and R: "trail_spec h1 (drop k items) rs rr h2"
    and n: "2 \<le> length items" and k: "k = split_at (length items)"
    and h: "h = (h2 @ [new_node (innerHash (node_Hash (h2 ! lr)) (node_Hash (h2 ! rr)))])
       [lr := (h2 ! lr)\<lparr>Parent := Ptr (length h2), Right := Ptr rr\<rparr>,
        rr := (h2 ! rr)\<lparr>Parent := Ptr (length h2), Left := Ptr lr\<rparr>]"
  shows "trail_spec h0 items (ls @ rs) (length h2) h"
proof -
  let ?hs = "map leafHash items"
  have kb: "0 < k" "k < length items" using split_at_pos [OF n] split_at_less [OF n] k by auto
  have b: "length h0 \<le> lr" "lr < length h1" "length h1 \<le> rr" "rr < length h2" "length h1 \<le> length h2"
    "length h0 \<le> length h1" using L R by (auto simp: trail_spec_def grows_def)
  have lr: "h2 ! lr = new_node (tree_hash (take k ?hs))"
    using L R b by (auto simp: trail_spec_def grows_def take_map)
  have rr: "h2 ! rr = new_node (tree_hash (drop k ?hs))"
    using R by (auto simp: trail_spec_def drop_map)
  have len: "length h = Suc (length h2)" by (simp add: h)
  have hlr: "h ! lr = (new_node (tree_hash (take k ?hs)))\<lparr>Parent := Ptr (length h2), Right := Ptr rr\<rparr>"
    and hrr: "h ! rr = (new_node (tree_hash (drop k ?hs)))\<lparr>Parent := Ptr (length h2), Left := Ptr lr\<rparr>"
    using b lr rr by (simp_all add: h nth_list_update nth_append)
  have root: "h ! length h2 = new_node (tree_hash ?hs)"
    using b tree_hash_split [of ?hs] n k lr rr by (simp add: h new_node_def)
  have keep2: "keeps h2 h"
    using b lr rr by (auto simp: keeps_def h nth_list_update nth_append new_node_def)
  have keep1: "keeps h1 h"
    using keep2 grows_keeps R b unfolding trail_spec_def keeps_def grows_def by (metis order_less_le_trans order_trans)
  have g: "grows h0 h"
    using L R b by (auto simp: trail_spec_def grows_def h nth_list_update nth_append)
  have main: "(ls @ rs) ! i < length h \<and> node_Hash (h ! ((ls @ rs) ! i)) = leafHash (items ! i) \<and>
      path h ((ls @ rs) ! i) (length h2) (aunts_of ?hs i)" if i: "i < length items" for i
  proof (cases "i < k")
    case True
    then have li: "ls ! i < length h1" "node_Hash (h1 ! (ls ! i)) = leafHash (items ! i)"
      "path h1 (ls ! i) lr (aunts_of (take k ?hs) i)" "length ls = k"
      using L kb by (auto simp: trail_spec_def take_map)
    have "path h (ls ! i) (length h2) (aunts_of (take k ?hs) i @ [node_Hash (h ! rr)])"
      using path_snoc [OF path_keeps [OF li(3) keep1], of "length h2" rr] b len hlr
      by (simp add: sibling_def new_node_def)
    then show ?thesis
      using True li keep1 b len n k hrr aunts_of_left [of ?hs i]
      by (auto simp: nth_append keeps_def new_node_def)
  next
    case False
    then have ri: "rs ! (i - k) < length h2" "node_Hash (h2 ! (rs ! (i - k))) = leafHash (items ! i)"
      "path h2 (rs ! (i - k)) rr (aunts_of (drop k ?hs) (i - k))"
      using R kb i by (auto simp: trail_spec_def drop_map)
    have ls: "length ls = k" using L kb by (auto simp: trail_spec_def)
    have "path h (rs ! (i - k)) (length h2) (aunts_of (drop k ?hs) (i - k) @ [node_Hash (h ! lr)])"
      using path_snoc [OF path_keeps [OF ri(3) keep2], of "length h2" lr] b len hrr
      by (simp add: sibling_def new_node_def)
    then show ?thesis
      using False ri keep2 b len n k ls hlr aunts_of_right [of ?hs i]
      by (auto simp: nth_append keeps_def new_node_def)
  qed
  have "length (ls @ rs) = length items" using L R kb by (auto simp: trail_spec_def)
  then show ?thesis using g b len root main by (simp add: trail_spec_def)
qed

lemma trailsFromByteSlices_spec:
  "\<exists>trails root h. trailsFromByteSlices items h0 = Ret (trails, root, h) \<and> trail_spec h0 items trails root h"
proof (induction "length items" arbitrary: items h0 rule: less_induct)
  case less
  show ?case
  proof (cases items rule: list_cases2)
    case 1
    then show ?thesis
      by (subst trailsFromByteSlices.simps) (simp add: trail_spec_def grows_def nth_append)
  next
    case (2 x)
    then show ?thesis
      by (subst trailsFromByteSlices.simps) (simp add: trail_spec_def grows_def nth_append new_node_def aunts_of_short path_refl)
  next
    case (3 x y zs)
    then have n: "2 \<le> length items" by simp
    define k where "k = split_at (length items)"
    have kb: "0 < k" "k < length items" using split_at_pos [OF n] split_at_less [OF n] by (auto simp: k_def)
    have sp: "getSplitPoint (int (length items)) = Ret (int k)" using getSplitPoint_split_at [OF n] by (simp add: k_def)
    obtain ls lr h1 where L: "trailsFromByteSlices (take k items) h0 = Ret (ls, lr, h1)" "trail_spec h0 (take k items) ls lr h1"
      using less [of "take k items" h0] kb by auto
    obtain rs rr h2 where R: "trailsFromByteSlices (drop k items) h1 = Ret (rs, rr, h2)" "trail_spec h1 (drop k items) rs rr h2"
    proof -
      have "length (drop k items) < length items" using kb by simp
      from less [OF this, of h1] show ?thesis using that by blast
    qed
    have b: "lr < length h1" "length h1 \<le> rr" "rr < length h2" "lr < length h2"
      using L(2) R(2) by (auto simp: trail_spec_def grows_def)
    show ?thesis
      using 3 sp L(1) R(1) trail_spec_join [OF L(2) R(2) n k_def refl] b
      by (subst trailsFromByteSlices.simps) (simp add: Let_def nth_append)
  qed
qed

lemma proofs_loop_spec:
  assumes "\<forall>t \<in> set ts. \<exists>as. FlattenAunts h t = Some as"
  shows "\<exists>ps. proofs_loop h n i ts = Some ps \<and> length ps = length ts \<and>
     (\<forall>j < length ts. ps ! j = \<lparr>Total = n, Index = int (i + j), LeafHash = Ptr (node_Hash (h ! (ts ! j))),
                               Aunts = the (FlattenAunts h (ts ! j))\<rparr>)"
  using assms
proof (induction ts arbitrary: i)
  case (Cons t ts)
  then obtain as ps where "FlattenAunts h t = Some as" "proofs_loop h n (Suc i) ts = Some ps" "length ps = length ts"
    "\<forall>j < length ts. ps ! j = \<lparr>Total = n, Index = int (Suc i + j), LeafHash = Ptr (node_Hash (h ! (ts ! j))),
                               Aunts = the (FlattenAunts h (ts ! j))\<rparr>"
    by (metis list.set_intros(1,2))
  then show ?case by (auto simp: nth_Cons split: nat.splits)
qed simp

lemma ProofsFromByteSlices_spec:
  "\<exists>ps. ProofsFromByteSlices items = Some (tree_hash (map leafHash items), ps) \<and> length ps = length items \<and>
     (\<forall>i < length items. ps ! i = \<lparr>Total = int (length items), Index = int i, LeafHash = Ptr (leafHash (items ! i)),
                                  Aunts = aunts_of (map leafHash items) i\<rparr>)"
proof -
  obtain ts root h where t: "trailsFromByteSlices items [] = Ret (ts, root, h)" "trail_spec [] items ts root h"
    using trailsFromByteSlices_spec by blast
  have fl: "FlattenAunts h (ts ! i) = Some (aunts_of (map leafHash items) i)" if "i < length items" for i
    using t(2) that FlattenAunts_path [of h "ts ! i" root "aunts_of (map leafHash items) i" "[]"]
    by (simp add: trail_spec_def FlattenAunts_def new_node_def)
  have len: "length ts = length items" using t(2) by (simp add: trail_spec_def)
  then have "\<forall>x \<in> set ts. \<exists>as. FlattenAunts h x = Some as" using fl by (metis in_set_conv_nth)
  from proofs_loop_spec [OF this, of "int (length items)" 0] obtain ps where
    "proofs_loop h (int (length items)) 0 ts = Some ps" "length ps = length ts"
    "\<forall>j < length ts. ps ! j = \<lparr>Total = int (length items), Index = int (0 + j), LeafHash = Ptr (node_Hash (h ! (ts ! j))),
                               Aunts = the (FlattenAunts h (ts ! j))\<rparr>" by blast
  then show ?thesis
    using t fl len by (auto simp: ProofsFromByteSlices_def trail_spec_def new_node_def)
qed

section \<open>Soundness of verification\<close>

text \<open>
  The collision extractor: it walks down the tree of \<open>items\<close> along the path of a proof and returns
  the first place at which the proof and the tree hash different inputs to the same digest.
\<close>

definition compute :: "int \<Rightarrow> int \<Rightarrow> bytes \<Rightarrow> bytes list \<Rightarrow> bytes" where
  "compute i t lh as = slice_bytes (the (computeHashFromAunts i t (Ptr lh) as))"

function collision :: "bytes list \<Rightarrow> int \<Rightarrow> bytes \<Rightarrow> bytes list \<Rightarrow> bytes \<times> bytes" where
  "collision items i leaf as =
     (if length items < 2 then (0 # leaf, 0 # items ! 0)
      else
        let k = split_at (length items); hs = map leafHash items; as' = butlast as;
            L = tree_hash (take k hs); R = tree_hash (drop k hs)
        in if i < int k then
             let l = compute i (int k) (leafHash leaf) as'
             in if l \<noteq> L \<or> last as \<noteq> R then (1 # l @ last as, 1 # L @ R)
                else collision (take k items) i leaf as'
           else
             let r = compute (i - int k) (int (length items - k)) (leafHash leaf) as'
             in if r \<noteq> R \<or> last as \<noteq> L then (1 # last as @ r, 1 # L @ R)
                else collision (drop k items) (i - int k) leaf as')"
  by auto
termination
proof (relation "measure (length \<circ> fst)", goal_cases)
  case (2 items)
  then show ?case using split_at_less [of "length items"] by simp
next
  case (3 items)
  then show ?case using split_at_pos [of "length items"] by auto
qed simp

declare collision.simps [simp del]

lemma length_hashes [simp]:
  "length (leafHash x) = 32" "length (innerHash x y) = 32" "length emptyHash = 32"
  by (simp_all add: leafHash_def innerHash_def emptyHash_def)

lemma length_tree_hash [simp]: "\<forall>h \<in> set hs. length h = 32 \<Longrightarrow> length (tree_hash hs) = 32"
  by (subst tree_hash.simps) (cases hs rule: list_cases2; simp)

lemma length_tree_hash_leaves [simp]: "length (tree_hash (map leafHash items)) = 32"
  by (rule length_tree_hash) simp

lemma computeHashFromAunts_cases:
  assumes "computeHashFromAunts i t (Ptr lh) as = Ret (Ptr c)"
  shows "0 \<le> i \<and> i < t \<and>
    (if t = 1 then as = [] \<and> c = lh
     else as \<noteq> [] \<and> 2 \<le> t \<and>
       (if i < int (split_at (nat t))
        then \<exists>l. computeHashFromAunts i (int (split_at (nat t))) (Ptr lh) (butlast as) = Ret (Ptr l) \<and> c = innerHash l (last as)
        else \<exists>r. computeHashFromAunts (i - int (split_at (nat t))) (t - int (split_at (nat t))) (Ptr lh) (butlast as) = Ret (Ptr r) \<and>
               c = innerHash (last as) r))"
  using assms by (subst (asm) computeHashFromAunts.simps) (auto split: if_splits bind_splits ptr.splits)

lemma computeHashFromAunts_length:
  "computeHashFromAunts i t (Ptr lh) as = Ret (Ptr c) \<Longrightarrow> length lh = 32 \<Longrightarrow> length c = 32"
  by (drule computeHashFromAunts_cases) (auto split: if_splits)

lemma computeHashFromAunts_returns: "\<exists>v. computeHashFromAunts i t lh as = Ret v"
proof (induction "length as" arbitrary: i t as rule: less_induct)
  case less
  show ?case
  proof (cases "i \<ge> t \<or> i < 0 \<or> t \<le> 0 \<or> t = 1 \<or> as = []")
    case True
    then show ?thesis by (subst computeHashFromAunts.simps) auto
  next
    case False
    then have t: "1 < t" "as \<noteq> []" by auto
    then have "\<exists>v. computeHashFromAunts i' t' lh (butlast as) = Ret v" for i' t'
      using less [of "butlast as"] by simp
    then obtain l r where "computeHashFromAunts i (int (split_at (nat t))) lh (butlast as) = Ret l"
      "computeHashFromAunts (i - int (split_at (nat t))) (t - int (split_at (nat t))) lh (butlast as) = Ret r" by metis
    then show ?thesis using False t by (subst computeHashFromAunts.simps) (simp split: ptr.splits)
  qed
qed

lemma Verify_returns: "\<exists>v. Verify sp r l = Ret v"
  using computeHashFromAunts_returns [of "Index sp" "Total sp" "LeafHash sp" "Aunts sp"]
  by (auto simp: Verify_def ComputeRootHash_def Let_def)

lemma proof_sound_or_collision:
  assumes "computeHashFromAunts i (int (length items)) (Ptr (leafHash leaf)) as = Ret (Ptr (tree_hash (map leafHash items)))"
  shows "leaf = items ! nat i \<or>
    (case collision items i leaf as of (x, y) \<Rightarrow> x \<noteq> y \<and> Sum x = Sum y)"
  using assms
proof (induction "length items" arbitrary: items i as rule: less_induct)
  case less
  note c = computeHashFromAunts_cases [OF less.prems]
  define k where "k = split_at (length items)"
  let ?hs = "map leafHash items"
  let ?L = "tree_hash (take k ?hs)" and ?R = "tree_hash (drop k ?hs)"
  have len: "length ?L = 32" "length ?R = 32"
    using length_tree_hash_leaves [of "take k items"] length_tree_hash_leaves [of "drop k items"]
    by (simp_all add: take_map drop_map)
  consider (one) "length items = 1" | (two) "2 \<le> length items" using c by linarith
  then show ?case
  proof cases
    case one
    then obtain x where x: "items = [x]" by (auto simp: length_Suc_conv)
    then show ?thesis using c by (subst collision.simps) (auto simp: leafHash_def)
  next
    case two
    have kb: "0 < k" "k < length items" using split_at_pos [OF two] split_at_less [OF two] by (auto simp: k_def)
    have root: "tree_hash ?hs = innerHash ?L ?R" using tree_hash_split [of ?hs] two by (simp add: k_def)
    have nx: "as \<noteq> []" "0 \<le> i" "i < int (length items)" using c two by auto
    show ?thesis
    proof (cases "i < int k")
      case True
      then obtain l where l: "computeHashFromAunts i (int k) (Ptr (leafHash leaf)) (butlast as) = Ret (Ptr l)"
        "innerHash ?L ?R = innerHash l (last as)" using c two root by (auto simp: k_def)
      have ll: "length l = 32" using computeHashFromAunts_length [OF l(1)] by simp
      have cl: "compute i (int k) (leafHash leaf) (butlast as) = l" by (simp add: compute_def l(1))
      show ?thesis
      proof (cases "l \<noteq> ?L \<or> last as \<noteq> ?R")
        case ne: True
        then have "collision items i leaf as = (1 # l @ last as, 1 # ?L @ ?R)"
          using two True cl by (subst collision.simps) (simp add: Let_def k_def [symmetric])
        then show ?thesis using ne ll len l(2) by (auto simp: innerHash_def)
      next
        case eq: False
        then have "collision items i leaf as = collision (take k items) i leaf (butlast as)"
          using two True cl by (subst collision.simps) (simp add: Let_def k_def [symmetric])
        moreover have "take k items ! nat i = items ! nat i" using True nx by simp
        ultimately show ?thesis
          using less.hyps [of "take k items" i "butlast as"] kb l(1) eq by (simp add: take_map)
      qed
    next
      case False
      then obtain r where r: "computeHashFromAunts (i - int k) (int (length items - k)) (Ptr (leafHash leaf)) (butlast as) = Ret (Ptr r)"
        "innerHash ?L ?R = innerHash (last as) r" using c two root kb by (auto simp: k_def of_nat_diff)
      have lr: "length r = 32" using computeHashFromAunts_length [OF r(1)] by simp
      have cr: "compute (i - int k) (int (length items - k)) (leafHash leaf) (butlast as) = r" by (simp add: compute_def r(1))
      show ?thesis
      proof (cases "r \<noteq> ?R \<or> last as \<noteq> ?L")
        case ne: True
        then have "collision items i leaf as = (1 # last as @ r, 1 # ?L @ ?R)"
          using two False cr by (subst collision.simps) (simp add: Let_def k_def [symmetric])
        then show ?thesis using ne lr len r(2) by (auto simp: innerHash_def)
      next
        case eq: False
        then have "collision items i leaf as = collision (drop k items) (i - int k) leaf (butlast as)"
          using two False cr by (subst collision.simps) (simp add: Let_def k_def [symmetric])
        moreover have "drop k items ! nat (i - int k) = items ! nat i"
          using False nx kb by (simp add: nat_diff_distrib)
        ultimately show ?thesis
          using less.hyps [of "drop k items" "i - int k" "butlast as"] kb r(1) eq by (simp add: drop_map)
      qed
    qed
  qed
qed

lemma verify_sound:
  assumes "HashFromByteSlices items = Ret root" "Verify sp root leaf = Ret (Inr ())"
    and "Total sp = int (length items)"
  shows "0 \<le> Index sp \<and> Index sp < Total sp \<and>
     (leaf = items ! nat (Index sp) \<or>
      (case collision items (Index sp) leaf (Aunts sp) of (x, y) \<Rightarrow> x \<noteq> y \<and> Sum x = Sum y))"
proof -
  have root: "root = tree_hash (map leafHash items)" using assms(1) by (simp add: HashFromByteSlices_tree_hash)
  obtain lh where lh: "LeafHash sp = Ptr lh" "lh = leafHash leaf"
    using assms(2) Sum_not_Nil [of "0 # leaf", symmetric]
    by (cases "LeafHash sp") (auto simp: Verify_def Let_def leafHash_def split: if_splits)
  obtain c where c: "computeHashFromAunts (Index sp) (Total sp) (Ptr (leafHash leaf)) (Aunts sp) = Ret c"
    "slice_bytes c = root"
    using assms(2) lh by (auto simp: Verify_def ComputeRootHash_def Let_def split: if_splits bind_splits)
  have "root \<noteq> []" using root length_tree_hash_leaves [of items] by force
  then have "c = Ptr root" using c(2) by (cases c) auto
  then have comp: "computeHashFromAunts (Index sp) (int (length items)) (Ptr (leafHash leaf)) (Aunts sp) =
      Ret (Ptr (tree_hash (map leafHash items)))" using c(1) assms(3) root by simp
  show ?thesis
    using proof_sound_or_collision [OF comp] computeHashFromAunts_cases [OF comp] assms(3) by simp
qed

section \<open>Properties\<close>

text \<open>C37: the iterative tree hash returns for every input and agrees with the recursive one.\<close>

theorem Iterative_eq_recursive:
  "\<exists>h. HashFromByteSlicesIterative items = Some (Ret h) \<and> HashFromByteSlices items = Ret h"
  using hash_outer_tree_hash [of "length items" "map leafHash items"]
  by (simp add: HashFromByteSlicesIterative_def HashFromByteSlices_tree_hash)

text \<open>\<open>ProofsFromByteSlices\<close> returns for every list of items: its root is the tree hash, there is one
  proof per item, and each proof passes \<open>ValidateBasic\<close>'s index checks and verifies for its item.\<close>

theorem generated_proofs_verify:
  "\<exists>root proofs. ProofsFromByteSlices items = Some (root, proofs) \<and> HashFromByteSlices items = Ret root \<and>
     length proofs = length items \<and>
     (\<forall>i < length items. Verify (proofs ! i) root (items ! i) = Ret (Inr ()) \<and>
        Index (proofs ! i) = int i \<and> Total (proofs ! i) = int (length items))"
proof -
  obtain ps where ps: "ProofsFromByteSlices items = Some (tree_hash (map leafHash items), ps)" "length ps = length items"
    "\<forall>i < length items. ps ! i = \<lparr>Total = int (length items), Index = int i, LeafHash = Ptr (leafHash (items ! i)),
                                  Aunts = aunts_of (map leafHash items) i\<rparr>"
    using ProofsFromByteSlices_spec by blast
  have "Verify (ps ! i) (tree_hash (map leafHash items)) (items ! i) = Ret (Inr ())" if "i < length items" for i
    using ps(3) that computeHashFromAunts_aunts_of [of i "map leafHash items"]
    by (simp add: Verify_def ComputeRootHash_def)
  then show ?thesis using ps by (auto simp: HashFromByteSlices_tree_hash)
qed

theorem generated_proofs_verify_witness:
  "\<exists>root proofs. ProofsFromByteSlices [[1], [2], [3]] = Some (root, proofs) \<and>
     Verify (proofs ! 2) root [3] = Ret (Inr ())"
proof -
  obtain root proofs where "ProofsFromByteSlices [[1], [2], [3]] = Some (root, proofs)"
    "\<forall>i < length [[1::byte], [2], [3]]. Verify (proofs ! i) root ([[1], [2], [3]] ! i) = Ret (Inr ())"
    using generated_proofs_verify [of "[[1], [2], [3]]"] by blast
  moreover from this(2) [rule_format, of 2] have "Verify (proofs ! 2) root [3] = Ret (Inr ())" by simp
  ultimately show ?thesis by auto
qed



end
