(* ===== verification/Convert.thy ===== *)
theory Convert
  imports Prelude
begin

text \<open>
  Models of \<open>utils/convert.go\<close> (little-endian integers, the interface-typed \<open>IntToBytes\<close> and
  \<open>BytesToInt\<close>), \<open>utils/compare-bytes.go\<close> (\<open>CompareBytesList\<close>, \<open>SplitByteArray\<close>) and
  \<open>utils/dep-graph.go\<close>. The lemmas: encoding and decoding are inverse at every width, the default
  case returns nil, and splitting returns for every positive size and loses no byte.
\<close>

section \<open>Little-endian integers\<close>

text \<open>\<open>binary.LittleEndian.PutUintN\<close> and \<open>UintN\<close>; the reader panics on a slice shorter than \<open>n\<close>.\<close>

definition le_put :: "nat \<Rightarrow> 'a::len word \<Rightarrow> bytes" where
  "le_put n w = map (\<lambda>i. ucast (drop_bit (8 * i) w)) [0..<n]"

fun le_join :: "bytes \<Rightarrow> 'a::len word" where
  "le_join [] = 0"
| "le_join (b # bs) = ucast b OR push_bit 8 (le_join bs)"

definition le_get :: "nat \<Rightarrow> bytes \<Rightarrow> 'a::len word go" where
  "le_get n data = (if length data < n then Panic else Ret (le_join (take n data)))"

text \<open>The dynamic type and value of the \<open>interface{}\<close> argument.\<close>

datatype go_type = T_int8 | T_uint8 | T_int16 | T_uint16 | T_int32 | T_uint32 | T_int64 | T_uint64 | T_other

datatype go_num =
  V_int8 "8 word" | V_uint8 "8 word" | V_int16 "16 word" | V_uint16 "16 word"
| V_int32 "32 word" | V_uint32 "32 word" | V_int64 "64 word" | V_uint64 "64 word" | V_other

fun type_of_num :: "go_num \<Rightarrow> go_type" where
  "type_of_num (V_int8 _) = T_int8" | "type_of_num (V_uint8 _) = T_uint8"
| "type_of_num (V_int16 _) = T_int16" | "type_of_num (V_uint16 _) = T_uint16"
| "type_of_num (V_int32 _) = T_int32" | "type_of_num (V_uint32 _) = T_uint32"
| "type_of_num (V_int64 _) = T_int64" | "type_of_num (V_uint64 _) = T_uint64"
| "type_of_num V_other = T_other"

fun IntToBytes :: "go_num \<Rightarrow> bytes ptr" where
  "IntToBytes (V_int8 v) = Ptr [v]"
| "IntToBytes (V_uint8 v) = Ptr [v]"
| "IntToBytes (V_int16 v) = Ptr (le_put 2 v)"
| "IntToBytes (V_uint16 v) = Ptr (le_put 2 v)"
| "IntToBytes (V_int32 v) = Ptr (le_put 4 v)"
| "IntToBytes (V_uint32 v) = Ptr (le_put 4 v)"
| "IntToBytes (V_int64 v) = Ptr (le_put 8 v)"
| "IntToBytes (V_uint64 v) = Ptr (le_put 8 v)"
| "IntToBytes V_other = Nil_ptr"

definition BytesToInt :: "bytes \<Rightarrow> go_type \<Rightarrow> go_num ptr go" where
  "BytesToInt data ty =
     (case ty of
        T_int8 \<Rightarrow> map_option (Ptr \<circ> V_int8) (go_index data 0)
      | T_uint8 \<Rightarrow> map_option (Ptr \<circ> V_uint8) (go_index data 0)
      | T_int16 \<Rightarrow> map_option (Ptr \<circ> V_int16) (le_get 2 data)
      | T_uint16 \<Rightarrow> map_option (Ptr \<circ> V_uint16) (le_get 2 data)
      | T_int32 \<Rightarrow> map_option (Ptr \<circ> V_int32) (le_get 4 data)
      | T_uint32 \<Rightarrow> map_option (Ptr \<circ> V_uint32) (le_get 4 data)
      | T_int64 \<Rightarrow> map_option (Ptr \<circ> V_int64) (le_get 8 data)
      | T_uint64 \<Rightarrow> map_option (Ptr \<circ> V_uint64) (le_get 8 data)
      | T_other \<Rightarrow> Ret Nil_ptr)"

definition BytesToUint32 :: "bytes \<Rightarrow> 32 word go" where
  "BytesToUint32 data = le_get 4 data"

definition Uint32ToBytes :: "32 word \<Rightarrow> bytes" where
  "Uint32ToBytes num = le_put 4 num"

section \<open>Lists of byte slices\<close>

fun compare_loop :: "bytes list \<Rightarrow> bytes list \<Rightarrow> bool" where
  "compare_loop (x # a) (y # b) = (if x \<noteq> y then False else compare_loop a b)"
| "compare_loop _ _ = True"

definition CompareBytesList :: "bytes list \<Rightarrow> bytes list \<Rightarrow> bool" where
  "CompareBytesList a b = (if length a \<noteq> length b then False else compare_loop a b)"

text \<open>
  The loop of \<open>SplitByteArray\<close> does not end for size 0 (the value \<open>None\<close>) and panics on a negative
  size (\<open>Some Panic\<close>).
\<close>

partial_function (option) split_loop :: "bytes \<Rightarrow> int \<Rightarrow> int \<Rightarrow> bytes list \<Rightarrow> bytes list go option" where
  "split_loop data sz i result =
     (if i < int (length data) then
        case go_slice data i (if i + sz > int (length data) then int (length data) else i + sz) of
          Panic \<Rightarrow> Some Panic
        | Ret part \<Rightarrow> split_loop data sz (i + sz) (result @ [part])
      else Some (Ret result))"

declare split_loop.simps [code]

definition SplitByteArray :: "bytes \<Rightarrow> int \<Rightarrow> bytes list go option" where
  "SplitByteArray data sz = split_loop data sz 0 []"

section \<open>Dependency graph\<close>

record DependencyGraph =
  dpMap :: "string \<rightharpoonup> int"

definition NewDependencyGraph :: DependencyGraph where
  "NewDependencyGraph = \<lparr>dpMap = Map.empty\<rparr>"

definition AddWrite :: "DependencyGraph \<Rightarrow> string \<Rightarrow> int \<Rightarrow> DependencyGraph" where
  "AddWrite dg w index = dg\<lparr>dpMap := (dpMap dg)(w \<mapsto> index)\<rparr>"

definition AddRead :: "DependencyGraph \<Rightarrow> string \<Rightarrow> int \<times> bool" where
  "AddRead dg r = (case dpMap dg r of Some index \<Rightarrow> (index, True) | None \<Rightarrow> (0, False))"

section \<open>Lemmas\<close>

lemma length_le_put [simp]: "length (le_put n w) = n"
  by (simp add: le_put_def)

lemma bit_le_join:
  fixes bz :: bytes
  shows "bit (le_join bz :: 'a::len word) k \<longleftrightarrow> k < LENGTH('a) \<and> k < 8 * length bz \<and> bit (bz ! (k div 8)) (k mod 8)"
proof (induction bz arbitrary: k)
  case (Cons b bs)
  show ?case
  proof (cases "k < 8")
    case True
    then show ?thesis by (simp add: bit_simps)
  next
    case False
    then obtain j where "k = 8 + j" by (metis add.commute le_Suc_ex not_less)
    moreover from this have "k div 8 = Suc (j div 8)" by simp
    ultimately show ?thesis using Cons.IH [of j] by (auto simp: bit_simps dest: bit_imp_le_length)
  qed
qed simp

lemma le_join_put:
  fixes w :: "'a::len word"
  assumes "8 * n = LENGTH('a)"
  shows "le_join (le_put n w) = w"
proof (rule bit_word_eqI)
  fix k assume k: "k < LENGTH('a)"
  then have "k div 8 < n" using assms by (simp add: less_mult_imp_div_less mult.commute)
  then have "le_put n w ! (k div 8) = ucast (drop_bit (8 * (k div 8)) w)" by (simp add: le_put_def)
  then show "bit (le_join (le_put n w) :: 'a word) k = bit w k"
    using k assms by (simp add: bit_le_join bit_simps)
qed

lemma le_get_put [simp]: "8 * n = LENGTH('a) \<Longrightarrow> le_get n (le_put n w) = Ret (w :: 'a::len word)"
  by (simp add: le_get_def le_join_put)

lemma le_put_inject: "8 * n = LENGTH('a) \<Longrightarrow> le_put n v = le_put n w \<longleftrightarrow> v = (w :: 'a::len word)"
  by (metis le_join_put)

lemma CompareBytesList_iff: "CompareBytesList a b \<longleftrightarrow> a = b"
proof -
  have "length a = length b \<Longrightarrow> compare_loop a b \<longleftrightarrow> a = b" by (induction a b rule: list_induct2) auto
  then show ?thesis by (auto simp: CompareBytesList_def)
qed

lemma AddRead_AddWrite: "AddRead (AddWrite dg w i) r = (if r = w then (i, True) else AddRead dg r)"
  by (simp add: AddRead_def AddWrite_def)

text \<open>The pieces of a slice: the reference definition of \<open>SplitByteArray\<close>.\<close>

function chunks :: "nat \<Rightarrow> 'a list \<Rightarrow> 'a list list" where
  "chunks n xs = (if xs = [] \<or> n = 0 then [] else take n xs # chunks n (drop n xs))"
  by auto
termination by (relation "measure (\<lambda>(n, xs). length xs)") auto

declare chunks.simps [simp del]

lemma chunks_Nil [simp]: "chunks n [] = []"
  by (simp add: chunks.simps)

lemma concat_chunks: "0 < n \<Longrightarrow> concat (chunks n xs) = xs"
proof (induction n xs rule: chunks.induct)
  case (1 n xs)
  then show ?case by (cases "xs = []") (simp_all add: chunks.simps [of n xs])
qed

lemma chunks_sizes: "p \<in> set (chunks n xs) \<Longrightarrow> 0 < length p \<and> length p \<le> n"
proof (induction n xs rule: chunks.induct)
  case (1 n xs)
  show ?case
  proof (cases "xs = [] \<or> n = 0")
    case True
    then show ?thesis using "1.prems" by (simp add: chunks.simps [of n xs])
  next
    case False
    then consider "p = take n xs" | "p \<in> set (chunks n (drop n xs))"
      using "1.prems" by (auto simp: chunks.simps [of n xs])
    then show ?thesis using False "1.IH" by cases auto
  qed
qed

lemma length_chunks: "0 < n \<Longrightarrow> length (chunks n xs) = (length xs + n - 1) div n"
proof (induction n xs rule: chunks.induct)
  case (1 n xs)
  show ?case
  proof (cases "xs = []")
    case False
    have "(length xs + n - 1) div n = (length xs - n + n - 1) div n + 1" 
    proof (cases "n \<le> length xs")
      case True
      then have "length xs + n - 1 = (length xs - n + n - 1) + n" using "1.prems" by simp
      then show ?thesis using "1.prems" by (metis Suc_eq_plus1 div_add_self2 less_numeral_extra(3))
    next
      case less: False
      then have eq: "length xs + n - 1 = (length xs - 1) + n" and lt: "length xs - 1 < n"
        using False by (cases xs; simp)+
      have "(length xs + n - 1) div n = 1" unfolding eq using lt "1.prems" by (subst div_add_self2) auto
      moreover have "length xs - n + n - 1 < n" using less "1.prems" by simp
      ultimately show ?thesis by simp
    qed
    moreover have "length (chunks n xs) = Suc (length (chunks n (drop n xs)))"
      using False "1.prems" by (subst chunks.simps) simp
    ultimately show ?thesis using False "1.IH" "1.prems" by simp
  qed (use "1.prems" in simp)
qed

lemma split_loop_chunks:
  "0 < n \<Longrightarrow> i \<le> length data \<Longrightarrow>
   split_loop data (int n) (int i) result = Some (Ret (result @ chunks n (drop i data)))"
proof (induction "length data - i" arbitrary: i result rule: less_induct)
  case less
  show ?case
  proof (cases "i < length data")
    case True
    let ?e = "if int i + int n > int (length data) then int (length data) else int i + int n"
    have sl: "go_slice data (int i) ?e = Ret (take n (drop i data))"
      using True by (auto simp: go_slice_def)
    have ch: "chunks n (drop i data) = take n (drop i data) # chunks n (drop (i + n) data)"
      using True less.prems by (subst chunks.simps) (simp add: add.commute)
    show ?thesis
    proof (cases "i + n \<le> length data")
      case le: True
      then have "split_loop data (int n) (int (i + n)) (result @ [take n (drop i data)]) =
          Some (Ret ((result @ [take n (drop i data)]) @ chunks n (drop (i + n) data)))"
        using True less.prems by (intro less.hyps) auto
      then show ?thesis using True sl ch by (subst split_loop.simps) simp
    next
      case gt: False
      then have "chunks n (drop (i + n) data) = []" by (simp add: chunks.simps)
      moreover have "split_loop data (int n) (int i + int n) r = Some (Ret r)" for r
        using gt by (subst split_loop.simps) simp
      ultimately show ?thesis using True sl ch by (subst split_loop.simps) simp
    qed
  next
    case False
    then show ?thesis using less.prems by (subst split_loop.simps) (simp add: chunks.simps)
  qed
qed

lemma SplitByteArray_chunks: "0 < sz \<Longrightarrow> SplitByteArray data sz = Some (Ret (chunks (nat sz) data))"
  using split_loop_chunks [of "nat sz" 0 data "[]"] by (simp add: SplitByteArray_def)

text \<open>Every supported integer survives \<open>IntToBytes\<close> followed by \<open>BytesToInt\<close> at its own type.\<close>

theorem IntToBytes_roundtrip:
  "v \<noteq> V_other \<Longrightarrow> \<exists>bz. IntToBytes v = Ptr bz \<and> BytesToInt bz (type_of_num v) = Ret (Ptr v)"
  by (cases v) (simp_all add: BytesToInt_def go_index_def)

theorem IntToBytes_roundtrip_witness:
  "\<exists>bz. IntToBytes (V_int32 0x01020304) = Ptr bz \<and> BytesToInt bz T_int32 = Ret (Ptr (V_int32 0x01020304))"
  using IntToBytes_roundtrip [of "V_int32 0x01020304"] by simp

text \<open>For a positive size \<open>SplitByteArray\<close> returns; the pieces concatenate to the input, none is
  empty or longer than the size, and there are \<open>\<lceil>len / size\<rceil>\<close> of them.\<close>

theorem SplitByteArray_partitions:
  assumes "0 < sz"
  shows "\<exists>parts. SplitByteArray data sz = Some (Ret parts) \<and> concat parts = data \<and>
           (\<forall>p \<in> set parts. p \<noteq> [] \<and> int (length p) \<le> sz) \<and>
           length parts = (length data + nat sz - 1) div nat sz"
  using assms chunks_sizes [of _ "nat sz" data]
  by (fastforce simp: SplitByteArray_chunks concat_chunks length_chunks)

theorem SplitByteArray_partitions_witness:
  "\<exists>parts. SplitByteArray [1, 2, 3, 4, 5] 2 = Some (Ret parts) \<and> concat parts = [1, 2, 3, 4, 5] \<and> length parts = 3"
  using SplitByteArray_partitions [of 2 "[1, 2, 3, 4, 5]"] by auto

end
