(* ===== verification/Txs.thy ===== *)
theory Txs
  imports Merkle Convert "HOL-Library.AList"
begin

text \<open>
  Model of \<open>melete/types/tx.go\<close> (transactions, their Merkle root and inclusion proofs) and
  \<open>melete/types/abci-resp.go\<close> (execution receipts and their message form).
\<close>

section \<open>Transactions\<close>

type_synonym Tx = bytes
type_synonym Txs = "Tx list"

definition Tx_Hash :: "Tx \<Rightarrow> bytes" where
  "Tx_Hash tx = Sum tx"

definition Tx_Key :: "Tx \<Rightarrow> string" where
  "Tx_Key tx = bytes_str tx"

definition Txs_Hash :: "Txs \<Rightarrow> bytes go" where
  "Txs_Hash txs = HashFromByteSlices (map Tx_Hash txs)"

fun Txs_Index_from :: "int \<Rightarrow> Txs \<Rightarrow> Tx \<Rightarrow> int" where
  "Txs_Index_from i [] tx = -1"
| "Txs_Index_from i (t # ts) tx = (if t = tx then i else Txs_Index_from (i + 1) ts tx)"

definition Txs_Index :: "Txs \<Rightarrow> Tx \<Rightarrow> int" where
  "Txs_Index txs tx = Txs_Index_from 0 txs tx"

fun IndexByHash_from :: "int \<Rightarrow> Txs \<Rightarrow> bytes \<Rightarrow> int" where
  "IndexByHash_from i [] hs = -1"
| "IndexByHash_from i (t # ts) hs = (if Tx_Hash t = hs then i else IndexByHash_from (i + 1) ts hs)"

definition IndexByHash :: "Txs \<Rightarrow> bytes \<Rightarrow> int" where
  "IndexByHash txs hs = IndexByHash_from 0 txs hs"

record TxProof =
  RootHash :: bytes
  tp_Data :: Tx
  tp_Proof :: Proof

definition Txs_Proof :: "Txs \<Rightarrow> int \<Rightarrow> TxProof go" where
  "Txs_Proof txs i =
     do { (root, proofs) \<leftarrow> ProofsFromByteSlices (map Tx_Hash txs);
          d \<leftarrow> go_index txs i;
          p \<leftarrow> go_index proofs i;
          Ret \<lparr>RootHash = root, tp_Data = d, tp_Proof = p\<rparr> }"

definition Txs_ToProto :: "Txs \<Rightarrow> bytes list" where
  "Txs_ToProto txs = map (\<lambda>v. v) txs"

definition NewTxsFromProto :: "bytes list \<Rightarrow> Txs" where
  "NewTxsFromProto p = map (\<lambda>v. v) p"

definition TxProof_Leaf :: "TxProof \<Rightarrow> bytes" where
  "TxProof_Leaf tp = Tx_Hash (tp_Data tp)"

datatype TxProofError = DifferentDataHash | NegativeProofIndex | NonPositiveTotal | Inconsistent

definition TxProof_Validate :: "TxProof \<Rightarrow> bytes \<Rightarrow> (TxProofError + unit) go" where
  "TxProof_Validate tp dataHash =
     (if dataHash \<noteq> RootHash tp then Ret (Inl DifferentDataHash)
      else if Index (tp_Proof tp) < 0 then Ret (Inl NegativeProofIndex)
      else if Total (tp_Proof tp) \<le> 0 then Ret (Inl NonPositiveTotal)
      else do { valid \<leftarrow> Verify (tp_Proof tp) (RootHash tp) (TxProof_Leaf tp);
                case valid of Inl _ \<Rightarrow> Ret (Inl Inconsistent) | Inr _ \<Rightarrow> Ret (Inr ()) })"

section \<open>Execution receipts\<close>

definition CodeTypeNone :: int where "CodeTypeNone = 0"
definition CodeTypeOK :: int where "CodeTypeOK = 1"
definition CodeTypeEncodingError :: int where "CodeTypeEncodingError = 2"
definition CodeTypeAbort :: int where "CodeTypeAbort = 3"
definition CodeTypeUnknownError :: int where "CodeTypeUnknownError = 4"

lemmas code_type_defs = CodeTypeNone_def CodeTypeOK_def CodeTypeEncodingError_def CodeTypeAbort_def
  CodeTypeUnknownError_def

record ABCIPreExecutionResponseC =
  pc_Code :: int
  pc_CrossShardDatas :: "bytes list"

record ABCIPreExecutionResponseI =
  pi_Code :: int
  CommitStatusVote :: "bytes list"

text \<open>A Go map is an association list with distinct keys; its order is the iteration order of one run.\<close>

record ABCIExecutionReceipt =
  rc_Code :: int
  Log :: string
  Info :: string
  Options :: "(string \<times> string) list"

record ABCIExecutionResponse =
  CrossShardResps :: "string \<rightharpoonup> ABCIExecutionReceipt ptr list"
  InnerShardResps :: "string \<rightharpoonup> ABCIExecutionReceipt ptr list"

record pb_Receipt =
  pr_Code :: int
  pr_Log :: string
  pr_Info :: string
  OptionKey :: "string list"
  OptionValue :: "string list"

definition Receipt_IsOK :: "ABCIExecutionReceipt \<Rightarrow> bool" where
  "Receipt_IsOK r = (rc_Code r = CodeTypeOK)"

text \<open>The second loop appends the option values to the list of keys, as the source does.\<close>

definition Receipt_ToProto :: "ABCIExecutionReceipt \<Rightarrow> pb_Receipt" where
  "Receipt_ToProto r =
     (let opKeyList = sort (map fst (Options r));
          values = map (\<lambda>key. case map_of (Options r) key of Some v \<Rightarrow> v | None \<Rightarrow> '''') opKeyList
      in \<lparr>pr_Code = i32 (rc_Code r), pr_Log = Log r, pr_Info = Info r,
          OptionKey = opKeyList @ values, OptionValue = []\<rparr>)"

fun receipt_options :: "string list \<Rightarrow> string list \<Rightarrow> int \<Rightarrow> (string \<times> string) list \<Rightarrow> (string \<times> string) list go" where
  "receipt_options [] vals i opMap = Ret opMap"
| "receipt_options (key # keys) vals i opMap =
     do { v \<leftarrow> go_index vals i; receipt_options keys vals (i + 1) (AList.update key v opMap) }"

definition NewABCIReceiptFromProto :: "pb_Receipt \<Rightarrow> ABCIExecutionReceipt go" where
  "NewABCIReceiptFromProto p =
     do { opMap \<leftarrow> receipt_options (OptionKey p) (OptionValue p) 0 [];
          Ret \<lparr>rc_Code = i8 (pr_Code p), Log = pr_Log p, Info = pr_Info p, Options = opMap\<rparr> }"

section \<open>Properties\<close>

lemma Txs_Index_from_bounds:
  "Txs_Index_from i txs tx \<noteq> -1 \<Longrightarrow> 0 \<le> i \<Longrightarrow>
   i \<le> Txs_Index_from i txs tx \<and> Txs_Index_from i txs tx < i + int (length txs) \<and>
   txs ! nat (Txs_Index_from i txs tx - i) = tx"
proof (induction i txs tx rule: Txs_Index_from.induct)
  case (2 i t ts tx)
  show ?case
  proof (cases "t = tx")
    case False
    then have "i + 1 \<le> Txs_Index_from (i + 1) ts tx \<and> Txs_Index_from (i + 1) ts tx < i + 1 + int (length ts) \<and>
      ts ! nat (Txs_Index_from (i + 1) ts tx - (i + 1)) = tx" using 2 by auto
    moreover from this have "nat (Txs_Index_from (i + 1) ts tx - i) = Suc (nat (Txs_Index_from (i + 1) ts tx - (i + 1)))"
      by (subst Suc_nat_eq_nat_zadd1) auto
    ultimately show ?thesis using False by auto
  qed simp
qed simp

lemma Txs_Proof_valid:
  assumes "i < length txs"
  shows "\<exists>tp root. Txs_Proof txs (int i) = Ret tp \<and> Txs_Hash txs = Ret root \<and> tp_Data tp = txs ! i \<and>
           TxProof_Validate tp root = Ret (Inr ())"
proof -
  obtain ps where ps: "ProofsFromByteSlices (map Tx_Hash txs) = Some (tree_hash (map leafHash (map Tx_Hash txs)), ps)"
    "length ps = length txs"
    "\<forall>j < length txs. ps ! j = \<lparr>Total = int (length txs), Index = int j, LeafHash = Ptr (leafHash (Tx_Hash (txs ! j))),
       Aunts = aunts_of (map leafHash (map Tx_Hash txs)) j\<rparr>"
    using ProofsFromByteSlices_spec [of "map Tx_Hash txs"] by auto
  have v: "Verify (ps ! i) (tree_hash (map leafHash (map Tx_Hash txs))) (Tx_Hash (txs ! i)) = Ret (Inr ())"
    using ps(3) assms computeHashFromAunts_aunts_of [of i "map leafHash (map Tx_Hash txs)"]
    by (simp add: Verify_def ComputeRootHash_def)
  moreover have "txs \<noteq> []" using assms by auto
  ultimately show ?thesis
    using ps assms
    by (simp add: Txs_Proof_def Txs_Hash_def HashFromByteSlices_tree_hash TxProof_Validate_def TxProof_Leaf_def)
qed

text \<open>The inclusion proof built for a transaction of a list validates against the list's data hash.\<close>

theorem TxProof_complete:
  assumes "i < length txs"
  shows "\<exists>tp root. Txs_Proof txs (int i) = Ret tp \<and> Txs_Hash txs = Ret root \<and> tp_Data tp = txs ! i \<and>
           TxProof_Validate tp root = Ret (Inr ())"
  using assms by (rule Txs_Proof_valid)

theorem TxProof_complete_witness:
  "\<exists>tp root. Txs_Proof [[7], [8, 9]] 1 = Ret tp \<and> Txs_Hash [[7], [8, 9]] = Ret root \<and> tp_Data tp = [8, 9] \<and>
     TxProof_Validate tp root = Ret (Inr ())"
  using TxProof_complete [of 1 "[[7], [8, 9]]"] by simp

text \<open>A receipt with at least one option cannot be read back: its message has more option keys than
  option values, and decoding it panics; without options it survives the round trip.\<close>

theorem Receipt_roundtrip_iff_no_options:
  assumes "-128 \<le> rc_Code r" "rc_Code r < 128"
  shows "NewABCIReceiptFromProto (Receipt_ToProto r) = (if Options r = [] then Ret r else Panic)"
proof (cases "Options r = []")
  case True
  have "i8 (i32 (rc_Code r)) = rc_Code r" using assms by (simp add: i32_id i8_id)
  then show ?thesis using True by (simp add: NewABCIReceiptFromProto_def Receipt_ToProto_def)
next
  case False
  then have "sort (map fst (Options r)) \<noteq> []" by (metis map_is_Nil_conv set_empty set_sort)
  then obtain k ks where "sort (map fst (Options r)) = k # ks" by (cases "sort (map fst (Options r))") auto
  then show ?thesis using False by (simp add: NewABCIReceiptFromProto_def Receipt_ToProto_def Let_def go_index_def)
qed

theorem Receipt_roundtrip_iff_no_options_witness:
  "NewABCIReceiptFromProto (Receipt_ToProto \<lparr>rc_Code = 1, Log = [], Info = [], Options = [(''a'', ''b'')]\<rparr>) = Panic"
  using Receipt_roundtrip_iff_no_options [of "\<lparr>rc_Code = 1, Log = [], Info = [], Options = [(''a'', ''b'')]\<rparr>"]
  by simp

end
