(* ===== verification/Blocks.thy ===== *)
theory Blocks
  imports Txs
begin

text \<open>
  Model of \<open>melete/types/block.go\<close> (headers, relations, bodies, commits, blocks with their cached
  hash and their message forms), \<open>melete/types/block-part.go\<close> (splitting a block into Merkle-proved
  parts and reassembling it), \<open>must_proto_bytes.go\<close> and \<open>utils/time.go\<close>. Third-party functions are
  arguments: \<open>tm\<close> is \<open>gogotypes.StdTimeMarshal\<close> (\<open>None\<close> for an error) and \<open>c\<close> a protobuf codec.
\<close>

section \<open>Time\<close>

text \<open>A \<open>time.Time\<close> as the instant it denotes: Unix seconds and nanoseconds.\<close>

record GoTime =
  sec :: int
  nsec :: int

record Timestamp =
  Seconds :: int
  Nanos :: int

definition time_Unix :: "int \<Rightarrow> int \<Rightarrow> GoTime" where
  "time_Unix s n = \<lparr>sec = s + n div 1000000000, nsec = n mod 1000000000\<rparr>"

definition ThirdPartyProtoTime :: "GoTime \<Rightarrow> Timestamp" where
  "ThirdPartyProtoTime t = \<lparr>Seconds = sec t, Nanos = i32 (nsec t)\<rparr>"

text \<open>The getters of a nil \<open>Timestamp\<close> return zero.\<close>

definition ThirdPartyUnmarshalTime :: "Timestamp ptr \<Rightarrow> GoTime" where
  "ThirdPartyUnmarshalTime pt =
     (case pt of Nil_ptr \<Rightarrow> time_Unix 0 0 | Ptr t \<Rightarrow> time_Unix (Seconds t) (Nanos t))"

definition time_ok :: "GoTime \<Rightarrow> bool" where
  "time_ok t \<longleftrightarrow> 0 \<le> nsec t \<and> nsec t < 1000000000"

lemma time_roundtrip: "time_ok t \<Longrightarrow> ThirdPartyUnmarshalTime (Ptr (ThirdPartyProtoTime t)) = t"
  by (simp add: time_ok_def ThirdPartyUnmarshalTime_def ThirdPartyProtoTime_def time_Unix_def i32_id)

section \<open>Block data\<close>

definition BLOCKTYPE_NONE :: int where "BLOCKTYPE_NONE = 0"
definition BLOCKTYPE_I :: int where "BLOCKTYPE_I = 1"
definition BLOCKTYPE_C :: int where "BLOCKTYPE_C = 2"

lemmas blocktype_defs = BLOCKTYPE_NONE_def BLOCKTYPE_I_def BLOCKTYPE_C_def

record Header =
  BlockType :: int
  HashPointer :: bytes
  ChainID :: string
  Height :: int
  Time :: GoTime
  BodyRoot :: bytes
  CrossShardBodyRoot :: bytes
  StateRoot :: bytes
  ReceiptRoot :: bytes
  RelationRoot :: bytes

record pb_Header =
  ph_BlockType :: int
  ph_HashPointer :: bytes
  ph_ChainID :: string
  ph_Height :: int
  ph_Time :: "Timestamp ptr"
  ph_BodyRoot :: bytes
  ph_CrossShardBodyRoot :: bytes
  ph_StateRoot :: bytes
  ph_ReceiptRoot :: bytes
  ph_RelationRoot :: bytes

record Relation =
  RelatedCommitStatus :: "bytes list"
  RelatedHash :: "bytes list"
  MyCommitStatus :: bytes

record pb_Relation =
  prl_RelatedCommitStatus :: "bytes list"
  prl_RelatedHash :: "bytes list"
  prl_MyCommitStatus :: bytes

record CrossShardBody =
  CrossShardTxs :: Txs
  CrossShardDatas :: "bytes list"

record pb_CrossShardBody =
  pcb_Txs :: "bytes list"
  pcb_CrossShardDatas :: "bytes list"

record Body =
  BodyTxs :: Txs

record pb_Body =
  pbd_Txs :: "bytes list"

record Commit =
  cm_Height :: int
  cm_Round :: int
  cm_BlockHash :: bytes
  Sigs :: "bytes list"
  cm_hash :: "bytes ptr"

record pb_Commit =
  pcm_Height :: int
  pcm_Round :: int
  pcm_BlockHash :: bytes
  pcm_Sigs :: "bytes list"

record Block =
  b_Header :: Header
  b_Body :: Body
  b_CrossShardBody :: CrossShardBody
  b_Relation :: Relation
  blockhash :: bytes

record pb_Block =
  pb_Header_f :: "pb_Header ptr"
  pb_Body_f :: "pb_Body ptr"
  pb_CrossShardBody_f :: "pb_CrossShardBody ptr"
  pb_Relation_f :: "pb_Relation ptr"

section \<open>Hashes\<close>

type_synonym time_marshal = "GoTime \<Rightarrow> bytes option"

definition Header_IsC :: "Header \<Rightarrow> bool" where "Header_IsC h = (BlockType h = BLOCKTYPE_C)"
definition Header_IsI :: "Header \<Rightarrow> bool" where "Header_IsI h = (BlockType h = BLOCKTYPE_I)"

definition Header_Hash :: "time_marshal \<Rightarrow> Header \<Rightarrow> bytes ptr go" where
  "Header_Hash tm h =
     (case tm (Time h) of
        None \<Rightarrow> Ret Nil_ptr
      | Some pbt \<Rightarrow>
          do { r \<leftarrow> HashFromByteSlices
                 [slice_bytes (IntToBytes (V_int8 (word_of_int (BlockType h)))), HashPointer h,
                  str_bytes (ChainID h), slice_bytes (IntToBytes (V_int64 (word_of_int (Height h)))), pbt,
                  BodyRoot h, CrossShardBodyRoot h, StateRoot h, ReceiptRoot h, RelationRoot h];
               Ret (Ptr r) })"

definition Relation_Hash :: "Relation \<Rightarrow> bytes go" where
  "Relation_Hash r =
     do { a \<leftarrow> HashFromByteSlices (RelatedCommitStatus r);
          b \<leftarrow> HashFromByteSlices (RelatedHash r);
          HashFromByteSlices [a, b, MyCommitStatus r] }"

definition CrossShardBody_Hash :: "CrossShardBody \<Rightarrow> bytes go" where
  "CrossShardBody_Hash b =
     do { x \<leftarrow> Txs_Hash (CrossShardTxs b);
          y \<leftarrow> HashFromByteSlices (CrossShardDatas b);
          HashFromByteSlices [x, y] }"

definition Body_Hash :: "Body \<Rightarrow> bytes go" where
  "Body_Hash b = Txs_Hash (BodyTxs b)"

text \<open>\<open>c.Round\<close> has type \<open>int\<close>, which \<open>IntToBytes\<close> does not support.\<close>

definition Commit_Hash :: "Commit \<Rightarrow> bytes go" where
  "Commit_Hash c =
     (case cm_hash c of
        Ptr h \<Rightarrow> Ret h
      | Nil_ptr \<Rightarrow>
          do { s \<leftarrow> HashFromByteSlices (Sigs c);
               HashFromByteSlices
                 [slice_bytes (IntToBytes (V_int64 (word_of_int (cm_Height c)))),
                  slice_bytes (IntToBytes V_other), cm_BlockHash c, s] })"

definition fillHeader :: "Block \<Rightarrow> Block go" where
  "fillHeader b =
     do { b1 \<leftarrow> (if int (length (BodyRoot (b_Header b))) \<noteq> HashSize
                then do { r \<leftarrow> Body_Hash (b_Body b); Ret (b\<lparr>b_Header := (b_Header b)\<lparr>BodyRoot := r\<rparr>\<rparr>) }
                else Ret b);
          b2 \<leftarrow> (if int (length (RelationRoot (b_Header b1))) \<noteq> HashSize
                then do { r \<leftarrow> Relation_Hash (b_Relation b1); Ret (b1\<lparr>b_Header := (b_Header b1)\<lparr>RelationRoot := r\<rparr>\<rparr>) }
                else Ret b1);
          (if int (length (CrossShardBodyRoot (b_Header b2))) \<noteq> HashSize
           then do { r \<leftarrow> CrossShardBody_Hash (b_CrossShardBody b2);
                     Ret (b2\<lparr>b_Header := (b_Header b2)\<lparr>CrossShardBodyRoot := r\<rparr>\<rparr>) }
           else Ret b2) }"

text \<open>\<open>Hash\<close> fills the roots and caches the hash in the block.\<close>

definition Block_Hash :: "time_marshal \<Rightarrow> Block \<Rightarrow> (bytes \<times> Block) go" where
  "Block_Hash tm b =
     do { b1 \<leftarrow> fillHeader b;
          b2 \<leftarrow> (if int (length (blockhash b1)) \<noteq> HashSize
                then do { r \<leftarrow> Header_Hash tm (b_Header b1); Ret (b1\<lparr>blockhash := slice_bytes r\<rparr>) }
                else Ret b1);
          Ret (blockhash b2, b2) }"

section \<open>Message forms\<close>

definition Header_ToProto :: "Header \<Rightarrow> pb_Header" where
  "Header_ToProto h =
     \<lparr>ph_BlockType = i32 (BlockType h), ph_HashPointer = HashPointer h, ph_ChainID = ChainID h,
      ph_Height = Height h, ph_Time = Ptr (ThirdPartyProtoTime (Time h)), ph_BodyRoot = BodyRoot h,
      ph_CrossShardBodyRoot = CrossShardBodyRoot h, ph_StateRoot = StateRoot h,
      ph_ReceiptRoot = ReceiptRoot h, ph_RelationRoot = RelationRoot h\<rparr>"

text \<open>The \<open>New...FromProto\<close> functions read fields of their argument: a nil message panics.\<close>

definition NewHeaderFromProto :: "pb_Header ptr \<Rightarrow> Header go" where
  "NewHeaderFromProto hp =
     (case hp of
        Nil_ptr \<Rightarrow> Panic
      | Ptr p \<Rightarrow> Ret
          \<lparr>BlockType = i8 (ph_BlockType p), HashPointer = ph_HashPointer p, ChainID = ph_ChainID p,
           Height = ph_Height p, Time = ThirdPartyUnmarshalTime (ph_Time p), BodyRoot = ph_BodyRoot p,
           CrossShardBodyRoot = ph_CrossShardBodyRoot p, StateRoot = ph_StateRoot p,
           ReceiptRoot = ph_ReceiptRoot p, RelationRoot = ph_RelationRoot p\<rparr>)"

definition Relation_ToProto :: "Relation \<Rightarrow> pb_Relation" where
  "Relation_ToProto r =
     \<lparr>prl_RelatedCommitStatus = RelatedCommitStatus r, prl_RelatedHash = RelatedHash r,
      prl_MyCommitStatus = MyCommitStatus r\<rparr>"

definition NewRelationFromProto :: "pb_Relation ptr \<Rightarrow> Relation go" where
  "NewRelationFromProto rp =
     (case rp of
        Nil_ptr \<Rightarrow> Panic
      | Ptr p \<Rightarrow> Ret \<lparr>RelatedCommitStatus = prl_RelatedCommitStatus p, RelatedHash = prl_RelatedHash p,
                     MyCommitStatus = prl_MyCommitStatus p\<rparr>)"

definition CrossShardBody_ToProto :: "CrossShardBody \<Rightarrow> pb_CrossShardBody" where
  "CrossShardBody_ToProto b =
     \<lparr>pcb_Txs = Txs_ToProto (CrossShardTxs b), pcb_CrossShardDatas = CrossShardDatas b\<rparr>"

definition NewCrossShardBodyFromProto :: "pb_CrossShardBody ptr \<Rightarrow> CrossShardBody go" where
  "NewCrossShardBodyFromProto bp =
     (case bp of
        Nil_ptr \<Rightarrow> Panic
      | Ptr p \<Rightarrow> Ret \<lparr>CrossShardTxs = NewTxsFromProto (pcb_Txs p), CrossShardDatas = pcb_CrossShardDatas p\<rparr>)"

definition Body_ToProto :: "Body \<Rightarrow> pb_Body" where
  "Body_ToProto b = \<lparr>pbd_Txs = Txs_ToProto (BodyTxs b)\<rparr>"

definition NewBodyFromProto :: "pb_Body ptr \<Rightarrow> Body go" where
  "NewBodyFromProto bp = (case bp of Nil_ptr \<Rightarrow> Panic | Ptr p \<Rightarrow> Ret \<lparr>BodyTxs = NewTxsFromProto (pbd_Txs p)\<rparr>)"

definition Commit_ToProto :: "Commit \<Rightarrow> pb_Commit" where
  "Commit_ToProto c =
     \<lparr>pcm_Height = cm_Height c, pcm_Round = i32 (cm_Round c), pcm_BlockHash = cm_BlockHash c, pcm_Sigs = Sigs c\<rparr>"

definition NewCommitFromProto :: "pb_Commit ptr \<Rightarrow> Commit go" where
  "NewCommitFromProto cp =
     (case cp of
        Nil_ptr \<Rightarrow> Panic
      | Ptr p \<Rightarrow> Ret \<lparr>cm_Height = pcm_Height p, cm_Round = pcm_Round p, cm_BlockHash = pcm_BlockHash p,
                     Sigs = pcm_Sigs p, cm_hash = Nil_ptr\<rparr>)"

definition Block_ToProto :: "Block \<Rightarrow> pb_Block" where
  "Block_ToProto b =
     \<lparr>pb_Header_f = Ptr (Header_ToProto (b_Header b)), pb_Body_f = Ptr (Body_ToProto (b_Body b)),
      pb_CrossShardBody_f = Ptr (CrossShardBody_ToProto (b_CrossShardBody b)),
      pb_Relation_f = Ptr (Relation_ToProto (b_Relation b))\<rparr>"

definition NewBlockFromProto :: "pb_Block \<Rightarrow> Block go" where
  "NewBlockFromProto p =
     do { h \<leftarrow> NewHeaderFromProto (pb_Header_f p);
          bd \<leftarrow> NewBodyFromProto (pb_Body_f p);
          cb \<leftarrow> NewCrossShardBodyFromProto (pb_CrossShardBody_f p);
          r \<leftarrow> NewRelationFromProto (pb_Relation_f p);
          Ret \<lparr>b_Header = h, b_Body = bd, b_CrossShardBody = cb, b_Relation = r, blockhash = []\<rparr> }"

definition Header_ProtoBytes :: "pb_Header codec \<Rightarrow> Header \<Rightarrow> bytes go" where
  "Header_ProtoBytes c h = MustProtoBytes c (Header_ToProto h)"

definition NewHeaderFromBytes :: "pb_Header codec \<Rightarrow> bytes \<Rightarrow> Header ptr go" where
  "NewHeaderFromBytes c bz = from_bytes c (\<lambda>p. NewHeaderFromProto (Ptr p)) bz"

definition Relation_ProtoBytes :: "pb_Relation codec \<Rightarrow> Relation \<Rightarrow> bytes go" where
  "Relation_ProtoBytes c r = MustProtoBytes c (Relation_ToProto r)"

definition NewRelationFromBytes :: "pb_Relation codec \<Rightarrow> bytes \<Rightarrow> Relation ptr go" where
  "NewRelationFromBytes c bz = from_bytes c (\<lambda>p. NewRelationFromProto (Ptr p)) bz"

definition Commit_ProtoBytes :: "pb_Commit codec \<Rightarrow> Commit \<Rightarrow> bytes go" where
  "Commit_ProtoBytes c cm = MustProtoBytes c (Commit_ToProto cm)"

definition NewCommitFromBytes :: "pb_Commit codec \<Rightarrow> bytes \<Rightarrow> Commit ptr go" where
  "NewCommitFromBytes c bz = from_bytes c (\<lambda>p. NewCommitFromProto (Ptr p)) bz"

definition Block_ProtoBytes :: "pb_Block codec \<Rightarrow> Block \<Rightarrow> bytes go" where
  "Block_ProtoBytes c b = MustProtoBytes c (Block_ToProto b)"

definition NewBlockFromBytes :: "pb_Block codec \<Rightarrow> bytes \<Rightarrow> Block ptr go" where
  "NewBlockFromBytes c bz = from_bytes c NewBlockFromProto bz"

definition Block_ValidateBasic :: "Block \<Rightarrow> unit ptr" where
  "Block_ValidateBasic b = Nil_ptr"

section \<open>Parts\<close>

record pb_Proof =
  pp_Total :: int
  pp_Index :: int
  pp_LeafHash :: "bytes ptr"
  pp_Aunts :: "bytes list"

definition Proof_ToProto :: "Proof \<Rightarrow> pb_Proof" where
  "Proof_ToProto p = \<lparr>pp_Total = Total p, pp_Index = Index p, pp_LeafHash = LeafHash p, pp_Aunts = Aunts p\<rparr>"

definition NewProofFromProto :: "pb_Proof ptr \<Rightarrow> Proof go" where
  "NewProofFromProto pp =
     (case pp of
        Nil_ptr \<Rightarrow> Panic
      | Ptr p \<Rightarrow> Ret \<lparr>Total = pp_Total p, Index = pp_Index p, LeafHash = pp_LeafHash p, Aunts = pp_Aunts p\<rparr>)"

record Part =
  pt_ChainID :: string
  pt_Height :: int
  pt_Round :: int
  pt_Bytes :: bytes
  pt_Proof :: Proof

record pb_Part =
  ppt_Height :: int
  ppt_Round :: int
  ppt_Bytes :: bytes
  ppt_Proof :: "pb_Proof ptr"
  ppt_ChainID :: string

record PartSetHeader =
  psh_Height :: int
  psh_Round :: int
  psh_Total :: int
  psh_Root :: bytes
  psh_ChainID :: string

record pb_PartSetHeader =
  pps_Total :: int
  pps_Root :: bytes
  pps_Height :: int
  pps_Round :: int
  pps_ChainID :: string

record PartSet =
  ps_Header :: PartSetHeader
  Parts :: "Part ptr list"
  count :: int
  ps_BlockHeaderHash :: bytes

datatype PartError =
  DuplicatedPartPassError | PartHeightError | PartRoundError | PartVerifyError PartVerifyError
and PartVerifyError = MerkleError VerifyError | TotalOrChainError

datatype PartBasicError = PB_Height | PB_Round | PB_Bytes | PB_ChainID | PB_Proof ValidateError

datatype HeaderBasicError = HB_Height | HB_Round | HB_Total | HB_ChainID | HB_Root

datatype GenBlockError = DeserializationError | ChainIDMismatch | HeightMismatch | InvalidBlock | HeaderHashMismatch

definition Part_Index :: "Part \<Rightarrow> int" where
  "Part_Index p = Index (pt_Proof p)"

definition Part_Verify :: "Part \<Rightarrow> bytes \<Rightarrow> int \<Rightarrow> string \<Rightarrow> (PartVerifyError + unit) go" where
  "Part_Verify p rt tot chainID =
     do { v \<leftarrow> Verify (pt_Proof p) rt (pt_Bytes p);
          case v of
            Inl e \<Rightarrow> Ret (Inl (MerkleError e))
          | Inr _ \<Rightarrow>
              if tot \<noteq> Total (pt_Proof p) \<or> chainID \<noteq> pt_ChainID p then Ret (Inl TotalOrChainError)
              else Ret (Inr ()) }"

definition Part_ValidateBasic :: "Part \<Rightarrow> PartBasicError + unit" where
  "Part_ValidateBasic p =
     (if pt_Height p < 0 then Inl PB_Height
      else if pt_Round p < 0 then Inl PB_Round
      else if length (pt_Bytes p) = 0 then Inl PB_Bytes
      else if length (pt_ChainID p) = 0 then Inl PB_ChainID
      else case Proof_ValidateBasic (pt_Proof p) of Inl e \<Rightarrow> Inl (PB_Proof e) | Inr _ \<Rightarrow> Inr ())"

definition Part_ToProto :: "Part \<Rightarrow> pb_Part" where
  "Part_ToProto p =
     \<lparr>ppt_Height = pt_Height p, ppt_Round = i32 (pt_Round p), ppt_Bytes = pt_Bytes p,
      ppt_Proof = Ptr (Proof_ToProto (pt_Proof p)), ppt_ChainID = pt_ChainID p\<rparr>"

definition NewPartFromProto :: "pb_Part \<Rightarrow> Part go" where
  "NewPartFromProto pp =
     do { pf \<leftarrow> NewProofFromProto (ppt_Proof pp);
          Ret \<lparr>pt_ChainID = ppt_ChainID pp, pt_Height = ppt_Height pp, pt_Round = ppt_Round pp,
               pt_Bytes = ppt_Bytes pp, pt_Proof = pf\<rparr> }"

definition Part_ProtoBytes :: "pb_Part codec \<Rightarrow> Part \<Rightarrow> bytes go" where
  "Part_ProtoBytes c p = MustProtoBytes c (Part_ToProto p)"

definition NewPartFromBytes :: "pb_Part codec \<Rightarrow> bytes \<Rightarrow> Part ptr go" where
  "NewPartFromBytes c bz = from_bytes c NewPartFromProto bz"

definition PartSetHeader_ToProto :: "PartSetHeader \<Rightarrow> pb_PartSetHeader" where
  "PartSetHeader_ToProto p =
     \<lparr>pps_Total = psh_Total p, pps_Root = psh_Root p, pps_Height = psh_Height p,
      pps_Round = i32 (psh_Round p), pps_ChainID = psh_ChainID p\<rparr>"

definition NewPartSetHeaderFromProto :: "pb_PartSetHeader ptr \<Rightarrow> PartSetHeader go" where
  "NewPartSetHeaderFromProto pp =
     (case pp of
        Nil_ptr \<Rightarrow> Panic
      | Ptr p \<Rightarrow> Ret \<lparr>psh_Height = pps_Height p, psh_Round = pps_Round p, psh_Total = pps_Total p,
                     psh_Root = pps_Root p, psh_ChainID = pps_ChainID p\<rparr>)"

definition PartSetHeader_ProtoBytes :: "pb_PartSetHeader codec \<Rightarrow> PartSetHeader \<Rightarrow> bytes go" where
  "PartSetHeader_ProtoBytes c p = MustProtoBytes c (PartSetHeader_ToProto p)"

definition NewPartSetHeaderFromBytes :: "pb_PartSetHeader codec \<Rightarrow> bytes \<Rightarrow> PartSetHeader ptr go" where
  "NewPartSetHeaderFromBytes c bz = from_bytes c (\<lambda>p. NewPartSetHeaderFromProto (Ptr p)) bz"

definition PartSetHeader_Equal :: "PartSetHeader \<Rightarrow> PartSetHeader \<Rightarrow> bool" where
  "PartSetHeader_Equal p other \<longleftrightarrow>
     psh_ChainID p = psh_ChainID other \<and> psh_Height p = psh_Height other \<and> psh_Round p = psh_Round other \<and>
     psh_Total p = psh_Total other \<and> psh_Root p = psh_Root other"

definition PartSetHeader_ValidateBasic :: "PartSetHeader \<Rightarrow> HeaderBasicError + unit" where
  "PartSetHeader_ValidateBasic p =
     (if psh_Height p < 0 then Inl HB_Height
      else if psh_Round p < 0 then Inl HB_Round
      else if psh_Total p < 0 then Inl HB_Total
      else if length (psh_ChainID p) = 0 then Inl HB_ChainID
      else if int (length (psh_Root p)) \<noteq> HashSize then Inl HB_Root
      else Inr ())"

section \<open>Part sets\<close>

definition NewPartSet :: "PartSetHeader \<Rightarrow> bytes \<Rightarrow> PartSet go" where
  "NewPartSet h headerHash =
     (if psh_Total h < 0 then Panic
      else Ret \<lparr>ps_Header = h, Parts = replicate (nat (psh_Total h)) Nil_ptr, count = 0,
                ps_BlockHeaderHash = headerHash\<rparr>)"

fun make_parts :: "string \<Rightarrow> int \<Rightarrow> int \<Rightarrow> bytes list \<Rightarrow> Proof list \<Rightarrow> int \<Rightarrow> Part list go" where
  "make_parts chainid height rnd [] proof i = Ret []"
| "make_parts chainid height rnd (bz # bzs) proof i =
     do { pf \<leftarrow> go_index proof i;
          ps \<leftarrow> make_parts chainid height rnd bzs proof (i + 1);
          Ret (\<lparr>pt_ChainID = chainid, pt_Height = height, pt_Round = rnd, pt_Bytes = bz, pt_Proof = pf\<rparr> # ps) }"

text \<open>
  The outer option is the termination of \<open>SplitByteArray\<close>; \<open>b.Hash()\<close> updates the block, which is
  returned beside the part set.
\<close>

definition PartSetFromBlock ::
  "time_marshal \<Rightarrow> pb_Block codec \<Rightarrow> Block \<Rightarrow> int \<Rightarrow> int \<Rightarrow> (PartSet \<times> Block) go option" where
  "PartSetFromBlock tm c b maxPartSize rnd =
     (case Block_ProtoBytes c b of
        Panic \<Rightarrow> Some Panic
      | Ret bz \<Rightarrow>
          (case SplitByteArray bz maxPartSize of
             None \<Rightarrow> None
           | Some Panic \<Rightarrow> Some Panic
           | Some (Ret bzList) \<Rightarrow>
               Some (do { (hs, proof) \<leftarrow> ProofsFromByteSlices bzList;
                          parts \<leftarrow> make_parts (ChainID (b_Header b)) (Height (b_Header b)) rnd bzList proof 0;
                          (bh, b') \<leftarrow> Block_Hash tm b;
                          Ret (\<lparr>ps_Header = \<lparr>psh_Height = Height (b_Header b), psh_Round = rnd,
                                            psh_Total = int (length parts), psh_Root = hs,
                                            psh_ChainID = ChainID (b_Header b)\<rparr>,
                                Parts = map Ptr parts, count = int (length parts), ps_BlockHeaderHash = bh\<rparr>, b') })))"

definition AddPart :: "PartSet \<Rightarrow> Part \<Rightarrow> (PartError ptr \<times> PartSet) go" where
  "AddPart ps p =
     do { dup \<leftarrow> (if Part_Index p < psh_Total (ps_Header ps)
                 then do { q \<leftarrow> go_index (Parts ps) (Part_Index p); Ret (\<not> is_nil q) } else Ret False);
          if dup then Ret (Ptr DuplicatedPartPassError, ps)
          else if psh_Height (ps_Header ps) \<noteq> pt_Height p then Ret (Ptr PartHeightError, ps)
          else if psh_Round (ps_Header ps) \<noteq> pt_Round p then Ret (Ptr PartRoundError, ps)
          else do { v \<leftarrow> Part_Verify p (psh_Root (ps_Header ps)) (psh_Total (ps_Header ps)) (psh_ChainID (ps_Header ps));
                    case v of
                      Inl e \<Rightarrow> Ret (Ptr (PartVerifyError e), ps)
                    | Inr _ \<Rightarrow>
                        do { parts' \<leftarrow> go_update (Parts ps) (Part_Index p) (Ptr p);
                             Ret (Nil_ptr, ps\<lparr>Parts := parts', count := count ps + 1\<rparr>) } } }"

definition IsComplete :: "PartSet \<Rightarrow> bool" where
  "IsComplete ps = (psh_Total (ps_Header ps) = count ps)"

definition part_bytes :: "Part ptr \<Rightarrow> bytes go" where
  "part_bytes q = (case q of Nil_ptr \<Rightarrow> Panic | Ptr p \<Rightarrow> Ret (pt_Bytes p))"

definition GenBlock :: "time_marshal \<Rightarrow> pb_Block codec \<Rightarrow> PartSet \<Rightarrow> (Block ptr \<times> GenBlockError ptr) go" where
  "GenBlock tm c ps =
     (if \<not> IsComplete ps then Ret (Nil_ptr, Nil_ptr)
      else if int (length (Parts ps)) > count ps then Panic
      else
        do { blockBytes \<leftarrow> those (map part_bytes (Parts ps));
             bp \<leftarrow> NewBlockFromBytes c (concat blockBytes);
             case bp of
               Nil_ptr \<Rightarrow> Ret (Nil_ptr, Ptr DeserializationError)
             | Ptr block \<Rightarrow>
                 if ChainID (b_Header block) \<noteq> psh_ChainID (ps_Header ps) then Ret (Nil_ptr, Ptr ChainIDMismatch)
                 else if Height (b_Header block) \<noteq> psh_Height (ps_Header ps) then Ret (Nil_ptr, Ptr HeightMismatch)
                 else if \<not> is_nil (Block_ValidateBasic block) then Ret (Ptr block, Ptr InvalidBlock)
                 else do { (bh, block') \<leftarrow> Block_Hash tm block;
                           if bh \<noteq> ps_BlockHeaderHash ps then Ret (Ptr block', Ptr HeaderHashMismatch)
                           else Ret (Ptr block', Nil_ptr) } })"

section \<open>Message round trips\<close>

definition header_fits :: "Header \<Rightarrow> bool" where
  "header_fits h \<longleftrightarrow> -128 \<le> BlockType h \<and> BlockType h < 128 \<and> time_ok (Time h)"

definition i32_fits :: "int \<Rightarrow> bool" where
  "i32_fits r \<longleftrightarrow> - (2 ^ 31) \<le> r \<and> r < 2 ^ 31"

lemma i32_fits [simp]: "i32_fits r \<Longrightarrow> i32 r = r"
  by (simp add: i32_fits_def i32_id)

definition block_fits :: "Block \<Rightarrow> bool" where
  "block_fits b \<longleftrightarrow> header_fits (b_Header b) \<and> blockhash b = []"

lemma header_roundtrip: "header_fits h \<Longrightarrow> NewHeaderFromProto (Ptr (Header_ToProto h)) = Ret h"
  by (simp add: header_fits_def NewHeaderFromProto_def Header_ToProto_def time_roundtrip i32_id i8_id)

lemma txs_proto [simp]: "NewTxsFromProto (Txs_ToProto txs) = txs"
  by (simp add: NewTxsFromProto_def Txs_ToProto_def)

lemma part_proof_roundtrip [simp]: "NewProofFromProto (Ptr (Proof_ToProto p)) = Ret p"
  by (simp add: NewProofFromProto_def Proof_ToProto_def)

interpretation header_wire: wire_type "\<lambda>h. Ret (Header_ToProto h)" "\<lambda>p. NewHeaderFromProto (Ptr p)" header_fits
  by unfold_locales (simp add: header_roundtrip)

interpretation relation_wire: wire_type "\<lambda>r. Ret (Relation_ToProto r)" "\<lambda>p. NewRelationFromProto (Ptr p)" "\<lambda>r. True"
  by unfold_locales (simp add: NewRelationFromProto_def Relation_ToProto_def)

interpretation commit_wire: wire_type "\<lambda>c. Ret (Commit_ToProto c)" "\<lambda>p. NewCommitFromProto (Ptr p)"
  "\<lambda>c. i32_fits (cm_Round c) \<and> cm_hash c = Nil_ptr"
  by unfold_locales (auto simp: NewCommitFromProto_def Commit_ToProto_def)

interpretation block_wire: wire_type "\<lambda>b. Ret (Block_ToProto b)" NewBlockFromProto block_fits
  by unfold_locales
    (auto simp: NewBlockFromProto_def Block_ToProto_def block_fits_def header_roundtrip NewBodyFromProto_def
      Body_ToProto_def NewCrossShardBodyFromProto_def CrossShardBody_ToProto_def NewRelationFromProto_def
      Relation_ToProto_def)

interpretation part_wire: wire_type "\<lambda>p. Ret (Part_ToProto p)" NewPartFromProto "\<lambda>p. i32_fits (pt_Round p)"
  by unfold_locales (auto simp: NewPartFromProto_def Part_ToProto_def)

interpretation psh_wire: wire_type "\<lambda>p. Ret (PartSetHeader_ToProto p)" "\<lambda>p. NewPartSetHeaderFromProto (Ptr p)"
  "\<lambda>p. i32_fits (psh_Round p)"
  by unfold_locales (auto simp: NewPartSetHeaderFromProto_def PartSetHeader_ToProto_def)

lemma Block_ToProto_blockhash [simp]: "Block_ToProto (b\<lparr>blockhash := h\<rparr>) = Block_ToProto b"
  by (simp add: Block_ToProto_def)

lemma Block_bytes_roundtrip:
  assumes "codec_ok c" "header_fits (b_Header b)" "Block_ProtoBytes c b = Ret bz"
  shows "NewBlockFromBytes c bz = Ret (Ptr (b\<lparr>blockhash := []\<rparr>))"
  using block_wire.bytes_roundtrip [of c "b\<lparr>blockhash := []\<rparr>" bz] assms
  by (simp add: NewBlockFromBytes_def Block_ProtoBytes_def block_fits_def)

section \<open>Block hashes\<close>

lemma HashFromByteSlices_returns: "\<exists>r. HashFromByteSlices xs = Ret r \<and> length r = 32"
  by (simp add: HashFromByteSlices_tree_hash)

lemma body_hashes_return:
  "\<exists>r. Body_Hash x = Ret r \<and> length r = 32"
  "\<exists>r. CrossShardBody_Hash y = Ret r \<and> length r = 32"
  "\<exists>r. Relation_Hash z = Ret r \<and> length r = 32"
  by (simp_all add: Body_Hash_def Txs_Hash_def CrossShardBody_Hash_def Relation_Hash_def HashFromByteSlices_tree_hash)

definition header_filled :: "Block \<Rightarrow> bool" where
  "header_filled b \<longleftrightarrow> length (BodyRoot (b_Header b)) = 32 \<and> length (RelationRoot (b_Header b)) = 32 \<and>
     length (CrossShardBodyRoot (b_Header b)) = 32"

lemma fillHeader_filled: "header_filled b \<Longrightarrow> fillHeader b = Ret b"
  by (simp add: header_filled_def fillHeader_def HashSize_def)

lemma fillHeader_returns: "\<exists>b'. fillHeader b = Ret b' \<and> header_filled b' \<and> blockhash b' = blockhash b \<and>
    fillHeader (b\<lparr>blockhash := h\<rparr>) = Ret (b'\<lparr>blockhash := h\<rparr>)"
proof -
  obtain x y z where h: "Body_Hash (b_Body b) = Ret x" "length x = 32"
    "CrossShardBody_Hash (b_CrossShardBody b) = Ret y" "length y = 32"
    "Relation_Hash (b_Relation b) = Ret z" "length z = 32" using body_hashes_return by metis
  then show ?thesis by (simp add: fillHeader_def header_filled_def HashSize_def)
qed

lemma Header_Hash_returns: "\<exists>r. Header_Hash tm h = Ret r \<and> (length (slice_bytes r) = 32 \<or> r = Nil_ptr)"
  by (cases "tm (Time h)") (simp_all add: Header_Hash_def HashFromByteSlices_tree_hash)

lemma Block_Hash_cases:
  obtains b1 r where "fillHeader b = Ret b1" "header_filled b1" "blockhash b1 = blockhash b"
    "Header_Hash tm (b_Header b1) = Ret r"
    "Block_Hash tm b = (if length (blockhash b) \<noteq> 32 then Ret (slice_bytes r, b1\<lparr>blockhash := slice_bytes r\<rparr>)
                        else Ret (blockhash b, b1))"
    "Block_Hash tm (b\<lparr>blockhash := []\<rparr>) = Ret (slice_bytes r, b1\<lparr>blockhash := slice_bytes r\<rparr>)"
proof -
  obtain b1 where b1: "fillHeader b = Ret b1" "header_filled b1" "blockhash b1 = blockhash b"
    "fillHeader (b\<lparr>blockhash := []\<rparr>) = Ret (b1\<lparr>blockhash := []\<rparr>)" using fillHeader_returns by blast
  obtain r where r: "Header_Hash tm (b_Header b1) = Ret r" using Header_Hash_returns by blast
  show thesis
    by (rule that [OF b1(1-3) r]) (use b1 r in \<open>auto simp: Block_Hash_def HashSize_def\<close>)
qed

text \<open>The cached hash of a block is the hash of its header.\<close>

definition cache_ok :: "time_marshal \<Rightarrow> Block \<Rightarrow> bool" where
  "cache_ok tm b \<longleftrightarrow> length (blockhash b) = 32 \<longrightarrow>
     (case Block_Hash tm (b\<lparr>blockhash := []\<rparr>) of Ret (h, _) \<Rightarrow> h = blockhash b | Panic \<Rightarrow> False)"

lemma Block_Hash_cached:
  assumes "cache_ok tm b" "Block_Hash tm b = Ret (h, b')"
  shows "cache_ok tm b'" "Block_Hash tm b' = Ret (h, b')"
    "Block_Hash tm (b\<lparr>blockhash := []\<rparr>) = Ret (h, b')"
proof -
  obtain b1 r where c: "fillHeader b = Ret b1" "header_filled b1" "blockhash b1 = blockhash b"
    "Header_Hash tm (b_Header b1) = Ret r"
    "Block_Hash tm b = (if length (blockhash b) \<noteq> 32 then Ret (slice_bytes r, b1\<lparr>blockhash := slice_bytes r\<rparr>)
                        else Ret (blockhash b, b1))"
    "Block_Hash tm (b\<lparr>blockhash := []\<rparr>) = Ret (slice_bytes r, b1\<lparr>blockhash := slice_bytes r\<rparr>)"
    using Block_Hash_cases by blast
  have h: "h = slice_bytes r" and b': "b' = b1\<lparr>blockhash := slice_bytes r\<rparr>"
    using assms c by (auto simp: cache_ok_def split: if_splits)
  have f: "fillHeader (b1\<lparr>blockhash := x\<rparr>) = Ret (b1\<lparr>blockhash := x\<rparr>)" for x
    using c(2) by (intro fillHeader_filled) (simp add: header_filled_def)
  then have H: "Block_Hash tm (b1\<lparr>blockhash := x\<rparr>) =
      (if length x \<noteq> 32 then Ret (slice_bytes r, b1\<lparr>blockhash := slice_bytes r\<rparr>) else Ret (x, b1\<lparr>blockhash := x\<rparr>))" for x
    using c(4) by (auto simp: Block_Hash_def HashSize_def)
  show "Block_Hash tm (b\<lparr>blockhash := []\<rparr>) = Ret (h, b')" using c(6) h b' by simp
  show "Block_Hash tm b' = Ret (h, b')" using H [of "slice_bytes r"] h b' by simp
  show "cache_ok tm b'" using H [of "[]"] b' by (simp add: cache_ok_def)
qed

section \<open>Part sets\<close>

definition ps_inv :: "PartSet \<Rightarrow> bool" where
  "ps_inv ps \<longleftrightarrow> int (length (Parts ps)) = psh_Total (ps_Header ps) \<and>
     count ps = int (length (filter (\<lambda>q. \<not> is_nil q) (Parts ps))) \<and>
     (\<forall>i p. i < length (Parts ps) \<longrightarrow> Parts ps ! i = Ptr p \<longrightarrow>
        Part_Index p = int i \<and>
        Part_Verify p (psh_Root (ps_Header ps)) (psh_Total (ps_Header ps)) (psh_ChainID (ps_Header ps)) = Ret (Inr ()))"

lemma filter_update_new:
  "i < length xs \<Longrightarrow> \<not> P (xs ! i) \<Longrightarrow> P y \<Longrightarrow> length (filter P (xs[i := y])) = Suc (length (filter P xs))"
  by (induction xs arbitrary: i) (auto split: nat.splits)

lemma Part_Verify_index:
  assumes "Part_Verify p r t ch = Ret (Inr ())" "r \<noteq> []"
  shows "0 \<le> Part_Index p" "Part_Index p < t"
proof -
  have v: "Verify (pt_Proof p) r (pt_Bytes p) = Ret (Inr ())" "t = Total (pt_Proof p)"
    using assms(1) by (auto simp: Part_Verify_def split: bind_splits sum.splits if_splits)
  then obtain c where "computeHashFromAunts (Index (pt_Proof p)) t (LeafHash (pt_Proof p)) (Aunts (pt_Proof p)) = Ret c"
    "slice_bytes c = r" by (auto simp: Verify_def ComputeRootHash_def Let_def split: if_splits bind_splits)
  then show "0 \<le> Part_Index p" "Part_Index p < t"
    using assms(2) by (auto simp: Part_Index_def computeHashFromAunts.simps split: if_splits)
qed

lemma Part_Verify_returns: "\<exists>v. Part_Verify p r t ch = Ret v"
  using Verify_returns [of "pt_Proof p" r "pt_Bytes p"] by (auto simp: Part_Verify_def split: sum.splits)

text \<open>What \<open>AddPart\<close> does to a part set that satisfies the invariant, for a part with a non-negative index.\<close>

lemma AddPart_step:
  assumes inv: "ps_inv ps" and root: "psh_Root (ps_Header ps) \<noteq> []" and i: "0 \<le> Part_Index p"
  obtains e where "AddPart ps p = Ret (Ptr e, ps)"
  | "AddPart ps p = Ret (Nil_ptr, ps\<lparr>Parts := (Parts ps)[nat (Part_Index p) := Ptr p], count := count ps + 1\<rparr>)"
    "Part_Index p < int (length (Parts ps))" "Parts ps ! nat (Part_Index p) = Nil_ptr"
    "Part_Verify p (psh_Root (ps_Header ps)) (psh_Total (ps_Header ps)) (psh_ChainID (ps_Header ps)) = Ret (Inr ())"
proof -
  have len: "int (length (Parts ps)) = psh_Total (ps_Header ps)" using inv by (simp add: ps_inv_def)
  obtain v where v: "Part_Verify p (psh_Root (ps_Header ps)) (psh_Total (ps_Header ps)) (psh_ChainID (ps_Header ps)) = Ret v"
    using Part_Verify_returns by blast
  show thesis
  proof (cases "Part_Index p < psh_Total (ps_Header ps) \<and> \<not> is_nil (Parts ps ! nat (Part_Index p))
      \<or> psh_Height (ps_Header ps) \<noteq> pt_Height p \<or> psh_Round (ps_Header ps) \<noteq> pt_Round p \<or> v \<noteq> Inr ()")
    case True
    then have "\<exists>e. AddPart ps p = Ret (Ptr e, ps)"
      using v i len by (cases v) (auto simp: AddPart_def go_index_def)
    then show ?thesis using that(1) by blast
  next
    case False
    then have "Part_Index p < psh_Total (ps_Header ps)" using Part_Verify_index [OF _ root] v by blast
    moreover from this False have "Parts ps ! nat (Part_Index p) = Nil_ptr"
      by (cases "Parts ps ! nat (Part_Index p)") auto
    ultimately show ?thesis
      using that(2) False v i len by (auto simp: AddPart_def go_index_def go_update_def)
  qed
qed

lemma ps_inv_insert:
  assumes inv: "ps_inv ps" and "0 \<le> Part_Index p" "Part_Index p < int (length (Parts ps))"
    "Parts ps ! nat (Part_Index p) = Nil_ptr"
    "Part_Verify p (psh_Root (ps_Header ps)) (psh_Total (ps_Header ps)) (psh_ChainID (ps_Header ps)) = Ret (Inr ())"
  shows "ps_inv (ps\<lparr>Parts := (Parts ps)[nat (Part_Index p) := Ptr p], count := count ps + 1\<rparr>)"
proof -
  define i where "i = nat (Part_Index p)"
  have i: "i < length (Parts ps)" "Part_Index p = int i" "Parts ps ! i = Nil_ptr" using assms by (auto simp: i_def)
  have "length (filter (\<lambda>q. \<not> is_nil q) ((Parts ps)[i := Ptr p])) = Suc (length (filter (\<lambda>q. \<not> is_nil q) (Parts ps)))"
    using i by (intro filter_update_new) auto
  moreover have "Part_Index q = int j \<and>
      Part_Verify q (psh_Root (ps_Header ps)) (psh_Total (ps_Header ps)) (psh_ChainID (ps_Header ps)) = Ret (Inr ())"
    if "j < length (Parts ps)" "(Parts ps)[i := Ptr p] ! j = Ptr q" for j q
    using that inv i assms(5) by (cases "j = i") (auto simp: ps_inv_def)
  ultimately show ?thesis using inv unfolding i_def [symmetric] by (simp add: ps_inv_def)
qed

lemma AddPart_negative:
  "ps_inv ps \<Longrightarrow> Part_Index p < 0 \<Longrightarrow> AddPart ps p = Panic"
  by (simp add: AddPart_def go_index_def ps_inv_def)

text \<open>Receiving a sequence of parts, errors ignored.\<close>

fun receive_parts :: "PartSet \<Rightarrow> Part list \<Rightarrow> PartSet go" where
  "receive_parts ps [] = Ret ps"
| "receive_parts ps (p # qs) = do { (_, ps') \<leftarrow> AddPart ps p; receive_parts ps' qs }"

text \<open>A part set that holds only genuine parts, and at least those at the positions \<open>S\<close>.\<close>

definition holds :: "PartSet \<Rightarrow> Part list \<Rightarrow> nat set \<Rightarrow> bool" where
  "holds ps parts S \<longleftrightarrow> ps_inv ps \<and> length (Parts ps) = length parts \<and>
     (\<forall>i < length parts. Parts ps ! i = Nil_ptr \<or> Parts ps ! i = Ptr (parts ! i)) \<and>
     (\<forall>i \<in> S. i < length parts \<longrightarrow> Parts ps ! i = Ptr (parts ! i))"

definition genuine :: "PartSetHeader \<Rightarrow> Part list \<Rightarrow> bool" where
  "genuine h parts \<longleftrightarrow> psh_Total h = int (length parts) \<and> psh_Root h \<noteq> [] \<and>
     (\<forall>i < length parts. Part_Index (parts ! i) = int i \<and> pt_Height (parts ! i) = psh_Height h \<and>
        pt_Round (parts ! i) = psh_Round h \<and>
        Part_Verify (parts ! i) (psh_Root h) (psh_Total h) (psh_ChainID h) = Ret (Inr ()))"

lemma receive_one:
  assumes h: "holds ps parts S" "genuine (ps_Header ps) parts" and i: "i < length parts"
  shows "\<exists>e ps'. AddPart ps (parts ! i) = Ret (e, ps') \<and> holds ps' parts (insert i S) \<and>
           ps_Header ps' = ps_Header ps \<and> ps_BlockHeaderHash ps' = ps_BlockHeaderHash ps"
proof -
  let ?p = "parts ! i"
  have g: "Part_Index ?p = int i" "pt_Height ?p = psh_Height (ps_Header ps)" "pt_Round ?p = psh_Round (ps_Header ps)"
    "Part_Verify ?p (psh_Root (ps_Header ps)) (psh_Total (ps_Header ps)) (psh_ChainID (ps_Header ps)) = Ret (Inr ())"
    "psh_Total (ps_Header ps) = int (length parts)"
    using h(2) i by (auto simp: genuine_def)
  have len: "length (Parts ps) = length parts" using h(1) by (simp add: holds_def)
  show ?thesis
  proof (cases "Parts ps ! i")
    case (Ptr q)
    then have "Parts ps ! i = Ptr ?p" using h(1) i by (auto simp: holds_def)
    then have "holds ps parts (insert i S)" using h(1) by (auto simp: holds_def)
    moreover have "AddPart ps ?p = Ret (Ptr DuplicatedPartPassError, ps)"
      using Ptr g i len by (simp add: AddPart_def go_index_def)
    ultimately show ?thesis by blast
  next
    case Nil_ptr
    let ?ps = "ps\<lparr>Parts := (Parts ps)[i := Ptr ?p], count := count ps + 1\<rparr>"
    have add: "AddPart ps ?p = Ret (Nil_ptr, ?ps)"
      using Nil_ptr g i len by (simp add: AddPart_def go_index_def go_update_def)
    have "ps_inv ?ps" using ps_inv_insert [of ps ?p] h(1) g i len Nil_ptr by (simp add: holds_def)
    then have "holds ?ps parts (insert i S)"
      using h(1) i len by (auto simp: holds_def nth_list_update)
    then show ?thesis using add by auto
  qed
qed

lemma receive_many:
  assumes "holds ps parts S" "genuine (ps_Header ps) parts" "\<forall>i \<in> set is. i < length parts"
  shows "\<exists>ps'. receive_parts ps (map ((!) parts) is) = Ret ps' \<and> holds ps' parts (S \<union> set is) \<and>
           ps_Header ps' = ps_Header ps \<and> ps_BlockHeaderHash ps' = ps_BlockHeaderHash ps"
  using assms
proof (induction "is" arbitrary: ps S)
  case (Cons i "is")
  obtain e ps1 where 1: "AddPart ps (parts ! i) = Ret (e, ps1)" "holds ps1 parts (insert i S)"
    "ps_Header ps1 = ps_Header ps" "ps_BlockHeaderHash ps1 = ps_BlockHeaderHash ps"
    using receive_one [OF Cons.prems(1,2), of i] Cons.prems(3) by auto
  obtain ps2 where "receive_parts ps1 (map ((!) parts) is) = Ret ps2" "holds ps2 parts (insert i S \<union> set is)"
    "ps_Header ps2 = ps_Header ps1" "ps_BlockHeaderHash ps2 = ps_BlockHeaderHash ps1"
    using Cons.IH [OF 1(2)] 1(3) Cons.prems by auto
  then show ?case using 1 by auto
qed simp

lemma holds_all:
  assumes "holds ps parts {..<length parts}" "genuine (ps_Header ps) parts"
  shows "Parts ps = map Ptr parts" "IsComplete ps" "count ps = int (length parts)"
proof -
  show p: "Parts ps = map Ptr parts" using assms(1) by (intro nth_equalityI) (auto simp: holds_def)
  have "filter (\<lambda>q. \<not> is_nil q) (map Ptr parts) = map Ptr parts" by (auto simp: filter_map comp_def)
  then show c: "count ps = int (length parts)" using assms(1) p by (simp add: holds_def ps_inv_def)
  then show "IsComplete ps" using assms by (simp add: IsComplete_def genuine_def)
qed

lemma those_part_bytes: "those (map part_bytes (map Ptr parts)) = Ret (map pt_Bytes parts)"
  by (induction parts) (auto simp: part_bytes_def)

lemma make_parts_spec:
  "i + length bzs \<le> length pf \<Longrightarrow>
   \<exists>ps. make_parts ch h r bzs pf (int i) = Ret ps \<and> length ps = length bzs \<and> map pt_Bytes ps = bzs \<and>
     (\<forall>j < length bzs. pt_ChainID (ps ! j) = ch \<and> pt_Height (ps ! j) = h \<and> pt_Round (ps ! j) = r \<and>
        pt_Bytes (ps ! j) = bzs ! j \<and> pt_Proof (ps ! j) = pf ! (i + j))"
proof (induction bzs arbitrary: i)
  case (Cons bz bzs)
  then obtain ps where "make_parts ch h r bzs pf (int (Suc i)) = Ret ps" "length ps = length bzs" "map pt_Bytes ps = bzs"
     "\<forall>j < length bzs. pt_ChainID (ps ! j) = ch \<and> pt_Height (ps ! j) = h \<and> pt_Round (ps ! j) = r \<and>
        pt_Bytes (ps ! j) = bzs ! j \<and> pt_Proof (ps ! j) = pf ! (Suc i + j)"
    using Cons.IH [of "Suc i"] by auto
  then show ?case using Cons.prems by (auto simp: nth_Cons add.commute split: nat.splits)
qed simp

lemma PartSetFromBlock_spec:
  assumes bz: "Block_ProtoBytes c b = Ret bz" and sz: "0 < maxPartSize"
  obtains parts hd bh b' where
    "PartSetFromBlock tm c b maxPartSize rnd = Some (Ret (\<lparr>ps_Header = hd, Parts = map Ptr parts,
        count = int (length parts), ps_BlockHeaderHash = bh\<rparr>, b'))"
    "genuine hd parts" "concat (map pt_Bytes parts) = bz" "Block_Hash tm b = Ret (bh, b')"
    "psh_ChainID hd = ChainID (b_Header b)" "psh_Height hd = Height (b_Header b)"
    "HashFromByteSlices (map pt_Bytes parts) = Ret (psh_Root hd)" "length parts = length (chunks (nat maxPartSize) bz)"
proof -
  let ?bl = "chunks (nat maxPartSize) bz"
  let ?hs = "map leafHash ?bl"
  obtain pf where pf: "ProofsFromByteSlices ?bl = Some (tree_hash ?hs, pf)" "length pf = length ?bl"
     "\<forall>i < length ?bl. pf ! i = \<lparr>Total = int (length ?bl), Index = int i, LeafHash = Ptr (leafHash (?bl ! i)),
                                  Aunts = aunts_of ?hs i\<rparr>"
    using ProofsFromByteSlices_spec by blast
  obtain parts where p: "make_parts (ChainID (b_Header b)) (Height (b_Header b)) rnd ?bl pf 0 = Ret parts"
    "length parts = length ?bl" "map pt_Bytes parts = ?bl"
    "\<forall>j < length ?bl. pt_ChainID (parts ! j) = ChainID (b_Header b) \<and> pt_Height (parts ! j) = Height (b_Header b) \<and>
        pt_Round (parts ! j) = rnd \<and> pt_Bytes (parts ! j) = ?bl ! j \<and> pt_Proof (parts ! j) = pf ! j"
    using make_parts_spec [of 0 ?bl pf "ChainID (b_Header b)" "Height (b_Header b)" rnd] pf(2) by auto
  obtain bh b' where h: "Block_Hash tm b = Ret (bh, b')" by (rule Block_Hash_cases [of b tm]) (auto split: if_splits)
  let ?hd = "\<lparr>psh_Height = Height (b_Header b), psh_Round = rnd, psh_Total = int (length parts),
     psh_Root = tree_hash ?hs, psh_ChainID = ChainID (b_Header b)\<rparr>"
  have v: "Part_Verify (parts ! i) (tree_hash ?hs) (int (length ?bl)) (ChainID (b_Header b)) = Ret (Inr ())"
    if "i < length ?bl" for i
    using that p(4) pf(3) computeHashFromAunts_aunts_of [of i ?hs]
    by (simp add: Part_Verify_def Verify_def ComputeRootHash_def)
  have "genuine ?hd parts"
  proof -
    have "tree_hash ?hs \<noteq> []" using length_tree_hash_leaves [of ?bl] by (metis list.size(3) zero_neq_numeral)
    then show ?thesis unfolding genuine_def using p(2,4) v pf(3) by (auto simp: Part_Index_def)
  qed
  moreover have "PartSetFromBlock tm c b maxPartSize rnd = Some (Ret (\<lparr>ps_Header = ?hd, Parts = map Ptr parts,
        count = int (length parts), ps_BlockHeaderHash = bh\<rparr>, b'))"
    using bz sz pf(1) p(1) h by (simp add: PartSetFromBlock_def SplitByteArray_chunks)
  ultimately show thesis
    using that [of ?hd parts bh b'] p(2,3) h sz by (simp add: concat_chunks HashFromByteSlices_tree_hash)
qed

section \<open>Properties\<close>

text \<open>A block survives its message form: decoding the bytes of a block gives the same block, with
  its hash cache empty.\<close>

theorem Block_roundtrip:
  assumes "codec_ok c" "header_fits (b_Header b)" "Block_ProtoBytes c b = Ret bz"
  shows "NewBlockFromBytes c bz = Ret (Ptr (b\<lparr>blockhash := []\<rparr>))"
  using assms by (rule Block_bytes_roundtrip)

definition demo_header :: Header where
  "demo_header = \<lparr>BlockType = 1, HashPointer = [], ChainID = ''a'', Height = 5, Time = \<lparr>sec = 1, nsec = 2\<rparr>,
     BodyRoot = [], CrossShardBodyRoot = [], StateRoot = [], ReceiptRoot = [], RelationRoot = []\<rparr>"

definition demo_block :: Block where
  "demo_block = \<lparr>b_Header = demo_header, b_Body = \<lparr>BodyTxs = [[1]]\<rparr>,
     b_CrossShardBody = \<lparr>CrossShardTxs = [], CrossShardDatas = []\<rparr>,
     b_Relation = \<lparr>RelatedCommitStatus = [], RelatedHash = [], MyCommitStatus = []\<rparr>, blockhash = []\<rparr>"

definition demo_codec :: "pb_Block codec" where
  "demo_codec = one_codec (Block_ToProto demo_block) [1, 2, 3, 4, 5]"

lemma demo_block_facts:
  "codec_ok demo_codec" "header_fits (b_Header demo_block)" "Block_ProtoBytes demo_codec demo_block = Ret [1, 2, 3, 4, 5]"
  "cache_ok tm demo_block"
  by (simp_all add: demo_codec_def demo_block_def demo_header_def header_fits_def time_ok_def cache_ok_def
      Block_ProtoBytes_def MustProtoBytes_def)

theorem Block_roundtrip_witness:
  "NewBlockFromBytes demo_codec [1, 2, 3, 4, 5] = Ret (Ptr (demo_block\<lparr>blockhash := []\<rparr>))"
  by (rule Block_roundtrip [OF demo_block_facts(1-3)])

text \<open>Hashing a block whose cache is right returns, fills the header, and is stable: hashing the
  result again changes nothing and gives the same hash as a block without cache.\<close>

theorem Block_Hash_stable:
  assumes "cache_ok tm b"
  shows "\<exists>h b'. Block_Hash tm b = Ret (h, b') \<and> cache_ok tm b' \<and> header_filled b' \<and> Block_Hash tm b' = Ret (h, b') \<and>
           Block_Hash tm (b\<lparr>blockhash := []\<rparr>) = Ret (h, b')"
proof -
  obtain b1 r where c: "header_filled b1"
    "Block_Hash tm b = (if length (blockhash b) \<noteq> 32 then Ret (slice_bytes r, b1\<lparr>blockhash := slice_bytes r\<rparr>)
                        else Ret (blockhash b, b1))"
    by (rule Block_Hash_cases [of b tm]) auto
  then obtain h b' where h: "Block_Hash tm b = Ret (h, b')" "header_filled b'"
    by (auto simp: header_filled_def split: if_splits)
  then show ?thesis using Block_Hash_cached [OF assms h(1)] by blast
qed

theorem Block_Hash_stable_witness:
  "\<exists>h b'. Block_Hash (\<lambda>t. Some [7]) demo_block = Ret (h, b') \<and> header_filled b' \<and>
     Block_Hash (\<lambda>t. Some [7]) b' = Ret (h, b')"
  using Block_Hash_stable [OF demo_block_facts(4), of "\<lambda>t. Some [7]"] by blast

text \<open>\<open>AddPart\<close> keeps the part-set invariant (every stored part sits at its own index and verifies
  against the header, and the counter counts them), never changes the set when it returns an error,
  and panics exactly on a negative part index.\<close>

theorem AddPart_invariant:
  assumes "ps_inv ps" "psh_Root (ps_Header ps) \<noteq> []"
  shows "(AddPart ps p = Panic \<longleftrightarrow> Part_Index p < 0) \<and>
    (\<forall>e ps'. AddPart ps p = Ret (e, ps') \<longrightarrow>
       ps_inv ps' \<and> ps_Header ps' = ps_Header ps \<and> (e \<noteq> Nil_ptr \<longrightarrow> ps' = ps) \<and>
       (e = Nil_ptr \<longrightarrow> Parts ps' ! nat (Part_Index p) = Ptr p \<and> count ps' = count ps + 1))"
proof (cases "Part_Index p < 0")
  case True
  then show ?thesis using AddPart_negative [OF assms(1)] by simp
next
  case False
  then have i: "0 \<le> Part_Index p" by simp
  show ?thesis
  proof (rule AddPart_step [OF assms i])
    fix e assume "AddPart ps p = Ret (Ptr e, ps)"
    then show ?thesis using i assms(1) by simp
  next
    assume *: "AddPart ps p = Ret (Nil_ptr, ps\<lparr>Parts := (Parts ps)[nat (Part_Index p) := Ptr p], count := count ps + 1\<rparr>)"
      "Part_Index p < int (length (Parts ps))" "Parts ps ! nat (Part_Index p) = Nil_ptr"
      "Part_Verify p (psh_Root (ps_Header ps)) (psh_Total (ps_Header ps)) (psh_ChainID (ps_Header ps)) = Ret (Inr ())"
    then have "nat (Part_Index p) < length (Parts ps)" using i by linarith
    then show ?thesis using * i ps_inv_insert [OF assms(1) i *(2-4)] by simp
  qed
qed

definition demo_part :: "int \<Rightarrow> Part" where
  "demo_part i = \<lparr>pt_ChainID = ''a'', pt_Height = 1, pt_Round = 0, pt_Bytes = [1],
     pt_Proof = \<lparr>Total = 2, Index = i, LeafHash = Nil_ptr, Aunts = []\<rparr>\<rparr>"

theorem AddPart_invariant_witness:
  "\<exists>ps. NewPartSet \<lparr>psh_Height = 1, psh_Round = 0, psh_Total = 2, psh_Root = [1], psh_ChainID = ''a''\<rparr> [] = Ret ps \<and>
     AddPart ps (demo_part (-1)) = Panic \<and> AddPart ps (demo_part 0) \<noteq> Panic"
proof -
  let ?ps = "\<lparr>ps_Header = \<lparr>psh_Height = 1, psh_Round = 0, psh_Total = 2, psh_Root = [1], psh_ChainID = ''a''\<rparr>,
    Parts = [Nil_ptr, Nil_ptr], count = 0, ps_BlockHeaderHash = []\<rparr>"
  have "ps_inv ?ps" by (auto simp: ps_inv_def less_Suc_eq)
  then have "AddPart ?ps (demo_part i) = Panic \<longleftrightarrow> i < 0" for i
    using AddPart_invariant [of ?ps "demo_part i"] by (simp add: demo_part_def Part_Index_def)
  then have "AddPart ?ps (demo_part (-1)) = Panic" "AddPart ?ps (demo_part 0) \<noteq> Panic" by simp_all
  moreover have "NewPartSet \<lparr>psh_Height = 1, psh_Round = 0, psh_Total = 2, psh_Root = [1], psh_ChainID = ''a''\<rparr> [] = Ret ?ps"
    by (simp add: NewPartSet_def numeral_2_eq_2)
  ultimately show ?thesis by blast
qed

text \<open>C34: the parts of a block, received in any order and with any repetitions, rebuild the block: every
  part set that starts empty from the proposer's header is then complete, and \<open>GenBlock\<close> returns the
  proposer's (hashed) block without error.\<close>

theorem PartSet_reassembles:
  assumes "codec_ok c" "header_fits (b_Header b)" "cache_ok tm b"
    and "Block_ProtoBytes c b = Ret bz" "0 < maxPartSize"
    and "PartSetFromBlock tm c b maxPartSize rnd = Some (Ret (ps0, b'))"
    and "set is = {..<length (Parts ps0)}"
  shows "\<exists>ps ps'. NewPartSet (ps_Header ps0) (ps_BlockHeaderHash ps0) = Ret ps \<and>
           receive_parts ps (map (\<lambda>i. deref (Parts ps0 ! i)) is) = Ret ps' \<and>
           IsComplete ps' \<and> GenBlock tm c ps' = Ret (Ptr b', Nil_ptr)"
proof -
  obtain parts hd bh b'' where s:
    "PartSetFromBlock tm c b maxPartSize rnd = Some (Ret (\<lparr>ps_Header = hd, Parts = map Ptr parts,
        count = int (length parts), ps_BlockHeaderHash = bh\<rparr>, b''))"
    "genuine hd parts" "concat (map pt_Bytes parts) = bz" "Block_Hash tm b = Ret (bh, b'')"
    "psh_ChainID hd = ChainID (b_Header b)" "psh_Height hd = Height (b_Header b)"
    using PartSetFromBlock_spec [OF assms(4,5)] by metis
  have ps0: "ps_Header ps0 = hd" "Parts ps0 = map Ptr parts" "ps_BlockHeaderHash ps0 = bh" "b' = b''"
    using s(1) assms(6) by auto
  let ?ps = "\<lparr>ps_Header = hd, Parts = replicate (length parts) Nil_ptr, count = 0, ps_BlockHeaderHash = bh\<rparr>"
  have new: "NewPartSet (ps_Header ps0) (ps_BlockHeaderHash ps0) = Ret ?ps"
    using s(2) ps0 by (simp add: NewPartSet_def genuine_def)
  have "holds ?ps parts {}" using s(2) by (simp add: holds_def ps_inv_def genuine_def)
  then obtain ps' where r: "receive_parts ?ps (map ((!) parts) is) = Ret ps'" "holds ps' parts (set is)"
    "ps_Header ps' = hd" "ps_BlockHeaderHash ps' = bh"
    using receive_many [of ?ps parts "{}" "is"] s(2) assms(7) ps0(2) by auto
  have eq: "map (\<lambda>i. deref (Parts ps0 ! i)) is = map ((!) parts) is" using assms(7) ps0(2) by (intro map_cong) auto
  have all: "Parts ps' = map Ptr parts" "IsComplete ps'" "count ps' = int (length parts)"
    using holds_all [of ps' parts] r assms(7) ps0(2) s(2) by auto
  moreover have "GenBlock tm c ps' = Ret (Ptr b'', Nil_ptr)"
    using all r s Block_bytes_roundtrip [OF assms(1,2,4)] Block_Hash_cached(3) [OF assms(3) s(4)]
    by (simp add: GenBlock_def Block_ValidateBasic_def those_part_bytes [unfolded map_map])
  ultimately show ?thesis unfolding eq using new r(1) ps0(4) by blast
qed

lemma demo_part_set:
  "\<exists>ps0 b'. PartSetFromBlock (\<lambda>t. Some [7]) demo_codec demo_block 2 0 = Some (Ret (ps0, b')) \<and> length (Parts ps0) = 3"
proof -
  obtain parts hd bh b' where
    "PartSetFromBlock (\<lambda>t. Some [7]) demo_codec demo_block 2 0 = Some (Ret (\<lparr>ps_Header = hd, Parts = map Ptr parts,
        count = int (length parts), ps_BlockHeaderHash = bh\<rparr>, b'))"
    "length parts = length (chunks 2 [1::byte, 2, 3, 4, 5])"
    using PartSetFromBlock_spec [OF demo_block_facts(3), of 2 "\<lambda>t. Some [7]" 0] by (metis nat_numeral zero_less_numeral)
  then show ?thesis by (simp add: length_chunks)
qed

theorem PartSet_reassembles_witness:
  "\<exists>ps0 b' ps ps'. PartSetFromBlock (\<lambda>t. Some [7]) demo_codec demo_block 2 0 = Some (Ret (ps0, b')) \<and>
     NewPartSet (ps_Header ps0) (ps_BlockHeaderHash ps0) = Ret ps \<and>
     receive_parts ps (map (\<lambda>i. deref (Parts ps0 ! i)) [2, 0, 2, 1]) = Ret ps' \<and>
     GenBlock (\<lambda>t. Some [7]) demo_codec ps' = Ret (Ptr b', Nil_ptr)"
proof -
  obtain ps0 b' where p: "PartSetFromBlock (\<lambda>t. Some [7]) demo_codec demo_block 2 0 = Some (Ret (ps0, b'))"
    "length (Parts ps0) = 3" using demo_part_set by blast
  have "set [2, 0, 2, 1] = {..<length (Parts ps0)}" using p(2) by (auto simp: numeral_3_eq_3)
  from PartSet_reassembles [OF demo_block_facts(1,2,4,3) zero_less_numeral p(1) this]
  show ?thesis using p(1) by blast
qed

text \<open>C35: a part accepted under the header of a block's part set carries that block's bytes at its
  index, or its proof exhibits a SHA-256 collision.\<close>

theorem accepted_part_is_genuine:
  assumes "Block_ProtoBytes c b = Ret bz" "0 < maxPartSize"
    and "PartSetFromBlock tm c b maxPartSize rnd = Some (Ret (ps0, b'))"
    and "Part_Verify p (psh_Root (ps_Header ps0)) (psh_Total (ps_Header ps0)) (psh_ChainID (ps_Header ps0)) = Ret (Inr ())"
  shows "0 \<le> Part_Index p \<and> Part_Index p < int (length (Parts ps0)) \<and>
    (pt_Bytes p = pt_Bytes (deref (Parts ps0 ! nat (Part_Index p))) \<or>
     (case collision (map (\<lambda>q. pt_Bytes (deref q)) (Parts ps0)) (Part_Index p) (pt_Bytes p) (Aunts (pt_Proof p)) of
        (x, y) \<Rightarrow> x \<noteq> y \<and> Sum x = Sum y))"
proof -
  obtain parts hd bh b'' where s:
    "PartSetFromBlock tm c b maxPartSize rnd = Some (Ret (\<lparr>ps_Header = hd, Parts = map Ptr parts,
        count = int (length parts), ps_BlockHeaderHash = bh\<rparr>, b''))"
    "genuine hd parts" "HashFromByteSlices (map pt_Bytes parts) = Ret (psh_Root hd)"
    using PartSetFromBlock_spec [OF assms(1,2)] by metis
  have ps0: "ps_Header ps0 = hd" "Parts ps0 = map Ptr parts" using s(1) assms(3) by auto
  have v: "Verify (pt_Proof p) (psh_Root hd) (pt_Bytes p) = Ret (Inr ())" "Total (pt_Proof p) = int (length (map pt_Bytes parts))"
    using assms(4) s(2) ps0 by (auto simp: Part_Verify_def genuine_def split: bind_splits sum.splits if_splits)
  show ?thesis
    using verify_sound [OF s(3) v] ps0 v(2) by (auto simp: Part_Index_def comp_def)
qed

theorem accepted_part_is_genuine_witness:
  "\<exists>ps0 b' p. PartSetFromBlock (\<lambda>t. Some [7]) demo_codec demo_block 2 0 = Some (Ret (ps0, b')) \<and>
     p = deref (Parts ps0 ! 1) \<and> 0 \<le> Part_Index p \<and> Part_Index p < int (length (Parts ps0))"
proof -
  obtain parts hd bh b' where s:
    "PartSetFromBlock (\<lambda>t. Some [7]) demo_codec demo_block 2 0 = Some (Ret (\<lparr>ps_Header = hd, Parts = map Ptr parts,
        count = int (length parts), ps_BlockHeaderHash = bh\<rparr>, b'))" "genuine hd parts"
    "length parts = length (chunks 2 [1::byte, 2, 3, 4, 5])"
    using PartSetFromBlock_spec [OF demo_block_facts(3), of 2 "\<lambda>t. Some [7]" 0] by (metis nat_numeral zero_less_numeral)
  then have "1 < length parts" by (simp add: length_chunks)
  then have v: "Part_Verify (parts ! 1) (psh_Root hd) (psh_Total hd) (psh_ChainID hd) = Ret (Inr ())"
    using s(2) unfolding genuine_def by blast
  show ?thesis
    using accepted_part_is_genuine [OF demo_block_facts(3) zero_less_numeral s(1), of "parts ! 1"] v \<open>1 < length parts\<close> s(1)
    by auto
qed

end
