(* ===== verification/BitVec.thy ===== *)
theory BitVec
  imports Prelude
begin

text \<open>
  Model of \<open>utils/bit-vector.go\<close>: the bit vectors that carry validator sets and commit statuses.
  The record has the struct's two fields; every method is one definition, taking the (possibly
  nil) receiver pointer. \<open>bv_list\<close> reads a vector as a list of booleans and the lemmas show that
  each operation acts on that list as its name says, and where it does not.
\<close>

section \<open>Data and operations\<close>

record BitVector =
  Bits :: int
  Elems :: bytes

definition NewBitVector :: "int \<Rightarrow> BitVector ptr" where
  "NewBitVector bits =
     (if bits < 0 then Nil_ptr
      else Ptr \<lparr>Bits = bits, Elems = replicate (nat ((bits + 7) sdiv 8)) 0\<rparr>)"

definition Byte :: "BitVector ptr \<Rightarrow> bytes" where
  "Byte bV =
     (case bV of
        Nil_ptr \<Rightarrow> (let z = deref (NewBitVector 0) in word_of_int (8 * int (length (Elems z)) - Bits z) # Elems z)
      | Ptr b \<Rightarrow> (let uselessBits = 8 * int (length (Elems b)) - Bits b in word_of_int uselessBits # Elems b))"

fun fill_elems :: "bytes \<Rightarrow> nat \<Rightarrow> bytes \<Rightarrow> bytes go" where
  "fill_elems elems i [] = Ret elems"
| "fill_elems elems i (temp # rest) =
     do { elems' \<leftarrow> go_update elems (int i) temp; fill_elems elems' (Suc i) rest }"

definition NewBitArrayFromByte :: "bytes \<Rightarrow> BitVector ptr go" where
  "NewBitArrayFromByte buf =
     (case buf of
        [] \<Rightarrow> Ret (NewBitVector 0)
      | u # rest \<Rightarrow>
          (let uselessBits = sint u;
               len = int (length rest);
               all = len * 8 - uselessBits
           in case NewBitVector all of
                Nil_ptr \<Rightarrow> (if rest = [] then Ret Nil_ptr else Panic)
              | Ptr bv \<Rightarrow> do { es \<leftarrow> fill_elems (Elems bv) 0 rest; Ret (Ptr (bv\<lparr>Elems := es\<rparr>)) }))"

definition Size :: "BitVector ptr \<Rightarrow> int" where
  "Size bA = (case bA of Nil_ptr \<Rightarrow> 0 | Ptr b \<Rightarrow> Bits b)"

text \<open>\<open>uint8(1) << uint(k)\<close>: a negative \<open>k\<close> converts to a huge unsigned count, which shifts the bit out.\<close>

definition mask8 :: "int \<Rightarrow> byte" where
  "mask8 k = (if k < 0 then 0 else push_bit (nat k) 1)"

definition GetIndex :: "BitVector ptr \<Rightarrow> int \<Rightarrow> bool go" where
  "GetIndex bA i =
     (case bA of
        Nil_ptr \<Rightarrow> Ret False
      | Ptr b \<Rightarrow>
          if i \<ge> Bits b then Ret False
          else do { e \<leftarrow> go_index (Elems b) (i sdiv 8); Ret (e AND mask8 (i smod 8) > 0) })"

fun count_from :: "BitVector ptr \<Rightarrow> nat \<Rightarrow> int \<Rightarrow> int \<Rightarrow> int go" where
  "count_from bA 0 i count = Ret count"
| "count_from bA (Suc n) i count =
     do { g \<leftarrow> GetIndex bA i; count_from bA n (i + 1) (if g then count + 1 else count) }"

definition CountNoneZero :: "BitVector ptr \<Rightarrow> int go" where
  "CountNoneZero bA = count_from bA (nat (Size bA)) 0 0"

definition SetIndex :: "BitVector ptr \<Rightarrow> int \<Rightarrow> bool \<Rightarrow> (bool \<times> BitVector ptr) go" where
  "SetIndex bA i v =
     (case bA of
        Nil_ptr \<Rightarrow> Ret (False, bA)
      | Ptr b \<Rightarrow>
          if i \<ge> Bits b then Ret (False, bA)
          else do {
            e \<leftarrow> go_index (Elems b) (i sdiv 8);
            es \<leftarrow> go_update (Elems b) (i sdiv 8)
                    (if v then e OR mask8 (i smod 8) else e AND NOT (mask8 (i smod 8)));
            Ret (True, Ptr (b\<lparr>Elems := es\<rparr>)) })"

definition copy_bv :: "BitVector \<Rightarrow> BitVector" where
  "copy_bv b = \<lparr>Bits = Bits b, Elems = Elems b\<rparr>"

definition Copy :: "BitVector ptr \<Rightarrow> BitVector ptr" where
  "Copy bA = (case bA of Nil_ptr \<Rightarrow> NewBitVector 0 | Ptr b \<Rightarrow> Ptr (copy_bv b))"

definition copyBits :: "BitVector \<Rightarrow> int \<Rightarrow> BitVector" where
  "copyBits b bits =
     (let n = nat ((bits + 7) sdiv 8)
      in \<lparr>Bits = bits, Elems = take n (Elems b) @ replicate (n - length (Elems b)) 0\<rparr>)"

text \<open>The element loops \<open>for i := 0; i < n; i++ { c.Elems[i] = f(c.Elems[i], o.Elems[i]) }\<close>.\<close>

fun elem_loop :: "(byte \<Rightarrow> byte \<Rightarrow> byte) \<Rightarrow> nat \<Rightarrow> nat \<Rightarrow> bytes \<Rightarrow> bytes \<Rightarrow> bytes go" where
  "elem_loop f 0 i cs os = Ret cs"
| "elem_loop f (Suc k) i cs os =
     do { x \<leftarrow> go_index cs (int i);
          y \<leftarrow> go_index os (int i);
          cs' \<leftarrow> go_update cs (int i) (f x y);
          elem_loop f k (Suc i) cs' os }"

definition Or :: "BitVector ptr \<Rightarrow> BitVector ptr \<Rightarrow> BitVector ptr go" where
  "Or bA o' =
     (case (bA, o') of
        (Nil_ptr, Nil_ptr) \<Rightarrow> Ret Nil_ptr
      | (Nil_ptr, Ptr ob) \<Rightarrow> Ret (Copy o')
      | (Ptr b, Nil_ptr) \<Rightarrow> Ret (Copy bA)
      | (Ptr b, Ptr ob) \<Rightarrow>
          (let c = copyBits b (max (Bits b) (Bits ob));
               smaller = min (length (Elems b)) (length (Elems ob))
           in do { es \<leftarrow> elem_loop (OR) smaller 0 (Elems c) (Elems ob); Ret (Ptr (c\<lparr>Elems := es\<rparr>)) }))"

definition And :: "BitVector ptr \<Rightarrow> BitVector ptr \<Rightarrow> BitVector ptr go" where
  "And bA o' =
     (case (bA, o') of
        (Ptr b, Ptr ob) \<Rightarrow>
          (let c = copyBits b (min (Bits b) (Bits ob))
           in do { es \<leftarrow> elem_loop (AND) (length (Elems c)) 0 (Elems c) (Elems ob);
                   Ret (Ptr (c\<lparr>Elems := es\<rparr>)) })
      | _ \<Rightarrow> Ret Nil_ptr)"

definition Not_bv :: "BitVector ptr \<Rightarrow> BitVector ptr" where
  "Not_bv bA = (case bA of Nil_ptr \<Rightarrow> Nil_ptr | Ptr b \<Rightarrow> (let c = copy_bv b in Ptr (c\<lparr>Elems := map NOT (Elems c)\<rparr>)))"

definition Sub :: "BitVector ptr \<Rightarrow> BitVector ptr \<Rightarrow> BitVector ptr go" where
  "Sub bA o' =
     (case (bA, o') of
        (Ptr b, Ptr ob) \<Rightarrow>
          (let c = copyBits b (Bits b);
               smaller = min (length (Elems b)) (length (Elems ob))
           in do { es \<leftarrow> elem_loop (\<lambda>x y. x AND NOT y) smaller 0 (Elems c) (Elems ob);
                   Ret (Ptr (c\<lparr>Elems := es\<rparr>)) })
      | _ \<Rightarrow> Ret Nil_ptr)"

section \<open>Abstraction and invariant\<close>

definition bv_wf :: "BitVector \<Rightarrow> bool" where
  "bv_wf b \<longleftrightarrow> 0 \<le> Bits b \<and> int (length (Elems b)) = (Bits b + 7) div 8"

definition bv_bit :: "BitVector \<Rightarrow> nat \<Rightarrow> bool" where
  "bv_bit b i = bit (Elems b ! (i div 8)) (i mod 8)"

definition bv_list :: "BitVector \<Rightarrow> bool list" where
  "bv_list b = map (bv_bit b) [0..<nat (Bits b)]"

text \<open>The padding bits of the last byte are zero.\<close>

definition bv_clean :: "BitVector \<Rightarrow> bool" where
  "bv_clean b \<longleftrightarrow> (\<forall>i \<in> {nat (Bits b)..<8 * length (Elems b)}. \<not> bv_bit b i)"

lemma length_bv_list [simp]: "length (bv_list b) = nat (Bits b)"
  by (simp add: bv_list_def)

lemma nth_bv_list [simp]: "i < nat (Bits b) \<Longrightarrow> bv_list b ! i = bv_bit b i"
  by (simp add: bv_list_def)

lemma bv_wf_elem_in_range: "bv_wf b \<Longrightarrow> i < nat (Bits b) \<Longrightarrow> i div 8 < length (Elems b)"
  by (simp add: bv_wf_def) linarith

lemma bv_wf_length: "bv_wf b \<Longrightarrow> length (Elems b) = (nat (Bits b) + 7) div 8"
  by (simp add: bv_wf_def) linarith

lemma bv_wf_mono: "bv_wf a \<Longrightarrow> bv_wf b \<Longrightarrow> Bits a \<le> Bits b \<Longrightarrow> length (Elems a) \<le> length (Elems b)"
  by (simp add: bv_wf_length div_le_mono nat_mono)

lemma NewBitVector_wf: "0 \<le> n \<Longrightarrow> \<exists>b. NewBitVector n = Ptr b \<and> bv_wf b \<and> bv_list b = replicate (nat n) False"
proof -
  assume n: "0 \<le> n"
  let ?b = "\<lparr>Bits = n, Elems = replicate (nat ((n + 7) div 8)) (0::byte)\<rparr>"
  have "bv_list ?b = replicate (nat n) False"
    by (rule nth_equalityI) (auto simp: bv_bit_def)
  then show ?thesis
    using n by (auto simp: NewBitVector_def bv_wf_def sdiv_nonneg)
qed

lemma bit_mask8: "bit (mask8 (int k)) n = (k < 8 \<and> n = k)"
  by (auto simp: mask8_def bit_simps)

lemma bit_and_mask8: "k < 8 \<Longrightarrow> (e AND mask8 (int k) > 0) = bit e k"
proof -
  assume "k < 8"
  have "e AND mask8 (int k) = 0 \<longleftrightarrow> (\<forall>n. \<not> bit (e AND mask8 (int k)) n)"
    by (metis bit_0_eq bit_word_eqI bot_apply bot_bool_def)
  then have "(e AND mask8 (int k) \<noteq> 0) = bit e k"
    using \<open>k < 8\<close> by (auto simp: bit_and_iff bit_mask8)
  then show ?thesis by (simp add: word_neq_0_conv)
qed

lemma elem_pos:
  assumes "bv_wf b" "i < nat (Bits b)"
  shows "go_index (Elems b) (int i sdiv 8) = Ret (Elems b ! (i div 8))"
    and "go_update (Elems b) (int i sdiv 8) v = Ret ((Elems b)[i div 8 := v])"
    and "int i smod 8 = int (i mod 8)"
proof -
  have eq: "int i sdiv 8 = int (i div 8)" by (simp add: sdiv_nonneg zdiv_int)
  have "i div 8 < length (Elems b)" using assms by (rule bv_wf_elem_in_range)
  then show "go_index (Elems b) (int i sdiv 8) = Ret (Elems b ! (i div 8))"
    and "go_update (Elems b) (int i sdiv 8) v = Ret ((Elems b)[i div 8 := v])"
    by (simp_all only: eq go_index_nat go_update_nat)
  show "int i smod 8 = int (i mod 8)" by (simp add: smod_nonneg zmod_int)
qed

lemma GetIndex_bv:
  assumes "bv_wf b" "i < nat (Bits b)"
  shows "GetIndex (Ptr b) (int i) = Ret (bv_bit b i)"
proof -
  have "\<not> Bits b \<le> int i" using assms(2) by linarith
  then show ?thesis
    using bit_and_mask8 [of "i mod 8" "Elems b ! (i div 8)"]
    by (simp add: GetIndex_def bv_bit_def elem_pos [OF assms])
qed

lemma GetIndex_beyond: "Bits b \<le> i \<Longrightarrow> GetIndex (Ptr b) i = Ret False"
  by (simp add: GetIndex_def)

lemma GetIndex_total: "bv_wf b \<Longrightarrow> GetIndex (Ptr b) (int i) = Ret (i < nat (Bits b) \<and> bv_bit b i)"
  using GetIndex_bv [of b i] GetIndex_beyond [of b "int i"] by (cases "i < nat (Bits b)") auto

lemma GetIndex_nonneg: "bv_wf b \<Longrightarrow> 0 \<le> i \<Longrightarrow> GetIndex (Ptr b) i = Ret (i < Bits b \<and> bv_bit b (nat i))"
  using GetIndex_total [of b "nat i"] by auto

lemma SetIndex_bv:
  assumes "bv_wf b" "i < nat (Bits b)"
  obtains b' where "SetIndex (Ptr b) (int i) v = Ret (True, Ptr b')" "bv_wf b'" "Bits b' = Bits b"
    "bv_list b' = (bv_list b)[i := v]"
proof -
  let ?e = "Elems b ! (i div 8)" and ?m = "mask8 (int (i mod 8))"
  let ?e' = "if v then ?e OR ?m else ?e AND NOT ?m"
  let ?b' = "b\<lparr>Elems := (Elems b)[i div 8 := ?e']\<rparr>"
  have len: "i div 8 < length (Elems b)" using assms by (rule bv_wf_elem_in_range)
  have nle: "\<not> Bits b \<le> int i" using assms(2) by linarith
  have 1: "SetIndex (Ptr b) (int i) v = Ret (True, Ptr ?b')"
    using nle by (simp add: SetIndex_def elem_pos [OF assms])
  have bit_upd: "bit ?e' n = (if n = i mod 8 then v else bit ?e n)" if "n < 8" for n
    using that by (auto simp: bit_or_iff bit_and_iff bit_not_iff bit_mask8)
  have 2: "bv_list ?b' = (bv_list b)[i := v]"
  proof (rule nth_equalityI)
    fix j assume "j < length (bv_list ?b')"
    then have j: "j < nat (Bits b)" by simp
    have same: "j = i" if "j div 8 = i div 8" "j mod 8 = i mod 8"
      using that by (metis div_mult_mod_eq)
    show "bv_list ?b' ! j = (bv_list b)[i := v] ! j"
      using j len same bit_upd [of "j mod 8"] assms(2)
      by (cases "j div 8 = i div 8") (auto simp: bv_bit_def nth_list_update)
  qed simp
  have 3: "bv_wf ?b'" using assms(1) by (simp add: bv_wf_def)
  show thesis using that [OF 1 3 _ 2] by simp
qed

lemma SetIndex_beyond: "Bits b \<le> i \<Longrightarrow> SetIndex (Ptr b) i v = Ret (False, Ptr b)"
  by (simp add: SetIndex_def)

lemma elem_loop_map:
  assumes "i + k \<le> length cs" "i + k \<le> length os"
  shows "elem_loop f k i cs os =
    Ret (map (\<lambda>j. if i \<le> j \<and> j < i + k then f (cs ! j) (os ! j) else cs ! j) [0..<length cs])"
  using assms
proof (induction k arbitrary: i cs)
  case 0
  have "map (\<lambda>j. if i \<le> j \<and> j < i + 0 then f (cs ! j) (os ! j) else cs ! j) [0..<length cs] = cs"
    by (rule nth_equalityI) auto
  then show ?case by simp
next
  case (Suc k)
  let ?cs = "cs[i := f (cs ! i) (os ! i)]"
  have "elem_loop f k (Suc i) ?cs os =
      Ret (map (\<lambda>j. if Suc i \<le> j \<and> j < Suc i + k then f (?cs ! j) (os ! j) else ?cs ! j) [0..<length ?cs])"
    using Suc.prems by (intro Suc.IH) auto
  moreover have "map (\<lambda>j. if Suc i \<le> j \<and> j < Suc i + k then f (?cs ! j) (os ! j) else ?cs ! j) [0..<length ?cs]
      = map (\<lambda>j. if i \<le> j \<and> j < i + Suc k then f (cs ! j) (os ! j) else cs ! j) [0..<length cs]"
    using Suc.prems by (intro nth_equalityI) (auto simp: nth_list_update)
  ultimately show ?case using Suc.prems by simp
qed

lemma fill_elems_enough:
  "i + length rest \<le> length es \<Longrightarrow>
   fill_elems es i rest = Ret (take i es @ rest @ drop (i + length rest) es)"
proof (induction rest arbitrary: es i)
  case (Cons t rest)
  have "take (Suc i) (es[i := t]) = take i es @ [t]"
    using Cons.prems by (simp add: take_Suc_conv_app_nth)
  then show ?case
    using Cons by (simp add: drop_update_cancel)
qed simp

lemma fill_elems_short:
  "i \<le> length es \<Longrightarrow> length es < i + length rest \<Longrightarrow> fill_elems es i rest = Panic"
  by (induction rest arbitrary: es i) (auto simp: go_update_def bind_eq_None_conv)

lemma copyBits_wf: "0 \<le> n \<Longrightarrow> bv_wf (copyBits b n)"
  by (auto simp: copyBits_def bv_wf_def sdiv_nonneg Let_def)

lemma count_from_bv:
  "bv_wf b \<Longrightarrow> i + n \<le> nat (Bits b) \<Longrightarrow>
   count_from (Ptr b) n (int i) c = Ret (c + int (length (filter (bv_bit b) [i..<i + n])))"
proof (induction n arbitrary: i c)
  case (Suc n)
  have up: "[i..<Suc (i + n)] = i # [Suc i..<Suc (i + n)]" by (simp add: upt_conv_Cons)
  have "count_from (Ptr b) n (int (Suc i)) c' =
      Ret (c' + int (length (filter (bv_bit b) [Suc i..<Suc i + n])))" for c'
    using Suc.prems by (intro Suc.IH) auto
  then show ?case
    using Suc.prems by (simp add: up GetIndex_bv add.commute del: upt_Suc)
qed simp

section \<open>Properties\<close>

lemma sint_small_byte: "0 \<le> x \<Longrightarrow> x < 128 \<Longrightarrow> sint (word_of_int x :: byte) = x"
  by (simp add: sint_uint uint_word_of_int signed_take_bit_int_eq_self)

lemma bv_list_filter: "length (filter (bv_bit b) [0..<nat (Bits b)]) = length (filter id (bv_list b))"
  by (simp add: bv_list_def filter_map comp_def)

lemma Byte_roundtrip_aux:
  assumes "bv_wf b" shows "NewBitArrayFromByte (Byte (Ptr b)) = Ret (Ptr b)"
proof -
  let ?u = "8 * int (length (Elems b)) - Bits b"
  have u: "0 \<le> ?u \<and> ?u < 8" using assms by (simp add: bv_wf_def) linarith
  define w :: byte where "w = word_of_int ?u"
  have byte: "Byte (Ptr b) = w # Elems b" by (simp only: Byte_def ptr.case Let_def w_def)
  from u have sw: "sint w = ?u" unfolding w_def by (intro sint_small_byte) auto
  have "NewBitVector (Bits b) = Ptr \<lparr>Bits = Bits b, Elems = replicate (length (Elems b)) 0\<rparr>"
    using assms by (auto simp: NewBitVector_def bv_wf_def sdiv_nonneg nat_eq_iff)
  then show ?thesis
    by (simp add: byte NewBitArrayFromByte_def Let_def sw fill_elems_enough)
qed

lemma copyBits_bit:
  assumes "bv_wf b" "0 \<le> n" "i < nat n"
  shows "bv_bit (copyBits b n) i = (i < 8 * length (Elems b) \<and> bv_bit b i)"
proof -
  have "i div 8 < nat ((n + 7) div 8)" using assms by linarith
  then show ?thesis
    using assms(2) by (auto simp: copyBits_def bv_bit_def Let_def sdiv_nonneg nth_append min_def)
qed

lemma bv_bit_elem_map:
  "i div 8 < length (Elems c) \<Longrightarrow>
   bv_bit (c\<lparr>Elems := map g [0..<length (Elems c)]\<rparr>) i = bit (g (i div 8)) (i mod 8)"
  by (simp add: bv_bit_def)

lemma bv_wf_elem_map [simp]: "bv_wf (c\<lparr>Elems := map g [0..<length (Elems c)]\<rparr>) = bv_wf c"
  by (simp add: bv_wf_def)

text \<open>The three binary operations share one shape: copy to \<open>n\<close> bits, combine the first \<open>k\<close> bytes.\<close>

lemma combine_bits:
  assumes "bv_wf b" "0 \<le> n" "k \<le> length (Elems (copyBits b n))" "k \<le> length (Elems ob)"
  obtains es where "elem_loop f k 0 (Elems (copyBits b n)) (Elems ob) = Ret es"
    and "bv_wf ((copyBits b n)\<lparr>Elems := es\<rparr>)"
    and "\<And>i. i < nat n \<Longrightarrow> bv_bit ((copyBits b n)\<lparr>Elems := es\<rparr>) i =
      (if i div 8 < k then bit (f (Elems (copyBits b n) ! (i div 8)) (Elems ob ! (i div 8))) (i mod 8)
       else bv_bit (copyBits b n) i)"
proof -
  let ?c = "copyBits b n"
  let ?g = "\<lambda>j. if 0 \<le> j \<and> j < 0 + k then f (Elems ?c ! j) (Elems ob ! j) else Elems ?c ! j"
  have wf: "bv_wf ?c" using assms(2) by (rule copyBits_wf)
  have 1: "elem_loop f k 0 (Elems ?c) (Elems ob) = Ret (map ?g [0..<length (Elems ?c)])"
    using assms(3,4) by (intro elem_loop_map) auto
  have nc: "Bits ?c = n" by (simp add: copyBits_def Let_def)
  have 3: "bv_bit (?c\<lparr>Elems := map ?g [0..<length (Elems ?c)]\<rparr>) i =
      (if i div 8 < k then bit (f (Elems ?c ! (i div 8)) (Elems ob ! (i div 8))) (i mod 8) else bv_bit ?c i)"
    if "i < nat n" for i
    using bv_wf_elem_in_range [OF wf] that nc by (subst bv_bit_elem_map) (auto simp: bv_bit_def)
  show thesis using that [OF 1 _ 3] wf by simp
qed

lemma byte_of_bit: "i < nat n \<Longrightarrow> bv_wf b \<Longrightarrow> 0 \<le> n \<Longrightarrow> i div 8 < length (Elems b) \<Longrightarrow>
  bit (Elems (copyBits b n) ! (i div 8)) (i mod 8) = bv_bit b i"
  using copyBits_bit [of b n i] by (simp add: bv_bit_def) linarith

lemma And_bits:
  assumes "bv_wf b" "bv_wf ob"
  obtains c where "And (Ptr b) (Ptr ob) = Ret (Ptr c)" "bv_wf c"
    "bv_list c = map2 (\<and>) (bv_list b) (bv_list ob)"
proof -
  let ?n = "min (Bits b) (Bits ob)"
  let ?c = "copyBits b ?n"
  have n0: "0 \<le> ?n" using assms by (simp add: bv_wf_def)
  have wfc: "bv_wf ?c" using n0 by (rule copyBits_wf)
  have nc: "Bits ?c = ?n" by (simp add: copyBits_def Let_def)
  have kob: "length (Elems ?c) \<le> length (Elems ob)"
    using bv_wf_mono [OF wfc assms(2)] nc by simp
  obtain es where es: "elem_loop (AND) (length (Elems ?c)) 0 (Elems ?c) (Elems ob) = Ret es"
      "bv_wf (?c\<lparr>Elems := es\<rparr>)"
      and bits: "\<And>i. i < nat ?n \<Longrightarrow> bv_bit (?c\<lparr>Elems := es\<rparr>) i =
        (if i div 8 < length (Elems ?c) then bit (Elems ?c ! (i div 8) AND Elems ob ! (i div 8)) (i mod 8)
         else bv_bit ?c i)"
    using combine_bits [OF assms(1) n0 order.refl kob, of "(AND)"] by blast
  have "bv_list (?c\<lparr>Elems := es\<rparr>) = map2 (\<and>) (bv_list b) (bv_list ob)"
  proof (rule nth_equalityI)
    show "length (bv_list (?c\<lparr>Elems := es\<rparr>)) = length (map2 (\<and>) (bv_list b) (bv_list ob))"
      using nc by (simp add: min_def)
    fix i assume "i < length (bv_list (?c\<lparr>Elems := es\<rparr>))"
    then have i: "i < nat ?n" using nc by simp
    then have ib: "i < nat (Bits b)" "i < nat (Bits ob)" by auto
    have "i div 8 < length (Elems b)" using bv_wf_elem_in_range [OF assms(1) ib(1)] .
    moreover have "i div 8 < length (Elems ?c)" using bv_wf_elem_in_range [OF wfc] i nc by simp
    ultimately have "bv_bit (?c\<lparr>Elems := es\<rparr>) i = (bv_bit b i \<and> bv_bit ob i)"
      using bits [OF i] byte_of_bit [OF i assms(1) n0] by (simp add: bit_and_iff bv_bit_def)
    then show "bv_list (?c\<lparr>Elems := es\<rparr>) ! i = map2 (\<and>) (bv_list b) (bv_list ob) ! i"
      using i ib nc by simp
  qed
  then show thesis using that es by (simp add: And_def Let_def)
qed

lemma Or_bits:
  assumes "bv_wf b" "bv_wf ob"
  obtains c where "Or (Ptr b) (Ptr ob) = Ret (Ptr c)" "bv_wf c" "Bits c = max (Bits b) (Bits ob)"
    "\<And>i. i < nat (Bits c) \<Longrightarrow> bv_bit c i =
       (i < 8 * length (Elems b) \<and> (bv_bit b i \<or> i < 8 * length (Elems ob) \<and> bv_bit ob i))"
proof -
  let ?n = "max (Bits b) (Bits ob)"
  let ?c = "copyBits b ?n" and ?k = "min (length (Elems b)) (length (Elems ob))"
  have n0: "0 \<le> ?n" using assms by (auto simp: bv_wf_def)
  have wfc: "bv_wf ?c" using n0 by (rule copyBits_wf)
  have nc: "Bits ?c = ?n" by (simp add: copyBits_def Let_def)
  have "length (Elems b) \<le> length (Elems ?c)"
    using bv_wf_mono [OF assms(1) wfc] nc by simp
  then have k: "?k \<le> length (Elems ?c)" "?k \<le> length (Elems ob)" by auto
  obtain es where es: "elem_loop (OR) ?k 0 (Elems ?c) (Elems ob) = Ret es" "bv_wf (?c\<lparr>Elems := es\<rparr>)"
      and bits: "\<And>i. i < nat ?n \<Longrightarrow> bv_bit (?c\<lparr>Elems := es\<rparr>) i =
        (if i div 8 < ?k then bit (Elems ?c ! (i div 8) OR Elems ob ! (i div 8)) (i mod 8)
         else bv_bit ?c i)"
    using combine_bits [OF assms(1) n0 k, of "(OR)"] by blast
  have "bv_bit (?c\<lparr>Elems := es\<rparr>) i =
      (i < 8 * length (Elems b) \<and> (bv_bit b i \<or> i < 8 * length (Elems ob) \<and> bv_bit ob i))"
    if i: "i < nat ?n" for i
  proof -
    have lt: "(i div 8 < m) = (i < 8 * m)" for m by linarith
    show ?thesis
      using bits [OF i] byte_of_bit [OF i assms(1) n0] copyBits_bit [OF assms(1) n0 i]
      by (auto simp: bit_or_iff bv_bit_def lt)
  qed
  then show thesis using that es nc by (simp add: Or_def Let_def)
qed

text \<open>Deserialising a serialised bit vector gives the vector back (claim C40).\<close>

theorem Byte_roundtrip:
  assumes "bv_wf b"
  shows "NewBitArrayFromByte (Byte (Ptr b)) = Ret (Ptr b)"
  using assms by (rule Byte_roundtrip_aux)

theorem Byte_roundtrip_witness:
  "bv_wf \<lparr>Bits = 10, Elems = [255, 3]\<rparr> \<and>
   NewBitArrayFromByte (Byte (Ptr \<lparr>Bits = 10, Elems = [255, 3]\<rparr>)) = Ret (Ptr \<lparr>Bits = 10, Elems = [255, 3]\<rparr>)"
proof -
  have "bv_wf \<lparr>Bits = 10, Elems = [255, 3]\<rparr>" by (simp add: bv_wf_def)
  with Byte_roundtrip [OF this] show ?thesis by simp
qed

text \<open>
  Decoding a non-empty byte string panics exactly when its first byte, the number of unused
  bits, reads as at least 8 and there is at least one data byte. The bytes of a
  \<open>ValidatorBitVector\<close> come from the network, so such a message stops the receiving node.
\<close>

theorem NewBitArrayFromByte_panics_iff:
  "NewBitArrayFromByte (u # rest) = Panic \<longleftrightarrow> rest \<noteq> [] \<and> 8 \<le> sint u"
proof (cases "int (length rest) * 8 - sint u < 0")
  case True
  then show ?thesis by (cases rest) (auto simp: NewBitArrayFromByte_def NewBitVector_def)
next
  case False
  let ?m = "nat ((int (length rest) * 8 - sint u + 7) div 8)"
  let ?es = "replicate ?m (0::byte)"
  have split: "(length rest \<le> ?m) = (sint u < 8)" using False by linarith
  have "fill_elems ?es 0 rest = Panic \<longleftrightarrow> \<not> length rest \<le> ?m"
    using fill_elems_enough [of 0 rest ?es] fill_elems_short [of 0 ?es rest] by (cases "length rest \<le> ?m") auto
  moreover have "\<not> length rest \<le> ?m \<longrightarrow> rest \<noteq> []" by auto
  ultimately show ?thesis
    using False split by (auto simp: NewBitArrayFromByte_def NewBitVector_def sdiv_nonneg bind_eq_None_conv)
qed

text \<open>On well-formed vectors \<open>And\<close> never panics and is the pointwise conjunction, cut to the shorter one.\<close>

theorem And_is_conjunction:
  assumes "bv_wf a" "bv_wf b"
  shows "\<exists>c. And (Ptr a) (Ptr b) = Ret (Ptr c) \<and> bv_wf c \<and> bv_list c = map2 (\<and>) (bv_list a) (bv_list b)"
  using And_bits [OF assms] by metis

theorem And_is_conjunction_witness:
  "\<exists>c. And (Ptr \<lparr>Bits = 3, Elems = [5]\<rparr>) (Ptr \<lparr>Bits = 2, Elems = [3]\<rparr>) = Ret (Ptr c) \<and> bv_wf c \<and>
     bv_list c = map2 (\<and>) (bv_list \<lparr>Bits = 3, Elems = [5]\<rparr>) (bv_list \<lparr>Bits = 2, Elems = [3]\<rparr>)"
proof -
  have "bv_wf \<lparr>Bits = 3, Elems = [5]\<rparr>" "bv_wf \<lparr>Bits = 2, Elems = [3]\<rparr>" by (simp_all add: bv_wf_def)
  then show ?thesis by (rule And_is_conjunction)
qed

text \<open>
  Setting an in-range bit of a well-formed vector succeeds, changes exactly that bit of the
  list it stands for and keeps the vector well-formed; reading afterwards gives the value set.
\<close>

theorem SetIndex_refines_update:
  assumes "bv_wf b" "0 \<le> i" "i < Bits b"
  shows "\<exists>b'. SetIndex (Ptr b) i v = Ret (True, Ptr b') \<and> bv_wf b' \<and>
     bv_list b' = (bv_list b)[nat i := v] \<and> GetIndex (Ptr b') i = Ret v"
proof -
  have "nat i < nat (Bits b)" using assms by simp
  then obtain b' where b': "SetIndex (Ptr b) (int (nat i)) v = Ret (True, Ptr b')" "bv_wf b'"
      "Bits b' = Bits b" "bv_list b' = (bv_list b)[nat i := v]"
    using SetIndex_bv [OF assms(1)] by blast
  have "bv_list b' ! nat i = v" using assms b'(4) by simp
  then have "bv_bit b' (nat i) = v" using nth_bv_list [of "nat i" b'] b'(3) assms(2,3) by simp
  then have "GetIndex (Ptr b') i = Ret v"
    using assms(2,3) b'(2,3) by (simp add: GetIndex_nonneg)
  then show ?thesis using b' assms(2) by auto
qed

theorem SetIndex_refines_update_witness:
  "\<exists>b'. SetIndex (Ptr \<lparr>Bits = 9, Elems = [0, 0]\<rparr>) 8 True = Ret (True, Ptr b') \<and> bv_wf b' \<and>
     bv_list b' = (bv_list \<lparr>Bits = 9, Elems = [0, 0]\<rparr>)[nat 8 := True] \<and> GetIndex (Ptr b') 8 = Ret True"
  by (rule SetIndex_refines_update) (simp_all add: bv_wf_def)

text \<open>
  \<open>Or\<close> returns a vector of the larger size, but every bit of the second operand beyond the
  bytes of the first one is lost (the comment of \<open>Or\<close> promises zero padding of the smaller one).
\<close>

theorem Or_loses_longer_operand:
  assumes "bv_wf a" "bv_wf b" "8 * length (Elems a) \<le> i" "i < nat (Bits b)"
  shows "\<exists>c. Or (Ptr a) (Ptr b) = Ret (Ptr c) \<and> Bits c = Bits b \<and> \<not> bv_bit c i"
proof -
  obtain c where c: "Or (Ptr a) (Ptr b) = Ret (Ptr c)" "Bits c = max (Bits a) (Bits b)"
    "\<And>i. i < nat (Bits c) \<Longrightarrow> bv_bit c i =
       (i < 8 * length (Elems a) \<and> (bv_bit a i \<or> i < 8 * length (Elems b) \<and> bv_bit b i))"
    using Or_bits [OF assms(1,2)] by metis
  have "nat (Bits a) \<le> 8 * length (Elems a)" using bv_wf_length [OF assms(1)] by linarith
  then have "Bits c = Bits b" using c(2) assms(3,4) by linarith
  then show ?thesis using c assms(3,4) by auto
qed

theorem Or_loses_longer_operand_witness:
  "\<exists>c. Or (Ptr \<lparr>Bits = 1, Elems = [0]\<rparr>) (Ptr \<lparr>Bits = 9, Elems = [0, 1]\<rparr>) = Ret (Ptr c) \<and>
     Bits c = Bits \<lparr>Bits = 9, Elems = [0, 1]\<rparr> \<and> \<not> bv_bit c 8"
  by (rule Or_loses_longer_operand) (simp_all add: bv_wf_def)

text \<open>\<open>CountNoneZero\<close> returns the number of set bits.\<close>

theorem CountNoneZero_counts:
  assumes "bv_wf b"
  shows "CountNoneZero (Ptr b) = Ret (int (length (filter id (bv_list b))))"
  using count_from_bv [OF assms, of 0 "nat (Bits b)" 0]
  by (simp add: CountNoneZero_def Size_def bv_list_filter)

theorem CountNoneZero_counts_witness:
  "CountNoneZero (Ptr \<lparr>Bits = 3, Elems = [5]\<rparr>) = Ret (int (length (filter id (bv_list \<lparr>Bits = 3, Elems = [5]\<rparr>))))"
  by (rule CountNoneZero_counts) (simp add: bv_wf_def)

end
