(* ===== verification/Signers.thy ===== *)
theory Signers
  imports BitVec "HOL-Library.Multiset"
begin

text \<open>
  Models of \<open>utils/signer/bls.go\<close> (BLS signing, verification and aggregation over bit vectors of
  validators) and \<open>utils/p2p/peer.go\<close>. The BLS library is third-party: the record \<open>bls\<close> collects
  the functions of it that the code calls, and \<open>bls_ok\<close> states the documented behaviour relied on.
  The lemmas show that the aggregate of the validators' signatures passes the aggregate check.
\<close>

section \<open>The BLS library\<close>

text \<open>Keys and signatures are opaque objects of the library, represented by integers.\<close>

type_synonym bls_point = int

record bls =
  sk_parse :: "string \<Rightarrow> bls_point option"
  pk_parse :: "string \<Rightarrow> bls_point option"
  sig_parse :: "string \<Rightarrow> bls_point option"
  sig_print :: "bls_point \<Rightarrow> string"
  sk_sign :: "bls_point \<Rightarrow> bytes \<Rightarrow> bls_point"
  pk_zero :: bls_point
  pk_add :: "bls_point \<Rightarrow> bls_point \<Rightarrow> bls_point"
  sig_zero :: bls_point
  sig_add :: "bls_point \<Rightarrow> bls_point \<Rightarrow> bls_point"
  sig_verify :: "bls_point \<Rightarrow> bls_point \<Rightarrow> bytes \<Rightarrow> bool"

definition bls_ok :: "bls \<Rightarrow> bool" where
  "bls_ok B \<longleftrightarrow>
     (\<forall>s. sig_parse B (sig_print B s) = Some s) \<and>
     (\<forall>s t p q m. sig_verify B s p m \<longrightarrow> sig_verify B t q m \<longrightarrow> sig_verify B (sig_add B s t) (pk_add B p q) m) \<and>
     (\<forall>s. sig_add B (sig_zero B) s = s) \<and> (\<forall>p. pk_add B (pk_zero B) p = p) \<and>
     (\<forall>r s t. sig_add B (sig_add B r s) t = sig_add B (sig_add B r t) s)"

section \<open>Signers and verifiers\<close>

record Signer =
  privateKey :: bls_point

record Verifier =
  publicKeys :: "bls_point ptr list"

definition NewSigner :: "bls \<Rightarrow> string \<Rightarrow> Signer option" where
  "NewSigner B privateKeyStr =
     (case sk_parse B privateKeyStr of None \<Rightarrow> None | Some k \<Rightarrow> Some \<lparr>privateKey = k\<rparr>)"

definition NewVerifier :: "bls \<Rightarrow> string list \<Rightarrow> Verifier" where
  "NewVerifier B publicKeysStr =
     \<lparr>publicKeys = map (\<lambda>s. case pk_parse B s of None \<Rightarrow> Nil_ptr | Some k \<Rightarrow> Ptr k) publicKeysStr\<rparr>"

definition Sign :: "bls \<Rightarrow> Signer \<Rightarrow> bytes \<Rightarrow> string" where
  "Sign B s data = sig_print B (sk_sign B (privateKey s) data)"

definition SignType :: "bls \<Rightarrow> Signer \<Rightarrow> bytes go \<Rightarrow> string go" where
  "SignType B s signBytes = do { data \<leftarrow> signBytes; Ret (Sign B s data) }"

definition Verifier_Size :: "Verifier \<Rightarrow> int" where
  "Verifier_Size s = int (length (publicKeys s))"

text \<open>The loop of \<open>VerifyAggregateSignature\<close>; \<open>None\<close> inside is the early \<open>return false\<close>.\<close>

fun agg_keys :: "bls \<Rightarrow> Verifier \<Rightarrow> BitVector ptr \<Rightarrow> nat \<Rightarrow> int \<Rightarrow> bls_point \<Rightarrow> bls_point option go" where
  "agg_keys B s bitMap 0 i publicKey = Ret (Some publicKey)"
| "agg_keys B s bitMap (Suc n) i publicKey =
     do { g \<leftarrow> GetIndex bitMap i;
          if g then
            do { k \<leftarrow> go_index (publicKeys s) i;
                 case k of
                   Nil_ptr \<Rightarrow> Ret None
                 | Ptr pk \<Rightarrow> agg_keys B s bitMap n (i + 1) (pk_add B publicKey pk) }
          else agg_keys B s bitMap n (i + 1) publicKey }"

definition VerifyAggregateSignature :: "bls \<Rightarrow> Verifier \<Rightarrow> string \<Rightarrow> bytes \<Rightarrow> bytes \<Rightarrow> bool go" where
  "VerifyAggregateSignature B s aggSig msg bitMapBytes =
     do { bitMap \<leftarrow> NewBitArrayFromByte bitMapBytes;
          if int (length (publicKeys s)) \<noteq> Size bitMap then Ret False
          else case sig_parse B aggSig of
                 None \<Rightarrow> Ret False
               | Some sig \<Rightarrow>
                   do { k \<leftarrow> agg_keys B s bitMap (nat (Size bitMap)) 0 (pk_zero B);
                        case k of None \<Rightarrow> Ret False | Some pk \<Rightarrow> Ret (sig_verify B sig pk msg) } }"

definition Verifier_Verify :: "bls \<Rightarrow> Verifier \<Rightarrow> string \<Rightarrow> bytes \<Rightarrow> int \<Rightarrow> bool go" where
  "Verifier_Verify B s aggSig msg index =
     (if index \<ge> int (length (publicKeys s)) then Ret False
      else do { k \<leftarrow> go_index (publicKeys s) index;
                case k of
                  Nil_ptr \<Rightarrow> Ret False
                | Ptr pk \<Rightarrow>
                    (case sig_parse B aggSig of
                       None \<Rightarrow> Ret False
                     | Some sig \<Rightarrow> Ret (sig_verify B sig pk msg)) })"

fun agg_sigs :: "bls \<Rightarrow> bls_point \<Rightarrow> string list \<Rightarrow> bls_point option" where
  "agg_sigs B aggSig [] = Some aggSig"
| "agg_sigs B aggSig (sig # sigs) =
     (case sig_parse B sig of None \<Rightarrow> None | Some subSign \<Rightarrow> agg_sigs B (sig_add B aggSig subSign) sigs)"

text \<open>\<open>Inl\<close> is the returned error.\<close>

definition AggregateSignatures :: "bls \<Rightarrow> string list \<Rightarrow> unit + string" where
  "AggregateSignatures B sigs =
     (case agg_sigs B (sig_zero B) sigs of None \<Rightarrow> Inl () | Some s \<Rightarrow> Inr (sig_print B s))"

section \<open>Peers\<close>

record Peer =
  IP :: string
  Chain :: "string \<rightharpoonup> bool"
  Pubkey :: string
  Vote :: int

definition NewPeer :: "string \<Rightarrow> (string \<rightharpoonup> bool) \<Rightarrow> string \<Rightarrow> int \<Rightarrow> Peer" where
  "NewPeer ip cids publicKey vote = \<lparr>IP = ip, Chain = cids, Pubkey = publicKey, Vote = vote\<rparr>"

definition Peer_Equal :: "Peer \<Rightarrow> Peer \<Rightarrow> bool" where
  "Peer_Equal peer other \<longleftrightarrow> IP peer = IP other"

definition BelongTo :: "Peer \<Rightarrow> string \<Rightarrow> bool" where
  "BelongTo peer s = (case Chain peer s of None \<Rightarrow> False | Some b \<Rightarrow> b)"

text \<open>The message struct of a peer has the same four fields.\<close>

record pb_Peer =
  ppr_IP :: string
  ppr_Chain :: "string \<rightharpoonup> bool"
  ppr_Pubkey :: string
  ppr_Vote :: int

definition Peer_ToProto :: "Peer \<Rightarrow> pb_Peer" where
  "Peer_ToProto peer = \<lparr>ppr_IP = IP peer, ppr_Chain = Chain peer, ppr_Pubkey = Pubkey peer, ppr_Vote = Vote peer\<rparr>"

definition NewPeerFromProto :: "pb_Peer \<Rightarrow> Peer go" where
  "NewPeerFromProto p = Ret (NewPeer (ppr_IP p) (ppr_Chain p) (ppr_Pubkey p) (ppr_Vote p))"

definition NewPeerFromBytes :: "pb_Peer codec \<Rightarrow> bytes \<Rightarrow> Peer ptr go" where
  "NewPeerFromBytes c bz = from_bytes c NewPeerFromProto bz"

interpretation peer_wire: wire_type "\<lambda>p. Ret (Peer_ToProto p)" NewPeerFromProto "\<lambda>p. True"
  by unfold_locales (simp add: NewPeerFromProto_def Peer_ToProto_def NewPeer_def)

section \<open>Aggregation\<close>

definition bv_indices :: "BitVector \<Rightarrow> nat list" where
  "bv_indices b = filter (bv_bit b) [0..<nat (Bits b)]"

lemma agg_keys_fold:
  assumes "bv_wf b" "j + n \<le> nat (Bits b)" "nat (Bits b) = length (publicKeys V)"
    and "\<forall>i \<in> set (filter (bv_bit b) [j..<j + n]). publicKeys V ! i = Ptr (pk i)"
  shows "agg_keys B V (Ptr b) n (int j) acc = Ret (Some (foldl (pk_add B) acc (map pk (filter (bv_bit b) [j..<j + n]))))"
  using assms
proof (induction n arbitrary: j acc)
  case (Suc n)
  have up: "[j..<j + Suc n] = j # [Suc j..<Suc j + n]" by (simp add: upt_rec)
  have g: "GetIndex (Ptr b) (int j) = Ret (bv_bit b j)" using GetIndex_total [OF Suc.prems(1), of j] Suc.prems(2) by simp
  have IH: "agg_keys B V (Ptr b) n (int (Suc j)) acc' =
      Ret (Some (foldl (pk_add B) acc' (map pk (filter (bv_bit b) [Suc j..<Suc j + n]))))" for acc'
    using Suc.prems by (intro Suc.IH) (auto simp: up)
  have jlt: "j < length (publicKeys V)" using Suc.prems by simp
  show ?case
  proof (cases "bv_bit b j")
    case True
    then have "publicKeys V ! j = Ptr (pk j)" using Suc.prems(4) unfolding up by simp
    then show ?thesis
      unfolding up using True g IH [of "pk_add B acc (pk j)"] jlt by (simp del: upt_Suc add_Suc add: add.commute)
  next
    case False
    then show ?thesis unfolding up using g IH [of acc] by (simp del: upt_Suc add_Suc add: add.commute)
  qed
qed simp

lemma agg_sigs_foldl:
  "\<forall>x \<in> set xs. sig_parse B (s x) = Some (\<sigma> x) \<Longrightarrow>
   agg_sigs B acc (map s xs) = Some (foldl (sig_add B) acc (map \<sigma> xs))"
  by (induction xs arbitrary: acc) auto

lemma foldl_sig_perm:
  assumes "bls_ok B" "mset xs = mset ys"
  shows "foldl (sig_add B) z xs = foldl (sig_add B) z ys"
proof -
  have "fold (\<lambda>x a. sig_add B a x) xs = fold (\<lambda>x a. sig_add B a x) ys"
    using assms by (intro fold_multiset_equiv) (auto simp: bls_ok_def fun_eq_iff)
  then show ?thesis by (simp add: foldl_conv_fold)
qed

lemma foldl_verify:
  assumes "bls_ok B" "is \<noteq> []" "\<forall>i \<in> set is. sig_verify B (\<sigma> i) (pk i) m"
  shows "sig_verify B (foldl (sig_add B) (sig_zero B) (map \<sigma> is)) (foldl (pk_add B) (pk_zero B) (map pk is)) m"
proof -
  have step: "sig_verify B s p m \<Longrightarrow> \<forall>i \<in> set js. sig_verify B (\<sigma> i) (pk i) m \<Longrightarrow>
      sig_verify B (foldl (sig_add B) s (map \<sigma> js)) (foldl (pk_add B) p (map pk js)) m" for js s p
    using assms(1) by (induction js arbitrary: s p) (auto simp: bls_ok_def)
  obtain i js where "is = i # js" using assms(2) by (cases "is") auto
  then show ?thesis using step [of "\<sigma> i" "pk i" js] assms by (auto simp: bls_ok_def)
qed

lemma aggregate_verifies:
  assumes ok: "bls_ok B" and b: "bv_wf b" "Bits b = Verifier_Size V" "bv_indices b \<noteq> []"
    and perm: "mset is = mset (bv_indices b)"
    and keys: "\<forall>i \<in> set (bv_indices b). publicKeys V ! i = Ptr (pk i)"
    and sigs: "\<forall>i \<in> set (bv_indices b). sig_parse B (s i) = Some (\<sigma> i) \<and> sig_verify B (\<sigma> i) (pk i) msg"
  shows "\<exists>agg. AggregateSignatures B (map s is) = Inr agg \<and> VerifyAggregateSignature B V agg msg (Byte (Ptr b)) = Ret True"
proof -
  have set: "set is = set (bv_indices b)" using perm by (metis set_mset_mset)
  let ?agg = "foldl (sig_add B) (sig_zero B) (map \<sigma> is)"
  have a: "agg_sigs B (sig_zero B) (map s is) = Some ?agg"
    using sigs set by (intro agg_sigs_foldl) auto
  have eq: "?agg = foldl (sig_add B) (sig_zero B) (map \<sigma> (bv_indices b))"
    using perm by (intro foldl_sig_perm [OF ok]) simp
  have k: "agg_keys B V (Ptr b) (nat (Bits b)) 0 (pk_zero B) =
      Ret (Some (foldl (pk_add B) (pk_zero B) (map pk (bv_indices b))))"
    using agg_keys_fold [of b 0 "nat (Bits b)" V pk B "pk_zero B"] b keys by (simp add: bv_indices_def Verifier_Size_def)
  have "sig_verify B ?agg (foldl (pk_add B) (pk_zero B) (map pk (bv_indices b))) msg"
    unfolding eq using sigs b(3) by (intro foldl_verify [OF ok]) auto
  then show ?thesis
    using a k b ok Byte_roundtrip_aux [OF b(1)]
    by (simp add: AggregateSignatures_def VerifyAggregateSignature_def Size_def Verifier_Size_def bls_ok_def)
qed

text \<open>A concrete linear scheme on the integers, used by the witnesses.\<close>

definition toy_bls :: bls where
  "toy_bls = \<lparr>sk_parse = (\<lambda>s. Some (int (length s))), pk_parse = (\<lambda>s. Some (int (length s))),
     sig_parse = (\<lambda>s. Some (if s \<noteq> [] \<and> hd s = CHR ''-'' then - int (length s) else int (length s))),
     sig_print = (\<lambda>x. if x < 0 then replicate (nat (- x)) (CHR ''-'') else replicate (nat x) (CHR ''+'')),
     sk_sign = (\<lambda>k m. k * (1 + int (length m))), pk_zero = 0, pk_add = (+), sig_zero = 0, sig_add = (+),
     sig_verify = (\<lambda>s p m. s = p * (1 + int (length m)))\<rparr>"

lemma toy_bls_ok: "bls_ok toy_bls"
  by (auto simp: bls_ok_def toy_bls_def distrib_right hd_replicate)

text \<open>When every validator marked in the bit vector has a valid signature of a message, the aggregate
  of these signatures, in any order, passes \<open>VerifyAggregateSignature\<close> with the bytes of the vector.\<close>

theorem aggregate_signature_verifies:
  assumes "bls_ok B" "bv_wf b" "Bits b = Verifier_Size V" "bv_indices b \<noteq> []" "mset is = mset (bv_indices b)"
    and "\<forall>i \<in> set (bv_indices b). publicKeys V ! i = Ptr (pk i)"
    and "\<forall>i \<in> set (bv_indices b). sig_parse B (s i) = Some (\<sigma> i) \<and> sig_verify B (\<sigma> i) (pk i) msg"
  shows "\<exists>agg. AggregateSignatures B (map s is) = Inr agg \<and> VerifyAggregateSignature B V agg msg (Byte (Ptr b)) = Ret True"
  using assms by (rule aggregate_verifies)

theorem aggregate_signature_verifies_witness:
  "\<exists>agg. AggregateSignatures toy_bls [''++++++'', ''++''] = Inr agg \<and>
     VerifyAggregateSignature toy_bls \<lparr>publicKeys = [Ptr 1, Ptr 2, Ptr 3]\<rparr> agg [0] (Byte (Ptr \<lparr>Bits = 3, Elems = [5]\<rparr>)) = Ret True"
proof -
  let ?b = "\<lparr>Bits = 3, Elems = [5]\<rparr>"
  have i: "bv_indices ?b = [0, 2]" by code_simp
  have "\<exists>agg. AggregateSignatures toy_bls (map (\<lambda>i. if i = (2::nat) then ''++++++'' else ''++'') [2, 0]) = Inr agg \<and>
     VerifyAggregateSignature toy_bls \<lparr>publicKeys = [Ptr 1, Ptr 2, Ptr 3]\<rparr> agg [0] (Byte (Ptr ?b)) = Ret True"
    by (rule aggregate_signature_verifies [where \<sigma> = "\<lambda>i. if i = (2::nat) then 6 else 2" and pk = "\<lambda>i. int i + 1"])
      (auto simp: toy_bls_ok i bv_wf_def Verifier_Size_def, simp_all add: toy_bls_def)
  then show ?thesis by simp
qed

end
