(* ===== verification/ConsTypes.thy ===== *)
theory ConsTypes
  imports Blocks Signers
begin

text \<open>
  Model of \<open>melete/consensus/constypes/vote.go\<close>: proposals, prevotes, precommits, their aggregate,
  and the cross-shard proposal, accept and commit messages, with their message forms, sign bytes and
  validation. Every message struct of the generated protobuf package is a record of its own
  (\<open>pb_...\<close>); marshalling is a codec argument.
\<close>

section \<open>Data\<close>

definition VoteTypeProposal :: "32 word" where "VoteTypeProposal = 1"
definition VoteTypePrevote :: "32 word" where "VoteTypePrevote = 2"
definition VoteTypePrecommit :: "32 word" where "VoteTypePrecommit = 3"
definition VoteTypePrecommitAggregated :: "32 word" where "VoteTypePrecommitAggregated = 4"
definition VoteTypeCrossShardProposal :: "32 word" where "VoteTypeCrossShardProposal = 5"
definition VoteTypeCrossShardAccept :: "32 word" where "VoteTypeCrossShardAccept = 6"
definition VoteTypeCrossShardCommit :: "32 word" where "VoteTypeCrossShardCommit = 7"
definition ShardTypeI :: "32 word" where "ShardTypeI = 8"
definition ShardTypeC :: "32 word" where "ShardTypeC = 9"

lemmas vote_type_defs = VoteTypeProposal_def VoteTypePrevote_def VoteTypePrecommit_def
  VoteTypePrecommitAggregated_def VoteTypeCrossShardProposal_def VoteTypeCrossShardAccept_def
  VoteTypeCrossShardCommit_def ShardTypeI_def ShardTypeC_def

datatype VoteError =
  WrongVoteType | NegativeProposerIndex | NotAHash | BadHeader HeaderBasicError | NilBitVector | WrongShardType

record Proposal =
  p_VoteType :: "32 word"
  p_Header :: PartSetHeader
  ProposerIndex :: int
  p_BlockHeaderHash :: bytes
  p_Signature :: string

record pb_Proposal =
  pbp_VoteType :: "32 word"
  pbp_Header :: "pb_PartSetHeader ptr"
  pbp_ProposerIndex :: int
  pbp_BlockHeaderHash :: bytes
  pbp_Signature :: string

record Prevote =
  pv_VoteType :: "32 word"
  pv_Code :: int
  pv_Height :: int
  pv_Round :: int
  pv_BlockHeaderHash :: bytes
  pv_Signature :: string
  pv_ValidatorIndex :: int

record pb_Prevote =
  pbv_Code :: int
  pbv_VoteType :: "32 word"
  pbv_Height :: int
  pbv_Round :: int
  pbv_BlockHeaderHash :: bytes
  pbv_Signature :: string
  pbv_ValidatorIndex :: int

record Precommit =
  pc_VoteType :: "32 word"
  pcm_Code :: int
  pc_Height :: int
  pc_Round :: int
  pc_BlockHeaderHash :: bytes
  pc_Signature :: string
  pc_ValidatorIndex :: int

record pb_Precommit =
  pbc_Code :: int
  pbc_VoteType :: "32 word"
  pbc_Height :: int
  pbc_Round :: int
  pbc_BlockHeaderHash :: bytes
  pbc_Signature :: string
  pbc_ValidatorIndex :: int

record PrecommitAggregated =
  pa_VoteType :: "32 word"
  pa_Code :: int
  pa_ValidatorBitVector :: "BitVector ptr"
  pa_Header :: PartSetHeader
  pa_BlockHeaderHash :: bytes
  AggregatedSignatures :: string

record pb_PrecommitAggregated =
  pba_VoteType :: "32 word"
  pba_Code :: int
  pba_ValidatorBitVector :: bytes
  pba_Header :: "pb_PartSetHeader ptr"
  pba_BlockHeaderHash :: bytes
  pba_AggregatedSignatures :: string

record CrossShardProposal =
  csp_VoteType :: "32 word"
  csp_ShardType :: "32 word"
  csp_AggregatedSignatures :: PrecommitAggregated

record pb_CrossShardProposal =
  pbcp_VoteType :: "32 word"
  pbcp_AggregatedSignatures :: "pb_PrecommitAggregated ptr"
  pbcp_ShardType :: "32 word"

record CrossShardAccept =
  csa_VoteType :: "32 word"
  csa_UpperChainID :: string
  csa_AcceptChainID :: string
  csa_Height :: int
  csa_BlockHeaderHash :: bytes
  csa_CommitStatus :: bytes
  csa_Signature :: string
  csa_ValidatorIndex :: int

record pb_CrossShardAccept =
  pbca_VoteType :: "32 word"
  pbca_UpperChainID :: string
  pbca_AcceptChainID :: string
  pbca_Height :: int
  pbca_BlockHeaderHash :: bytes
  pbca_CommitStatus :: bytes
  pbca_Signature :: string
  pbca_ValidatorIndex :: int

record CrossShardCommit =
  csc_VoteType :: "32 word"
  csc_UpperChainID :: string
  csc_Height :: int
  csc_BlockHeaderHash :: bytes
  ChainList :: "string list"
  AggregatedSignatureList :: "string list"
  ValidatorBitVectorList :: "BitVector ptr list"
  CommitStatusList :: "bytes list"

record pb_CrossShardCommit =
  pbcc_VoteType :: "32 word"
  pbcc_UpperChainID :: string
  pbcc_Height :: int
  pbcc_BlockHeaderHash :: bytes
  pbcc_ChainList :: "string list"
  pbcc_AggregatedSignatureList :: "string list"
  pbcc_ValidatorBitVectorList :: "bytes list"
  pbcc_CommitStatusList :: "bytes list"

text \<open>The codecs of the consensus messages.\<close>

record codecs =
  proposal_codec :: "pb_Proposal codec"
  prevote_codec :: "pb_Prevote codec"
  precommit_codec :: "pb_Precommit codec"
  precommit_agg_codec :: "pb_PrecommitAggregated codec"
  csp_codec :: "pb_CrossShardProposal codec"
  csa_codec :: "pb_CrossShardAccept codec"
  csc_codec :: "pb_CrossShardCommit codec"
  block_codec :: "pb_Block codec"
  part_codec :: "pb_Part codec"

section \<open>Proposals\<close>

definition NewProposal :: "PartSetHeader \<Rightarrow> int \<Rightarrow> bytes \<Rightarrow> Proposal" where
  "NewProposal header proposer_index blockHeaderHash =
     \<lparr>p_VoteType = VoteTypeProposal, p_Header = header, ProposerIndex = proposer_index,
      p_BlockHeaderHash = blockHeaderHash, p_Signature = ''''\<rparr>"

definition Proposal_ToProto :: "Proposal \<Rightarrow> pb_Proposal" where
  "Proposal_ToProto p =
     \<lparr>pbp_VoteType = p_VoteType p, pbp_Header = Ptr (PartSetHeader_ToProto (p_Header p)),
      pbp_ProposerIndex = i32 (ProposerIndex p), pbp_BlockHeaderHash = p_BlockHeaderHash p,
      pbp_Signature = p_Signature p\<rparr>"

definition Proposal_ProtoBytes :: "pb_Proposal codec \<Rightarrow> Proposal \<Rightarrow> bytes go" where
  "Proposal_ProtoBytes c p = MustProtoBytes c (Proposal_ToProto p)"

definition Proposal_SignBytes :: "pb_Proposal codec \<Rightarrow> Proposal \<Rightarrow> bytes go" where
  "Proposal_SignBytes c p =
     MustProtoBytes c
       \<lparr>pbp_VoteType = p_VoteType p, pbp_Header = Ptr (PartSetHeader_ToProto (p_Header p)),
        pbp_ProposerIndex = i32 (ProposerIndex p), pbp_BlockHeaderHash = p_BlockHeaderHash p,
        pbp_Signature = ''''\<rparr>"

definition NewProposalFromProto :: "pb_Proposal \<Rightarrow> Proposal go" where
  "NewProposalFromProto p =
     do { h \<leftarrow> NewPartSetHeaderFromProto (pbp_Header p);
          Ret \<lparr>p_VoteType = pbp_VoteType p, p_Header = h, ProposerIndex = pbp_ProposerIndex p,
               p_BlockHeaderHash = pbp_BlockHeaderHash p, p_Signature = pbp_Signature p\<rparr> }"

definition NewProposalFromBytes :: "pb_Proposal codec \<Rightarrow> bytes \<Rightarrow> Proposal ptr go" where
  "NewProposalFromBytes c bz = from_bytes c NewProposalFromProto bz"

definition Proposal_ValidateBasic :: "Proposal \<Rightarrow> VoteError + unit" where
  "Proposal_ValidateBasic p =
     (if p_VoteType p \<noteq> VoteTypeProposal then Inl WrongVoteType
      else if ProposerIndex p < 0 then Inl NegativeProposerIndex
      else if int (length (p_BlockHeaderHash p)) \<noteq> HashSize then Inl NotAHash
      else case PartSetHeader_ValidateBasic (p_Header p) of Inl e \<Rightarrow> Inl (BadHeader e) | Inr _ \<Rightarrow> Inr ())"

section \<open>Prevotes\<close>

definition Prevote_IsOK :: "Prevote \<Rightarrow> bool" where
  "Prevote_IsOK p = (pv_Code p = CodeTypeOK)"

definition Prevote_SetOK :: "Prevote \<Rightarrow> bool \<Rightarrow> Prevote" where
  "Prevote_SetOK p ok = (if ok then p\<lparr>pv_Code := CodeTypeOK\<rparr> else p\<lparr>pv_Code := CodeTypeAbort\<rparr>)"

definition Prevote_ValidateBasic :: "Prevote \<Rightarrow> VoteError + unit" where
  "Prevote_ValidateBasic p =
     (if pv_VoteType p \<noteq> VoteTypePrevote then Inl WrongVoteType
      else if int (length (pv_BlockHeaderHash p)) \<noteq> HashSize then Inl NotAHash
      else Inr ())"

definition NewPrevote :: "int \<Rightarrow> int \<Rightarrow> bytes \<Rightarrow> int \<Rightarrow> Prevote" where
  "NewPrevote height rnd blockHeaderHash validatorIndex =
     \<lparr>pv_VoteType = VoteTypePrevote, pv_Code = CodeTypeOK, pv_Height = height, pv_Round = rnd,
      pv_BlockHeaderHash = blockHeaderHash, pv_Signature = '''', pv_ValidatorIndex = validatorIndex\<rparr>"

definition Prevote_ToProto :: "Prevote \<Rightarrow> pb_Prevote" where
  "Prevote_ToProto p =
     \<lparr>pbv_Code = i32 (pv_Code p), pbv_VoteType = pv_VoteType p, pbv_Height = pv_Height p,
      pbv_Round = i32 (pv_Round p), pbv_BlockHeaderHash = pv_BlockHeaderHash p,
      pbv_Signature = pv_Signature p, pbv_ValidatorIndex = i32 (pv_ValidatorIndex p)\<rparr>"

definition Prevote_ProtoBytes :: "pb_Prevote codec \<Rightarrow> Prevote \<Rightarrow> bytes go" where
  "Prevote_ProtoBytes c p = MustProtoBytes c (Prevote_ToProto p)"

definition Prevote_SignBytes :: "pb_Prevote codec \<Rightarrow> Prevote \<Rightarrow> bytes go" where
  "Prevote_SignBytes c p =
     MustProtoBytes c
       \<lparr>pbv_Code = i32 (pv_Code p), pbv_VoteType = pv_VoteType p, pbv_Height = pv_Height p,
        pbv_Round = i32 (pv_Round p), pbv_BlockHeaderHash = pv_BlockHeaderHash p,
        pbv_Signature = '''', pbv_ValidatorIndex = -1\<rparr>"

definition NewPrevoteFromProto :: "pb_Prevote \<Rightarrow> Prevote go" where
  "NewPrevoteFromProto p = Ret
     \<lparr>pv_VoteType = pbv_VoteType p, pv_Code = i8 (pbv_Code p), pv_Height = pbv_Height p,
      pv_Round = pbv_Round p, pv_BlockHeaderHash = pbv_BlockHeaderHash p,
      pv_Signature = pbv_Signature p, pv_ValidatorIndex = pbv_ValidatorIndex p\<rparr>"

definition NewPrevoteFromBytes :: "pb_Prevote codec \<Rightarrow> bytes \<Rightarrow> Prevote ptr go" where
  "NewPrevoteFromBytes c bz = from_bytes c NewPrevoteFromProto bz"

section \<open>Precommits\<close>

definition Precommit_IsOK :: "Precommit \<Rightarrow> bool" where
  "Precommit_IsOK p = (pcm_Code p = CodeTypeOK)"

definition Precommit_SetOK :: "Precommit \<Rightarrow> bool \<Rightarrow> Precommit" where
  "Precommit_SetOK p ok = (if ok then p\<lparr>pcm_Code := CodeTypeOK\<rparr> else p\<lparr>pcm_Code := CodeTypeAbort\<rparr>)"

definition Precommit_ValidateBasic :: "Precommit \<Rightarrow> VoteError + unit" where
  "Precommit_ValidateBasic p =
     (if pc_VoteType p \<noteq> VoteTypePrecommit then Inl WrongVoteType
      else if int (length (pc_BlockHeaderHash p)) \<noteq> HashSize then Inl NotAHash
      else Inr ())"

definition NewPrecommit :: "int \<Rightarrow> int \<Rightarrow> bytes \<Rightarrow> int \<Rightarrow> Precommit" where
  "NewPrecommit height rnd blockHeaderHash validatorIndex =
     \<lparr>pc_VoteType = VoteTypePrecommit, pcm_Code = CodeTypeOK, pc_Height = height, pc_Round = rnd,
      pc_BlockHeaderHash = blockHeaderHash, pc_Signature = '''', pc_ValidatorIndex = validatorIndex\<rparr>"

definition Precommit_ToProto :: "Precommit \<Rightarrow> pb_Precommit" where
  "Precommit_ToProto p =
     \<lparr>pbc_Code = i32 (pcm_Code p), pbc_VoteType = pc_VoteType p, pbc_Height = pc_Height p,
      pbc_Round = i32 (pc_Round p), pbc_BlockHeaderHash = pc_BlockHeaderHash p,
      pbc_Signature = pc_Signature p, pbc_ValidatorIndex = i32 (pc_ValidatorIndex p)\<rparr>"

definition Precommit_ProtoBytes :: "pb_Precommit codec \<Rightarrow> Precommit \<Rightarrow> bytes go" where
  "Precommit_ProtoBytes c p = MustProtoBytes c (Precommit_ToProto p)"

definition Precommit_SignBytes :: "pb_Precommit codec \<Rightarrow> Precommit \<Rightarrow> bytes go" where
  "Precommit_SignBytes c p =
     MustProtoBytes c
       \<lparr>pbc_Code = i32 (pcm_Code p), pbc_VoteType = pc_VoteType p, pbc_Height = pc_Height p,
        pbc_Round = i32 (pc_Round p), pbc_BlockHeaderHash = pc_BlockHeaderHash p,
        pbc_Signature = '''', pbc_ValidatorIndex = -1\<rparr>"

definition NewPrecommitFromProto :: "pb_Precommit \<Rightarrow> Precommit go" where
  "NewPrecommitFromProto p = Ret
     \<lparr>pc_VoteType = pbc_VoteType p, pcm_Code = i8 (pbc_Code p), pc_Height = pbc_Height p,
      pc_Round = pbc_Round p, pc_BlockHeaderHash = pbc_BlockHeaderHash p,
      pc_Signature = pbc_Signature p, pc_ValidatorIndex = pbc_ValidatorIndex p\<rparr>"

definition NewPrecommitFromBytes :: "pb_Precommit codec \<Rightarrow> bytes \<Rightarrow> Precommit ptr go" where
  "NewPrecommitFromBytes c bz = from_bytes c NewPrecommitFromProto bz"

section \<open>Aggregated precommits\<close>

definition PrecommitAggregated_ValidateBasic :: "PrecommitAggregated \<Rightarrow> VoteError + unit" where
  "PrecommitAggregated_ValidateBasic p =
     (if pa_VoteType p \<noteq> VoteTypePrecommitAggregated then Inl WrongVoteType
      else if is_nil (pa_ValidatorBitVector p) then Inl NilBitVector
      else case PartSetHeader_ValidateBasic (pa_Header p) of
             Inl e \<Rightarrow> Inl (BadHeader e)
           | Inr _ \<Rightarrow> if int (length (pa_BlockHeaderHash p)) \<noteq> HashSize then Inl NotAHash else Inr ())"

definition NewPrecommitAggregated :: "bytes \<Rightarrow> PartSetHeader \<Rightarrow> bytes \<Rightarrow> string \<Rightarrow> PrecommitAggregated go" where
  "NewPrecommitAggregated validatorBitVector header blockHeaderHash aggregatedSignatures =
     do { bv \<leftarrow> NewBitArrayFromByte validatorBitVector;
          Ret \<lparr>pa_VoteType = VoteTypePrecommitAggregated, pa_Code = CodeTypeOK, pa_ValidatorBitVector = bv,
               pa_Header = header, pa_BlockHeaderHash = blockHeaderHash,
               AggregatedSignatures = aggregatedSignatures\<rparr> }"

definition PrecommitAggregated_ToProto :: "PrecommitAggregated \<Rightarrow> pb_PrecommitAggregated" where
  "PrecommitAggregated_ToProto p =
     \<lparr>pba_VoteType = pa_VoteType p, pba_Code = i32 (pa_Code p),
      pba_ValidatorBitVector = Byte (pa_ValidatorBitVector p),
      pba_Header = Ptr (PartSetHeader_ToProto (pa_Header p)), pba_BlockHeaderHash = pa_BlockHeaderHash p,
      pba_AggregatedSignatures = AggregatedSignatures p\<rparr>"

definition PrecommitAggregated_ProtoBytes :: "pb_PrecommitAggregated codec \<Rightarrow> PrecommitAggregated \<Rightarrow> bytes go" where
  "PrecommitAggregated_ProtoBytes c p = MustProtoBytes c (PrecommitAggregated_ToProto p)"

definition NewPrecommitAggregatedFromProto :: "pb_PrecommitAggregated ptr \<Rightarrow> PrecommitAggregated go" where
  "NewPrecommitAggregatedFromProto pp =
     (case pp of
        Nil_ptr \<Rightarrow> Panic
      | Ptr p \<Rightarrow>
          do { bv \<leftarrow> NewBitArrayFromByte (pba_ValidatorBitVector p);
               h \<leftarrow> NewPartSetHeaderFromProto (pba_Header p);
               Ret \<lparr>pa_VoteType = pba_VoteType p, pa_Code = i8 (pba_Code p), pa_ValidatorBitVector = bv,
                    pa_Header = h, pa_BlockHeaderHash = pba_BlockHeaderHash p,
                    AggregatedSignatures = pba_AggregatedSignatures p\<rparr> })"

definition NewPrecommitAggregatedFromBytes :: "pb_PrecommitAggregated codec \<Rightarrow> bytes \<Rightarrow> PrecommitAggregated ptr go" where
  "NewPrecommitAggregatedFromBytes c bz = from_bytes c (\<lambda>p. NewPrecommitAggregatedFromProto (Ptr p)) bz"

definition Aggregated_Precommit :: "PrecommitAggregated \<Rightarrow> Precommit" where
  "Aggregated_Precommit p =
     (let precommit = NewPrecommit (psh_Height (pa_Header p)) (psh_Round (pa_Header p)) (pa_BlockHeaderHash p) (-1)
      in precommit\<lparr>pcm_Code := pa_Code p\<rparr>)"

definition VerifySignatures ::
  "bls \<Rightarrow> pb_Precommit codec \<Rightarrow> PrecommitAggregated \<Rightarrow> Verifier ptr \<Rightarrow> bytes \<Rightarrow> bool go" where
  "VerifySignatures B c p verifier bitVectorBytes =
     (case verifier of
        Nil_ptr \<Rightarrow> Ret False
      | Ptr v \<Rightarrow>
          do { msg \<leftarrow> Precommit_SignBytes c (Aggregated_Precommit p);
               VerifyAggregateSignature B v (AggregatedSignatures p) msg bitVectorBytes })"

definition PrecommitAggregated_IsOK :: "PrecommitAggregated \<Rightarrow> bool" where
  "PrecommitAggregated_IsOK p = (pa_Code p = CodeTypeOK)"

section \<open>Cross-shard proposals\<close>

definition CrossShardProposal_ValidateBasic :: "CrossShardProposal \<Rightarrow> VoteError + unit" where
  "CrossShardProposal_ValidateBasic c =
     (if csp_VoteType c \<noteq> VoteTypeCrossShardProposal then Inl WrongVoteType
      else if csp_ShardType c \<noteq> ShardTypeC \<and> csp_ShardType c \<noteq> ShardTypeI then Inl WrongShardType
      else PrecommitAggregated_ValidateBasic (csp_AggregatedSignatures c))"

definition NewCrossShardProposal :: "PrecommitAggregated \<Rightarrow> 32 word \<Rightarrow> CrossShardProposal" where
  "NewCrossShardProposal aggregatedSignatures shard_type =
     \<lparr>csp_VoteType = VoteTypeCrossShardProposal, csp_ShardType = shard_type,
      csp_AggregatedSignatures = aggregatedSignatures\<rparr>"

definition CrossShardProposal_ToProto :: "CrossShardProposal \<Rightarrow> pb_CrossShardProposal" where
  "CrossShardProposal_ToProto c =
     \<lparr>pbcp_VoteType = csp_VoteType c,
      pbcp_AggregatedSignatures = Ptr (PrecommitAggregated_ToProto (csp_AggregatedSignatures c)),
      pbcp_ShardType = csp_ShardType c\<rparr>"

definition CrossShardProposal_ProtoBytes :: "pb_CrossShardProposal codec \<Rightarrow> CrossShardProposal \<Rightarrow> bytes go" where
  "CrossShardProposal_ProtoBytes c p = MustProtoBytes c (CrossShardProposal_ToProto p)"

definition NewCrossShardProposalFromProto :: "pb_CrossShardProposal \<Rightarrow> CrossShardProposal go" where
  "NewCrossShardProposalFromProto p =
     do { a \<leftarrow> NewPrecommitAggregatedFromProto (pbcp_AggregatedSignatures p);
          Ret \<lparr>csp_VoteType = pbcp_VoteType p, csp_ShardType = pbcp_ShardType p, csp_AggregatedSignatures = a\<rparr> }"

definition NewCrossShardProposalFromBytes :: "pb_CrossShardProposal codec \<Rightarrow> bytes \<Rightarrow> CrossShardProposal ptr go" where
  "NewCrossShardProposalFromBytes c bz = from_bytes c NewCrossShardProposalFromProto bz"

section \<open>Cross-shard accepts\<close>

definition CrossShardAccept_ValidateBasic :: "CrossShardAccept \<Rightarrow> VoteError + unit" where
  "CrossShardAccept_ValidateBasic csa = Inr ()"

definition NewCrossShardAccept :: "string \<Rightarrow> string \<Rightarrow> int \<Rightarrow> bytes \<Rightarrow> bytes \<Rightarrow> int \<Rightarrow> CrossShardAccept" where
  "NewCrossShardAccept upperChainID acceptChainID height blockHeaderHash commitStatus validatorIndex =
     \<lparr>csa_VoteType = VoteTypeCrossShardAccept, csa_UpperChainID = upperChainID,
      csa_AcceptChainID = acceptChainID, csa_Height = height, csa_BlockHeaderHash = blockHeaderHash,
      csa_CommitStatus = commitStatus, csa_Signature = '''', csa_ValidatorIndex = validatorIndex\<rparr>"

definition CrossShardAccept_ToProto :: "CrossShardAccept \<Rightarrow> pb_CrossShardAccept" where
  "CrossShardAccept_ToProto c =
     \<lparr>pbca_VoteType = csa_VoteType c, pbca_UpperChainID = csa_UpperChainID c,
      pbca_AcceptChainID = csa_AcceptChainID c, pbca_Height = csa_Height c,
      pbca_BlockHeaderHash = csa_BlockHeaderHash c, pbca_CommitStatus = csa_CommitStatus c,
      pbca_Signature = csa_Signature c, pbca_ValidatorIndex = i32 (csa_ValidatorIndex c)\<rparr>"

definition CrossShardAccept_ProtoBytes :: "pb_CrossShardAccept codec \<Rightarrow> CrossShardAccept \<Rightarrow> bytes go" where
  "CrossShardAccept_ProtoBytes c a = MustProtoBytes c (CrossShardAccept_ToProto a)"

definition CrossShardAccept_SignBytes :: "pb_CrossShardAccept codec \<Rightarrow> CrossShardAccept \<Rightarrow> bytes go" where
  "CrossShardAccept_SignBytes c a =
     MustProtoBytes c
       \<lparr>pbca_VoteType = csa_VoteType a, pbca_UpperChainID = csa_UpperChainID a,
        pbca_AcceptChainID = csa_AcceptChainID a, pbca_Height = csa_Height a,
        pbca_BlockHeaderHash = csa_BlockHeaderHash a, pbca_CommitStatus = csa_CommitStatus a,
        pbca_Signature = '''', pbca_ValidatorIndex = -1\<rparr>"

definition NewCrossShardAcceptFromProto :: "pb_CrossShardAccept \<Rightarrow> CrossShardAccept go" where
  "NewCrossShardAcceptFromProto p = Ret
     \<lparr>csa_VoteType = pbca_VoteType p, csa_UpperChainID = pbca_UpperChainID p,
      csa_AcceptChainID = pbca_AcceptChainID p, csa_Height = pbca_Height p,
      csa_BlockHeaderHash = pbca_BlockHeaderHash p, csa_CommitStatus = pbca_CommitStatus p,
      csa_Signature = pbca_Signature p, csa_ValidatorIndex = pbca_ValidatorIndex p\<rparr>"

definition NewCrossShardAcceptFromBytes :: "pb_CrossShardAccept codec \<Rightarrow> bytes \<Rightarrow> CrossShardAccept ptr go" where
  "NewCrossShardAcceptFromBytes c bz = from_bytes c NewCrossShardAcceptFromProto bz"

section \<open>Cross-shard commits\<close>

datatype CommitVoteError = NilPeerList | WrongPeerList | WrongBitVectorSize | TooFewVotes | AggregateInvalid

definition CrossShardCommit_ValidateBasic :: "CrossShardCommit \<Rightarrow> VoteError + unit" where
  "CrossShardCommit_ValidateBasic csc = Inr ()"

definition getCrossShardAccept :: "CrossShardCommit \<Rightarrow> int \<Rightarrow> int \<Rightarrow> CrossShardAccept go" where
  "getCrossShardAccept csc i valIndex =
     do { cid \<leftarrow> go_index (ChainList csc) i;
          st \<leftarrow> go_index (CommitStatusList csc) i;
          Ret (NewCrossShardAccept (csc_UpperChainID csc) cid (csc_Height csc) (csc_BlockHeaderHash csc) st valIndex) }"

definition NewCrossShardCommit ::
  "string \<Rightarrow> int \<Rightarrow> bytes \<Rightarrow> string list \<Rightarrow> string list \<Rightarrow> bytes list \<Rightarrow> bytes list \<Rightarrow> CrossShardCommit go" where
  "NewCrossShardCommit upperChainID height blockHeaderHash chainList aggregatedSignatureList
     validatorBitVectorList commitStatusList =
     do { bvList \<leftarrow> those (map NewBitArrayFromByte validatorBitVectorList);
          Ret \<lparr>csc_VoteType = VoteTypeCrossShardCommit, csc_UpperChainID = upperChainID, csc_Height = height,
               csc_BlockHeaderHash = blockHeaderHash, ChainList = chainList,
               AggregatedSignatureList = aggregatedSignatureList, ValidatorBitVectorList = bvList,
               CommitStatusList = commitStatusList\<rparr> }"

definition CrossShardCommit_ToProto :: "CrossShardCommit \<Rightarrow> pb_CrossShardCommit" where
  "CrossShardCommit_ToProto c =
     \<lparr>pbcc_VoteType = csc_VoteType c, pbcc_UpperChainID = csc_UpperChainID c, pbcc_Height = csc_Height c,
      pbcc_BlockHeaderHash = csc_BlockHeaderHash c, pbcc_ChainList = ChainList c,
      pbcc_AggregatedSignatureList = map (\<lambda>sig. sig) (AggregatedSignatureList c),
      pbcc_ValidatorBitVectorList = map Byte (ValidatorBitVectorList c),
      pbcc_CommitStatusList = map (\<lambda>status. status) (CommitStatusList c)\<rparr>"

definition CrossShardCommit_ProtoBytes :: "pb_CrossShardCommit codec \<Rightarrow> CrossShardCommit \<Rightarrow> bytes go" where
  "CrossShardCommit_ProtoBytes c p = MustProtoBytes c (CrossShardCommit_ToProto p)"

definition NewCrossShardCommitFromProto :: "pb_CrossShardCommit \<Rightarrow> CrossShardCommit go" where
  "NewCrossShardCommitFromProto p =
     do { bvList \<leftarrow> those (map NewBitArrayFromByte (pbcc_ValidatorBitVectorList p));
          Ret \<lparr>csc_VoteType = pbcc_VoteType p, csc_UpperChainID = pbcc_UpperChainID p, csc_Height = pbcc_Height p,
               csc_BlockHeaderHash = pbcc_BlockHeaderHash p, ChainList = pbcc_ChainList p,
               AggregatedSignatureList = pbcc_AggregatedSignatureList p, ValidatorBitVectorList = bvList,
               CommitStatusList = pbcc_CommitStatusList p\<rparr> }"

definition NewCrossShardCommitFromBytes :: "pb_CrossShardCommit codec \<Rightarrow> bytes \<Rightarrow> CrossShardCommit ptr go" where
  "NewCrossShardCommitFromBytes c bz = from_bytes c NewCrossShardCommitFromProto bz"

text \<open>The sum of the votes of the marked validators, in \<open>int32\<close>.\<close>

fun vote_sum :: "BitVector ptr \<Rightarrow> int \<Rightarrow> Peer list \<Rightarrow> int \<Rightarrow> int go" where
  "vote_sum bv i [] voteTotal = Ret voteTotal"
| "vote_sum bv i (peer # peers) voteTotal =
     do { g \<leftarrow> GetIndex bv i;
          vote_sum bv (i + 1) peers (if g then i32 (voteTotal + Vote peer) else voteTotal) }"

definition ValidateVote ::
  "bls \<Rightarrow> pb_CrossShardAccept codec \<Rightarrow> CrossShardCommit \<Rightarrow> Peer list \<Rightarrow> Verifier ptr \<Rightarrow> int \<Rightarrow> int
   \<Rightarrow> (CommitVoteError + unit) go" where
  "ValidateVote B c csc peerList verifier index shardVote =
     do { bv \<leftarrow> go_index (ValidatorBitVectorList csc) index;
          if length peerList = 0 then Ret (Inl NilPeerList)
          else case verifier of
            Nil_ptr \<Rightarrow> Panic
          | Ptr v \<Rightarrow>
              if int (length peerList) \<noteq> Verifier_Size v then Ret (Inl WrongPeerList)
              else if int (length peerList) \<noteq> Size bv then Ret (Inl WrongBitVectorSize)
              else do { voteTotal \<leftarrow> vote_sum bv 0 peerList 0;
                        if \<not> (voteTotal > (i32 (shardVote * 2)) sdiv 3) then do { _ \<leftarrow> go_index (ChainList csc) index; Ret (Inl TooFewVotes) }
                        else do { msg \<leftarrow> getCrossShardAccept csc index 0;
                                  sig \<leftarrow> go_index (AggregatedSignatureList csc) index;
                                  bz \<leftarrow> CrossShardAccept_SignBytes c msg;
                                  ok \<leftarrow> VerifyAggregateSignature B v sig bz (Byte bv);
                                  if \<not> ok then Ret (Inl AggregateInvalid) else Ret (Inr ()) } } }"

section \<open>Message round trips\<close>

definition code_fits :: "int \<Rightarrow> bool" where
  "code_fits x \<longleftrightarrow> -128 \<le> x \<and> x < 128"

lemma code_roundtrip [simp]: "code_fits x \<Longrightarrow> i8 (i32 x) = x"
  by (simp add: code_fits_def i32_id i8_id)

lemma psh_roundtrip [simp]: "i32_fits (psh_Round h) \<Longrightarrow> NewPartSetHeaderFromProto (Ptr (PartSetHeader_ToProto h)) = Ret h"
  using psh_wire.proto_inverse by simp

definition bv_ok :: "BitVector ptr \<Rightarrow> bool" where
  "bv_ok p \<longleftrightarrow> (\<exists>b. p = Ptr b \<and> bv_wf b)"

lemma bv_roundtrip [simp]: "bv_ok p \<Longrightarrow> NewBitArrayFromByte (Byte p) = Ret p"
  by (auto simp: bv_ok_def Byte_roundtrip_aux)

definition proposal_fits :: "Proposal \<Rightarrow> bool" where
  "proposal_fits p \<longleftrightarrow> i32_fits (psh_Round (p_Header p)) \<and> i32_fits (ProposerIndex p)"

definition prevote_fits :: "Prevote \<Rightarrow> bool" where
  "prevote_fits p \<longleftrightarrow> code_fits (pv_Code p) \<and> i32_fits (pv_Round p) \<and> i32_fits (pv_ValidatorIndex p)"

definition precommit_fits :: "Precommit \<Rightarrow> bool" where
  "precommit_fits p \<longleftrightarrow> code_fits (pcm_Code p) \<and> i32_fits (pc_Round p) \<and> i32_fits (pc_ValidatorIndex p)"

definition agg_fits :: "PrecommitAggregated \<Rightarrow> bool" where
  "agg_fits p \<longleftrightarrow> code_fits (pa_Code p) \<and> i32_fits (psh_Round (pa_Header p)) \<and> bv_ok (pa_ValidatorBitVector p)"

definition csc_fits :: "CrossShardCommit \<Rightarrow> bool" where
  "csc_fits c \<longleftrightarrow> (\<forall>b \<in> set (ValidatorBitVectorList c). bv_ok b)"

lemma agg_roundtrip: "agg_fits p \<Longrightarrow> NewPrecommitAggregatedFromProto (Ptr (PrecommitAggregated_ToProto p)) = Ret p"
  by (simp add: agg_fits_def NewPrecommitAggregatedFromProto_def PrecommitAggregated_ToProto_def)

lemma those_Byte: "\<forall>b \<in> set bs. bv_ok b \<Longrightarrow> those (map (NewBitArrayFromByte \<circ> Byte) bs) = Ret bs"
  by (induction bs) auto

interpretation proposal_wire: wire_type "\<lambda>p. Ret (Proposal_ToProto p)" NewProposalFromProto proposal_fits
  by unfold_locales (simp add: NewProposalFromProto_def Proposal_ToProto_def proposal_fits_def)

interpretation prevote_wire: wire_type "\<lambda>p. Ret (Prevote_ToProto p)" NewPrevoteFromProto prevote_fits
  by unfold_locales (simp add: NewPrevoteFromProto_def Prevote_ToProto_def prevote_fits_def)

interpretation precommit_wire: wire_type "\<lambda>p. Ret (Precommit_ToProto p)" NewPrecommitFromProto precommit_fits
  by unfold_locales (simp add: NewPrecommitFromProto_def Precommit_ToProto_def precommit_fits_def)

interpretation agg_wire: wire_type "\<lambda>p. Ret (PrecommitAggregated_ToProto p)"
  "\<lambda>p. NewPrecommitAggregatedFromProto (Ptr p)" agg_fits
  by unfold_locales (simp add: agg_roundtrip)

interpretation csp_wire: wire_type "\<lambda>p. Ret (CrossShardProposal_ToProto p)" NewCrossShardProposalFromProto
  "\<lambda>p. agg_fits (csp_AggregatedSignatures p)"
  by unfold_locales (simp add: NewCrossShardProposalFromProto_def CrossShardProposal_ToProto_def agg_roundtrip)

interpretation csa_wire: wire_type "\<lambda>p. Ret (CrossShardAccept_ToProto p)" NewCrossShardAcceptFromProto
  "\<lambda>p. i32_fits (csa_ValidatorIndex p)"
  by unfold_locales (simp add: NewCrossShardAcceptFromProto_def CrossShardAccept_ToProto_def)

interpretation csc_wire: wire_type "\<lambda>p. Ret (CrossShardCommit_ToProto p)" NewCrossShardCommitFromProto csc_fits
  by unfold_locales (simp add: NewCrossShardCommitFromProto_def CrossShardCommit_ToProto_def csc_fits_def those_Byte)

section \<open>Sign bytes\<close>

lemma codec_inject: "codec_ok c \<Longrightarrow> MustProtoBytes c m = Ret bz \<Longrightarrow> MustProtoBytes c m' = Ret bz \<Longrightarrow> m = m'"
  by (auto simp: codec_ok_def MustProtoBytes_def split: option.splits) (metis option.inject)

lemma Aggregated_SignBytes:
  "Precommit_SignBytes c (Aggregated_Precommit p) =
   Precommit_SignBytes c (NewPrecommit (psh_Height (pa_Header p)) (psh_Round (pa_Header p)) (pa_BlockHeaderHash p) i
     \<lparr>pcm_Code := pa_Code p\<rparr>)"
  by (simp add: Precommit_SignBytes_def Aggregated_Precommit_def NewPrecommit_def Let_def)

lemma Precommit_SignBytes_cong:
  "pc_VoteType p = pc_VoteType q \<Longrightarrow> pcm_Code p = pcm_Code q \<Longrightarrow> pc_Height p = pc_Height q \<Longrightarrow>
   pc_Round p = pc_Round q \<Longrightarrow> pc_BlockHeaderHash p = pc_BlockHeaderHash q \<Longrightarrow>
   Precommit_SignBytes c p = Precommit_SignBytes c q"
  by (simp add: Precommit_SignBytes_def)

section \<open>Vote sums\<close>

text \<open>The votes of the marked peers, without wrap-around.\<close>

definition marked_votes :: "BitVector \<Rightarrow> Peer list \<Rightarrow> int" where
  "marked_votes b peers = (\<Sum>i \<leftarrow> filter (bv_bit b) [0..<min (nat (Bits b)) (length peers)]. Vote (peers ! i))"

definition total_votes :: "Peer list \<Rightarrow> int" where
  "total_votes peers = (\<Sum>p \<leftarrow> peers. Vote p)"

definition votes_ok :: "Peer list \<Rightarrow> bool" where
  "votes_ok peers \<longleftrightarrow> (\<forall>p \<in> set peers. 0 \<le> Vote p) \<and> total_votes peers < 2 ^ 30"

lemma sum_list_nonneg_prefix: "\<forall>p \<in> set peers. 0 \<le> Vote p \<Longrightarrow> 0 \<le> total_votes peers"
  by (induction peers) (auto simp: total_votes_def)

lemma vote_sum_exact:
  assumes "bv_wf b" "nat (Bits b) = j + length peers" "\<forall>p \<in> set peers. 0 \<le> Vote p" "0 \<le> acc" "acc + total_votes peers < 2 ^ 31"
  shows "vote_sum (Ptr b) (int j) peers acc =
    Ret (acc + (\<Sum>i \<leftarrow> filter (\<lambda>i. bv_bit b (j + i)) [0..<length peers]. Vote (peers ! i)))"
  using assms
proof (induction peers arbitrary: j acc)
  case (Cons p peers)
  have g: "GetIndex (Ptr b) (int j) = Ret (bv_bit b j)" using GetIndex_total [OF Cons.prems(1), of j] Cons.prems(2) by simp
  have t: "0 \<le> total_votes peers" "0 \<le> Vote p" "total_votes (p # peers) = Vote p + total_votes peers"
    using Cons.prems(3) sum_list_nonneg_prefix by (auto simp: total_votes_def)
  have up: "[0..<length (p # peers)] = 0 # map Suc [0..<length peers]" by (simp add: upt_conv_Cons map_Suc_upt del: upt_Suc)
  let ?acc = "if bv_bit b j then acc + Vote p else acc"
  have w: "(if bv_bit b j then i32 (acc + Vote p) else acc) = ?acc"
    using Cons.prems(4,5) t by (auto simp: i32_id)
  have "vote_sum (Ptr b) (int (Suc j)) peers ?acc =
      Ret (?acc + (\<Sum>i \<leftarrow> filter (\<lambda>i. bv_bit b (Suc j + i)) [0..<length peers]. Vote (peers ! i)))"
    using Cons.prems t by (intro Cons.IH) auto
  then show ?case
    unfolding up using g w by (simp add: filter_map comp_def add.commute)
qed simp

lemma vote_sum_marked:
  assumes "bv_wf b" "Bits b = int (length peers)" "votes_ok peers"
  shows "vote_sum (Ptr b) 0 peers 0 = Ret (marked_votes b peers)"
  using vote_sum_exact [of b 0 peers 0] assms by (simp add: marked_votes_def votes_ok_def)

text \<open>The \<open>int32\<close> threshold of \<open>ValidateVote\<close> is two thirds of the total when the total is below \<open>2 ^ 30\<close>.\<close>

lemma i32_two_thirds: "0 \<le> t \<Longrightarrow> t < 2 ^ 30 \<Longrightarrow> v > (i32 (t * 2)) sdiv 3 \<longleftrightarrow> 3 * v > 2 * t"
  by (simp add: i32_id two_thirds_gt)

lemma ValidateVote_Inr:
  assumes "ValidateVote B c csc peers (Ptr v) (int i) (total_votes peers) = Ret (Inr ())"
    and "votes_ok peers" "csc_fits csc"
  obtains b where "ValidatorBitVectorList csc ! i = Ptr b" "i < length (ValidatorBitVectorList csc)"
    "Bits b = int (length peers)" "3 * marked_votes b peers > 2 * total_votes peers"
    "i < length (ChainList csc)" "i < length (CommitStatusList csc)" "i < length (AggregatedSignatureList csc)"
    "do { bz \<leftarrow> CrossShardAccept_SignBytes c (NewCrossShardAccept (csc_UpperChainID csc) (ChainList csc ! i) (csc_Height csc)
            (csc_BlockHeaderHash csc) (CommitStatusList csc ! i) 0);
          VerifyAggregateSignature B v (AggregatedSignatureList csc ! i) bz (Byte (Ptr b)) } = Ret True"
proof -
  have i: "i < length (ValidatorBitVectorList csc)"
    using assms(1) by (auto simp: ValidateVote_def go_index_def split: if_splits)
  then obtain b where b: "ValidatorBitVectorList csc ! i = Ptr b" "bv_wf b"
    using assms(3) by (metis bv_ok_def csc_fits_def nth_mem)
  have sz: "Bits b = int (length peers)" 
    using assms(1) i b by (auto simp: ValidateVote_def Size_def split: if_splits)
  note vs = vote_sum_marked [OF b(2) sz assms(2)]
  have t: "0 \<le> total_votes peers" "total_votes peers < 2 ^ 30"
    using assms(2) sum_list_nonneg_prefix by (auto simp: votes_ok_def)
  have rest: "marked_votes b peers > (i32 (total_votes peers * 2)) sdiv 3"
    "do { msg \<leftarrow> getCrossShardAccept csc (int i) 0;
          sig \<leftarrow> go_index (AggregatedSignatureList csc) (int i);
          bz \<leftarrow> CrossShardAccept_SignBytes c msg;
          VerifyAggregateSignature B v sig bz (Byte (Ptr b)) } = Ret True"
    using assms(1) i b vs by (auto simp: ValidateVote_def split: if_splits bind_splits)
  have idx: "i < length (ChainList csc)" "i < length (CommitStatusList csc)" "i < length (AggregatedSignatureList csc)"
    using rest(2) by (auto simp: getCrossShardAccept_def go_index_def split: if_splits)
  show thesis
    using that [of b] b i sz rest i32_two_thirds [OF t] idx by (simp add: getCrossShardAccept_def)
qed

section \<open>Properties\<close>


definition demo_csc :: CrossShardCommit where
  "demo_csc = \<lparr>csc_VoteType = 7, csc_UpperChainID = ''c'', csc_Height = 3, csc_BlockHeaderHash = [1],
     ChainList = [''a''], AggregatedSignatureList = [''++++''],
     ValidatorBitVectorList = [Ptr \<lparr>Bits = 2, Elems = [3]\<rparr>], CommitStatusList = [[0, 1]]\<rparr>"

definition demo_csa_msg :: pb_CrossShardAccept where
  "demo_csa_msg = \<lparr>pbca_VoteType = VoteTypeCrossShardAccept, pbca_UpperChainID = ''c'', pbca_AcceptChainID = ''a'',
     pbca_Height = 3, pbca_BlockHeaderHash = [1], pbca_CommitStatus = [0, 1], pbca_Signature = '''',
     pbca_ValidatorIndex = -1\<rparr>"

definition no_codec :: "'m codec" where
  "no_codec = \<lparr>Marshal = (\<lambda>m. None), Unmarshal = (\<lambda>bz. None)\<rparr>"

lemma no_codec_ok [simp]: "codec_ok no_codec"
  by (simp add: codec_ok_def no_codec_def)

definition demo_codecs :: codecs where
  "demo_codecs = \<lparr>proposal_codec = no_codec, prevote_codec = one_codec (Prevote_ToProto (NewPrevote 1 0 [1] 0)) [2],
     precommit_codec = one_codec (Precommit_ToProto (NewPrecommit 1 0 [1] 0)) [3],
     precommit_agg_codec = no_codec, csp_codec = no_codec,
     csa_codec = one_codec demo_csa_msg [5], csc_codec = one_codec (CrossShardCommit_ToProto demo_csc) [4],
     block_codec = demo_codec, part_codec = no_codec\<rparr>"


text \<open>C19: a cross-shard commit that \<open>ValidateVote\<close> accepts for a shard carries more than two thirds of
  that shard's votes, and its aggregate signature verifies over the accept message for exactly the
  commit status it carries.\<close>

theorem ValidateVote_sound:
  assumes "ValidateVote B c csc peers (Ptr v) (int i) (total_votes peers) = Ret (Inr ())"
    and "votes_ok peers" "csc_fits csc"
  shows "\<exists>b bz. ValidatorBitVectorList csc ! i = Ptr b \<and> Bits b = int (length peers) \<and>
     3 * marked_votes b peers > 2 * total_votes peers \<and>
     CrossShardAccept_SignBytes c (NewCrossShardAccept (csc_UpperChainID csc) (ChainList csc ! i) (csc_Height csc)
        (csc_BlockHeaderHash csc) (CommitStatusList csc ! i) 0) = Ret bz \<and>
     VerifyAggregateSignature B v (AggregatedSignatureList csc ! i) bz (Byte (Ptr b)) = Ret True"
  by (rule ValidateVote_Inr [OF assms]) (auto split: bind_splits)

definition demo_peer :: Peer where
  "demo_peer = \<lparr>IP = ''i'', Chain = Map.empty, Pubkey = ''p'', Vote = 1\<rparr>"

theorem ValidateVote_sound_witness:
  "\<exists>b. ValidatorBitVectorList demo_csc ! 0 = Ptr b \<and> 3 * marked_votes b [demo_peer, demo_peer] > 2 * 2"
proof -
  let ?peers = "[demo_peer, demo_peer]"
  have t: "total_votes ?peers = 2" "votes_ok ?peers" by (simp_all add: total_votes_def votes_ok_def demo_peer_def)
  have bv: "bv_wf \<lparr>Bits = 2, Elems = [3]\<rparr>" "bv_indices \<lparr>Bits = 2, Elems = [3]\<rparr> = [0, 1]"
    by (simp add: bv_wf_def, code_simp)
  then have fits: "csc_fits demo_csc" by (simp add: csc_fits_def demo_csc_def bv_ok_def)
  have m: "marked_votes \<lparr>Bits = 2, Elems = [3]\<rparr> ?peers = 2" by code_simp
  have keys: "agg_keys toy_bls \<lparr>publicKeys = [Ptr 1, Ptr 1]\<rparr> (Ptr \<lparr>Bits = 2, Elems = [3]\<rparr>) 2 0 (pk_zero toy_bls) = Ret (Some 2)"
    by code_simp
  have vs: "vote_sum (Ptr \<lparr>Bits = 2, Elems = [3]\<rparr>) 0 ?peers 0 = Ret 2"
    using vote_sum_marked [OF bv(1), of ?peers] t m by simp
  have msg: "CrossShardAccept_SignBytes (csa_codec demo_codecs) (NewCrossShardAccept ''c'' ''a'' 3 [1] [0, 1] 0) = Ret [5]"
    by (simp add: CrossShardAccept_SignBytes_def NewCrossShardAccept_def MustProtoBytes_def demo_codecs_def
        demo_csa_msg_def [symmetric])
  have "VerifyAggregateSignature toy_bls \<lparr>publicKeys = [Ptr 1, Ptr 1]\<rparr> ''++++'' [5] (Byte (Ptr \<lparr>Bits = 2, Elems = [3]\<rparr>)) = Ret True"
  proof -
    have "sig_parse toy_bls ''++++'' = Some 4" "sig_verify toy_bls 4 2 [5]" by (simp_all add: toy_bls_def)
    then show ?thesis
      using Byte_roundtrip_aux [OF bv(1)] keys by (simp add: VerifyAggregateSignature_def BitVec.Size_def)
  qed
  then have "ValidateVote toy_bls (csa_codec demo_codecs) demo_csc ?peers (Ptr \<lparr>publicKeys = [Ptr 1, Ptr 1]\<rparr>) (int 0) (total_votes ?peers) = Ret (Inr ())"
    using vs msg t
    by (simp add: ValidateVote_def demo_csc_def go_index_def Verifier_Size_def BitVec.Size_def getCrossShardAccept_def i32_def sdiv_nonneg)
  from ValidateVote_sound [OF this t(2) fits] show ?thesis using t(1) by auto
qed

end
