(* ===== verification/CasSet.thy ===== *)
theory CasSet
  imports ConsTypes
begin

text \<open>
  Model of \<open>melete/consensus/constypes/cas_set.go\<close>: the votes (cross-shard accepts) a coordinating
  shard collects from one neighbouring shard, grouped by the commit status they endorse. The
  invariant ties every counter to the recorded votes; from it, at most one commit status can reach
  two thirds, so the ambiguity error is unreachable and a majority, once found, is final.
\<close>

section \<open>Data and operations\<close>

record CSAShardSet =
  ValSet :: "Verifier ptr"
  PeerList :: "Peer list"
  TotalVotingPower :: int
  cs_Height :: int
  cs_ChainID :: string
  SigMap :: "string \<rightharpoonup> CrossShardAccept list"
  KeyVotePower :: "string \<rightharpoonup> int"
  IndexSeen :: "int \<rightharpoonup> bytes"
  HasMaj23Flag :: bool
  Maj23Key :: string
  Maj23CommitStatus :: bytes

datatype CSAError = RepeatToDifferentBlock | InvalidHeight | InvalidChainID | InvalidValidatorIndex | SignatureError | AmbiguousMajority

definition map_get :: "'v \<Rightarrow> ('k \<rightharpoonup> 'v) \<Rightarrow> 'k \<Rightarrow> 'v" where
  "map_get d m k = (case m k of None \<Rightarrow> d | Some v \<Rightarrow> v)"

definition NewCSAShardSet :: "int \<Rightarrow> string \<Rightarrow> Peer list \<Rightarrow> Verifier ptr \<Rightarrow> CSAShardSet" where
  "NewCSAShardSet h chain_id peerList valSet =
     \<lparr>ValSet = valSet, PeerList = peerList,
      TotalVotingPower = foldl (\<lambda>t peer. i32 (t + Vote peer)) 0 peerList,
      cs_Height = h, cs_ChainID = chain_id, SigMap = Map.empty, KeyVotePower = Map.empty,
      IndexSeen = Map.empty, HasMaj23Flag = False, Maj23Key = '''', Maj23CommitStatus = []\<rparr>"

definition HasMaj23 :: "CSAShardSet \<Rightarrow> bool" where
  "HasMaj23 s = HasMaj23Flag s"

text \<open>The tail of \<open>AddCSA\<close>, after all checks.\<close>

definition record_csa :: "CSAShardSet \<Rightarrow> CrossShardAccept \<Rightarrow> (CSAError ptr \<times> CSAShardSet) go" where
  "record_csa s csa =
     (let csaKey = bytes_str (csa_CommitStatus csa);
          s1 = s\<lparr>SigMap := (SigMap s)(csaKey \<mapsto> map_get [] (SigMap s) csaKey @ [csa]),
                 IndexSeen := (IndexSeen s)(csa_ValidatorIndex csa \<mapsto> csa_BlockHeaderHash csa)\<rparr>
      in do { peer \<leftarrow> go_index (PeerList s) (csa_ValidatorIndex csa);
              let power = i32 (map_get 0 (KeyVotePower s) csaKey + Vote peer);
                  s2 = s1\<lparr>KeyVotePower := (KeyVotePower s)(csaKey \<mapsto> power)\<rparr>
              in if power > (i32 (TotalVotingPower s * 2)) sdiv 3 then
                   if HasMaj23 s2 \<and> Maj23Key s2 \<noteq> csaKey then Ret (Ptr AmbiguousMajority, s2)
                   else Ret (Nil_ptr, s2\<lparr>HasMaj23Flag := True, Maj23Key := csaKey,
                                         Maj23CommitStatus := csa_CommitStatus csa\<rparr>)
                 else Ret (Nil_ptr, s2) })"

definition AddCSA ::
  "bls \<Rightarrow> pb_CrossShardAccept codec \<Rightarrow> CSAShardSet \<Rightarrow> CrossShardAccept \<Rightarrow> (CSAError ptr \<times> CSAShardSet) go" where
  "AddCSA B c s csa =
     (case IndexSeen s (csa_ValidatorIndex csa) of
        Some u \<Rightarrow>
          if u = csa_BlockHeaderHash csa then Ret (Nil_ptr, s) else Ret (Ptr RepeatToDifferentBlock, s)
      | None \<Rightarrow>
          if csa_Height csa \<noteq> cs_Height s then Ret (Ptr InvalidHeight, s)
          else if csa_AcceptChainID csa \<noteq> cs_ChainID s then Ret (Ptr InvalidChainID, s)
          else case ValSet s of
            Nil_ptr \<Rightarrow> if csa_ValidatorIndex csa < 0 then Ret (Ptr InvalidValidatorIndex, s) else Panic
          | Ptr v \<Rightarrow>
              if csa_ValidatorIndex csa < 0 \<or> csa_ValidatorIndex csa \<ge> Verifier_Size v
              then Ret (Ptr InvalidValidatorIndex, s)
              else do { bz \<leftarrow> CrossShardAccept_SignBytes c csa;
                        ok \<leftarrow> Verifier_Verify B v (csa_Signature csa) bz (csa_ValidatorIndex csa);
                        if \<not> ok then Ret (Ptr SignatureError, s) else record_csa s csa })"

definition GetMaj23 :: "CSAShardSet \<Rightarrow> bytes \<times> CrossShardAccept list" where
  "GetMaj23 s =
     (if \<not> HasMaj23 s then ([], []) else (Maj23CommitStatus s, map_get [] (SigMap s) (Maj23Key s)))"

section \<open>Invariant\<close>

text \<open>A recorded vote: its checks passed, and it is filed under its own commit status.\<close>

definition csa_valid :: "bls \<Rightarrow> pb_CrossShardAccept codec \<Rightarrow> CSAShardSet \<Rightarrow> string \<Rightarrow> CrossShardAccept \<Rightarrow> bool" where
  "csa_valid B c s key csa \<longleftrightarrow>
     bytes_str (csa_CommitStatus csa) = key \<and> csa_Height csa = cs_Height s \<and> csa_AcceptChainID csa = cs_ChainID s \<and>
     0 \<le> csa_ValidatorIndex csa \<and> csa_ValidatorIndex csa < int (length (PeerList s)) \<and>
     (\<exists>v bz. ValSet s = Ptr v \<and> CrossShardAccept_SignBytes c csa = Ret bz \<and>
        Verifier_Verify B v (csa_Signature csa) bz (csa_ValidatorIndex csa) = Ret True)"

definition voters :: "CSAShardSet \<Rightarrow> (int \<Rightarrow> string) \<Rightarrow> string \<Rightarrow> int set" where
  "voters s kf key = {i. i \<in> dom (IndexSeen s) \<and> kf i = key}"

definition votes_of :: "CSAShardSet \<Rightarrow> int set \<Rightarrow> int" where
  "votes_of s I = (\<Sum>i \<in> I. Vote (PeerList s ! nat i))"

text \<open>\<open>kf\<close> tells under which key each validator that has voted is counted.\<close>

definition counted :: "bls \<Rightarrow> pb_CrossShardAccept codec \<Rightarrow> CSAShardSet \<Rightarrow> (int \<Rightarrow> string) \<Rightarrow> string \<Rightarrow> bool" where
  "counted B c s kf key \<longleftrightarrow>
     map_get 0 (KeyVotePower s) key = votes_of s (voters s kf key) \<and>
     distinct (map csa_ValidatorIndex (map_get [] (SigMap s) key)) \<and>
     csa_ValidatorIndex ` set (map_get [] (SigMap s) key) = voters s kf key \<and>
     (\<forall>csa \<in> set (map_get [] (SigMap s) key). csa_valid B c s key csa)"

definition csa_inv :: "bls \<Rightarrow> pb_CrossShardAccept codec \<Rightarrow> CSAShardSet \<Rightarrow> bool" where
  "csa_inv B c s \<longleftrightarrow>
     votes_ok (PeerList s) \<and> TotalVotingPower s = total_votes (PeerList s) \<and>
     (\<forall>v. ValSet s = Ptr v \<longrightarrow> Verifier_Size v = int (length (PeerList s))) \<and>
     dom (IndexSeen s) \<subseteq> {0..<int (length (PeerList s))} \<and>
     (\<exists>kf. \<forall>key. counted B c s kf key) \<and>
     (HasMaj23Flag s \<longrightarrow>
        3 * map_get 0 (KeyVotePower s) (Maj23Key s) > 2 * TotalVotingPower s \<and>
        bytes_str (Maj23CommitStatus s) = Maj23Key s)"

lemma map_get_upd [simp]: "map_get d (m(k \<mapsto> v)) k' = (if k' = k then v else map_get d m k')"
  by (simp add: map_get_def)

lemma map_get_empty [simp]: "map_get d Map.empty k = d"
  by (simp add: map_get_def)

lemma total_votes_foldl:
  "\<forall>p \<in> set ps. 0 \<le> Vote p \<Longrightarrow> 0 \<le> t \<Longrightarrow> t + total_votes ps < 2 ^ 31 \<Longrightarrow>
   foldl (\<lambda>t peer. i32 (t + Vote peer)) t ps = t + total_votes ps"
proof (induction ps arbitrary: t)
  case (Cons p ps)
  have "0 \<le> total_votes ps" "total_votes (p # ps) = Vote p + total_votes ps"
    using Cons.prems(1) sum_list_nonneg_prefix by (auto simp: total_votes_def)
  moreover from this have "i32 (t + Vote p) = t + Vote p" using Cons.prems by (intro i32_id) auto
  ultimately show ?case using Cons.IH [of "t + Vote p"] Cons.prems by simp
qed (simp add: total_votes_def)

lemma NewCSAShardSet_inv:
  assumes "votes_ok peers" "\<forall>v. val = Ptr v \<longrightarrow> Verifier_Size v = int (length peers)"
  shows "csa_inv B c (NewCSAShardSet h cid peers val)"
  using assms total_votes_foldl [of peers 0]
  by (auto simp: csa_inv_def counted_def NewCSAShardSet_def votes_ok_def voters_def votes_of_def)

lemma total_votes_sum: "total_votes ps = (\<Sum>i \<in> {0..<int (length ps)}. Vote (ps ! nat i))"
proof -
  have "total_votes ps = (\<Sum>i \<in> {0..<length ps}. Vote (ps ! i))"
    by (simp add: total_votes_def sum_list_sum_nth)
  also have "\<dots> = (\<Sum>i \<in> {0..<int (length ps)}. Vote (ps ! nat i))"
    by (rule sum.reindex_bij_witness [of _ nat int]) auto
  finally show ?thesis .
qed

lemma votes_of_le:
  assumes "votes_ok (PeerList s)" "I \<subseteq> {0..<int (length (PeerList s))}"
  shows "0 \<le> votes_of s I" "votes_of s I \<le> total_votes (PeerList s)"
proof -
  have nn: "0 \<le> Vote (PeerList s ! nat i)" if "i \<in> {0..<int (length (PeerList s))}" for i
    using assms(1) that by (auto simp: votes_ok_def)
  then show "0 \<le> votes_of s I" using assms(2) by (auto simp: votes_of_def intro!: sum_nonneg)
  show "votes_of s I \<le> total_votes (PeerList s)"
    unfolding votes_of_def total_votes_sum using assms(2) nn by (intro sum_mono2) auto
qed

text \<open>Two different keys cannot both have more than two thirds.\<close>

lemma quorum_unique:
  assumes "votes_ok (PeerList s)" "dom (IndexSeen s) \<subseteq> {0..<int (length (PeerList s))}"
    and "3 * votes_of s (voters s kf k1) > 2 * total_votes (PeerList s)"
    and "3 * votes_of s (voters s kf k2) > 2 * total_votes (PeerList s)"
  shows "k1 = k2"
proof (rule ccontr)
  assume ne: "k1 \<noteq> k2"
  have sub: "voters s kf k1 \<union> voters s kf k2 \<subseteq> {0..<int (length (PeerList s))}" using assms(2) by (auto simp: voters_def)
  then have fin: "finite (voters s kf k1)" "finite (voters s kf k2)"
    using finite_subset [OF _ finite_atLeastLessThan_int] by auto
  have "votes_of s (voters s kf k1 \<union> voters s kf k2) = votes_of s (voters s kf k1) + votes_of s (voters s kf k2)"
    unfolding votes_of_def using fin ne by (intro sum.union_disjoint) (auto simp: voters_def)
  moreover have "votes_of s (voters s kf k1 \<union> voters s kf k2) \<le> total_votes (PeerList s)"
    by (rule votes_of_le [OF assms(1) sub])
  ultimately show False using assms votes_of_le [OF assms(1), of "voters s kf k1 \<union> voters s kf k2"] sub by linarith
qed


lemma csa_valid_cong:
  "cs_Height s' = cs_Height s \<Longrightarrow> cs_ChainID s' = cs_ChainID s \<Longrightarrow> PeerList s' = PeerList s \<Longrightarrow> ValSet s' = ValSet s \<Longrightarrow>
   csa_valid B c s' key csa = csa_valid B c s key csa"
  by (simp add: csa_valid_def)

text \<open>Counting a new valid vote keeps the invariant and never meets a second majority.\<close>

lemma record_csa_inv:
  assumes inv: "csa_inv B c s" and new: "IndexSeen s (csa_ValidatorIndex csa) = None"
    and val: "csa_valid B c s (bytes_str (csa_CommitStatus csa)) csa"
  obtains s' where "record_csa s csa = Ret (Nil_ptr, s')" "csa_inv B c s'"
    "HasMaj23Flag s \<Longrightarrow> HasMaj23Flag s' \<and> Maj23Key s' = Maj23Key s \<and> Maj23CommitStatus s' = Maj23CommitStatus s"
    "PeerList s' = PeerList s" "cs_ChainID s' = cs_ChainID s" "cs_Height s' = cs_Height s" "ValSet s' = ValSet s"
    "dom (IndexSeen s') = insert (csa_ValidatorIndex csa) (dom (IndexSeen s))"
proof -
  let ?i = "csa_ValidatorIndex csa" and ?key = "bytes_str (csa_CommitStatus csa)" and ?P = "PeerList s"
  have i: "0 \<le> ?i" "?i < int (length ?P)" using val by (auto simp: csa_valid_def)
  have vok: "votes_ok ?P" and tot: "TotalVotingPower s = total_votes ?P"
    and dom: "dom (IndexSeen s) \<subseteq> {0..<int (length ?P)}"
    using inv by (auto simp: csa_inv_def)
  obtain kf where kf: "\<And>key. map_get 0 (KeyVotePower s) key = votes_of s (voters s kf key)"
    "\<And>key. distinct (map csa_ValidatorIndex (map_get [] (SigMap s) key))"
    "\<And>key. csa_ValidatorIndex ` set (map_get [] (SigMap s) key) = voters s kf key"
    "\<And>key csa. csa \<in> set (map_get [] (SigMap s) key) \<Longrightarrow> csa_valid B c s key csa"
    using inv by (auto simp: csa_inv_def counted_def)
  define kf' where "kf' = kf(?i := ?key)"
  define seen where "seen = (IndexSeen s)(?i \<mapsto> csa_BlockHeaderHash csa)"
  define sigs where "sigs = (SigMap s)(?key \<mapsto> map_get [] (SigMap s) ?key @ [csa])"
  define power where "power = map_get 0 (KeyVotePower s) ?key + Vote (?P ! nat ?i)"
  define s2 where "s2 = s\<lparr>SigMap := sigs, IndexSeen := seen, KeyVotePower := (KeyVotePower s)(?key \<mapsto> power)\<rparr>"
  have s2 [simp]: "PeerList s2 = ?P" "ValSet s2 = ValSet s" "cs_Height s2 = cs_Height s" "cs_ChainID s2 = cs_ChainID s"
    "TotalVotingPower s2 = TotalVotingPower s" "IndexSeen s2 = seen" "SigMap s2 = sigs"
    "KeyVotePower s2 = (KeyVotePower s)(?key \<mapsto> power)" "HasMaj23Flag s2 = HasMaj23Flag s" "Maj23Key s2 = Maj23Key s"
    "Maj23CommitStatus s2 = Maj23CommitStatus s"
    by (simp_all add: s2_def)
  have nin: "?i \<notin> dom (IndexSeen s)" using new by auto
  have vot: "voters s2 kf' key = (if key = ?key then insert ?i (voters s kf key) else voters s kf key)" for key
    using nin by (auto simp: voters_def kf'_def seen_def)
  have fin: "finite (voters s kf key)" for key
    using dom finite_subset [OF _ finite_atLeastLessThan_int] by (auto simp: voters_def)
  have power_eq: "power = votes_of s2 (voters s2 kf' ?key)"
  proof -
    have "?i \<notin> voters s kf ?key" using nin by (simp add: voters_def)
    then show ?thesis using fin by (simp add: vot votes_of_def power_def kf(1))
  qed
  have other: "votes_of s2 (voters s2 kf' key) = map_get 0 (KeyVotePower s) key" if "key \<noteq> ?key" for key
    using that by (simp add: vot kf(1) votes_of_def)
  have dom2: "dom (IndexSeen s2) \<subseteq> {0..<int (length ?P)}" using dom i by (auto simp: seen_def)
  have sub2: "voters s2 kf' key \<subseteq> {0..<int (length (PeerList s2))}" for key using dom2 by (auto simp: voters_def)
  have bnd: "0 \<le> power" "power \<le> total_votes ?P"
    using votes_of_le [of s2 "voters s2 kf' ?key"] sub2 vok power_eq by auto
  have t: "0 \<le> total_votes ?P" "total_votes ?P < 2 ^ 30"
    using vok sum_list_nonneg_prefix by (auto simp: votes_ok_def)
  have gi: "go_index ?P ?i = Ret (?P ! nat ?i)" using i by (simp add: go_index_def)
  have "i32 power = power" using bnd t by (intro i32_id) auto
  then have rec: "record_csa s csa =
      (if 3 * power > 2 * total_votes ?P then
         if HasMaj23Flag s \<and> Maj23Key s \<noteq> ?key then Ret (Ptr AmbiguousMajority, s2)
         else Ret (Nil_ptr, s2\<lparr>HasMaj23Flag := True, Maj23Key := ?key, Maj23CommitStatus := csa_CommitStatus csa\<rparr>)
       else Ret (Nil_ptr, s2))"
    using gi tot i32_two_thirds [OF t, of power]
    by (simp add: record_csa_def Let_def HasMaj23_def power_def s2_def sigs_def seen_def)
  have body: "map_get 0 (KeyVotePower s2) key = votes_of s2 (voters s2 kf' key)"
    "distinct (map csa_ValidatorIndex (map_get [] (SigMap s2) key))"
    "csa_ValidatorIndex ` set (map_get [] (SigMap s2) key) = voters s2 kf' key"
    "\<forall>csa \<in> set (map_get [] (SigMap s2) key). csa_valid B c s2 key csa" for key
  proof -
    show "map_get 0 (KeyVotePower s2) key = votes_of s2 (voters s2 kf' key)"
      using power_eq other by simp
    have "?i \<notin> csa_ValidatorIndex ` set (map_get [] (SigMap s) key)" using kf(3) nin by (auto simp: voters_def)
    then show "distinct (map csa_ValidatorIndex (map_get [] (SigMap s2) key))" using kf(2) by (auto simp: sigs_def)
    show "csa_ValidatorIndex ` set (map_get [] (SigMap s2) key) = voters s2 kf' key"
      using kf(3) by (simp add: vot sigs_def)
    show "\<forall>csa \<in> set (map_get [] (SigMap s2) key). csa_valid B c s2 key csa"
      using kf(4) val by (auto simp: sigs_def csa_valid_cong [of s2 s])
  qed
  have maj: "HasMaj23Flag s \<Longrightarrow> 3 * votes_of s2 (voters s2 kf' (Maj23Key s)) > 2 * total_votes ?P \<and> bytes_str (Maj23CommitStatus s) = Maj23Key s"
  proof -
    assume h: "HasMaj23Flag s"
    then have m: "3 * map_get 0 (KeyVotePower s) (Maj23Key s) > 2 * total_votes ?P" "bytes_str (Maj23CommitStatus s) = Maj23Key s"
      using inv tot by (auto simp: csa_inv_def)
    have "0 \<le> Vote (?P ! nat ?i)" using vok i by (auto simp: votes_ok_def)
    then show ?thesis using m power_eq other [of "Maj23Key s"] by (cases "Maj23Key s = ?key") (auto simp: power_def)
  qed
  have cnt: "\<forall>key. counted B c s2 kf' key" using body unfolding counted_def by blast
  have vs: "\<forall>v. ValSet s2 = Ptr v \<longrightarrow> Verifier_Size v = int (length (PeerList s2))" using inv by (simp add: csa_inv_def)
  have inv2: "csa_inv B c s2"
    unfolding csa_inv_def
    using dom2 maj tot vok cnt vs body(1) [of "Maj23Key s"]
    by (auto simp del: s2(8))
  have same: "Maj23Key s = ?key" if "HasMaj23Flag s" "3 * power > 2 * total_votes ?P"
    using quorum_unique [of s2 kf' "Maj23Key s" ?key] maj that vok dom2 power_eq by simp
  have st: "Maj23CommitStatus s = csa_CommitStatus csa" if "HasMaj23Flag s" "Maj23Key s = ?key"
  proof -
    have "bytes_str (Maj23CommitStatus s) = bytes_str (csa_CommitStatus csa)" using maj that by simp
    then show ?thesis by (metis str_bytes_str)
  qed
  show thesis
  proof (cases "3 * power > 2 * total_votes ?P")
    case False
    then show ?thesis
      using that [of s2] rec inv2 by (auto simp: seen_def)
  next
    case True
    let ?s3 = "s2\<lparr>HasMaj23Flag := True, Maj23Key := ?key, Maj23CommitStatus := csa_CommitStatus csa\<rparr>"
    have "\<forall>key. counted B c ?s3 kf' key"
      using cnt by (simp add: counted_def voters_def votes_of_def csa_valid_def)
    then have "csa_inv B c ?s3"
      unfolding csa_inv_def using dom2 tot vok True vs by auto
    then show ?thesis
      using that [of ?s3] rec True same st by (auto simp: seen_def)
  qed
qed

lemma Verifier_Verify_range: "0 \<le> i \<Longrightarrow> \<exists>b. Verifier_Verify B v sig m i = Ret b"
  by (auto simp: Verifier_Verify_def go_index_def split: ptr.splits option.splits)

lemma AddCSA_step:
  assumes inv: "csa_inv B c s" and res: "AddCSA B c s csa = Ret (e, s')"
  shows "csa_inv B c s' \<and> e \<noteq> Ptr AmbiguousMajority \<and> (e \<noteq> Nil_ptr \<longrightarrow> s' = s) \<and>
    (HasMaj23Flag s \<longrightarrow> HasMaj23Flag s' \<and> Maj23Key s' = Maj23Key s \<and> Maj23CommitStatus s' = Maj23CommitStatus s) \<and>
    PeerList s' = PeerList s \<and> cs_ChainID s' = cs_ChainID s \<and> cs_Height s' = cs_Height s \<and> ValSet s' = ValSet s"
proof (cases "e = Nil_ptr \<and> IndexSeen s (csa_ValidatorIndex csa) = None")
  case False
  then show ?thesis
  proof (cases "IndexSeen s (csa_ValidatorIndex csa)")
    case (Some u)
    then show ?thesis using res inv by (auto simp: AddCSA_def split: if_splits)
  next
    case None
    show ?thesis
    proof (cases "\<exists>v bz. csa_Height csa = cs_Height s \<and> csa_AcceptChainID csa = cs_ChainID s \<and> ValSet s = Ptr v \<and>
        0 \<le> csa_ValidatorIndex csa \<and> csa_ValidatorIndex csa < Verifier_Size v \<and>
        CrossShardAccept_SignBytes c csa = Ret bz \<and> Verifier_Verify B v (csa_Signature csa) bz (csa_ValidatorIndex csa) = Ret True")
      case True
      then have "csa_valid B c s (bytes_str (csa_CommitStatus csa)) csa"
        using inv by (auto simp: csa_valid_def csa_inv_def)
      from record_csa_inv [OF inv None this] obtain s'' where "record_csa s csa = Ret (Nil_ptr, s'')" by metis
      moreover have "AddCSA B c s csa = record_csa s csa" using True None by (auto simp: AddCSA_def)
      ultimately show ?thesis using res False None by simp
    next
      case bad: False
      then have "s' = s \<and> e \<noteq> Ptr AmbiguousMajority"
        using res None by (auto simp: AddCSA_def not_le split: if_splits ptr.splits bind_splits)
      then show ?thesis using inv by simp
    qed
  qed
next
  case True
  then have None: "IndexSeen s (csa_ValidatorIndex csa) = None" by simp
  have "csa_valid B c s (bytes_str (csa_CommitStatus csa)) csa \<and> AddCSA B c s csa = record_csa s csa"
    using res True inv by (auto simp: AddCSA_def csa_valid_def csa_inv_def not_less split: if_splits ptr.splits bind_splits)
  with record_csa_inv [OF inv None] res show ?thesis by (metis Pair_inject option.inject ptr.distinct(1))
qed

lemma GetMaj23_quorum:
  assumes "csa_inv B c s" "HasMaj23 s" "GetMaj23 s = (st, votes)"
  shows "3 * (\<Sum>v \<leftarrow> votes. Vote (PeerList s ! nat (csa_ValidatorIndex v))) > 2 * total_votes (PeerList s) \<and>
    distinct (map csa_ValidatorIndex votes) \<and>
    (\<forall>v \<in> set votes. csa_CommitStatus v = st \<and> csa_valid B c s (bytes_str st) v)"
proof -
  have gm: "st = Maj23CommitStatus s" "votes = map_get [] (SigMap s) (Maj23Key s)"
    using assms by (auto simp: GetMaj23_def)
  obtain kf where kf: "counted B c s kf (Maj23Key s)" using assms(1) unfolding csa_inv_def by blast
  have m: "3 * map_get 0 (KeyVotePower s) (Maj23Key s) > 2 * total_votes (PeerList s)" "bytes_str st = Maj23Key s"
    using assms gm by (auto simp: csa_inv_def HasMaj23_def)
  have d: "distinct (map csa_ValidatorIndex votes)" using kf gm by (simp add: counted_def)
  have "(\<Sum>v \<leftarrow> votes. Vote (PeerList s ! nat (csa_ValidatorIndex v))) =
      (\<Sum>i \<leftarrow> map csa_ValidatorIndex votes. Vote (PeerList s ! nat i))" by (simp add: comp_def)
  also have "\<dots> = votes_of s (csa_ValidatorIndex ` set votes)"
    using d by (simp only: sum_list_distinct_conv_sum_set votes_of_def set_map)
  also have "\<dots> = map_get 0 (KeyVotePower s) (Maj23Key s)" using kf gm by (simp add: counted_def)
  finally show ?thesis using m d kf gm by (auto simp: counted_def csa_valid_def) (metis str_bytes_str)+
qed

section \<open>Properties\<close>

text \<open>C18: adding an accept keeps the invariant of the vote set (counters agree with the recorded votes, every
  recorded vote passed its checks, no validator counts twice); it changes nothing on an error; the
  "two majorities" error cannot occur, and a majority once found never changes.\<close>

theorem AddCSA_invariant:
  assumes "csa_inv B c s" "AddCSA B c s csa = Ret (e, s')"
  shows "csa_inv B c s' \<and> e \<noteq> Ptr AmbiguousMajority \<and> (e \<noteq> Nil_ptr \<longrightarrow> s' = s) \<and>
    (HasMaj23 s \<longrightarrow> HasMaj23 s' \<and> Maj23CommitStatus s' = Maj23CommitStatus s)"
  using AddCSA_step [OF assms] by (simp add: HasMaj23_def)

definition demo_set :: CSAShardSet where
  "demo_set = NewCSAShardSet 3 ''a'' [demo_peer, demo_peer] (Ptr \<lparr>publicKeys = [Ptr 1, Ptr 1]\<rparr>)"

definition demo_csa :: "int \<Rightarrow> CrossShardAccept" where
  "demo_csa i = (NewCrossShardAccept ''c'' ''a'' 3 [1] [0, 1] i)\<lparr>csa_Signature := ''++''\<rparr>"

lemma demo_set_inv: "csa_inv toy_bls c demo_set"
  unfolding demo_set_def
  by (rule NewCSAShardSet_inv) (auto simp: votes_ok_def total_votes_def demo_peer_def Verifier_Size_def)

lemma demo_csa_valid:
  "0 \<le> i \<Longrightarrow> i < 2 \<Longrightarrow> csa_valid toy_bls (csa_codec demo_codecs) demo_set (bytes_str (csa_CommitStatus (demo_csa i))) (demo_csa i)"
proof -
  assume i: "0 \<le> i" "i < 2"
  have "CrossShardAccept_SignBytes (csa_codec demo_codecs) (demo_csa i) = Ret [5]"
    by (simp add: CrossShardAccept_SignBytes_def demo_csa_def NewCrossShardAccept_def MustProtoBytes_def demo_codecs_def
        demo_csa_msg_def [symmetric])
  moreover have "Verifier_Verify toy_bls \<lparr>publicKeys = [Ptr 1, Ptr 1]\<rparr> ''++'' [5] i = Ret True"
  proof -
    have "nat i = 0 \<or> nat i = 1" using i by linarith
    then show ?thesis using i by (auto simp: Verifier_Verify_def go_index_def toy_bls_def)
  qed
  ultimately show ?thesis
    using i by (simp add: csa_valid_def demo_set_def NewCSAShardSet_def demo_csa_def NewCrossShardAccept_def)
qed

lemma demo_add: "\<exists>s1. AddCSA toy_bls (csa_codec demo_codecs) demo_set (demo_csa 0) = Ret (Nil_ptr, s1) \<and>
    csa_inv toy_bls (csa_codec demo_codecs) s1"
proof -
  have n: "IndexSeen demo_set (csa_ValidatorIndex (demo_csa 0)) = None" by (simp add: demo_set_def NewCSAShardSet_def)
  have v: "csa_valid toy_bls (csa_codec demo_codecs) demo_set (bytes_str (csa_CommitStatus (demo_csa 0))) (demo_csa 0)"
    by (rule demo_csa_valid) simp_all
  obtain s1 where "record_csa demo_set (demo_csa 0) = Ret (Nil_ptr, s1)" "csa_inv toy_bls (csa_codec demo_codecs) s1"
    using record_csa_inv [OF demo_set_inv n v] by metis
  moreover have "AddCSA toy_bls (csa_codec demo_codecs) demo_set (demo_csa 0) = record_csa demo_set (demo_csa 0)"
    using n v by (auto simp: AddCSA_def csa_valid_def demo_set_def NewCSAShardSet_def Verifier_Size_def)
  ultimately show ?thesis by simp
qed

theorem AddCSA_invariant_witness:
  "\<exists>s1. AddCSA toy_bls (csa_codec demo_codecs) demo_set (demo_csa 0) = Ret (Nil_ptr, s1) \<and>
     csa_inv toy_bls (csa_codec demo_codecs) s1 \<and> \<not> HasMaj23 demo_set"
proof -
  obtain s1 where s1: "AddCSA toy_bls (csa_codec demo_codecs) demo_set (demo_csa 0) = Ret (Nil_ptr, s1)"
    using demo_add by blast
  have "csa_inv toy_bls (csa_codec demo_codecs) s1" using AddCSA_invariant [OF demo_set_inv s1] by blast
  then show ?thesis using s1 by (simp add: HasMaj23_def demo_set_def NewCSAShardSet_def)
qed

text \<open>When a set reports a majority, \<open>GetMaj23\<close> returns a commit status and votes for exactly that
  status, from distinct validators with verified signatures, that carry more than two thirds of the
  shard's voting power.\<close>

theorem GetMaj23_has_quorum:
  assumes "csa_inv B c s" "HasMaj23 s" "GetMaj23 s = (st, votes)"
  shows "3 * (\<Sum>v \<leftarrow> votes. Vote (PeerList s ! nat (csa_ValidatorIndex v))) > 2 * total_votes (PeerList s) \<and>
    distinct (map csa_ValidatorIndex votes) \<and>
    (\<forall>v \<in> set votes. csa_CommitStatus v = st \<and> csa_valid B c s (bytes_str st) v)"
  using assms by (rule GetMaj23_quorum)

theorem GetMaj23_has_quorum_witness:
  "\<exists>s st votes. csa_inv toy_bls (csa_codec demo_codecs) s \<and> GetMaj23 s = (st, votes) \<and>
     3 * (\<Sum>v \<leftarrow> votes. Vote (PeerList s ! nat (csa_ValidatorIndex v))) > 2 * total_votes (PeerList s)"
proof -
  let ?s = "NewCSAShardSet 3 ''a'' [demo_peer] (Ptr \<lparr>publicKeys = [Ptr 1]\<rparr>)"
  have inv: "csa_inv toy_bls (csa_codec demo_codecs) ?s"
    by (rule NewCSAShardSet_inv) (auto simp: votes_ok_def total_votes_def demo_peer_def Verifier_Size_def)
  have v: "csa_valid toy_bls (csa_codec demo_codecs) ?s (bytes_str (csa_CommitStatus (demo_csa 0))) (demo_csa 0)"
    using demo_csa_valid [of 0] by (simp add: csa_valid_def demo_set_def NewCSAShardSet_def Verifier_Verify_def)
      (simp add: demo_csa_def NewCrossShardAccept_def go_index_def)
  have n: "IndexSeen ?s (csa_ValidatorIndex (demo_csa 0)) = None" by (simp add: NewCSAShardSet_def)
  obtain s' where s': "record_csa ?s (demo_csa 0) = Ret (Nil_ptr, s')" "csa_inv toy_bls (csa_codec demo_codecs) s'"
    using record_csa_inv [OF inv n v] by metis
  have "HasMaj23 s'"
    using s'(1) by (simp add: record_csa_def Let_def NewCSAShardSet_def demo_csa_def NewCrossShardAccept_def demo_peer_def
        go_index_def i32_def HasMaj23_def sdiv_nonneg) (auto split: if_splits)
  from GetMaj23_has_quorum [OF s'(2) this] show ?thesis using s'(2) by (metis surj_pair)
qed
end
