(* ===== verification/ShardInfos.thy ===== *)
theory ShardInfos
  imports CasSet
begin

text \<open>
  Model of \<open>melete/shardinfo/shardinfo.go\<close> (the static description of a node's shard and its
  neighbours) and of the message type constants of \<open>melete/definition/message.go\<close>. A Go map whose
  length or iteration the code uses is an association list (\<open>gomap\<close>): its order is the iteration
  order of one run.
\<close>

section \<open>Go maps\<close>

type_synonym ('k, 'v) gomap = "('k \<times> 'v) list"

abbreviation m_get :: "('k, 'v) gomap \<Rightarrow> 'k \<rightharpoonup> 'v" where
  "m_get \<equiv> map_of"

abbreviation m_put :: "'k \<Rightarrow> 'v \<Rightarrow> ('k, 'v) gomap \<Rightarrow> ('k, 'v) gomap" where
  "m_put \<equiv> AList.update"

abbreviation m_del :: "'k \<Rightarrow> ('k, 'v) gomap \<Rightarrow> ('k, 'v) gomap" where
  "m_del \<equiv> AList.delete"

abbreviation m_len :: "('k, 'v) gomap \<Rightarrow> int" where
  "m_len m \<equiv> int (length m)"

abbreviation m_keys :: "('k, 'v) gomap \<Rightarrow> 'k list" where
  "m_keys m \<equiv> map fst m"

definition m_has :: "('k, 'v) gomap \<Rightarrow> 'k \<Rightarrow> bool" where
  "m_has m k = (case m_get m k of None \<Rightarrow> False | Some _ \<Rightarrow> True)"

lemma m_has_iff: "m_has m k \<longleftrightarrow> k \<in> set (m_keys m)"
proof (cases "map_of m k")
  case None
  then have "k \<notin> fst ` set m" by (simp add: map_of_eq_None_iff)
  with None show ?thesis unfolding m_has_def by simp
next
  case (Some v)
  then have "k \<in> fst ` set m" by (metis map_of_eq_None_iff option.distinct(1))
  then show ?thesis using Some by (simp add: m_has_def)
qed

section \<open>Message types\<close>

definition MsgPart :: "32 word" where "MsgPart = 1"
definition MsgTendermintProposal :: "32 word" where "MsgTendermintProposal = 4"
definition MsgTendermintPrevote :: "32 word" where "MsgTendermintPrevote = 5"
definition MsgTendermintPrecommit :: "32 word" where "MsgTendermintPrecommit = 6"
definition MsgTendermintCrossShardProposal :: "32 word" where "MsgTendermintCrossShardProposal = 7"
definition MsgTendermintCrossShardAccept :: "32 word" where "MsgTendermintCrossShardAccept = 8"
definition MsgTendermintCrossShardCommit :: "32 word" where "MsgTendermintCrossShardCommit = 9"

lemmas msg_type_defs = MsgPart_def MsgTendermintProposal_def MsgTendermintPrevote_def MsgTendermintPrecommit_def
  MsgTendermintCrossShardProposal_def MsgTendermintCrossShardAccept_def MsgTendermintCrossShardCommit_def

section \<open>Shard information\<close>

record ShardInfo =
  si_PeerList :: "string \<rightharpoonup> Peer list"
  RelatedShards :: "(string, bool) gomap"
  Related2LevelShards :: "(string, bool) gomap"
  PeerRelatedMap :: "string \<rightharpoonup> string list"
  ShardIdentity :: int
  KeyRangeMap :: "string \<rightharpoonup> string"

record pb_ShardInfo =
  psi_PeerList :: "string \<rightharpoonup> pb_Peer list"
  psi_RelatedShards :: "(string, bool) gomap"
  psi_Related2LevelShards :: "(string, bool) gomap"
  psi_PeerRelatedMap :: "string \<rightharpoonup> string list"
  psi_ShardIdentity :: int

definition SetIShard :: "ShardInfo \<Rightarrow> ShardInfo" where
  "SetIShard s = s\<lparr>ShardIdentity := BLOCKTYPE_I\<rparr>"

definition SetCShard :: "ShardInfo \<Rightarrow> ShardInfo" where
  "SetCShard s = s\<lparr>ShardIdentity := BLOCKTYPE_C\<rparr>"

definition si_IsIShard :: "ShardInfo \<Rightarrow> bool" where
  "si_IsIShard s = (ShardIdentity s = BLOCKTYPE_I)"

definition si_IsCShard :: "ShardInfo \<Rightarrow> bool" where
  "si_IsCShard s = (ShardIdentity s = BLOCKTYPE_C)"

text \<open>The message has no field for \<open>KeyRangeMap\<close>, which the round trip therefore loses.\<close>

definition ShardInfo_ToProto :: "ShardInfo \<Rightarrow> pb_ShardInfo" where
  "ShardInfo_ToProto s =
     \<lparr>psi_PeerList = (\<lambda>k. map_option (map Peer_ToProto) (si_PeerList s k)), psi_RelatedShards = RelatedShards s,
      psi_Related2LevelShards = Related2LevelShards s, psi_PeerRelatedMap = PeerRelatedMap s,
      psi_ShardIdentity = i32 (ShardIdentity s)\<rparr>"

definition peer_of_proto :: "pb_Peer \<Rightarrow> Peer" where
  "peer_of_proto p = the (NewPeerFromProto p)"

definition NewShardInfoFromProto :: "pb_ShardInfo \<Rightarrow> ShardInfo go" where
  "NewShardInfoFromProto p = Ret
     \<lparr>si_PeerList = (\<lambda>k. map_option (map peer_of_proto) (psi_PeerList p k)), RelatedShards = psi_RelatedShards p,
      Related2LevelShards = psi_Related2LevelShards p, PeerRelatedMap = psi_PeerRelatedMap p,
      ShardIdentity = i8 (psi_ShardIdentity p), KeyRangeMap = Map.empty\<rparr>"

definition ShardInfo_ProtoBytes :: "pb_ShardInfo codec \<Rightarrow> ShardInfo \<Rightarrow> bytes go" where
  "ShardInfo_ProtoBytes c s = MustProtoBytes c (ShardInfo_ToProto s)"

definition NewShardInfoFromBytes :: "pb_ShardInfo codec \<Rightarrow> bytes \<Rightarrow> ShardInfo ptr go" where
  "NewShardInfoFromBytes c bz = from_bytes c NewShardInfoFromProto bz"

lemma peer_of_proto_ToProto [simp]: "peer_of_proto (Peer_ToProto p) = p"
  by (simp add: peer_of_proto_def NewPeerFromProto_def Peer_ToProto_def NewPeer_def)

lemma peers_roundtrip: "map_option (map peer_of_proto) (map_option (map Peer_ToProto) x) = x"
  by (cases x) (simp_all add: comp_def)

lemma ShardInfo_roundtrip:
  "code_fits (ShardIdentity s) \<Longrightarrow> NewShardInfoFromProto (ShardInfo_ToProto s) = Ret (s\<lparr>KeyRangeMap := Map.empty\<rparr>)"
  by (simp add: NewShardInfoFromProto_def ShardInfo_ToProto_def peers_roundtrip)

interpretation shardinfo_wire: wire_type "\<lambda>s. Ret (ShardInfo_ToProto s)" NewShardInfoFromProto
  "\<lambda>s. code_fits (ShardIdentity s) \<and> KeyRangeMap s = Map.empty"
  by unfold_locales (simp add: ShardInfo_roundtrip)

end
