(* ===== verification/Store.thy ===== *)
theory Store
  imports Blocks
begin

text \<open>
  The contract of the key-value databases (\<open>libs/db/types.go\<close>) and the prefix store built on it
  (\<open>utils/store/store.go\<close>). A database is the map of its contents; \<open>failing\<close> tells which keys the
  backend cannot access (disk errors of the third-party engines). The lemmas show that the state and
  data key spaces are separate, that a block written for a height and shard is read back, and that
  different heights and shards use different keys.
\<close>

section \<open>The database contract\<close>

datatype DBError = errKeyEmpty | errValueNil | errBatchClosed | IOError

record kv =
  contents :: "bytes \<rightharpoonup> bytes"
  failing :: "bytes \<Rightarrow> bool"

definition db_Get :: "kv \<Rightarrow> bytes \<Rightarrow> DBError + bytes ptr" where
  "db_Get db key =
     (if key = [] then Inl errKeyEmpty
      else if failing db key then Inl IOError
      else Inr (case contents db key of None \<Rightarrow> Nil_ptr | Some v \<Rightarrow> Ptr v))"

definition db_Has :: "kv \<Rightarrow> bytes \<Rightarrow> DBError + bool" where
  "db_Has db key =
     (if key = [] then Inl errKeyEmpty
      else if failing db key then Inl IOError
      else Inr (contents db key \<noteq> None))"

definition db_Set :: "kv \<Rightarrow> bytes \<Rightarrow> bytes ptr \<Rightarrow> DBError ptr \<times> kv" where
  "db_Set db key value =
     (if key = [] then (Ptr errKeyEmpty, db)
      else case value of
        Nil_ptr \<Rightarrow> (Ptr errValueNil, db)
      | Ptr v \<Rightarrow> if failing db key then (Ptr IOError, db) else (Nil_ptr, db\<lparr>contents := (contents db)(key \<mapsto> v)\<rparr>))"

definition db_Delete :: "kv \<Rightarrow> bytes \<Rightarrow> DBError ptr \<times> kv" where
  "db_Delete db key =
     (if key = [] then (Ptr errKeyEmpty, db)
      else if failing db key then (Ptr IOError, db)
      else (Nil_ptr, db\<lparr>contents := (contents db)(key := None)\<rparr>))"

text \<open>A batch collects operations; \<open>None\<close> is a batch that has been written or closed.\<close>

datatype batch_op = opTypeSet bytes bytes | opTypeDelete bytes

type_synonym batch = "batch_op list option"

definition db_NewBatch :: batch where
  "db_NewBatch = Some []"

definition batch_Set :: "batch \<Rightarrow> bytes \<Rightarrow> bytes ptr \<Rightarrow> DBError ptr \<times> batch" where
  "batch_Set b key value =
     (if key = [] then (Ptr errKeyEmpty, b)
      else case value of
        Nil_ptr \<Rightarrow> (Ptr errValueNil, b)
      | Ptr v \<Rightarrow> (case b of None \<Rightarrow> (Ptr errBatchClosed, b) | Some ops \<Rightarrow> (Nil_ptr, Some (ops @ [opTypeSet key v]))))"

definition batch_Delete :: "batch \<Rightarrow> bytes \<Rightarrow> DBError ptr \<times> batch" where
  "batch_Delete b key =
     (if key = [] then (Ptr errKeyEmpty, b)
      else case b of None \<Rightarrow> (Ptr errBatchClosed, b) | Some ops \<Rightarrow> (Nil_ptr, Some (ops @ [opTypeDelete key])))"

fun op_key :: "batch_op \<Rightarrow> bytes" where
  "op_key (opTypeSet k v) = k"
| "op_key (opTypeDelete k) = k"

fun apply_op :: "(bytes \<rightharpoonup> bytes) \<Rightarrow> batch_op \<Rightarrow> (bytes \<rightharpoonup> bytes)" where
  "apply_op m (opTypeSet k v) = m(k \<mapsto> v)"
| "apply_op m (opTypeDelete k) = m(k := None)"

text \<open>Writing applies the operations in order, all or none, and closes the batch.\<close>

definition batch_Write :: "kv \<Rightarrow> batch \<Rightarrow> DBError ptr \<times> kv \<times> batch" where
  "batch_Write db b =
     (case b of
        None \<Rightarrow> (Ptr errBatchClosed, db, b)
      | Some ops \<Rightarrow> if list_ex (failing db \<circ> op_key) ops then (Ptr IOError, db, b)
                    else (Nil_ptr, db\<lparr>contents := foldl apply_op (contents db) ops\<rparr>, None))"

section \<open>The prefix store\<close>

definition stateKey :: bytes where "stateKey = [48]"
definition dataKey :: bytes where "dataKey = [49]"

definition toDataKey :: "bytes \<Rightarrow> bytes" where
  "toDataKey bz = dataKey @ bz"

definition toStateKey :: "bytes \<Rightarrow> bytes" where
  "toStateKey bz = stateKey @ bz"

definition fromDataKey :: "bytes \<Rightarrow> bytes" where
  "fromDataKey bz = (if take (length dataKey) bz = dataKey then drop (length dataKey) bz else bz)"

definition GetState :: "kv \<Rightarrow> bytes \<Rightarrow> DBError + bytes ptr" where
  "GetState p key = db_Get p (toStateKey key)"

definition store_Get :: "kv \<Rightarrow> bytes \<Rightarrow> DBError + bytes ptr" where
  "store_Get p key = db_Get p (toDataKey key)"

definition HasState :: "kv \<Rightarrow> bytes \<Rightarrow> DBError + bool" where
  "HasState p key = db_Has p (toStateKey key)"

definition store_Has :: "kv \<Rightarrow> bytes \<Rightarrow> DBError + bool" where
  "store_Has p key = db_Has p (toDataKey key)"

definition SetState :: "kv \<Rightarrow> bytes \<Rightarrow> bytes ptr \<Rightarrow> DBError ptr \<times> kv" where
  "SetState p key state = db_Set p (toStateKey key) state"

definition store_Set :: "kv \<Rightarrow> bytes \<Rightarrow> bytes ptr \<Rightarrow> DBError ptr \<times> kv" where
  "store_Set p key value = db_Set p (toDataKey key) value"

text \<open>\<open>DeleteState\<close> takes no key: it deletes the bare prefix, under which nothing is ever stored.\<close>

definition DeleteState :: "kv \<Rightarrow> DBError ptr \<times> kv" where
  "DeleteState p = db_Delete p stateKey"

definition store_Delete :: "kv \<Rightarrow> bytes \<Rightarrow> DBError ptr \<times> kv" where
  "store_Delete p key = db_Delete p (toDataKey key)"

definition pbatch_Set :: "batch \<Rightarrow> bytes \<Rightarrow> bytes ptr \<Rightarrow> DBError ptr \<times> batch" where
  "pbatch_Set pi key value = batch_Set pi (toDataKey key) value"

definition pbatch_Delete :: "batch \<Rightarrow> bytes \<Rightarrow> DBError ptr \<times> batch" where
  "pbatch_Delete pi key = batch_Delete pi (toDataKey key)"

definition pbatch_Write :: "kv \<Rightarrow> batch \<Rightarrow> DBError ptr \<times> kv \<times> batch" where
  "pbatch_Write db pi = batch_Write db pi"

section \<open>Blocks by height and by hash\<close>

text \<open>\<open>fmt.Sprintf("%d:%s", height, chain)\<close>.\<close>

definition digit :: "nat \<Rightarrow> char" where
  "digit d = ''0123456789'' ! d"

fun show_nat :: "nat \<Rightarrow> string" where
  "show_nat n = (if n < 10 then [digit n] else show_nat (n div 10) @ [digit (n mod 10)])"

declare show_nat.simps [simp del]

definition show_int :: "int \<Rightarrow> string" where
  "show_int i = (if i < 0 then CHR ''-'' # show_nat (nat (- i)) else show_nat (nat i))"

definition height_key :: "int \<Rightarrow> string \<Rightarrow> bytes" where
  "height_key height chain = str_bytes (show_int height @ CHR '':'' # chain)"

definition GetBlockByHash :: "kv \<Rightarrow> bytes \<Rightarrow> DBError + bytes ptr" where
  "GetBlockByHash p hs = store_Get p hs"

definition GetBlockByHeight :: "kv \<Rightarrow> int \<Rightarrow> string \<Rightarrow> DBError + bytes ptr" where
  "GetBlockByHeight p height chain =
     (case GetState p (height_key height chain) of
        Inl e \<Rightarrow> Inl e
      | Inr hs \<Rightarrow> GetBlockByHash p (slice_bytes hs))"

definition SetBlockByHash :: "kv \<Rightarrow> bytes \<Rightarrow> bytes \<Rightarrow> DBError ptr \<times> kv" where
  "SetBlockByHash p hs block_bytes = store_Set p hs (Ptr block_bytes)"

text \<open>
  Hashing the block updates it; the updated block is returned with the error and the store. The hash
  is 32 bytes or nil.
\<close>

definition SetBlockByHeight ::
  "time_marshal \<Rightarrow> pb_Block codec \<Rightarrow> kv \<Rightarrow> int \<Rightarrow> string \<Rightarrow> Block \<Rightarrow> (DBError ptr \<times> kv \<times> Block) go" where
  "SetBlockByHeight tm c p height chain block =
     do { (hs, block') \<leftarrow> Block_Hash tm block;
          case SetState p (height_key height chain) (if hs = [] then Nil_ptr else Ptr hs) of
            (Ptr e, p') \<Rightarrow> Ret (Ptr e, p', block')
          | (Nil_ptr, p') \<Rightarrow>
              do { bz \<leftarrow> Block_ProtoBytes c block';
                   let (e, p'') = SetBlockByHash p' hs bz in Ret (e, p'', block') } }"

section \<open>Lemmas\<close>

lemma key_spaces_disjoint: "toDataKey a \<noteq> toStateKey b"
  by (simp add: toDataKey_def toStateKey_def dataKey_def stateKey_def)

lemma toDataKey_inject [simp]: "toDataKey a = toDataKey b \<longleftrightarrow> a = b"
  by (simp add: toDataKey_def)

lemma toStateKey_inject [simp]: "toStateKey a = toStateKey b \<longleftrightarrow> a = b"
  by (simp add: toStateKey_def)

lemma from_to_data [simp]: "fromDataKey (toDataKey a) = a"
  by (simp add: fromDataKey_def toDataKey_def)

lemma keys_nonempty [simp]: "toDataKey a \<noteq> []" "toStateKey a \<noteq> []"
  by (simp_all add: toDataKey_def toStateKey_def dataKey_def stateKey_def)

lemma digit_cases: "d < 10 \<Longrightarrow> digit d \<in> set ''0123456789'' \<and> of_char (digit d) = (48 + d :: nat)"
proof -
  have "\<forall>d \<in> set [0..<10]. digit d \<in> set ''0123456789'' \<and> of_char (digit d) = (48 + d :: nat)"
    by (simp add: digit_def upt_rec)
  then show "d < 10 \<Longrightarrow> digit d \<in> set ''0123456789'' \<and> of_char (digit d) = (48 + d :: nat)" by simp
qed

lemma show_nat_digits: "set (show_nat n) \<subseteq> set ''0123456789''"
proof (induction n rule: show_nat.induct)
  case (1 n)
  then show ?case using digit_cases [of n] digit_cases [of "n mod 10"] by (subst show_nat.simps) auto
qed

definition read_nat :: "string \<Rightarrow> nat" where
  "read_nat = foldl (\<lambda>a c. 10 * a + (of_char c - 48)) 0"

lemma read_show_nat [simp]: "read_nat (show_nat n) = n"
proof (induction n rule: show_nat.induct)
  case (1 n)
  then show ?case using digit_cases [of n] digit_cases [of "n mod 10"] by (subst show_nat.simps) (simp add: read_nat_def)
qed

lemma show_int_inject: "show_int i = show_int j \<Longrightarrow> i = j"
proof -
  have h: "CHR ''-'' \<notin> set (show_nat n)" for n using show_nat_digits [of n] by auto
  have n: "show_nat a = show_nat b \<Longrightarrow> a = b" for a b by (metis read_show_nat)
  assume e: "show_int i = show_int j"
  show ?thesis
  proof (cases "i < 0"; cases "j < 0")
    assume "i < 0" "j < 0"
    then show ?thesis using e n [of "nat (- i)" "nat (- j)"] by (simp add: show_int_def)
  next
    assume "i < 0" "\<not> j < 0"
    then have "CHR ''-'' \<in> set (show_nat (nat j))" using e by (simp add: show_int_def) (metis list.set_intros(1))
    then show ?thesis using h by blast
  next
    assume "\<not> i < 0" "j < 0"
    then have "CHR ''-'' \<in> set (show_nat (nat i))" using e by (simp add: show_int_def)
    then show ?thesis using h by blast
  next
    assume "\<not> i < 0" "\<not> j < 0"
    then show ?thesis using e n [of "nat i" "nat j"] by (simp add: show_int_def)
  qed
qed

lemma show_int_no_colon: "CHR '':'' \<notin> set (show_int i)"
  using show_nat_digits by (auto simp: show_int_def)

lemma split_at_sep: "c \<notin> set xs \<Longrightarrow> c \<notin> set ys \<Longrightarrow> xs @ c # us = ys @ c # vs \<Longrightarrow> xs = ys \<and> us = vs"
proof (induction xs arbitrary: ys)
  case Nil
  then show ?case by (cases ys) auto
next
  case (Cons x xs)
  then show ?case by (cases ys) auto
qed

lemma height_key_inject: "height_key h c = height_key h' c' \<longleftrightarrow> h = h' \<and> c = c'"
proof
  assume "height_key h c = height_key h' c'"
  then have "show_int h @ CHR '':'' # c = show_int h' @ CHR '':'' # c'"
    unfolding height_key_def by (rule str_bytes_inject [THEN iffD1])
  then show "h = h' \<and> c = c'" using split_at_sep show_int_no_colon show_int_inject by metis
qed simp

text \<open>A block that could be stored is read back by its height and shard, and other heights and shards
  keep the hash they had.\<close>

lemma SetBlockByHeight_get:
  assumes "SetBlockByHeight tm c p h chain b = Ret (Nil_ptr, p', b')" "\<And>k. \<not> failing p k"
  shows "\<exists>bz. Block_ProtoBytes c b' = Ret bz \<and> GetBlockByHeight p' h chain = Inr (Ptr bz)"
    "(h', chain') \<noteq> (h, chain) \<Longrightarrow> GetState p' (height_key h' chain') = GetState p (height_key h' chain')"
proof -
  obtain hs bz where hs: "Block_Hash tm b = Ret (hs, b')" "hs \<noteq> []" "Block_ProtoBytes c b' = Ret bz"
    "p' = p\<lparr>contents := (contents p)(toStateKey (height_key h chain) \<mapsto> hs, toDataKey hs \<mapsto> bz)\<rparr>"
    using assms by (auto simp: SetBlockByHeight_def SetState_def SetBlockByHash_def store_Set_def db_Set_def Let_def
        split: bind_splits ptr.splits if_splits prod.splits)
  have d: "toStateKey x \<noteq> toDataKey y" for x y using key_spaces_disjoint by metis
  show "\<exists>bz. Block_ProtoBytes c b' = Ret bz \<and> GetBlockByHeight p' h chain = Inr (Ptr bz)"
    using hs d assms(2) by (simp add: GetBlockByHeight_def GetState_def GetBlockByHash_def store_Get_def db_Get_def slice_bytes_def)
  show "(h', chain') \<noteq> (h, chain) \<Longrightarrow> GetState p' (height_key h' chain') = GetState p (height_key h' chain')"
    using hs d assms(2) by (auto simp: GetState_def db_Get_def height_key_inject)
qed


lemma Block_Hash_fits: "Block_Hash tm b = Ret (x, b') \<Longrightarrow> header_fits (b_Header b) \<Longrightarrow> header_fits (b_Header b')"
  by (auto simp: Block_Hash_def fillHeader_def header_fits_def split: if_splits bind_splits)

text \<open>C33: a block that was stored is read back by its height and shard: decoding what \<open>GetBlockByHeight\<close>
  returns gives the stored block with an empty hash cache, and every other pair of height and shard still
  refers to the block hash it referred to before.\<close>

theorem stored_block_read_back:
  assumes "codec_ok c" "header_fits (b_Header b)" "SetBlockByHeight tm c p h chain b = Ret (Nil_ptr, p', b')"
    and "\<forall>k. \<not> failing p k"
  shows "(\<exists>bz. GetBlockByHeight p' h chain = Inr (Ptr bz) \<and> NewBlockFromBytes c bz = Ret (Ptr (b'\<lparr>blockhash := []\<rparr>))) \<and>
    (\<forall>h' chain'. (h', chain') \<noteq> (h, chain) \<longrightarrow> GetState p' (height_key h' chain') = GetState p (height_key h' chain'))"
proof -
  obtain hs where "Block_Hash tm b = Ret (hs, b')"
    using assms(3) by (auto simp: SetBlockByHeight_def Let_def split: bind_splits prod.splits ptr.splits)
  then have f: "header_fits (b_Header b')" using Block_Hash_fits assms(2) by blast
  obtain bz where "Block_ProtoBytes c b' = Ret bz" "GetBlockByHeight p' h chain = Inr (Ptr bz)"
    using SetBlockByHeight_get(1) [OF assms(3)] assms(4) by blast
  then show ?thesis
    using Block_bytes_roundtrip [OF assms(1) f] SetBlockByHeight_get(2) [OF assms(3)] assms(4) by blast
qed

theorem stored_block_read_back_witness:
  "\<exists>c b' p' bz. SetBlockByHeight (\<lambda>t. Some [7]) c \<lparr>contents = Map.empty, failing = \<lambda>k. False\<rparr> 5 ''a'' demo_block = Ret (Nil_ptr, p', b') \<and>
     GetBlockByHeight p' 5 ''a'' = Inr (Ptr bz) \<and> NewBlockFromBytes c bz = Ret (Ptr (b'\<lparr>blockhash := []\<rparr>))"
proof -
  obtain b1 r where r: "Header_Hash (\<lambda>t. Some [7]) (b_Header b1) = Ret r" and
    b1: "Block_Hash (\<lambda>t. Some [7]) (demo_block\<lparr>blockhash := []\<rparr>) = Ret (slice_bytes r, b1\<lparr>blockhash := slice_bytes r\<rparr>)"
    by (rule Block_Hash_cases [of demo_block "\<lambda>t. Some [7]"]) blast
  define b' where "b' = b1\<lparr>blockhash := slice_bytes r\<rparr>"
  have h: "Block_Hash (\<lambda>t. Some [7]) demo_block = Ret (slice_bytes r, b')" using b1 by (simp add: b'_def demo_block_def)
  have "r \<noteq> Nil_ptr" using r by (auto simp: Header_Hash_def split: bind_splits)
  then have ne: "slice_bytes r \<noteq> []" using Header_Hash_returns [of "\<lambda>t. Some [7]" "b_Header b1"] r by auto
  let ?c = "one_codec (Block_ToProto b') [1, 2]" and ?p = "\<lparr>contents = Map.empty, failing = \<lambda>k. False\<rparr>"
  have "\<exists>p'. SetBlockByHeight (\<lambda>t. Some [7]) ?c ?p 5 ''a'' demo_block = Ret (Nil_ptr, p', b')"
    using h ne by (simp add: SetBlockByHeight_def SetState_def db_Set_def SetBlockByHash_def store_Set_def Block_ProtoBytes_def
        MustProtoBytes_def)
  then obtain p' where p': "SetBlockByHeight (\<lambda>t. Some [7]) ?c ?p 5 ''a'' demo_block = Ret (Nil_ptr, p', b')" by blast
  show ?thesis using stored_block_read_back [OF one_codec_ok demo_block_facts(2) p'] p' by auto
qed

end
