(* ===== verification/RangeTrees.thy ===== *)
theory RangeTrees
  imports Prelude
begin

text \<open>
  Model of \<open>utils/RangeTree.go\<close>: the tree of half-open key ranges that says which keys a shard
  owns. A node is a leaf or has both children (the code never keeps a node with one child); a
  node's \<open>Ukey\<close> is the upper bound of a left child (and of the root) and the lower bound of a right
  child, and the outer bounds are passed down by the caller. \<open>rt_set\<close> is the set of keys a node
  stands for; the lemmas show that the tree operations are union, difference and membership.
\<close>

section \<open>Data and operations\<close>

datatype RangeTreeNode =
  Leaf (Ukey: string) (depth: int)
| Inner (Ukey: string) (LeftChild: RangeTreeNode) (RightChild: RangeTreeNode) (depth: int)

definition IsLeaf :: "RangeTreeNode \<Rightarrow> bool" where
  "IsLeaf t = (case t of Leaf _ _ \<Rightarrow> True | Inner _ _ _ _ \<Rightarrow> False)"

definition NewRangeTreeLeaf :: "string \<Rightarrow> RangeTreeNode" where
  "NewRangeTreeLeaf ukey = Leaf ukey 0"

fun set_Ukey :: "string \<Rightarrow> RangeTreeNode \<Rightarrow> RangeTreeNode" where
  "set_Ukey k (Leaf u d) = Leaf k d"
| "set_Ukey k (Inner u l r d) = Inner k l r d"

lemma size_set_Ukey [simp, termination_simp]: "size (set_Ukey k t) = size t"
  by (cases t) auto

definition strInRange :: "string \<Rightarrow> string \<Rightarrow> string \<Rightarrow> bool" where
  "strInRange s u v \<longleftrightarrow> u \<le> s \<and> s \<le> v"

definition strInRangeRightOpen :: "string \<Rightarrow> string \<Rightarrow> string \<Rightarrow> bool" where
  "strInRangeRightOpen s u v \<longleftrightarrow> u \<le> s \<and> s < v"

text \<open>The deferred clean-up of \<open>AddRange\<close>: join two touching leaves, recompute the depth.\<close>

fun fix_node :: "RangeTreeNode \<Rightarrow> RangeTreeNode" where
  "fix_node (Leaf u d) = Leaf u 0"
| "fix_node (Inner u l r d) =
     (if IsLeaf l \<and> IsLeaf r \<and> Ukey l = Ukey r then Leaf u 0
      else Inner u l r (if depth l > depth r then depth l + 1 else depth r + 1))"

fun node_AddRange :: "RangeTreeNode \<Rightarrow> string \<Rightarrow> string \<Rightarrow> string \<Rightarrow> string \<Rightarrow> RangeTreeNode go" where
  "node_AddRange (Leaf u d) low rangeLow rangeHigh high = Ret (Leaf u d)"
| "node_AddRange (Inner u l r d) low rangeLow rangeHigh high =
     (if strInRange rangeLow low (Ukey l) \<and> strInRange rangeHigh (Ukey r) high then
        do { l' \<leftarrow> node_AddRange l low rangeLow (Ukey l) (Ukey l);
             r' \<leftarrow> node_AddRange r (Ukey r) (Ukey r) rangeHigh high;
             Ret (fix_node (if depth l' < depth r' then Inner u (set_Ukey (Ukey r') l') r' d
                            else Inner u l' (set_Ukey (Ukey l') r') d)) }
      else if strInRange rangeLow low (Ukey l) \<and> strInRange rangeHigh low (Ukey l) then
        do { l' \<leftarrow> node_AddRange l low rangeLow rangeHigh (Ukey l);
             Ret (fix_node (Inner u l' r d)) }
      else if strInRange rangeLow (Ukey r) high \<and> strInRange rangeHigh (Ukey r) high then
        do { r' \<leftarrow> node_AddRange r (Ukey r) rangeLow rangeHigh high;
             Ret (fix_node (Inner u l r' d)) }
      else if strInRange rangeLow (Ukey l) (Ukey r) \<and> strInRange rangeHigh (Ukey r) high then
        do { r' \<leftarrow> node_AddRange (set_Ukey rangeLow r) rangeLow rangeLow rangeHigh high;
             Ret (fix_node (Inner u l r' d)) }
      else if strInRange rangeLow low (Ukey l) \<and> strInRange rangeHigh (Ukey l) (Ukey r) then
        do { l' \<leftarrow> node_AddRange (set_Ukey rangeHigh l) low rangeLow rangeHigh rangeHigh;
             Ret (fix_node (Inner u l' r d)) }
      else if strInRange rangeLow (Ukey l) (Ukey r) \<and> strInRange rangeHigh (Ukey l) (Ukey r) then
        (if depth l < depth r
         then Ret (fix_node (Inner u (Inner rangeHigh l (NewRangeTreeLeaf rangeLow) (depth l + 1)) r d))
         else Ret (fix_node (Inner u l (Inner rangeLow (NewRangeTreeLeaf rangeHigh) r (depth r + 1)) d)))
      else Panic)"

text \<open>The tail of \<open>DeleteRange\<close>: a node whose children may have been deleted.\<close>

definition delete_finish ::
  "string \<Rightarrow> RangeTreeNode ptr \<Rightarrow> RangeTreeNode ptr \<Rightarrow> int \<Rightarrow> string \<Rightarrow> string \<Rightarrow> string \<Rightarrow> string
   \<Rightarrow> (RangeTreeNode ptr \<times> string \<times> string) go" where
  "delete_finish u lc rc d low high leftRange rightRange =
     (if is_nil lc \<and> is_nil rc then Ret (Nil_ptr, leftRange, rightRange)
      else if u \<noteq> high \<and> u \<noteq> low then Panic
      else
        (let isLeft = (u = high); u' = (if isLeft then rightRange else leftRange)
         in case (lc, rc) of
              (Ptr l, Ptr r) \<Rightarrow>
                Ret (Ptr (Inner u' l r (if depth l > depth r then depth l + 1 else depth r + 1)),
                     leftRange, rightRange)
            | (Ptr l, Nil_ptr) \<Rightarrow>
                (if isLeft then Ret (Ptr l, leftRange, Ukey l)
                 else Ret (Ptr (set_Ukey leftRange l), leftRange, Ukey l))
            | (Nil_ptr, Ptr r) \<Rightarrow>
                (if isLeft then Ret (Ptr (set_Ukey rightRange r), Ukey r, rightRange)
                 else Ret (Ptr r, Ukey r, rightRange))
            | (Nil_ptr, Nil_ptr) \<Rightarrow> Panic))"

fun node_DeleteRange ::
  "RangeTreeNode \<Rightarrow> string \<Rightarrow> string \<Rightarrow> string \<Rightarrow> string \<Rightarrow> (RangeTreeNode ptr \<times> string \<times> string) go" where
  "node_DeleteRange (Leaf u d) low rangeLow rangeHigh high =
     (if rangeLow = low \<and> rangeHigh = high then Ret (Nil_ptr, low, high)
      else if rangeLow = rangeHigh then Ret (Ptr (Leaf u d), low, high)
      else if rangeHigh = high then
        Ret (Ptr (Leaf (if u = high then rangeLow else u) d), low, rangeLow)
      else if rangeLow = low then
        Ret (Ptr (Leaf (if u = low then rangeHigh else u) d), rangeHigh, high)
      else Ret (Ptr (Inner u (NewRangeTreeLeaf rangeLow) (NewRangeTreeLeaf rangeHigh) (d + 1)), low, high))"
| "node_DeleteRange (Inner u l r d) low rangeLow rangeHigh high =
     (if rangeLow = low \<and> rangeHigh = high then Ret (Nil_ptr, low, high)
      else if rangeLow = rangeHigh then Ret (Ptr (Inner u l r d), low, high)
      else if strInRange rangeLow low (Ukey l) \<and> strInRange rangeHigh (Ukey r) high then
        do { (lc, leftRange, _) \<leftarrow> node_DeleteRange l low rangeLow (Ukey l) (Ukey l);
             (rc, _, rightRange) \<leftarrow> node_DeleteRange r (Ukey r) (Ukey r) rangeHigh high;
             delete_finish u lc rc d low high leftRange rightRange }
      else if strInRange rangeLow low (Ukey l) \<and> strInRange rangeHigh low (Ukey l) then
        do { (lc, leftRange, _) \<leftarrow> node_DeleteRange l low rangeLow rangeHigh (Ukey l);
             delete_finish u lc (Ptr r) d low high leftRange high }
      else if strInRange rangeLow (Ukey r) high \<and> strInRange rangeHigh (Ukey r) high then
        do { (rc, _, rightRange) \<leftarrow> node_DeleteRange r (Ukey r) rangeLow rangeHigh high;
             delete_finish u (Ptr l) rc d low high low rightRange }
      else if strInRange rangeLow (Ukey l) (Ukey r) \<and> strInRange rangeHigh (Ukey r) high then
        do { (rc, _, rightRange) \<leftarrow> node_DeleteRange r (Ukey r) (Ukey r) rangeHigh high;
             delete_finish u (Ptr l) rc d low high low rightRange }
      else if strInRange rangeLow low (Ukey l) \<and> strInRange rangeHigh (Ukey l) (Ukey r) then
        do { (lc, leftRange, _) \<leftarrow> node_DeleteRange l low rangeLow (Ukey l) (Ukey l);
             delete_finish u lc (Ptr r) d low high leftRange high }
      else delete_finish u (Ptr l) (Ptr r) d low high low high)"

fun node_Search :: "RangeTreeNode \<Rightarrow> string \<Rightarrow> string \<Rightarrow> string \<Rightarrow> bool" where
  "node_Search (Leaf u d) p low high = strInRangeRightOpen p low high"
| "node_Search (Inner u l r d) p low high =
     (if p < Ukey l then node_Search l p low (Ukey l)
      else if p \<ge> Ukey r then node_Search r p (Ukey r) high
      else False)"

fun node_Range :: "RangeTreeNode \<Rightarrow> (string \<times> string) list \<Rightarrow> string \<Rightarrow> string \<Rightarrow> (string \<times> string) list" where
  "node_Range (Leaf u d) outputList start stop = outputList @ [(start, stop)]"
| "node_Range (Inner u l r d) outputList start stop =
     node_Range r (node_Range l outputList start (Ukey l)) (Ukey r) stop"

record RangeTree =
  start :: string
  stop :: string
  root :: "RangeTreeNode ptr"

definition NewRangeTree :: RangeTree where
  "NewRangeTree = \<lparr>start = '''', stop = '''', root = Nil_ptr\<rparr>"

definition Search :: "RangeTree \<Rightarrow> string \<Rightarrow> bool" where
  "Search t p = (case root t of Nil_ptr \<Rightarrow> False | Ptr n \<Rightarrow> node_Search n p (start t) (stop t))"

definition AddRange :: "RangeTree \<Rightarrow> string \<Rightarrow> string \<Rightarrow> RangeTree go" where
  "AddRange t rangeLow rangeHigh =
     (if rangeHigh < rangeLow then Ret t
      else case root t of
        Nil_ptr \<Rightarrow> Ret (t\<lparr>start := rangeLow, stop := rangeHigh, root := Ptr (NewRangeTreeLeaf rangeHigh)\<rparr>)
      | Ptr n \<Rightarrow>
          if rangeHigh < start t then
            Ret (t\<lparr>start := rangeLow,
                   root := Ptr (Inner (stop t) (NewRangeTreeLeaf rangeHigh) (set_Ukey (start t) n) (depth n + 1))\<rparr>)
          else if rangeLow > stop t then
            Ret (t\<lparr>stop := rangeHigh,
                   root := Ptr (Inner rangeHigh n (NewRangeTreeLeaf rangeLow) (depth n + 1))\<rparr>)
          else
            (let hi = (if rangeHigh > stop t then rangeHigh else stop t);
                 n' = (if rangeHigh > stop t then set_Ukey hi n else n);
                 lo = (if rangeLow < start t then rangeLow else start t)
             in do { n'' \<leftarrow> node_AddRange n' lo rangeLow rangeHigh hi;
                     Ret (t\<lparr>start := lo, stop := hi, root := Ptr n''\<rparr>) }))"

definition DeleteRange :: "RangeTree \<Rightarrow> string \<Rightarrow> string \<Rightarrow> RangeTree go" where
  "DeleteRange t rangeLow rangeHigh =
     (case root t of
        Nil_ptr \<Rightarrow> Ret t
      | Ptr n \<Rightarrow>
          if rangeHigh < rangeLow \<or> rangeHigh < start t \<or> rangeLow > stop t then Ret t
          else
            do { (n', lo, hi) \<leftarrow> node_DeleteRange n (start t)
                   (if rangeLow < start t then start t else rangeLow)
                   (if rangeHigh > stop t then stop t else rangeHigh) (stop t);
                 Ret (t\<lparr>start := lo, stop := hi, root := n'\<rparr>) })"

definition Range :: "RangeTree \<Rightarrow> (string \<times> string) list" where
  "Range t = (case root t of Nil_ptr \<Rightarrow> [] | Ptr n \<Rightarrow> node_Range n [] (start t) (stop t))"

fun AddRanges :: "RangeTree \<Rightarrow> (string \<times> string) list \<Rightarrow> RangeTree go" where
  "AddRanges t [] = Ret t"
| "AddRanges t ((lo, hi) # ps) = do { t' \<leftarrow> AddRange t lo hi; AddRanges t' ps }"

definition Add :: "RangeTree \<Rightarrow> RangeTree \<Rightarrow> RangeTree go" where
  "Add t other = AddRanges t (Range other)"

text \<open>\<open>strings.Split\<close> with a one-character separator.\<close>

fun Split :: "char \<Rightarrow> string \<Rightarrow> string list" where
  "Split sep [] = [[]]"
| "Split sep (c # cs) =
     (if c = sep then [] # Split sep cs
      else case Split sep cs of [] \<Rightarrow> [[c]] | w # ws \<Rightarrow> (c # w) # ws)"

text \<open>\<open>strings.Split(subString[1:len(subString)-1], ",")\<close> and the two components the caller reads.\<close>

definition parse_pair :: "string \<Rightarrow> (string \<times> string) go" where
  "parse_pair subString =
     do { inner \<leftarrow> go_slice subString 1 (int (length subString) - 1);
          lo \<leftarrow> go_index (Split (CHR '','') inner) 0;
          hi \<leftarrow> go_index (Split (CHR '','') inner) 1;
          Ret (lo, hi) }"

definition NewRangeTreeFromString :: "string \<Rightarrow> RangeTree go" where
  "NewRangeTreeFromString s =
     do { ps \<leftarrow> those (map parse_pair (Split (CHR ''+'') s)); AddRanges NewRangeTree ps }"

section \<open>Abstraction and invariant\<close>

fun rt_set :: "RangeTreeNode \<Rightarrow> string \<Rightarrow> string \<Rightarrow> string set" where
  "rt_set (Leaf u d) lo hi = {lo..<hi}"
| "rt_set (Inner u l r d) lo hi = rt_set l lo (Ukey l) \<union> rt_set r (Ukey r) hi"

text \<open>
  The bounds of the children are ordered; with the flag set, no leaf stands for an empty range.
\<close>

fun rt_wf :: "bool \<Rightarrow> string \<Rightarrow> string \<Rightarrow> RangeTreeNode \<Rightarrow> bool" where
  "rt_wf s lo hi (Leaf u d) = (if s then lo < hi else lo \<le> hi)"
| "rt_wf s lo hi (Inner u l r d) =
     (rt_wf s lo (Ukey l) l \<and> Ukey l \<le> Ukey r \<and> rt_wf s (Ukey r) hi r)"

definition tree_wf :: "bool \<Rightarrow> RangeTree \<Rightarrow> bool" where
  "tree_wf s t =
     (case root t of Nil_ptr \<Rightarrow> True | Ptr n \<Rightarrow> Ukey n = stop t \<and> rt_wf s (start t) (stop t) n)"

definition tree_set :: "RangeTree \<Rightarrow> string set" where
  "tree_set t = (case root t of Nil_ptr \<Rightarrow> {} | Ptr n \<Rightarrow> rt_set n (start t) (stop t))"

lemma Ukey_set_Ukey [simp]: "Ukey (set_Ukey k t) = k"
  by (cases t) auto

lemma rt_set_set_Ukey [simp]: "rt_set (set_Ukey k t) = rt_set t"
  by (cases t) (auto intro!: ext)

lemma rt_wf_set_Ukey [simp]: "rt_wf s lo hi (set_Ukey k t) = rt_wf s lo hi t"
  by (cases t) auto

lemma IsLeaf_iff: "IsLeaf t \<longleftrightarrow> (\<exists>u d. t = Leaf u d)"
  by (cases t) (auto simp: IsLeaf_def)

lemma rt_wf_le: "rt_wf s lo hi t \<Longrightarrow> lo \<le> hi"
proof (induction t arbitrary: lo hi)
  case (Inner u l r d)
  then show ?case by (meson order_trans rt_wf.simps(2))
qed (auto split: if_splits)

lemma rt_wf_less: "rt_wf True lo hi t \<Longrightarrow> lo < hi"
  by (induction t arbitrary: lo hi) fastforce+

lemma rt_wf_weaken: "rt_wf s lo hi t \<Longrightarrow> rt_wf False lo hi t"
  by (induction t arbitrary: lo hi) (auto split: if_splits)

lemma rt_set_bounds: "rt_wf s lo hi t \<Longrightarrow> rt_set t lo hi \<subseteq> {lo..<hi}"
proof (induction t arbitrary: lo hi)
  case (Inner u l r d)
  then have "lo \<le> Ukey l" "Ukey r \<le> hi" by (auto dest: rt_wf_le)
  with Inner show ?case by fastforce
qed auto

lemma ivl_below: "A \<subseteq> {a..<b} \<Longrightarrow> (b::'a::linorder) \<le> c \<Longrightarrow> A \<inter> {c..<d} = {}"
  by fastforce

lemma ivl_above: "A \<subseteq> {a..<b} \<Longrightarrow> (d::'a::linorder) \<le> a \<Longrightarrow> A \<inter> {c..<d} = {}"
  by fastforce

lemma ivl_join: "(a::'a::linorder) \<le> b \<Longrightarrow> b \<le> c \<Longrightarrow> {a..<b} \<union> {b..<c} = {a..<c}"
  by (rule ivl_disj_un_two(3))

text \<open>Moving the upper bound of a node up, or its lower bound down, extends its outermost range.\<close>

lemma rt_extend_hi:
  "rt_wf s lo hi t \<Longrightarrow> hi \<le> hi' \<Longrightarrow> rt_wf s lo hi' t \<and> rt_set t lo hi' = rt_set t lo hi \<union> {hi..<hi'}"
proof (induction t arbitrary: lo hi)
  case (Leaf u d)
  then show ?case using ivl_join [of lo hi hi'] by (auto split: if_splits)
next
  case (Inner u l r d)
  then show ?case by (auto simp: Un_assoc)
qed

lemma rt_extend_lo:
  "rt_wf s lo hi t \<Longrightarrow> lo' \<le> lo \<Longrightarrow> rt_wf s lo' hi t \<and> rt_set t lo' hi = rt_set t lo hi \<union> {lo'..<lo}"
proof (induction t arbitrary: lo hi)
  case (Leaf u d)
  then show ?case using ivl_join [of lo' lo hi] by (auto split: if_splits)
next
  case (Inner u l r d)
  then show ?case by auto
qed

lemma fix_node_keeps:
  assumes "rt_wf s lo hi (Inner u l r d)"
  shows "rt_wf s lo hi (fix_node (Inner u l r d)) \<and> Ukey (fix_node (Inner u l r d)) = u \<and>
    rt_set (fix_node (Inner u l r d)) lo hi = rt_set (Inner u l r d) lo hi"
proof (cases "IsLeaf l \<and> IsLeaf r \<and> Ukey l = Ukey r")
  case True
  then obtain a b c where "l = Leaf a b" "r = Leaf a c" by (auto simp: IsLeaf_iff)
  with assms show ?thesis using ivl_join [of lo a hi] by (auto simp: IsLeaf_def split: if_splits)
next
  case False
  with assms show ?thesis by auto
qed

declare fix_node.simps [simp del]

definition adds :: "bool \<Rightarrow> RangeTreeNode \<Rightarrow> RangeTreeNode go \<Rightarrow> string \<Rightarrow> string \<Rightarrow> string \<Rightarrow> string \<Rightarrow> bool" where
  "adds s t res lo rl rh hi \<longleftrightarrow>
     (\<exists>t'. res = Ret t' \<and> Ukey t' = Ukey t \<and> rt_wf s lo hi t' \<and> rt_set t' lo hi = rt_set t lo hi \<union> {rl..<rh})"

lemma adds_Inner:
  assumes "rt_wf s lo hi (Inner u l' r' d)"
    and "rt_set l' lo (Ukey l') \<union> rt_set r' (Ukey r') hi = rt_set (Inner u l r d) lo hi \<union> {rl..<rh}"
  shows "adds s (Inner u l r d) (Ret (fix_node (Inner u l' r' d))) lo rl rh hi"
  using fix_node_keeps [OF assms(1)] assms(2) by (auto simp: adds_def)

lemma addsE:
  assumes "adds s t res lo rl rh hi"
  obtains t' where "res = Ret t'" "Ukey t' = Ukey t" "rt_wf s lo hi t'"
    "rt_set t' lo hi = rt_set t lo hi \<union> {rl..<rh}"
  using assms by (auto simp: adds_def)

lemma ivl_join3: "(a::'a::linorder) \<le> b \<Longrightarrow> b \<le> c \<Longrightarrow> c \<le> d \<Longrightarrow> {a..<b} \<union> {b..<c} \<union> {c..<d} = {a..<d}"
  using ivl_join [of a b c] ivl_join [of a c d] by simp

text \<open>
  Case 1 of \<open>AddRange\<close>: the added range covers the gap between the children, which is closed by
  moving the bound of the shallower child.
\<close>

lemma AddRange_gap:
  assumes l': "adds s l (Ret l') low rl (Ukey l) (Ukey l)" and r': "adds s r (Ret r') (Ukey r) (Ukey r) rh high"
    and le: "rl \<le> Ukey l" "Ukey l \<le> Ukey r" "Ukey r \<le> rh"
  shows "adds s (Inner u l r d)
    (Ret (fix_node (if depth l' < depth r' then Inner u (set_Ukey (Ukey r') l') r' d
                    else Inner u l' (set_Ukey (Ukey l') r') d))) low rl rh high"
proof -
  have l: "Ukey l' = Ukey l" "rt_wf s low (Ukey l) l'" "rt_set l' low (Ukey l) = rt_set l low (Ukey l) \<union> {rl..<Ukey l}"
    and r: "Ukey r' = Ukey r" "rt_wf s (Ukey r) high r'" "rt_set r' (Ukey r) high = rt_set r (Ukey r) high \<union> {Ukey r..<rh}"
    using l' r' by (auto simp: adds_def)
  have join: "{rl..<Ukey l} \<union> {Ukey l..<Ukey r} \<union> {Ukey r..<rh} = {rl..<rh}"
    using le by (rule ivl_join3)
  have hi: "rt_wf s low (Ukey r) l'" "rt_set l' low (Ukey r) = rt_set l' low (Ukey l) \<union> {Ukey l..<Ukey r}"
    using rt_extend_hi [OF l(2) le(2)] by auto
  have lo: "rt_wf s (Ukey l) high r'" "rt_set r' (Ukey l) high = rt_set r' (Ukey r) high \<union> {Ukey l..<Ukey r}"
    using rt_extend_lo [OF r(2) le(2)] by auto
  have "adds s (Inner u l r d) (Ret (fix_node (Inner u (set_Ukey (Ukey r') l') r' d))) low rl rh high"
    by (rule adds_Inner) (use l r hi join in auto)
  moreover have "adds s (Inner u l r d) (Ret (fix_node (Inner u l' (set_Ukey (Ukey l') r') d))) low rl rh high"
    by (rule adds_Inner) (use l r lo join in auto)
  ultimately show ?thesis by simp
qed

lemma range_cases:
  assumes "low \<le> rl" "rl \<le> rh" "rh \<le> high" "low \<le> a" "a \<le> b" "b \<le> high"
  shows "(strInRange rl low a \<and> strInRange rh b high) \<or> (strInRange rl low a \<and> strInRange rh low a) \<or>
    (strInRange rl b high \<and> strInRange rh b high) \<or> (strInRange rl a b \<and> strInRange rh b high) \<or>
    (strInRange rl low a \<and> strInRange rh a b) \<or> (strInRange rl a b \<and> strInRange rh a b)"
proof -
  have "rl \<le> a \<or> a \<le> rl" "rh \<le> a \<or> a \<le> rh" "rl \<le> b \<or> b \<le> rl" "rh \<le> b \<or> b \<le> rh" by auto
  then show ?thesis using assms unfolding strInRange_def by (elim disjE) force+
qed

lemma node_AddRange_adds:
  "rt_wf s lo hi t \<Longrightarrow> lo \<le> rl \<Longrightarrow> rl \<le> rh \<Longrightarrow> rh \<le> hi \<Longrightarrow> (s \<longrightarrow> rl < rh \<or> rl = lo \<or> rl = hi) \<Longrightarrow>
   adds s t (node_AddRange t lo rl rh hi) lo rl rh hi"
proof (induction t lo rl rh hi rule: node_AddRange.induct)
  case (1 u d low rl rh high)
  then show ?case by (auto simp: adds_def split: if_splits)
next
  case (2 u l r d low rl rh high)
  note wf = "2.prems"(1) [simplified]
  note ord = "2.prems"(2-4)
  have strict: "low < Ukey l \<and> Ukey r < high" if s using that wf rt_wf_less by auto
  let ?C1 = "strInRange rl low (Ukey l) \<and> strInRange rh (Ukey r) high"
  let ?C2 = "strInRange rl low (Ukey l) \<and> strInRange rh low (Ukey l)"
  let ?C3 = "strInRange rl (Ukey r) high \<and> strInRange rh (Ukey r) high"
  let ?C4 = "strInRange rl (Ukey l) (Ukey r) \<and> strInRange rh (Ukey r) high"
  let ?C5 = "strInRange rl low (Ukey l) \<and> strInRange rh (Ukey l) (Ukey r)"
  let ?C6 = "strInRange rl (Ukey l) (Ukey r) \<and> strInRange rh (Ukey l) (Ukey r)"
  have bounds: "low \<le> Ukey l" "Ukey r \<le> high" using wf rt_wf_le by auto
  consider (c1) ?C1 | (c2) "\<not> ?C1" ?C2 | (c3) "\<not> ?C1" "\<not> ?C2" ?C3 | (c4) "\<not> ?C1" "\<not> ?C2" "\<not> ?C3" ?C4
    | (c5) "\<not> ?C1" "\<not> ?C2" "\<not> ?C3" "\<not> ?C4" ?C5 | (c6) "\<not> ?C1" "\<not> ?C2" "\<not> ?C3" "\<not> ?C4" "\<not> ?C5" ?C6
    using range_cases [of low rl rh high "Ukey l" "Ukey r"] ord wf bounds by blast
  then show ?case
  proof cases
    case c1
    have l: "adds s l (node_AddRange l low rl (Ukey l) (Ukey l)) low rl (Ukey l) (Ukey l)"
      using "2.IH"(1) [OF c1] wf ord c1 by (auto simp: strInRange_def order.order_iff_strict)
    then obtain l' where l': "node_AddRange l low rl (Ukey l) (Ukey l) = Ret l'" by (rule addsE)
    have r: "adds s r (node_AddRange r (Ukey r) (Ukey r) rh high) (Ukey r) (Ukey r) rh high"
      using "2.IH"(2) [OF c1 l'] wf ord c1 by (auto simp: strInRange_def)
    then obtain r' where r': "node_AddRange r (Ukey r) (Ukey r) rh high = Ret r'" by (rule addsE)
    show ?thesis
      using c1 l' r' AddRange_gap [OF l [unfolded l'] r [unfolded r']] wf by (auto simp: strInRange_def)
  next
    case c2
    have "adds s l (node_AddRange l low rl rh (Ukey l)) low rl rh (Ukey l)"
      using "2.IH"(3) [OF c2] wf ord c2 "2.prems"(5) strict by (force simp: strInRange_def)
    then obtain l' where "node_AddRange l low rl rh (Ukey l) = Ret l'" "Ukey l' = Ukey l"
      "rt_wf s low (Ukey l) l'" "rt_set l' low (Ukey l) = rt_set l low (Ukey l) \<union> {rl..<rh}" by (rule addsE)
    then show ?thesis using c2 wf by (auto intro!: adds_Inner)
  next
    case c3
    have "adds s r (node_AddRange r (Ukey r) rl rh high) (Ukey r) rl rh high"
      using "2.IH"(4) [OF c3] wf ord c3 "2.prems"(5) strict by (force simp: strInRange_def)
    then obtain r' where "node_AddRange r (Ukey r) rl rh high = Ret r'" "Ukey r' = Ukey r"
      "rt_wf s (Ukey r) high r'" "rt_set r' (Ukey r) high = rt_set r (Ukey r) high \<union> {rl..<rh}" by (rule addsE)
    then show ?thesis using c3 wf by (auto intro!: adds_Inner)
  next
    case c4
    then have rl: "rl \<le> Ukey r" "Ukey l \<le> rl" "Ukey r \<le> rh" by (auto simp: strInRange_def)
    have ext: "rt_wf s rl high r" "rt_set r rl high = rt_set r (Ukey r) high \<union> {rl..<Ukey r}"
      using rt_extend_lo [OF _ rl(1)] wf by auto
    have "adds s (set_Ukey rl r) (node_AddRange (set_Ukey rl r) rl rl rh high) rl rl rh high"
      using "2.IH"(5) [OF c4] wf ord c4 ext by (auto simp: strInRange_def)
    then obtain r' where r': "node_AddRange (set_Ukey rl r) rl rl rh high = Ret r'" "Ukey r' = rl"
      "rt_wf s rl high r'" "rt_set r' rl high = rt_set r rl high \<union> {rl..<rh}" by (auto elim: addsE)
    have "adds s (Inner u l r d) (Ret (fix_node (Inner u l r' d))) low rl rh high"
      by (rule adds_Inner) (use wf r' rl ext ivl_join [of rl "Ukey r" rh] in auto)
    then show ?thesis using c4 r' by simp
  next
    case c5
    then have rh: "Ukey l \<le> rh" "rh \<le> Ukey r" "rl \<le> Ukey l" by (auto simp: strInRange_def)
    have ext: "rt_wf s low rh l" "rt_set l low rh = rt_set l low (Ukey l) \<union> {Ukey l..<rh}"
      using rt_extend_hi [OF _ rh(1)] wf by auto
    have "adds s (set_Ukey rh l) (node_AddRange (set_Ukey rh l) low rl rh rh) low rl rh rh"
      using "2.IH"(6) [OF c5] ext ord by (simp add: order.order_iff_strict) blast
    then obtain l' where l': "node_AddRange (set_Ukey rh l) low rl rh rh = Ret l'" "Ukey l' = rh"
      "rt_wf s low rh l'" "rt_set l' low rh = rt_set l low rh \<union> {rl..<rh}" by (auto elim: addsE)
    have "adds s (Inner u l r d) (Ret (fix_node (Inner u l' r d))) low rl rh high"
      by (rule adds_Inner) (use wf l' rh ext ivl_join [of rl "Ukey l" rh] in auto)
    then show ?thesis using c5 l' by simp
  next
    case c6
    then have le: "Ukey l \<le> rl" "rh \<le> Ukey r" by (auto simp: strInRange_def)
    have lt: "rl < rh" if s using that "2.prems"(5) strict le ord by force
    have "adds s (Inner u l r d)
        (Ret (fix_node (Inner u (Inner rh l (NewRangeTreeLeaf rl) (depth l + 1)) r d))) low rl rh high"
      by (rule adds_Inner) (use wf ord le lt in \<open>auto simp: NewRangeTreeLeaf_def\<close>)
    moreover have "adds s (Inner u l r d)
        (Ret (fix_node (Inner u l (Inner rl (NewRangeTreeLeaf rh) r (depth r + 1)) d))) low rl rh high"
      by (rule adds_Inner) (use wf ord le lt in \<open>auto simp: NewRangeTreeLeaf_def\<close>)
    ultimately show ?thesis using c6 by simp
  qed
qed

subsection \<open>Deletion\<close>

text \<open>What a deletion of the keys \<open>D\<close> must return for a node between \<open>lo\<close> and \<open>hi\<close>.\<close>

definition dels :: "RangeTreeNode \<Rightarrow> (RangeTreeNode ptr \<times> string \<times> string) go \<Rightarrow> string \<Rightarrow> string set \<Rightarrow> string \<Rightarrow> bool" where
  "dels t res lo D hi \<longleftrightarrow>
     (\<exists>t' lo' hi'. res = Ret (t', lo', hi') \<and>
        (case t' of
           Nil_ptr \<Rightarrow> rt_set t lo hi \<subseteq> D
         | Ptr n \<Rightarrow> lo \<le> lo' \<and> hi' \<le> hi \<and> rt_wf True lo' hi' n \<and> rt_set n lo' hi' = rt_set t lo hi - D \<and>
             (Ukey t = hi \<longrightarrow> Ukey n = hi') \<and> (Ukey t = lo \<longrightarrow> Ukey n = lo')))"

definition left_ok :: "RangeTreeNode \<Rightarrow> string \<Rightarrow> string set \<Rightarrow> RangeTreeNode ptr \<Rightarrow> string \<Rightarrow> bool" where
  "left_ok l low D lc lr =
     (case lc of
        Nil_ptr \<Rightarrow> rt_set l low (Ukey l) \<subseteq> D
      | Ptr l' \<Rightarrow> low \<le> lr \<and> Ukey l' \<le> Ukey l \<and> rt_wf True lr (Ukey l') l' \<and>
          rt_set l' lr (Ukey l') = rt_set l low (Ukey l) - D)"

definition right_ok :: "RangeTreeNode \<Rightarrow> string \<Rightarrow> string set \<Rightarrow> RangeTreeNode ptr \<Rightarrow> string \<Rightarrow> bool" where
  "right_ok r high D rc rr =
     (case rc of
        Nil_ptr \<Rightarrow> rt_set r (Ukey r) high \<subseteq> D
      | Ptr r' \<Rightarrow> rr \<le> high \<and> Ukey r \<le> Ukey r' \<and> rt_wf True (Ukey r') rr r' \<and>
          rt_set r' (Ukey r') rr = rt_set r (Ukey r) high - D)"

lemma left_ok_unchanged: "rt_wf True low (Ukey l) l \<Longrightarrow> rt_set l low (Ukey l) \<inter> D = {} \<Longrightarrow> left_ok l low D (Ptr l) low"
  by (auto simp: left_ok_def)

lemma right_ok_unchanged: "rt_wf True (Ukey r) high r \<Longrightarrow> rt_set r (Ukey r) high \<inter> D = {} \<Longrightarrow> right_ok r high D (Ptr r) high"
  by (auto simp: right_ok_def)

lemma dels_leftE:
  assumes "dels l res low D' (Ukey l)" "rt_wf True low (Ukey l) l" "\<And>k. k \<in> {low..<Ukey l} \<Longrightarrow> k \<in> D' \<longleftrightarrow> k \<in> D"
  obtains lc lr hi' where "res = Ret (lc, lr, hi')" "left_ok l low D lc lr"
proof -
  obtain lc lr hi' where res: "res = Ret (lc, lr, hi')" using assms(1) by (auto simp: dels_def)
  have "rt_set l low (Ukey l) - D' = rt_set l low (Ukey l) - D"
    and "rt_set l low (Ukey l) \<subseteq> D' \<longleftrightarrow> rt_set l low (Ukey l) \<subseteq> D"
    using rt_set_bounds [OF assms(2)] assms(3) by blast+
  then have "left_ok l low D lc lr"
    using assms(1) res by (auto simp: dels_def left_ok_def split: ptr.splits)
  then show thesis using that res by blast
qed

lemma dels_rightE:
  assumes "dels r res (Ukey r) D' high" "rt_wf True (Ukey r) high r" "\<And>k. k \<in> {Ukey r..<high} \<Longrightarrow> k \<in> D' \<longleftrightarrow> k \<in> D"
  obtains rc lo' rr where "res = Ret (rc, lo', rr)" "right_ok r high D rc rr"
proof -
  obtain rc lo' rr where res: "res = Ret (rc, lo', rr)" using assms(1) by (auto simp: dels_def)
  have "rt_set r (Ukey r) high - D' = rt_set r (Ukey r) high - D"
    and "rt_set r (Ukey r) high \<subseteq> D' \<longleftrightarrow> rt_set r (Ukey r) high \<subseteq> D"
    using rt_set_bounds [OF assms(2)] assms(3) by blast+
  then have "right_ok r high D rc rr"
    using assms(1) res by (auto simp: dels_def right_ok_def split: ptr.splits)
  then show thesis using that res by blast
qed

lemma delete_finish_dels:
  assumes wf: "rt_wf True low high (Inner u l r d)" and u: "u = high \<or> u = low"
    and l: "left_ok l low D lc lr" and r: "right_ok r high D rc rr"
  shows "dels (Inner u l r d) (delete_finish u lc rc d low high lr rr) low D high"
proof -
  have lt: "low < high" using rt_wf_less [OF wf] .
  have b: "low < Ukey l" "Ukey l \<le> Ukey r" "Ukey r < high" using wf rt_wf_less by auto
  show ?thesis
  proof (cases lc; cases rc)
    assume n: "lc = Nil_ptr" "rc = Nil_ptr"
    then show ?thesis using l r by (auto simp: dels_def delete_finish_def left_ok_def right_ok_def)
  next
    fix r' assume n: "lc = Nil_ptr" "rc = Ptr r'"
    then show ?thesis using l r u lt b
      by (auto simp: dels_def delete_finish_def left_ok_def right_ok_def Let_def)
  next
    fix l' assume n: "lc = Ptr l'" "rc = Nil_ptr"
    then show ?thesis using l r u lt b
      by (auto simp: dels_def delete_finish_def left_ok_def right_ok_def Let_def)
  next
    fix l' r' assume n: "lc = Ptr l'" "rc = Ptr r'"
    then show ?thesis using l r u lt b
      by (auto simp: dels_def delete_finish_def left_ok_def right_ok_def Let_def)
  qed
qed

lemma dels_leaf:
  assumes "low < high" "low \<le> rl" "rl \<le> rh" "rh \<le> high" "u = high \<or> u = low"
  shows "dels (Leaf u d) (node_DeleteRange (Leaf u d) low rl rh high) low {rl..<rh} high"
proof -
  have *: "rl < high" "low < rh" "low < rl" "rh < high" "rl < rh" "{low..<high} - {rl..<rh} = {low..<rl} \<union> {rh..<high}"
    if "rl \<noteq> low" "rh \<noteq> high" "rl \<noteq> rh" using that assms by (auto simp: not_less)
  show ?thesis
    using assms * by (auto simp: dels_def NewRangeTreeLeaf_def not_less)
qed

lemma node_DeleteRange_dels:
  "rt_wf True lo hi t \<Longrightarrow> lo \<le> rl \<Longrightarrow> rl \<le> rh \<Longrightarrow> rh \<le> hi \<Longrightarrow> Ukey t = hi \<or> Ukey t = lo \<Longrightarrow>
   dels t (node_DeleteRange t lo rl rh hi) lo {rl..<rh} hi"
proof (induction t arbitrary: lo rl rh hi)
  case (Leaf u d)
  then show ?case by (intro dels_leaf) auto
next
  case (Inner u l r d)
  note wf = Inner.prems(1) [simplified]
  note ord = Inner.prems(2-4)
  let ?D = "{rl..<rh}"
  have u: "u = hi \<or> u = lo" using Inner.prems(5) by simp
  have b: "lo < Ukey l" "Ukey l \<le> Ukey r" "Ukey r < hi" using wf rt_wf_less by auto
  have bl: "rt_set l lo (Ukey l) \<subseteq> {lo..<Ukey l}" and br: "rt_set r (Ukey r) hi \<subseteq> {Ukey r..<hi}"
    using wf rt_set_bounds [of True lo "Ukey l" l] rt_set_bounds [of True "Ukey r" hi r] by simp_all
  note finish = delete_finish_dels [OF Inner.prems(1) u]
  let ?C1 = "strInRange rl lo (Ukey l) \<and> strInRange rh (Ukey r) hi"
  let ?C2 = "strInRange rl lo (Ukey l) \<and> strInRange rh lo (Ukey l)"
  let ?C3 = "strInRange rl (Ukey r) hi \<and> strInRange rh (Ukey r) hi"
  let ?C4 = "strInRange rl (Ukey l) (Ukey r) \<and> strInRange rh (Ukey r) hi"
  let ?C5 = "strInRange rl lo (Ukey l) \<and> strInRange rh (Ukey l) (Ukey r)"
  consider (all) "rl = lo \<and> rh = hi" | (none) "\<not> (rl = lo \<and> rh = hi)" "rl = rh"
    | (step) "\<not> (rl = lo \<and> rh = hi)" "rl \<noteq> rh" by blast
  then show ?case
  proof cases
    case all
    then show ?thesis using rt_set_bounds [OF Inner.prems(1)] by (auto simp: dels_def)
  next
    case none
    then show ?thesis using Inner.prems(1) by (auto simp: dels_def)
  next
    case step
    then have lt: "rl < rh" using ord by auto
    consider (c1) ?C1 | (c2) "\<not> ?C1" ?C2 | (c3) "\<not> ?C1" "\<not> ?C2" ?C3 | (c4) "\<not> ?C1" "\<not> ?C2" "\<not> ?C3" ?C4
      | (c5) "\<not> ?C1" "\<not> ?C2" "\<not> ?C3" "\<not> ?C4" ?C5 | (c6) "\<not> ?C1" "\<not> ?C2" "\<not> ?C3" "\<not> ?C4" "\<not> ?C5"
      by blast
    then show ?thesis
    proof cases
      case c1
      then have le: "rl \<le> Ukey l" "Ukey r \<le> rh" by (auto simp: strInRange_def)
      have "dels l (node_DeleteRange l lo rl (Ukey l) (Ukey l)) lo {rl..<Ukey l} (Ukey l)"
        using wf ord le by (intro Inner.IH(1)) auto
      then obtain lc lr h' where L: "node_DeleteRange l lo rl (Ukey l) (Ukey l) = Ret (lc, lr, h')" "left_ok l lo ?D lc lr"
        by (rule dels_leftE [where D = ?D]) (use wf le b in auto)
      have "dels r (node_DeleteRange r (Ukey r) (Ukey r) rh hi) (Ukey r) {Ukey r..<rh} hi"
        using wf ord le by (intro Inner.IH(2)) auto
      then obtain rc l' rr where R: "node_DeleteRange r (Ukey r) (Ukey r) rh hi = Ret (rc, l', rr)" "right_ok r hi ?D rc rr"
        by (rule dels_rightE [where D = ?D]) (use wf le b in auto)
      show ?thesis using finish [OF L(2) R(2)] step c1 L(1) R(1) by auto
    next
      case c2
      then have le: "rl \<le> Ukey l" "rh \<le> Ukey l" by (auto simp: strInRange_def)
      have "dels l (node_DeleteRange l lo rl rh (Ukey l)) lo ?D (Ukey l)"
        using wf ord le by (intro Inner.IH(1)) auto
      then obtain lc lr h' where L: "node_DeleteRange l lo rl rh (Ukey l) = Ret (lc, lr, h')" "left_ok l lo ?D lc lr"
        by (rule dels_leftE [where D = ?D]) (use wf in auto)
      have "right_ok r hi ?D (Ptr r) hi" using wf ivl_above [OF br] le b by (intro right_ok_unchanged) auto
      then show ?thesis using finish [OF L(2)] step c2 L(1) by auto
    next
      case c3
      then have le: "Ukey r \<le> rl" "Ukey r \<le> rh" by (auto simp: strInRange_def)
      have "dels r (node_DeleteRange r (Ukey r) rl rh hi) (Ukey r) ?D hi"
        using wf ord le by (intro Inner.IH(2)) auto
      then obtain rc l' rr where R: "node_DeleteRange r (Ukey r) rl rh hi = Ret (rc, l', rr)" "right_ok r hi ?D rc rr"
        by (rule dels_rightE [where D = ?D]) (use wf in auto)
      have "left_ok l lo ?D (Ptr l) lo" using wf ivl_below [OF bl] le b by (intro left_ok_unchanged) auto
      then show ?thesis using finish [OF _ R(2)] step c3 R(1) by auto
    next
      case c4
      then have le: "Ukey l \<le> rl" "rl \<le> Ukey r" "Ukey r \<le> rh" by (auto simp: strInRange_def)
      have "dels r (node_DeleteRange r (Ukey r) (Ukey r) rh hi) (Ukey r) {Ukey r..<rh} hi"
        using wf ord le by (intro Inner.IH(2)) auto
      then obtain rc l' rr where R: "node_DeleteRange r (Ukey r) (Ukey r) rh hi = Ret (rc, l', rr)" "right_ok r hi ?D rc rr"
        by (rule dels_rightE [where D = ?D]) (use wf le in auto)
      have "left_ok l lo ?D (Ptr l) lo" using wf ivl_below [OF bl] le b by (intro left_ok_unchanged) auto
      then show ?thesis using finish [OF _ R(2)] step c4 R(1) by auto
    next
      case c5
      then have le: "rl \<le> Ukey l" "Ukey l \<le> rh" "rh \<le> Ukey r" by (auto simp: strInRange_def)
      have "dels l (node_DeleteRange l lo rl (Ukey l) (Ukey l)) lo {rl..<Ukey l} (Ukey l)"
        using wf ord le by (intro Inner.IH(1)) auto
      then obtain lc lr h' where L: "node_DeleteRange l lo rl (Ukey l) (Ukey l) = Ret (lc, lr, h')" "left_ok l lo ?D lc lr"
        by (rule dels_leftE [where D = ?D]) (use wf le b in auto)
      have "right_ok r hi ?D (Ptr r) hi" using wf ivl_above [OF br] le b by (intro right_ok_unchanged) auto
      then show ?thesis using finish [OF L(2)] step c5 L(1) by auto
    next
      case c6
      then have "strInRange rl (Ukey l) (Ukey r) \<and> strInRange rh (Ukey l) (Ukey r)"
        using range_cases [OF ord less_imp_le [OF b(1)] b(2) less_imp_le [OF b(3)]] by blast
      then have le: "Ukey l \<le> rl" "rh \<le> Ukey r" by (auto simp: strInRange_def)
      have "left_ok l lo ?D (Ptr l) lo" using wf ivl_below [OF bl] le b by (intro left_ok_unchanged) auto
      moreover have "right_ok r hi ?D (Ptr r) hi" using wf ivl_above [OF br] le b by (intro right_ok_unchanged) auto
      ultimately show ?thesis using finish step c6 by auto
    qed
  qed
qed

section \<open>Properties\<close>

lemma node_Search_iff: "rt_wf s lo hi t \<Longrightarrow> node_Search t p lo hi \<longleftrightarrow> p \<in> rt_set t lo hi"
proof (induction t arbitrary: lo hi)
  case (Inner u l r d)
  have "rt_set l lo (Ukey l) \<subseteq> {lo..<Ukey l}" "rt_set r (Ukey r) hi \<subseteq> {Ukey r..<hi}"
    using Inner.prems rt_set_bounds [of s lo "Ukey l" l] rt_set_bounds [of s "Ukey r" hi r] by simp_all
  then have "p \<in> rt_set l lo (Ukey l) \<Longrightarrow> p < Ukey l" "p \<in> rt_set r (Ukey r) hi \<Longrightarrow> Ukey r \<le> p" by auto
  with Inner show ?case by (auto simp: not_less)
qed (auto simp: strInRangeRightOpen_def)

lemma node_Range_append: "node_Range t acc lo hi = acc @ node_Range t [] lo hi"
proof (induction t arbitrary: acc lo hi)
  case (Inner u l r d)
  show ?case
    using Inner.IH(1) [of acc lo "Ukey l"] Inner.IH(2) [of "acc @ node_Range l [] lo (Ukey l)"]
      Inner.IH(2) [of "node_Range l [] lo (Ukey l)"] by simp
qed simp

lemma node_Range_set: "(\<Union>(a, b) \<in> set (node_Range t [] lo hi). {a..<b}) = rt_set t lo hi"
proof (induction t arbitrary: lo hi)
  case (Inner u l r d)
  then show ?case using node_Range_append [of r "node_Range l [] lo (Ukey l)"] by simp
qed simp

lemma AddRange_union:
  assumes "tree_wf s t" "s \<longrightarrow> lo < hi"
  shows "\<exists>t'. AddRange t lo hi = Ret t' \<and> tree_wf s t' \<and> tree_set t' = tree_set t \<union> {lo..<hi}"
proof (cases "hi < lo \<or> is_nil (root t)")
  case True
  then show ?thesis
    using assms by (cases "root t") (auto simp: AddRange_def tree_wf_def tree_set_def NewRangeTreeLeaf_def not_less)
next
  case False
  then obtain n where n: "root t = Ptr n" and le: "lo \<le> hi" by (cases "root t") auto
  then have wf: "Ukey n = stop t" "rt_wf s (start t) (stop t) n" using assms by (auto simp: tree_wf_def)
  consider (below) "hi < start t" | (above) "\<not> hi < start t" "stop t < lo"
    | (meet) "start t \<le> hi" "lo \<le> stop t" by fastforce
  then show ?thesis
  proof cases
    case below
    then show ?thesis
      using n wf le assms(2) by (auto simp: AddRange_def tree_wf_def tree_set_def NewRangeTreeLeaf_def not_less)
  next
    case above
    then show ?thesis
      using n wf le assms(2) by (auto simp: AddRange_def tree_wf_def tree_set_def NewRangeTreeLeaf_def not_less)
  next
    case meet
    define h where "h = (if hi > stop t then hi else stop t)"
    define l where "l = (if lo < start t then lo else start t)"
    define m where "m = (if hi > stop t then set_Ukey h n else n)"
    have hl: "stop t \<le> h" "hi \<le> h" "l \<le> start t" "l \<le> lo" by (auto simp: h_def l_def not_less)
    have 1: "rt_wf s (start t) h n" "rt_set n (start t) h = rt_set n (start t) (stop t) \<union> {stop t..<h}"
      using rt_extend_hi [OF wf(2) hl(1)] by auto
    have 2: "rt_wf s l h n" "rt_set n l h = rt_set n (start t) h \<union> {l..<start t}"
      using rt_extend_lo [OF 1(1) hl(3)] by auto
    have m: "rt_wf s l h m" "rt_set m l h = rt_set n l h" "Ukey m = h" using 2 wf by (auto simp: m_def h_def)
    have "adds s m (node_AddRange m l lo hi h) l lo hi h"
      using m hl le assms(2) by (intro node_AddRange_adds) auto
    then obtain m' where m': "node_AddRange m l lo hi h = Ret m'" "Ukey m' = h" "rt_wf s l h m'"
      "rt_set m' l h = rt_set m l h \<union> {lo..<hi}" using m(3) by (metis addsE)
    have sub: "{stop t..<h} \<subseteq> {lo..<hi}" "{l..<start t} \<subseteq> {lo..<hi}"
      using meet by (auto simp: h_def l_def)
    have "AddRange t lo hi = Ret (t\<lparr>start := l, stop := h, root := Ptr m'\<rparr>)"
      using n le meet m'(1) unfolding m_def h_def l_def
      by (cases "stop t < hi"; cases "lo < start t") (simp_all add: AddRange_def Let_def leD)
    then show ?thesis
      using n m' m(2) 1(2) 2(2) sub by (auto simp: tree_wf_def tree_set_def)
  qed
qed

lemma DeleteRange_minus:
  assumes "tree_wf True t" "lo \<le> hi"
  shows "\<exists>t'. DeleteRange t lo hi = Ret t' \<and> tree_wf True t' \<and> tree_set t' = tree_set t - {lo..<hi}"
proof (cases "is_nil (root t) \<or> hi < start t \<or> stop t < lo")
  case True
  then show ?thesis
  proof (cases "root t")
    case (Ptr n)
    then have "tree_set t \<subseteq> {start t..<stop t}"
      using assms(1) rt_set_bounds [of True "start t" "stop t" n] by (simp add: tree_wf_def tree_set_def)
    then have "tree_set t \<inter> {lo..<hi} = {}"
      using True Ptr ivl_below [of "tree_set t" "start t" "stop t" lo hi] ivl_above [of "tree_set t" "start t" "stop t" hi lo]
      by (metis is_nil_simps(2) less_imp_le)
    then have "tree_set t - {lo..<hi} = tree_set t" by blast
    then show ?thesis using True Ptr assms by (auto simp: DeleteRange_def)
  qed (use assms in \<open>auto simp: DeleteRange_def tree_set_def\<close>)
next
  case False
  then obtain n where n: "root t = Ptr n" by (cases "root t") auto
  then have wf: "Ukey n = stop t" "rt_wf True (start t) (stop t) n" using assms by (auto simp: tree_wf_def)
  define l where "l = (if lo < start t then start t else lo)"
  define h where "h = (if hi > stop t then stop t else hi)"
  have ord: "start t \<le> l" "l \<le> h" "h \<le> stop t"
    using False assms(2) rt_wf_less [OF wf(2)] by (auto simp: l_def h_def not_less)
  have "dels n (node_DeleteRange n (start t) l h (stop t)) (start t) {l..<h} (stop t)"
    using wf ord by (intro node_DeleteRange_dels) auto
  then obtain n' lo' hi' where d: "node_DeleteRange n (start t) l h (stop t) = Ret (n', lo', hi')"
    "dels n (Ret (n', lo', hi')) (start t) {l..<h} (stop t)" by (auto simp: dels_def)
  have same: "rt_set n (start t) (stop t) - {l..<h} = rt_set n (start t) (stop t) - {lo..<hi}"
  proof -
    have "{start t..<stop t} \<inter> {l..<h} = {start t..<stop t} \<inter> {lo..<hi}"
      by (auto simp: l_def h_def not_less)
    then show ?thesis using rt_set_bounds [OF wf(2)] by blast
  qed
  have "DeleteRange t lo hi = Ret (t\<lparr>start := lo', stop := hi', root := n'\<rparr>)"
    using False assms(2) n d(1) by (auto simp: DeleteRange_def l_def h_def)
  then show ?thesis
    using d(2) n same wf(1) by (auto simp: dels_def tree_wf_def tree_set_def split: ptr.splits)
qed

lemma AddRanges_union:
  assumes "tree_wf s t" "s \<longrightarrow> (\<forall>(lo, hi) \<in> set ps. lo < hi)"
  shows "\<exists>t'. AddRanges t ps = Ret t' \<and> tree_wf s t' \<and> tree_set t' = tree_set t \<union> (\<Union>(lo, hi) \<in> set ps. {lo..<hi})"
  using assms
proof (induction ps arbitrary: t)
  case (Cons p ps)
  obtain lo hi where p: "p = (lo, hi)" by (cases p)
  obtain t1 where t1: "AddRange t lo hi = Ret t1" "tree_wf s t1" "tree_set t1 = tree_set t \<union> {lo..<hi}"
    using AddRange_union [of s t lo hi] Cons.prems p by auto
  obtain t2 where "AddRanges t1 ps = Ret t2" "tree_wf s t2"
    "tree_set t2 = tree_set t1 \<union> (\<Union>(lo, hi) \<in> set ps. {lo..<hi})"
    using Cons.IH [OF t1(2)] Cons.prems p by auto
  then show ?case using t1 p by auto
qed auto

lemma NewRangeTree_empty [simp]: "tree_wf s NewRangeTree" "tree_set NewRangeTree = {}"
  by (auto simp: NewRangeTree_def tree_wf_def tree_set_def)

subsection \<open>The textual form of a list of ranges\<close>

lemma Split_no_sep: "sep \<notin> set s \<Longrightarrow> Split sep s = [s]"
  by (induction s) auto

lemma Split_append: "sep \<notin> set w \<Longrightarrow> Split sep (w @ sep # s) = w # Split sep s"
  by (induction w) auto

definition show_range :: "string \<times> string \<Rightarrow> string" where
  "show_range p = CHR ''['' # fst p @ CHR '','' # snd p @ [CHR '')'']"

fun show_ranges :: "(string \<times> string) list \<Rightarrow> string" where
  "show_ranges [] = []"
| "show_ranges [p] = show_range p"
| "show_ranges (p # q # ps) = show_range p @ CHR ''+'' # show_ranges (q # ps)"

definition plain_key :: "string \<Rightarrow> bool" where
  "plain_key s \<longleftrightarrow> CHR '','' \<notin> set s \<and> CHR ''+'' \<notin> set s"

lemma parse_show_range: "plain_key lo \<Longrightarrow> plain_key hi \<Longrightarrow> parse_pair (show_range (lo, hi)) = Ret (lo, hi)"
proof -
  assume p: "plain_key lo" "plain_key hi"
  have len: "nat (int (length (show_range (lo, hi))) - 1 - 1) = length (lo @ CHR '','' # hi)"
    by (simp add: show_range_def)
  have t: "take (length (lo @ CHR '','' # hi)) ((lo @ CHR '','' # hi) @ [CHR '')'']) = lo @ CHR '','' # hi"
    by (rule append_eq_conv_conj [THEN iffD1, THEN conjunct1, symmetric]) simp
  have d: "drop (nat 1) (show_range (lo, hi)) = (lo @ CHR '','' # hi) @ [CHR '')'']"
    by (simp add: show_range_def)
  have "go_slice (show_range (lo, hi)) 1 (int (length (show_range (lo, hi))) - 1) = Ret (lo @ CHR '','' # hi)"
    unfolding go_slice_def len d t by (simp add: show_range_def)
  then show ?thesis
    using p by (simp add: parse_pair_def go_index_def Split_append Split_no_sep plain_key_def)
qed

lemma show_range_no_plus: "plain_key lo \<Longrightarrow> plain_key hi \<Longrightarrow> CHR ''+'' \<notin> set (show_range (lo, hi))"
  by (auto simp: show_range_def plain_key_def)

lemma parse_show_ranges:
  "ps \<noteq> [] \<Longrightarrow> \<forall>(lo, hi) \<in> set ps. plain_key lo \<and> plain_key hi \<Longrightarrow>
   those (map parse_pair (Split (CHR ''+'') (show_ranges ps))) = Ret ps"
proof (induction ps rule: show_ranges.induct)
  case (2 p)
  then show ?case by (cases p) (auto simp: Split_no_sep show_range_no_plus parse_show_range)
next
  case (3 p q ps)
  then show ?case by (cases p) (auto simp: Split_append show_range_no_plus parse_show_range)
qed simp

lemmas tree_defs = tree_wf_def tree_set_def NewRangeTree_def NewRangeTreeLeaf_def

text \<open>On a well-formed range tree, \<open>Search p\<close> answers whether \<open>p\<close> lies in the set of keys the
  tree stands for.\<close>

theorem Search_iff_member: "tree_wf s t \<Longrightarrow> Search t p \<longleftrightarrow> p \<in> tree_set t"
  by (auto simp: Search_def tree_wf_def tree_set_def node_Search_iff split: ptr.splits)

definition demo_tree :: RangeTree where
  "demo_tree = \<lparr>start = ''b'', stop = ''k'', root = Ptr (Inner ''k'' (Leaf ''d'' 0) (Leaf ''g'' 0) 1)\<rparr>"

theorem Search_iff_member_witness:
  "tree_wf True demo_tree \<and> Search demo_tree ''c'' \<and> \<not> Search demo_tree ''e''"
proof -
  have "tree_wf True demo_tree" by (simp add: demo_tree_def tree_wf_def; code_simp)
  moreover have "''c'' \<in> tree_set demo_tree" "''e'' \<notin> tree_set demo_tree"
    by (simp_all add: demo_tree_def tree_set_def)
  ultimately show ?thesis by (simp add: Search_iff_member)
qed

text \<open>C38: adding a range to a well-formed tree never panics, keeps it well-formed, and makes the
  tree stand for the union of its old keys and the half-open range.\<close>

theorem AddRange_is_union:
  assumes "tree_wf s t" "s \<longrightarrow> lo < hi"
  shows "\<exists>t'. AddRange t lo hi = Ret t' \<and> tree_wf s t' \<and> tree_set t' = tree_set t \<union> {lo..<hi}"
  using assms by (rule AddRange_union)

theorem AddRange_is_union_witness:
  "\<exists>t'. AddRange demo_tree ''c'' ''h'' = Ret t' \<and> tree_wf True t' \<and> tree_set t' = tree_set demo_tree \<union> {''c''..<''h''}"
  by (rule AddRange_is_union) (simp_all add: demo_tree_def tree_wf_def)

text \<open>C39: on a tree without empty leaves, deleting a range never panics, leaves no empty leaf, and
  removes exactly the keys of the half-open range.\<close>

theorem DeleteRange_is_difference:
  assumes "tree_wf True t" "lo \<le> hi"
  shows "\<exists>t'. DeleteRange t lo hi = Ret t' \<and> tree_wf True t' \<and> tree_set t' = tree_set t - {lo..<hi}"
  using assms by (rule DeleteRange_minus)

theorem DeleteRange_is_difference_witness:
  "\<exists>t'. DeleteRange demo_tree ''c'' ''h'' = Ret t' \<and> tree_wf True t' \<and> tree_set t' = tree_set demo_tree - {''c''..<''h''}"
  by (rule DeleteRange_is_difference) (simp_all add: demo_tree_def tree_wf_def)

text \<open>Parsing the string \<open>[lo,hi)+[lo,hi)+...\<close> of a non-empty list of ranges over keys without
  \<open>,\<close> and \<open>+\<close> succeeds, and the tree answers membership in the union of the ranges.\<close>

theorem NewRangeTreeFromString_parses:
  assumes "ps \<noteq> []" "\<forall>(lo, hi) \<in> set ps. plain_key lo \<and> plain_key hi"
  shows "\<exists>t. NewRangeTreeFromString (show_ranges ps) = Ret t \<and>
             (\<forall>p. Search t p \<longleftrightarrow> (\<exists>(lo, hi) \<in> set ps. lo \<le> p \<and> p < hi))"
proof -
  obtain t where "AddRanges NewRangeTree ps = Ret t" "tree_wf False t"
    "tree_set t = (\<Union>(lo, hi) \<in> set ps. {lo..<hi})"
    using AddRanges_union [of False NewRangeTree ps] by auto
  moreover have "Search t p \<longleftrightarrow> p \<in> tree_set t" for p
    using calculation(2) by (auto simp: Search_def tree_wf_def tree_set_def node_Search_iff split: ptr.splits)
  moreover have "p \<in> (\<Union>(lo, hi) \<in> set ps. {lo..<hi}) \<longleftrightarrow> (\<exists>(lo, hi) \<in> set ps. lo \<le> p \<and> p < hi)" for p
    by (simp add: case_prod_beta)
  ultimately show ?thesis
    using parse_show_ranges [OF assms] by (simp add: NewRangeTreeFromString_def)
qed

theorem NewRangeTreeFromString_parses_witness:
  "\<exists>t. NewRangeTreeFromString ''[a,c)+[f,g)'' = Ret t \<and> Search t ''b'' \<and> \<not> Search t ''d''"
proof -
  let ?ps = "[(''a'', ''c''), (''f'', ''g'')]"
  have t: "show_ranges ?ps = ''[a,c)+[f,g)''" by (simp add: show_range_def)
  obtain t where "NewRangeTreeFromString (show_ranges ?ps) = Ret t"
    "\<forall>p. Search t p \<longleftrightarrow> (\<exists>(lo, hi) \<in> set ?ps. lo \<le> p \<and> p < hi)"
    using NewRangeTreeFromString_parses [of ?ps] by (auto simp: plain_key_def)
  then show ?thesis unfolding t by auto
qed

text \<open>The list of ranges printed by \<open>Range\<close> covers exactly the keys of the tree, so adding one
  tree to another (\<open>Add\<close>) is the union of their key sets.\<close>

theorem Add_is_union:
  assumes "tree_wf False t"
  shows "\<exists>t'. Add t other = Ret t' \<and> tree_wf False t' \<and> tree_set t' = tree_set t \<union> tree_set other"
proof -
  have "(\<Union>(lo, hi) \<in> set (Range other). {lo..<hi}) = tree_set other"
    by (auto simp: Range_def tree_set_def node_Range_set split: ptr.splits)
  then show ?thesis using AddRanges_union [of False t "Range other"] assms by (simp add: Add_def)
qed

theorem Add_is_union_witness:
  "\<exists>t'. Add NewRangeTree demo_tree = Ret t' \<and> tree_wf False t' \<and> tree_set t' = tree_set NewRangeTree \<union> tree_set demo_tree"
  by (rule Add_is_union) simp

end
