(* ===== verification/BankDB.thy ===== *)
theory BankDB
  imports ShardInfos Store Convert RangeTrees
begin

text \<open>
  Model of \<open>melete/abci/minibank/memdb.go\<close>: the balances a node reads and writes while it executes the
  transactions of a block. A \<open>MemoryDB\<close> buffers the writes and reads of one transaction over the
  writes of the committed ones over the persistent store; \<open>RangeDB\<close> restricts it to a shard's key
  range and \<open>CrossShardDB\<close> reads from the data of a cross-shard block instead. The store is shared by
  the databases of a block and passed beside them; Go maps are association lists whose order is the
  iteration order. The locale \<open>balances\<close> is what transaction execution relies on; it is interpreted on
  all three databases.
\<close>

section \<open>Errors\<close>

datatype BankError =
  OutOfShardRange | NotInCrossShardData string | ShortTx | TxUnmarshal string | UndefinedTxType
| LengthMismatch | EmptyTransfer | MoneyMismatch | KeyIsLocked | NotEnough | KeyAlreadyLocked | KeyAlreadyExists
| StoreError DBError

section \<open>The memory database\<close>

definition initBalance :: "32 word" where
  "initBalance = 1000000"

record MemoryDB =
  memDB :: "(string, 32 word) gomap"
  writeBuffer :: "(string, 32 word) gomap"
  readBuffer :: "(string, 32 word) gomap"

definition NewMemoryDB :: MemoryDB where
  "NewMemoryDB = \<lparr>memDB = [], writeBuffer = [], readBuffer = []\<rparr>"

text \<open>A missing account, and one the store cannot read, has the initial balance; no error is returned.\<close>

definition MemoryDB_Get :: "kv \<Rightarrow> string \<Rightarrow> MemoryDB \<Rightarrow> ((BankError + 32 word) \<times> MemoryDB) go" where
  "MemoryDB_Get db key m =
     (case m_get (writeBuffer m) key of Some out \<Rightarrow> Ret (Inr out, m)
      | None \<Rightarrow>
     (case m_get (readBuffer m) key of Some out \<Rightarrow> Ret (Inr out, m)
      | None \<Rightarrow>
     (case m_get (memDB m) key of Some out \<Rightarrow> Ret (Inr out, m\<lparr>readBuffer := m_put key out (readBuffer m)\<rparr>)
      | None \<Rightarrow>
     (case store_Get db (str_bytes key) of
        Inl _ \<Rightarrow> Ret (Inr initBalance, m\<lparr>readBuffer := m_put key initBalance (readBuffer m)\<rparr>)
      | Inr p \<Rightarrow>
          if slice_bytes p = [] then Ret (Inr initBalance, m\<lparr>readBuffer := m_put key initBalance (readBuffer m)\<rparr>)
          else do { amount \<leftarrow> BytesToUint32 (slice_bytes p);
                    Ret (Inr amount, m\<lparr>memDB := m_put key amount (memDB m), readBuffer := m_put key amount (readBuffer m)\<rparr>) }))))"

text \<open>\<open>Has\<close> on a key of \<open>memDB\<close> that has not been read records a read of 0.\<close>

definition MemoryDB_Has :: "kv \<Rightarrow> string \<Rightarrow> MemoryDB \<Rightarrow> (BankError + bool) \<times> MemoryDB" where
  "MemoryDB_Has db key m =
     (if m_has (writeBuffer m) key then (Inr True, m)
      else if m_has (memDB m) key then
        (Inr True, if (case m_get (readBuffer m) key of None \<Rightarrow> 0 | Some v \<Rightarrow> v) = 0
                   then m\<lparr>readBuffer := m_put key 0 (readBuffer m)\<rparr> else m)
      else (case store_Has db (str_bytes key) of Inl e \<Rightarrow> Inl (StoreError e) | Inr b \<Rightarrow> Inr b, m))"

definition MemoryDB_Set :: "string \<Rightarrow> 32 word \<Rightarrow> MemoryDB \<Rightarrow> BankError ptr \<times> MemoryDB" where
  "MemoryDB_Set key value m = (Nil_ptr, m\<lparr>writeBuffer := m_put key value (writeBuffer m)\<rparr>)"

definition GetReadSet :: "MemoryDB \<Rightarrow> (string, 32 word) gomap" where
  "GetReadSet m = readBuffer m"

definition GetWriteSet :: "MemoryDB \<Rightarrow> (string, 32 word) gomap" where
  "GetWriteSet m = writeBuffer m"

definition CommitWrite :: "bool \<Rightarrow> MemoryDB \<Rightarrow> MemoryDB" where
  "CommitWrite do_commit m =
     m\<lparr>memDB := (if do_commit then fold (\<lambda>(key, value). m_put key value) (writeBuffer m) (memDB m) else memDB m),
       writeBuffer := [], readBuffer := []\<rparr>"

definition clearMemory :: "MemoryDB \<Rightarrow> MemoryDB" where
  "clearMemory m = m\<lparr>memDB := []\<rparr>"

text \<open>The loop that fills the batch; a \<open>RangeDB\<close> skips the keys outside its range.\<close>

fun fill_batch :: "(string \<Rightarrow> bool) \<Rightarrow> (string, 32 word) gomap \<Rightarrow> batch \<Rightarrow> DBError ptr \<times> batch" where
  "fill_batch keep [] b = (Nil_ptr, b)"
| "fill_batch keep ((key, value) # rest) b =
     (if keep key then
        (case pbatch_Set b (str_bytes key) (Ptr (Uint32ToBytes value)) of
           (Ptr e, b') \<Rightarrow> (Ptr e, b')
         | (Nil_ptr, b') \<Rightarrow> fill_batch keep rest b')
      else fill_batch keep rest b)"

definition write_out :: "(string \<Rightarrow> bool) \<Rightarrow> kv \<Rightarrow> MemoryDB \<Rightarrow> BankError ptr \<times> kv \<times> MemoryDB" where
  "write_out keep db m =
     (case fill_batch keep (memDB m) db_NewBatch of
        (Ptr e, _) \<Rightarrow> (Ptr (StoreError e), db, m)
      | (Nil_ptr, b) \<Rightarrow>
          (case pbatch_Write db b of
             (Ptr e, db', _) \<Rightarrow> (Ptr (StoreError e), db', m)
           | (Nil_ptr, db', _) \<Rightarrow> (Nil_ptr, db', clearMemory m)))"

definition MemoryDB_Write :: "kv \<Rightarrow> MemoryDB \<Rightarrow> BankError ptr \<times> kv \<times> MemoryDB" where
  "MemoryDB_Write db m = write_out (\<lambda>_. True) db m"

section \<open>The range database\<close>

text \<open>A \<open>RangeDB\<close> is a \<open>MemoryDB\<close> beside the tree of its key range; a nil tree panics.\<close>

definition RangeDB_Get :: "kv \<Rightarrow> RangeTree ptr \<Rightarrow> string \<Rightarrow> MemoryDB \<Rightarrow> ((BankError + 32 word) \<times> MemoryDB) go" where
  "RangeDB_Get db tree key m =
     (case tree of Nil_ptr \<Rightarrow> Panic
      | Ptr t \<Rightarrow> if \<not> RangeTrees.Search t key then Ret (Inl OutOfShardRange, m) else MemoryDB_Get db key m)"

definition RangeDB_Has :: "kv \<Rightarrow> RangeTree ptr \<Rightarrow> string \<Rightarrow> MemoryDB \<Rightarrow> ((BankError + bool) \<times> MemoryDB) go" where
  "RangeDB_Has db tree key m =
     (case tree of Nil_ptr \<Rightarrow> Panic
      | Ptr t \<Rightarrow> if \<not> RangeTrees.Search t key then Ret (Inl OutOfShardRange, m) else Ret (MemoryDB_Has db key m))"

definition RangeDB_Set :: "RangeTree ptr \<Rightarrow> string \<Rightarrow> 32 word \<Rightarrow> MemoryDB \<Rightarrow> (BankError ptr \<times> MemoryDB) go" where
  "RangeDB_Set tree key value m =
     (case tree of Nil_ptr \<Rightarrow> Panic
      | Ptr t \<Rightarrow> if \<not> RangeTrees.Search t key then Ret (Ptr OutOfShardRange, m) else Ret (MemoryDB_Set key value m))"

text \<open>With an empty \<open>memDB\<close> the tree is not looked at.\<close>

definition RangeDB_Write :: "kv \<Rightarrow> RangeTree ptr \<Rightarrow> MemoryDB \<Rightarrow> (BankError ptr \<times> kv \<times> MemoryDB) go" where
  "RangeDB_Write db tree m =
     (case tree of
        Nil_ptr \<Rightarrow> if memDB m = [] then Ret (write_out (\<lambda>_. True) db m) else Panic
      | Ptr t \<Rightarrow> Ret (write_out (RangeTrees.Search t) db m))"

section \<open>The cross-shard database\<close>

type_synonym csdata = "(string, 32 word) gomap"

definition CrossShardDB_Get :: "csdata \<Rightarrow> string \<Rightarrow> MemoryDB \<Rightarrow> (BankError + 32 word) \<times> MemoryDB" where
  "CrossShardDB_Get crossShardData key m =
     (case m_get (writeBuffer m) key of Some out \<Rightarrow> (Inr out, m)
      | None \<Rightarrow> (case m_get crossShardData key of None \<Rightarrow> (Inl (NotInCrossShardData key), m) | Some bz \<Rightarrow> (Inr bz, m)))"

definition CrossShardDB_Has :: "csdata \<Rightarrow> string \<Rightarrow> MemoryDB \<Rightarrow> (BankError + bool) \<times> MemoryDB" where
  "CrossShardDB_Has crossShardData key m =
     (if m_has (writeBuffer m) key then (Inr True, m) else (Inr (m_has crossShardData key), m))"

definition CrossShardDB_Set :: "string \<Rightarrow> 32 word \<Rightarrow> MemoryDB \<Rightarrow> BankError ptr \<times> MemoryDB" where
  "CrossShardDB_Set key value m = MemoryDB_Set key value m"

section \<open>The interface \<open>GetSetMemDB\<close>\<close>

text \<open>The method table a transaction is executed with.\<close>

record GetSetMemDB =
  g_Get :: "string \<Rightarrow> MemoryDB \<Rightarrow> ((BankError + 32 word) \<times> MemoryDB) go"
  g_Has :: "string \<Rightarrow> MemoryDB \<Rightarrow> ((BankError + bool) \<times> MemoryDB) go"
  g_Set :: "string \<Rightarrow> 32 word \<Rightarrow> MemoryDB \<Rightarrow> (BankError ptr \<times> MemoryDB) go"

definition memory_db :: "kv \<Rightarrow> GetSetMemDB" where
  "memory_db db = \<lparr>g_Get = MemoryDB_Get db, g_Has = (\<lambda>k m. Ret (MemoryDB_Has db k m)), g_Set = (\<lambda>k v m. Ret (MemoryDB_Set k v m))\<rparr>"

definition range_db :: "kv \<Rightarrow> RangeTree ptr \<Rightarrow> GetSetMemDB" where
  "range_db db tree = \<lparr>g_Get = RangeDB_Get db tree, g_Has = RangeDB_Has db tree, g_Set = RangeDB_Set tree\<rparr>"

definition cross_db :: "csdata \<Rightarrow> GetSetMemDB" where
  "cross_db data = \<lparr>g_Get = (\<lambda>k m. Ret (CrossShardDB_Get data k m)), g_Has = (\<lambda>k m. Ret (CrossShardDB_Has data k m)),
     g_Set = (\<lambda>k v m. Ret (CrossShardDB_Set k v m))\<rparr>"

section \<open>The contract of the databases\<close>

text \<open>
  What transaction execution relies on: every account has a balance or is out of reach, reading does
  not change balances, and a write is seen by later reads and recorded in the write buffer; \<open>base\<close> is
  the part of the state a transaction leaves alone until it is committed.
\<close>

locale balances =
  fixes G :: GetSetMemDB and look :: "MemoryDB \<Rightarrow> string \<Rightarrow> 32 word option" and settable :: "string \<Rightarrow> bool"
    and inv :: "MemoryDB \<Rightarrow> bool" and base :: "MemoryDB \<Rightarrow> 'b" and recorded :: "MemoryDB \<Rightarrow> string set"
  assumes get_found: "inv m \<Longrightarrow> look m k = Some v \<Longrightarrow>
      \<exists>m'. g_Get G k m = Ret (Inr v, m') \<and> inv m' \<and> look m' = look m \<and> writeBuffer m' = writeBuffer m \<and> base m' = base m \<and>
        recorded m \<subseteq> recorded m' \<and> (m_get (writeBuffer m) k = None \<longrightarrow> k \<in> recorded m')"
    and get_missing: "inv m \<Longrightarrow> look m k = None \<Longrightarrow> \<exists>e. g_Get G k m = Ret (Inl e, m)"
    and set_ok: "inv m \<Longrightarrow> settable k \<Longrightarrow>
      \<exists>m'. g_Set G k v m = Ret (Nil_ptr, m') \<and> inv m' \<and> look m' = (look m)(k \<mapsto> v) \<and>
        writeBuffer m' = m_put k v (writeBuffer m) \<and> base m' = base m \<and> recorded m' = recorded m"
    and set_bad: "inv m \<Longrightarrow> \<not> settable k \<Longrightarrow> \<exists>e. g_Set G k v m = Ret (Ptr e, m)"
    and look_settable: "inv m \<Longrightarrow> look m k = Some v \<Longrightarrow> settable k"

text \<open>The accounts of a base, as changed by the write buffer; a missing account has the initial balance.\<close>

definition overlay :: "(string \<rightharpoonup> 32 word) \<Rightarrow> MemoryDB \<Rightarrow> string \<rightharpoonup> 32 word" where
  "overlay b m = b ++ m_get (writeBuffer m)"

text \<open>
  A database that keeps accounts: \<open>Has\<close> tells whether an account exists, and \<open>CommitWrite\<close> makes the
  buffered writes part of the accounts or drops them. \<open>usable\<close> is what remains of the invariant when
  \<open>Has\<close> has recorded a wrong read; the transaction then fails and the buffers are dropped.
\<close>

locale accounts = balances G look settable inv base recorded
  for G look settable inv and base :: "MemoryDB \<Rightarrow> string \<Rightarrow> 32 word option" and recorded +
  fixes usable :: "MemoryDB \<Rightarrow> bool"
  assumes look_account: "inv m \<Longrightarrow> look m k = (if settable k then Some (map_get initBalance (overlay (base m) m) k) else None)"
    and inv_usable: "inv m \<Longrightarrow> usable m"
    and has_account: "inv m \<Longrightarrow> settable k \<Longrightarrow> overlay (base m) m k = Some v \<Longrightarrow>
      \<exists>m'. g_Has G k m = Ret (Inr True, m') \<and> usable m' \<and> base m' = base m"
    and has_none: "inv m \<Longrightarrow> settable k \<Longrightarrow> overlay (base m) m k = None \<Longrightarrow> g_Has G k m = Ret (Inr False, m)"
    and has_out: "inv m \<Longrightarrow> \<not> settable k \<Longrightarrow> \<exists>e. g_Has G k m = Ret (Inl e, m)"
    and commit: "usable m \<Longrightarrow> inv (CommitWrite c m) \<and> base (CommitWrite c m) = (if c then overlay (base m) m else base m)"

section \<open>The databases fulfil it\<close>

text \<open>A store that is accessible and whose data are four-byte balances; the accounts it holds.\<close>

definition kv_ok :: "kv \<Rightarrow> bool" where
  "kv_ok db \<longleftrightarrow> (\<forall>k. \<not> failing db k) \<and> (\<forall>k v. contents db (toDataKey k) = Some v \<longrightarrow> length v = 4)"

definition stored :: "kv \<Rightarrow> string \<rightharpoonup> 32 word" where
  "stored db key = (case contents db (toDataKey (str_bytes key)) of None \<Rightarrow> None | Some bz \<Rightarrow> BytesToUint32 bz)"

definition committed :: "kv \<Rightarrow> MemoryDB \<Rightarrow> string \<rightharpoonup> 32 word" where
  "committed db m = stored db ++ m_get (memDB m)"

definition mem_usable :: "kv \<Rightarrow> MemoryDB \<Rightarrow> bool" where
  "mem_usable db m \<longleftrightarrow> kv_ok db \<and> distinct (m_keys (memDB m)) \<and> distinct (m_keys (writeBuffer m))"

definition mem_inv :: "kv \<Rightarrow> MemoryDB \<Rightarrow> bool" where
  "mem_inv db m \<longleftrightarrow> mem_usable db m \<and> (\<forall>k v. m_get (readBuffer m) k = Some v \<longrightarrow> v = map_get initBalance (committed db m) k)"

definition reach_look :: "(string \<Rightarrow> bool) \<Rightarrow> kv \<Rightarrow> MemoryDB \<Rightarrow> string \<rightharpoonup> 32 word" where
  "reach_look ok db m k = (if ok k then Some (map_get initBalance (overlay (committed db m) m) k) else None)"

lemma BytesToUint32_four: "length bz = 4 \<Longrightarrow> \<exists>v. BytesToUint32 bz = Ret v"
  by (simp add: BytesToUint32_def le_get_def)

lemma store_Get_ok: "kv_ok db \<Longrightarrow> store_Get db key = Inr (case contents db (toDataKey key) of None \<Rightarrow> Nil_ptr | Some v \<Rightarrow> Ptr v)"
  by (simp add: store_Get_def db_Get_def kv_ok_def)

lemma store_Has_ok: "kv_ok db \<Longrightarrow> store_Has db key = Inr (contents db (toDataKey key) \<noteq> None)"
  by (simp add: store_Has_def db_Has_def kv_ok_def)

lemma stored_None_iff: "kv_ok db \<Longrightarrow> stored db k = None \<longleftrightarrow> contents db (toDataKey (str_bytes k)) = None"
proof -
  assume "kv_ok db"
  then have "contents db (toDataKey (str_bytes k)) = Some v \<Longrightarrow> \<exists>w. BytesToUint32 v = Ret w" for v
    using BytesToUint32_four by (simp add: kv_ok_def)
  then show ?thesis by (auto simp: stored_def split: option.splits)
qed


definition reads :: "MemoryDB \<Rightarrow> string set" where
  "reads m = dom (m_get (readBuffer m))"

lemma committed_get: "m_get (memDB m) k = Some v \<Longrightarrow> map_get initBalance (committed db m) k = v"
  "m_get (memDB m) k = None \<Longrightarrow> map_get initBalance (committed db m) k = map_get initBalance (stored db) k"
  by (simp_all add: committed_def map_get_def map_add_def)

lemma MemoryDB_Get_ok:
  assumes "mem_inv db m"
  shows "\<exists>m'. MemoryDB_Get db k m = Ret (Inr (map_get initBalance (overlay (committed db m) m) k), m') \<and> mem_inv db m' \<and>
    writeBuffer m' = writeBuffer m \<and> committed db m' = committed db m \<and>
    reads m \<subseteq> reads m' \<and> (m_get (writeBuffer m) k = None \<longrightarrow> k \<in> reads m')"
proof (cases "m_get (writeBuffer m) k")
  case (Some v)
  then show ?thesis using assms by (simp add: MemoryDB_Get_def overlay_def map_get_def)
next
  case wb: None
  then have o: "map_get initBalance (overlay (committed db m) m) k = map_get initBalance (committed db m) k"
    by (simp add: overlay_def map_get_def map_add_def)
  have ok: "kv_ok db" using assms by (simp add: mem_inv_def mem_usable_def)
  show ?thesis
  proof (cases "m_get (readBuffer m) k")
    case (Some v)
    then show ?thesis using assms wb o by (auto simp: MemoryDB_Get_def mem_inv_def reads_def)
  next
    case rb: None
    let ?v = "map_get initBalance (committed db m) k"
    show ?thesis
    proof (cases "m_get (memDB m) k")
      case (Some v)
      then have "?v = v" by (rule committed_get)
      then show ?thesis using assms wb rb o Some
        by (auto simp: MemoryDB_Get_def mem_inv_def mem_usable_def committed_def update_conv' reads_def)
    next
      case md: None
      show ?thesis
      proof (cases "contents db (toDataKey (str_bytes k))")
        case None
        then have "?v = initBalance" using md by (simp add: committed_def map_get_def map_add_def stored_def)
        then show ?thesis using assms wb rb md None o ok
          by (auto simp: MemoryDB_Get_def store_Get_ok slice_bytes_def mem_inv_def mem_usable_def committed_def update_conv' reads_def)
      next
        case (Some bz)
        then have "length bz = 4" using ok by (simp add: kv_ok_def)
        then obtain v where v: "BytesToUint32 bz = Ret v" "bz \<noteq> []" using BytesToUint32_four [of bz] by fastforce
        then have st: "stored db k = Some v" using Some by (simp add: stored_def)
        then have "?v = v" using md by (simp add: committed_def map_get_def map_add_def)
        moreover have "stored db ++ (m_get (memDB m))(k \<mapsto> v) = stored db ++ m_get (memDB m)"
          using st md by (auto simp: map_add_def fun_eq_iff)
        ultimately show ?thesis using assms wb rb md Some o ok v
          by (auto simp: MemoryDB_Get_def store_Get_ok slice_bytes_def mem_inv_def mem_usable_def committed_def update_conv' reads_def
              distinct_update)
      qed
    qed
  qed
qed

lemma MemoryDB_Set_ok:
  assumes "mem_inv db m"
  shows "mem_inv db (snd (MemoryDB_Set k v m))" "fst (MemoryDB_Set k v m) = Nil_ptr"
    "writeBuffer (snd (MemoryDB_Set k v m)) = m_put k v (writeBuffer m)"
    "committed db (snd (MemoryDB_Set k v m)) = committed db m" "reads (snd (MemoryDB_Set k v m)) = reads m"
    "overlay b (snd (MemoryDB_Set k v m)) = (overlay b m)(k \<mapsto> v)"
  using assms by (simp_all add: MemoryDB_Set_def mem_inv_def mem_usable_def committed_def reads_def overlay_def distinct_update update_conv')

lemma MemoryDB_Has_ok:
  assumes "mem_inv db m"
  shows "\<exists>m'. MemoryDB_Has db k m = (Inr (overlay (committed db m) m k \<noteq> None), m') \<and> mem_usable db m' \<and> committed db m' = committed db m \<and>
    (overlay (committed db m) m k = None \<longrightarrow> m' = m)"
proof -
  have ok: "kv_ok db" using assms by (simp add: mem_inv_def mem_usable_def)
  show ?thesis using assms stored_None_iff [OF ok, of k]
    by (auto simp: MemoryDB_Has_def m_has_def overlay_def committed_def map_add_def store_Has_ok [OF ok] mem_inv_def mem_usable_def
        split: option.splits)
qed

lemma map_of_fold_put: "map_of (fold (\<lambda>(key, value). m_put key value) ws xs) = map_of xs ++ map_of (rev ws)"
  by (induction ws arbitrary: xs) (auto simp: update_conv' map_add_def fun_eq_iff split: option.splits)

lemma distinct_fold_put: "distinct (m_keys xs) \<Longrightarrow> distinct (m_keys (fold (\<lambda>(key, value). m_put key value) ws xs))"
  by (induction ws arbitrary: xs) (auto simp: distinct_update)

lemma map_of_rev: "distinct (m_keys ws) \<Longrightarrow> map_of (rev ws) = map_of ws"
  by (metis distinct_rev map_of_inject_set rev_map set_rev)

lemma CommitWrite_ok:
  assumes "mem_usable db m"
  shows "mem_inv db (CommitWrite c m)" "committed db (CommitWrite c m) = (if c then overlay (committed db m) m else committed db m)"
    "writeBuffer (CommitWrite c m) = []" "readBuffer (CommitWrite c m) = []"
proof -
  have d: "distinct (m_keys (writeBuffer m))" using assms by (simp add: mem_usable_def)
  show "mem_inv db (CommitWrite c m)" using assms by (simp add: mem_inv_def mem_usable_def CommitWrite_def distinct_fold_put)
  show "committed db (CommitWrite c m) = (if c then overlay (committed db m) m else committed db m)"
    using map_of_rev [OF d] by (simp add: committed_def CommitWrite_def overlay_def map_of_fold_put)
qed (simp_all add: CommitWrite_def)

text \<open>The three databases.\<close>


lemma reach_look_cong: "writeBuffer m' = writeBuffer m \<Longrightarrow> committed db m' = committed db m \<Longrightarrow> reach_look ok db m' = reach_look ok db m"
  by (rule ext) (simp add: reach_look_def overlay_def)

lemma reach_look_Set: "ok k \<Longrightarrow> reach_look ok db (snd (MemoryDB_Set k v m)) = (reach_look ok db m)(k \<mapsto> v)"
  by (simp add: reach_look_def fun_eq_iff MemoryDB_Set_def overlay_def update_conv' map_get_def committed_def)

lemma reach_get:
  assumes "mem_inv db m" "reach_look ok db m k = Some v"
  shows "\<exists>m'. MemoryDB_Get db k m = Ret (Inr v, m') \<and> mem_inv db m' \<and> reach_look ok db m' = reach_look ok db m \<and>
    writeBuffer m' = writeBuffer m \<and> committed db m' = committed db m \<and> reads m \<subseteq> reads m' \<and>
    (m_get (writeBuffer m) k = None \<longrightarrow> k \<in> reads m')"
proof -
  have "v = map_get initBalance (overlay (committed db m) m) k" using assms(2) by (simp add: reach_look_def split: if_splits)
  then show ?thesis using MemoryDB_Get_ok [OF assms(1), of k] reach_look_cong by metis
qed

lemma reach_set:
  assumes "mem_inv db m" "ok k"
  shows "\<exists>m'. MemoryDB_Set k v m = (Nil_ptr, m') \<and> mem_inv db m' \<and> reach_look ok db m' = (reach_look ok db m)(k \<mapsto> v) \<and>
    writeBuffer m' = m_put k v (writeBuffer m) \<and> committed db m' = committed db m \<and> reads m' = reads m"
  using MemoryDB_Set_ok [OF assms(1), where k = k and v = v] reach_look_Set [of ok k db v m] assms(2) by (cases "MemoryDB_Set k v m") simp

lemma reach_has:
  assumes "mem_inv db m" "overlay (committed db m) m k = Some v"
  shows "\<exists>m'. MemoryDB_Has db k m = (Inr True, m') \<and> mem_usable db m' \<and> committed db m' = committed db m"
  using MemoryDB_Has_ok [OF assms(1), of k] assms(2) by auto

lemma reach_has_none: "mem_inv db m \<Longrightarrow> overlay (committed db m) m k = None \<Longrightarrow> MemoryDB_Has db k m = (Inr False, m)"
  using MemoryDB_Has_ok [of db m k] by auto


lemma usable_commit: "mem_usable db m \<Longrightarrow> mem_usable db (CommitWrite c m)"
  using CommitWrite_ok(1) by (simp add: mem_inv_def)

interpretation memory: accounts "memory_db db" "reach_look (\<lambda>_. True) db" "\<lambda>_. True" "mem_inv db" "committed db" reads "mem_usable db" for db
proof unfold_locales
  fix m k v assume "mem_inv db m" "reach_look (\<lambda>_. True) db m k = Some v"
  then show "\<exists>m'. g_Get (memory_db db) k m = Ret (Inr v, m') \<and> mem_inv db m' \<and> reach_look (\<lambda>_. True) db m' = reach_look (\<lambda>_. True) db m \<and>
      writeBuffer m' = writeBuffer m \<and> committed db m' = committed db m \<and> reads m \<subseteq> reads m' \<and> (m_get (writeBuffer m) k = None \<longrightarrow> k \<in> reads m')"
    using reach_get by (simp add: memory_db_def)
next
  fix m k v assume "mem_inv db m"
  then show "\<exists>m'. g_Set (memory_db db) k v m = Ret (Nil_ptr, m') \<and> mem_inv db m' \<and>
      reach_look (\<lambda>_. True) db m' = (reach_look (\<lambda>_. True) db m)(k \<mapsto> v) \<and> writeBuffer m' = m_put k v (writeBuffer m) \<and>
      committed db m' = committed db m \<and> reads m' = reads m"
    using reach_set [of db m "\<lambda>_. True" k v] by (simp add: memory_db_def)
next
  fix m k v assume "mem_inv db m" "overlay (committed db m) m k = Some v"
  then show "\<exists>m'. g_Has (memory_db db) k m = Ret (Inr True, m') \<and> mem_usable db m' \<and> committed db m' = committed db m"
    using reach_has by (simp add: memory_db_def)
next
  fix m k assume "mem_inv db m" "overlay (committed db m) m k = None"
  then show "g_Has (memory_db db) k m = Ret (Inr False, m)" by (simp add: memory_db_def reach_has_none)
qed (auto simp: memory_db_def reach_look_def mem_inv_def CommitWrite_ok usable_commit)

interpretation range: accounts "range_db db (Ptr t)" "reach_look (RangeTrees.Search t) db" "RangeTrees.Search t" "mem_inv db"
  "committed db" reads "mem_usable db" for db t
proof unfold_locales
  fix m k v assume "mem_inv db m" "reach_look (RangeTrees.Search t) db m k = Some v"
  then show "\<exists>m'. g_Get (range_db db (Ptr t)) k m = Ret (Inr v, m') \<and> mem_inv db m' \<and>
      reach_look (RangeTrees.Search t) db m' = reach_look (RangeTrees.Search t) db m \<and>
      writeBuffer m' = writeBuffer m \<and> committed db m' = committed db m \<and> reads m \<subseteq> reads m' \<and> (m_get (writeBuffer m) k = None \<longrightarrow> k \<in> reads m')"
    using reach_get [of db m "RangeTrees.Search t" k v] by (auto simp: range_db_def RangeDB_Get_def reach_look_def [of _ _ m k] split: if_splits)
next
  fix m k v assume "mem_inv db m" "RangeTrees.Search t k"
  then show "\<exists>m'. g_Set (range_db db (Ptr t)) k v m = Ret (Nil_ptr, m') \<and> mem_inv db m' \<and>
      reach_look (RangeTrees.Search t) db m' = (reach_look (RangeTrees.Search t) db m)(k \<mapsto> v) \<and> writeBuffer m' = m_put k v (writeBuffer m) \<and>
      committed db m' = committed db m \<and> reads m' = reads m"
    using reach_set [of db m "RangeTrees.Search t" k v] by (auto simp: range_db_def RangeDB_Set_def)
next
  fix m k v assume "mem_inv db m" "RangeTrees.Search t k" "overlay (committed db m) m k = Some v"
  then show "\<exists>m'. g_Has (range_db db (Ptr t)) k m = Ret (Inr True, m') \<and> mem_usable db m' \<and> committed db m' = committed db m"
    using reach_has [of db m k v] by (auto simp: range_db_def RangeDB_Has_def)
next
  fix m k assume "mem_inv db m" "RangeTrees.Search t k" "overlay (committed db m) m k = None"
  then show "g_Has (range_db db (Ptr t)) k m = Ret (Inr False, m)" by (simp add: range_db_def RangeDB_Has_def reach_has_none)
qed (auto simp: range_db_def RangeDB_Get_def RangeDB_Has_def RangeDB_Set_def reach_look_def mem_inv_def CommitWrite_ok usable_commit split: if_splits)

definition cross_look :: "csdata \<Rightarrow> MemoryDB \<Rightarrow> string \<rightharpoonup> 32 word" where
  "cross_look data m = overlay (m_get data) m"

interpretation cross: balances "cross_db data" "cross_look data" "\<lambda>_. True" "\<lambda>_. True" memDB "\<lambda>_. UNIV" for data
  by unfold_locales
    (auto simp: cross_db_def CrossShardDB_Get_def CrossShardDB_Set_def MemoryDB_Set_def cross_look_def overlay_def update_conv'
      map_add_def fun_eq_iff split: option.splits)

section \<open>Writing to the store\<close>

lemma fill_batch_ok:
  "fill_batch keep ms (Some ops) = (Nil_ptr, Some (ops @ map (\<lambda>(k, v). opTypeSet (toDataKey (str_bytes k)) (Uint32ToBytes v)) (filter (keep \<circ> fst) ms)))"
  by (induction keep ms "Some ops" arbitrary: ops rule: fill_batch.induct) (auto simp: pbatch_Set_def batch_Set_def)

lemma apply_sets:
  "foldl apply_op c (map (\<lambda>(k, v). opTypeSet (toDataKey (str_bytes k)) (Uint32ToBytes v)) ms) (toDataKey (str_bytes x)) =
     (case m_get (rev ms) x of None \<Rightarrow> c (toDataKey (str_bytes x)) | Some v \<Rightarrow> Some (Uint32ToBytes v))"
  by (induction ms arbitrary: c) (auto simp: map_add_def str_bytes_inject split: option.splits)

lemma apply_sets_other:
  "(\<And>x. x \<in> fst ` set ms \<Longrightarrow> y \<noteq> toDataKey (str_bytes x)) \<Longrightarrow>
     foldl apply_op c (map (\<lambda>(k, v). opTypeSet (toDataKey (str_bytes k)) (Uint32ToBytes v)) ms) y = c y"
  by (induction ms arbitrary: c) auto

lemma map_of_filter_fst: "map_of (filter (keep \<circ> fst) ms) x = (if keep x then map_of ms x else None)"
  by (induction ms) auto

text \<open>Writing a usable database succeeds; the keys kept get their committed value, all others their old one.\<close>

lemma write_out_ok:
  assumes "mem_usable db m"
  shows "\<exists>db'. write_out keep db m = (Nil_ptr, db', clearMemory m) \<and> kv_ok db' \<and>
    (\<forall>k. stored db' k = (if keep k then committed db m k else stored db k)) \<and>
    (\<forall>y. (\<forall>k. keep k \<longrightarrow> y \<noteq> toDataKey (str_bytes k)) \<longrightarrow> contents db' y = contents db y)"
proof -
  let ?ms = "filter (keep \<circ> fst) (memDB m)"
  let ?ops = "map (\<lambda>(k, v). opTypeSet (toDataKey (str_bytes k)) (Uint32ToBytes v)) ?ms"
  let ?db = "db\<lparr>contents := foldl apply_op (contents db) ?ops\<rparr>"
  have ok: "kv_ok db" and d: "distinct (m_keys (memDB m))" using assms by (simp_all add: mem_usable_def)
  have nf: "\<not> list_ex (failing db \<circ> op_key) ?ops" using ok by (auto simp: kv_ok_def list_ex_iff)
  have w: "write_out keep db m = (Nil_ptr, ?db, clearMemory m)"
    using fill_batch_ok [of keep "memDB m" "[]"] nf by (simp add: write_out_def db_NewBatch_def pbatch_Write_def batch_Write_def)
  have "distinct (m_keys ?ms)" using d by (simp add: distinct_map_filter)
  then have r: "m_get (rev ?ms) x = (if keep x then m_get (memDB m) x else None)" for x
    using map_of_rev [of ?ms] by (simp add: map_of_filter_fst)
  have c: "contents ?db (toDataKey (str_bytes x)) =
      (case if keep x then m_get (memDB m) x else None of None \<Rightarrow> contents db (toDataKey (str_bytes x)) | Some v \<Rightarrow> Some (Uint32ToBytes v))" for x
    using apply_sets [of "contents db" ?ms x] r by simp
  have b: "BytesToUint32 (Uint32ToBytes v) = Ret v" for v by (simp add: BytesToUint32_def Uint32ToBytes_def)
  have s: "stored ?db k = (if keep k then committed db m k else stored db k)" for k
    unfolding stored_def c by (auto simp: committed_def map_add_def stored_def b split: option.splits)
  have l: "length (Uint32ToBytes v) = 4" for v by (simp add: Uint32ToBytes_def)
  have k: "kv_ok ?db" unfolding kv_ok_def
  proof (intro conjI allI impI)
    fix x show "\<not> failing ?db x" using ok by (simp add: kv_ok_def)
  next
    fix x v assume "contents ?db (toDataKey x) = Some v"
    then show "length v = 4" using c [of "bytes_str x"] ok l by (auto simp: kv_ok_def split: option.splits if_splits)
  qed
  have o: "contents ?db y = contents db y" if "\<forall>k. keep k \<longrightarrow> y \<noteq> toDataKey (str_bytes k)" for y
    using that by (auto intro!: apply_sets_other)
  show ?thesis using w s k o by blast
qed

end
