(* ===== verification/Bank.thy ===== *)
theory Bank
  imports BankDB Txs Blocks
begin

text \<open>
  Model of \<open>melete/abci/minibank/types.go\<close> and \<open>bank.go\<close>: the banking application of a node. Its
  transactions, their validation and execution over the databases of \<open>memdb.go\<close>, the pre-execution of
  cross-shard transactions at a boundary shard and at its inner shards, and the execution of a height.
  The blocks of a height are executed by goroutines that share nothing but the store, the response
  (under a mutex) and the lists the consensus fixed before; here they run in the order of the list.
  Console output is not modelled.
\<close>

section \<open>Transactions\<close>

record pb_TransferTx =
  From :: "string list"
  To :: "string list"
  FromMoney :: "32 word list"
  ToMoney :: "32 word list"
  tx_Buffer :: bytes
  tx_Time :: "Timestamp ptr"

record pb_InsertTx =
  Account :: string
  Money :: "32 word"
  ins_Buffer :: bytes
  ins_Time :: "Timestamp ptr"

record pb_BankData =
  bd_Keys :: "string list"
  bd_OK :: bool
  bd_Values :: "32 word list"

text \<open>The protobuf library, with the texts of its errors and of those of the store.\<close>

record bank_lib =
  transfer_codec :: "pb_TransferTx codec"
  insert_codec :: "pb_InsertTx codec"
  data_codec :: "pb_BankData codec"
  lib_time :: time_marshal
  unmarshal_text :: "bytes \<Rightarrow> string"
  store_text :: "DBError \<Rightarrow> string"

definition TxTransfer :: "32 word" where "TxTransfer = 10"
definition TxInsert :: "32 word" where "TxInsert = 11"

definition TransferBytes :: "bank_lib \<Rightarrow> pb_TransferTx \<Rightarrow> bytes go" where
  "TransferBytes L tx = do { bz \<leftarrow> MustProtoBytes (transfer_codec L) tx; Ret (Uint32ToBytes TxTransfer @ bz) }"

definition InsertBytes :: "bank_lib \<Rightarrow> pb_InsertTx \<Rightarrow> bytes go" where
  "InsertBytes L tx = do { bz \<leftarrow> MustProtoBytes (insert_codec L) tx; Ret (Uint32ToBytes TxInsert @ bz) }"

definition TransferTxSize :: "bank_lib \<Rightarrow> pb_TransferTx \<Rightarrow> int go" where
  "TransferTxSize L tx = do { bz \<leftarrow> TransferBytes L tx; Ret (int (length bz)) }"

definition InsertTxSize :: "bank_lib \<Rightarrow> pb_InsertTx \<Rightarrow> int go" where
  "InsertTxSize L tx = do { bz \<leftarrow> InsertBytes L tx; Ret (int (length bz)) }"

definition GenerateRandomBytes :: "int \<Rightarrow> bytes" where
  "GenerateRandomBytes n = replicate (nat n) 48"

definition NewTransferTx :: "GoTime \<Rightarrow> string list \<Rightarrow> 32 word list \<Rightarrow> string list \<Rightarrow> 32 word list \<Rightarrow> pb_TransferTx" where
  "NewTransferTx now froms fromMoney tos toMoney =
     \<lparr>From = froms, To = tos, FromMoney = fromMoney, ToMoney = toMoney, tx_Buffer = [], tx_Time = Ptr (ThirdPartyProtoTime now)\<rparr>"

definition NewTransferTxMustLen ::
  "bank_lib \<Rightarrow> GoTime \<Rightarrow> string list \<Rightarrow> 32 word list \<Rightarrow> string list \<Rightarrow> 32 word list \<Rightarrow> int \<Rightarrow> pb_TransferTx go" where
  "NewTransferTxMustLen L now froms fromMoney tos toMoney mustLen =
     (let tx = NewTransferTx now froms fromMoney tos toMoney
      in do { n \<leftarrow> TransferTxSize L tx;
              Ret (if mustLen - n > 0 then tx\<lparr>tx_Buffer := GenerateRandomBytes (mustLen - n)\<rparr> else tx) })"

definition NewInsertTx :: "GoTime \<Rightarrow> string \<Rightarrow> 32 word \<Rightarrow> pb_InsertTx" where
  "NewInsertTx now account money =
     \<lparr>Account = account, Money = money, ins_Buffer = [], ins_Time = Ptr (ThirdPartyProtoTime now)\<rparr>"

definition NewInsertTxMustLen :: "bank_lib \<Rightarrow> GoTime \<Rightarrow> string \<Rightarrow> 32 word \<Rightarrow> int \<Rightarrow> pb_InsertTx go" where
  "NewInsertTxMustLen L now account money mustLen =
     (let tx = NewInsertTx now account money
      in do { n \<leftarrow> InsertTxSize L tx;
              Ret (if mustLen - n > 0 then tx\<lparr>ins_Buffer := GenerateRandomBytes (mustLen - n)\<rparr> else tx) })"

text \<open>The sums are \<open>uint32\<close> and wrap around.\<close>

definition ValidateTransferTx :: "pb_TransferTx \<Rightarrow> BankError ptr" where
  "ValidateTransferTx tx =
     (if length (From tx) \<noteq> length (FromMoney tx) \<or> length (To tx) \<noteq> length (ToMoney tx) then Ptr LengthMismatch
      else if From tx = [] \<or> To tx = [] then Ptr EmptyTransfer
      else if foldl (+) 0 (FromMoney tx) \<noteq> foldl (+) 0 (ToMoney tx) then Ptr MoneyMismatch
      else Nil_ptr)"

text \<open>\<open>txBytes[4:]\<close> panics when there are fewer than four bytes.\<close>

definition NewTransferTxFromBytes :: "bank_lib \<Rightarrow> bytes \<Rightarrow> (BankError + pb_TransferTx) go" where
  "NewTransferTxFromBytes L txBytes =
     do { bz \<leftarrow> go_slice txBytes 4 (int (length txBytes));
          Ret (case Unmarshal (transfer_codec L) bz of None \<Rightarrow> Inl (TxUnmarshal (unmarshal_text L bz)) | Some tx \<Rightarrow> Inr tx) }"

section \<open>Cross-shard data\<close>

fun data_loop :: "string list \<Rightarrow> 32 word list \<Rightarrow> int \<Rightarrow> csdata \<Rightarrow> csdata go" where
  "data_loop [] vals i outMap = Ret outMap"
| "data_loop (key # keys) vals i outMap = do { v \<leftarrow> go_index vals i; data_loop keys vals (i + 1) (m_put key v outMap) }"

definition NewCrossShardDataFromBytes :: "bank_lib \<Rightarrow> bytes \<Rightarrow> (BankError + csdata \<times> bool) go" where
  "NewCrossShardDataFromBytes L bz =
     (case Unmarshal (data_codec L) bz of
        None \<Rightarrow> Ret (Inl (TxUnmarshal (unmarshal_text L bz)))
      | Some bd \<Rightarrow> do { outMap \<leftarrow> data_loop (bd_Keys bd) (bd_Values bd) 0 []; Ret (Inr (outMap, bd_OK bd)) })"

definition CrossShardDataBytes :: "bank_lib \<Rightarrow> csdata \<Rightarrow> bool \<Rightarrow> bytes go" where
  "CrossShardDataBytes L data ok =
     (let keyList = sort (m_keys data)
      in MustProtoBytes (data_codec L)
           \<lparr>bd_Keys = keyList, bd_OK = ok, bd_Values = map (map_get 0 (m_get data)) keyList\<rparr>)"

section \<open>Executing a transaction\<close>

text \<open>The loops of \<open>doTransfer\<close>.\<close>

fun read_froms ::
  "GetSetMemDB \<Rightarrow> (string \<Rightarrow> bool) \<Rightarrow> string list \<Rightarrow> 32 word list \<Rightarrow> MemoryDB \<Rightarrow> ((BankError + 32 word list) \<times> MemoryDB) go" where
  "read_froms G locked [] ms m = Ret (Inr [], m)"
| "read_froms G locked (fromKey # ks) ms m =
     (if locked fromKey then Ret (Inl KeyIsLocked, m)
      else do { (r, m1) \<leftarrow> g_Get G fromKey m;
                case r of
                  Inl e \<Rightarrow> Ret (Inl e, m1)
                | Inr balance \<Rightarrow>
                    do { money \<leftarrow> go_index ms 0;
                         if balance < money then Ret (Inl NotEnough, m1)
                         else do { (rest, m2) \<leftarrow> read_froms G locked ks (tl ms) m1;
                                   Ret (map_sum id ((#) (balance - money)) rest, m2) } } })"

fun read_tos ::
  "GetSetMemDB \<Rightarrow> (string \<Rightarrow> bool) \<Rightarrow> string list \<Rightarrow> 32 word list \<Rightarrow> MemoryDB \<Rightarrow> ((BankError + 32 word list) \<times> MemoryDB) go" where
  "read_tos G locked [] ms m = Ret (Inr [], m)"
| "read_tos G locked (toKey # ks) ms m =
     (if locked toKey then Ret (Inl KeyIsLocked, m)
      else do { (r, m1) \<leftarrow> g_Get G toKey m;
                case r of
                  Inl e \<Rightarrow> Ret (Inl e, m1)
                | Inr balance \<Rightarrow>
                    do { money \<leftarrow> go_index ms 0;
                         (rest, m2) \<leftarrow> read_tos G locked ks (tl ms) m1;
                         Ret (map_sum id ((#) (balance + money)) rest, m2) } })"

fun write_all ::
  "GetSetMemDB \<Rightarrow> (string \<Rightarrow> bool) \<Rightarrow> (string \<times> 32 word) list \<Rightarrow> MemoryDB \<Rightarrow> (BankError ptr \<times> MemoryDB) go" where
  "write_all G locked [] m = Ret (Nil_ptr, m)"
| "write_all G locked ((key, balance) # rest) m =
     (if locked key then Ret (Ptr KeyIsLocked, m)
      else do { (e, m1) \<leftarrow> g_Set G key balance m;
                case e of Ptr x \<Rightarrow> Ret (Ptr x, m1) | Nil_ptr \<Rightarrow> write_all G locked rest m1 })"

definition doTransfer :: "GetSetMemDB \<Rightarrow> (string \<Rightarrow> bool) \<Rightarrow> pb_TransferTx \<Rightarrow> MemoryDB \<Rightarrow> (BankError ptr \<times> MemoryDB) go" where
  "doTransfer G locked tx m =
     (case ValidateTransferTx tx of
        Ptr e \<Rightarrow> Ret (Ptr e, m)
      | Nil_ptr \<Rightarrow>
          do { (rf, m1) \<leftarrow> read_froms G locked (From tx) (FromMoney tx) m;
               case rf of
                 Inl e \<Rightarrow> Ret (Ptr e, m1)
               | Inr fromBalance \<Rightarrow>
                   do { (rt, m2) \<leftarrow> read_tos G locked (To tx) (ToMoney tx) m1;
                        case rt of
                          Inl e \<Rightarrow> Ret (Ptr e, m2)
                        | Inr toBalance \<Rightarrow>
                            do { (e, m3) \<leftarrow> write_all G locked (zip (From tx) fromBalance) m2;
                                 case e of
                                   Ptr x \<Rightarrow> Ret (Ptr x, m3)
                                 | Nil_ptr \<Rightarrow> write_all G locked (zip (To tx) toBalance) m3 } } })"

definition doInsert :: "GetSetMemDB \<Rightarrow> (string \<Rightarrow> bool) \<Rightarrow> pb_InsertTx \<Rightarrow> MemoryDB \<Rightarrow> (BankError ptr \<times> MemoryDB) go" where
  "doInsert G locked tx m =
     (if locked (Account tx) then Ret (Ptr KeyAlreadyLocked, m)
      else do { (r, m1) \<leftarrow> g_Has G (Account tx) m;
                case r of
                  Inl e \<Rightarrow> Ret (Ptr e, m1)
                | Inr True \<Rightarrow> Ret (Ptr KeyAlreadyExists, m1)
                | Inr False \<Rightarrow> g_Set G (Account tx) (Money tx) m1 })"

definition execute :: "bank_lib \<Rightarrow> GetSetMemDB \<Rightarrow> (string \<Rightarrow> bool) \<Rightarrow> bytes \<Rightarrow> MemoryDB \<Rightarrow> (BankError ptr \<times> MemoryDB) go" where
  "execute L G locked txBytes m =
     (if length txBytes < 4 then Ret (Ptr ShortTx, m)
      else do { txType \<leftarrow> BytesToUint32 (take 4 txBytes);
                if txType = TxTransfer then
                  do { r \<leftarrow> NewTransferTxFromBytes L txBytes;
                       case r of Inl e \<Rightarrow> Ret (Ptr e, m) | Inr tx \<Rightarrow> doTransfer G locked tx m }
                else if txType = TxInsert then
                  (case Unmarshal (insert_codec L) (drop 4 txBytes) of
                     None \<Rightarrow> Ret (Ptr (TxUnmarshal (unmarshal_text L (drop 4 txBytes))), m)
                   | Some tx \<Rightarrow> doInsert G locked tx m)
                else Ret (Ptr UndefinedTxType, m) })"

text \<open>The text of an error, kept in the receipt of the transaction.\<close>

definition wide_comma :: string where
  "wide_comma = [CHR 0xEF, CHR 0xBC, CHR 0x8C]"

fun error_text :: "bank_lib \<Rightarrow> BankError \<Rightarrow> string" where
  "error_text L OutOfShardRange = ''out of shard range''"
| "error_text L (NotInCrossShardData key) =
     ''in transaction processing'' @ wide_comma @ ''read key='' @ key @ wide_comma @ ''but Cross-shard blocks are not provided''"
| "error_text L ShortTx = ''given tx Length less than 4'' @ wide_comma @ ''Illegal format''"
| "error_text L (TxUnmarshal t) = t"
| "error_text L UndefinedTxType = ''ABCI Tx Undefined type''"
| "error_text L LengthMismatch = ''From/FromMoney and To/ToMoney have different lengths''"
| "error_text L EmptyTransfer = ''From/To is empty''"
| "error_text L MoneyMismatch = '' FromMoney and ToMoney is not equal''"
| "error_text L KeyIsLocked = ''The primary key is locked''"
| "error_text L NotEnough = ''Balance is not Enough''"
| "error_text L KeyAlreadyLocked = ''Key Already Locked''"
| "error_text L KeyAlreadyExists = ''Key Already Exists''"
| "error_text L (StoreError e) = store_text L e"

section \<open>The application\<close>

record Application =
  app_db :: kv
  KeyRangeTree :: "RangeTree ptr"
  relatedIKeyRangeTree :: "string \<rightharpoonup> RangeTree"
  IsI :: bool
  myChainID :: string
  appStatus :: bytes
  LockedKeys :: "string \<rightharpoonup> bool"
  preExecutionInputList :: "bytes \<rightharpoonup> csdata list"
  preExecutionOutputList :: "bytes \<rightharpoonup> csdata list"

definition NewApplication ::
  "kv \<Rightarrow> string \<Rightarrow> bool \<Rightarrow> RangeTree ptr \<Rightarrow> (string \<rightharpoonup> RangeTree) \<Rightarrow> Application" where
  "NewApplication db chain_id isI keyRangeTree relatedTree =
     \<lparr>app_db = db, KeyRangeTree = keyRangeTree, relatedIKeyRangeTree = relatedTree, IsI = isI, myChainID = chain_id,
      appStatus = str_bytes ''minibank'', LockedKeys = Map.empty, preExecutionInputList = Map.empty,
      preExecutionOutputList = Map.empty\<rparr>"

definition app_locked :: "Application \<Rightarrow> string \<Rightarrow> bool" where
  "app_locked app key = map_get False (LockedKeys app) key"

text \<open>\<open>app.relatedIKeyRangeTree[chain]\<close>: a missing tree is nil.\<close>

definition related_tree :: "Application \<Rightarrow> string \<Rightarrow> RangeTree ptr" where
  "related_tree app chain = (case relatedIKeyRangeTree app chain of None \<Rightarrow> Nil_ptr | Some t \<Rightarrow> Ptr t)"

text \<open>\<open>tree.Search(key)\<close> on a tree that may be nil.\<close>

definition tree_search :: "RangeTree ptr \<Rightarrow> string \<Rightarrow> bool go" where
  "tree_search tree key = (case tree of Nil_ptr \<Rightarrow> Panic | Ptr t \<Rightarrow> Ret (RangeTrees.Search t key))"

definition bank_Commit :: "Application \<Rightarrow> bytes \<times> Application" where
  "bank_Commit app = (appStatus app, app\<lparr>preExecutionInputList := Map.empty, preExecutionOutputList := Map.empty\<rparr>)"

section \<open>Admission of transactions\<close>

fun all_in_range :: "RangeTree ptr \<Rightarrow> string list \<Rightarrow> bool go" where
  "all_in_range tree [] = Ret True"
| "all_in_range tree (key # keys) = do { ok \<leftarrow> tree_search tree key; if ok then all_in_range tree keys else Ret False }"

definition ValidateTx :: "bank_lib \<Rightarrow> Application \<Rightarrow> bytes \<Rightarrow> bool \<Rightarrow> bool go" where
  "ValidateTx L app txBytes isCrossShard =
     (if length txBytes < 4 then Ret False
      else if IsI app \<and> isCrossShard then Ret False
      else
        let rangeTree = (if IsI app \<or> isCrossShard then KeyRangeTree app else related_tree app (myChainID app))
        in do { txType \<leftarrow> BytesToUint32 (take 4 txBytes);
                if txType = TxTransfer then
                  (case Unmarshal (transfer_codec L) (drop 4 txBytes) of
                     None \<Rightarrow> Ret False
                   | Some tx \<Rightarrow> do { ok \<leftarrow> all_in_range rangeTree (From tx);
                                     if ok then all_in_range rangeTree (To tx) else Ret False })
                else if txType = TxInsert then
                  (case Unmarshal (insert_codec L) (drop 4 txBytes) of
                     None \<Rightarrow> Ret False
                   | Some tx \<Rightarrow> tree_search rangeTree (Account tx))
                else Ret False })"

section \<open>Pre-execution at an inner shard\<close>

text \<open>
  The keys of a transfer, which are both read and written; every transaction is decoded as a transfer
  and a decoding error gives the empty sets. The sets are lists of distinct keys in iteration order.
\<close>

definition getRWSet :: "bank_lib \<Rightarrow> bytes \<Rightarrow> (string list \<times> string list) go" where
  "getRWSet L txBz =
     do { r \<leftarrow> NewTransferTxFromBytes L txBz;
          Ret (case r of Inl _ \<Rightarrow> ([], []) | Inr tx \<Rightarrow> let keys = remdups (From tx @ To tx) in (keys, keys)) }"

text \<open>A transaction is out when it reads what an aborted one of its block, or one of an earlier block, wrote.\<close>

fun reads_ok :: "DependencyGraph \<Rightarrow> DependencyGraph \<Rightarrow> BitVector ptr \<Rightarrow> string list \<Rightarrow> bool go" where
  "reads_ok dg alldg bv [] = Ret True"
| "reads_ok dg alldg bv (r # rs) =
     (case AddRead dg r of
        (index, True) \<Rightarrow> do { g \<leftarrow> GetIndex bv index; if \<not> g then Ret False else reads_ok dg alldg bv rs }
      | (_, False) \<Rightarrow> if snd (AddRead alldg r) then Ret False else reads_ok dg alldg bv rs)"

definition add_writes :: "string list \<Rightarrow> int \<Rightarrow> DependencyGraph \<Rightarrow> DependencyGraph" where
  "add_writes ws i dg = fold (\<lambda>w dg. AddWrite dg w i) ws dg"

fun mark_txs :: "bank_lib \<Rightarrow> DependencyGraph \<Rightarrow> int \<Rightarrow> bytes list \<Rightarrow> BitVector ptr \<Rightarrow> DependencyGraph
   \<Rightarrow> (BitVector ptr \<times> DependencyGraph) go" where
  "mark_txs L alldg i [] bv dg = Ret (bv, dg)"
| "mark_txs L alldg i (tx # txs) bv dg =
     do { (readSet, writeSet) \<leftarrow> getRWSet L tx;
          dgFlag \<leftarrow> reads_ok dg alldg bv readSet;
          (_, bv') \<leftarrow> SetIndex bv i dgFlag;
          mark_txs L alldg (i + 1) txs bv' (add_writes writeSet i dg) }"

fun mark_blocks :: "bank_lib \<Rightarrow> int \<Rightarrow> Block ptr list \<Rightarrow> DependencyGraph \<Rightarrow> bytes list go" where
  "mark_blocks L blockIndex [] alldg = Ret []"
| "mark_blocks L blockIndex (q # qs) alldg =
     (case q of
        Nil_ptr \<Rightarrow> Panic
      | Ptr block \<Rightarrow>
          (let txs = CrossShardTxs (b_CrossShardBody block)
           in do { (bv, dg) \<leftarrow> mark_txs L alldg 0 txs (NewBitVector (int (length txs))) NewDependencyGraph;
                   rest \<leftarrow> mark_blocks L (blockIndex + 1) qs
                     (alldg\<lparr>dpMap := (\<lambda>w. if dpMap dg w \<noteq> None then Some blockIndex else dpMap alldg w)\<rparr>);
                   Ret (Byte bv # rest) }))"

text \<open>The boundary shard's values of the keys the shard owns must be its own.\<close>

fun data_fresh :: "kv \<Rightarrow> RangeTree ptr \<Rightarrow> csdata \<Rightarrow> MemoryDB \<Rightarrow> (bool \<times> MemoryDB) go" where
  "data_fresh db tree [] m = Ret (True, m)"
| "data_fresh db tree ((key, v) # rest) m =
     do { mine \<leftarrow> tree_search tree key;
          if mine then
            do { (r, m1) \<leftarrow> MemoryDB_Get db key m;
                 if r \<noteq> Inr v then Ret (False, m1) else data_fresh db tree rest m1 }
          else data_fresh db tree rest m }"

fun late_reads_ok :: "DependencyGraph \<Rightarrow> BitVector ptr \<Rightarrow> string list \<Rightarrow> bool go" where
  "late_reads_ok dg bv [] = Ret True"
| "late_reads_ok dg bv (r # rs) =
     (case AddRead dg r of
        (index, True) \<Rightarrow> do { g \<leftarrow> GetIndex bv index; if \<not> g then Ret False else late_reads_ok dg bv rs }
      | (_, False) \<Rightarrow> late_reads_ok dg bv rs)"

text \<open>One transaction of \<open>preExecutionBFunc\<close>.\<close>

definition vote_tx ::
  "bank_lib \<Rightarrow> Application \<Rightarrow> bytes list \<Rightarrow> int \<Rightarrow> bytes \<Rightarrow> BitVector ptr \<times> DependencyGraph \<times> MemoryDB
   \<Rightarrow> (BitVector ptr \<times> DependencyGraph \<times> MemoryDB) go" where
  "vote_tx L app datas i tx = (\<lambda>(bv, dg, m).
     do { marked \<leftarrow> GetIndex bv i;
          if \<not> marked then Ret (bv, dg, m)
          else
            do { bz \<leftarrow> go_index datas i;
                 r \<leftarrow> NewCrossShardDataFromBytes L bz;
                 case r of
                   Inl _ \<Rightarrow> do { (_, bv') \<leftarrow> SetIndex bv i False; Ret (bv', dg, m) }
                 | Inr (csdb, ok) \<Rightarrow>
                     if \<not> ok then do { (_, bv') \<leftarrow> SetIndex bv i True; Ret (bv', dg, m) }
                     else
                       do { (fresh, m1) \<leftarrow> data_fresh (app_db app) (KeyRangeTree app) csdb m;
                            if \<not> fresh then do { (_, bv') \<leftarrow> SetIndex bv i False; Ret (bv', dg, m1) }
                            else
                              do { (e, m2) \<leftarrow> execute L (cross_db csdb) (app_locked app) tx m1;
                                   case e of
                                     Ptr _ \<Rightarrow> do { (_, bv') \<leftarrow> SetIndex bv i False; Ret (bv', dg, CommitWrite False m2) }
                                   | Nil_ptr \<Rightarrow>
                                       do { dgFlag \<leftarrow> late_reads_ok dg bv (m_keys csdb);
                                            (_, bv') \<leftarrow> SetIndex bv i dgFlag;
                                            Ret (bv', add_writes (m_keys (GetWriteSet m2)) i dg, CommitWrite dgFlag m2) } } } } })"

fun vote_txs ::
  "bank_lib \<Rightarrow> Application \<Rightarrow> bytes list \<Rightarrow> int \<Rightarrow> bytes list \<Rightarrow> BitVector ptr \<times> DependencyGraph \<times> MemoryDB
   \<Rightarrow> (BitVector ptr \<times> DependencyGraph \<times> MemoryDB) go" where
  "vote_txs L app datas i [] s = Ret s"
| "vote_txs L app datas i (tx # txs) s = do { s' \<leftarrow> vote_tx L app datas i tx s; vote_txs L app datas (i + 1) txs s' }"

definition vote_block :: "bank_lib \<Rightarrow> Application \<Rightarrow> bytes \<Rightarrow> Block ptr \<Rightarrow> bytes go" where
  "vote_block L app status q =
     (case q of
        Nil_ptr \<Rightarrow> Panic
      | Ptr block \<Rightarrow>
          do { bv \<leftarrow> NewBitArrayFromByte status;
               (bv', _, _) \<leftarrow> vote_txs L app (CrossShardDatas (b_CrossShardBody block)) 0 (CrossShardTxs (b_CrossShardBody block))
                               (bv, NewDependencyGraph, NewMemoryDB);
               Ret (Byte bv') })"

fun vote_blocks :: "bank_lib \<Rightarrow> Application \<Rightarrow> bytes list \<Rightarrow> Block ptr list \<Rightarrow> bytes list go" where
  "vote_blocks L app [] qs = Ret []"
| "vote_blocks L app (st # sts) [] = Ret []"
| "vote_blocks L app (st # sts) (q # qs) = do { v \<leftarrow> vote_block L app st q; rest \<leftarrow> vote_blocks L app sts qs; Ret (v # rest) }"

definition PreExecutionI :: "bank_lib \<Rightarrow> Application \<Rightarrow> Block ptr list \<Rightarrow> (ABCIPreExecutionResponseI \<times> Application) go" where
  "PreExecutionI L app blockList =
     do { commitStatuses \<leftarrow> mark_blocks L 0 blockList NewDependencyGraph;
          votes \<leftarrow> vote_blocks L app commitStatuses blockList;
          Ret (\<lparr>pi_Code = CodeTypeOK, CommitStatusVote = votes\<rparr>, app) }"

section \<open>Pre-execution at a boundary shard\<close>

text \<open>
  Every transaction of the cross-shard body is executed on the shard's own keys; what it read becomes
  the data of the block, and what it read and wrote is remembered under the hash of the block.
\<close>

fun pre_execute ::
  "bank_lib \<Rightarrow> Application \<Rightarrow> bytes list \<Rightarrow> MemoryDB \<Rightarrow> (csdata list \<times> csdata list \<times> bytes list) go" where
  "pre_execute L app [] m = Ret ([], [], [])"
| "pre_execute L app (tx # txs) m =
     do { (err, m1) \<leftarrow> execute L (range_db (app_db app) (KeyRangeTree app)) (app_locked app) tx m;
          let ok = is_nil err; readSet = (if ok then GetReadSet m1 else []); writeSet = (if ok then GetWriteSet m1 else [])
          in do { bz \<leftarrow> CrossShardDataBytes L readSet ok;
                  (inputs, outputs, datas) \<leftarrow> pre_execute L app txs (CommitWrite ok m1);
                  Ret (readSet # inputs, writeSet # outputs, bz # datas) } }"

definition PreExecutionC ::
  "bank_lib \<Rightarrow> Application \<Rightarrow> Block \<Rightarrow> (ABCIPreExecutionResponseC \<times> Application \<times> Block) go" where
  "PreExecutionC L app block =
     do { (blockKey, block') \<leftarrow> Block_Hash (lib_time L) block;
          (inputs, outputs, datas) \<leftarrow> pre_execute L app (CrossShardTxs (b_CrossShardBody block')) NewMemoryDB;
          Ret (\<lparr>pc_Code = CodeTypeOK, pc_CrossShardDatas = datas\<rparr>,
               app\<lparr>preExecutionInputList := (preExecutionInputList app)(blockKey \<mapsto> inputs),
                   preExecutionOutputList := (preExecutionOutputList app)(blockKey \<mapsto> outputs)\<rparr>, block') }"

section \<open>Execution of a height\<close>

definition receipt :: "int \<Rightarrow> string \<Rightarrow> ABCIExecutionReceipt" where
  "receipt code log = \<lparr>rc_Code = code, Log = log, Info = [], Options = []\<rparr>"

text \<open>\<open>memoryDB.Set\<close> over a remembered write set.\<close>

definition set_all :: "csdata \<Rightarrow> MemoryDB \<Rightarrow> MemoryDB" where
  "set_all data m = fold (\<lambda>(key, value) m. snd (MemoryDB_Set key value m)) data m"

text \<open>One transaction of \<open>executionC\<close>; executing it must succeed, for a failure panics.\<close>

definition cross_tx ::
  "bank_lib \<Rightarrow> Application \<Rightarrow> Block \<Rightarrow> BitVector ptr \<Rightarrow> csdata list \<Rightarrow> int \<Rightarrow> bytes \<Rightarrow> MemoryDB
   \<Rightarrow> (ABCIExecutionReceipt \<times> MemoryDB) go" where
  "cross_tx L app block bv preExecutionOutput i tx m =
     do { bz \<leftarrow> go_index (CrossShardDatas (b_CrossShardBody block)) i;
          r \<leftarrow> NewCrossShardDataFromBytes L bz;
          case r of
            Inl err \<Rightarrow> Ret (receipt CodeTypeEncodingError (error_text L err), m)
          | Inr (csdb, ok) \<Rightarrow>
              if \<not> ok then Ret (receipt CodeTypeAbort ''C PreExecution Abort'', m)
              else
                do { marked \<leftarrow> GetIndex bv i;
                     if \<not> marked then Ret (receipt CodeTypeAbort ''I PreExecution Abort'', m)
                     else if int (length preExecutionOutput) > i then
                       Ret (receipt CodeTypeOK [], CommitWrite True (set_all (preExecutionOutput ! nat i) m))
                     else
                       do { (err, m1) \<leftarrow> execute L (cross_db csdb) (app_locked app) tx m;
                            case err of Ptr _ \<Rightarrow> Panic | Nil_ptr \<Rightarrow> Ret (receipt CodeTypeOK [], CommitWrite True m1) } } }"

fun cross_txs ::
  "bank_lib \<Rightarrow> Application \<Rightarrow> Block \<Rightarrow> BitVector ptr \<Rightarrow> csdata list \<Rightarrow> int \<Rightarrow> bytes list \<Rightarrow> MemoryDB
   \<Rightarrow> (ABCIExecutionReceipt ptr list \<times> MemoryDB) go" where
  "cross_txs L app block bv output i [] m = Ret ([], m)"
| "cross_txs L app block bv output i (tx # txs) m =
     do { (rc, m1) \<leftarrow> cross_tx L app block bv output i tx m;
          (rcs, m2) \<leftarrow> cross_txs L app block bv output (i + 1) txs m1;
          Ret (Ptr rc # rcs, m2) }"

text \<open>\<open>executionC\<close>: the response of the block's shard, the database of the block and the hashed block.\<close>

definition execute_cross ::
  "bank_lib \<Rightarrow> Application \<Rightarrow> BitVector ptr list \<Rightarrow> int \<Rightarrow> Block ptr \<Rightarrow> ((string \<times> ABCIExecutionReceipt ptr list) \<times> MemoryDB \<times> Block) go" where
  "execute_cross L app commitBitVector block_sequence q =
     (case q of
        Nil_ptr \<Rightarrow> Panic
      | Ptr block \<Rightarrow>
          do { bv \<leftarrow> go_index commitBitVector block_sequence;
               (hs, block') \<leftarrow> Block_Hash (lib_time L) block;
               (respSet, m) \<leftarrow> cross_txs L app block' bv (map_get [] (preExecutionOutputList app) hs) 0
                                 (CrossShardTxs (b_CrossShardBody block')) NewMemoryDB;
               Ret ((ChainID (b_Header block'), respSet), m, block') })"

fun execute_crosses ::
  "bank_lib \<Rightarrow> Application \<Rightarrow> BitVector ptr list \<Rightarrow> int \<Rightarrow> Block ptr list \<Rightarrow> (string \<rightharpoonup> ABCIExecutionReceipt ptr list)
   \<Rightarrow> ((string \<rightharpoonup> ABCIExecutionReceipt ptr list) \<times> MemoryDB list \<times> Block ptr list) go" where
  "execute_crosses L app bvs n [] resps = Ret (resps, [], [])"
| "execute_crosses L app bvs n (q # qs) resps =
     do { ((chain, respSet), m, block') \<leftarrow> execute_cross L app bvs n q;
          (resps', ms, blocks) \<leftarrow> execute_crosses L app bvs (n + 1) qs (resps(chain \<mapsto> respSet));
          Ret (resps', m # ms, Ptr block' # blocks) }"

text \<open>The databases of the blocks are written in order; a write error panics.\<close>

definition write_range :: "RangeTree ptr \<Rightarrow> MemoryDB \<Rightarrow> kv \<Rightarrow> kv go" where
  "write_range tree m db =
     do { (err, db', _) \<leftarrow> RangeDB_Write db tree m; case err of Ptr _ \<Rightarrow> Panic | Nil_ptr \<Rightarrow> Ret db' }"

fun write_ranges :: "RangeTree ptr \<Rightarrow> MemoryDB list \<Rightarrow> kv \<Rightarrow> kv go" where
  "write_ranges tree [] db = Ret db"
| "write_ranges tree (m # ms) db = do { db' \<leftarrow> write_range tree m db; write_ranges tree ms db' }"

text \<open>The transactions of an inner block: a failed one has no effect.\<close>

fun inner_txs ::
  "bank_lib \<Rightarrow> GetSetMemDB \<Rightarrow> (string \<Rightarrow> bool) \<Rightarrow> bytes list \<Rightarrow> MemoryDB
   \<Rightarrow> (ABCIExecutionReceipt ptr list \<times> MemoryDB) go" where
  "inner_txs L G locked [] m = Ret ([], m)"
| "inner_txs L G locked (tx # txs) m =
     do { (err, m1) \<leftarrow> execute L G locked tx m;
          (rcs, m2) \<leftarrow> inner_txs L G locked txs (CommitWrite (is_nil err) m1);
          Ret (Ptr (case err of Nil_ptr \<Rightarrow> receipt CodeTypeOK [] | Ptr e \<Rightarrow> receipt CodeTypeAbort (error_text L e)) # rcs, m2) }"

definition execute_inner ::
  "bank_lib \<Rightarrow> Application \<Rightarrow> RangeTree ptr \<Rightarrow> Block \<Rightarrow> kv \<Rightarrow> (ABCIExecutionReceipt ptr list \<times> kv) go" where
  "execute_inner L app tree block db =
     do { (respSet, m) \<leftarrow> inner_txs L (range_db db tree) (app_locked app) (BodyTxs (b_Body block)) NewMemoryDB;
          db' \<leftarrow> write_range tree m db;
          Ret (respSet, db') }"

fun execute_inners ::
  "bank_lib \<Rightarrow> Application \<Rightarrow> Block ptr list \<Rightarrow> (string \<rightharpoonup> ABCIExecutionReceipt ptr list) \<Rightarrow> kv
   \<Rightarrow> ((string \<rightharpoonup> ABCIExecutionReceipt ptr list) \<times> kv) go" where
  "execute_inners L app [] resps db = Ret (resps, db)"
| "execute_inners L app (q # qs) resps db =
     (case q of
        Nil_ptr \<Rightarrow> Panic
      | Ptr b \<Rightarrow>
          do { (respSet, db') \<leftarrow> execute_inner L app (related_tree app (ChainID (b_Header b))) b db;
               execute_inners L app qs (resps(ChainID (b_Header b) \<mapsto> respSet)) db' })"

text \<open>An inner shard executes its own block, a boundary shard those of its inner shards.\<close>

definition execute_inner_blocks ::
  "bank_lib \<Rightarrow> Application \<Rightarrow> Block ptr list \<Rightarrow> kv \<Rightarrow> ((string \<rightharpoonup> ABCIExecutionReceipt ptr list) \<times> kv) go" where
  "execute_inner_blocks L app InnerShardBlocks db =
     (if IsI app then
        do { q \<leftarrow> go_index InnerShardBlocks 0;
             case q of
               Nil_ptr \<Rightarrow> Panic
             | Ptr block \<Rightarrow>
                 do { (respSet, db') \<leftarrow> execute_inner L app (KeyRangeTree app) block db;
                      Ret ([ChainID (b_Header block) \<mapsto> respSet], db') } }
      else execute_inners L app InnerShardBlocks Map.empty db)"

text \<open>The cross-shard blocks come back with their hashes filled in.\<close>

definition Execution ::
  "bank_lib \<Rightarrow> Application \<Rightarrow> Block ptr list \<Rightarrow> BitVector ptr list \<Rightarrow> Block ptr list
   \<Rightarrow> (ABCIExecutionResponse \<times> Application \<times> Block ptr list) go" where
  "Execution L app CrossShardBlocks commitBitVector InnerShardBlocks =
     do { (crossResps, memDBlist, blocks) \<leftarrow> execute_crosses L app commitBitVector 0 CrossShardBlocks Map.empty;
          db1 \<leftarrow> write_ranges (KeyRangeTree app) memDBlist (app_db app);
          (innerResps, db2) \<leftarrow> execute_inner_blocks L app InnerShardBlocks db1;
          Ret (\<lparr>CrossShardResps = crossResps, InnerShardResps = innerResps\<rparr>, app\<lparr>app_db := db2\<rparr>, blocks) }"

end
