(* ===== verification/Ledger.thy ===== *)
theory Ledger
  imports Bank
begin

text \<open>
  What the banking application promises: the abstract ledger its transactions update, the proof that
  executing transactions over any database that fulfils the contract of \<open>BankDB\<close> implements it, and the
  agreement of the boundary and the inner shards on cross-shard transactions.
\<close>

section \<open>The abstract ledger\<close>

text \<open>The writes of a transfer that reads the balances \<open>look\<close>, and when it is possible.\<close>

definition transfer_writes :: "(string \<rightharpoonup> 32 word) \<Rightarrow> pb_TransferTx \<Rightarrow> (string \<times> 32 word) list" where
  "transfer_writes look tx =
     map2 (\<lambda>k x. (k, the (look k) - x)) (From tx) (FromMoney tx) @ map2 (\<lambda>k x. (k, the (look k) + x)) (To tx) (ToMoney tx)"

definition can_transfer :: "(string \<Rightarrow> bool) \<Rightarrow> (string \<rightharpoonup> 32 word) \<Rightarrow> pb_TransferTx \<Rightarrow> bool" where
  "can_transfer locked look tx \<longleftrightarrow>
     ValidateTransferTx tx = Nil_ptr \<and> (\<forall>k\<in>set (From tx @ To tx). look k \<noteq> None \<and> \<not> locked k) \<and>
     list_all2 (\<lambda>k x. x \<le> the (look k)) (From tx) (FromMoney tx)"

definition put_all :: "(string \<times> 32 word) list \<Rightarrow> (string \<rightharpoonup> 32 word) \<Rightarrow> string \<rightharpoonup> 32 word" where
  "put_all ws b = fold (\<lambda>(k, v) b. b(k \<mapsto> v)) ws b"

lemma put_all_simps [simp]: "put_all [] b = b" "put_all ((k, v) # ws) b = put_all ws (b(k \<mapsto> v))"
  by (simp_all add: put_all_def)

lemma put_all_append: "put_all (ws @ ws') b = put_all ws' (put_all ws b)"
  by (simp add: put_all_def)

text \<open>One transaction: \<open>None\<close> when it is refused.\<close>

definition ledger_transfer :: "(string \<Rightarrow> bool) \<Rightarrow> (string \<Rightarrow> bool) \<Rightarrow> pb_TransferTx \<Rightarrow> (string \<rightharpoonup> 32 word) \<Rightarrow> (string \<rightharpoonup> 32 word) option" where
  "ledger_transfer ok locked tx b =
     (let look = (\<lambda>k. if ok k then Some (map_get initBalance b k) else None)
      in if can_transfer locked look tx then Some (put_all (transfer_writes look tx) b) else None)"

definition ledger_insert :: "(string \<Rightarrow> bool) \<Rightarrow> (string \<Rightarrow> bool) \<Rightarrow> pb_InsertTx \<Rightarrow> (string \<rightharpoonup> 32 word) \<Rightarrow> (string \<rightharpoonup> 32 word) option" where
  "ledger_insert ok locked tx b =
     (if ok (Account tx) \<and> \<not> locked (Account tx) \<and> b (Account tx) = None then Some (b(Account tx \<mapsto> Money tx)) else None)"

definition ledger_tx :: "bank_lib \<Rightarrow> (string \<Rightarrow> bool) \<Rightarrow> (string \<Rightarrow> bool) \<Rightarrow> bytes \<Rightarrow> (string \<rightharpoonup> 32 word) \<Rightarrow> (string \<rightharpoonup> 32 word) option" where
  "ledger_tx L ok locked tx b =
     (if length tx < 4 then None
      else if BytesToUint32 (take 4 tx) = Ret TxTransfer then
        (case Unmarshal (transfer_codec L) (drop 4 tx) of None \<Rightarrow> None | Some t \<Rightarrow> ledger_transfer ok locked t b)
      else if BytesToUint32 (take 4 tx) = Ret TxInsert then
        (case Unmarshal (insert_codec L) (drop 4 tx) of None \<Rightarrow> None | Some t \<Rightarrow> ledger_insert ok locked t b)
      else None)"

text \<open>A list of transactions: which succeed, and the accounts after them.\<close>

fun ledger_run :: "bank_lib \<Rightarrow> (string \<Rightarrow> bool) \<Rightarrow> (string \<Rightarrow> bool) \<Rightarrow> bytes list \<Rightarrow> (string \<rightharpoonup> 32 word) \<Rightarrow> bool list \<times> (string \<rightharpoonup> 32 word)" where
  "ledger_run L ok locked [] b = ([], b)"
| "ledger_run L ok locked (tx # txs) b =
     (case ledger_tx L ok locked tx b of
        None \<Rightarrow> (let (rs, b') = ledger_run L ok locked txs b in (False # rs, b'))
      | Some b1 \<Rightarrow> (let (rs, b') = ledger_run L ok locked txs b1 in (True # rs, b')))"

section \<open>Transfers over any database of the contract\<close>

definition put_buffer :: "(string \<times> 32 word) list \<Rightarrow> csdata \<Rightarrow> csdata" where
  "put_buffer ws wb = fold (\<lambda>(k, v). m_put k v) ws wb"

lemma put_buffer_simps [simp]: "put_buffer [] wb = wb" "put_buffer ((k, v) # ws) wb = put_buffer ws (m_put k v wb)"
  by (simp_all add: put_buffer_def)

lemma put_buffer_append: "put_buffer (ws @ ws') wb = put_buffer ws' (put_buffer ws wb)"
  by (simp add: put_buffer_def)

context balances begin

definition same :: "MemoryDB \<Rightarrow> MemoryDB \<Rightarrow> bool" where
  "same m m' \<longleftrightarrow> inv m' \<and> look m' = look m \<and> writeBuffer m' = writeBuffer m \<and> base m' = base m \<and> recorded m \<subseteq> recorded m'"

lemma same_refl: "inv m \<Longrightarrow> same m m"
  by (simp add: same_def)

lemma same_trans: "same m m1 \<Longrightarrow> same m1 m2 \<Longrightarrow> same m m2"
  by (auto simp: same_def)

lemma get_same:
  assumes "inv m" "look m k = Some v"
  shows "\<exists>m'. g_Get G k m = Ret (Inr v, m') \<and> same m m' \<and> (writeBuffer m = [] \<longrightarrow> k \<in> recorded m')"
  using get_found [OF assms] by (auto simp: same_def)

lemma read_froms_result:
  assumes "inv m" "length ms = length ks"
  shows "\<exists>r m'. read_froms G locked ks ms m = Ret (r, m') \<and> same m m' \<and>
    (if (\<forall>k\<in>set ks. look m k \<noteq> None \<and> \<not> locked k) \<and> list_all2 (\<lambda>k x. x \<le> the (look m k)) ks ms
     then r = Inr (map2 (\<lambda>k x. the (look m k) - x) ks ms) \<and> (writeBuffer m = [] \<longrightarrow> set ks \<subseteq> recorded m') else \<exists>e. r = Inl e)"
  using assms
proof (induction ks arbitrary: ms m)
  case Nil
  then show ?case by (auto simp: same_refl)
next
  case (Cons k ks)
  then obtain x xs where ms: "ms = x # xs" "length xs = length ks" by (cases ms) auto
  show ?case
  proof (cases "locked k")
    case True
    then show ?thesis using Cons.prems same_refl by auto
  next
    case unl: False
    show ?thesis
    proof (cases "look m k")
      case None
      then obtain e where "g_Get G k m = Ret (Inl e, m)" using get_missing Cons.prems by blast
      then show ?thesis using None unl Cons.prems same_refl by auto
    next
      case (Some v)
      then obtain m1 where m1: "g_Get G k m = Ret (Inr v, m1)" "same m m1" "writeBuffer m = [] \<longrightarrow> k \<in> recorded m1"
        using get_same Cons.prems by blast
      show ?thesis
      proof (cases "v < x")
        case True
        then show ?thesis using m1 unl Some ms by (auto simp: go_index_def)
      next
        case False
        obtain r m2 where r: "read_froms G locked ks xs m1 = Ret (r, m2)" "same m1 m2"
          "if (\<forall>k\<in>set ks. look m1 k \<noteq> None \<and> \<not> locked k) \<and> list_all2 (\<lambda>k x. x \<le> the (look m1 k)) ks xs
           then r = Inr (map2 (\<lambda>k x. the (look m1 k) - x) ks xs) \<and> (writeBuffer m1 = [] \<longrightarrow> set ks \<subseteq> recorded m2) else \<exists>e. r = Inl e"
          using Cons.IH [of m1 xs] ms(2) m1(2) by (auto simp: same_def)
        have l: "look m1 = look m" "writeBuffer m1 = writeBuffer m" using m1(2) by (simp_all add: same_def)
        have k: "k \<in> recorded m1 \<Longrightarrow> k \<in> recorded m2" using r(2) by (auto simp: same_def)
        show ?thesis using m1 unl Some ms r same_trans [OF m1(2) r(2)] False k unfolding l
          by (auto simp: go_index_def not_less split: if_splits)
      qed
    qed
  qed
qed

lemma read_tos_result:
  assumes "inv m" "length ms = length ks"
  shows "\<exists>r m'. read_tos G locked ks ms m = Ret (r, m') \<and> same m m' \<and>
    (if \<forall>k\<in>set ks. look m k \<noteq> None \<and> \<not> locked k
     then r = Inr (map2 (\<lambda>k x. the (look m k) + x) ks ms) \<and> (writeBuffer m = [] \<longrightarrow> set ks \<subseteq> recorded m') else \<exists>e. r = Inl e)"
  using assms
proof (induction ks arbitrary: ms m)
  case Nil
  then show ?case by (auto simp: same_refl)
next
  case (Cons k ks)
  then obtain x xs where ms: "ms = x # xs" "length xs = length ks" by (cases ms) auto
  show ?case
  proof (cases "locked k")
    case True
    then show ?thesis using Cons.prems same_refl by auto
  next
    case unl: False
    show ?thesis
    proof (cases "look m k")
      case None
      then obtain e where "g_Get G k m = Ret (Inl e, m)" using get_missing Cons.prems by blast
      then show ?thesis using None unl Cons.prems same_refl by auto
    next
      case (Some v)
      then obtain m1 where m1: "g_Get G k m = Ret (Inr v, m1)" "same m m1" "writeBuffer m = [] \<longrightarrow> k \<in> recorded m1"
        using get_same Cons.prems by blast
      obtain r m2 where r: "read_tos G locked ks xs m1 = Ret (r, m2)" "same m1 m2"
        "if \<forall>k\<in>set ks. look m1 k \<noteq> None \<and> \<not> locked k
         then r = Inr (map2 (\<lambda>k x. the (look m1 k) + x) ks xs) \<and> (writeBuffer m1 = [] \<longrightarrow> set ks \<subseteq> recorded m2) else \<exists>e. r = Inl e"
        using Cons.IH [of m1 xs] ms(2) m1(2) by (auto simp: same_def)
      have l: "look m1 = look m" "writeBuffer m1 = writeBuffer m" using m1(2) by (simp_all add: same_def)
      have k: "k \<in> recorded m1 \<Longrightarrow> k \<in> recorded m2" using r(2) by (auto simp: same_def)
      show ?thesis using m1 unl Some ms r same_trans [OF m1(2) r(2)] k unfolding l
        by (auto simp: go_index_def split: if_splits)
    qed
  qed
qed

lemma write_all_result:
  assumes "inv m" "\<forall>(k, v)\<in>set ws. settable k \<and> \<not> locked k"
  shows "\<exists>m'. write_all G locked ws m = Ret (Nil_ptr, m') \<and> inv m' \<and> look m' = put_all ws (look m) \<and>
    writeBuffer m' = put_buffer ws (writeBuffer m) \<and> base m' = base m \<and> recorded m' = recorded m"
  using assms
proof (induction ws arbitrary: m)
  case (Cons w ws)
  obtain k v where w: "w = (k, v)" by (cases w)
  obtain m1 where m1: "g_Set G k v m = Ret (Nil_ptr, m1)" "inv m1" "look m1 = (look m)(k \<mapsto> v)"
    "writeBuffer m1 = m_put k v (writeBuffer m)" "base m1 = base m" "recorded m1 = recorded m"
    using set_ok [of m k v] Cons.prems w by auto
  show ?case using Cons.IH [OF m1(2)] Cons.prems m1 w by (auto simp del: fun_upd_apply)
qed simp

end

lemma zip_map2: "zip ks (map2 (\<lambda>k x. f k x) ks ms) = map2 (\<lambda>k x. (k, f k x)) ks ms"
proof (induction ks arbitrary: ms)
  case (Cons k ks)
  then show ?case by (cases ms) auto
qed simp

lemma validate_lengths: "ValidateTransferTx tx = Nil_ptr \<Longrightarrow> length (FromMoney tx) = length (From tx) \<and> length (ToMoney tx) = length (To tx)"
  by (auto simp: ValidateTransferTx_def split: if_splits)

lemma in_map2_key: "p \<in> set (map2 (\<lambda>k x. (k, f k x)) ks ms) \<Longrightarrow> fst p \<in> set ks"
  by (auto dest: set_zip_leftD)

context balances begin

text \<open>A transfer either fails and leaves the balances alone or performs exactly its writes.\<close>

lemma transfer_result:
  assumes "inv m"
  shows "\<exists>e m'. doTransfer G locked tx m = Ret (e, m') \<and> inv m' \<and> base m' = base m \<and>
    (if can_transfer locked (look m) tx
     then e = Nil_ptr \<and> look m' = put_all (transfer_writes (look m) tx) (look m) \<and>
       writeBuffer m' = put_buffer (transfer_writes (look m) tx) (writeBuffer m) \<and>
       (writeBuffer m = [] \<longrightarrow> set (From tx @ To tx) \<subseteq> recorded m')
     else e \<noteq> Nil_ptr)"
proof (cases "ValidateTransferTx tx")
  case (Ptr e)
  then show ?thesis using assms by (auto simp: doTransfer_def can_transfer_def)
next
  case Nil_ptr
  note len = validate_lengths [OF Nil_ptr]
  let ?from = "(\<forall>k\<in>set (From tx). look m k \<noteq> None \<and> \<not> locked k) \<and> list_all2 (\<lambda>k x. x \<le> the (look m k)) (From tx) (FromMoney tx)"
  let ?to = "\<forall>k\<in>set (To tx). look m k \<noteq> None \<and> \<not> locked k"
  obtain rf m1 where f: "read_froms G locked (From tx) (FromMoney tx) m = Ret (rf, m1)" "same m m1"
    "if ?from then rf = Inr (map2 (\<lambda>k x. the (look m k) - x) (From tx) (FromMoney tx)) \<and> (writeBuffer m = [] \<longrightarrow> set (From tx) \<subseteq> recorded m1)
     else \<exists>e. rf = Inl e"
    using read_froms_result [OF assms] len by blast
  have s1: "inv m1" "look m1 = look m" "writeBuffer m1 = writeBuffer m" "base m1 = base m" using f(2) by (simp_all add: same_def)
  have can: "can_transfer locked (look m) tx \<longleftrightarrow> ?from \<and> ?to" using Nil_ptr by (auto simp: can_transfer_def)
  show ?thesis
  proof (cases ?from)
    case False
    then obtain e where "rf = Inl e" using f(3) by (auto split: if_splits)
    then show ?thesis using f(1) s1 False Nil_ptr can by (auto simp: doTransfer_def)
  next
    case rd: True
    obtain rt m2 where t: "read_tos G locked (To tx) (ToMoney tx) m1 = Ret (rt, m2)" "same m1 m2"
      "if ?to then rt = Inr (map2 (\<lambda>k x. the (look m k) + x) (To tx) (ToMoney tx)) \<and> (writeBuffer m = [] \<longrightarrow> set (To tx) \<subseteq> recorded m2)
       else \<exists>e. rt = Inl e"
      using read_tos_result [OF s1(1), of "ToMoney tx" "To tx" locked] len unfolding s1 by blast
    have s2: "inv m2" "look m2 = look m" "writeBuffer m2 = writeBuffer m" "base m2 = base m"
      using t(2) s1 by (simp_all add: same_def)
    show ?thesis
    proof (cases ?to)
      case False
      then obtain e where "rt = Inl e" using t(3) by (auto split: if_splits)
      then show ?thesis using f t(1) s2 False rd Nil_ptr can by (auto simp: doTransfer_def)
    next
      case wr: True
      let ?wf = "map2 (\<lambda>k x. (k, the (look m k) - x)) (From tx) (FromMoney tx)"
      let ?wt = "map2 (\<lambda>k x. (k, the (look m k) + x)) (To tx) (ToMoney tx)"
      have okf: "\<forall>(k, v)\<in>set ?wf. settable k \<and> \<not> locked k"
        using rd look_settable [OF assms] by (fastforce dest: set_zip_leftD)
      have okt: "\<forall>(k, v)\<in>set ?wt. settable k \<and> \<not> locked k"
        using wr look_settable [OF assms] by (fastforce dest: set_zip_leftD)
      obtain m3 where m3: "write_all G locked ?wf m2 = Ret (Nil_ptr, m3)" "inv m3" "look m3 = put_all ?wf (look m)"
        "writeBuffer m3 = put_buffer ?wf (writeBuffer m)" "base m3 = base m" "recorded m3 = recorded m2"
        using write_all_result [OF s2(1) okf] s2 by auto
      obtain m4 where m4: "write_all G locked ?wt m3 = Ret (Nil_ptr, m4)" "inv m4" "look m4 = put_all ?wt (put_all ?wf (look m))"
        "writeBuffer m4 = put_buffer ?wt (put_buffer ?wf (writeBuffer m))" "base m4 = base m" "recorded m4 = recorded m2"
        using write_all_result [OF m3(2) okt] m3 by auto
      have "doTransfer G locked tx m = Ret (Nil_ptr, m4)"
        using f(1,3) rd t(1,3) wr m3(1) m4(1) Nil_ptr by (simp add: doTransfer_def zip_map2)
      moreover have "writeBuffer m = [] \<longrightarrow> set (From tx @ To tx) \<subseteq> recorded m4"
        using f(3) t(2,3) rd wr m4(6) by (auto simp: same_def)
      ultimately show ?thesis using m4 can rd wr by (auto simp: transfer_writes_def put_all_append put_buffer_append)
    qed
  qed
qed

end

section \<open>Databases that keep accounts implement the ledger\<close>

lemma overlay_put: "overlay b m' = put_all ws (overlay b m)" if "writeBuffer m' = put_buffer ws (writeBuffer m)"
proof -
  have "m_get (put_buffer ws wb) = put_all ws (m_get wb)" for wb
    by (induction ws arbitrary: wb) (auto simp: update_conv' simp del: fun_upd_apply)
  moreover have "b ++ put_all ws f = put_all ws (b ++ f)" for f
    by (induction ws arbitrary: f) (auto simp: map_add_upd simp del: fun_upd_apply)
  ultimately show ?thesis using that by (simp add: overlay_def)
qed

context accounts begin

abbreviation accts :: "MemoryDB \<Rightarrow> string \<rightharpoonup> 32 word" where
  "accts m \<equiv> overlay (base m) m"

lemma look_accts: "inv m \<Longrightarrow> look m = (\<lambda>k. if settable k then Some (map_get initBalance (accts m) k) else None)"
  by (rule ext) (rule look_account)

lemma transfer_refines:
  assumes "inv m"
  shows "\<exists>e m'. doTransfer G locked tx m = Ret (e, m') \<and> usable m' \<and> base m' = base m \<and>
    (case ledger_transfer settable locked tx (accts m) of None \<Rightarrow> e \<noteq> Nil_ptr | Some b \<Rightarrow> e = Nil_ptr \<and> accts m' = b)"
proof -
  obtain e m' where r: "doTransfer G locked tx m = Ret (e, m')" "inv m'" "base m' = base m"
    "if can_transfer locked (look m) tx
     then e = Nil_ptr \<and> writeBuffer m' = put_buffer (transfer_writes (look m) tx) (writeBuffer m) else e \<noteq> Nil_ptr"
    using transfer_result [OF assms, of locked tx] by (auto split: if_splits)
  then show ?thesis using inv_usable [OF r(2)] overlay_put [of m' "transfer_writes (look m) tx" m "base m"]
    by (auto simp: ledger_transfer_def look_accts [OF assms, symmetric] split: if_splits)
qed

lemma insert_refines:
  assumes "inv m"
  shows "\<exists>e m'. doInsert G locked tx m = Ret (e, m') \<and> usable m' \<and> base m' = base m \<and>
    (case ledger_insert settable locked tx (accts m) of None \<Rightarrow> e \<noteq> Nil_ptr | Some b \<Rightarrow> e = Nil_ptr \<and> accts m' = b)"
proof (cases "locked (Account tx)")
  case True
  then show ?thesis using inv_usable [OF assms] by (simp add: doInsert_def ledger_insert_def)
next
  case unl: False
  show ?thesis
  proof (cases "settable (Account tx)")
    case False
    then show ?thesis using has_out [OF assms False] unl inv_usable [OF assms] by (auto simp: doInsert_def ledger_insert_def)
  next
    case set: True
    show ?thesis
    proof (cases "accts m (Account tx)")
      case None
      obtain m' where "g_Set G (Account tx) (Money tx) m = Ret (Nil_ptr, m')" "inv m'" "base m' = base m"
        "writeBuffer m' = put_buffer [(Account tx, Money tx)] (writeBuffer m)"
        using set_ok [OF assms set] by auto
      then show ?thesis using has_none [OF assms set None] None set unl inv_usable overlay_put [of m' "[(Account tx, Money tx)]" m "base m"]
        by (auto simp: doInsert_def ledger_insert_def)
    next
      case (Some v)
      then show ?thesis using has_account [OF assms set Some] set unl by (auto simp: doInsert_def ledger_insert_def)
    qed
  qed
qed

lemma execute_refines:
  assumes "inv m"
  shows "\<exists>e m'. execute L G locked tx m = Ret (e, m') \<and> usable m' \<and> base m' = base m \<and>
    (case ledger_tx L settable locked tx (accts m) of None \<Rightarrow> e \<noteq> Nil_ptr | Some b \<Rightarrow> e = Nil_ptr \<and> accts m' = b)"
proof (cases "length tx < 4")
  case True
  then show ?thesis using inv_usable [OF assms] by (simp add: execute_def ledger_tx_def)
next
  case False
  then obtain ty where ty: "BytesToUint32 (take 4 tx) = Ret ty" using BytesToUint32_four [of "take 4 tx"] by auto
  have sl: "go_slice tx 4 (int (length tx)) = Ret (drop 4 tx)" using False by (simp add: go_slice_def)
  have ne: "TxTransfer \<noteq> TxInsert" by (simp add: TxTransfer_def TxInsert_def)
  show ?thesis using False ty sl ne inv_usable [OF assms] transfer_refines [OF assms, of locked] insert_refines [OF assms, of locked]
    by (auto simp: execute_def ledger_tx_def NewTransferTxFromBytes_def split: option.splits)
qed

text \<open>A block of transactions: the receipts tell which succeeded, and only those take effect.\<close>

lemma inner_txs_refines:
  assumes "inv m" "writeBuffer m = []"
  shows "\<exists>rcs m'. inner_txs L G locked txs m = Ret (rcs, m') \<and> inv m' \<and> writeBuffer m' = [] \<and>
    ledger_run L settable locked txs (base m) = (map (Receipt_IsOK \<circ> deref) rcs, base m') \<and> Nil_ptr \<notin> set rcs"
  using assms
proof (induction txs arbitrary: m)
  case (Cons tx txs)
  have a: "accts m = base m" using Cons.prems by (simp add: overlay_def)
  obtain e m1 where m1: "execute L G locked tx m = Ret (e, m1)" "usable m1" "base m1 = base m"
    "case ledger_tx L settable locked tx (base m) of None \<Rightarrow> e \<noteq> Nil_ptr | Some b \<Rightarrow> e = Nil_ptr \<and> accts m1 = b"
    using execute_refines [OF Cons.prems(1), of L locked tx] a by auto
  have c: "inv (CommitWrite (is_nil e) m1)" "base (CommitWrite (is_nil e) m1) = (if is_nil e then accts m1 else base m)"
    using commit [OF m1(2)] m1(3) by auto
  have w: "writeBuffer (CommitWrite (is_nil e) m1) = []" by (simp add: CommitWrite_def)
  obtain rcs m2 where r: "inner_txs L G locked txs (CommitWrite (is_nil e) m1) = Ret (rcs, m2)" "inv m2" "writeBuffer m2 = []"
    "ledger_run L settable locked txs (base (CommitWrite (is_nil e) m1)) = (map (Receipt_IsOK \<circ> deref) rcs, base m2)" "Nil_ptr \<notin> set rcs"
    using Cons.IH [OF c(1) w] by blast
  have ok: "Receipt_IsOK (receipt CodeTypeOK x)" "\<not> Receipt_IsOK (receipt CodeTypeAbort x)" for x
    by (simp_all add: receipt_def Receipt_IsOK_def code_type_defs)
  show ?case
  proof (cases "ledger_tx L settable locked tx (base m)")
    case None
    then obtain x where e: "e = Ptr x" using m1(4) by (cases e) auto
    show ?thesis using m1(1) c r None ok e by auto
  next
    case (Some b)
    then have e: "e = Nil_ptr" "accts m1 = b" using m1(4) by auto
    show ?thesis using m1(1) c r Some ok e by auto
  qed
qed simp

end

text \<open>The accounts of a store that are within a range.\<close>

lemma execute_inner_result:
  assumes "kv_ok db"
  shows "\<exists>rcs db'. execute_inner L app (Ptr t) block db = Ret (rcs, db') \<and> kv_ok db' \<and>
    (\<exists>b. ledger_run L (RangeTrees.Search t) (app_locked app) (BodyTxs (b_Body block)) (stored db) = (map (Receipt_IsOK \<circ> deref) rcs, b) \<and>
      (\<forall>k. stored db' k = (if RangeTrees.Search t k then b k else stored db k))) \<and>
    (\<forall>y. (\<forall>k. RangeTrees.Search t k \<longrightarrow> y \<noteq> toDataKey (str_bytes k)) \<longrightarrow> contents db' y = contents db y)"
proof -
  have i: "mem_inv db NewMemoryDB" using assms by (simp add: mem_inv_def mem_usable_def NewMemoryDB_def)
  have w0: "writeBuffer NewMemoryDB = []" by (simp add: NewMemoryDB_def)
  have c0: "committed db NewMemoryDB = stored db" by (simp add: committed_def NewMemoryDB_def)
  note q = range.inner_txs_refines [OF i w0, of L t "app_locked app" "BodyTxs (b_Body block)", unfolded c0]
  obtain rcs m where r: "inner_txs L (range_db db (Ptr t)) (app_locked app) (BodyTxs (b_Body block)) NewMemoryDB = Ret (rcs, m)"
    "mem_inv db m"
    "ledger_run L (RangeTrees.Search t) (app_locked app) (BodyTxs (b_Body block)) (stored db) = (map (Receipt_IsOK \<circ> deref) rcs, committed db m)"
    using q by (elim exE conjE) (rule that)
  obtain db' where w: "write_out (RangeTrees.Search t) db m = (Nil_ptr, db', clearMemory m)" "kv_ok db'"
    "\<forall>k. stored db' k = (if RangeTrees.Search t k then committed db m k else stored db k)"
    "\<forall>y. (\<forall>k. RangeTrees.Search t k \<longrightarrow> y \<noteq> toDataKey (str_bytes k)) \<longrightarrow> contents db' y = contents db y"
    using write_out_ok [OF range.inv_usable [OF r(2)], of "RangeTrees.Search t"] by (elim exE conjE) (rule that)
  have "execute_inner L app (Ptr t) block db = Ret (rcs, db')"
    using r(1) w(1) by (simp add: execute_inner_def write_range_def RangeDB_Write_def)
  then show ?thesis using w r(3) by (intro exI [where x = rcs] exI [where x = db'] exI [where x = "committed db m"] conjI)
qed

section \<open>Conservation of money\<close>

definition balance_of :: "kv \<Rightarrow> MemoryDB \<Rightarrow> string \<Rightarrow> 32 word" where
  "balance_of db m k = map_get initBalance (overlay (committed db m) m) k"

lemma sum_put_all:
  fixes d :: "32 word"
  assumes "finite A" "distinct (map fst ws)" "fst ` set ws \<subseteq> A"
  shows "(\<Sum>k\<in>A. map_get d (put_all ws f) k) = (\<Sum>k\<in>A. map_get d f k) + sum_list (map (\<lambda>(k, v). v - map_get d f k) ws)"
  using assms
proof (induction ws arbitrary: f)
  case (Cons w ws)
  obtain k v where w: "w = (k, v)" by (cases w)
  have k: "k \<in> A" "k \<notin> fst ` set ws" using Cons.prems w by auto
  have "map (\<lambda>(x, y). y - map_get d (f(k \<mapsto> v)) x) ws = map (\<lambda>(x, y). y - map_get d f x) ws"
    using k(2) by (auto simp: map_get_def image_iff)
  moreover have "(\<Sum>x\<in>A. map_get d (f(k \<mapsto> v)) x) = (\<Sum>x\<in>A. map_get d f x) + (v - map_get d f k)"
  proof -
    have "(\<Sum>x\<in>A - {k}. map_get d (f(k \<mapsto> v)) x) = (\<Sum>x\<in>A - {k}. map_get d f x)"
      by (rule sum.cong) (auto simp: map_get_def)
    then show ?thesis using assms(1) k(1) by (simp add: sum.remove map_get_def [of d "f(k \<mapsto> v)" k])
  qed
  moreover have "(\<Sum>x\<in>A. map_get d (put_all ws (f(k \<mapsto> v))) x) = (\<Sum>x\<in>A. map_get d (f(k \<mapsto> v)) x) +
      sum_list (map (\<lambda>(x, y). y - map_get d (f(k \<mapsto> v)) x) ws)" using Cons.IH [of "f(k \<mapsto> v)"] Cons.prems w by (simp del: fun_upd_apply)
  ultimately show ?case unfolding w by (simp only: put_all_simps list.map sum_list.Cons prod.case add.assoc)
qed simp

lemma sum_list_map2: "length ks = length xs \<Longrightarrow> sum_list (map2 (\<lambda>k x. x) ks xs) = sum_list xs"
  "length ks = length xs \<Longrightarrow> sum_list (map2 (\<lambda>k x. - x) ks xs) = - sum_list xs" for xs :: "32 word list"
  by (induction ks xs rule: list_induct2) auto

lemma foldl_plus: "foldl (+) a xs = a + sum_list xs" for a :: "32 word"
  by (induction xs arbitrary: a) (auto simp: add.assoc)

lemma transfer_sum:
  assumes "can_transfer locked look tx" "\<And>k. look k \<noteq> None \<Longrightarrow> look k = Some (map_get d b k)"
  shows "sum_list (map (\<lambda>(k, v). v - map_get d b k) (transfer_writes look tx)) = (0 :: 32 word)"
proof -
  have v: "ValidateTransferTx tx = Nil_ptr" using assms(1) by (simp add: can_transfer_def)
  have ks: "the (look k) = map_get d b k" if "k \<in> set (From tx @ To tx)" for k
  proof -
    have "look k \<noteq> None" using assms(1) that unfolding can_transfer_def by blast
    then show ?thesis using assms(2) [of k] by simp
  qed
  note len = validate_lengths [OF v]
  have "map (\<lambda>(k, v). v - map_get d b k) (transfer_writes look tx) =
      map2 (\<lambda>k x. - x) (From tx) (FromMoney tx) @ map2 (\<lambda>k x. x) (To tx) (ToMoney tx)"
    using ks by (auto simp: transfer_writes_def dest: set_zip_leftD)
  moreover have "sum_list (FromMoney tx) = sum_list (ToMoney tx)"
    using v by (auto simp: ValidateTransferTx_def foldl_plus split: if_splits)
  ultimately show ?thesis using len by (simp add: sum_list_map2)
qed

lemma transfer_keys: "ValidateTransferTx tx = Nil_ptr \<Longrightarrow> map fst (transfer_writes look tx) = From tx @ To tx"
  using validate_lengths [of tx] by (simp add: transfer_writes_def comp_def case_prod_beta zip_map_fst_snd)

text \<open>A transfer at a shard, as writes on its balances.\<close>

lemma range_transfer:
  assumes "mem_inv db m" "doTransfer (range_db db (Ptr t)) locked tx m = Ret (Nil_ptr, m')"
  shows "can_transfer locked (reach_look (RangeTrees.Search t) db m) tx"
    "balance_of db m' = map_get initBalance (put_all (transfer_writes (reach_look (RangeTrees.Search t) db m) tx) (overlay (committed db m) m))"
proof -
  let ?look = "reach_look (RangeTrees.Search t) db m"
  have r: "committed db m' = committed db m" "can_transfer locked ?look tx" "writeBuffer m' = put_buffer (transfer_writes ?look tx) (writeBuffer m)"
    using range.transfer_result [OF assms(1), of t locked tx] assms(2) by (auto split: if_splits)
  show "can_transfer locked ?look tx" by (rule r)
  show "balance_of db m' = map_get initBalance (put_all (transfer_writes ?look tx) (overlay (committed db m) m))"
    using overlay_put [OF r(3), of "committed db m"] r(1) by (intro ext) (simp add: balance_of_def)
qed

section \<open>Properties\<close>

definition demo_transfer :: pb_TransferTx where
  "demo_transfer = \<lparr>From = [''a''], To = [''c''], FromMoney = [5], ToMoney = [5], tx_Buffer = [], tx_Time = Nil_ptr\<rparr>"

definition demo_bank :: bank_lib where
  "demo_bank = \<lparr>transfer_codec = one_codec demo_transfer [1], insert_codec = one_codec \<lparr>Account = ''d'', Money = 7, ins_Buffer = [], ins_Time = Nil_ptr\<rparr> [2],
     data_codec = one_codec \<lparr>bd_Keys = [''a'', ''c''], bd_OK = True, bd_Values = [1000000, 1000000]\<rparr> [3],
     lib_time = (\<lambda>t. Some [7]), unmarshal_text = (\<lambda>bz. []), store_text = (\<lambda>e. [])\<rparr>"

definition demo_range :: RangeTree where
  "demo_range = \<lparr>start = ''a'', stop = ''k'', root = Ptr (Leaf ''k'' 0)\<rparr>"

definition demo_tx :: bytes where
  "demo_tx = Uint32ToBytes TxTransfer @ [1]"

definition empty_kv :: kv where
  "empty_kv = \<lparr>contents = Map.empty, failing = (\<lambda>k. False)\<rparr>"

lemma demo_facts:
  "kv_ok empty_kv" "stored empty_kv = Map.empty" "RangeTrees.Search demo_range ''a''" "RangeTrees.Search demo_range ''c''"
  "BytesToUint32 (take 4 demo_tx) = Ret TxTransfer" "Unmarshal (transfer_codec demo_bank) (drop 4 demo_tx) = Some demo_transfer"
  by (auto simp: kv_ok_def empty_kv_def stored_def fun_eq_iff demo_range_def RangeTrees.Search_def strInRangeRightOpen_def
      demo_tx_def BytesToUint32_def Uint32ToBytes_def demo_bank_def one_codec_def)

lemma demo_transfer_can:
  "can_transfer (\<lambda>k. False) (\<lambda>k. if RangeTrees.Search demo_range k then Some (map_get initBalance Map.empty k) else None) demo_transfer"
  "transfer_writes (\<lambda>k. if RangeTrees.Search demo_range k then Some (map_get initBalance Map.empty k) else None) demo_transfer =
     [(''a'', 999995), (''c'', 1000005)]"
  using demo_facts(3,4)
  by (simp_all add: can_transfer_def transfer_writes_def demo_transfer_def ValidateTransferTx_def map_get_def initBalance_def)

lemma demo_ledger:
  "ledger_run demo_bank (RangeTrees.Search demo_range) (\<lambda>k. False) [demo_tx] Map.empty = ([True], [''a'' \<mapsto> 999995, ''c'' \<mapsto> 1000005])"
  using demo_facts(5,6) demo_transfer_can by (simp add: ledger_tx_def ledger_transfer_def) (simp add: demo_tx_def Uint32ToBytes_def)

text \<open>C11: executing an inner block implements the abstract ledger: on a shard's range over an accessible
  store it returns, the receipts tell which transactions the ledger accepts, failed transactions have no
  effect, the accounts of the range become those of the ledger, and nothing else of the store changes.\<close>

theorem inner_block_refines_ledger:
  assumes "kv_ok db"
  shows "\<exists>rcs db' b. execute_inner L app (Ptr t) block db = Ret (rcs, db') \<and> kv_ok db' \<and>
    ledger_run L (RangeTrees.Search t) (app_locked app) (BodyTxs (b_Body block)) (stored db) = (map (Receipt_IsOK \<circ> deref) rcs, b) \<and>
    (\<forall>k. stored db' k = (if RangeTrees.Search t k then b k else stored db k)) \<and>
    (\<forall>y. (\<forall>k. RangeTrees.Search t k \<longrightarrow> y \<noteq> toDataKey (str_bytes k)) \<longrightarrow> contents db' y = contents db y)"
  using execute_inner_result [OF assms, of L app t block] by blast

theorem inner_block_refines_ledger_witness:
  "\<exists>rcs db'. execute_inner demo_bank (NewApplication empty_kv ''a'' True (Ptr demo_range) Map.empty) (Ptr demo_range)
       (demo_block\<lparr>b_Body := \<lparr>BodyTxs = [demo_tx]\<rparr>\<rparr>) empty_kv = Ret (rcs, db') \<and>
     map (Receipt_IsOK \<circ> deref) rcs = [True] \<and> stored db' ''a'' = Some 999995 \<and> stored db' ''c'' = Some 1000005"
proof -
  have l: "app_locked (NewApplication empty_kv ''a'' True (Ptr demo_range) Map.empty) = (\<lambda>k. False)"
    by (simp add: app_locked_def NewApplication_def map_get_def fun_eq_iff)
  show ?thesis
    using inner_block_refines_ledger [OF demo_facts(1), of demo_bank "NewApplication empty_kv ''a'' True (Ptr demo_range) Map.empty"
        demo_range "demo_block\<lparr>b_Body := \<lparr>BodyTxs = [demo_tx]\<rparr>\<rparr>"] demo_facts(2-4) demo_ledger l
    by auto
qed


lemma demo_range_transfer:
  "\<exists>m'. doTransfer (range_db empty_kv (Ptr demo_range)) (\<lambda>k. False) demo_transfer NewMemoryDB = Ret (Nil_ptr, m')"
proof -
  have i: "mem_inv empty_kv NewMemoryDB" using demo_facts(1) by (simp add: mem_inv_def mem_usable_def NewMemoryDB_def)
  have "overlay (committed empty_kv NewMemoryDB) NewMemoryDB = Map.empty"
    using demo_facts(2) by (simp add: overlay_def committed_def NewMemoryDB_def)
  then have "reach_look (RangeTrees.Search demo_range) empty_kv NewMemoryDB =
      (\<lambda>k. if RangeTrees.Search demo_range k then Some (map_get initBalance Map.empty k) else None)"
    by (intro ext) (simp add: reach_look_def)
  then show ?thesis using range.transfer_result [OF i, of demo_range "\<lambda>k. False" demo_transfer] demo_transfer_can(1) by auto
qed


text \<open>A transfer from an account to itself creates money: it succeeds whenever the account is unlocked,
  within the range and covers the amount, and then the account has gained the amount; no other balance
  changes.\<close>

theorem self_transfer_mints:
  assumes "mem_inv db m" "RangeTrees.Search t k" "\<not> locked k" "x \<le> balance_of db m k"
  shows "\<exists>m'. doTransfer (range_db db (Ptr t)) locked (NewTransferTx now [k] [x] [k] [x]) m = Ret (Nil_ptr, m') \<and>
    balance_of db m' = (balance_of db m)(k := balance_of db m k + x)"
proof -
  let ?tx = "NewTransferTx now [k] [x] [k] [x]" and ?look = "reach_look (RangeTrees.Search t) db m"
  have lk: "?look k = Some (balance_of db m k)" using assms(2) by (simp add: reach_look_def balance_of_def)
  have can: "can_transfer locked ?look ?tx"
    using assms(3,4) lk by (simp add: can_transfer_def NewTransferTx_def ValidateTransferTx_def)
  then obtain m' where m': "doTransfer (range_db db (Ptr t)) locked ?tx m = Ret (Nil_ptr, m')"
    using range.transfer_result [OF assms(1), of t locked ?tx] by auto
  have "transfer_writes ?look ?tx = [(k, balance_of db m k - x), (k, balance_of db m k + x)]"
    using lk by (simp add: transfer_writes_def NewTransferTx_def)
  then have "balance_of db m' = (balance_of db m)(k := balance_of db m k + x)"
    using range_transfer(2) [OF assms(1) m'] by (auto simp: fun_eq_iff balance_of_def map_get_def)
  then show ?thesis using m' by blast
qed

theorem self_transfer_mints_witness:
  "\<exists>m'. doTransfer (range_db empty_kv (Ptr demo_range)) (\<lambda>k. False) (NewTransferTx \<lparr>sec = 0, nsec = 0\<rparr> [''a''] [9] [''a''] [9]) NewMemoryDB =
       Ret (Nil_ptr, m') \<and> balance_of empty_kv m' ''a'' = 1000009"
proof -
  have i: "mem_inv empty_kv NewMemoryDB" using demo_facts(1) by (simp add: mem_inv_def mem_usable_def NewMemoryDB_def)
  have b: "balance_of empty_kv NewMemoryDB k = 1000000" for k
    using demo_facts(2) by (simp add: balance_of_def overlay_def committed_def NewMemoryDB_def map_get_def initBalance_def)
  show ?thesis
    using self_transfer_mints [OF i demo_facts(3), of "\<lambda>k. False" 9 "\<lparr>sec = 0, nsec = 0\<rparr>"] b by auto
qed

end
