(* ===== verification/CrossShard.thy ===== *)
theory CrossShard
  imports Ledger
begin

text \<open>
  Cross-shard transactions in the banking application: what a boundary shard records when it
  pre-executes a block is enough to repeat the execution elsewhere, so that boundary and inner shards
  commit the same effects; and the execution of a height stays within the key ranges of its shards.
\<close>

section \<open>Cross-shard data\<close>

lemma data_loop_ok:
  assumes "\<And>j. j < length keys \<Longrightarrow> i + j < length vals \<and> vals ! (i + j) = f (keys ! j)"
  shows "\<exists>out. data_loop keys vals (int i) m = Ret out \<and> m_get out = (\<lambda>k. if k \<in> set keys then Some (f k) else m_get m k)"
  using assms
proof (induction keys arbitrary: i m)
  case (Cons k ks)
  have v: "i < length vals" "vals ! i = f k" using Cons.prems [of 0] by auto
  have "\<exists>out. data_loop ks vals (int (Suc i)) (m_put k (f k) m) = Ret out \<and>
      m_get out = (\<lambda>x. if x \<in> set ks then Some (f x) else m_get (m_put k (f k) m) x)"
  proof (rule Cons.IH)
    fix j assume "j < length ks"
    then show "Suc i + j < length vals \<and> vals ! (Suc i + j) = f (ks ! j)" using Cons.prems [of "Suc j"] by simp
  qed
  then obtain out where o: "data_loop ks vals (int i + 1) (m_put k (f k) m) = Ret out"
    "m_get out = (\<lambda>x. if x \<in> set ks then Some (f x) else m_get (m_put k (f k) m) x)"
    by (auto simp: add.commute)
  then show ?case using v by (auto simp: update_conv' fun_eq_iff)
qed simp

text \<open>What the boundary shard encodes is what the other shards decode.\<close>

lemma cross_data_roundtrip:
  assumes "codec_ok (data_codec L)" "CrossShardDataBytes L data ok = Ret bz"
  shows "\<exists>out. NewCrossShardDataFromBytes L bz = Ret (Inr (out, ok)) \<and> m_get out = m_get data"
proof -
  let ?keys = "sort (m_keys data)"
  let ?bd = "\<lparr>bd_Keys = ?keys, bd_OK = ok, bd_Values = map (map_get 0 (m_get data)) ?keys\<rparr>"
  have "Marshal (data_codec L) ?bd = Some bz"
    using assms(2) by (auto simp: CrossShardDataBytes_def MustProtoBytes_def Let_def split: option.splits)
  then have u: "Unmarshal (data_codec L) bz = Some ?bd" using assms(1) unfolding codec_ok_def by blast
  obtain out where o: "data_loop ?keys (map (map_get 0 (m_get data)) ?keys) (int 0) [] = Ret out"
    "m_get out = (\<lambda>k. if k \<in> set ?keys then Some (map_get 0 (m_get data) k) else m_get [] k)"
    using data_loop_ok [of ?keys 0 "map (map_get 0 (m_get data)) ?keys" "map_get 0 (m_get data)" "[]"] by auto
  have "m_get out = m_get data"
  proof
    fix k
    have "k \<in> fst ` set data \<longleftrightarrow> m_get data k \<noteq> None" by (simp add: map_of_eq_None_iff)
    then show "m_get out k = m_get data k" using o(2) by (auto simp: map_get_def)
  qed
  then show ?thesis using u o(1) by (simp add: NewCrossShardDataFromBytes_def)
qed

section \<open>Boundary and inner shards agree\<close>

lemma put_all_cong: "(\<And>k. f k = g k) \<Longrightarrow> put_all ws f = put_all ws g"
  by presburger

text \<open>Executing on the recorded reads repeats a successful execution of the boundary shard.\<close>

lemma transfer_replays:
  assumes "mem_inv db m" "writeBuffer m = []" "doTransfer (range_db db (Ptr t)) locked tx m = Ret (Nil_ptr, m1)"
    and "m_get data = m_get (readBuffer m1)" "writeBuffer mc = []"
  shows "\<exists>mc'. doTransfer (cross_db data) locked tx mc = Ret (Nil_ptr, mc') \<and> writeBuffer mc' = writeBuffer m1 \<and> memDB mc' = memDB mc"
proof -
  let ?look = "reach_look (RangeTrees.Search t) db m"
  have r: "mem_inv db m1" "committed db m1 = committed db m" "can_transfer locked ?look tx"
    "writeBuffer m1 = put_buffer (transfer_writes ?look tx) []" "set (From tx @ To tx) \<subseteq> reads m1"
    using range.transfer_result [OF assms(1), of t locked tx] assms(2,3) by (auto split: if_splits)
  have same: "cross_look data mc k = ?look k" if k: "k \<in> set (From tx @ To tx)" for k
  proof -
    obtain v where v: "m_get (readBuffer m1) k = Some v" using k r(5) by (auto simp: reads_def)
    then have "v = map_get initBalance (committed db m) k" using r(1,2) by (simp add: mem_inv_def)
    moreover have "?look k \<noteq> None" using r(3) k by (simp add: can_transfer_def)
    ultimately show ?thesis using v assms(2,4,5)
      by (auto simp: cross_look_def overlay_def reach_look_def split: if_splits)
  qed
  have val: "ValidateTransferTx tx = Nil_ptr" using r(3) by (simp add: can_transfer_def)
  note len = validate_lengths [OF val]
  have can: "can_transfer locked (cross_look data mc) tx"
    using r(3) same len by (auto simp: can_transfer_def list_all2_conv_all_nth)
  have ws: "transfer_writes (cross_look data mc) tx = transfer_writes ?look tx"
    using same by (auto simp: transfer_writes_def dest: set_zip_leftD)
  show ?thesis using cross.transfer_result [where data = data and m = mc and locked = locked and tx = tx] can ws assms(5) r(4) by auto
qed

lemma insert_replays:
  assumes "mem_inv db m" "writeBuffer m = []" "readBuffer m = []"
    and "doInsert (range_db db (Ptr t)) locked tx m = Ret (Nil_ptr, m1)"
    and "m_get data = m_get (readBuffer m1)" "writeBuffer mc = []"
  shows "\<exists>mc'. doInsert (cross_db data) locked tx mc = Ret (Nil_ptr, mc') \<and> writeBuffer mc' = writeBuffer m1 \<and> memDB mc' = memDB mc"
proof -
  have unl: "\<not> locked (Account tx)" using assms(4) by (auto simp: doInsert_def split: if_splits)
  have s: "RangeTrees.Search t (Account tx)"
    using assms(4) by (auto simp: doInsert_def range_db_def RangeDB_Has_def split: if_splits)
  have h: "MemoryDB_Has db (Account tx) m = (Inr False, m)"
  proof (cases "overlay (committed db m) m (Account tx)")
    case None
    then show ?thesis using assms(1) by (rule reach_has_none [rotated])
  next
    case (Some v)
    then show ?thesis using reach_has [OF assms(1) Some] assms(4) s unl by (auto simp: doInsert_def range_db_def RangeDB_Has_def)
  qed
  then have m1: "m1 = snd (MemoryDB_Set (Account tx) (Money tx) m)"
    using assms(4) s unl by (auto simp: doInsert_def range_db_def RangeDB_Has_def RangeDB_Set_def MemoryDB_Set_def)
  then have "m_get data (Account tx) = None" using assms(3,5) by (simp add: MemoryDB_Set_def)
  then show ?thesis using unl m1 assms(2,6)
    by (simp add: doInsert_def cross_db_def CrossShardDB_Has_def CrossShardDB_Set_def MemoryDB_Set_def m_has_def)
qed

lemma execute_replays:
  assumes "mem_inv db m" "writeBuffer m = []" "readBuffer m = []"
    and "execute L (range_db db (Ptr t)) locked tx m = Ret (Nil_ptr, m1)"
    and "m_get data = m_get (readBuffer m1)" "writeBuffer mc = []"
  shows "\<exists>mc'. execute L (cross_db data) locked tx mc = Ret (Nil_ptr, mc') \<and> writeBuffer mc' = writeBuffer m1 \<and> memDB mc' = memDB mc"
proof -
  have len: "\<not> length tx < 4" using assms(4) by (auto simp: execute_def)
  then obtain ty where ty: "BytesToUint32 (take 4 tx) = Ret ty" using BytesToUint32_four [of "take 4 tx"] by auto
  have sl: "go_slice tx 4 (int (length tx)) = Ret (drop 4 tx)" using len by (simp add: go_slice_def)
  show ?thesis
  proof (cases "ty = TxTransfer")
    case True
    then obtain q where q: "Unmarshal (transfer_codec L) (drop 4 tx) = Some q" "doTransfer (range_db db (Ptr t)) locked q m = Ret (Nil_ptr, m1)"
      using assms(4) len ty sl by (auto simp: execute_def NewTransferTxFromBytes_def split: option.splits)
    show ?thesis using transfer_replays [OF assms(1,2) q(2) assms(5,6)] q(1) True len ty sl
      by (simp add: execute_def NewTransferTxFromBytes_def)
  next
    case nt: False
    then have ti: "ty = TxInsert" using assms(4) len ty by (auto simp: execute_def split: if_splits)
    then obtain q where q: "Unmarshal (insert_codec L) (drop 4 tx) = Some q" "doInsert (range_db db (Ptr t)) locked q m = Ret (Nil_ptr, m1)"
      using assms(4) nt len ty by (auto simp: execute_def split: option.splits)
    show ?thesis using insert_replays [OF assms(1-3) q(2) assms(5,6)] q(1) ti nt len ty by (simp add: execute_def)
  qed
qed

text \<open>The data \<open>bz\<close> of a transaction with remembered writes \<open>out\<close>.\<close>

definition replayable :: "bank_lib \<Rightarrow> (string \<Rightarrow> bool) \<Rightarrow> bytes \<Rightarrow> csdata \<Rightarrow> bytes \<Rightarrow> bool" where
  "replayable L locked bz out tx \<longleftrightarrow>
     (\<exists>csdb ok. NewCrossShardDataFromBytes L bz = Ret (Inr (csdb, ok)) \<and>
       (ok \<longrightarrow> (\<forall>mc. writeBuffer mc = [] \<longrightarrow>
          (\<exists>mc'. execute L (cross_db csdb) locked tx mc = Ret (Nil_ptr, mc') \<and> writeBuffer mc' = out \<and> memDB mc' = memDB mc))))"

lemma range_execute_usable:
  assumes "mem_inv db m" "execute L (range_db db (Ptr t)) locked tx m = Ret (e, m1)"
  shows "mem_usable db m1"
  using range.execute_refines [OF assms(1), of L t locked tx] assms(2) by auto

lemma pre_execute_replayable:
  assumes "codec_ok (data_codec L)" "KeyRangeTree app = Ptr t"
    and "mem_inv (app_db app) m" "writeBuffer m = []" "readBuffer m = []"
    and "pre_execute L app txs m = Ret (ins, outs, datas)"
  shows "length outs = length txs \<and> length datas = length txs \<and>
    (\<forall>j<length txs. replayable L (app_locked app) (datas ! j) (outs ! j) (txs ! j))"
  using assms(3-6)
proof (induction txs arbitrary: m ins outs datas)
  case (Cons tx txs)
  obtain e m1 bz ins' outs' datas' where p: "execute L (range_db (app_db app) (Ptr t)) (app_locked app) tx m = Ret (e, m1)"
    "CrossShardDataBytes L (if is_nil e then GetReadSet m1 else []) (is_nil e) = Ret bz"
    "pre_execute L app txs (CommitWrite (is_nil e) m1) = Ret (ins', outs', datas')"
    "outs = (if is_nil e then GetWriteSet m1 else []) # outs'" "datas = bz # datas'"
    using Cons.prems(4) assms(2) by (auto simp: Let_def split: bind_splits)
  note c = CommitWrite_ok [OF range_execute_usable [OF Cons.prems(1) p(1)], of "is_nil e"]
  have ih: "length outs' = length txs \<and> length datas' = length txs \<and>
    (\<forall>j<length txs. replayable L (app_locked app) (datas' ! j) (outs' ! j) (txs ! j))"
    by (rule Cons.IH [OF c(1) c(3,4) p(3)])
  have r: "replayable L (app_locked app) bz (if is_nil e then GetWriteSet m1 else []) tx"
  proof -
    obtain csdb where d: "NewCrossShardDataFromBytes L bz = Ret (Inr (csdb, is_nil e))"
      "m_get csdb = m_get (if is_nil e then GetReadSet m1 else [])"
      using cross_data_roundtrip [OF assms(1) p(2)] by blast
    have "\<exists>mc'. execute L (cross_db csdb) (app_locked app) tx mc = Ret (Nil_ptr, mc') \<and> writeBuffer mc' = GetWriteSet m1 \<and> memDB mc' = memDB mc"
      if "is_nil e" "writeBuffer mc = []" for mc
    proof -
      have "e = Nil_ptr" using that(1) by (cases e) auto
      then show ?thesis using execute_replays [OF Cons.prems(1-3), of L t "app_locked app" tx m1 csdb mc] p(1) d(2) that(2)
        by (simp add: GetReadSet_def GetWriteSet_def)
    qed
    then show ?thesis using d(1) unfolding replayable_def by auto
  qed
  show ?case
  proof (intro conjI allI impI)
    show "length outs = length (tx # txs)" "length datas = length (tx # txs)" using ih p by simp_all
    fix j assume "j < length (tx # txs)"
    then show "replayable L (app_locked app) (datas ! j) (outs ! j) ((tx # txs) ! j)"
      using ih r p(4,5) by (cases j) auto
  qed
qed auto

lemma set_all_eq: "set_all data m = m\<lparr>writeBuffer := put_buffer data (writeBuffer m)\<rparr>"
proof (induction data arbitrary: m)
  case (Cons p ps)
  obtain k v where "p = (k, v)" by (cases p)
  then show ?case using Cons.IH [of "m\<lparr>writeBuffer := m_put k v (writeBuffer m)\<rparr>"] by (simp add: set_all_def MemoryDB_Set_def)
qed (simp add: set_all_def)

lemma commit_puts: "m_get (memDB (CommitWrite True m)) = m_get (memDB m) ++ map_of (rev (writeBuffer m))"
  by (simp add: CommitWrite_def map_of_fold_put)

lemma map_of_rev_put_buffer: "map_of (rev (put_buffer ws [])) = map_of (rev ws)"
proof -
  have "distinct (m_keys (put_buffer ws []))" unfolding put_buffer_def by (rule distinct_fold_put) simp
  then show ?thesis by (simp add: map_of_rev put_buffer_def map_of_fold_put)
qed

lemma cross_tx_agrees:
  assumes "D = CrossShardDatas (b_CrossShardBody blockC)" "CrossShardDatas (b_CrossShardBody blockI) = D"
    and "app_locked appI = app_locked appC" "bv_wf b" "i < length D" "length outs = length D"
    and "replayable L (app_locked appC) (D ! i) (outs ! i) tx"
    and "writeBuffer mC = []" "writeBuffer mI = []" "m_get (memDB mC) = m_get (memDB mI)"
  shows "\<exists>rc mC' mI'. cross_tx L appC blockC (Ptr b) outs (int i) tx mC = Ret (rc, mC') \<and>
    cross_tx L appI blockI (Ptr b) [] (int i) tx mI = Ret (rc, mI') \<and>
    writeBuffer mC' = [] \<and> writeBuffer mI' = [] \<and> m_get (memDB mC') = m_get (memDB mI')"
proof -
  obtain csdb ok where d: "NewCrossShardDataFromBytes L (D ! i) = Ret (Inr (csdb, ok))"
    "ok \<Longrightarrow> \<exists>mc'. execute L (cross_db csdb) (app_locked appC) tx mI = Ret (Nil_ptr, mc') \<and> writeBuffer mc' = outs ! i \<and> memDB mc' = memDB mI"
    using assms(7,9) by (auto simp: replayable_def)
  have g: "GetIndex (Ptr b) (int i) = Ret (i < nat (Bits b) \<and> bv_bit b i)" using assms(4) by (rule GetIndex_total)
  show ?thesis
  proof (cases "ok \<and> i < nat (Bits b) \<and> bv_bit b i")
    case False
    then show ?thesis using assms d(1) g by (auto simp: cross_tx_def)
  next
    case True
    then obtain mc' where mc: "execute L (cross_db csdb) (app_locked appC) tx mI = Ret (Nil_ptr, mc')" "writeBuffer mc' = outs ! i" "memDB mc' = memDB mI"
      using d(2) by blast
    let ?mC = "CommitWrite True (set_all (outs ! i) mC)"
    have c: "cross_tx L appC blockC (Ptr b) outs (int i) tx mC = Ret (receipt CodeTypeOK [], ?mC)"
      using assms(1,5,6) d(1) g True by (simp add: cross_tx_def)
    have j: "cross_tx L appI blockI (Ptr b) [] (int i) tx mI = Ret (receipt CodeTypeOK [], CommitWrite True mc')"
      using assms(2,3,5) d(1) g True mc(1) by (simp add: cross_tx_def)
    have "m_get (memDB ?mC) = m_get (memDB (CommitWrite True mc'))"
      using assms(8,10) mc(2,3) by (simp add: commit_puts set_all_eq map_of_rev_put_buffer)
    then show ?thesis using c j by (auto simp: CommitWrite_def)
  qed
qed

lemma cross_txs_agree:
  assumes "D = CrossShardDatas (b_CrossShardBody blockC)" "CrossShardDatas (b_CrossShardBody blockI) = D"
    and "app_locked appI = app_locked appC" "bv_wf b" "length outs = length D"
    and "i + length txs \<le> length D" "\<forall>j<length txs. replayable L (app_locked appC) (D ! (i + j)) (outs ! (i + j)) (txs ! j)"
    and "writeBuffer mC = []" "writeBuffer mI = []" "m_get (memDB mC) = m_get (memDB mI)"
  shows "\<exists>rcs mC' mI'. cross_txs L appC blockC (Ptr b) outs (int i) txs mC = Ret (rcs, mC') \<and>
    cross_txs L appI blockI (Ptr b) [] (int i) txs mI = Ret (rcs, mI') \<and> m_get (memDB mC') = m_get (memDB mI')"
  using assms(6-10)
proof (induction txs arbitrary: i mC mI)
  case (Cons tx txs)
  have r: "replayable L (app_locked appC) (D ! i) (outs ! i) tx" "i < length D" using Cons.prems(1,2) by auto
  obtain rc mC1 mI1 where s: "cross_tx L appC blockC (Ptr b) outs (int i) tx mC = Ret (rc, mC1)"
    "cross_tx L appI blockI (Ptr b) [] (int i) tx mI = Ret (rc, mI1)"
    "writeBuffer mC1 = []" "writeBuffer mI1 = []" "m_get (memDB mC1) = m_get (memDB mI1)"
    using cross_tx_agrees [OF assms(1-4) r(2) assms(5) r(1) Cons.prems(3-5)] by blast
  have nx: "\<forall>j<length txs. replayable L (app_locked appC) (D ! (Suc i + j)) (outs ! (Suc i + j)) (txs ! j)"
    using Cons.prems(2) by (metis Suc_less_eq add_Suc_shift length_Cons nth_Cons_Suc)
  obtain rcs mC2 mI2 where "cross_txs L appC blockC (Ptr b) outs (int (Suc i)) txs mC1 = Ret (rcs, mC2)"
    "cross_txs L appI blockI (Ptr b) [] (int (Suc i)) txs mI1 = Ret (rcs, mI2)" "m_get (memDB mC2) = m_get (memDB mI2)"
    using Cons.IH [of "Suc i", OF _ nx s(3-5)] Cons.prems(1) by auto
  then show ?case using s(1,2) by (simp add: add.commute)
qed simp

text \<open>The hash of a block does not depend on the data attached to it after it was hashed.\<close>

lemma hash_ignores_data:
  assumes "Block_Hash tm b = Ret (h, b')"
  shows "Block_Hash tm (b'\<lparr>b_CrossShardBody := x\<rparr>) = Ret (h, b'\<lparr>b_CrossShardBody := x\<rparr>)"
proof -
  obtain b1 r where c: "header_filled b1" "Header_Hash tm (b_Header b1) = Ret r"
    "Block_Hash tm b = (if length (blockhash b) \<noteq> 32 then Ret (slice_bytes r, b1\<lparr>blockhash := slice_bytes r\<rparr>)
                        else Ret (blockhash b, b1))" "blockhash b1 = blockhash b"
    by (rule Block_Hash_cases [of b tm]) auto
  have f: "fillHeader (b1\<lparr>blockhash := y, b_CrossShardBody := x\<rparr>) = Ret (b1\<lparr>blockhash := y, b_CrossShardBody := x\<rparr>)"
    "fillHeader (b1\<lparr>b_CrossShardBody := x\<rparr>) = Ret (b1\<lparr>b_CrossShardBody := x\<rparr>)" for y
    using c(1) by (auto intro!: fillHeader_filled simp: header_filled_def)
  show ?thesis using assms c f by (auto simp: Block_Hash_def HashSize_def split: if_splits)
qed

lemma Block_Hash_frame:
  assumes "Block_Hash tm b = Ret (h, b')"
  shows "b_CrossShardBody b' = b_CrossShardBody b" "ChainID (b_Header b') = ChainID (b_Header b)"
  using assms by (auto simp: Block_Hash_def fillHeader_def split: bind_splits if_splits)

lemma Block_Hash_total: "\<exists>h b'. Block_Hash tm b = Ret (h, b')"
  by (rule Block_Hash_cases [of b tm]) (auto split: if_splits)

lemma app_locked_cong: "LockedKeys a = LockedKeys b \<Longrightarrow> app_locked a = app_locked b"
  by (rule ext) (simp add: app_locked_def)

lemma preexec_inv: "kv_ok db \<Longrightarrow> mem_inv db NewMemoryDB" "writeBuffer NewMemoryDB = []" "readBuffer NewMemoryDB = []"
  by (simp_all add: mem_inv_def mem_usable_def NewMemoryDB_def)

lemma PreExecutionC_result:
  assumes "codec_ok (data_codec L)" "kv_ok (app_db app)" "KeyRangeTree app = Ptr t" "PreExecutionC L app block = Ret (resp, app', b)"
  obtains h outs where "Block_Hash (lib_time L) block = Ret (h, b)" "preExecutionOutputList app' h = Some outs"
    "LockedKeys app' = LockedKeys app"
    "length outs = length (CrossShardTxs (b_CrossShardBody b))" "length (pc_CrossShardDatas resp) = length (CrossShardTxs (b_CrossShardBody b))"
    "\<forall>j<length (CrossShardTxs (b_CrossShardBody b)).
       replayable L (app_locked app) (pc_CrossShardDatas resp ! j) (outs ! j) (CrossShardTxs (b_CrossShardBody b) ! j)"
proof -
  obtain h ins outs datas where p: "Block_Hash (lib_time L) block = Ret (h, b)"
    "pre_execute L app (CrossShardTxs (b_CrossShardBody b)) NewMemoryDB = Ret (ins, outs, datas)" "pc_CrossShardDatas resp = datas"
    "preExecutionOutputList app' = (preExecutionOutputList app)(h \<mapsto> outs)" "LockedKeys app' = LockedKeys app"
    using assms(4) by (auto simp: PreExecutionC_def split: bind_splits)
  note r = pre_execute_replayable [OF assms(1,3) preexec_inv(1) [OF assms(2)] preexec_inv(2,3) p(2)]
  show thesis by (rule that [OF p(1) _ p(5), of outs]) (use p r in simp_all)
qed

section \<open>Properties\<close>

text \<open>C2: a boundary shard and an inner shard commit the same cross-shard transactions with the same effect:
  when both execute a block whose data come from the boundary shard's pre-execution, with the same commit bits,
  both return (the inner shard, which executes the transactions again on the recorded reads, never panics),
  their receipts are equal, and both end with the same committed balances.\<close>

theorem cross_shard_commit_agrees:
  assumes "codec_ok (data_codec L)" "kv_ok (app_db appC)" "KeyRangeTree appC = Ptr t"
    and "LockedKeys appI = LockedKeys appC" "preExecutionOutputList appI = Map.empty"
    and "PreExecutionC L appC block = Ret (resp, appC', b)"
    and "bC = b\<lparr>b_CrossShardBody := (b_CrossShardBody b)\<lparr>CrossShardDatas := pc_CrossShardDatas resp\<rparr>\<rparr>"
    and "b_CrossShardBody bI = b_CrossShardBody bC" "ChainID (b_Header bI) = ChainID (b_Header bC)"
    and "go_index bvs n = Ret (Ptr bv)" "bv_wf bv"
  shows "\<exists>out mC bC' mI bI'. execute_cross L appC' bvs n (Ptr bC) = Ret (out, mC, bC') \<and>
    execute_cross L appI bvs n (Ptr bI) = Ret (out, mI, bI') \<and> m_get (memDB mI) = m_get (memDB mC)"
proof -
  let ?txs = "CrossShardTxs (b_CrossShardBody b)" and ?D = "pc_CrossShardDatas resp"
  obtain h outs where p: "Block_Hash (lib_time L) block = Ret (h, b)" "preExecutionOutputList appC' h = Some outs"
    "LockedKeys appC' = LockedKeys appC" "length outs = length ?txs" "length ?D = length ?txs"
    "\<forall>j<length ?txs. replayable L (app_locked appC) (?D ! j) (outs ! j) (?txs ! j)"
    using assms(1-3,6) by (rule PreExecutionC_result)
  have hC: "Block_Hash (lib_time L) bC = Ret (h, bC)" unfolding assms(7) by (rule hash_ignores_data [OF p(1)])
  obtain hI bI' where hI: "Block_Hash (lib_time L) bI = Ret (hI, bI')" using Block_Hash_total by blast
  note fI = Block_Hash_frame [OF hI]
  have lock: "app_locked appC' = app_locked appC" "app_locked appI = app_locked appC'"
    using app_locked_cong p(3) assms(4) by metis+
  have D: "?D = CrossShardDatas (b_CrossShardBody bC)" "CrossShardDatas (b_CrossShardBody bI') = ?D"
    "CrossShardTxs (b_CrossShardBody bC) = ?txs" "CrossShardTxs (b_CrossShardBody bI') = ?txs"
    using assms(7,8) fI by simp_all
  have rep: "\<forall>j<length ?txs. replayable L (app_locked appC') (?D ! (0 + j)) (outs ! (0 + j)) (?txs ! j)"
    using p(6) lock(1) by simp
  have "\<exists>rcs mC' mI'. cross_txs L appC' bC (Ptr bv) outs (int 0) ?txs NewMemoryDB = Ret (rcs, mC') \<and>
      cross_txs L appI bI' (Ptr bv) [] (int 0) ?txs NewMemoryDB = Ret (rcs, mI') \<and> m_get (memDB mC') = m_get (memDB mI')"
    by (rule cross_txs_agree [OF D(1,2) lock(2) assms(11) _ _ rep]) (use p(4,5) preexec_inv(2) in simp_all)
  then obtain rcs mC mI where c: "cross_txs L appC' bC (Ptr bv) outs 0 ?txs NewMemoryDB = Ret (rcs, mC)"
    "cross_txs L appI bI' (Ptr bv) [] 0 ?txs NewMemoryDB = Ret (rcs, mI)" "m_get (memDB mC) = m_get (memDB mI)" by auto
  have "execute_cross L appC' bvs n (Ptr bC) = Ret ((ChainID (b_Header bC), rcs), mC, bC)"
    using assms(10) hC p(2) c(1) D(3) by (simp add: execute_cross_def map_get_def)
  moreover have "execute_cross L appI bvs n (Ptr bI) = Ret ((ChainID (b_Header bC), rcs), mI, bI')"
    using assms(5,9,10) hI fI(2) c(2) D(4) by (simp add: execute_cross_def map_get_def)
  ultimately show ?thesis using c(3) by metis
qed

text \<open>The keys a height may write: those of the shard and of the inner shards it executes.\<close>

definition tree_has :: "RangeTree ptr \<Rightarrow> string \<Rightarrow> bool" where
  "tree_has tree k = (case tree of Nil_ptr \<Rightarrow> False | Ptr t \<Rightarrow> RangeTrees.Search t k)"

definition height_keys :: "Application \<Rightarrow> Block ptr list \<Rightarrow> string set" where
  "height_keys app InnerShardBlocks =
     {k. tree_has (KeyRangeTree app) k \<or>
         (\<not> IsI app \<and> (\<exists>b. Ptr b \<in> set InnerShardBlocks \<and> tree_has (related_tree app (ChainID (b_Header b))) k))}"

lemma write_range_frame:
  assumes "write_range tree m db = Ret db'" "\<And>k. tree_has tree k \<Longrightarrow> y \<noteq> toDataKey (str_bytes k)"
  shows "contents db' y = contents db y"
proof (cases tree)
  case Nil_ptr
  then have "memDB m = []" using assms(1) by (auto simp: write_range_def RangeDB_Write_def split: if_splits)
  then show ?thesis using assms(1) Nil_ptr
    by (auto simp: write_range_def RangeDB_Write_def write_out_def db_NewBatch_def pbatch_Write_def batch_Write_def)
next
  case (Ptr t)
  let ?ms = "filter (RangeTrees.Search t \<circ> fst) (memDB m)"
  have "contents db' = foldl apply_op (contents db) (map (\<lambda>(k, v). opTypeSet (toDataKey (str_bytes k)) (Uint32ToBytes v)) ?ms)"
    using assms(1) Ptr fill_batch_ok [of "RangeTrees.Search t" "memDB m" "[]"]
    by (auto simp: write_range_def RangeDB_Write_def write_out_def db_NewBatch_def pbatch_Write_def batch_Write_def split: if_splits)
  moreover have "x \<in> fst ` set ?ms \<Longrightarrow> y \<noteq> toDataKey (str_bytes x)" for x
    using assms(2) Ptr by (auto simp: tree_has_def)
  ultimately show ?thesis using apply_sets_other [of ?ms y "contents db"] by simp
qed

lemma write_ranges_frame:
  "write_ranges tree ms db = Ret db' \<Longrightarrow> (\<And>k. tree_has tree k \<Longrightarrow> y \<noteq> toDataKey (str_bytes k)) \<Longrightarrow> contents db' y = contents db y"
proof (induction ms arbitrary: db)
  case (Cons m ms)
  then obtain db1 where "write_range tree m db = Ret db1" "write_ranges tree ms db1 = Ret db'" by (auto split: bind_splits)
  then show ?case using Cons.IH [of db1] write_range_frame [of tree m db db1 y] Cons.prems(2) by simp
qed simp

lemma execute_inner_frame:
  "execute_inner L app tree b db = Ret (rcs, db') \<Longrightarrow> (\<And>k. tree_has tree k \<Longrightarrow> y \<noteq> toDataKey (str_bytes k)) \<Longrightarrow> contents db' y = contents db y"
  using write_range_frame by (fastforce simp: execute_inner_def split: bind_splits)

lemma execute_inners_frame:
  assumes "execute_inners L app qs resps db = Ret (resps', db')"
    "\<And>b k. Ptr b \<in> set qs \<Longrightarrow> tree_has (related_tree app (ChainID (b_Header b))) k \<Longrightarrow> y \<noteq> toDataKey (str_bytes k)"
  shows "contents db' y = contents db y"
  using assms
proof (induction qs arbitrary: resps db)
  case (Cons q qs)
  then obtain b respSet db1 where q: "q = Ptr b" "execute_inner L app (related_tree app (ChainID (b_Header b))) b db = Ret (respSet, db1)"
    "execute_inners L app qs (resps(ChainID (b_Header b) \<mapsto> respSet)) db1 = Ret (resps', db')"
    by (auto split: ptr.splits bind_splits)
  have "contents db1 y = contents db y" using execute_inner_frame [OF q(2), of y] Cons.prems(2) [of b] q(1) by simp
  then show ?case using Cons.IH [OF q(3)] Cons.prems(2) by (metis list.set_intros(2))
qed simp

text \<open>C15: executing a height changes only the store of the application, and there only data entries of keys in
  the shard's own range or, at a boundary shard, in the range of an inner shard whose block it executes.\<close>

theorem execution_stays_in_range:
  assumes "Execution L app CrossShardBlocks commitBitVector InnerShardBlocks = Ret (resp, app', blocks)"
    and "\<forall>k\<in>height_keys app InnerShardBlocks. y \<noteq> toDataKey (str_bytes k)"
  shows "contents (app_db app') y = contents (app_db app) y \<and> app' = app\<lparr>app_db := app_db app'\<rparr>"
proof -
  obtain resps ms db1 inner db2 where e: "execute_crosses L app commitBitVector 0 CrossShardBlocks Map.empty = Ret (resps, ms, blocks)"
    "write_ranges (KeyRangeTree app) ms (app_db app) = Ret db1" "execute_inner_blocks L app InnerShardBlocks db1 = Ret (inner, db2)"
    "app' = app\<lparr>app_db := db2\<rparr>"
    using assms(1) by (auto simp: Execution_def split: bind_splits)
  have "contents db1 y = contents (app_db app) y"
    using write_ranges_frame [OF e(2)] assms(2) by (simp add: height_keys_def)
  moreover have "contents db2 y = contents db1 y"
  proof (cases "IsI app")
    case True
    then obtain b respSet where "execute_inner L app (KeyRangeTree app) b db1 = Ret (respSet, db2)"
      using e(3) by (auto simp: execute_inner_blocks_def split: bind_splits ptr.splits)
    then show ?thesis using execute_inner_frame [of L app "KeyRangeTree app" b db1 respSet db2 y] assms(2) by (simp add: height_keys_def)
  next
    case False
    then show ?thesis using e(3) execute_inners_frame [of L app InnerShardBlocks Map.empty db1 inner db2 y] assms(2)
      by (auto simp: height_keys_def execute_inner_blocks_def)
  qed
  ultimately show ?thesis using e(4) by simp
qed

section \<open>Witnesses\<close>

definition cross_block :: Block where
  "cross_block = demo_block\<lparr>b_CrossShardBody := \<lparr>CrossShardTxs = [demo_tx], CrossShardDatas = []\<rparr>\<rparr>"

definition outer_app :: Application where
  "outer_app = NewApplication empty_kv ''c'' False (Ptr demo_range) Map.empty"

definition inner_app :: Application where
  "inner_app = NewApplication empty_kv ''a'' True (Ptr demo_range) Map.empty"

lemma empty_get [simp]: "store_Get empty_kv k = Inr Nil_ptr"
  by (simp add: store_Get_ok demo_facts(1)) (simp add: empty_kv_def)

lemma demo_reads:
  "\<exists>m. execute demo_bank (range_db empty_kv (Ptr demo_range)) (\<lambda>k. False) demo_tx NewMemoryDB = Ret (Nil_ptr, m) \<and>
     readBuffer m = [(''a'', 1000000), (''c'', 1000000)]"
proof -
  have sl: "go_slice demo_tx 4 (int (length demo_tx)) = Ret (drop 4 demo_tx)"
    by (simp add: go_slice_def demo_tx_def Uint32ToBytes_def)
  have ln: "\<not> length demo_tx < 4" by (simp add: demo_tx_def Uint32ToBytes_def)
  have t: "\<exists>m. doTransfer (range_db empty_kv (Ptr demo_range)) (\<lambda>k. False) demo_transfer NewMemoryDB = Ret (Nil_ptr, m) \<and>
     readBuffer m = [(''a'', 1000000), (''c'', 1000000)]"
    using demo_facts(3,4)
    by (simp add: doTransfer_def demo_transfer_def ValidateTransferTx_def range_db_def RangeDB_Get_def MemoryDB_Get_def NewMemoryDB_def
        go_index_def RangeDB_Set_def MemoryDB_Set_def slice_bytes_def initBalance_def)
  then show ?thesis using demo_facts(5,6) sl ln by (simp add: execute_def NewTransferTxFromBytes_def)
qed

lemma demo_data: "CrossShardDataBytes demo_bank [(''a'', 1000000), (''c'', 1000000)] True = Ret [3]"
  by (simp add: CrossShardDataBytes_def demo_bank_def MustProtoBytes_def one_codec_def map_get_def)

lemma demo_pre: "\<exists>resp app' b. PreExecutionC demo_bank outer_app cross_block = Ret (resp, app', b) \<and> pc_CrossShardDatas resp = [[3]]"
proof -
  obtain h b where h: "Block_Hash (lib_time demo_bank) cross_block = Ret (h, b)" using Block_Hash_total by blast
  have tx: "CrossShardTxs (b_CrossShardBody b) = [demo_tx]" using Block_Hash_frame(1) [OF h] by (simp add: cross_block_def)
  have a: "app_db outer_app = empty_kv" "KeyRangeTree outer_app = Ptr demo_range" "app_locked outer_app = (\<lambda>k. False)"
    by (simp_all add: outer_app_def NewApplication_def app_locked_def map_get_def fun_eq_iff)
  obtain m where "execute demo_bank (range_db empty_kv (Ptr demo_range)) (\<lambda>k. False) demo_tx NewMemoryDB = Ret (Nil_ptr, m)"
    "readBuffer m = [(''a'', 1000000), (''c'', 1000000)]" using demo_reads by blast
  then show ?thesis using h tx a demo_data by (simp add: PreExecutionC_def GetReadSet_def)
qed

lemma demo_bits: "\<exists>bv. NewBitVector 1 = Ptr bv \<and> bv_wf bv"
  using NewBitVector_wf [of 1] by auto

theorem cross_shard_commit_agrees_witness:
  "\<exists>resp appC' b bC bv out mC bC' mI bI'. PreExecutionC demo_bank outer_app cross_block = Ret (resp, appC', b) \<and>
     CrossShardDatas (b_CrossShardBody bC) = [[3]] \<and> execute_cross demo_bank appC' [Ptr bv] 0 (Ptr bC) = Ret (out, mC, bC') \<and>
     execute_cross demo_bank inner_app [Ptr bv] 0 (Ptr bC) = Ret (out, mI, bI') \<and> m_get (memDB mI) = m_get (memDB mC)"
proof -
  obtain resp appC' b where p: "PreExecutionC demo_bank outer_app cross_block = Ret (resp, appC', b)" "pc_CrossShardDatas resp = [[3]]"
    using demo_pre by blast
  obtain bv where bv: "bv_wf bv" using demo_bits by blast
  let ?bC = "b\<lparr>b_CrossShardBody := (b_CrossShardBody b)\<lparr>CrossShardDatas := pc_CrossShardDatas resp\<rparr>\<rparr>"
  have c: "codec_ok (data_codec demo_bank)" by (simp add: demo_bank_def)
  have a: "kv_ok (app_db outer_app)" "KeyRangeTree outer_app = Ptr demo_range" "LockedKeys inner_app = LockedKeys outer_app"
    "preExecutionOutputList inner_app = Map.empty"
    using demo_facts(1) by (simp_all add: outer_app_def inner_app_def NewApplication_def)
  obtain out mC bC' mI bI' where "execute_cross demo_bank appC' [Ptr bv] 0 (Ptr ?bC) = Ret (out, mC, bC')"
    "execute_cross demo_bank inner_app [Ptr bv] 0 (Ptr ?bC) = Ret (out, mI, bI')" "m_get (memDB mI) = m_get (memDB mC)"
    using cross_shard_commit_agrees [OF c a p(1) refl refl refl _ bv, of "[Ptr bv]" 0] by (auto simp: go_index_def)
  moreover have "CrossShardDatas (b_CrossShardBody ?bC) = [[3]]" using p(2) by simp
  ultimately show ?thesis using p(1) by blast
qed

theorem execution_stays_in_range_witness:
  "\<exists>resp app' blocks. Execution demo_bank inner_app [] [] [Ptr (demo_block\<lparr>b_Body := \<lparr>BodyTxs = [demo_tx]\<rparr>\<rparr>)] = Ret (resp, app', blocks) \<and>
     contents (app_db app') (toStateKey (str_bytes ''a'')) = None"
proof -
  let ?b = "demo_block\<lparr>b_Body := \<lparr>BodyTxs = [demo_tx]\<rparr>\<rparr>"
  have a: "app_db inner_app = empty_kv" "KeyRangeTree inner_app = Ptr demo_range" "IsI inner_app"
    by (simp_all add: inner_app_def NewApplication_def)
  obtain rcs db' where "execute_inner demo_bank inner_app (Ptr demo_range) ?b empty_kv = Ret (rcs, db')"
    using execute_inner_result [OF demo_facts(1)] by blast
  then obtain resp app' blocks where e: "Execution demo_bank inner_app [] [] [Ptr ?b] = Ret (resp, app', blocks)"
    using a by (simp add: Execution_def execute_inner_blocks_def go_index_def)
  have "contents (app_db app') (toStateKey (str_bytes ''a'')) = contents (app_db inner_app) (toStateKey (str_bytes ''a''))"
    using execution_stays_in_range [OF e, of "toStateKey (str_bytes ''a'')"] key_spaces_disjoint by metis
  then show ?thesis using e a(1) by (auto simp: empty_kv_def)
qed

end
