(* ===== verification/MemDB.thy ===== *)
theory MemDB
  imports Store
begin

text \<open>
  Model of the in-memory database (\<open>libs/db/memdb.go\<close>, \<open>memdb_batch.go\<close>, \<open>memdb_iterator.go\<close>), of the key
  ranges of \<open>libs/db/util.go\<close> and of the iterators of the prefix store (\<open>utils/store/store.go\<close>). The B-tree is
  a library, the parameter \<open>btree_lib\<close> with its documented laws \<open>btree_ok\<close>. The lemmas show that the database fulfils the contract
  of \<open>Store\<close> and that an iterator visits the keys of its domain, all of them, once and in order. Locks are left out: every method is one step.
\<close>

section \<open>Key ranges\<close>

text \<open>\<open>bytes.Compare\<close> is the lexicographic order of byte lists; a nil slice compares as the empty one.\<close>

definition IsKeyInDomain :: "bytes \<Rightarrow> bytes ptr \<Rightarrow> bytes ptr \<Rightarrow> bool" where
  "IsKeyInDomain key start end =
     (if key < slice_bytes start then False
      else case end of Nil_ptr \<Rightarrow> True | Ptr e \<Rightarrow> \<not> e \<le> key)"

text \<open>The loop of \<open>cpIncr\<close> runs from the last byte to the first; the list is reversed here.\<close>

fun incr_loop :: "bytes \<Rightarrow> bytes option" where
  "incr_loop [] = None"
| "incr_loop (b # bs) = (if b < 0xFF then Some ((b + 1) # bs) else map_option ((#) 0) (incr_loop bs))"

definition cpIncr :: "bytes \<Rightarrow> bytes ptr go" where
  "cpIncr bz =
     (if bz = [] then Panic
      else Ret (case incr_loop (rev bz) of None \<Rightarrow> Nil_ptr | Some r \<Rightarrow> Ptr (rev r)))"

section \<open>The B-tree\<close>

type_synonym item = "bytes \<times> bytes"

text \<open>
  The traversals give the items in the order in which the visitor sees them. The laws hold of the trees \<open>valid\<close>
  tells, which the operations keep.
\<close>

record 't btree_lib =
  bt_New :: 't
  bt_Get :: "'t \<Rightarrow> bytes \<Rightarrow> item ptr"
  bt_Has :: "'t \<Rightarrow> bytes \<Rightarrow> bool"
  bt_ReplaceOrInsert :: "'t \<Rightarrow> item \<Rightarrow> 't"
  bt_Delete :: "'t \<Rightarrow> bytes \<Rightarrow> 't"
  bt_Len :: "'t \<Rightarrow> int"
  bt_Ascend :: "'t \<Rightarrow> item list"
  bt_AscendGreaterOrEqual :: "'t \<Rightarrow> bytes \<Rightarrow> item list"
  bt_AscendRange :: "'t \<Rightarrow> bytes \<Rightarrow> bytes \<Rightarrow> item list"
  bt_Descend :: "'t \<Rightarrow> item list"
  bt_DescendLessOrEqual :: "'t \<Rightarrow> bytes \<Rightarrow> item list"

definition bt_look :: "'t btree_lib \<Rightarrow> 't \<Rightarrow> (bytes \<rightharpoonup> bytes)" where
  "bt_look B t = map_of (bt_Ascend B t)"

definition btree_ok :: "'t btree_lib \<Rightarrow> ('t \<Rightarrow> bool) \<Rightarrow> bool" where
  "btree_ok B valid \<longleftrightarrow> valid (bt_New B) \<and> bt_Ascend B (bt_New B) = [] \<and>
     (\<forall>t. valid t \<longrightarrow>
        sorted_wrt (<) (map fst (bt_Ascend B t)) \<and>
        (\<forall>k v. valid (bt_ReplaceOrInsert B t (k, v)) \<and> bt_look B (bt_ReplaceOrInsert B t (k, v)) = (bt_look B t)(k \<mapsto> v)) \<and>
        (\<forall>k. valid (bt_Delete B t k) \<and> bt_look B (bt_Delete B t k) = (bt_look B t)(k := None)) \<and>
        (\<forall>k. bt_Get B t k = (case bt_look B t k of None \<Rightarrow> Nil_ptr | Some v \<Rightarrow> Ptr (k, v))) \<and>
        (\<forall>k. bt_Has B t k \<longleftrightarrow> bt_look B t k \<noteq> None) \<and> bt_Len B t = int (length (bt_Ascend B t)) \<and>
        (\<forall>a. bt_AscendGreaterOrEqual B t a = filter (\<lambda>i. a \<le> fst i) (bt_Ascend B t)) \<and>
        (\<forall>a b. bt_AscendRange B t a b = filter (\<lambda>i. a \<le> fst i \<and> fst i < b) (bt_Ascend B t)) \<and>
        bt_Descend B t = rev (bt_Ascend B t) \<and>
        (\<forall>b. bt_DescendLessOrEqual B t b = filter (\<lambda>i. fst i \<le> b) (rev (bt_Ascend B t))))"

section \<open>The database\<close>

record 't MemDB =
  btree :: 't

definition NewMemDB :: "'t btree_lib \<Rightarrow> 't MemDB" where
  "NewMemDB B = \<lparr>btree = bt_New B\<rparr>"

definition memdb_Get :: "'t btree_lib \<Rightarrow> 't MemDB \<Rightarrow> bytes \<Rightarrow> DBError + bytes ptr" where
  "memdb_Get B db key =
     (if key = [] then Inl errKeyEmpty
      else case bt_Get B (btree db) key of Nil_ptr \<Rightarrow> Inr Nil_ptr | Ptr i \<Rightarrow> Inr (Ptr (snd i)))"

definition memdb_Has :: "'t btree_lib \<Rightarrow> 't MemDB \<Rightarrow> bytes \<Rightarrow> DBError + bool" where
  "memdb_Has B db key = (if key = [] then Inl errKeyEmpty else Inr (bt_Has B (btree db) key))"

definition memdb_set :: "'t btree_lib \<Rightarrow> 't MemDB \<Rightarrow> bytes \<Rightarrow> bytes \<Rightarrow> 't MemDB" where
  "memdb_set B db key value = db\<lparr>btree := bt_ReplaceOrInsert B (btree db) (key, value)\<rparr>"

definition memdb_Set :: "'t btree_lib \<Rightarrow> 't MemDB \<Rightarrow> bytes \<Rightarrow> bytes ptr \<Rightarrow> DBError ptr \<times> 't MemDB" where
  "memdb_Set B db key value =
     (if key = [] then (Ptr errKeyEmpty, db)
      else case value of Nil_ptr \<Rightarrow> (Ptr errValueNil, db) | Ptr v \<Rightarrow> (Nil_ptr, memdb_set B db key v))"

definition memdb_SetSync :: "'t btree_lib \<Rightarrow> 't MemDB \<Rightarrow> bytes \<Rightarrow> bytes ptr \<Rightarrow> DBError ptr \<times> 't MemDB" where
  "memdb_SetSync B db key value = memdb_Set B db key value"

definition memdb_delete :: "'t btree_lib \<Rightarrow> 't MemDB \<Rightarrow> bytes \<Rightarrow> 't MemDB" where
  "memdb_delete B db key = db\<lparr>btree := bt_Delete B (btree db) key\<rparr>"

definition memdb_Delete :: "'t btree_lib \<Rightarrow> 't MemDB \<Rightarrow> bytes \<Rightarrow> DBError ptr \<times> 't MemDB" where
  "memdb_Delete B db key = (if key = [] then (Ptr errKeyEmpty, db) else (Nil_ptr, memdb_delete B db key))"

definition memdb_DeleteSync :: "'t btree_lib \<Rightarrow> 't MemDB \<Rightarrow> bytes \<Rightarrow> DBError ptr \<times> 't MemDB" where
  "memdb_DeleteSync B db key = memdb_Delete B db key"

definition memdb_Close :: "'t MemDB \<Rightarrow> DBError ptr \<times> 't MemDB" where
  "memdb_Close db = (Nil_ptr, db)"

definition memdb_Stats :: "'t btree_lib \<Rightarrow> 't MemDB \<Rightarrow> (string \<times> string) list" where
  "memdb_Stats B db = [(''database.type'', ''memDB''), (''database.size'', show_int (bt_Len B (btree db)))]"

section \<open>Batches\<close>

text \<open>Filling a batch is \<open>batch_Set\<close> and \<open>batch_Delete\<close> of the contract; there is no operation of another type.\<close>

fun memdb_ops :: "'t btree_lib \<Rightarrow> batch_op list \<Rightarrow> 't MemDB \<Rightarrow> 't MemDB" where
  "memdb_ops B [] db = db"
| "memdb_ops B (opTypeSet k v # ops) db = memdb_ops B ops (memdb_set B db k v)"
| "memdb_ops B (opTypeDelete k # ops) db = memdb_ops B ops (memdb_delete B db k)"

definition memDBBatch_Close :: "batch \<Rightarrow> DBError ptr \<times> batch" where
  "memDBBatch_Close b = (Nil_ptr, None)"

definition memDBBatch_Write :: "'t btree_lib \<Rightarrow> 't MemDB \<Rightarrow> batch \<Rightarrow> DBError ptr \<times> 't MemDB \<times> batch" where
  "memDBBatch_Write B db b =
     (case b of
        None \<Rightarrow> (Ptr errBatchClosed, db, b)
      | Some ops \<Rightarrow> let (e, b') = memDBBatch_Close b in (e, memdb_ops B ops db, b'))"

section \<open>Iterators\<close>

text \<open>The channel is what the traversing goroutine still has to deliver.\<close>

record memDBIterator =
  it_ch :: "item list"
  it_item :: "item ptr"
  it_start :: "bytes ptr"
  it_end :: "bytes ptr"

text \<open>The visitor passes over the first item with the key \<open>skipEqual\<close> and stops at one below \<open>abortLessThan\<close>.\<close>

fun visitor :: "bytes ptr \<Rightarrow> bytes ptr \<Rightarrow> item list \<Rightarrow> item list" where
  "visitor skipEqual abortLessThan [] = []"
| "visitor skipEqual abortLessThan (i # items) =
     (if skipEqual = Ptr (fst i) then visitor Nil_ptr abortLessThan items
      else if (case abortLessThan of Nil_ptr \<Rightarrow> False | Ptr a \<Rightarrow> fst i < a) then []
      else i # visitor skipEqual abortLessThan items)"

definition traverse :: "'t btree_lib \<Rightarrow> 't MemDB \<Rightarrow> bytes ptr \<Rightarrow> bytes ptr \<Rightarrow> bool \<Rightarrow> item list" where
  "traverse B db start end reverse =
     (if start = Nil_ptr \<and> end = Nil_ptr \<and> \<not> reverse then visitor Nil_ptr Nil_ptr (bt_Ascend B (btree db))
      else if start = Nil_ptr \<and> end = Nil_ptr \<and> reverse then visitor Nil_ptr Nil_ptr (bt_Descend B (btree db))
      else if end = Nil_ptr \<and> \<not> reverse then visitor Nil_ptr Nil_ptr (bt_AscendGreaterOrEqual B (btree db) (slice_bytes start))
      else if \<not> reverse then visitor Nil_ptr Nil_ptr (bt_AscendRange B (btree db) (slice_bytes start) (slice_bytes end))
      else if end = Nil_ptr then visitor Nil_ptr start (bt_Descend B (btree db))
      else visitor end start (bt_DescendLessOrEqual B (btree db) (slice_bytes end)))"

definition next_item :: "memDBIterator \<Rightarrow> memDBIterator" where
  "next_item i = (case it_ch i of [] \<Rightarrow> i\<lparr>it_item := Nil_ptr\<rparr> | x # xs \<Rightarrow> i\<lparr>it_ch := xs, it_item := Ptr x\<rparr>)"

definition newMemDBIterator :: "'t btree_lib \<Rightarrow> 't MemDB \<Rightarrow> bytes ptr \<Rightarrow> bytes ptr \<Rightarrow> bool \<Rightarrow> memDBIterator" where
  "newMemDBIterator B db start end reverse =
     next_item \<lparr>it_ch = traverse B db start end reverse, it_item = Nil_ptr, it_start = start, it_end = end\<rparr>"

definition memdb_Iterator :: "'t btree_lib \<Rightarrow> 't MemDB \<Rightarrow> bytes ptr \<Rightarrow> bytes ptr \<Rightarrow> DBError + memDBIterator" where
  "memdb_Iterator B db start end =
     (if start = Ptr [] \<or> end = Ptr [] then Inl errKeyEmpty else Inr (newMemDBIterator B db start end False))"

definition memdb_ReverseIterator :: "'t btree_lib \<Rightarrow> 't MemDB \<Rightarrow> bytes ptr \<Rightarrow> bytes ptr \<Rightarrow> DBError + memDBIterator" where
  "memdb_ReverseIterator B db start end =
     (if start = Ptr [] \<or> end = Ptr [] then Inl errKeyEmpty else Inr (newMemDBIterator B db start end True))"

definition it_Close :: "memDBIterator \<Rightarrow> memDBIterator" where
  "it_Close i = i\<lparr>it_ch := [], it_item := Nil_ptr\<rparr>"

definition it_Domain :: "memDBIterator \<Rightarrow> bytes ptr \<times> bytes ptr" where
  "it_Domain i = (it_start i, it_end i)"

definition it_Valid :: "memDBIterator \<Rightarrow> bool" where
  "it_Valid i = (it_item i \<noteq> Nil_ptr)"

definition it_Next :: "memDBIterator \<Rightarrow> memDBIterator go" where
  "it_Next i = (if \<not> it_Valid i then Panic else Ret (next_item i))"

definition it_Key :: "memDBIterator \<Rightarrow> bytes go" where
  "it_Key i = (case it_item i of Nil_ptr \<Rightarrow> Panic | Ptr x \<Rightarrow> Ret (fst x))"

definition it_Value :: "memDBIterator \<Rightarrow> bytes go" where
  "it_Value i = (case it_item i of Nil_ptr \<Rightarrow> Panic | Ptr x \<Rightarrow> Ret (snd x))"

text \<open>The loop of a client, as the interface documents it: while valid, read key and value and move on.\<close>

function walk :: "memDBIterator \<Rightarrow> item list go" where
  "walk i =
     (if \<not> it_Valid i then Ret []
      else do { k \<leftarrow> it_Key i; v \<leftarrow> it_Value i; i' \<leftarrow> it_Next i; rest \<leftarrow> walk i'; Ret ((k, v) # rest) })"
  by auto
termination
  by (relation "measure (\<lambda>i. length (it_ch i) + (if it_Valid i then 1 else 0))")
    (auto simp: it_Next_def next_item_def it_Valid_def split: if_splits list.splits)

declare walk.simps [simp del]

section \<open>Iterators of the prefix store\<close>

text \<open>A nil bound becomes the bare prefix.\<close>

definition prefix_Iterator :: "'t btree_lib \<Rightarrow> 't MemDB \<Rightarrow> bytes ptr \<Rightarrow> bytes ptr \<Rightarrow> DBError + memDBIterator" where
  "prefix_Iterator B p start end = memdb_Iterator B p (Ptr (toDataKey (slice_bytes start))) (Ptr (toDataKey (slice_bytes end)))"

definition prefix_ReverseIterator :: "'t btree_lib \<Rightarrow> 't MemDB \<Rightarrow> bytes ptr \<Rightarrow> bytes ptr \<Rightarrow> DBError + memDBIterator" where
  "prefix_ReverseIterator B p start end = memdb_ReverseIterator B p (Ptr (toDataKey (slice_bytes start))) (Ptr (toDataKey (slice_bytes end)))"

definition prefix_Domain :: "memDBIterator \<Rightarrow> bytes \<times> bytes" where
  "prefix_Domain i = (let (start, end) = it_Domain i in (fromDataKey (slice_bytes start), fromDataKey (slice_bytes end)))"

definition prefix_Valid :: "memDBIterator \<Rightarrow> bool" where
  "prefix_Valid i = it_Valid i"

definition prefix_Next :: "memDBIterator \<Rightarrow> memDBIterator go" where
  "prefix_Next i = it_Next i"

definition prefix_Key :: "memDBIterator \<Rightarrow> bytes go" where
  "prefix_Key i = do { k \<leftarrow> it_Key i; Ret (fromDataKey k) }"

definition prefix_Value :: "memDBIterator \<Rightarrow> bytes go" where
  "prefix_Value i = it_Value i"

text \<open>\<open>Close\<close> returns the error of the iterator and does not close it.\<close>

definition prefix_Close :: "memDBIterator \<Rightarrow> DBError ptr \<times> memDBIterator" where
  "prefix_Close i = (Nil_ptr, i)"

function prefix_walk :: "memDBIterator \<Rightarrow> item list go" where
  "prefix_walk i =
     (if \<not> prefix_Valid i then Ret []
      else do { k \<leftarrow> prefix_Key i; v \<leftarrow> prefix_Value i; i' \<leftarrow> prefix_Next i; rest \<leftarrow> prefix_walk i'; Ret ((k, v) # rest) })"
  by auto
termination
  by (relation "measure (\<lambda>i. length (it_ch i) + (if it_Valid i then 1 else 0))")
    (auto simp: prefix_Valid_def prefix_Next_def it_Next_def next_item_def it_Valid_def split: if_splits list.splits)

declare prefix_walk.simps [simp del]

section \<open>Lemmas\<close>

text \<open>\<open>cpIncr\<close> adds one to the big-endian number, keeping the length; nil is overflow.\<close>

primrec le_value :: "bytes \<Rightarrow> int" where
  "le_value [] = 0"
| "le_value (b # bs) = uint b + 256 * le_value bs"

lemma incr_loop_value:
  "(case incr_loop bs of None \<Rightarrow> le_value bs + 1 = 256 ^ length bs | Some r \<Rightarrow> le_value r = le_value bs + 1 \<and> length r = length bs)"
proof (induction bs)
  case (Cons b bs)
  show ?case
  proof (cases "b < 0xFF")
    case True
    then have "uint (b + 1) = uint b + 1" by (simp add: uint_word_ariths word_less_def)
    then show ?thesis using True by simp
  next
    case False
    then have "uint b = 255" using uint_lt2p [of b] by (simp add: word_less_def) 
    then show ?thesis using Cons False by (auto split: option.splits)
  qed
qed simp

text \<open>The visitor on items in descending order.\<close>

lemma visitor_all [simp]: "visitor Nil_ptr Nil_ptr items = items"
  by (induction items) auto

lemma visitor_abort:
  "sorted_wrt (>) (map fst items) \<Longrightarrow> visitor Nil_ptr (Ptr a) items = filter (\<lambda>i. a \<le> fst i) items"
proof (induction items)
  case (Cons i items)
  show ?case
  proof (cases "fst i < a")
    case True
    then have "\<forall>j \<in> set items. fst j < a" using Cons.prems by auto
    then have "filter (\<lambda>j. a \<le> fst j) items = []" by (auto simp: filter_empty_conv not_le)
    then show ?thesis using True by (simp add: not_le)
  qed (use Cons in auto)
qed simp

lemma visitor_skip:
  assumes "sorted_wrt (>) (map fst items)" "\<forall>i \<in> set items. fst i \<le> e"
  shows "visitor (Ptr e) start items = visitor Nil_ptr start (filter (\<lambda>i. fst i < e) items)"
proof (cases items)
  case (Cons i rest)
  have r: "\<forall>j \<in> set rest. fst j < e" using assms Cons by fastforce
  have nv: "visitor (Ptr e) start xs = visitor Nil_ptr start xs" if "\<forall>j \<in> set xs. fst j < e" for xs
    using that by (induction xs) auto
  have f: "filter (\<lambda>i. fst i < e) rest = rest" using r by (auto intro: filter_True)
  show ?thesis
  proof (cases "fst i = e")
    case True
    then show ?thesis using Cons f by simp
  next
    case False
    then have "\<forall>j \<in> set items. fst j < e" using Cons assms(2) r by auto
    then show ?thesis using nv [of items] by (simp add: filter_True)
  qed
qed simp

lemma sorted_rev_keys: "sorted_wrt (<) (map fst items) \<Longrightarrow> sorted_wrt (>) (map fst (rev items))"
  by (simp add: rev_map [symmetric] sorted_wrt_rev)

lemma sorted_filter_keys: "sorted_wrt P (map fst items) \<Longrightarrow> sorted_wrt P (map fst (filter Q items))"
  by (simp add: sorted_wrt_map sorted_wrt_filter)

lemma traverse_spec:
  assumes "btree_ok B valid" "valid (btree db)"
  shows "traverse B db start end reverse =
    (let items = filter (\<lambda>i. IsKeyInDomain (fst i) start end) (bt_Ascend B (btree db)) in if reverse then rev items else items)"
proof -
  let ?xs = "bt_Ascend B (btree db)"
  have s: "sorted_wrt (>) (map fst (rev ?xs))" using assms by (intro sorted_rev_keys) (auto simp: btree_ok_def)
  have le: "[] \<le> (k :: bytes)" for k by simp
  have f: "bt_AscendGreaterOrEqual B (btree db) a = filter (\<lambda>i. a \<le> fst i) ?xs"
    "bt_AscendRange B (btree db) a b = filter (\<lambda>i. a \<le> fst i \<and> fst i < b) ?xs"
    "bt_Descend B (btree db) = rev ?xs" "bt_DescendLessOrEqual B (btree db) b = filter (\<lambda>i. fst i \<le> b) (rev ?xs)" for a b
    using assms by (simp_all add: btree_ok_def)
  show ?thesis
  proof (cases reverse)
    case False
    then show ?thesis using f(1,2) by (cases start; cases "end") (simp_all add: traverse_def IsKeyInDomain_def not_less not_le cong: conj_cong)
  next
    case True
    have d: "visitor (Ptr e) start (filter (\<lambda>i. fst i \<le> e) (rev ?xs)) = visitor Nil_ptr start (filter (\<lambda>i. fst i < e) (rev ?xs))" for e
    proof -
      have "filter (\<lambda>i. fst i < e) (filter (\<lambda>i. fst i \<le> e) (rev ?xs)) = filter (\<lambda>i. fst i < e) (rev ?xs)"
        by (auto intro: filter_cong)
      then show ?thesis using visitor_skip [OF sorted_filter_keys [OF s], of "\<lambda>i. fst i \<le> e" e start] by simp
    qed
    have a: "visitor Nil_ptr (Ptr x) (filter P (rev ?xs)) = filter (\<lambda>i. x \<le> fst i) (filter P (rev ?xs))" for x P
      by (rule visitor_abort [OF sorted_filter_keys [OF s]])
    have w: "filter (\<lambda>i. fst i < y \<and> x \<le> fst i) xs = filter (\<lambda>i. x \<le> fst i \<and> fst i < y) xs" for x y :: bytes and xs :: "item list"
      by (auto intro: filter_cong)
    show ?thesis using True f(3,4) d w a a [of _ "\<lambda>_. True"]
      by (cases start; cases "end") (simp_all add: traverse_def IsKeyInDomain_def not_less not_le rev_filter cong: conj_cong)
  qed
qed

lemma walk_items: "walk (next_item \<lparr>it_ch = items, it_item = x, it_start = s, it_end = e\<rparr>) = Ret items"
proof (induction items arbitrary: x)
  case Nil
  show ?case by (subst walk.simps) (simp add: next_item_def it_Valid_def)
next
  case (Cons i items)
  then show ?case
    by (subst walk.simps) (simp add: next_item_def [of "\<lparr>it_ch = i # items, it_item = x, it_start = s, it_end = e\<rparr>"] it_Valid_def it_Key_def it_Value_def it_Next_def)
qed

lemma prefix_walk_items:
  "prefix_walk (next_item \<lparr>it_ch = items, it_item = x, it_start = s, it_end = e\<rparr>) = Ret (map (\<lambda>(k, v). (fromDataKey k, v)) items)"
proof (induction items arbitrary: x)
  case Nil
  show ?case by (subst prefix_walk.simps) (simp add: next_item_def prefix_Valid_def it_Valid_def)
next
  case (Cons i items)
  then show ?case
    by (subst prefix_walk.simps) (auto simp add: next_item_def [of "\<lparr>it_ch = i # items, it_item = x, it_start = s, it_end = e\<rparr>"]
        prefix_Valid_def prefix_Key_def prefix_Value_def prefix_Next_def it_Valid_def it_Key_def it_Value_def it_Next_def split: prod.splits)
qed

text \<open>The abstract database a tree stands for.\<close>

definition memdb_view :: "'t btree_lib \<Rightarrow> 't MemDB \<Rightarrow> kv" where
  "memdb_view B db = \<lparr>contents = bt_look B (btree db), failing = (\<lambda>_. False)\<rparr>"

lemma memdb_set_view:
  assumes "btree_ok B valid" "valid (btree db)"
  shows "valid (btree (memdb_set B db k v))" "bt_look B (btree (memdb_set B db k v)) = (bt_look B (btree db))(k \<mapsto> v)"
    "valid (btree (memdb_delete B db k))" "bt_look B (btree (memdb_delete B db k)) = (bt_look B (btree db))(k := None)"
  using assms by (auto simp: btree_ok_def memdb_set_def memdb_delete_def)

lemma memdb_ops_view:
  "btree_ok B valid \<Longrightarrow> valid (btree db) \<Longrightarrow>
   valid (btree (memdb_ops B ops db)) \<and> bt_look B (btree (memdb_ops B ops db)) = foldl apply_op (bt_look B (btree db)) ops"
  by (induction B ops db rule: memdb_ops.induct) (simp_all add: memdb_set_view)

text \<open>The order of byte lists around the data prefix.\<close>

lemma data_range: "toDataKey a \<le> k \<and> k < toDataKey b \<longleftrightarrow> (\<exists>k'. k = toDataKey k' \<and> a \<le> k' \<and> k' < b)"
  by (cases k) (auto simp: toDataKey_def dataKey_def)

lemma fromDataKey_toDataKey [simp]: "fromDataKey (toDataKey k) = k"
  by (simp add: fromDataKey_def toDataKey_def dataKey_def)

section \<open>Properties\<close>

text \<open>
  C31: the in-memory database fulfils the contract of the database interface: reading, testing, writing,
  deleting and writing a batch do to its contents, and return, exactly what they do on the abstract map; no
  operation fails but for an empty key, a nil value or a used batch.
\<close>

theorem memdb_refines_contract:
  assumes "btree_ok B valid" "valid (btree db)"
  shows "memdb_Get B db key = db_Get (memdb_view B db) key \<and> memdb_Has B db key = db_Has (memdb_view B db) key \<and>
    (\<exists>e db'. memdb_Set B db key value = (e, db') \<and> db_Set (memdb_view B db) key value = (e, memdb_view B db') \<and> valid (btree db')) \<and>
    (\<exists>e db'. memdb_Delete B db key = (e, db') \<and> db_Delete (memdb_view B db) key = (e, memdb_view B db') \<and> valid (btree db')) \<and>
    (\<exists>e db' b'. memDBBatch_Write B db b = (e, db', b') \<and> batch_Write (memdb_view B db) b = (e, memdb_view B db', b') \<and> valid (btree db'))"
proof (intro conjI)
  have get: "bt_Get B (btree db) key = (case bt_look B (btree db) key of None \<Rightarrow> Nil_ptr | Some v \<Rightarrow> Ptr (key, v))"
    "bt_Has B (btree db) key \<longleftrightarrow> bt_look B (btree db) key \<noteq> None" using assms by (auto simp: btree_ok_def)
  note upd = memdb_set_view [OF assms]
  show "memdb_Get B db key = db_Get (memdb_view B db) key" "memdb_Has B db key = db_Has (memdb_view B db) key"
    using get by (simp_all add: memdb_Get_def db_Get_def memdb_Has_def db_Has_def memdb_view_def split: option.split)
  show "\<exists>e db'. memdb_Set B db key value = (e, db') \<and> db_Set (memdb_view B db) key value = (e, memdb_view B db') \<and> valid (btree db')"
    using upd(1,2) assms(2) by (cases "key = []"; cases "value") (simp_all add: memdb_Set_def db_Set_def memdb_view_def)
  show "\<exists>e db'. memdb_Delete B db key = (e, db') \<and> db_Delete (memdb_view B db) key = (e, memdb_view B db') \<and> valid (btree db')"
    using upd(3,4) assms(2) by (simp add: memdb_Delete_def db_Delete_def memdb_view_def)
  show "\<exists>e db' b'. memDBBatch_Write B db b = (e, db', b') \<and> batch_Write (memdb_view B db) b = (e, memdb_view B db', b') \<and> valid (btree db')"
    using memdb_ops_view [OF assms] assms(2)
    by (cases b) (simp_all add: memDBBatch_Write_def batch_Write_def memDBBatch_Close_def memdb_view_def list_ex_iff)
qed

text \<open>A sorted list as a tree.\<close>

definition list_btree :: "item list btree_lib" where
  "list_btree = (let asc = (\<lambda>t. t); del = (\<lambda>k. filter (\<lambda>i. fst i \<noteq> k)) in
     \<lparr>bt_New = [], bt_Get = (\<lambda>t k. case map_of t k of None \<Rightarrow> Nil_ptr | Some v \<Rightarrow> Ptr (k, v)), bt_Has = (\<lambda>t k. map_of t k \<noteq> None),
      bt_ReplaceOrInsert = (\<lambda>t i. filter (\<lambda>j. fst j < fst i) t @ i # filter (\<lambda>j. fst i < fst j) t), bt_Delete = (\<lambda>t k. del k t),
      bt_Len = (\<lambda>t. int (length t)), bt_Ascend = asc, bt_AscendGreaterOrEqual = (\<lambda>t a. filter (\<lambda>i. a \<le> fst i) t),
      bt_AscendRange = (\<lambda>t a b. filter (\<lambda>i. a \<le> fst i \<and> fst i < b) t), bt_Descend = rev,
      bt_DescendLessOrEqual = (\<lambda>t b. filter (\<lambda>i. fst i \<le> b) (rev t))\<rparr>)"

lemma map_of_filter_keys: "map_of (filter (\<lambda>i. P (fst i)) t) x = (if P x then map_of t x else None)"
  by (induction t) auto

lemma list_btree_ok: "btree_ok list_btree (\<lambda>t. sorted_wrt (<) (map fst t))"
proof -
  have ins: "map_of (filter (\<lambda>j. fst j < k) t @ (k, v) # filter (\<lambda>j. k < fst j) t) = (map_of t)(k \<mapsto> v)" for t :: "item list" and k v
    by (auto simp: fun_eq_iff map_add_def map_of_filter_keys [of "\<lambda>x. x < k"] map_of_filter_keys [of "\<lambda>x. k < x"] split: option.splits)
  have del: "map_of (filter (\<lambda>i. fst i \<noteq> k) t) = (map_of t)(k := None)" for t :: "item list" and k
    by (simp add: fun_eq_iff map_of_filter_keys [of "\<lambda>x. x \<noteq> k"])
  have sorted: "sorted_wrt (<) (map fst (filter (\<lambda>j. fst j < k) t @ (k, v) # filter (\<lambda>j. k < fst j) t))"
    if "sorted_wrt (<) (map fst t)" for t :: "item list" and k v
    using sorted_filter_keys [OF that] by (auto simp: sorted_wrt_append intro: less_trans)
  have kept: "sorted_wrt (<) (map fst (filter (\<lambda>i. fst i \<noteq> k) t))" if "sorted_wrt (<) (map fst t)" for t :: "item list" and k
    using that by (rule sorted_filter_keys)
  show ?thesis using ins del sorted kept by (simp add: btree_ok_def list_btree_def bt_look_def Let_def)
qed

text \<open>A database with two data entries and a state entry between the prefixes.\<close>

definition demo_memdb :: "item list MemDB" where
  "demo_memdb = \<lparr>btree = [([48, 7], [1]), ([49, 1], [2]), ([49, 2], [3])]\<rparr>"

lemma demo_memdb_valid: "sorted_wrt (<) (map fst (btree demo_memdb))"
  by (simp add: demo_memdb_def)

theorem memdb_refines_contract_witness:
  "memdb_Get list_btree demo_memdb [49, 2] = Inr (Ptr [3]) \<and>
   (\<exists>db'. memdb_Set list_btree demo_memdb [49, 3] (Ptr [4]) = (Nil_ptr, db') \<and> contents (memdb_view list_btree db') [49, 3] = Some [4])"
proof -
  have look: "contents (memdb_view list_btree demo_memdb) [49, 2] = Some [3]"
    by (simp add: memdb_view_def bt_look_def list_btree_def demo_memdb_def Let_def)
  obtain db' where "memdb_Set list_btree demo_memdb [49, 3] (Ptr [4]) = (Nil_ptr, db')"
    "db_Set (memdb_view list_btree demo_memdb) [49, 3] (Ptr [4]) = (Nil_ptr, memdb_view list_btree db')"
    using memdb_refines_contract [OF list_btree_ok demo_memdb_valid, of "[49, 3]" "Ptr [4]" None]
    by (auto simp: db_Set_def memdb_view_def)
  moreover have "contents (snd (db_Set (memdb_view list_btree demo_memdb) [49, 3] (Ptr [4]))) [49, 3] = Some [4]"
    by (simp add: db_Set_def memdb_view_def)
  ultimately show ?thesis
    using memdb_refines_contract [OF list_btree_ok demo_memdb_valid, of "[49, 2]" Nil_ptr None] look
    by (simp add: db_Get_def) (simp add: memdb_view_def)
qed

text \<open>
  C32: an iterator of the in-memory database shows its client exactly the entries whose keys lie in the domain, in
  the sense of \<open>IsKeyInDomain\<close>, each once, in ascending order of the keys, and the reverse iterator the same in
  descending order; both refuse just the empty bounds.
\<close>

theorem iterators_cover_domain:
  assumes "btree_ok B valid" "valid (btree db)"
  shows "(\<exists>items. items = filter (\<lambda>i. IsKeyInDomain (fst i) start end) (bt_Ascend B (btree db)) \<and> sorted_wrt (<) (map fst items) \<and>
     (case memdb_Iterator B db start end of Inl e \<Rightarrow> e = errKeyEmpty \<and> (start = Ptr [] \<or> end = Ptr [])
        | Inr i \<Rightarrow> start \<noteq> Ptr [] \<and> end \<noteq> Ptr [] \<and> it_Domain i = (start, end) \<and> walk i = Ret items) \<and>
     (case memdb_ReverseIterator B db start end of Inl e \<Rightarrow> e = errKeyEmpty \<and> (start = Ptr [] \<or> end = Ptr [])
        | Inr i \<Rightarrow> start \<noteq> Ptr [] \<and> end \<noteq> Ptr [] \<and> it_Domain i = (start, end) \<and> walk i = Ret (rev items)))"
proof -
  have "sorted_wrt (<) (map fst (bt_Ascend B (btree db)))" using assms by (simp add: btree_ok_def)
  then have "sorted_wrt (<) (map fst (filter (\<lambda>i. IsKeyInDomain (fst i) start end) (bt_Ascend B (btree db))))"
    by (rule sorted_filter_keys)
  moreover have "it_Domain (newMemDBIterator B db start end r) = (start, end)" for r
    by (simp add: newMemDBIterator_def next_item_def it_Domain_def split: list.split)
  moreover have "walk (newMemDBIterator B db start end r) = Ret (traverse B db start end r)" for r
    by (simp add: newMemDBIterator_def walk_items)
  ultimately show ?thesis
    by (auto simp: memdb_Iterator_def memdb_ReverseIterator_def traverse_spec [OF assms] Let_def)
qed

theorem iterators_cover_domain_witness:
  "\<exists>i. memdb_ReverseIterator list_btree demo_memdb (Ptr [48]) (Ptr [49, 2]) = Inr i \<and> walk i = Ret [([49, 1], [2]), ([48, 7], [1])]"
  using iterators_cover_domain [OF list_btree_ok demo_memdb_valid, of "Ptr [48]" "Ptr [49, 2]"]
  by (auto simp: memdb_ReverseIterator_def list_btree_def demo_memdb_def IsKeyInDomain_def Let_def)

text \<open>
  An iterator of the prefix store with an end shows the data entries between its bounds without their
  prefix, never a state entry; but a nil end, which the interface defines as no bound, becomes the bare
  prefix, and the iterator then shows nothing.
\<close>

theorem prefix_iterator_needs_end:
  assumes "btree_ok B valid" "valid (btree p)"
  shows "\<exists>i. prefix_Iterator B p start end = Inr i \<and>
    prefix_walk i = Ret (case end of
        Nil_ptr \<Rightarrow> []
      | Ptr e \<Rightarrow> map (\<lambda>(k, v). (fromDataKey k, v))
          (filter (\<lambda>(k, v). \<exists>k'. k = toDataKey k' \<and> IsKeyInDomain k' start end) (bt_Ascend B (btree p))))"
proof -
  let ?s = "toDataKey (slice_bytes start)" and ?e = "toDataKey (slice_bytes end)"
  have ne: "Ptr ?s \<noteq> Ptr []" "Ptr ?e \<noteq> Ptr []" by (simp_all add: toDataKey_def dataKey_def)
  have d: "IsKeyInDomain k (Ptr ?s) (Ptr ?e) \<longleftrightarrow> (\<exists>k'. k = toDataKey k' \<and> slice_bytes start \<le> k' \<and> k' < slice_bytes end)" for k
    using data_range [of "slice_bytes start" k "slice_bytes end"] by (auto simp: IsKeyInDomain_def not_less not_le)
  have "prefix_walk (newMemDBIterator B p (Ptr ?s) (Ptr ?e) False) =
      Ret (map (\<lambda>(k, v). (fromDataKey k, v)) (filter (\<lambda>i. IsKeyInDomain (fst i) (Ptr ?s) (Ptr ?e)) (bt_Ascend B (btree p))))"
    by (simp add: newMemDBIterator_def prefix_walk_items traverse_spec [OF assms])
  also have "\<dots> = Ret (case end of Nil_ptr \<Rightarrow> []
      | Ptr e \<Rightarrow> map (\<lambda>(k, v). (fromDataKey k, v))
          (filter (\<lambda>(k, v). \<exists>k'. k = toDataKey k' \<and> IsKeyInDomain k' start end) (bt_Ascend B (btree p))))"
  proof (cases "end")
    case Nil_ptr
    then have "filter (\<lambda>i. IsKeyInDomain (fst i) (Ptr ?s) (Ptr ?e)) (bt_Ascend B (btree p)) = []"
      using d by (auto simp: filter_empty_conv)
    then show ?thesis using Nil_ptr by simp
  next
    case (Ptr e)
    have "filter (\<lambda>i. IsKeyInDomain (fst i) (Ptr ?s) (Ptr ?e)) (bt_Ascend B (btree p)) =
        filter (\<lambda>(k, v). \<exists>k'. k = toDataKey k' \<and> IsKeyInDomain k' start end) (bt_Ascend B (btree p))"
      using d Ptr by (intro filter_cong) (auto simp: IsKeyInDomain_def not_less not_le)
    then show ?thesis unfolding Ptr ptr.case by (rule arg_cong)
  qed
  finally show ?thesis using ne by (simp add: prefix_Iterator_def memdb_Iterator_def)
qed

theorem prefix_iterator_needs_end_witness:
  "\<exists>i j. prefix_Iterator list_btree demo_memdb Nil_ptr (Ptr [2]) = Inr i \<and> prefix_walk i = Ret [([1], [2])] \<and>
     prefix_Iterator list_btree demo_memdb Nil_ptr Nil_ptr = Inr j \<and> prefix_walk j = Ret []"
  using prefix_iterator_needs_end [OF list_btree_ok demo_memdb_valid, of Nil_ptr "Ptr [2]"]
    prefix_iterator_needs_end [OF list_btree_ok demo_memdb_valid, of Nil_ptr Nil_ptr]
  by (auto simp: list_btree_def demo_memdb_def IsKeyInDomain_def Let_def toDataKey_def fromDataKey_def dataKey_def)

end
