(* ===== verification/CList.thy ===== *)
theory CList
  imports Prelude
begin

text \<open>
  Model of \<open>libs/clist/clist.go\<close>, the doubly linked list of the mempools. Elements live in an explicit
  heap indexed by their allocation number; a \<open>WaitGroup\<close> is the number of \<open>Done\<close> calls it still waits
  for and a channel is whether it has been closed, so that the panics of a second \<open>Done\<close> or \<open>close\<close> are
  part of the model. Every method holds the mutex of what it changes and is one step here; a blocking
  method is a partial function that is \<open>None\<close> while it waits. The lemmas show that the list represents
  a sequence of elements, that \<open>PushBack\<close> and \<open>Remove\<close> are the operations on sequences, and that the
  waiters are released exactly when there is something to return.
\<close>

section \<open>Elements and the list\<close>

record 'a CElement =
  prev :: "nat ptr"
  prevWg :: nat
  prevWaitCh :: bool
  next_el :: "nat ptr"
  nextWg :: nat
  nextWaitCh :: bool
  removed :: bool
  Value :: 'a

record 'a CList =
  cells :: "nat \<rightharpoonup> 'a CElement"
  allocated :: nat
  wg :: nat
  waitCh :: bool
  head :: "nat ptr"
  tail :: "nat ptr"
  len :: int
  maxLen :: int

definition waitGroup1 :: nat where "waitGroup1 = 1"

definition wg_Done :: "nat \<Rightarrow> nat go" where
  "wg_Done n = (if n = 0 then Panic else Ret (n - 1))"

definition ch_close :: "bool \<Rightarrow> bool go" where
  "ch_close closed = (if closed then Panic else Ret True)"

definition MaxLength :: int where "MaxLength = 2 ^ 63 - 1"

definition set_cell :: "'a CList \<Rightarrow> nat \<Rightarrow> 'a CElement \<Rightarrow> 'a CList" where
  "set_cell l e c = l\<lparr>cells := (cells l)(e \<mapsto> c)\<rparr>"

section \<open>Methods of an element\<close>

definition Next_el :: "'a CList \<Rightarrow> nat \<Rightarrow> nat ptr go" where
  "Next_el l e = map_option next_el (cells l e)"

definition Prev_el :: "'a CList \<Rightarrow> nat \<Rightarrow> nat ptr go" where
  "Prev_el l e = map_option prev (cells l e)"

definition Removed :: "'a CList \<Rightarrow> nat \<Rightarrow> bool go" where
  "Removed l e = map_option removed (cells l e)"

definition NextWaitChan :: "'a CList \<Rightarrow> nat \<Rightarrow> bool go" where
  "NextWaitChan l e = map_option nextWaitCh (cells l e)"

definition PrevWaitChan :: "'a CList \<Rightarrow> nat \<Rightarrow> bool go" where
  "PrevWaitChan l e = map_option prevWaitCh (cells l e)"

text \<open>\<open>None\<close>: the caller waits for the wait group of the element.\<close>

definition NextWait :: "'a CElement \<Rightarrow> nat ptr option" where
  "NextWait c = (if \<not> is_nil (next_el c) \<or> removed c then Some (next_el c) else None)"

definition PrevWait :: "'a CElement \<Rightarrow> nat ptr option" where
  "PrevWait c = (if \<not> is_nil (prev c) \<or> removed c then Some (prev c) else None)"

definition DetachNext :: "'a CList \<Rightarrow> nat \<Rightarrow> 'a CList go" where
  "DetachNext l e =
     do { c \<leftarrow> cells l e; if \<not> removed c then Panic else Ret (set_cell l e (c\<lparr>next_el := Nil_ptr\<rparr>)) }"

definition DetachPrev :: "'a CList \<Rightarrow> nat \<Rightarrow> 'a CList go" where
  "DetachPrev l e =
     do { c \<leftarrow> cells l e; if \<not> removed c then Panic else Ret (set_cell l e (c\<lparr>prev := Nil_ptr\<rparr>)) }"

definition SetNext :: "'a CList \<Rightarrow> nat \<Rightarrow> nat ptr \<Rightarrow> 'a CList go" where
  "SetNext l e newNext =
     do { c \<leftarrow> cells l e;
          let c1 = c\<lparr>next_el := newNext\<rparr>;
              c2 = (if \<not> is_nil (next_el c) \<and> is_nil newNext then c1\<lparr>nextWg := waitGroup1, nextWaitCh := False\<rparr> else c1)
          in if is_nil (next_el c) \<and> \<not> is_nil newNext
             then do { w \<leftarrow> wg_Done (nextWg c2); x \<leftarrow> ch_close (nextWaitCh c2);
                       Ret (set_cell l e (c2\<lparr>nextWg := w, nextWaitCh := x\<rparr>)) }
             else Ret (set_cell l e c2) }"

definition SetPrev :: "'a CList \<Rightarrow> nat \<Rightarrow> nat ptr \<Rightarrow> 'a CList go" where
  "SetPrev l e newPrev =
     do { c \<leftarrow> cells l e;
          let c1 = c\<lparr>prev := newPrev\<rparr>;
              c2 = (if \<not> is_nil (prev c) \<and> is_nil newPrev then c1\<lparr>prevWg := waitGroup1, prevWaitCh := False\<rparr> else c1)
          in if is_nil (prev c) \<and> \<not> is_nil newPrev
             then do { w \<leftarrow> wg_Done (prevWg c2); x \<leftarrow> ch_close (prevWaitCh c2);
                       Ret (set_cell l e (c2\<lparr>prevWg := w, prevWaitCh := x\<rparr>)) }
             else Ret (set_cell l e c2) }"

definition SetRemoved :: "'a CList \<Rightarrow> nat \<Rightarrow> 'a CList go" where
  "SetRemoved l e =
     do { c \<leftarrow> cells l e;
          let c1 = c\<lparr>removed := True\<rparr>
          in do { c2 \<leftarrow> (if is_nil (prev c1)
                         then do { w \<leftarrow> wg_Done (prevWg c1); x \<leftarrow> ch_close (prevWaitCh c1); Ret (c1\<lparr>prevWg := w, prevWaitCh := x\<rparr>) }
                         else Ret c1);
                  c3 \<leftarrow> (if is_nil (next_el c2)
                         then do { w \<leftarrow> wg_Done (nextWg c2); x \<leftarrow> ch_close (nextWaitCh c2); Ret (c2\<lparr>nextWg := w, nextWaitCh := x\<rparr>) }
                         else Ret c2);
                  Ret (set_cell l e c3) } }"

section \<open>Methods of the list\<close>

definition Init :: "'a CList \<Rightarrow> 'a CList" where
  "Init l = l\<lparr>wg := waitGroup1, waitCh := False, head := Nil_ptr, tail := Nil_ptr, len := 0\<rparr>"

definition newWithMax :: "int \<Rightarrow> 'a CList" where
  "newWithMax maxLength =
     Init \<lparr>cells = Map.empty, allocated = 0, wg = 0, waitCh = False, head = Nil_ptr, tail = Nil_ptr, len = 0, maxLen = maxLength\<rparr>"

definition New :: "'a CList" where
  "New = newWithMax MaxLength"

definition Len :: "'a CList \<Rightarrow> int" where "Len l = len l"
definition Front :: "'a CList \<Rightarrow> nat ptr" where "Front l = head l"
definition Back :: "'a CList \<Rightarrow> nat ptr" where "Back l = tail l"
definition WaitChan :: "'a CList \<Rightarrow> bool" where "WaitChan l = waitCh l"

definition FrontWait :: "'a CList \<Rightarrow> nat ptr option" where
  "FrontWait l = (if is_nil (head l) then None else Some (head l))"

definition BackWait :: "'a CList \<Rightarrow> nat ptr option" where
  "BackWait l = (if is_nil (tail l) then None else Some (tail l))"

definition PushBack :: "'a CList \<Rightarrow> 'a \<Rightarrow> (nat \<times> 'a CList) go" where
  "PushBack l v =
     (let e = allocated l;
          l1 = (set_cell l e \<lparr>prev = Nil_ptr, prevWg = waitGroup1, prevWaitCh = False, next_el = Nil_ptr,
                  nextWg = waitGroup1, nextWaitCh = False, removed = False, Value = v\<rparr>)\<lparr>allocated := e + 1\<rparr>
      in do { l2 \<leftarrow> (if len l1 = 0 then do { w \<leftarrow> wg_Done (wg l1); x \<leftarrow> ch_close (waitCh l1); Ret (l1\<lparr>wg := w, waitCh := x\<rparr>) }
                     else Ret l1);
              if len l2 \<ge> maxLen l2 then Panic
              else
                let l3 = l2\<lparr>len := len l2 + 1\<rparr>
                in case tail l3 of
                     Nil_ptr \<Rightarrow> Ret (e, l3\<lparr>head := Ptr e, tail := Ptr e\<rparr>)
                   | Ptr t \<Rightarrow> do { l4 \<leftarrow> SetPrev l3 e (Ptr t); l5 \<leftarrow> SetNext l4 t (Ptr e); Ret (e, l5\<lparr>tail := Ptr e\<rparr>) } })"

definition Remove :: "'a CList \<Rightarrow> nat \<Rightarrow> ('a \<times> 'a CList) go" where
  "Remove l e =
     do { c \<leftarrow> cells l e;
          if is_nil (head l) \<or> is_nil (tail l) then Panic
          else if is_nil (prev c) \<and> head l \<noteq> Ptr e then Panic
          else if is_nil (next_el c) \<and> tail l \<noteq> Ptr e then Panic
          else
            let l1 = (if len l = 1 then l\<lparr>wg := waitGroup1, waitCh := False\<rparr> else l);
                l2 = l1\<lparr>len := len l1 - 1\<rparr>
            in do { l3 \<leftarrow> (case prev c of Nil_ptr \<Rightarrow> Ret (l2\<lparr>head := next_el c\<rparr>) | Ptr p \<Rightarrow> SetNext l2 p (next_el c));
                    l4 \<leftarrow> (case next_el c of Nil_ptr \<Rightarrow> Ret (l3\<lparr>tail := prev c\<rparr>) | Ptr n \<Rightarrow> SetPrev l3 n (prev c));
                    l5 \<leftarrow> SetRemoved l4 e;
                    Ret (Value c, l5) } }"

section \<open>The sequence a list represents\<close>

text \<open>The first element of a sequence that is followed by \<open>q\<close>, and the last one of a sequence after \<open>p\<close>.\<close>

definition first_of :: "nat list \<Rightarrow> nat ptr \<Rightarrow> nat ptr" where
  "first_of es q = (case es of [] \<Rightarrow> q | e # _ \<Rightarrow> Ptr e)"

definition last_of :: "nat ptr \<Rightarrow> nat list \<Rightarrow> nat ptr" where
  "last_of p es = (if es = [] then p else Ptr (last es))"

text \<open>An element as it stands in a list: its neighbours, and its waiters released where it has one.\<close>

definition linked :: "nat ptr \<Rightarrow> nat ptr \<Rightarrow> 'a CElement \<Rightarrow> bool" where
  "linked p n c \<longleftrightarrow> prev c = p \<and> next_el c = n \<and> \<not> removed c \<and>
     prevWaitCh c = (\<not> is_nil p) \<and> prevWg c = (if is_nil p then 1 else 0) \<and>
     nextWaitCh c = (\<not> is_nil n) \<and> nextWg c = (if is_nil n then 1 else 0)"

fun links :: "(nat \<rightharpoonup> 'a CElement) \<Rightarrow> nat ptr \<Rightarrow> nat list \<Rightarrow> nat ptr \<Rightarrow> bool" where
  "links h p [] q = True"
| "links h p (e # es) q = ((case h e of None \<Rightarrow> False | Some c \<Rightarrow> linked p (first_of es q) c) \<and> links h (Ptr e) es q)"

definition clist_rep :: "'a CList \<Rightarrow> nat list \<Rightarrow> bool" where
  "clist_rep l ids \<longleftrightarrow> distinct ids \<and> len l = int (length ids) \<and> (\<forall>e\<in>set ids. e < allocated l) \<and>
     head l = first_of ids Nil_ptr \<and> tail l = last_of Nil_ptr ids \<and>
     waitCh l = (ids \<noteq> []) \<and> wg l = (if ids = [] then 1 else 0) \<and> links (cells l) Nil_ptr ids Nil_ptr"

definition value_at :: "'a CList \<Rightarrow> nat \<Rightarrow> 'a" where
  "value_at l e = Value (the (cells l e))"

lemma first_of_simps [simp]: "first_of [] q = q" "first_of (e # es) q = Ptr e"
  by (simp_all add: first_of_def)

lemma first_of_Ptr [simp]: "\<not> is_nil (first_of xs (Ptr p))"
  by (cases xs) simp_all

lemma last_of_simps [simp]: "last_of p [] = p" "last_of p (es @ [e]) = Ptr e" "last_of p [e] = Ptr e"
  "last_of p (e # es @ [x]) = Ptr x" "last_of p (es @ [e, x]) = Ptr x"
  by (simp_all add: last_of_def)

lemma first_of_append: "first_of (xs @ ys) q = first_of xs (first_of ys q)"
  by (cases xs) simp_all

lemma last_of_append: "last_of p (xs @ ys) = last_of (last_of p xs) ys"
  by (simp add: last_of_def)

lemma links_append: "links h p (xs @ ys) q \<longleftrightarrow> links h p xs (first_of ys q) \<and> links h (last_of p xs) ys q"
  by (induction xs arbitrary: p) (auto simp: first_of_append last_of_def split: option.splits)

lemma links_upd [simp]: "e \<notin> set es \<Longrightarrow> links (h(e \<mapsto> c)) p es q = links h p es q"
  by (induction es arbitrary: p) auto

lemma New_rep: "clist_rep New []"
  by (simp add: clist_rep_def New_def newWithMax_def Init_def waitGroup1_def)

lemmas clist_op_defs = set_cell_def SetNext_def SetPrev_def SetRemoved_def wg_Done_def ch_close_def waitGroup1_def Let_def

text \<open>\<open>PushBack\<close> appends an element.\<close>

lemma PushBack_rep:
  assumes "clist_rep l ids" "len l < maxLen l"
  shows "\<exists>l'. PushBack l v = Ret (allocated l, l') \<and> clist_rep l' (ids @ [allocated l]) \<and> maxLen l' = maxLen l \<and>
    value_at l' (allocated l) = v \<and> (\<forall>e. e < allocated l \<longrightarrow> value_at l' e = value_at l e)"
proof (cases ids rule: rev_cases)
  case Nil
  then show ?thesis using assms by (auto simp: clist_rep_def PushBack_def clist_op_defs linked_def value_at_def)
next
  case (snoc xs t)
  have f: "allocated l \<notin> set ids" "allocated l \<noteq> t" "t \<notin> set xs" using assms(1) snoc by (auto simp: clist_rep_def)
  obtain c where c: "cells l t = Some c" "linked (last_of Nil_ptr xs) Nil_ptr c" "links (cells l) Nil_ptr xs (Ptr t)"
    using assms(1) snoc by (auto simp: clist_rep_def links_append split: option.splits)
  show ?thesis using assms snoc f c
    by (auto simp: clist_rep_def PushBack_def clist_op_defs linked_def value_at_def links_append first_of_append)
qed

lemma PushBack_full: "clist_rep l ids \<Longrightarrow> maxLen l \<le> len l \<Longrightarrow> PushBack l v = Panic"
  by (auto simp: PushBack_def clist_op_defs clist_rep_def)

text \<open>
  \<open>Remove\<close> takes out an element of the list. The element keeps its links, is marked as removed, and every
  goroutine that waits for a neighbour of it is released.
\<close>

definition released :: "'a CElement \<Rightarrow> bool" where
  "released c \<longleftrightarrow> removed c \<and> prevWaitCh c \<and> prevWg c = 0 \<and> nextWaitCh c \<and> nextWg c = 0"

lemma Remove_rep:
  assumes "clist_rep l (xs @ e # ys)"
  shows "\<exists>l' c'. Remove l e = Ret (value_at l e, l') \<and> clist_rep l' (xs @ ys) \<and> maxLen l' = maxLen l \<and> allocated l' = allocated l \<and>
    (\<forall>x. value_at l' x = value_at l x) \<and> cells l' e = Some c' \<and> released c' \<and> next_el c' = first_of ys Nil_ptr"
proof -
  obtain c where c: "cells l e = Some c" "linked (last_of Nil_ptr xs) (first_of ys Nil_ptr) c"
    using assms by (auto simp: clist_rep_def links_append split: option.splits)
  have d: "e \<notin> set xs" "e \<notin> set ys" "distinct xs" "distinct ys" using assms by (auto simp: clist_rep_def)
  show ?thesis
  proof (cases xs rule: rev_cases; cases ys)
    assume "xs = []" "ys = []"
    then show ?thesis using assms c d by (auto simp: clist_rep_def Remove_def clist_op_defs linked_def value_at_def released_def)
  next
    fix n ns assume y: "xs = []" "ys = n # ns"
    obtain cn where cn: "cells l n = Some cn" "linked (Ptr e) (first_of ns Nil_ptr) cn"
      using assms y by (auto simp: clist_rep_def split: option.splits)
    show ?thesis using assms y c d cn
      by (auto simp: clist_rep_def Remove_def clist_op_defs linked_def value_at_def released_def last_of_def)
  next
    fix ps p assume y: "xs = ps @ [p]" "ys = []"
    obtain cp where cp: "cells l p = Some cp" "linked (last_of Nil_ptr ps) (Ptr e) cp"
      using assms y by (auto simp: clist_rep_def links_append split: option.splits)
    show ?thesis using assms y c d cp
      by (auto simp: clist_rep_def Remove_def clist_op_defs linked_def value_at_def released_def links_append first_of_append)
  next
    fix ps p n ns assume y: "xs = ps @ [p]" "ys = n # ns"
    obtain cp cn where cp: "cells l p = Some cp" "linked (last_of Nil_ptr ps) (Ptr e) cp"
      and cn: "cells l n = Some cn" "linked (Ptr e) (first_of ns Nil_ptr) cn"
      using assms y by (auto simp: clist_rep_def links_append split: option.splits)
    have ne: "p \<noteq> n" "p \<notin> set ns" "n \<notin> set ps" "e \<noteq> p" "e \<noteq> n" "p \<notin> set ps" "n \<notin> set ns"
      using assms y by (auto simp: clist_rep_def)
    show ?thesis using assms y c d cp cn ne
      by (auto simp: clist_rep_def Remove_def clist_op_defs linked_def value_at_def released_def links_append first_of_append last_of_def)
  qed
qed

text \<open>Walking from an element of the list reads the elements after it.\<close>

lemma Next_el_rep: "clist_rep l (xs @ e # ys) \<Longrightarrow> Next_el l e = Ret (first_of ys Nil_ptr)"
  by (auto simp: clist_rep_def links_append Next_el_def linked_def split: option.splits)

lemma Front_rep: "clist_rep l ids \<Longrightarrow> Front l = first_of ids Nil_ptr"
  by (simp add: clist_rep_def Front_def)

text \<open>A waiter for a neighbour is blocked exactly while its channel is open and its wait group pending.\<close>

lemma waiters_rep:
  assumes "clist_rep l ids" "e \<in> set ids"
  shows "\<exists>c. cells l e = Some c \<and> (NextWait c = None \<longleftrightarrow> \<not> nextWaitCh c) \<and> (nextWaitCh c \<longleftrightarrow> nextWg c = 0) \<and>
    (PrevWait c = None \<longleftrightarrow> \<not> prevWaitCh c) \<and> (prevWaitCh c \<longleftrightarrow> prevWg c = 0)"
proof -
  obtain xs ys where "ids = xs @ e # ys" using assms(2) by (meson split_list)
  then obtain c where "cells l e = Some c" "linked (last_of Nil_ptr xs) (first_of ys Nil_ptr) c"
    using assms(1) by (auto simp: clist_rep_def links_append split: option.splits)
  then show ?thesis by (auto simp: linked_def NextWait_def PrevWait_def)
qed

lemma front_waiters_rep: "clist_rep l ids \<Longrightarrow> (FrontWait l = None \<longleftrightarrow> \<not> waitCh l) \<and> (BackWait l = None \<longleftrightarrow> \<not> waitCh l) \<and> (waitCh l \<longleftrightarrow> wg l = 0)"
  by (cases ids) (auto simp: clist_rep_def FrontWait_def BackWait_def last_of_def)

end
