(* ===== verification/Mempool.thy ===== *)
theory Mempool
  imports CList Txs BitVec
begin

text \<open>
  Model of \<open>melete/mempool/mempool.go\<close>: the pool of received transactions, a concurrent list of
  transactions and a map from a transaction to its list element. The application's \<open>ValidateTx\<close> is a
  parameter. Every method is one step. The abstract pool is the sequence of pending transactions with
  the set of those the map still knows; the lemmas show that the pool implements it.
\<close>

section \<open>The pool\<close>

record Mempool =
  txs :: "Tx CList"
  txsMap :: "string \<rightharpoonup> nat"
  isCrossShardMempool :: bool

datatype MempoolError = NotValidated

definition NewMempool :: "bool \<Rightarrow> Mempool" where
  "NewMempool isCrossShard = \<lparr>txs = CList.New, txsMap = Map.empty, isCrossShardMempool = isCrossShard\<rparr>"

definition AddTx :: "(Tx \<Rightarrow> bool \<Rightarrow> bool go) \<Rightarrow> Mempool \<Rightarrow> Tx \<Rightarrow> (MempoolError ptr \<times> Mempool) go" where
  "AddTx validate mpl tx =
     do { ok \<leftarrow> validate tx (isCrossShardMempool mpl);
          if \<not> ok then Ret (Ptr NotValidated, mpl)
          else do { (e, l) \<leftarrow> PushBack (txs mpl) tx;
                    Ret (Nil_ptr, mpl\<lparr>txs := l, txsMap := (txsMap mpl)(Tx_Key tx \<mapsto> e)\<rparr>) } }"

definition mp_Receive :: "(Tx \<Rightarrow> bool \<Rightarrow> bool go) \<Rightarrow> Mempool \<Rightarrow> bytes \<Rightarrow> (MempoolError ptr \<times> Mempool) go" where
  "mp_Receive validate mpl message = AddTx validate mpl message"

definition RemoveTx :: "Mempool \<Rightarrow> Tx \<Rightarrow> Mempool go" where
  "RemoveTx mpl tx =
     (case txsMap mpl (Tx_Key tx) of
        None \<Rightarrow> Ret mpl
      | Some e \<Rightarrow> do { (_, l) \<leftarrow> Remove (txs mpl) e;
                       Ret (mpl\<lparr>txs := l, txsMap := (txsMap mpl)(Tx_Key tx := None)\<rparr>) })"

text \<open>The loop of \<open>ReapTx\<close> walks the list until it has enough; \<open>None\<close> if it never ends.\<close>

partial_function (option) reap_loop :: "Tx CList \<Rightarrow> int \<Rightarrow> nat ptr \<Rightarrow> Txs \<Rightarrow> Txs go option" where
  "reap_loop l maxTxs e out =
     (case e of
        Nil_ptr \<Rightarrow> Some (Ret out)
      | Ptr x \<Rightarrow>
          (case cells l x of
             None \<Rightarrow> Some Panic
           | Some c \<Rightarrow>
               if int (length (out @ [Value c])) \<ge> maxTxs then Some (Ret (out @ [Value c]))
               else reap_loop l maxTxs (next_el c) (out @ [Value c])))"

text \<open>\<open>make(types.Txs, 0, maxTxs)\<close> panics on a negative capacity.\<close>

definition ReapTx :: "Mempool \<Rightarrow> int \<Rightarrow> (Txs \<times> int) go option" where
  "ReapTx mpl maxTxs =
     (if maxTxs < 0 then Some Panic
      else map_option (map_option (\<lambda>out. (out, int (length out)))) (reap_loop (txs mpl) maxTxs (Front (txs mpl)) []))"

fun remove_all :: "Mempool \<Rightarrow> Txs \<Rightarrow> Mempool go" where
  "remove_all mpl [] = Ret mpl"
| "remove_all mpl (tx # rest) = do { m \<leftarrow> RemoveTx mpl tx; remove_all m rest }"

fun remove_marked :: "BitVector ptr \<Rightarrow> int \<Rightarrow> Mempool \<Rightarrow> Txs \<Rightarrow> Mempool go" where
  "remove_marked bv i mpl [] = Ret mpl"
| "remove_marked bv i mpl (tx # rest) =
     do { marked \<leftarrow> GetIndex bv i;
          m \<leftarrow> (if marked then RemoveTx mpl tx else Ret mpl);
          remove_marked bv (i + 1) m rest }"

definition Update :: "Mempool \<Rightarrow> Txs \<Rightarrow> bytes \<Rightarrow> Mempool go" where
  "Update mpl ts commitStatus =
     (if ts = [] then Ret mpl
      else if isCrossShardMempool mpl then do { bv \<leftarrow> NewBitArrayFromByte commitStatus; remove_marked bv 0 mpl ts }
      else remove_all mpl ts)"

section \<open>The abstract pool\<close>

text \<open>
  The pending transactions in order of arrival and those that can still be removed. A transaction that
  is pending twice is removed at its last position, and only once.
\<close>

type_synonym pool = "Txs \<times> Tx set"

definition pool_add :: "Tx \<Rightarrow> pool \<Rightarrow> pool" where
  "pool_add tx p = (fst p @ [tx], insert tx (snd p))"

definition pool_remove :: "Tx \<Rightarrow> pool \<Rightarrow> pool" where
  "pool_remove tx p = (if tx \<in> snd p then (rev (remove1 tx (rev (fst p))), snd p - {tx}) else p)"

definition mp_rep :: "Mempool \<Rightarrow> pool \<Rightarrow> bool" where
  "mp_rep mpl p \<longleftrightarrow>
     (\<exists>ids. clist_rep (txs mpl) ids \<and> fst p = map (value_at (txs mpl)) ids \<and> maxLen (txs mpl) = MaxLength \<and>
        snd p = {tx. txsMap mpl (Tx_Key tx) \<noteq> None} \<and>
        (\<forall>tx e. txsMap mpl (Tx_Key tx) = Some e \<longrightarrow>
           (\<exists>xs ys. ids = xs @ e # ys \<and> value_at (txs mpl) e = tx \<and> tx \<notin> value_at (txs mpl) ` set ys)))"

lemma Tx_Key_inject [simp]: "Tx_Key a = Tx_Key b \<longleftrightarrow> a = b"
  by (simp add: Tx_Key_def bytes_str_inject)

lemma NewMempool_rep: "mp_rep (NewMempool b) ([], {})"
  using New_rep by (auto simp: mp_rep_def NewMempool_def New_def newWithMax_def Init_def)

lemma AddTx_rep:
  assumes "mp_rep mpl p" "validate tx (isCrossShardMempool mpl) = Ret True" "int (length (fst p)) < MaxLength"
  shows "\<exists>mpl'. AddTx validate mpl tx = Ret (Nil_ptr, mpl') \<and> mp_rep mpl' (pool_add tx p) \<and>
    isCrossShardMempool mpl' = isCrossShardMempool mpl"
proof -
  obtain ids where ids: "clist_rep (txs mpl) ids" "fst p = map (value_at (txs mpl)) ids" "maxLen (txs mpl) = MaxLength"
    "snd p = {tx. txsMap mpl (Tx_Key tx) \<noteq> None}"
    "\<And>tx e. txsMap mpl (Tx_Key tx) = Some e \<Longrightarrow>
       \<exists>xs ys. ids = xs @ e # ys \<and> value_at (txs mpl) e = tx \<and> tx \<notin> value_at (txs mpl) ` set ys"
    using assms(1) by (auto simp: mp_rep_def)
  have len: "len (txs mpl) < maxLen (txs mpl)" and old: "\<forall>e\<in>set ids. e < allocated (txs mpl)"
    using assms(3) ids(1-3) by (auto simp: clist_rep_def)
  let ?n = "allocated (txs mpl)"
  obtain l' where l': "PushBack (txs mpl) tx = Ret (?n, l')" "clist_rep l' (ids @ [?n])" "maxLen l' = maxLen (txs mpl)"
    "value_at l' ?n = tx" "\<And>e. e < ?n \<Longrightarrow> value_at l' e = value_at (txs mpl) e"
    using PushBack_rep [OF ids(1) len, of tx] by blast
  have same: "e \<in> set ids \<Longrightarrow> value_at l' e = value_at (txs mpl) e" for e using l'(5) old by blast
  let ?m = "mpl\<lparr>txs := l', txsMap := (txsMap mpl)(Tx_Key tx \<mapsto> ?n)\<rparr>"
  have "\<exists>xs ys. ids @ [?n] = xs @ e # ys \<and> value_at l' e = t \<and> t \<notin> value_at l' ` set ys"
    if e: "((txsMap mpl)(Tx_Key tx \<mapsto> ?n)) (Tx_Key t) = Some e" for t e
  proof (cases "t = tx")
    case True
    then show ?thesis using e l'(4) by (intro exI [where x = ids] exI [where x = "[]"]) auto
  next
    case False
    then obtain xs ys where x: "ids = xs @ e # ys" "value_at (txs mpl) e = t" "t \<notin> value_at (txs mpl) ` set ys"
      using ids(5) [of t e] e by auto
    have "value_at l' ` set (ys @ [?n]) = value_at (txs mpl) ` set ys \<union> {tx}" using same x(1) l'(4) by auto
    moreover have "value_at l' e = t" using same [of e] x by simp
    ultimately show ?thesis using x False by (intro exI [where x = xs] exI [where x = "ys @ [?n]"]) auto
  qed
  then have "mp_rep ?m (pool_add tx p)"
    unfolding mp_rep_def using l' ids same by (intro exI [where x = "ids @ [?n]"]) (auto simp: pool_add_def)
  then show ?thesis using assms(2) l'(1) by (simp add: AddTx_def)
qed

lemma remove1_last: "x \<notin> set ys \<Longrightarrow> rev (remove1 x (rev (xs @ x # ys))) = xs @ ys"
  by (simp add: remove1_append)

lemma RemoveTx_rep:
  assumes "mp_rep mpl p"
  shows "\<exists>mpl'. RemoveTx mpl tx = Ret mpl' \<and> mp_rep mpl' (pool_remove tx p) \<and> isCrossShardMempool mpl' = isCrossShardMempool mpl"
proof -
  obtain ids where ids: "clist_rep (txs mpl) ids" "fst p = map (value_at (txs mpl)) ids" "maxLen (txs mpl) = MaxLength"
    "snd p = {tx. txsMap mpl (Tx_Key tx) \<noteq> None}"
    "\<And>tx e. txsMap mpl (Tx_Key tx) = Some e \<Longrightarrow>
       \<exists>xs ys. ids = xs @ e # ys \<and> value_at (txs mpl) e = tx \<and> tx \<notin> value_at (txs mpl) ` set ys"
    using assms by (auto simp: mp_rep_def)
  show ?thesis
  proof (cases "txsMap mpl (Tx_Key tx)")
    case None
    then show ?thesis using assms ids(4) by (simp add: RemoveTx_def pool_remove_def)
  next
    case (Some e)
    then obtain xs ys where x: "ids = xs @ e # ys" "value_at (txs mpl) e = tx" "tx \<notin> value_at (txs mpl) ` set ys"
      using ids(5) by blast
    obtain l' where l': "Remove (txs mpl) e = Ret (value_at (txs mpl) e, l')" "clist_rep l' (xs @ ys)"
      "maxLen l' = maxLen (txs mpl)" "\<And>y. value_at l' y = value_at (txs mpl) y"
      using Remove_rep [OF ids(1) [unfolded x(1)]] by blast
    have v: "value_at l' = value_at (txs mpl)" using l'(4) by blast
    let ?m = "mpl\<lparr>txs := l', txsMap := (txsMap mpl)(Tx_Key tx := None)\<rparr>"
    have "\<exists>us vs. xs @ ys = us @ d # vs \<and> value_at l' d = t \<and> t \<notin> value_at l' ` set vs"
      if d: "((txsMap mpl)(Tx_Key tx := None)) (Tx_Key t) = Some d" for t d
    proof -
      have t: "t \<noteq> tx" "txsMap mpl (Tx_Key t) = Some d" using d by (auto split: if_splits)
      obtain us vs where u: "ids = us @ d # vs" "value_at (txs mpl) d = t" "t \<notin> value_at (txs mpl) ` set vs"
        using ids(5) [OF t(2)] by blast
      have "d \<noteq> e" using u(2) x(2) t(1) by blast
      have "us @ d # vs = xs @ e # ys" using u(1) x(1) by simp
      then consider ws where "us @ d # ws = xs" "vs = ws @ e # ys" | ws where "us = xs @ e # ws" "ys = ws @ d # vs"
        using \<open>d \<noteq> e\<close> by (auto simp: append_eq_append_conv2 append_eq_Cons_conv Cons_eq_append_conv)
      then show ?thesis
      proof cases
        case 1
        then have "xs @ ys = us @ d # (ws @ ys)" by auto
        then show ?thesis using u 1 v by (intro exI [where x = us] exI [where x = "ws @ ys"]) auto
      next
        case 2
        then show ?thesis using u v by (intro exI [where x = "xs @ ws"] exI [where x = vs]) auto
      qed
    qed
    moreover have "fst (pool_remove tx p) = map (value_at l') (xs @ ys)"
      using Some ids(2,4) x v remove1_last [of tx "map (value_at (txs mpl)) ys" "map (value_at (txs mpl)) xs"]
      by (simp add: pool_remove_def)
    moreover have "snd (pool_remove tx p) = {t. ((txsMap mpl)(Tx_Key tx := None)) (Tx_Key t) \<noteq> None}"
      using Some ids(4) by (auto simp: pool_remove_def)
    ultimately have "mp_rep ?m (pool_remove tx p)"
      unfolding mp_rep_def using l' ids(3) by (intro exI [where x = "xs @ ys"]) auto
    then show ?thesis using Some l'(1) by (simp add: RemoveTx_def)
  qed
qed

text \<open>The walk of \<open>ReapTx\<close> ends and reads a prefix of the list.\<close>

lemma reap_loop_rep:
  "clist_rep l (xs @ ys) \<Longrightarrow> int (length out) < maxTxs \<or> out = [] \<Longrightarrow>
     reap_loop l maxTxs (first_of ys Nil_ptr) out =
       Some (Ret (out @ take (max 1 (nat maxTxs) - length out) (map (value_at l) ys)))"
proof (induction ys arbitrary: xs out)
  case Nil
  then show ?case by (simp add: reap_loop.simps)
next
  case (Cons e ys)
  obtain c where c: "cells l e = Some c" "next_el c = first_of ys Nil_ptr" "Value c = value_at l e"
    using Cons.prems(1) by (auto simp: clist_rep_def links_append linked_def value_at_def split: option.splits)
  show ?case
  proof (cases "int (length (out @ [Value c])) \<ge> maxTxs")
    case True
    then have "max 1 (nat maxTxs) - length out = 1" using Cons.prems(2) by (auto simp: max_def)
    then show ?thesis using True c by (simp add: reap_loop.simps)
  next
    case False
    have "reap_loop l maxTxs (first_of ys Nil_ptr) (out @ [Value c]) =
        Some (Ret ((out @ [Value c]) @ take (max 1 (nat maxTxs) - length (out @ [Value c])) (map (value_at l) ys)))"
      by (rule Cons.IH [of "xs @ [e]"]) (use Cons.prems(1) False in auto)
    moreover have "max 1 (nat maxTxs) - length out = Suc (max 1 (nat maxTxs) - length (out @ [Value c]))"
      using False by (auto simp: max_def)
    ultimately show ?thesis using False c by (simp add: reap_loop.simps)
  qed
qed

lemma ReapTx_rep:
  assumes "mp_rep mpl p" "0 \<le> maxTxs"
  shows "ReapTx mpl maxTxs = Some (Ret (take (max 1 (nat maxTxs)) (fst p), int (min (length (fst p)) (max 1 (nat maxTxs)))))"
proof -
  obtain ids where ids: "clist_rep (txs mpl) ids" "fst p = map (value_at (txs mpl)) ids" using assms(1) by (auto simp: mp_rep_def)
  show ?thesis using reap_loop_rep [of "txs mpl" "[]" ids "[]" maxTxs] ids assms(2) Front_rep [OF ids(1)]
    by (simp add: ReapTx_def)
qed

lemma remove_all_rep:
  "mp_rep mpl p \<Longrightarrow> \<exists>mpl'. remove_all mpl ts = Ret mpl' \<and> mp_rep mpl' (fold pool_remove ts p) \<and> isCrossShardMempool mpl' = isCrossShardMempool mpl"
proof (induction ts arbitrary: mpl p)
  case (Cons t ts)
  obtain m where m: "RemoveTx mpl t = Ret m" "mp_rep m (pool_remove t p)" "isCrossShardMempool m = isCrossShardMempool mpl"
    using RemoveTx_rep [OF Cons.prems] by blast
  show ?case using Cons.IH [OF m(2)] m by auto
qed simp

definition marked_txs :: "BitVector \<Rightarrow> nat \<Rightarrow> Txs \<Rightarrow> Txs" where
  "marked_txs b i ts = map fst (filter (\<lambda>(t, j). j < nat (Bits b) \<and> bv_bit b j) (zip ts [i..<i + length ts]))"

lemma marked_txs_simps [simp]: "marked_txs b i [] = []"
  "marked_txs b i (t # ts) = (if i < nat (Bits b) \<and> bv_bit b i then [t] else []) @ marked_txs b (Suc i) ts"
proof -
  have "[i..<i + length (t # ts)] = i # [Suc i..<Suc i + length ts]" by (simp add: upt_rec)
  then show "marked_txs b i (t # ts) = (if i < nat (Bits b) \<and> bv_bit b i then [t] else []) @ marked_txs b (Suc i) ts"
    by (simp add: marked_txs_def)
qed (simp add: marked_txs_def)

lemma remove_marked_rep:
  "bv_wf b \<Longrightarrow> mp_rep mpl p \<Longrightarrow> \<exists>mpl'. remove_marked (Ptr b) (int i) mpl ts = Ret mpl' \<and> mp_rep mpl' (fold pool_remove (marked_txs b i ts) p) \<and>
     isCrossShardMempool mpl' = isCrossShardMempool mpl"
proof (induction ts arbitrary: mpl p i)
  case (Cons t ts)
  note g = GetIndex_total [OF Cons.prems(1), of i]
  have s: "int i + 1 = int (Suc i)" by simp
  show ?case
  proof (cases "i < nat (Bits b) \<and> bv_bit b i")
    case True
    obtain m where m: "RemoveTx mpl t = Ret m" "mp_rep m (pool_remove t p)" "isCrossShardMempool m = isCrossShardMempool mpl"
      using RemoveTx_rep [OF Cons.prems(2)] by blast
    show ?thesis using Cons.IH [OF Cons.prems(1) m(2), of "Suc i"] m g True unfolding remove_marked.simps s by auto
  next
    case False
    show ?thesis using Cons.IH [OF Cons.prems(1,2), of "Suc i"] g False unfolding remove_marked.simps s by auto
  qed
qed simp

lemma Update_rep:
  assumes "mp_rep mpl p" "\<not> isCrossShardMempool mpl"
  shows "\<exists>mpl'. Update mpl ts st = Ret mpl' \<and> mp_rep mpl' (fold pool_remove ts p) \<and> \<not> isCrossShardMempool mpl'"
  using remove_all_rep [OF assms(1), of ts] assms by (cases ts) (auto simp: Update_def)

lemma Update_cross_rep:
  assumes "mp_rep mpl p" "isCrossShardMempool mpl" "bv_wf b"
  shows "\<exists>mpl'. Update mpl ts (Byte (Ptr b)) = Ret mpl' \<and> mp_rep mpl' (fold pool_remove (marked_txs b 0 ts) p)"
proof (cases "ts = []")
  case True
  then show ?thesis using assms by (simp add: Update_def)
next
  case False
  have "NewBitArrayFromByte (Byte (Ptr b)) = Ret (Ptr b)" using assms(3) by (rule Byte_roundtrip_aux)
  then show ?thesis using remove_marked_rep [OF assms(3,1), of 0 ts] assms(2) False by (auto simp: Update_def)
qed

section \<open>Properties\<close>

text \<open>C22: the pool implements its abstract specification: adding a validated transaction appends it, removing one
  takes out its last copy if the map knows it, and reaping always ends and returns the first transactions in
  order of arrival, at least one of them even when none is asked for.\<close>

theorem mempool_refines_pool:
  assumes "mp_rep mpl p"
  shows "(validate tx (isCrossShardMempool mpl) = Ret True \<and> int (length (fst p)) < MaxLength \<longrightarrow>
      (\<exists>mpl'. AddTx validate mpl tx = Ret (Nil_ptr, mpl') \<and> mp_rep mpl' (pool_add tx p))) \<and>
    (\<exists>mpl'. RemoveTx mpl tx = Ret mpl' \<and> mp_rep mpl' (pool_remove tx p)) \<and>
    (\<not> isCrossShardMempool mpl \<longrightarrow> (\<exists>mpl'. Update mpl ts st = Ret mpl' \<and> mp_rep mpl' (fold pool_remove ts p))) \<and>
    (isCrossShardMempool mpl \<and> bv_wf b \<longrightarrow> (\<exists>mpl'. Update mpl ts (Byte (Ptr b)) = Ret mpl' \<and> mp_rep mpl' (fold pool_remove (marked_txs b 0 ts) p))) \<and>
    (0 \<le> n \<longrightarrow> ReapTx mpl n = Some (Ret (take (max 1 (nat n)) (fst p), int (min (length (fst p)) (max 1 (nat n))))))"
  using AddTx_rep [OF assms, of validate tx] RemoveTx_rep [OF assms, of tx] Update_rep [OF assms, of ts st]
    Update_cross_rep [OF assms, of b ts] ReapTx_rep [OF assms, of n] by blast

theorem mempool_refines_pool_witness:
  "\<exists>m. AddTx (\<lambda>t c. Ret True) (NewMempool False) [7] = Ret (Nil_ptr, m) \<and> ReapTx m 0 = Some (Ret ([[7]], 1))"
proof -
  obtain m where m: "AddTx (\<lambda>t c. Ret True) (NewMempool False) [7] = Ret (Nil_ptr, m)" "mp_rep m (pool_add [7] ([], {}))"
    using conjunct1 [OF mempool_refines_pool [OF NewMempool_rep [of False], of "\<lambda>t c. Ret True" "[7]"]] by (auto simp: MaxLength_def)
  then show ?thesis using ReapTx_rep [OF m(2), of 0] by (simp add: pool_add_def)
qed

lemma pool_remove_prefix:
  "distinct (us @ vs) \<Longrightarrow> fold pool_remove us (us @ vs, set (us @ vs)) = (vs, set vs)"
proof (induction us)
  case (Cons u us)
  have "rev (remove1 u (rev ((u # us) @ vs))) = us @ vs"
    using remove1_last [of u "us @ vs" "[]"] Cons.prems by simp
  moreover have "set ((u # us) @ vs) - {u} = set (us @ vs)" using Cons.prems by auto
  ultimately have "pool_remove u ((u # us) @ vs, set ((u # us) @ vs)) = (us @ vs, set (us @ vs))" by (simp add: pool_remove_def)
  then show ?case using Cons.IH Cons.prems by simp
qed simp

text \<open>What is reaped and then committed is gone: when the pending transactions are distinct and known to the
  map, updating the pool with what \<open>ReapTx\<close> returned leaves exactly the transactions behind them.\<close>

theorem committed_txs_leave:
  assumes "mp_rep mpl (xs, set xs)" "distinct xs" "\<not> isCrossShardMempool mpl" "0 < n"
  shows "\<exists>out k mpl'. ReapTx mpl n = Some (Ret (out, k)) \<and> out = take (nat n) xs \<and> Update mpl out st = Ret mpl' \<and>
    mp_rep mpl' (drop (nat n) xs, set (drop (nat n) xs))"
proof -
  have "max 1 (nat n) = nat n" using assms(4) by simp
  then have r: "ReapTx mpl n = Some (Ret (take (nat n) xs, int (min (length xs) (nat n))))"
    using ReapTx_rep [OF assms(1), of n] assms(4) by simp
  have "fold pool_remove (take (nat n) xs) (xs, set xs) = (drop (nat n) xs, set (drop (nat n) xs))"
    using pool_remove_prefix [of "take (nat n) xs" "drop (nat n) xs"] assms(2) by simp
  then show ?thesis using r Update_rep [OF assms(1,3), of "take (nat n) xs" st] by auto
qed

theorem committed_txs_leave_witness:
  "\<exists>m m' k. AddTx (\<lambda>t c. Ret True) (NewMempool False) [7] = Ret (Nil_ptr, m) \<and> ReapTx m 5 = Some (Ret ([[7]], k)) \<and>
     Update m [[7]] [] = Ret m' \<and> mp_rep m' ([], {})"
proof -
  obtain m where m: "AddTx (\<lambda>t c. Ret True) (NewMempool False) [7] = Ret (Nil_ptr, m)" "mp_rep m (pool_add [7] ([], {}))" "\<not> isCrossShardMempool m"
    using AddTx_rep [OF NewMempool_rep [of False], of "\<lambda>t c. Ret True" "[7]"] by (auto simp: MaxLength_def NewMempool_def)
  have "mp_rep m ([[7]], set [[7]])" using m(2) by (simp add: pool_add_def)
  from committed_txs_leave [OF this _ m(3), of 5] show ?thesis using m(1) by auto
qed

text \<open>A transaction that was received twice outlives its commit: after it is committed once, one copy is still
  pending, the map no longer knows it, and no later update can remove it.\<close>

theorem duplicate_survives_commit:
  assumes "mp_rep mpl (xs, T)" "tx \<notin> set xs" "\<not> isCrossShardMempool mpl" "\<forall>t c. validate t c = Ret True"
    "int (length xs) + 1 < MaxLength"
  shows "\<exists>m1 m2 m3. AddTx validate mpl tx = Ret (Nil_ptr, m1) \<and> AddTx validate m1 tx = Ret (Nil_ptr, m2) \<and>
    Update m2 [tx] st = Ret m3 \<and> mp_rep m3 (xs @ [tx], T - {tx}) \<and>
    (\<forall>st'. \<exists>m4. Update m3 [tx] st' = Ret m4 \<and> mp_rep m4 (xs @ [tx], T - {tx}))"
proof -
  obtain m1 where m1: "AddTx validate mpl tx = Ret (Nil_ptr, m1)" "mp_rep m1 (pool_add tx (xs, T))" "\<not> isCrossShardMempool m1"
    using AddTx_rep [OF assms(1), of validate tx] assms(3-5) by auto
  obtain m2 where m2: "AddTx validate m1 tx = Ret (Nil_ptr, m2)" "mp_rep m2 (pool_add tx (pool_add tx (xs, T)))" "\<not> isCrossShardMempool m2"
    using AddTx_rep [OF m1(2), of validate tx] m1(3) assms(4,5) by (auto simp: pool_add_def)
  have a: "pool_remove tx (pool_add tx (pool_add tx (xs, T))) = (xs @ [tx], T - {tx})"
    by (auto simp: pool_add_def pool_remove_def)
  obtain m3 where m3: "Update m2 [tx] st = Ret m3" "mp_rep m3 (xs @ [tx], T - {tx})" "\<not> isCrossShardMempool m3"
    using Update_rep [OF m2(2,3), of "[tx]" st] a by auto
  have "pool_remove tx (xs @ [tx], T - {tx}) = (xs @ [tx], T - {tx})" by (simp add: pool_remove_def)
  then have "\<forall>st'. \<exists>m4. Update m3 [tx] st' = Ret m4 \<and> mp_rep m4 (xs @ [tx], T - {tx})"
    using Update_rep [OF m3(2,3), of "[tx]"] by auto
  then show ?thesis using m1(1) m2(1) m3(1,2) by blast
qed

theorem duplicate_survives_commit_witness:
  "\<exists>m1 m2 m3. AddTx (\<lambda>t c. Ret True) (NewMempool False) [7] = Ret (Nil_ptr, m1) \<and> AddTx (\<lambda>t c. Ret True) m1 [7] = Ret (Nil_ptr, m2) \<and>
     Update m2 [[7]] [] = Ret m3 \<and> ReapTx m3 1 = Some (Ret ([[7]], 1))"
proof -
  obtain m1 m2 m3 where m: "AddTx (\<lambda>t c. Ret True) (NewMempool False) [7] = Ret (Nil_ptr, m1)" "AddTx (\<lambda>t c. Ret True) m1 [7] = Ret (Nil_ptr, m2)"
    "Update m2 [[7]] [] = Ret m3" "mp_rep m3 ([[7]], {} - {[7]})"
    using duplicate_survives_commit [OF NewMempool_rep [of False], of "[7]" "\<lambda>t c. Ret True" "[]"] by (auto simp: NewMempool_def MaxLength_def)
  then show ?thesis using ReapTx_rep [OF m(4), of 1] by simp
qed

end
