(* ===== verification/HeightData.thy ===== *)
theory HeightData
  imports ShardInfos
begin

text \<open>
  Model of \<open>melete/consensus/height_datas.go\<close>: everything a node collects for one height (proposal,
  prevotes, precommits, cross-shard proposals, accepts and commits, part sets and blocks), the
  operations that add a received message, and the tests that tell when a consensus step is complete.
  Operations return the error (\<open>Nil_ptr\<close> for nil) and the updated package; messages handed to the
  network are returned as a list. The network connection and the back pointer to the consensus
  state are not part of the record.
\<close>

section \<open>State\<close>

definition RoundStepNone :: int where "RoundStepNone = 0"
definition RoundStepNewHeight :: int where "RoundStepNewHeight = 1"
definition RoundStepNewRound :: int where "RoundStepNewRound = 2"
definition RoundStepPropose :: int where "RoundStepPropose = 3"
definition RoundStepPrevote :: int where "RoundStepPrevote = 4"
definition RoundStepPrecommit :: int where "RoundStepPrecommit = 5"
definition RoundStepCrossShardAccept :: int where "RoundStepCrossShardAccept = 6"
definition RoundStepCrossShardCommit :: int where "RoundStepCrossShardCommit = 7"
definition RoundStepCrossShardPropose :: int where "RoundStepCrossShardPropose = RoundStepCrossShardAccept"

lemmas round_step_defs = RoundStepNone_def RoundStepNewHeight_def RoundStepNewRound_def RoundStepPropose_def
  RoundStepPrevote_def RoundStepPrecommit_def RoundStepCrossShardAccept_def RoundStepCrossShardCommit_def
  RoundStepCrossShardPropose_def

record HeightDataPackage =
  hd_Height :: int
  hd_Round :: int
  MyChainID :: string
  PassStep :: int
  hd_ShardInfo :: ShardInfo
  ShardVotes :: "string \<rightharpoonup> int"
  AllValidatorSet :: "string \<rightharpoonup> Verifier"
  hd_Proposal :: "Proposal ptr"
  Prevotes :: "Prevote ptr list"
  PrevotesBitVector :: "BitVector ptr"
  PrevotesTotal :: int
  Precommits :: "Precommit ptr list"
  PrecommitsBitVector :: "BitVector ptr"
  PrecommitsTotal :: int
  CrossShardProposals :: "(string, CrossShardProposal) gomap"
  CrossShardAccepts :: "string \<rightharpoonup> CSAShardSet"
  CrossShardAcceptFinishCounter :: int
  CrossShardCommits :: "(string, CrossShardCommit) gomap"
  CrossShardPartSets :: "(string, PartSet) gomap"
  CrossShardBlocks :: "(string, Block ptr) gomap"
  randomHeaderBuffer :: "string \<rightharpoonup> Part list"

text \<open>\<open>DoNothing\<close> is the sentinel the caller treats as success without a state change.\<close>

datatype HDError =
  DoNothing | ProposerIndexError | WrongChain | InvalidSignature | PartFailure PartError
| BlockFailure GenBlockError | IndexOutOfRange | CSPSignature | CSPTooFewVotes | NotForMe | NotRelated
| NotLowerShard | CSAFailure CSAError | CSCNotRelated | CSCWrongSize | CSCWrongChain | CSCFailure CommitVoteError

type_synonym out_msg = "string \<times> bytes \<times> 32 word"

text \<open>Everything third-party the component calls.\<close>

record thirdparty =
  tp_bls :: bls
  tp_codecs :: codecs
  tp_time :: time_marshal

definition validators :: "HeightDataPackage \<Rightarrow> string \<Rightarrow> Verifier ptr" where
  "validators h cid = (case AllValidatorSet h cid of None \<Rightarrow> Nil_ptr | Some v \<Rightarrow> Ptr v)"

definition peers :: "HeightDataPackage \<Rightarrow> string \<Rightarrow> Peer list" where
  "peers h cid = map_get [] (si_PeerList (hd_ShardInfo h)) cid"

text \<open>\<open>h.AllValidatorSet[cid].Size()\<close>: a nil verifier panics.\<close>

definition validator_size :: "HeightDataPackage \<Rightarrow> string \<Rightarrow> int go" where
  "validator_size h cid = (case AllValidatorSet h cid of None \<Rightarrow> Panic | Some v \<Rightarrow> Ret (Verifier_Size v))"

definition hd_IsIShard :: "HeightDataPackage \<Rightarrow> bool" where
  "hd_IsIShard h = si_IsIShard (hd_ShardInfo h)"

definition hd_IsCShard :: "HeightDataPackage \<Rightarrow> bool" where
  "hd_IsCShard h = si_IsCShard (hd_ShardInfo h)"

section \<open>Set-up and clearing\<close>

definition SetShardInfo :: "bls \<Rightarrow> HeightDataPackage \<Rightarrow> ShardInfo \<Rightarrow> HeightDataPackage" where
  "SetShardInfo B h s =
     h\<lparr>hd_ShardInfo := s,
       AllValidatorSet := (\<lambda>cid. map_option (\<lambda>ps. NewVerifier B (map Pubkey ps)) (si_PeerList s cid)),
       ShardVotes := (\<lambda>cid. map_option (\<lambda>ps. foldl (\<lambda>t peer. t + Vote peer) 0 ps) (si_PeerList s cid))\<rparr>"

definition clearProposal :: "HeightDataPackage \<Rightarrow> HeightDataPackage" where
  "clearProposal h =
     h\<lparr>hd_Proposal := Nil_ptr, CrossShardPartSets := m_del (MyChainID h) (CrossShardPartSets h),
       CrossShardBlocks := m_del (MyChainID h) (CrossShardBlocks h)\<rparr>"

definition clearPrevote :: "HeightDataPackage \<Rightarrow> HeightDataPackage go" where
  "clearPrevote h =
     do { n \<leftarrow> validator_size h (MyChainID h);
          Ret (h\<lparr>Prevotes := replicate (nat n) Nil_ptr, PrevotesBitVector := NewBitVector n, PrevotesTotal := 0\<rparr>) }"

definition clearPrecommit :: "HeightDataPackage \<Rightarrow> HeightDataPackage go" where
  "clearPrecommit h =
     do { n \<leftarrow> validator_size h (MyChainID h);
          Ret (h\<lparr>Precommits := replicate (nat n) Nil_ptr, PrecommitsBitVector := NewBitVector n, PrecommitsTotal := 0\<rparr>) }"

definition clearCrossShardData :: "HeightDataPackage \<Rightarrow> HeightDataPackage" where
  "clearCrossShardData h =
     h\<lparr>CrossShardProposals := [],
       CrossShardAccepts := (\<lambda>cid. if cid \<in> set (m_keys (RelatedShards (hd_ShardInfo h)))
          then Some (NewCSAShardSet (hd_Height h) cid (peers h cid) (validators h cid)) else None),
       CrossShardAcceptFinishCounter := 0, CrossShardBlocks := [], CrossShardCommits := [],
       CrossShardPartSets := [], randomHeaderBuffer := Map.empty\<rparr>"

definition clearAll :: "HeightDataPackage \<Rightarrow> HeightDataPackage go" where
  "clearAll h =
     do { h2 \<leftarrow> clearPrevote (clearProposal h);
          h3 \<leftarrow> clearPrecommit h2;
          Ret (clearCrossShardData h3) }"

definition NextHeight :: "HeightDataPackage \<Rightarrow> HeightDataPackage go" where
  "NextHeight h = clearAll (h\<lparr>hd_Height := hd_Height h + 1, hd_Round := 0, PassStep := RoundStepNewHeight\<rparr>)"

definition NewHeightData :: "bls \<Rightarrow> string \<Rightarrow> int \<Rightarrow> ShardInfo \<Rightarrow> HeightDataPackage go" where
  "NewHeightData B mychainid height si =
     clearAll (SetShardInfo B
       \<lparr>hd_Height = height, hd_Round = 0, MyChainID = mychainid, PassStep = RoundStepNewHeight,
        hd_ShardInfo = si, ShardVotes = Map.empty, AllValidatorSet = Map.empty, hd_Proposal = Nil_ptr,
        Prevotes = [], PrevotesBitVector = Nil_ptr, PrevotesTotal = 0, Precommits = [],
        PrecommitsBitVector = Nil_ptr, PrecommitsTotal = 0, CrossShardProposals = [],
        CrossShardAccepts = Map.empty, CrossShardAcceptFinishCounter = 0, CrossShardCommits = [],
        CrossShardPartSets = [], CrossShardBlocks = [], randomHeaderBuffer = Map.empty\<rparr> si)"

section \<open>Step completion\<close>

definition my_votes :: "HeightDataPackage \<Rightarrow> int" where
  "my_votes h = map_get 0 (ShardVotes h) (MyChainID h)"

definition FinishProposal :: "HeightDataPackage \<Rightarrow> bool \<times> HeightDataPackage" where
  "FinishProposal h =
     (if PassStep h \<ge> RoundStepPropose then (True, h)
      else if is_nil (hd_Proposal h) then (False, h)
      else case m_get (CrossShardBlocks h) (MyChainID h) of
             None \<Rightarrow> (False, h)
           | Some b \<Rightarrow> if is_nil b then (False, h) else (True, h\<lparr>PassStep := RoundStepPropose\<rparr>))"

definition FinishPrevote :: "HeightDataPackage \<Rightarrow> bool \<times> HeightDataPackage" where
  "FinishPrevote h =
     (if PassStep h \<ge> RoundStepPrevote then (True, h)
      else let (ok, h1) = FinishProposal h
           in if \<not> ok then (False, h1)
              else if \<not> (PrevotesTotal h1 > (my_votes h1 * 2) sdiv 3) then (False, h1)
              else (True, h1\<lparr>PassStep := RoundStepPrevote\<rparr>))"

definition FinishPrecommit :: "HeightDataPackage \<Rightarrow> bool \<times> HeightDataPackage" where
  "FinishPrecommit h =
     (if PassStep h \<ge> RoundStepPrecommit then (True, h)
      else let (ok, h1) = FinishPrevote h
           in if \<not> ok then (False, h1)
              else if \<not> (PrecommitsTotal h1 > (my_votes h1 * 2) sdiv 3) then (False, h1)
              else (True, h1\<lparr>PassStep := RoundStepPrecommit\<rparr>))"

definition FinishCrossShardAccept :: "HeightDataPackage \<Rightarrow> bool \<times> HeightDataPackage" where
  "FinishCrossShardAccept h =
     (if PassStep h \<ge> RoundStepCrossShardAccept then (True, h)
      else let (ok, h1) = FinishPrecommit h;
               proposalSize = m_len (RelatedShards (hd_ShardInfo h1))
           in if \<not> ok then (False, h1)
              else if m_len (CrossShardProposals h1) < proposalSize + 1 then (False, h1)
              else if m_len (CrossShardBlocks h1) < proposalSize + 1 then (False, h1)
              else if \<not> list_all (\<lambda>key. m_has (CrossShardProposals h1) key \<and> m_has (CrossShardBlocks h1) key)
                        (m_keys (RelatedShards (hd_ShardInfo h1))) then (False, h1)
              else (True, h1\<lparr>PassStep := RoundStepCrossShardAccept\<rparr>))"

definition FinishCrossShardProposal :: "HeightDataPackage \<Rightarrow> bool \<times> HeightDataPackage" where
  "FinishCrossShardProposal h =
     (if PassStep h \<ge> RoundStepCrossShardPropose then (True, h)
      else let (ok, h1) = FinishPrecommit h
           in if \<not> ok then (False, h1)
              else if CrossShardAcceptFinishCounter h1 < m_len (RelatedShards (hd_ShardInfo h1)) then (False, h1)
              else (True, h1\<lparr>PassStep := RoundStepCrossShardPropose\<rparr>))"

definition FinishCrossShardCommit_I :: "HeightDataPackage \<Rightarrow> bool \<times> HeightDataPackage" where
  "FinishCrossShardCommit_I h =
     (if PassStep h \<ge> RoundStepCrossShardCommit then (True, h)
      else let (ok, h1) = FinishCrossShardAccept h
           in if \<not> ok then (False, h1)
              else if m_len (CrossShardCommits h1) < m_len (RelatedShards (hd_ShardInfo h1)) then (False, h1)
              else if \<not> list_all (m_has (CrossShardCommits h1)) (m_keys (RelatedShards (hd_ShardInfo h1)))
                   then (False, h1)
              else (True, h1\<lparr>PassStep := RoundStepCrossShardCommit\<rparr>))"

text \<open>Unlike its siblings this test does not record the step in \<open>PassStep\<close>.\<close>

definition FinishCrossShardCommit_B :: "HeightDataPackage \<Rightarrow> bool \<times> HeightDataPackage" where
  "FinishCrossShardCommit_B h =
     (if PassStep h \<ge> RoundStepCrossShardCommit then (True, h)
      else let (ok, h1) = FinishCrossShardProposal h;
               rel = RelatedShards (hd_ShardInfo h1); rel2 = Related2LevelShards (hd_ShardInfo h1)
           in if \<not> ok then (False, h1)
              else if m_len (CrossShardCommits h1) < m_len rel2 + 1 then (False, h1)
              else if m_len (CrossShardProposals h1) < m_len rel + m_len rel2 + 1 then (False, h1)
              else if m_len (CrossShardBlocks h1) < m_len rel + m_len rel2 + 1 then (False, h1)
              else if \<not> list_all (\<lambda>key. m_has (CrossShardBlocks h1) key \<and> m_has (CrossShardProposals h1) key) (m_keys rel)
                   then (False, h1)
              else if \<not> list_all (\<lambda>key. m_has (CrossShardBlocks h1) key \<and> m_has (CrossShardProposals h1) key \<and>
                                       m_has (CrossShardCommits h1) key) (m_keys rel2)
                   then (False, h1)
              else (True, h1))"

section \<open>Adding messages\<close>

text \<open>\<open>h.ShardInfo.PeerList[h.MyChainID][index].Vote\<close>.\<close>

definition my_vote :: "HeightDataPackage \<Rightarrow> int \<Rightarrow> int go" where
  "my_vote h index = do { p \<leftarrow> go_index (peers h (MyChainID h)) index; Ret (Vote p) }"

definition count_prevote :: "HeightDataPackage \<Rightarrow> int \<Rightarrow> HeightDataPackage go" where
  "count_prevote h index =
     do { (_, bv) \<leftarrow> SetIndex (PrevotesBitVector h) index True;
          v \<leftarrow> my_vote h index;
          Ret (h\<lparr>PrevotesBitVector := bv, PrevotesTotal := PrevotesTotal h + v\<rparr>) }"

definition count_precommit :: "HeightDataPackage \<Rightarrow> int \<Rightarrow> HeightDataPackage go" where
  "count_precommit h index =
     do { (_, bv) \<leftarrow> SetIndex (PrecommitsBitVector h) index True;
          v \<leftarrow> my_vote h index;
          Ret (h\<lparr>PrecommitsBitVector := bv, PrecommitsTotal := PrecommitsTotal h + v\<rparr>) }"

fun recalc_prevotes :: "bytes \<Rightarrow> int \<Rightarrow> Prevote ptr list \<Rightarrow> HeightDataPackage \<Rightarrow> HeightDataPackage go" where
  "recalc_prevotes hash i [] h = Ret h"
| "recalc_prevotes hash i (q # qs) h =
     (case q of
        Nil_ptr \<Rightarrow> recalc_prevotes hash (i + 1) qs h
      | Ptr p \<Rightarrow>
          if hash = pv_BlockHeaderHash p
          then do { h' \<leftarrow> count_prevote h i; recalc_prevotes hash (i + 1) qs h' }
          else recalc_prevotes hash (i + 1) qs h)"

definition reCalculatePrevotes :: "HeightDataPackage \<Rightarrow> HeightDataPackage go" where
  "reCalculatePrevotes h =
     (case hd_Proposal h of
        Nil_ptr \<Rightarrow> Ret h
      | Ptr p \<Rightarrow> recalc_prevotes (p_BlockHeaderHash p) 0 (Prevotes h) h)"

fun recalc_precommits :: "bytes \<Rightarrow> int \<Rightarrow> Precommit ptr list \<Rightarrow> HeightDataPackage \<Rightarrow> HeightDataPackage go" where
  "recalc_precommits hash i [] h = Ret h"
| "recalc_precommits hash i (q # qs) h =
     (case q of
        Nil_ptr \<Rightarrow> recalc_precommits hash (i + 1) qs h
      | Ptr p \<Rightarrow>
          if hash = pc_BlockHeaderHash p
          then do { h' \<leftarrow> count_precommit h i; recalc_precommits hash (i + 1) qs h' }
          else recalc_precommits hash (i + 1) qs h)"

definition reCalculatePrecommits :: "HeightDataPackage \<Rightarrow> HeightDataPackage go" where
  "reCalculatePrecommits h =
     (case hd_Proposal h of
        Nil_ptr \<Rightarrow> Ret h
      | Ptr p \<Rightarrow> recalc_precommits (p_BlockHeaderHash p) 0 (Precommits h) h)"

definition addInnerPart :: "thirdparty \<Rightarrow> HeightDataPackage \<Rightarrow> Part \<Rightarrow> (HDError ptr \<times> HeightDataPackage) go" where
  "addInnerPart tp h p =
     (if hd_Height h \<noteq> pt_Height p \<or> hd_Round h \<noteq> pt_Round p then Ret (Ptr DoNothing, h)
      else case m_get (CrossShardPartSets h) (pt_ChainID p) of
        None \<Rightarrow>
          Ret (Ptr DoNothing,
               h\<lparr>randomHeaderBuffer := (randomHeaderBuffer h)(pt_ChainID p \<mapsto>
                   map_get [] (randomHeaderBuffer h) (pt_ChainID p) @ [p])\<rparr>)
      | Some part_set \<Rightarrow>
          do { (e, part_set') \<leftarrow> AddPart part_set p;
               let h1 = h\<lparr>CrossShardPartSets := m_put (pt_ChainID p) part_set' (CrossShardPartSets h)\<rparr>
               in case e of
                    Ptr DuplicatedPartPassError \<Rightarrow> Ret (Ptr DoNothing, h1)
                  | Ptr err \<Rightarrow> Ret (Ptr (PartFailure err), h1)
                  | Nil_ptr \<Rightarrow>
                      if IsComplete part_set' then
                        do { (b, err) \<leftarrow> GenBlock (tp_time tp) (block_codec (tp_codecs tp)) part_set';
                             case err of
                               Ptr x \<Rightarrow> Ret (Ptr (BlockFailure x), h1)
                             | Nil_ptr \<Rightarrow> Ret (Nil_ptr, h1\<lparr>CrossShardBlocks := m_put (pt_ChainID p) b (CrossShardBlocks h1)\<rparr>) }
                      else Ret (Nil_ptr, h1) })"

definition hd_AddPart :: "thirdparty \<Rightarrow> HeightDataPackage \<Rightarrow> Part \<Rightarrow> (HDError ptr \<times> HeightDataPackage) go" where
  "hd_AddPart tp h p = addInnerPart tp h p"

fun add_parts :: "thirdparty \<Rightarrow> Part list \<Rightarrow> HeightDataPackage \<Rightarrow> HeightDataPackage go" where
  "add_parts tp [] h = Ret h"
| "add_parts tp (p # ps) h = do { (_, h') \<leftarrow> addInnerPart tp h p; add_parts tp ps h' }"

definition AddProposal ::
  "thirdparty \<Rightarrow> HeightDataPackage \<Rightarrow> Proposal \<Rightarrow> int \<Rightarrow> (HDError ptr \<times> HeightDataPackage) go" where
  "AddProposal tp h p index =
     (if \<not> is_nil (hd_Proposal h) then Ret (Ptr DoNothing, h)
      else if hd_Height h \<noteq> psh_Height (p_Header p) \<or> hd_Round h \<noteq> psh_Round (p_Header p) then Ret (Ptr DoNothing, h)
      else if ProposerIndex p \<noteq> index then Ret (Ptr ProposerIndexError, h)
      else if psh_ChainID (p_Header p) \<noteq> MyChainID h then Ret (Ptr WrongChain, h)
      else case AllValidatorSet h (MyChainID h) of
        None \<Rightarrow> Panic
      | Some v \<Rightarrow>
          do { bz \<leftarrow> Proposal_SignBytes (proposal_codec (tp_codecs tp)) p;
               ok \<leftarrow> Verifier_Verify (tp_bls tp) v (p_Signature p) bz index;
               if \<not> ok then Ret (Ptr InvalidSignature, h)
               else
                 do { ps \<leftarrow> NewPartSet (p_Header p) (p_BlockHeaderHash p);
                      h2 \<leftarrow> add_parts tp (map_get [] (randomHeaderBuffer h) (psh_ChainID (p_Header p)))
                              (h\<lparr>hd_Proposal := Ptr p,
                                 CrossShardPartSets := m_put (MyChainID h) ps (CrossShardPartSets h)\<rparr>);
                      h3 \<leftarrow> reCalculatePrevotes h2;
                      h4 \<leftarrow> reCalculatePrecommits h3;
                      Ret (Nil_ptr, h4) } })"

definition matches_proposal :: "HeightDataPackage \<Rightarrow> bytes \<Rightarrow> bool" where
  "matches_proposal h hash = (case hd_Proposal h of Nil_ptr \<Rightarrow> False | Ptr q \<Rightarrow> p_BlockHeaderHash q = hash)"

definition AddPrevote :: "thirdparty \<Rightarrow> HeightDataPackage \<Rightarrow> Prevote \<Rightarrow> (HDError ptr \<times> HeightDataPackage) go" where
  "AddPrevote tp h p =
     do { seen \<leftarrow> GetIndex (PrevotesBitVector h) (pv_ValidatorIndex p);
          if seen then Ret (Ptr DoNothing, h)
          else if hd_Height h \<noteq> pv_Height p \<or> hd_Round h \<noteq> pv_Round p then Ret (Ptr DoNothing, h)
          else case AllValidatorSet h (MyChainID h) of
            None \<Rightarrow> Panic
          | Some v \<Rightarrow>
              if pv_ValidatorIndex p < 0 \<or> pv_ValidatorIndex p \<ge> Verifier_Size v then Ret (Ptr IndexOutOfRange, h)
              else
                do { bz \<leftarrow> Prevote_SignBytes (prevote_codec (tp_codecs tp)) p;
                     ok \<leftarrow> Verifier_Verify (tp_bls tp) v (pv_Signature p) bz (pv_ValidatorIndex p);
                     if \<not> ok then Ret (Ptr InvalidSignature, h)
                     else
                       do { pvs \<leftarrow> go_update (Prevotes h) (pv_ValidatorIndex p) (Ptr p);
                            let h1 = h\<lparr>Prevotes := pvs\<rparr>
                            in if matches_proposal h (pv_BlockHeaderHash p)
                               then do { h2 \<leftarrow> count_prevote h1 (pv_ValidatorIndex p); Ret (Nil_ptr, h2) }
                               else Ret (Nil_ptr, h1) } } }"

definition AddPrecommit :: "thirdparty \<Rightarrow> HeightDataPackage \<Rightarrow> Precommit \<Rightarrow> (HDError ptr \<times> HeightDataPackage) go" where
  "AddPrecommit tp h p =
     do { seen \<leftarrow> GetIndex (PrecommitsBitVector h) (pc_ValidatorIndex p);
          if seen then Ret (Ptr DoNothing, h)
          else if hd_Height h \<noteq> pc_Height p \<or> hd_Round h \<noteq> pc_Round p then Ret (Ptr DoNothing, h)
          else case AllValidatorSet h (MyChainID h) of
            None \<Rightarrow> Panic
          | Some v \<Rightarrow>
              if pc_ValidatorIndex p < 0 \<or> pc_ValidatorIndex p \<ge> Verifier_Size v then Ret (Ptr IndexOutOfRange, h)
              else
                do { bz \<leftarrow> Precommit_SignBytes (precommit_codec (tp_codecs tp)) p;
                     ok \<leftarrow> Verifier_Verify (tp_bls tp) v (pc_Signature p) bz (pc_ValidatorIndex p);
                     if \<not> ok then Ret (Ptr InvalidSignature, h)
                     else
                       do { pcs \<leftarrow> go_update (Precommits h) (pc_ValidatorIndex p) (Ptr p);
                            let h1 = h\<lparr>Precommits := pcs\<rparr>
                            in if matches_proposal h (pc_BlockHeaderHash p)
                               then do { h2 \<leftarrow> count_precommit h1 (pc_ValidatorIndex p); Ret (Nil_ptr, h2) }
                               else Ret (Nil_ptr, h1) } } }"

text \<open>The votes of the marked validators of a shard, added in \<open>int32\<close>.\<close>

fun csp_votes :: "BitVector ptr \<Rightarrow> Peer list \<Rightarrow> nat \<Rightarrow> int \<Rightarrow> int \<Rightarrow> int go" where
  "csp_votes bv ps 0 i voteTotal = Ret voteTotal"
| "csp_votes bv ps (Suc n) i voteTotal =
     do { g \<leftarrow> GetIndex bv i;
          if g then do { p \<leftarrow> go_index ps i; csp_votes bv ps n (i + 1) (i32 (voteTotal + Vote p)) }
          else csp_votes bv ps n (i + 1) voteTotal }"

definition AddCrossShardProposal ::
  "thirdparty \<Rightarrow> HeightDataPackage \<Rightarrow> CrossShardProposal \<Rightarrow> (HDError ptr \<times> HeightDataPackage) go" where
  "AddCrossShardProposal tp h csp =
     (let agg = csp_AggregatedSignatures csp; chain_id = psh_ChainID (pa_Header agg); bv = pa_ValidatorBitVector agg
      in if psh_Height (pa_Header agg) \<noteq> hd_Height h then Ret (Ptr DoNothing, h)
         else if m_has (CrossShardProposals h) chain_id then Ret (Ptr DoNothing, h)
         else
           do { ok \<leftarrow> VerifySignatures (tp_bls tp) (precommit_codec (tp_codecs tp)) agg (validators h chain_id) (Byte bv);
                if \<not> ok then Ret (Ptr CSPSignature, h)
                else
                  do { voteTotal \<leftarrow> csp_votes bv (peers h chain_id) (nat (Size bv)) 0 0;
                       if \<not> (voteTotal > i32 ((map_get 0 (ShardVotes h) chain_id * 2) sdiv 3))
                       then Ret (Ptr CSPTooFewVotes, h)
                       else
                         do { ps \<leftarrow> NewPartSet (pa_Header agg) (pa_BlockHeaderHash agg);
                              h2 \<leftarrow> add_parts tp (map_get [] (randomHeaderBuffer h) chain_id)
                                     (h\<lparr>CrossShardProposals := m_put chain_id csp (CrossShardProposals h),
                                        CrossShardPartSets := m_put chain_id ps (CrossShardPartSets h)\<rparr>);
                              Ret (Nil_ptr, h2) } } })"

definition AddCrossShardAccept ::
  "thirdparty \<Rightarrow> HeightDataPackage \<Rightarrow> CrossShardAccept \<Rightarrow> (HDError ptr \<times> HeightDataPackage) go" where
  "AddCrossShardAccept tp h csa =
     (if csa_Height csa \<noteq> hd_Height h then Ret (Ptr DoNothing, h)
      else if csa_UpperChainID csa \<noteq> MyChainID h then Ret (Ptr NotForMe, h)
      else if m_get (RelatedShards (hd_ShardInfo h)) (csa_AcceptChainID csa) \<noteq> Some True then Ret (Ptr NotRelated, h)
      else case CrossShardAccepts h (csa_AcceptChainID csa) of
        None \<Rightarrow> Ret (Ptr NotLowerShard, h)
      | Some acid \<Rightarrow>
          do { (e, acid') \<leftarrow> AddCSA (tp_bls tp) (csa_codec (tp_codecs tp)) acid csa;
               let h1 = h\<lparr>CrossShardAccepts := (CrossShardAccepts h)(csa_AcceptChainID csa \<mapsto> acid')\<rparr>
               in case e of
                    Ptr err \<Rightarrow> Ret (Ptr (CSAFailure err), h1)
                  | Nil_ptr \<Rightarrow>
                      if \<not> HasMaj23 acid \<and> HasMaj23 acid'
                      then Ret (Nil_ptr, h1\<lparr>CrossShardAcceptFinishCounter := CrossShardAcceptFinishCounter h1 + 1\<rparr>)
                      else Ret (Nil_ptr, h1) })"

fun check_commit_votes ::
  "thirdparty \<Rightarrow> HeightDataPackage \<Rightarrow> CrossShardCommit \<Rightarrow> int \<Rightarrow> string list \<Rightarrow> (HDError + unit) go" where
  "check_commit_votes tp h csc i [] = Ret (Inr ())"
| "check_commit_votes tp h csc i (chain_id # cids) =
     do { c \<leftarrow> go_index (ChainList csc) i;
          if chain_id \<noteq> c then Ret (Inl CSCWrongChain)
          else do { r \<leftarrow> ValidateVote (tp_bls tp) (csa_codec (tp_codecs tp)) csc (peers h chain_id) (validators h chain_id) i
                          (i32 (map_get 0 (ShardVotes h) chain_id));
                    case r of
                      Inl e \<Rightarrow> Ret (Inl (CSCFailure e))
                    | Inr _ \<Rightarrow> check_commit_votes tp h csc (i + 1) cids } }"

definition is_related :: "HeightDataPackage \<Rightarrow> string \<Rightarrow> bool" where
  "is_related h cid \<longleftrightarrow> m_get (RelatedShards (hd_ShardInfo h)) cid = Some True \<or>
     m_get (Related2LevelShards (hd_ShardInfo h)) cid = Some True"

text \<open>An inner shard forwards an accepted commit to its other neighbours.\<close>

definition AddCrossShardCommit ::
  "thirdparty \<Rightarrow> HeightDataPackage \<Rightarrow> CrossShardCommit \<Rightarrow> (HDError ptr \<times> HeightDataPackage \<times> out_msg list) go" where
  "AddCrossShardCommit tp h csc =
     (if csc_Height csc \<noteq> hd_Height h then Ret (Ptr DoNothing, h, [])
      else if m_has (CrossShardCommits h) (csc_UpperChainID csc) then Ret (Ptr DoNothing, h, [])
      else if \<not> is_related h (csc_UpperChainID csc) then Ret (Ptr CSCNotRelated, h, [])
      else let rel = map_get [] (PeerRelatedMap (hd_ShardInfo h)) (csc_UpperChainID csc)
           in if length (ChainList csc) \<noteq> length rel then Ret (Ptr CSCWrongSize, h, [])
              else
                do { r \<leftarrow> check_commit_votes tp h csc 0 rel;
                     case r of
                       Inl e \<Rightarrow> Ret (Ptr e, h, [])
                     | Inr _ \<Rightarrow>
                         let h1 = h\<lparr>CrossShardCommits := m_put (csc_UpperChainID csc) csc (CrossShardCommits h)\<rparr>
                         in if hd_IsIShard h1 then
                              do { bz \<leftarrow> CrossShardCommit_ProtoBytes (csc_codec (tp_codecs tp)) csc;
                                   Ret (Nil_ptr, h1, map (\<lambda>s. (s, bz, MsgTendermintCrossShardCommit))
                                     (filter (\<lambda>key. key \<noteq> csc_UpperChainID csc) (m_keys (RelatedShards (hd_ShardInfo h1))))) }
                            else Ret (Nil_ptr, h1, []) })"

section \<open>Aggregation\<close>

fun collect_sigs :: "BitVector ptr \<Rightarrow> Precommit ptr list \<Rightarrow> nat \<Rightarrow> int \<Rightarrow> string list go" where
  "collect_sigs bv pcs 0 i = Ret []"
| "collect_sigs bv pcs (Suc n) i =
     do { g \<leftarrow> GetIndex bv i;
          if g then
            do { q \<leftarrow> go_index pcs i;
                 case q of
                   Nil_ptr \<Rightarrow> Panic
                 | Ptr p \<Rightarrow> do { rest \<leftarrow> collect_sigs bv pcs n (i + 1); Ret (pc_Signature p # rest) } }
          else collect_sigs bv pcs n (i + 1) }"

definition GenerateAggregatePrecommitSignature :: "thirdparty \<Rightarrow> HeightDataPackage \<Rightarrow> PrecommitAggregated go" where
  "GenerateAggregatePrecommitSignature tp h =
     do { aggSigs \<leftarrow> collect_sigs (PrecommitsBitVector h) (Precommits h) (nat (Size (PrecommitsBitVector h))) 0;
          case AggregateSignatures (tp_bls tp) aggSigs of
            Inl _ \<Rightarrow> Panic
          | Inr aggSig \<Rightarrow>
              (case hd_Proposal h of
                 Nil_ptr \<Rightarrow> Panic
               | Ptr p \<Rightarrow> NewPrecommitAggregated (Byte (PrecommitsBitVector h)) (p_Header p) (p_BlockHeaderHash p) aggSig) }"

fun mark_votes :: "BitVector ptr \<Rightarrow> CrossShardAccept list \<Rightarrow> BitVector ptr go" where
  "mark_votes bv [] = Ret bv"
| "mark_votes bv (v # vs) = do { (_, bv') \<leftarrow> SetIndex bv (csa_ValidatorIndex v) True; mark_votes bv' vs }"

text \<open>One iteration of the loop of \<open>GenerateCrossShardCommit\<close>: aggregate signature, bit vector, status.\<close>

definition commit_entry :: "thirdparty \<Rightarrow> HeightDataPackage \<Rightarrow> string \<Rightarrow> (string \<times> bytes \<times> bytes) go" where
  "commit_entry tp h key =
     (case CrossShardAccepts h key of
        None \<Rightarrow> Panic
      | Some s \<Rightarrow>
          (let (cmtstatus, votes) = GetMaj23 s
           in do { bv \<leftarrow> mark_votes (NewBitVector (int (length (peers h key)))) votes;
                   case AggregateSignatures (tp_bls tp) (map csa_Signature votes) of
                     Inl _ \<Rightarrow> Panic
                   | Inr aggSig \<Rightarrow> Ret (aggSig, Byte bv, cmtstatus) }))"

definition GenerateCrossShardCommit :: "thirdparty \<Rightarrow> HeightDataPackage \<Rightarrow> CrossShardCommit go" where
  "GenerateCrossShardCommit tp h =
     (let keys = map_get [] (PeerRelatedMap (hd_ShardInfo h)) (MyChainID h)
      in do { es \<leftarrow> those (map (commit_entry tp h) keys);
              case hd_Proposal h of
                Nil_ptr \<Rightarrow> Panic
              | Ptr p \<Rightarrow> NewCrossShardCommit (MyChainID h) (hd_Height h) (p_BlockHeaderHash p) keys
                           (map fst es) (map (fst \<circ> snd) es) (map (snd \<circ> snd) es) })"

section \<open>Vote ledgers\<close>

text \<open>
  Prevotes and precommits are kept the same way: a slot per validator, a bit vector of the votes
  that match the proposal, and their total. \<open>ledger\<close> is the invariant of such a triple for the
  proposal hash \<open>target\<close>.
\<close>

definition ledger ::
  "('v \<Rightarrow> bytes) \<Rightarrow> (nat \<Rightarrow> 'v \<Rightarrow> bool) \<Rightarrow> bytes ptr \<Rightarrow> Peer list \<Rightarrow> 'v ptr list \<Rightarrow> BitVector ptr \<Rightarrow> int \<Rightarrow> bool" where
  "ledger hash_of valid target ps vs bv tot \<longleftrightarrow>
     length vs = length ps \<and>
     (\<forall>i v. i < length ps \<longrightarrow> vs ! i = Ptr v \<longrightarrow> valid i v) \<and>
     (\<exists>b. bv = Ptr b \<and> bv_wf b \<and> Bits b = int (length ps) \<and> tot = marked_votes b ps \<and>
        (\<forall>i < length ps. bv_bit b i \<longleftrightarrow> (\<exists>v. vs ! i = Ptr v \<and> target = Ptr (hash_of v))))"

lemma marked_votes_sum:
  "Bits b = int (length ps) \<Longrightarrow> marked_votes b ps = (\<Sum>i | i < length ps \<and> bv_bit b i. Vote (ps ! i))"
proof -
  assume b: "Bits b = int (length ps)"
  have "marked_votes b ps = (\<Sum>i \<in> set (filter (bv_bit b) [0..<length ps]). Vote (ps ! i))"
    using b by (simp add: marked_votes_def sum_list_distinct_conv_sum_set)
  then show ?thesis by (simp add: conj_commute)
qed

lemma marked_votes_set:
  assumes "Bits b = int (length ps)" "Bits b' = int (length ps)" "i < length ps" "\<not> bv_bit b i"
    and "\<And>j. j < length ps \<Longrightarrow> bv_bit b' j \<longleftrightarrow> j = i \<or> bv_bit b j"
  shows "marked_votes b' ps = marked_votes b ps + Vote (ps ! i)"
proof -
  have "{j. j < length ps \<and> bv_bit b' j} = insert i {j. j < length ps \<and> bv_bit b j}" using assms by auto
  then show ?thesis using assms by (simp add: marked_votes_sum)
qed

lemma marked_votes_none: "Bits b = int (length ps) \<Longrightarrow> \<forall>i < length ps. \<not> bv_bit b i \<Longrightarrow> marked_votes b ps = 0"
proof -
  assume a: "Bits b = int (length ps)" and "\<forall>i < length ps. \<not> bv_bit b i"
  then have "{i. i < length ps \<and> bv_bit b i} = {}" by blast
  then show ?thesis unfolding marked_votes_sum [OF a] by (simp only: sum.empty)
qed

lemma marked_votes_le:
  assumes "Bits b = int (length ps)" "\<forall>p \<in> set ps. 0 \<le> Vote p"
  shows "0 \<le> marked_votes b ps" "marked_votes b ps \<le> total_votes ps"
proof -
  show "0 \<le> marked_votes b ps" using assms by (auto simp: marked_votes_sum intro!: sum_nonneg)
  have "marked_votes b ps \<le> (\<Sum>i < length ps. Vote (ps ! i))"
    unfolding marked_votes_sum [OF assms(1)] using assms(2) by (intro sum_mono2) auto
  then show "marked_votes b ps \<le> total_votes ps"
    by (simp add: total_votes_def sum_list_sum_nth atLeast0LessThan)
qed

text \<open>Storing a vote in a slot whose bit is not set, and marking it when it matches.\<close>

lemma ledger_store:
  assumes "ledger f valid target ps vs bv tot" "i < length ps" "valid i v" "GetIndex bv (int i) = Ret False"
    and "target \<noteq> Ptr (f v)"
  shows "ledger f valid target ps (vs[i := Ptr v]) bv tot"
proof -
  obtain b where b: "bv = Ptr b" "bv_wf b" "Bits b = int (length ps)" "tot = marked_votes b ps"
    "\<forall>i < length ps. bv_bit b i \<longleftrightarrow> (\<exists>v. vs ! i = Ptr v \<and> target = Ptr (f v))"
    using assms(1) by (auto simp: ledger_def)
  have len: "length vs = length ps" using assms(1) by (simp add: ledger_def)
  have "\<not> bv_bit b i" using assms(2,4) b GetIndex_total [OF b(2), of i] by simp
  then have "\<forall>j < length ps. bv_bit b j \<longleftrightarrow> (\<exists>w. vs[i := Ptr v] ! j = Ptr w \<and> target = Ptr (f w))"
    using b(5) assms(2,5) len by (auto simp: nth_list_update)
  moreover have "\<forall>j w. j < length ps \<longrightarrow> vs[i := Ptr v] ! j = Ptr w \<longrightarrow> valid j w"
    using assms(1,2,3) len by (auto simp: ledger_def nth_list_update)
  ultimately show ?thesis using b len unfolding ledger_def by auto
qed

lemma ledger_mark:
  assumes "length vs = length ps" "\<forall>j w. j < length ps \<longrightarrow> vs ! j = Ptr w \<longrightarrow> valid j w"
    and "bv_wf b" "Bits b = int (length ps)" "i < length ps" "\<not> bv_bit b i"
  obtains b' where "SetIndex (Ptr b) (int i) True = Ret (True, Ptr b')" "bv_wf b'" "Bits b' = int (length ps)"
    "\<And>j. j < length ps \<Longrightarrow> bv_bit b' j \<longleftrightarrow> j = i \<or> bv_bit b j" "marked_votes b' ps = marked_votes b ps + Vote (ps ! i)"
proof -
  have "i < nat (Bits b)" using assms by simp
  obtain b' where b': "SetIndex (Ptr b) (int i) True = Ret (True, Ptr b')"
    "bv_wf b'" "Bits b' = Bits b" "bv_list b' = (bv_list b)[i := True]"
    by (rule SetIndex_bv [OF assms(3) \<open>i < nat (Bits b)\<close>])
  have bits: "bv_bit b' j \<longleftrightarrow> j = i \<or> bv_bit b j" if "j < length ps" for j
  proof -
    have "j < nat (Bits b)" "j < nat (Bits b')" using that assms(4) b'(3) by simp_all
    moreover have "i < length (bv_list b)" using \<open>i < nat (Bits b)\<close> by (simp add: bv_list_def)
    ultimately show ?thesis using nth_bv_list [of j b'] nth_bv_list [of j b] b'(4) by (auto simp: nth_list_update split: if_splits)
  qed
  have B: "Bits b' = int (length ps)" using b'(3) assms(4) by simp
  have "marked_votes b' ps = marked_votes b ps + Vote (ps ! i)"
    using assms(4-6) B bits by (intro marked_votes_set)
  with b'(1,2) B bits show thesis by (intro that [of b'])
qed

lemma ledger_store_mark:
  assumes L: "ledger f valid target ps vs bv tot" and i: "i < length ps" "valid i v" "GetIndex bv (int i) = Ret False"
    and t: "target = Ptr (f v)"
  obtains bv' where "SetIndex bv (int i) True = Ret (True, bv')"
    "ledger f valid target ps (vs[i := Ptr v]) bv' (tot + Vote (ps ! i))"
proof -
  obtain b where b: "bv = Ptr b" "bv_wf b" "Bits b = int (length ps)" "tot = marked_votes b ps"
    "\<forall>i < length ps. bv_bit b i \<longleftrightarrow> (\<exists>v. vs ! i = Ptr v \<and> target = Ptr (f v))"
    using L by (auto simp: ledger_def)
  have len: "length vs = length ps" and val: "\<forall>j w. j < length ps \<longrightarrow> vs ! j = Ptr w \<longrightarrow> valid j w"
    using L by (auto simp: ledger_def)
  have nb: "\<not> bv_bit b i" using i b GetIndex_total [OF b(2), of i] by simp
  obtain b' where b': "SetIndex (Ptr b) (int i) True = Ret (True, Ptr b')" "bv_wf b'" "Bits b' = int (length ps)"
    "\<And>j. j < length ps \<Longrightarrow> bv_bit b' j \<longleftrightarrow> j = i \<or> bv_bit b j" "marked_votes b' ps = marked_votes b ps + Vote (ps ! i)"
    by (rule ledger_mark [where valid = valid, OF len val b(2,3) i(1) nb]) auto
  have "\<forall>j < length ps. bv_bit b' j \<longleftrightarrow> (\<exists>w. vs[i := Ptr v] ! j = Ptr w \<and> target = Ptr (f w))"
    using b'(4) b(5) i t len by (auto simp: nth_list_update)
  moreover have "\<forall>j w. j < length ps \<longrightarrow> vs[i := Ptr v] ! j = Ptr w \<longrightarrow> valid j w"
    using val i len by (auto simp: nth_list_update)
  ultimately have "ledger f valid target ps (vs[i := Ptr v]) (Ptr b') (tot + Vote (ps ! i))"
    using b' b(4) len unfolding ledger_def by auto
  then show thesis using that b'(1) b(1) by simp
qed

section \<open>Invariant of the height data\<close>

definition valid_prevote :: "thirdparty \<Rightarrow> HeightDataPackage \<Rightarrow> nat \<Rightarrow> Prevote \<Rightarrow> bool" where
  "valid_prevote tp h i p \<longleftrightarrow>
     pv_ValidatorIndex p = int i \<and> pv_Height p = hd_Height h \<and> pv_Round p = hd_Round h \<and>
     (\<exists>v bz. AllValidatorSet h (MyChainID h) = Some v \<and>
        Prevote_SignBytes (prevote_codec (tp_codecs tp)) p = Ret bz \<and>
        Verifier_Verify (tp_bls tp) v (pv_Signature p) bz (int i) = Ret True)"

definition valid_precommit :: "thirdparty \<Rightarrow> HeightDataPackage \<Rightarrow> nat \<Rightarrow> Precommit \<Rightarrow> bool" where
  "valid_precommit tp h i p \<longleftrightarrow>
     pc_ValidatorIndex p = int i \<and> pc_Height p = hd_Height h \<and> pc_Round p = hd_Round h \<and>
     (\<exists>v bz. AllValidatorSet h (MyChainID h) = Some v \<and>
        Precommit_SignBytes (precommit_codec (tp_codecs tp)) p = Ret bz \<and>
        Verifier_Verify (tp_bls tp) v (pc_Signature p) bz (int i) = Ret True)"

definition proposal_hash :: "HeightDataPackage \<Rightarrow> bytes ptr" where
  "proposal_hash h = (case hd_Proposal h of Nil_ptr \<Rightarrow> Nil_ptr | Ptr p \<Rightarrow> Ptr (p_BlockHeaderHash p))"

definition my_peers :: "HeightDataPackage \<Rightarrow> Peer list" where
  "my_peers h = peers h (MyChainID h)"

definition committee_ok :: "HeightDataPackage \<Rightarrow> bool" where
  "committee_ok h \<longleftrightarrow>
     (\<exists>v. AllValidatorSet h (MyChainID h) = Some v \<and> Verifier_Size v = int (length (my_peers h))) \<and>
     votes_ok (my_peers h) \<and> ShardVotes h (MyChainID h) = Some (total_votes (my_peers h))"

definition hd_inv :: "thirdparty \<Rightarrow> HeightDataPackage \<Rightarrow> bool" where
  "hd_inv tp h \<longleftrightarrow> committee_ok h \<and>
     ledger pv_BlockHeaderHash (valid_prevote tp h) (proposal_hash h) (my_peers h) (Prevotes h) (PrevotesBitVector h) (PrevotesTotal h) \<and>
     ledger pc_BlockHeaderHash (valid_precommit tp h) (proposal_hash h) (my_peers h) (Precommits h) (PrecommitsBitVector h) (PrecommitsTotal h)"

lemma matches_proposal_iff: "matches_proposal h x \<longleftrightarrow> proposal_hash h = Ptr x"
  by (auto simp: matches_proposal_def proposal_hash_def split: ptr.splits)

text \<open>What the votes and the committee look at.\<close>

definition same_frame :: "HeightDataPackage \<Rightarrow> HeightDataPackage \<Rightarrow> bool" where
  "same_frame h h' \<longleftrightarrow> hd_Height h' = hd_Height h \<and> hd_Round h' = hd_Round h \<and> MyChainID h' = MyChainID h \<and>
     hd_ShardInfo h' = hd_ShardInfo h \<and> ShardVotes h' = ShardVotes h \<and> AllValidatorSet h' = AllValidatorSet h"

lemma same_frame_refl [simp]: "same_frame h h"
  by (simp add: same_frame_def)

lemma same_frame_trans: "same_frame a b \<Longrightarrow> same_frame b c \<Longrightarrow> same_frame a c"
  by (simp add: same_frame_def)

lemma same_frame_facts:
  assumes "same_frame h h'"
  shows "my_peers h' = my_peers h" "valid_prevote tp h' = valid_prevote tp h"
    "valid_precommit tp h' = valid_precommit tp h" "committee_ok h' = committee_ok h" "peers h' = peers h"
    "my_votes h' = my_votes h" "validators h' = validators h"
proof -
  note s = assms [unfolded same_frame_def]
  show p: "peers h' = peers h" by (rule ext) (simp add: peers_def s)
  show m: "my_peers h' = my_peers h" by (simp add: my_peers_def p s)
  show "valid_prevote tp h' = valid_prevote tp h" by (intro ext) (simp add: valid_prevote_def s)
  show "valid_precommit tp h' = valid_precommit tp h" by (intro ext) (simp add: valid_precommit_def s)
  show "committee_ok h' = committee_ok h" by (simp add: committee_ok_def m s)
  show "my_votes h' = my_votes h" by (simp add: my_votes_def s)
  show "validators h' = validators h" by (rule ext) (simp add: validators_def s)
qed

lemma my_vote_nth: "i < length (my_peers h) \<Longrightarrow> my_vote h (int i) = Ret (Vote (my_peers h ! i))"
  by (simp add: my_vote_def my_peers_def)

lemma validator_index:
  assumes "committee_ok h" "AllValidatorSet h (MyChainID h) = Some v" "0 \<le> i" "i < Verifier_Size v"
  obtains k where "i = int k" "k < length (my_peers h)"
  using assms by (auto simp: committee_ok_def intro!: that [of "nat i"])

section \<open>Adding votes\<close>

lemma AddPrevote_inv:
  assumes inv: "hd_inv tp h" and res: "AddPrevote tp h p = Ret (e, h')"
  shows "hd_inv tp h' \<and> (e \<noteq> Nil_ptr \<longrightarrow> h' = h) \<and> same_frame h h' \<and> hd_Proposal h' = hd_Proposal h \<and>
    CrossShardBlocks h' = CrossShardBlocks h \<and> CrossShardPartSets h' = CrossShardPartSets h"
proof (cases "e = Nil_ptr")
  case False
  then have "h' = h"
    using res by (auto simp: AddPrevote_def Let_def split: if_splits bind_splits option.splits)
  then show ?thesis using inv by simp
next
  case True
  then obtain v bz where v: "GetIndex (PrevotesBitVector h) (pv_ValidatorIndex p) = Ret False"
    "hd_Height h = pv_Height p" "hd_Round h = pv_Round p" "AllValidatorSet h (MyChainID h) = Some v"
    "0 \<le> pv_ValidatorIndex p" "pv_ValidatorIndex p < Verifier_Size v"
    "Prevote_SignBytes (prevote_codec (tp_codecs tp)) p = Ret bz"
    "Verifier_Verify (tp_bls tp) v (pv_Signature p) bz (pv_ValidatorIndex p) = Ret True"
    using res by (auto simp: AddPrevote_def Let_def not_less split: if_splits bind_splits option.splits)
  have com: "committee_ok h" using inv by (simp add: hd_inv_def)
  obtain i where i: "pv_ValidatorIndex p = int i" "i < length (my_peers h)"
    by (rule validator_index [OF com v(4-6)])
  have L: "ledger pv_BlockHeaderHash (valid_prevote tp h) (proposal_hash h) (my_peers h) (Prevotes h) (PrevotesBitVector h) (PrevotesTotal h)"
    using inv by (simp add: hd_inv_def)
  have len: "length (Prevotes h) = length (my_peers h)" using L by (simp add: ledger_def)
  have val: "valid_prevote tp h i p" using v i by (auto simp: valid_prevote_def)
  have g: "GetIndex (PrevotesBitVector h) (int i) = Ret False" using v(1) i by simp
  let ?h1 = "h\<lparr>Prevotes := (Prevotes h)[i := Ptr p]\<rparr>"
  show ?thesis
  proof (cases "proposal_hash h = Ptr (pv_BlockHeaderHash p)")
    case m: True
    obtain bv' where bv': "SetIndex (PrevotesBitVector h) (int i) True = Ret (True, bv')"
      "ledger pv_BlockHeaderHash (valid_prevote tp h) (proposal_hash h) (my_peers h) ((Prevotes h)[i := Ptr p]) bv' (PrevotesTotal h + Vote (my_peers h ! i))"
      by (rule ledger_store_mark [OF L i(2) val g m])
    let ?h2 = "?h1\<lparr>PrevotesBitVector := bv', PrevotesTotal := PrevotesTotal h + Vote (my_peers h ! i)\<rparr>"
    have fr: "same_frame h ?h2" "same_frame h ?h1" by (simp_all add: same_frame_def)
    have "h' = ?h2"
      using res v i len m bv'(1) my_vote_nth [of i ?h1] same_frame_facts(1) [OF fr(2)]
      by (simp add: AddPrevote_def matches_proposal_iff count_prevote_def)
    moreover have "hd_inv tp ?h2"
      using inv bv'(2) unfolding hd_inv_def same_frame_facts [OF fr(1)] by (simp add: proposal_hash_def)
    ultimately show ?thesis using fr True by simp
  next
    case nm: False
    have fr: "same_frame h ?h1" by (simp add: same_frame_def)
    have "h' = ?h1"
      using res v i len nm by (simp add: AddPrevote_def matches_proposal_iff)
    moreover have "hd_inv tp ?h1"
      using inv ledger_store [OF L i(2) val g nm] unfolding hd_inv_def same_frame_facts [OF fr] by (simp add: proposal_hash_def)
    ultimately show ?thesis using fr True by simp
  qed
qed

lemma AddPrecommit_inv:
  assumes inv: "hd_inv tp h" and res: "AddPrecommit tp h p = Ret (e, h')"
  shows "hd_inv tp h' \<and> (e \<noteq> Nil_ptr \<longrightarrow> h' = h) \<and> same_frame h h' \<and> hd_Proposal h' = hd_Proposal h \<and>
    CrossShardBlocks h' = CrossShardBlocks h \<and> CrossShardPartSets h' = CrossShardPartSets h"
proof (cases "e = Nil_ptr")
  case False
  then have "h' = h"
    using res by (auto simp: AddPrecommit_def Let_def split: if_splits bind_splits option.splits)
  then show ?thesis using inv by simp
next
  case True
  then obtain v bz where v: "GetIndex (PrecommitsBitVector h) (pc_ValidatorIndex p) = Ret False"
    "hd_Height h = pc_Height p" "hd_Round h = pc_Round p" "AllValidatorSet h (MyChainID h) = Some v"
    "0 \<le> pc_ValidatorIndex p" "pc_ValidatorIndex p < Verifier_Size v"
    "Precommit_SignBytes (precommit_codec (tp_codecs tp)) p = Ret bz"
    "Verifier_Verify (tp_bls tp) v (pc_Signature p) bz (pc_ValidatorIndex p) = Ret True"
    using res by (auto simp: AddPrecommit_def Let_def not_less split: if_splits bind_splits option.splits)
  have com: "committee_ok h" using inv by (simp add: hd_inv_def)
  obtain i where i: "pc_ValidatorIndex p = int i" "i < length (my_peers h)"
    by (rule validator_index [OF com v(4-6)])
  have L: "ledger pc_BlockHeaderHash (valid_precommit tp h) (proposal_hash h) (my_peers h) (Precommits h) (PrecommitsBitVector h) (PrecommitsTotal h)"
    using inv by (simp add: hd_inv_def)
  have len: "length (Precommits h) = length (my_peers h)" using L by (simp add: ledger_def)
  have val: "valid_precommit tp h i p" using v i by (auto simp: valid_precommit_def)
  have g: "GetIndex (PrecommitsBitVector h) (int i) = Ret False" using v(1) i by simp
  let ?h1 = "h\<lparr>Precommits := (Precommits h)[i := Ptr p]\<rparr>"
  show ?thesis
  proof (cases "proposal_hash h = Ptr (pc_BlockHeaderHash p)")
    case m: True
    obtain bv' where bv': "SetIndex (PrecommitsBitVector h) (int i) True = Ret (True, bv')"
      "ledger pc_BlockHeaderHash (valid_precommit tp h) (proposal_hash h) (my_peers h) ((Precommits h)[i := Ptr p]) bv' (PrecommitsTotal h + Vote (my_peers h ! i))"
      by (rule ledger_store_mark [OF L i(2) val g m])
    let ?h2 = "?h1\<lparr>PrecommitsBitVector := bv', PrecommitsTotal := PrecommitsTotal h + Vote (my_peers h ! i)\<rparr>"
    have fr: "same_frame h ?h2" "same_frame h ?h1" by (simp_all add: same_frame_def)
    have "h' = ?h2"
      using res v i len m bv'(1) my_vote_nth [of i ?h1] same_frame_facts(1) [OF fr(2)]
      by (simp add: AddPrecommit_def matches_proposal_iff count_precommit_def)
    moreover have "hd_inv tp ?h2"
      using inv bv'(2) unfolding hd_inv_def same_frame_facts [OF fr(1)] by (simp add: proposal_hash_def)
    ultimately show ?thesis using fr True by simp
  next
    case nm: False
    have fr: "same_frame h ?h1" by (simp add: same_frame_def)
    have "h' = ?h1"
      using res v i len nm by (simp add: AddPrecommit_def matches_proposal_iff)
    moreover have "hd_inv tp ?h1"
      using inv ledger_store [OF L i(2) val g nm] unfolding hd_inv_def same_frame_facts [OF fr] by (simp add: proposal_hash_def)
    ultimately show ?thesis using fr True by simp
  qed
qed

section \<open>Counting again after the proposal arrives\<close>

text \<open>The two recount loops on the part of the package they change.\<close>

fun tally :: "('v \<Rightarrow> bytes) \<Rightarrow> bytes \<Rightarrow> Peer list \<Rightarrow> int \<Rightarrow> 'v ptr list \<Rightarrow> BitVector ptr \<times> int \<Rightarrow> (BitVector ptr \<times> int) go" where
  "tally f hash ps i [] s = Ret s"
| "tally f hash ps i (q # qs) s =
     (case q of
        Nil_ptr \<Rightarrow> tally f hash ps (i + 1) qs s
      | Ptr p \<Rightarrow>
          if hash = f p
          then do { (_, bv) \<leftarrow> SetIndex (fst s) i True; v \<leftarrow> go_index ps i; tally f hash ps (i + 1) qs (bv, snd s + Vote v) }
          else tally f hash ps (i + 1) qs s)"

lemma recalc_prevotes_tally:
  "recalc_prevotes hash i qs h =
   map_option (\<lambda>(bv, t). h\<lparr>PrevotesBitVector := bv, PrevotesTotal := t\<rparr>)
     (tally pv_BlockHeaderHash hash (my_peers h) i qs (PrevotesBitVector h, PrevotesTotal h))"
proof (induction qs arbitrary: i h hash)
  case (Cons q qs)
  have mp: "my_peers (h\<lparr>PrevotesBitVector := b, PrevotesTotal := t\<rparr>) = my_peers h" for b t
    by (simp add: my_peers_def peers_def)
  show ?case
    by (auto simp: Cons.IH mp count_prevote_def my_vote_def my_peers_def [symmetric] split: ptr.splits bind_splits)
qed simp

lemma recalc_precommits_tally:
  "recalc_precommits hash i qs h =
   map_option (\<lambda>(bv, t). h\<lparr>PrecommitsBitVector := bv, PrecommitsTotal := t\<rparr>)
     (tally pc_BlockHeaderHash hash (my_peers h) i qs (PrecommitsBitVector h, PrecommitsTotal h))"
proof (induction qs arbitrary: i h hash)
  case (Cons q qs)
  have mp: "my_peers (h\<lparr>PrecommitsBitVector := b, PrecommitsTotal := t\<rparr>) = my_peers h" for b t
    by (simp add: my_peers_def peers_def)
  show ?case
    by (auto simp: Cons.IH mp count_precommit_def my_vote_def my_peers_def [symmetric] split: ptr.splits bind_splits)
qed simp

lemma tally_exact:
  assumes "length vs = length ps" "\<forall>j w. j < length ps \<longrightarrow> vs ! j = Ptr w \<longrightarrow> valid j w"
    and "qs = drop i vs" "i \<le> length ps"
    and "bv_wf b" "Bits b = int (length ps)" "tot = marked_votes b ps"
    and "\<forall>j < length ps. bv_bit b j \<longleftrightarrow> j < i \<and> (\<exists>w. vs ! j = Ptr w \<and> hash = f w)"
  shows "\<exists>bv' tot'. tally f hash ps (int i) qs (Ptr b, tot) = Ret (bv', tot') \<and>
    ledger f valid (Ptr hash) ps vs bv' tot'"
  using assms(3-8)
proof (induction qs arbitrary: i b tot)
  case Nil
  then have "i = length ps" using assms(1) by simp
  then show ?case using Nil assms(1,2) by (auto simp: ledger_def)
next
  case (Cons q qs)
  have i: "i < length ps" using Cons.prems(1) assms(1) by (metis drop_eq_Nil list.distinct(1) not_less)
  then have q: "q = vs ! i" and qs: "qs = drop (Suc i) vs" using Cons.prems(1) assms(1) by (simp_all add: Cons_nth_drop_Suc [symmetric])
  have step: "int (Suc i) = int i + 1" by simp
  show ?case
  proof (cases "\<exists>w. vs ! i = Ptr w \<and> hash = f w")
    case False
    then have "\<forall>j < length ps. bv_bit b j \<longleftrightarrow> j < Suc i \<and> (\<exists>w. vs ! j = Ptr w \<and> hash = f w)"
      using Cons.prems(6) by (auto simp: less_Suc_eq)
    then obtain bv' tot' where "tally f hash ps (int (Suc i)) qs (Ptr b, tot) = Ret (bv', tot')"
      "ledger f valid (Ptr hash) ps vs bv' tot'"
      using Cons.IH [OF qs _ Cons.prems(3-5)] i by auto
    then show ?thesis using False unfolding q step by (auto split: ptr.splits)
  next
    case True
    then have nb: "\<not> bv_bit b i" using Cons.prems(6) i by auto
    obtain b' where b': "SetIndex (Ptr b) (int i) True = Ret (True, Ptr b')" "bv_wf b'" "Bits b' = int (length ps)"
      "\<And>j. j < length ps \<Longrightarrow> bv_bit b' j \<longleftrightarrow> j = i \<or> bv_bit b j" "marked_votes b' ps = marked_votes b ps + Vote (ps ! i)"
      by (rule ledger_mark [OF assms(1,2) Cons.prems(3,4) i nb]) (rule that, simp_all)
    have bits: "\<forall>j < length ps. bv_bit b' j \<longleftrightarrow> j < Suc i \<and> (\<exists>w. vs ! j = Ptr w \<and> hash = f w)"
      using b'(4) Cons.prems(6) True by (auto simp: less_Suc_eq)
    obtain bv' tot' where "tally f hash ps (int (Suc i)) qs (Ptr b', tot + Vote (ps ! i)) = Ret (bv', tot')"
      "ledger f valid (Ptr hash) ps vs bv' tot'"
      using Cons.IH [OF qs _ b'(2,3) _ bits] i b'(5) Cons.prems(5) by auto
    then show ?thesis using True b'(1) i unfolding q step by auto
  qed
qed

lemma tally_ledger:
  assumes "ledger f valid Nil_ptr ps vs bv tot"
  shows "\<exists>bv' tot'. tally f hash ps 0 vs (bv, tot) = Ret (bv', tot') \<and> ledger f valid (Ptr hash) ps vs bv' tot'"
proof -
  obtain b where "bv = Ptr b" "bv_wf b" "Bits b = int (length ps)" "tot = marked_votes b ps" "\<forall>i < length ps. \<not> bv_bit b i"
    using assms by (auto simp: ledger_def)
  then show ?thesis
    using tally_exact [of vs ps valid vs 0 b tot hash f] assms by (simp add: ledger_def)
qed

section \<open>Parts and cross-shard messages leave the votes alone\<close>

text \<open>What parts and cross-shard messages do not touch.\<close>

definition same_votes :: "HeightDataPackage \<Rightarrow> HeightDataPackage \<Rightarrow> bool" where
  "same_votes h h' \<longleftrightarrow> same_frame h h' \<and> hd_Proposal h' = hd_Proposal h \<and>
     Prevotes h' = Prevotes h \<and> PrevotesBitVector h' = PrevotesBitVector h \<and> PrevotesTotal h' = PrevotesTotal h \<and>
     Precommits h' = Precommits h \<and> PrecommitsBitVector h' = PrecommitsBitVector h \<and>
     PrecommitsTotal h' = PrecommitsTotal h \<and> PassStep h' = PassStep h"

lemma same_votes_refl [simp]: "same_votes h h"
  by (simp add: same_votes_def)

lemma same_votes_trans: "same_votes a b \<Longrightarrow> same_votes b c \<Longrightarrow> same_votes a c"
  using same_frame_trans by (simp add: same_votes_def) blast

lemma same_votes_inv: "same_votes h h' \<Longrightarrow> hd_inv tp h' = hd_inv tp h"
  by (simp add: same_votes_def hd_inv_def same_frame_facts [of h h'] proposal_hash_def)

lemma addInnerPart_same: "addInnerPart tp h p = Ret (e, h') \<Longrightarrow> same_votes h h'"
  by (auto simp: addInnerPart_def Let_def same_votes_def same_frame_def
      split: if_splits option.splits bind_splits ptr.splits PartError.splits)

lemma add_parts_same: "add_parts tp ps h = Ret h' \<Longrightarrow> same_votes h h'"
proof (induction ps arbitrary: h)
  case (Cons p ps)
  then show ?case by (auto split: bind_splits dest!: addInnerPart_same intro: same_votes_trans)
qed simp

lemma AddCrossShardProposal_same: "AddCrossShardProposal tp h csp = Ret (e, h') \<Longrightarrow> same_votes h h'"
proof -
  have s: "same_votes h (h\<lparr>CrossShardProposals := x, CrossShardPartSets := y\<rparr>)" for x y
    by (simp add: same_votes_def same_frame_def)
  assume "AddCrossShardProposal tp h csp = Ret (e, h')"
  then show ?thesis
    by (auto simp: AddCrossShardProposal_def Let_def split: if_splits bind_splits dest!: add_parts_same
        intro: same_votes_trans [OF s])
qed

lemma AddCrossShardAccept_same: "AddCrossShardAccept tp h csa = Ret (e, h') \<Longrightarrow> same_votes h h'"
  by (auto simp: AddCrossShardAccept_def Let_def same_votes_def same_frame_def
      split: if_splits option.splits bind_splits ptr.splits)

lemma AddCrossShardCommit_same: "AddCrossShardCommit tp h csc = Ret (e, h', out) \<Longrightarrow> same_votes h h'"
  by (auto simp: AddCrossShardCommit_def Let_def same_votes_def same_frame_def
      split: if_splits sum.splits bind_splits)

section \<open>The proposal\<close>

lemma AddProposal_inv:
  assumes inv: "hd_inv tp h" and res: "AddProposal tp h p index = Ret (e, h')"
  shows "hd_inv tp h' \<and> same_frame h h' \<and> (if e = Nil_ptr then hd_Proposal h = Nil_ptr \<and> hd_Proposal h' = Ptr p else h' = h)"
proof (cases "e = Nil_ptr")
  case False
  then show ?thesis
    using res inv by (auto simp: AddProposal_def split: if_splits option.splits bind_splits)
next
  case True
  let ?h1 = "\<lambda>ps. h\<lparr>hd_Proposal := Ptr p, CrossShardPartSets := m_put (MyChainID h) ps (CrossShardPartSets h)\<rparr>"
  obtain ps h2 h3 where n: "hd_Proposal h = Nil_ptr"
    and h2: "add_parts tp (map_get [] (randomHeaderBuffer h) (psh_ChainID (p_Header p))) (?h1 ps) = Ret h2"
    and h3: "reCalculatePrevotes h2 = Ret h3" and h4: "reCalculatePrecommits h3 = Ret h'"
    using res True by (auto simp: AddProposal_def is_nil_def split: if_splits option.splits bind_splits ptr.splits)
  have fr1: "same_frame h (?h1 ps)" by (simp add: same_frame_def)
  note sv = add_parts_same [OF h2]
  then have fr2: "same_frame h h2" using same_frame_trans [OF fr1] by (simp add: same_votes_def)
  have p2: "hd_Proposal h2 = Ptr p" using sv by (simp add: same_votes_def)
  have mp: "my_peers h2 = my_peers h" using same_frame_facts [OF fr2] by simp
  have L: "ledger pv_BlockHeaderHash (valid_prevote tp h) Nil_ptr (my_peers h) (Prevotes h2) (PrevotesBitVector h2) (PrevotesTotal h2)"
    "ledger pc_BlockHeaderHash (valid_precommit tp h) Nil_ptr (my_peers h) (Precommits h2) (PrecommitsBitVector h2) (PrecommitsTotal h2)"
    using inv sv n by (simp_all add: hd_inv_def proposal_hash_def same_votes_def)
  obtain b t where t1: "tally pv_BlockHeaderHash (p_BlockHeaderHash p) (my_peers h) 0 (Prevotes h2) (PrevotesBitVector h2, PrevotesTotal h2) = Ret (b, t)"
    and l1: "ledger pv_BlockHeaderHash (valid_prevote tp h) (Ptr (p_BlockHeaderHash p)) (my_peers h) (Prevotes h2) b t"
    using tally_ledger [OF L(1)] by blast
  obtain b' t' where t2: "tally pc_BlockHeaderHash (p_BlockHeaderHash p) (my_peers h) 0 (Precommits h2) (PrecommitsBitVector h2, PrecommitsTotal h2) = Ret (b', t')"
    and l2: "ledger pc_BlockHeaderHash (valid_precommit tp h) (Ptr (p_BlockHeaderHash p)) (my_peers h) (Precommits h2) b' t'"
    using tally_ledger [OF L(2)] by blast
  have e3: "h3 = h2\<lparr>PrevotesBitVector := b, PrevotesTotal := t\<rparr>"
    using h3 p2 t1 by (simp add: reCalculatePrevotes_def recalc_prevotes_tally mp)
  have fr3: "same_frame h h3" using fr2 by (simp add: e3 same_frame_def)
  have e4: "h' = h3\<lparr>PrecommitsBitVector := b', PrecommitsTotal := t'\<rparr>"
    using h4 p2 t2 same_frame_facts(1) [OF fr3] by (simp add: reCalculatePrecommits_def recalc_precommits_tally e3)
  have fr4: "same_frame h h'" using fr3 by (simp add: e4 same_frame_def)
  have "hd_inv tp h'"
    using inv l1 l2 p2 unfolding hd_inv_def same_frame_facts [OF fr4] by (simp add: e3 e4 proposal_hash_def)
  then show ?thesis using True fr4 n p2 by (simp add: e3 e4)
qed

section \<open>Set-up\<close>

lemma NewBitVector_clear:
  "0 \<le> n \<Longrightarrow> \<exists>b. NewBitVector n = Ptr b \<and> bv_wf b \<and> Bits b = n \<and> (\<forall>i < nat n. \<not> bv_bit b i)"
proof -
  assume n: "0 \<le> n"
  obtain b where b: "NewBitVector n = Ptr b" "bv_wf b" "bv_list b = replicate (nat n) False"
    using NewBitVector_wf [OF n] by blast
  have "nat (Bits b) = nat n" using b(3) length_bv_list [of b] by simp
  moreover have "0 \<le> Bits b" using b(2) by (simp add: bv_wf_def)
  ultimately have "Bits b = n" using n by simp
  moreover have "\<not> bv_bit b i" if "i < nat n" for i
    using nth_bv_list [of i b] b(3) that \<open>nat (Bits b) = nat n\<close> by simp
  ultimately show ?thesis using b by blast
qed

lemma ledger_empty:
  "ledger f valid target ps (replicate (length ps) Nil_ptr) (NewBitVector (int (length ps))) 0"
proof -
  obtain b where b: "NewBitVector (int (length ps)) = Ptr b" "bv_wf b" "Bits b = int (length ps)"
    "\<forall>i < length ps. \<not> bv_bit b i"
    using NewBitVector_clear [of "int (length ps)"] by auto
  then show ?thesis by (simp add: ledger_def marked_votes_none)
qed

lemma clearAll_inv:
  assumes "committee_ok h"
  shows "\<exists>h'. clearAll h = Ret h' \<and> hd_inv tp h' \<and> same_frame h h' \<and> PassStep h' = PassStep h \<and> hd_Proposal h' = Nil_ptr"
proof -
  obtain v where v: "AllValidatorSet h (MyChainID h) = Some v" "Verifier_Size v = int (length (my_peers h))"
    using assms by (auto simp: committee_ok_def)
  let ?n = "length (my_peers h)"
  let ?h1 = "clearProposal h"
  let ?h2 = "?h1\<lparr>Prevotes := replicate ?n Nil_ptr, PrevotesBitVector := NewBitVector (int ?n), PrevotesTotal := 0\<rparr>"
  let ?h3 = "?h2\<lparr>Precommits := replicate ?n Nil_ptr, PrecommitsBitVector := NewBitVector (int ?n), PrecommitsTotal := 0\<rparr>"
  let ?h' = "clearCrossShardData ?h3"
  have "clearAll h = Ret ?h'"
    using v by (simp add: clearAll_def clearPrevote_def clearPrecommit_def validator_size_def clearProposal_def)
  moreover have fr: "same_frame h ?h'"
    by (simp add: same_frame_def clearCrossShardData_def clearProposal_def)
  moreover have "hd_inv tp ?h'"
    using assms unfolding hd_inv_def same_frame_facts [OF fr]
    by (simp add: clearCrossShardData_def clearProposal_def ledger_empty)
  ultimately show ?thesis by (simp add: clearCrossShardData_def clearProposal_def)
qed

definition shard_ok :: "ShardInfo \<Rightarrow> string \<Rightarrow> bool" where
  "shard_ok s cid \<longleftrightarrow> (\<exists>ps. si_PeerList s cid = Some ps \<and> votes_ok ps)"

lemma foldl_votes: "foldl (\<lambda>t peer. t + Vote peer) t ps = t + total_votes ps"
  by (induction ps arbitrary: t) (simp_all add: total_votes_def)

lemma SetShardInfo_committee:
  "shard_ok s (MyChainID h) \<Longrightarrow> committee_ok (SetShardInfo B h s)"
  by (auto simp: shard_ok_def committee_ok_def SetShardInfo_def my_peers_def peers_def map_get_def NewVerifier_def
      Verifier_Size_def foldl_votes)

lemma NewHeightData_inv:
  assumes "shard_ok s cid"
  shows "\<exists>h. NewHeightData B cid n s = Ret h \<and> hd_inv tp h \<and> hd_Proposal h = Nil_ptr \<and> PassStep h = RoundStepNewHeight"
proof -
  obtain h0 where h0: "NewHeightData B cid n s = clearAll (SetShardInfo B h0 s)" "MyChainID h0 = cid" "PassStep h0 = RoundStepNewHeight"
    by (rule that [OF NewHeightData_def]) simp_all
  have "PassStep (SetShardInfo B h0 s) = RoundStepNewHeight" using h0(3) by (simp add: SetShardInfo_def)
  then show ?thesis
    unfolding h0(1) using clearAll_inv [OF SetShardInfo_committee, of s h0 B tp] assms h0(2) by auto
qed

lemma NextHeight_inv:
  assumes "hd_inv tp h"
  shows "\<exists>h'. NextHeight h = Ret h' \<and> hd_inv tp h' \<and> hd_Proposal h' = Nil_ptr \<and> PassStep h' = RoundStepNewHeight \<and>
    hd_Height h' = hd_Height h + 1 \<and> hd_Round h' = 0 \<and> MyChainID h' = MyChainID h \<and> hd_ShardInfo h' = hd_ShardInfo h \<and>
    ShardVotes h' = ShardVotes h \<and> AllValidatorSet h' = AllValidatorSet h"
proof -
  let ?h = "h\<lparr>hd_Height := hd_Height h + 1, hd_Round := 0, PassStep := RoundStepNewHeight\<rparr>"
  have "committee_ok ?h" using assms by (simp add: hd_inv_def committee_ok_def my_peers_def peers_def)
  from clearAll_inv [OF this, of tp] show ?thesis by (auto simp: NextHeight_def same_frame_def)
qed

section \<open>The step counter\<close>

definition quorum :: "HeightDataPackage \<Rightarrow> int \<Rightarrow> bool" where
  "quorum h t \<longleftrightarrow> 3 * t > 2 * total_votes (my_peers h)"

definition block_ready :: "HeightDataPackage \<Rightarrow> bool" where
  "block_ready h \<longleftrightarrow> \<not> is_nil (hd_Proposal h) \<and> (\<exists>b. m_get (CrossShardBlocks h) (MyChainID h) = Some (Ptr b))"

text \<open>\<open>PassStep\<close> never runs ahead of what has been collected.\<close>

definition step_ok :: "HeightDataPackage \<Rightarrow> bool" where
  "step_ok h \<longleftrightarrow>
     (RoundStepPropose \<le> PassStep h \<longrightarrow> block_ready h) \<and>
     (RoundStepPrevote \<le> PassStep h \<longrightarrow> quorum h (PrevotesTotal h)) \<and>
     (RoundStepPrecommit \<le> PassStep h \<longrightarrow> quorum h (PrecommitsTotal h))"

lemma my_votes_total: "committee_ok h \<Longrightarrow> my_votes h = total_votes (my_peers h) \<and> 0 \<le> my_votes h"
  using sum_list_nonneg_prefix by (auto simp: committee_ok_def my_votes_def map_get_def votes_ok_def)

lemma quorum_test: "committee_ok h \<Longrightarrow> t > (my_votes h * 2) sdiv 3 \<longleftrightarrow> quorum h t"
  using my_votes_total [of h] two_thirds_gt [of "my_votes h" t] by (simp add: quorum_def)

text \<open>Each completion test only moves \<open>PassStep\<close>, and reports true only when its step is reached.\<close>

definition advances :: "HeightDataPackage \<Rightarrow> bool \<times> HeightDataPackage \<Rightarrow> bool" where
  "advances h r \<longleftrightarrow> (\<exists>s. snd r = h\<lparr>PassStep := s\<rparr>) \<and> step_ok (snd r)"

lemma pass_step_frame:
  "committee_ok (h\<lparr>PassStep := s\<rparr>) = committee_ok h" "my_votes (h\<lparr>PassStep := s\<rparr>) = my_votes h"
  "my_peers (h\<lparr>PassStep := s\<rparr>) = my_peers h" "quorum (h\<lparr>PassStep := s\<rparr>) t = quorum h t"
  "block_ready (h\<lparr>PassStep := s\<rparr>) = block_ready h" "hd_inv tp (h\<lparr>PassStep := s\<rparr>) = hd_inv tp h"
proof -
  have fr: "same_frame h (h\<lparr>PassStep := s\<rparr>)" by (simp add: same_frame_def)
  note f = same_frame_facts [OF fr]
  show "committee_ok (h\<lparr>PassStep := s\<rparr>) = committee_ok h" "my_votes (h\<lparr>PassStep := s\<rparr>) = my_votes h"
    "my_peers (h\<lparr>PassStep := s\<rparr>) = my_peers h" "quorum (h\<lparr>PassStep := s\<rparr>) t = quorum h t"
    "block_ready (h\<lparr>PassStep := s\<rparr>) = block_ready h" "hd_inv tp (h\<lparr>PassStep := s\<rparr>) = hd_inv tp h"
    by (simp_all add: f quorum_def block_ready_def hd_inv_def proposal_hash_def)
qed

lemma advances_self [intro]: "step_ok h \<Longrightarrow> advances h (b, h)"
  by (auto simp: advances_def intro: exI [of _ "PassStep h"])

lemma advances_keep: "advances h (a, h1) \<Longrightarrow> advances h (b, h1)"
  by (simp add: advances_def)

lemma advances_set: "advances h (a, h1) \<Longrightarrow> step_ok (h1\<lparr>PassStep := s\<rparr>) \<Longrightarrow> advances h (b, h1\<lparr>PassStep := s\<rparr>)"
  by (auto simp: advances_def)

lemma advances_trans: "advances h (a, h1) \<Longrightarrow> advances h1 r \<Longrightarrow> advances h r"
  by (auto simp: advances_def)

lemma advances_committee: "advances h (a, h1) \<Longrightarrow> committee_ok h \<Longrightarrow> committee_ok h1"
  by (auto simp: advances_def pass_step_frame)

lemma advances_step: "advances h (a, h1) \<Longrightarrow> step_ok h1"
  by (simp add: advances_def)

text \<open>A completion test that reports true has reached its step.\<close>

definition finishes :: "int \<Rightarrow> HeightDataPackage \<Rightarrow> bool \<times> HeightDataPackage \<Rightarrow> bool" where
  "finishes step h r \<longleftrightarrow> advances h r \<and> (fst r \<longrightarrow> step \<le> PassStep (snd r))"

lemma finishes_already: "step_ok h \<Longrightarrow> step \<le> PassStep h \<Longrightarrow> finishes step h (True, h)"
  by (auto simp: finishes_def)

lemma finishes_not: "finishes step0 h (a, h1) \<Longrightarrow> finishes step h (False, h1)"
  using advances_keep by (auto simp: finishes_def)

lemma finishes_set: "finishes step0 h (a, h1) \<Longrightarrow> step_ok (h1\<lparr>PassStep := step\<rparr>) \<Longrightarrow> finishes step h (True, h1\<lparr>PassStep := step\<rparr>)"
  by (auto simp: finishes_def intro: advances_set)

text \<open>Past the precommits the step may move freely.\<close>

lemma step_ok_later:
  "finishes step0 h (True, h1) \<Longrightarrow> RoundStepPrecommit \<le> step0 \<Longrightarrow> step_ok (h1\<lparr>PassStep := s\<rparr>)"
  by (auto simp: finishes_def advances_def step_ok_def pass_step_frame round_step_defs)

lemma FinishProposal_ok: "step_ok h \<Longrightarrow> finishes RoundStepPropose h (FinishProposal h)"
proof -
  assume s: "step_ok h"
  then have "step_ok (h\<lparr>PassStep := RoundStepPropose\<rparr>)" if "block_ready h"
    using that by (simp add: step_ok_def pass_step_frame round_step_defs)
  then show ?thesis
    using s finishes_already advances_self [of h]
    by (auto simp: FinishProposal_def finishes_def advances_def block_ready_def is_nil_def split: option.splits ptr.splits)
qed

lemma FinishPrevote_ok:
  assumes "step_ok h" "committee_ok h"
  shows "finishes RoundStepPrevote h (FinishPrevote h)"
proof (cases "RoundStepPrevote \<le> PassStep h")
  case True
  then show ?thesis using assms by (simp add: FinishPrevote_def finishes_already)
next
  case False
  obtain ok h1 where f: "FinishProposal h = (ok, h1)" by force
  have fin: "finishes RoundStepPropose h (ok, h1)" using FinishProposal_ok [OF assms(1)] f by simp
  have c: "committee_ok h1" using fin advances_committee assms(2) by (auto simp: finishes_def)
  have "step_ok (h1\<lparr>PassStep := RoundStepPrevote\<rparr>)" if "ok" "quorum h1 (PrevotesTotal h1)"
    using that fin by (auto simp: finishes_def advances_def step_ok_def pass_step_frame round_step_defs)
  then show ?thesis
    using False f finishes_not [OF fin] finishes_set [OF fin] quorum_test [OF c] by (simp add: FinishPrevote_def)
qed

lemma FinishPrecommit_ok:
  assumes "step_ok h" "committee_ok h"
  shows "finishes RoundStepPrecommit h (FinishPrecommit h)"
proof (cases "RoundStepPrecommit \<le> PassStep h")
  case True
  then show ?thesis using assms by (simp add: FinishPrecommit_def finishes_already)
next
  case False
  obtain ok h1 where f: "FinishPrevote h = (ok, h1)" by force
  have fin: "finishes RoundStepPrevote h (ok, h1)" using FinishPrevote_ok [OF assms] f by simp
  have c: "committee_ok h1" using fin advances_committee assms(2) by (auto simp: finishes_def)
  have "step_ok (h1\<lparr>PassStep := RoundStepPrecommit\<rparr>)" if "ok" "quorum h1 (PrecommitsTotal h1)"
    using that fin by (auto simp: finishes_def advances_def step_ok_def pass_step_frame round_step_defs)
  then show ?thesis
    using False f finishes_not [OF fin] finishes_set [OF fin] quorum_test [OF c] by (simp add: FinishPrecommit_def)
qed

lemma FinishCrossShardAccept_ok:
  assumes "step_ok h" "committee_ok h"
  shows "finishes RoundStepCrossShardAccept h (FinishCrossShardAccept h)"
proof -
  obtain ok h1 where f: "FinishPrecommit h = (ok, h1)" by force
  have fin: "finishes RoundStepPrecommit h (ok, h1)" using FinishPrecommit_ok [OF assms] f by simp
  have "ok \<Longrightarrow> step_ok (h1\<lparr>PassStep := RoundStepCrossShardAccept\<rparr>)" using fin step_ok_later by simp
  then show ?thesis
    using f finishes_not [OF fin] finishes_set [OF fin] finishes_already [OF assms(1)]
    by (simp add: FinishCrossShardAccept_def Let_def)
qed

lemma FinishCrossShardProposal_ok:
  assumes "step_ok h" "committee_ok h"
  shows "finishes RoundStepCrossShardPropose h (FinishCrossShardProposal h)"
proof -
  obtain ok h1 where f: "FinishPrecommit h = (ok, h1)" by force
  have fin: "finishes RoundStepPrecommit h (ok, h1)" using FinishPrecommit_ok [OF assms] f by simp
  have "ok \<Longrightarrow> step_ok (h1\<lparr>PassStep := RoundStepCrossShardPropose\<rparr>)" using fin step_ok_later by simp
  then show ?thesis
    using f finishes_not [OF fin] finishes_set [OF fin] finishes_already [OF assms(1)]
    by (simp add: FinishCrossShardProposal_def Let_def)
qed

lemma FinishCrossShardCommit_I_ok:
  assumes "step_ok h" "committee_ok h"
  shows "finishes RoundStepCrossShardCommit h (FinishCrossShardCommit_I h)"
proof -
  obtain ok h1 where f: "FinishCrossShardAccept h = (ok, h1)" by force
  have fin: "finishes RoundStepCrossShardAccept h (ok, h1)" using FinishCrossShardAccept_ok [OF assms] f by simp
  have "ok \<Longrightarrow> step_ok (h1\<lparr>PassStep := RoundStepCrossShardCommit\<rparr>)" using fin step_ok_later by (simp add: round_step_defs)
  then show ?thesis
    using f finishes_not [OF fin] finishes_set [OF fin] finishes_already [OF assms(1)]
    by (simp add: FinishCrossShardCommit_I_def Let_def)
qed

text \<open>The boundary shards' last test reports true without recording its step.\<close>

lemma FinishCrossShardCommit_B_ok:
  assumes "step_ok h" "committee_ok h"
  shows "finishes RoundStepCrossShardPropose h (FinishCrossShardCommit_B h)"
proof -
  obtain ok h1 where f: "FinishCrossShardProposal h = (ok, h1)" by force
  have fin: "finishes RoundStepCrossShardPropose h (ok, h1)" using FinishCrossShardProposal_ok [OF assms] f by simp
  have "RoundStepCrossShardPropose \<le> PassStep h \<Longrightarrow> finishes RoundStepCrossShardPropose h (True, h)"
    by (rule finishes_already [OF assms(1)])
  then show ?thesis
    using f fin finishes_not [OF fin]
    by (auto simp: FinishCrossShardCommit_B_def Let_def round_step_defs)
qed

end
