(* ===== verification/HeightSteps.thy ===== *)
theory HeightSteps
  imports HeightData
begin

text \<open>
  The height data as a state machine: which block headers have been announced, the invariant that
  every stored part set and block belongs to an announced header, and the runs of the operations of
  \<open>melete/consensus/height_datas.go\<close>. The properties: a node that has passed the precommit step holds
  the proposed block and verified prevotes and precommits of more than two thirds of its committee,
  and the aggregate it then broadcasts is accepted by its neighbours.
\<close>

section \<open>Blocks rebuilt from parts\<close>

lemma fillHeader_keeps:
  "fillHeader b = Ret b' \<Longrightarrow> ChainID (b_Header b') = ChainID (b_Header b) \<and> Height (b_Header b') = Height (b_Header b)"
  by (auto simp: fillHeader_def split: if_splits bind_splits)

lemma Block_Hash_keeps:
  "Block_Hash tm b = Ret (x, b') \<Longrightarrow> ChainID (b_Header b') = ChainID (b_Header b) \<and> Height (b_Header b') = Height (b_Header b)"
  using fillHeader_keeps by (fastforce simp: Block_Hash_def split: if_splits bind_splits)

lemma NewBlockFromBytes_no_cache: "NewBlockFromBytes c bz = Ret (Ptr b) \<Longrightarrow> blockhash b = []"
  by (auto simp: NewBlockFromBytes_def from_bytes_def NewBlockFromProto_def split: option.splits bind_splits)

lemma GenBlock_ok:
  assumes "GenBlock tm c ps = Ret (bp, Nil_ptr)" "IsComplete ps"
  obtains b where "bp = Ptr b" "ChainID (b_Header b) = psh_ChainID (ps_Header ps)"
    "Height (b_Header b) = psh_Height (ps_Header ps)" "Block_Hash tm b = Ret (ps_BlockHeaderHash ps, b)"
proof -
  obtain bz b0 b where b: "NewBlockFromBytes c bz = Ret (Ptr b0)" "Block_Hash tm b0 = Ret (ps_BlockHeaderHash ps, b)"
    "ChainID (b_Header b0) = psh_ChainID (ps_Header ps)" "Height (b_Header b0) = psh_Height (ps_Header ps)" "bp = Ptr b"
    using assms by (auto simp: GenBlock_def split: if_splits bind_splits ptr.splits)
  have "cache_ok tm b0" using NewBlockFromBytes_no_cache [OF b(1)] by (simp add: cache_ok_def)
  then show thesis
    using that [of b] b Block_Hash_cached(2) [OF _ b(2)] Block_Hash_keeps [OF b(2)] by simp
qed

lemma AddPart_keeps:
  "AddPart ps p = Ret (e, ps') \<Longrightarrow> ps_Header ps' = ps_Header ps \<and> ps_BlockHeaderHash ps' = ps_BlockHeaderHash ps"
  by (auto simp: AddPart_def split: if_splits bind_splits sum.splits)

section \<open>What is stored was announced\<close>

text \<open>
  A header hash is announced for a shard by the proposal of the node's own shard or by an accepted
  cross-shard proposal; \<open>csp_valid\<close> says what an accepted one has passed.
\<close>

definition announced :: "HeightDataPackage \<Rightarrow> string \<Rightarrow> bytes \<Rightarrow> bool" where
  "announced h cid hs \<longleftrightarrow> (cid = MyChainID h \<and> proposal_hash h = Ptr hs) \<or>
     (\<exists>csp. m_get (CrossShardProposals h) cid = Some csp \<and> pa_BlockHeaderHash (csp_AggregatedSignatures csp) = hs)"

definition csp_valid :: "thirdparty \<Rightarrow> HeightDataPackage \<Rightarrow> string \<Rightarrow> CrossShardProposal \<Rightarrow> bool" where
  "csp_valid tp h cid csp \<longleftrightarrow>
     (let agg = csp_AggregatedSignatures csp; bv = pa_ValidatorBitVector agg
      in psh_ChainID (pa_Header agg) = cid \<and> psh_Height (pa_Header agg) = hd_Height h \<and>
         VerifySignatures (tp_bls tp) (precommit_codec (tp_codecs tp)) agg (validators h cid) (Byte bv) = Ret True \<and>
         (\<exists>t. csp_votes bv (peers h cid) (nat (Size bv)) 0 0 = Ret t \<and> t > i32 ((map_get 0 (ShardVotes h) cid * 2) sdiv 3)))"

definition part_set_ok :: "HeightDataPackage \<Rightarrow> string \<Rightarrow> PartSet \<Rightarrow> bool" where
  "part_set_ok h cid ps \<longleftrightarrow> psh_ChainID (ps_Header ps) = cid \<and> psh_Height (ps_Header ps) = hd_Height h \<and>
     announced h cid (ps_BlockHeaderHash ps)"

definition block_ok :: "thirdparty \<Rightarrow> HeightDataPackage \<Rightarrow> string \<Rightarrow> Block ptr \<Rightarrow> bool" where
  "block_ok tp h cid bp \<longleftrightarrow> (\<exists>b hs. bp = Ptr b \<and> ChainID (b_Header b) = cid \<and> Height (b_Header b) = hd_Height h \<and>
     Block_Hash (tp_time tp) b = Ret (hs, b) \<and> announced h cid hs)"

definition store_ok :: "thirdparty \<Rightarrow> HeightDataPackage \<Rightarrow> bool" where
  "store_ok tp h \<longleftrightarrow>
     (\<forall>cid csp. m_get (CrossShardProposals h) cid = Some csp \<longrightarrow> csp_valid tp h cid csp) \<and>
     (\<forall>cid ps. m_get (CrossShardPartSets h) cid = Some ps \<longrightarrow> part_set_ok h cid ps) \<and>
     (\<forall>cid bp. m_get (CrossShardBlocks h) cid = Some bp \<longrightarrow> block_ok tp h cid bp)"

text \<open>Steps that keep the announcements keep what rests on them.\<close>

definition announces_more :: "HeightDataPackage \<Rightarrow> HeightDataPackage \<Rightarrow> bool" where
  "announces_more h h' \<longleftrightarrow> same_frame h h' \<and> (proposal_hash h \<noteq> Nil_ptr \<longrightarrow> proposal_hash h' = proposal_hash h) \<and>
     (\<forall>cid csp. m_get (CrossShardProposals h) cid = Some csp \<longrightarrow> m_get (CrossShardProposals h') cid = Some csp)"

lemma announces_more_refl [simp]: "announces_more h h"
  by (simp add: announces_more_def)

lemma announced_more: "announces_more h h' \<Longrightarrow> announced h cid hs \<Longrightarrow> announced h' cid hs"
  by (auto simp: announces_more_def announced_def same_frame_def)

lemma announces_more_facts:
  assumes "announces_more h h'"
  shows "csp_valid tp h' = csp_valid tp h" "part_set_ok h cid ps \<Longrightarrow> part_set_ok h' cid ps"
    "block_ok tp h cid bp \<Longrightarrow> block_ok tp h' cid bp"
proof -
  have fr: "same_frame h h'" using assms by (simp add: announces_more_def)
  note s = fr [unfolded same_frame_def] and f = same_frame_facts [OF fr]
  show "csp_valid tp h' = csp_valid tp h" by (intro ext) (simp add: csp_valid_def f s)
  show "part_set_ok h cid ps \<Longrightarrow> part_set_ok h' cid ps"
    using announced_more [OF assms] by (simp add: part_set_ok_def s)
  show "block_ok tp h cid bp \<Longrightarrow> block_ok tp h' cid bp"
    using announced_more [OF assms] by (auto simp: block_ok_def s)
qed

lemma store_ok_frame:
  assumes "store_ok tp h" "announces_more h h'" "CrossShardProposals h' = CrossShardProposals h"
    "CrossShardPartSets h' = CrossShardPartSets h" "CrossShardBlocks h' = CrossShardBlocks h"
  shows "store_ok tp h'"
  using assms announces_more_facts [OF assms(2)] by (simp add: store_ok_def)

text \<open>Blocks that are present stay present (possibly replaced).\<close>

definition keeps_blocks :: "HeightDataPackage \<Rightarrow> HeightDataPackage \<Rightarrow> bool" where
  "keeps_blocks h h' \<longleftrightarrow> (\<forall>cid b. m_get (CrossShardBlocks h) cid = Some (Ptr b) \<longrightarrow>
     (\<exists>b'. m_get (CrossShardBlocks h') cid = Some (Ptr b')))"

lemma keeps_blocks_refl: "CrossShardBlocks h' = CrossShardBlocks h \<Longrightarrow> keeps_blocks h h'"
  by (simp add: keeps_blocks_def)

lemma keeps_blocks_trans: "keeps_blocks a b \<Longrightarrow> keeps_blocks b c \<Longrightarrow> keeps_blocks a c"
  by (meson keeps_blocks_def)

lemma m_get_put: "m_get (m_put k v m) k' = (if k' = k then Some v else m_get m k')"
  by (simp add: update_conv)

section \<open>Each operation\<close>

definition good_step :: "thirdparty \<Rightarrow> HeightDataPackage \<Rightarrow> HeightDataPackage \<Rightarrow> bool" where
  "good_step tp h h' \<longleftrightarrow> store_ok tp h' \<and> announces_more h h' \<and> keeps_blocks h h'"

lemma good_step_refl: "store_ok tp h \<Longrightarrow> good_step tp h h"
  by (simp add: good_step_def keeps_blocks_def)

lemma good_step_trans: "good_step tp a b \<Longrightarrow> good_step tp b c \<Longrightarrow> good_step tp a c"
  using same_frame_trans [of a b c] keeps_blocks_trans [of a b c] by (auto simp: good_step_def announces_more_def)

lemma good_step_frame:
  assumes "store_ok tp h" "announces_more h h'" "CrossShardProposals h' = CrossShardProposals h"
    "CrossShardPartSets h' = CrossShardPartSets h" "CrossShardBlocks h' = CrossShardBlocks h"
  shows "good_step tp h h'"
  using assms store_ok_frame by (simp add: good_step_def keeps_blocks_refl)

lemma put_part_set:
  assumes "store_ok tp h" "part_set_ok h cid ps"
  shows "good_step tp h (h\<lparr>CrossShardPartSets := m_put cid ps (CrossShardPartSets h)\<rparr>)"
proof -
  let ?h = "h\<lparr>CrossShardPartSets := m_put cid ps (CrossShardPartSets h)\<rparr>"
  have a: "announces_more h ?h" by (simp add: announces_more_def same_frame_def proposal_hash_def)
  show ?thesis
    using assms a announces_more_facts [OF a] by (auto simp: good_step_def store_ok_def m_get_put keeps_blocks_def)
qed

lemma put_block:
  assumes "store_ok tp h" "block_ok tp h cid bp"
  shows "good_step tp h (h\<lparr>CrossShardBlocks := m_put cid bp (CrossShardBlocks h)\<rparr>)"
proof -
  let ?h = "h\<lparr>CrossShardBlocks := m_put cid bp (CrossShardBlocks h)\<rparr>"
  have a: "announces_more h ?h" by (simp add: announces_more_def same_frame_def proposal_hash_def)
  have "\<exists>b. bp = Ptr b" using assms(2) by (auto simp: block_ok_def)
  then show ?thesis
    using assms a announces_more_facts [OF a] by (auto simp: good_step_def store_ok_def m_get_put keeps_blocks_def)
qed

lemma addInnerPart_good:
  assumes ok: "store_ok tp h" and res: "addInnerPart tp h p = Ret (e, h')"
  shows "good_step tp h h'"
proof (cases "hd_Height h \<noteq> pt_Height p \<or> hd_Round h \<noteq> pt_Round p")
  case True
  then show ?thesis using res good_step_refl [OF ok] by (simp add: addInnerPart_def)
next
  case False
  show ?thesis
  proof (cases "m_get (CrossShardPartSets h) (pt_ChainID p)")
    case None
    have "announces_more h (h\<lparr>randomHeaderBuffer := b\<rparr>)" for b
      by (simp add: announces_more_def same_frame_def proposal_hash_def)
    then show ?thesis using res False None ok by (auto simp: addInnerPart_def intro!: good_step_frame)
  next
    case (Some ps)
    obtain e1 ps' where add: "AddPart ps p = Ret (e1, ps')"
      using res False Some by (auto simp: addInnerPart_def split: bind_splits)
    let ?h1 = "h\<lparr>CrossShardPartSets := m_put (pt_ChainID p) ps' (CrossShardPartSets h)\<rparr>"
    have "part_set_ok h (pt_ChainID p) ps" using ok Some by (simp add: store_ok_def)
    then have ps': "part_set_ok h (pt_ChainID p) ps'" using AddPart_keeps [OF add] by (simp add: part_set_ok_def)
    note g1 = put_part_set [OF ok ps']
    show ?thesis
    proof (cases "h' = ?h1")
      case True
      then show ?thesis using g1 by simp
    next
      case d: False
      then obtain bp where gb: "GenBlock (tp_time tp) (block_codec (tp_codecs tp)) ps' = Ret (bp, Nil_ptr)" "IsComplete ps'"
        and h': "h' = ?h1\<lparr>CrossShardBlocks := m_put (pt_ChainID p) bp (CrossShardBlocks ?h1)\<rparr>"
        using res False Some add
        by (auto simp: addInnerPart_def Let_def split: bind_splits ptr.splits PartError.splits if_splits)
      obtain b where b: "bp = Ptr b" "ChainID (b_Header b) = psh_ChainID (ps_Header ps')"
        "Height (b_Header b) = psh_Height (ps_Header ps')" "Block_Hash (tp_time tp) b = Ret (ps_BlockHeaderHash ps', b)"
        by (rule GenBlock_ok [OF gb])
      have ps1: "part_set_ok ?h1 (pt_ChainID p) ps'"
        using announces_more_facts(2) [OF _ ps'] g1 by (simp add: good_step_def)
      then have "block_ok tp ?h1 (pt_ChainID p) bp" using b by (auto simp: block_ok_def part_set_ok_def)
      then have "good_step tp ?h1 h'" unfolding h' using g1 by (intro put_block) (simp_all add: good_step_def)
      then show ?thesis using good_step_trans [OF g1] by blast
    qed
  qed
qed

lemma add_parts_good: "store_ok tp h \<Longrightarrow> add_parts tp ps h = Ret h' \<Longrightarrow> good_step tp h h'"
proof (induction ps arbitrary: h)
  case Nil
  then show ?case by (simp add: good_step_refl)
next
  case (Cons p ps)
  then obtain e h1 where h1: "addInnerPart tp h p = Ret (e, h1)" "add_parts tp ps h1 = Ret h'"
    by (auto split: bind_splits)
  have "good_step tp h h1" by (rule addInnerPart_good [OF Cons.prems(1) h1(1)])
  moreover from this have "good_step tp h1 h'" using Cons.IH [of h1] h1(2) by (simp add: good_step_def)
  ultimately show ?case by (rule good_step_trans)
qed

lemma AddPrevote_frame:
  assumes "AddPrevote tp h p = Ret (e, h')"
  shows "CrossShardProposals h' = CrossShardProposals h" "PassStep h' = PassStep h"
    "PrecommitsTotal h' = PrecommitsTotal h" "committee_ok h \<Longrightarrow> PrevotesTotal h \<le> PrevotesTotal h'"
proof -
  show "CrossShardProposals h' = CrossShardProposals h" "PassStep h' = PassStep h" "PrecommitsTotal h' = PrecommitsTotal h"
    using assms by (auto simp: AddPrevote_def count_prevote_def Let_def split: if_splits bind_splits option.splits)
  have "0 \<le> v" if "my_vote h1 i = Ret v" "my_peers h1 = my_peers h" "committee_ok h" for h1 i v
  proof -
    have "\<forall>q \<in> set (my_peers h). 0 \<le> Vote q" using that(3) by (simp add: committee_ok_def votes_ok_def)
    then show ?thesis using that(1,2) by (auto simp: my_vote_def my_peers_def [symmetric] go_index_Some_iff split: bind_splits)
  qed
  moreover have "my_peers (h\<lparr>Prevotes := x\<rparr>) = my_peers h" for x by (simp add: my_peers_def peers_def)
  ultimately show "committee_ok h \<Longrightarrow> PrevotesTotal h \<le> PrevotesTotal h'"
    using assms by (auto simp: AddPrevote_def count_prevote_def Let_def split: if_splits bind_splits option.splits)
qed

lemma AddPrecommit_frame:
  assumes "AddPrecommit tp h p = Ret (e, h')"
  shows "CrossShardProposals h' = CrossShardProposals h" "PassStep h' = PassStep h"
    "PrevotesTotal h' = PrevotesTotal h" "committee_ok h \<Longrightarrow> PrecommitsTotal h \<le> PrecommitsTotal h'"
proof -
  show "CrossShardProposals h' = CrossShardProposals h" "PassStep h' = PassStep h" "PrevotesTotal h' = PrevotesTotal h"
    using assms by (auto simp: AddPrecommit_def count_precommit_def Let_def split: if_splits bind_splits option.splits)
  have "0 \<le> v" if "my_vote h1 i = Ret v" "my_peers h1 = my_peers h" "committee_ok h" for h1 i v
  proof -
    have "\<forall>q \<in> set (my_peers h). 0 \<le> Vote q" using that(3) by (simp add: committee_ok_def votes_ok_def)
    then show ?thesis using that(1,2) by (auto simp: my_vote_def my_peers_def [symmetric] go_index_Some_iff split: bind_splits)
  qed
  moreover have "my_peers (h\<lparr>Precommits := x\<rparr>) = my_peers h" for x by (simp add: my_peers_def peers_def)
  ultimately show "committee_ok h \<Longrightarrow> PrecommitsTotal h \<le> PrecommitsTotal h'"
    using assms by (auto simp: AddPrecommit_def count_precommit_def Let_def split: if_splits bind_splits option.splits)
qed

lemma AddCrossShardProposal_good:
  assumes ok: "store_ok tp h" and res: "AddCrossShardProposal tp h csp = Ret (e, h')"
  shows "good_step tp h h'"
proof (cases "h' = h")
  case True
  then show ?thesis using ok by (simp add: good_step_refl)
next
  case False
  let ?agg = "csp_AggregatedSignatures csp" and ?bv = "pa_ValidatorBitVector (csp_AggregatedSignatures csp)"
  let ?cid = "psh_ChainID (pa_Header (csp_AggregatedSignatures csp))"
  obtain t ps where c: "psh_Height (pa_Header ?agg) = hd_Height h" "\<not> m_has (CrossShardProposals h) ?cid"
    "VerifySignatures (tp_bls tp) (precommit_codec (tp_codecs tp)) ?agg (validators h ?cid) (Byte ?bv) = Ret True"
    "csp_votes ?bv (peers h ?cid) (nat (Size ?bv)) 0 0 = Ret t" "t > i32 ((map_get 0 (ShardVotes h) ?cid * 2) sdiv 3)"
    "NewPartSet (pa_Header ?agg) (pa_BlockHeaderHash ?agg) = Ret ps"
    and h': "add_parts tp (map_get [] (randomHeaderBuffer h) ?cid)
      (h\<lparr>CrossShardProposals := m_put ?cid csp (CrossShardProposals h),
         CrossShardPartSets := m_put ?cid ps (CrossShardPartSets h)\<rparr>) = Ret h'"
    using res False by (auto simp: AddCrossShardProposal_def Let_def split: if_splits bind_splits)
  let ?h1 = "h\<lparr>CrossShardProposals := m_put ?cid csp (CrossShardProposals h)\<rparr>"
  have a: "announces_more h ?h1"
    using c(2) by (auto simp: announces_more_def same_frame_def proposal_hash_def m_get_put m_has_def)
  have v: "csp_valid tp ?h1 ?cid csp" using c announces_more_facts(1) [OF a, of tp] by (auto simp: csp_valid_def Let_def)
  have s1: "store_ok tp ?h1"
    using ok v announces_more_facts [OF a] by (auto simp: store_ok_def m_get_put)
  have g1: "good_step tp h ?h1" using s1 a by (simp add: good_step_def keeps_blocks_refl)
  have "part_set_ok ?h1 ?cid ps"
    using c(1,6) by (auto simp: part_set_ok_def announced_def m_get_put NewPartSet_def split: if_splits)
  from put_part_set [OF s1 this] have g2: "good_step tp ?h1
      (?h1\<lparr>CrossShardPartSets := m_put ?cid ps (CrossShardPartSets ?h1)\<rparr>)" .
  then have "good_step tp (?h1\<lparr>CrossShardPartSets := m_put ?cid ps (CrossShardPartSets ?h1)\<rparr>) h'"
    using h' by (intro add_parts_good) (simp_all add: good_step_def)
  then show ?thesis using good_step_trans [OF g1 good_step_trans [OF g2]] by blast
qed

lemma recalc_frame:
  "reCalculatePrevotes h = Ret h' \<Longrightarrow> \<exists>b t. h' = h\<lparr>PrevotesBitVector := b, PrevotesTotal := t\<rparr>"
  "reCalculatePrecommits h = Ret h' \<Longrightarrow> \<exists>b t. h' = h\<lparr>PrecommitsBitVector := b, PrecommitsTotal := t\<rparr>"
proof -
  have *: "\<exists>b t. h = h\<lparr>PrevotesBitVector := b, PrevotesTotal := t\<rparr>"
    by (rule exI [of _ "PrevotesBitVector h"], rule exI [of _ "PrevotesTotal h"]) simp
  show "reCalculatePrevotes h = Ret h' \<Longrightarrow> \<exists>b t. h' = h\<lparr>PrevotesBitVector := b, PrevotesTotal := t\<rparr>"
    using * by (cases "hd_Proposal h") (auto simp: reCalculatePrevotes_def recalc_prevotes_tally simp del: HeightDataPackage.ext_inject)
  have *: "\<exists>b t. h = h\<lparr>PrecommitsBitVector := b, PrecommitsTotal := t\<rparr>"
    by (rule exI [of _ "PrecommitsBitVector h"], rule exI [of _ "PrecommitsTotal h"]) simp
  show "reCalculatePrecommits h = Ret h' \<Longrightarrow> \<exists>b t. h' = h\<lparr>PrecommitsBitVector := b, PrecommitsTotal := t\<rparr>"
    using * by (cases "hd_Proposal h") (auto simp: reCalculatePrecommits_def recalc_precommits_tally simp del: HeightDataPackage.ext_inject)
qed

lemma AddProposal_good:
  assumes ok: "store_ok tp h" and res: "AddProposal tp h p index = Ret (e, h')"
  shows "good_step tp h h'"
proof (cases "h' = h")
  case True
  then show ?thesis using ok by (simp add: good_step_refl)
next
  case False
  obtain ps h2 h3 where c: "hd_Proposal h = Nil_ptr" "hd_Height h = psh_Height (p_Header p)"
    "psh_ChainID (p_Header p) = MyChainID h" "NewPartSet (p_Header p) (p_BlockHeaderHash p) = Ret ps"
    and h2: "add_parts tp (map_get [] (randomHeaderBuffer h) (psh_ChainID (p_Header p)))
      (h\<lparr>hd_Proposal := Ptr p, CrossShardPartSets := m_put (MyChainID h) ps (CrossShardPartSets h)\<rparr>) = Ret h2"
    and h34: "reCalculatePrevotes h2 = Ret h3" "reCalculatePrecommits h3 = Ret h'"
    using res False by (auto simp: AddProposal_def is_nil_def split: if_splits option.splits bind_splits ptr.splits)
  let ?h1 = "h\<lparr>hd_Proposal := Ptr p\<rparr>"
  have a: "announces_more h ?h1" using c(1) by (simp add: announces_more_def same_frame_def proposal_hash_def)
  have s1: "store_ok tp ?h1" using ok announces_more_facts [OF a] by (simp add: store_ok_def)
  have g1: "good_step tp h ?h1" using s1 a by (simp add: good_step_def keeps_blocks_refl)
  have "part_set_ok ?h1 (MyChainID h) ps"
    using c by (auto simp: part_set_ok_def announced_def proposal_hash_def NewPartSet_def split: if_splits)
  from put_part_set [OF s1 this] have g2: "good_step tp ?h1
      (?h1\<lparr>CrossShardPartSets := m_put (MyChainID h) ps (CrossShardPartSets ?h1)\<rparr>)" .
  then have g3: "good_step tp (?h1\<lparr>CrossShardPartSets := m_put (MyChainID h) ps (CrossShardPartSets ?h1)\<rparr>) h2"
    using h2 by (intro add_parts_good) (simp_all add: good_step_def)
  have s2: "store_ok tp h2" using g3 by (simp add: good_step_def)
  obtain b t b' t' where "h' = h2\<lparr>PrevotesBitVector := b, PrevotesTotal := t, PrecommitsBitVector := b', PrecommitsTotal := t'\<rparr>"
    using recalc_frame(1) [OF h34(1)] recalc_frame(2) [OF h34(2)] by auto
  then have "good_step tp h2 h'"
    using s2 by (intro good_step_frame) (simp_all add: announces_more_def same_frame_def proposal_hash_def)
  then show ?thesis using good_step_trans [OF g1 good_step_trans [OF g2 good_step_trans [OF g3]]] by blast
qed


section \<open>Runs\<close>

text \<open>
  One step of a node's height data: a message is added, a completion test is made, or the node moves
  to the next height. The operations are called under the consensus lock, so a run is a sequence of
  such steps.
\<close>

inductive hd_step :: "thirdparty \<Rightarrow> HeightDataPackage \<Rightarrow> HeightDataPackage \<Rightarrow> bool" for tp where
  step_proposal: "AddProposal tp h p i = Ret (e, h') \<Longrightarrow> hd_step tp h h'"
| step_part: "hd_AddPart tp h q = Ret (e, h') \<Longrightarrow> hd_step tp h h'"
| step_prevote: "AddPrevote tp h v = Ret (e, h') \<Longrightarrow> hd_step tp h h'"
| step_precommit: "AddPrecommit tp h w = Ret (e, h') \<Longrightarrow> hd_step tp h h'"
| step_csp: "AddCrossShardProposal tp h csp = Ret (e, h') \<Longrightarrow> hd_step tp h h'"
| step_csa: "AddCrossShardAccept tp h csa = Ret (e, h') \<Longrightarrow> hd_step tp h h'"
| step_csc: "AddCrossShardCommit tp h csc = Ret (e, h', out) \<Longrightarrow> hd_step tp h h'"
| step_finish: "r \<in> {FinishProposal h, FinishPrevote h, FinishPrecommit h, FinishCrossShardAccept h,
    FinishCrossShardProposal h, FinishCrossShardCommit_I h, FinishCrossShardCommit_B h} \<Longrightarrow> hd_step tp h (snd r)"
| step_next: "NextHeight h = Ret h' \<Longrightarrow> hd_step tp h h'"

inductive hd_reach :: "thirdparty \<Rightarrow> string \<Rightarrow> int \<Rightarrow> ShardInfo \<Rightarrow> HeightDataPackage \<Rightarrow> bool" for tp cid n si where
  reach_new: "NewHeightData (tp_bls tp) cid n si = Ret h \<Longrightarrow> hd_reach tp cid n si h"
| reach_step: "hd_reach tp cid n si h \<Longrightarrow> hd_step tp h h' \<Longrightarrow> hd_reach tp cid n si h'"

definition hd_good :: "thirdparty \<Rightarrow> HeightDataPackage \<Rightarrow> bool" where
  "hd_good tp h \<longleftrightarrow> hd_inv tp h \<and> step_ok h \<and> store_ok tp h"

lemma hd_good_committee: "hd_good tp h \<Longrightarrow> committee_ok h"
  by (simp add: hd_good_def hd_inv_def)

lemma step_ok_mono:
  assumes "step_ok h" "same_frame h h'" "PassStep h' = PassStep h" "keeps_blocks h h'"
    "hd_Proposal h \<noteq> Nil_ptr \<Longrightarrow> hd_Proposal h' \<noteq> Nil_ptr"
    "PrevotesTotal h \<le> PrevotesTotal h'" "PrecommitsTotal h \<le> PrecommitsTotal h'"
  shows "step_ok h'"
proof -
  have "block_ready h'" if r: "block_ready h"
  proof -
    obtain b where "m_get (CrossShardBlocks h) (MyChainID h) = Some (Ptr b)" "hd_Proposal h \<noteq> Nil_ptr"
      using r by (cases "hd_Proposal h") (auto simp: block_ready_def)
    moreover from this obtain b' where "m_get (CrossShardBlocks h') (MyChainID h) = Some (Ptr b')"
      using assms(4) by (auto simp: keeps_blocks_def)
    ultimately show ?thesis
      using assms(2,5) by (cases "hd_Proposal h'") (auto simp: block_ready_def same_frame_def)
  qed
  moreover have "my_peers h' = my_peers h" using same_frame_facts(1) assms(2) by blast
  ultimately show ?thesis using assms(1,3,6,7) by (auto simp: step_ok_def quorum_def)
qed

lemma same_votes_good:
  assumes "hd_good tp h" "same_votes h h'" "good_step tp h h'"
  shows "hd_good tp h'"
proof -
  have "step_ok h'" using assms by (intro step_ok_mono [of h h']) (simp_all add: hd_good_def same_votes_def good_step_def)
  then show ?thesis using assms same_votes_inv [OF assms(2)] by (simp add: hd_good_def good_step_def)
qed

lemma same_store_good:
  assumes "hd_good tp h" "same_votes h h'" "CrossShardProposals h' = CrossShardProposals h"
    "CrossShardPartSets h' = CrossShardPartSets h" "CrossShardBlocks h' = CrossShardBlocks h"
  shows "hd_good tp h'"
proof -
  have "announces_more h h'" using assms(2,3) by (simp add: announces_more_def same_votes_def proposal_hash_def)
  then have "good_step tp h h'" using assms by (intro good_step_frame) (simp_all add: hd_good_def)
  then show ?thesis using assms same_votes_good by blast
qed

lemma vote_good:
  assumes "hd_good tp h" "hd_inv tp h'" "same_frame h h'" "hd_Proposal h' = hd_Proposal h"
    "CrossShardBlocks h' = CrossShardBlocks h" "CrossShardPartSets h' = CrossShardPartSets h"
    "CrossShardProposals h' = CrossShardProposals h" "PassStep h' = PassStep h"
    "PrevotesTotal h \<le> PrevotesTotal h'" "PrecommitsTotal h \<le> PrecommitsTotal h'"
  shows "hd_good tp h'"
proof -
  have "announces_more h h'" using assms(3,4,7) by (simp add: announces_more_def proposal_hash_def)
  then have "good_step tp h h'" using assms by (intro good_step_frame) (simp_all add: hd_good_def)
  moreover from this have "step_ok h'" using assms by (intro step_ok_mono [of h h']) (simp_all add: hd_good_def good_step_def)
  ultimately show ?thesis using assms(2) by (simp add: hd_good_def good_step_def)
qed

lemma finish_good:
  assumes "hd_good tp h" "finishes s h r"
  shows "hd_good tp (snd r)"
proof -
  obtain q where q: "snd r = h\<lparr>PassStep := q\<rparr>" "step_ok (snd r)" using assms(2) by (auto simp: finishes_def advances_def)
  have "announces_more h (h\<lparr>PassStep := q\<rparr>)" by (simp add: announces_more_def same_frame_def proposal_hash_def)
  then have "good_step tp h (snd r)" unfolding q(1) using assms(1) by (intro good_step_frame) (simp_all add: hd_good_def)
  then show ?thesis using q assms(1) by (simp add: hd_good_def good_step_def pass_step_frame)
qed

lemma clearAll_empty:
  "clearAll h = Ret h' \<Longrightarrow> CrossShardProposals h' = [] \<and> CrossShardPartSets h' = [] \<and> CrossShardBlocks h' = []"
  by (auto simp: clearAll_def clearPrevote_def clearPrecommit_def clearCrossShardData_def split: bind_splits)

lemma fresh_good:
  assumes "hd_inv tp h" "PassStep h = RoundStepNewHeight" "CrossShardProposals h = []" "CrossShardPartSets h = []" "CrossShardBlocks h = []"
  shows "hd_good tp h"
  using assms by (simp add: hd_good_def step_ok_def store_ok_def round_step_defs)

lemma AddProposal_good_inv:
  assumes g: "hd_good tp h" and res: "AddProposal tp h p i = Ret (e, h')"
  shows "hd_good tp h'"
proof (cases "h' = h")
  case False
  have i: "hd_inv tp h'" "same_frame h h'" "hd_Proposal h = Nil_ptr"
    using AddProposal_inv [OF _ res] g False by (auto simp: hd_good_def split: if_splits)
  have "\<not> RoundStepPropose \<le> PassStep h" using g i(3) by (auto simp: hd_good_def step_ok_def block_ready_def)
  moreover have "PassStep h' = PassStep h"
    using res by (auto simp: AddProposal_def same_votes_def split: if_splits option.splits bind_splits
        dest!: add_parts_same recalc_frame)
  ultimately have "step_ok h'" by (simp add: step_ok_def round_step_defs)
  then show ?thesis using i AddProposal_good [OF _ res] g by (simp add: hd_good_def good_step_def)
qed (use g in simp)

lemma hd_step_good:
  assumes "hd_step tp h h'" "hd_good tp h"
  shows "hd_good tp h'"
  using assms
proof cases
  case (step_proposal p i e)
  then show ?thesis using AddProposal_good_inv assms(2) by blast
next
  case (step_part q e)
  then have "addInnerPart tp h q = Ret (e, h')" by (simp add: hd_AddPart_def)
  moreover have "store_ok tp h" using assms(2) by (simp add: hd_good_def)
  ultimately show ?thesis using same_votes_good [OF assms(2)] addInnerPart_same addInnerPart_good by blast
next
  case (step_prevote v e)
  then show ?thesis
    using AddPrevote_inv [OF _ step_prevote] AddPrevote_frame [OF step_prevote] assms(2) hd_good_committee [OF assms(2)]
    by (intro vote_good [OF assms(2)]) (simp_all add: hd_good_def)
next
  case (step_precommit v e)
  then show ?thesis
    using AddPrecommit_inv [OF _ step_precommit] AddPrecommit_frame [OF step_precommit] assms(2) hd_good_committee [OF assms(2)]
    by (intro vote_good [OF assms(2)]) (simp_all add: hd_good_def)
next
  case (step_csp csp e)
  have "store_ok tp h" using assms(2) by (simp add: hd_good_def)
  from same_votes_good [OF assms(2) AddCrossShardProposal_same [OF step_csp] AddCrossShardProposal_good [OF this step_csp]]
  show ?thesis .
next
  case (step_csa csa e)
  then have "CrossShardProposals h' = CrossShardProposals h" "CrossShardPartSets h' = CrossShardPartSets h"
    "CrossShardBlocks h' = CrossShardBlocks h"
    by (auto simp: AddCrossShardAccept_def Let_def split: if_splits option.splits bind_splits ptr.splits sum.splits)
  with same_store_good [OF assms(2) AddCrossShardAccept_same [OF step_csa]] show ?thesis .
next
  case (step_csc csc e out)
  then have "CrossShardProposals h' = CrossShardProposals h" "CrossShardPartSets h' = CrossShardPartSets h"
    "CrossShardBlocks h' = CrossShardBlocks h"
    by (auto simp: AddCrossShardCommit_def Let_def split: if_splits option.splits bind_splits ptr.splits sum.splits)
  with same_store_good [OF assms(2) AddCrossShardCommit_same [OF step_csc]] show ?thesis .
next
  case (step_finish r)
  have s: "step_ok h" "committee_ok h" using assms(2) hd_good_committee by (auto simp: hd_good_def)
  have "\<exists>q. finishes q h r"
    using step_finish(2) FinishProposal_ok [OF s(1)] FinishPrevote_ok [OF s] FinishPrecommit_ok [OF s]
      FinishCrossShardAccept_ok [OF s] FinishCrossShardProposal_ok [OF s] FinishCrossShardCommit_I_ok [OF s]
      FinishCrossShardCommit_B_ok [OF s] by blast
  then show ?thesis using finish_good assms(2) step_finish(1) by blast
next
  case step_next
  then show ?thesis
    using NextHeight_inv [of tp h] assms(2) clearAll_empty by (intro fresh_good) (auto simp: hd_good_def NextHeight_def)
qed

lemma hd_reach_good:
  assumes "shard_ok si cid" "hd_reach tp cid n si h"
  shows "hd_good tp h"
  using assms(2)
proof induction
  case (reach_new h)
  then show ?case
    using NewHeightData_inv [OF assms(1), of "tp_bls tp" n tp] clearAll_empty
    by (intro fresh_good) (auto simp: NewHeightData_def)
next
  case (reach_step h h')
  then show ?case using hd_step_good by blast
qed

section \<open>What the quorum consists of\<close>

text \<open>The validators whose stored vote has been verified and names the proposed block.\<close>

definition prevoters :: "thirdparty \<Rightarrow> HeightDataPackage \<Rightarrow> bytes \<Rightarrow> nat set" where
  "prevoters tp h hash = {i. i < length (my_peers h) \<and>
     (\<exists>v. Prevotes h ! i = Ptr v \<and> pv_BlockHeaderHash v = hash \<and> valid_prevote tp h i v)}"

definition precommitters :: "thirdparty \<Rightarrow> HeightDataPackage \<Rightarrow> bytes \<Rightarrow> nat set" where
  "precommitters tp h hash = {i. i < length (my_peers h) \<and>
     (\<exists>v. Precommits h ! i = Ptr v \<and> pc_BlockHeaderHash v = hash \<and> valid_precommit tp h i v)}"

lemma ledger_sum:
  assumes "ledger f valid (Ptr hash) ps vs bv tot"
  shows "tot = (\<Sum>i | i < length ps \<and> (\<exists>v. vs ! i = Ptr v \<and> f v = hash \<and> valid i v). Vote (ps ! i))"
proof -
  obtain b where b: "Bits b = int (length ps)" "tot = marked_votes b ps"
    "\<forall>i < length ps. bv_bit b i \<longleftrightarrow> (\<exists>v. vs ! i = Ptr v \<and> hash = f v)"
    using assms by (auto simp: ledger_def)
  have "{i. i < length ps \<and> bv_bit b i} = {i. i < length ps \<and> (\<exists>v. vs ! i = Ptr v \<and> f v = hash \<and> valid i v)}"
    using b(3) assms by (auto simp: ledger_def)
  then show ?thesis using b(2) marked_votes_sum [OF b(1)] by simp
qed

lemma totals_are_voters:
  assumes "hd_inv tp h" "hd_Proposal h = Ptr p"
  shows "PrevotesTotal h = (\<Sum>i \<in> prevoters tp h (p_BlockHeaderHash p). Vote (my_peers h ! i))"
    "PrecommitsTotal h = (\<Sum>i \<in> precommitters tp h (p_BlockHeaderHash p). Vote (my_peers h ! i))"
  using assms ledger_sum unfolding hd_inv_def prevoters_def precommitters_def proposal_hash_def by auto

section \<open>The proposal itself\<close>

definition proposal_ok :: "HeightDataPackage \<Rightarrow> bool" where
  "proposal_ok h \<longleftrightarrow> (\<forall>p. hd_Proposal h = Ptr p \<longrightarrow> psh_Height (p_Header p) = hd_Height h \<and>
     psh_Round (p_Header p) = hd_Round h \<and> psh_ChainID (p_Header p) = MyChainID h \<and> 0 \<le> psh_Total (p_Header p))"

lemma proposal_ok_same: "same_frame h h' \<Longrightarrow> hd_Proposal h' = hd_Proposal h \<Longrightarrow> proposal_ok h \<Longrightarrow> proposal_ok h'"
  by (simp add: proposal_ok_def same_frame_def)

lemma same_votes_proposal_ok: "same_votes h h' \<Longrightarrow> proposal_ok h \<Longrightarrow> proposal_ok h'"
  by (rule proposal_ok_same) (simp_all add: same_votes_def)

lemma AddProposal_proposal_ok:
  assumes "hd_inv tp h" "AddProposal tp h p i = Ret (e, h')" "proposal_ok h"
  shows "proposal_ok h'"
proof (cases "h' = h")
  case False
  then have i: "hd_Proposal h' = Ptr p" "same_frame h h'"
    using AddProposal_inv [OF assms(1,2)] by (auto split: if_splits)
  have "hd_Height h = psh_Height (p_Header p)" "hd_Round h = psh_Round (p_Header p)" "psh_ChainID (p_Header p) = MyChainID h"
    "0 \<le> psh_Total (p_Header p)"
    using assms(2) False by (auto simp: AddProposal_def NewPartSet_def split: if_splits option.splits bind_splits)
  then show ?thesis using i by (simp add: proposal_ok_def same_frame_def)
qed (use assms in simp)

lemma finishes_proposal: "finishes s h r \<Longrightarrow> same_frame h (snd r) \<and> hd_Proposal (snd r) = hd_Proposal h"
  by (auto simp: finishes_def advances_def same_frame_def)

lemma hd_step_proposal_ok:
  assumes "hd_step tp h h'" "hd_good tp h" "proposal_ok h"
  shows "proposal_ok h'"
proof -
  have inv: "hd_inv tp h" using assms(2) by (simp add: hd_good_def)
  from assms(1) show ?thesis
  proof cases
    case (step_proposal p i e)
    then show ?thesis using AddProposal_proposal_ok [OF inv] assms(3) by blast
  next
    case (step_part q e)
    then have "same_votes h h'" by (intro addInnerPart_same) (simp add: hd_AddPart_def)
    then show ?thesis using assms(3) same_votes_proposal_ok by blast
  next
    case (step_prevote v e)
    then show ?thesis using AddPrevote_inv [OF inv step_prevote] assms(3) proposal_ok_same by blast
  next
    case (step_precommit v e)
    then show ?thesis using AddPrecommit_inv [OF inv step_precommit] assms(3) proposal_ok_same by blast
  next
    case (step_csp csp e)
    then show ?thesis using AddCrossShardProposal_same [OF step_csp] assms(3) same_votes_proposal_ok by blast
  next
    case (step_csa csa e)
    then show ?thesis using AddCrossShardAccept_same [OF step_csa] assms(3) same_votes_proposal_ok by blast
  next
    case (step_csc csc e out)
    then show ?thesis using AddCrossShardCommit_same [OF step_csc] assms(3) same_votes_proposal_ok by blast
  next
    case (step_finish r)
    have s: "step_ok h" "committee_ok h" using assms(2) hd_good_committee by (auto simp: hd_good_def)
    have "\<exists>q. finishes q h r"
      using step_finish(2) FinishProposal_ok [OF s(1)] FinishPrevote_ok [OF s] FinishPrecommit_ok [OF s]
        FinishCrossShardAccept_ok [OF s] FinishCrossShardProposal_ok [OF s] FinishCrossShardCommit_I_ok [OF s]
        FinishCrossShardCommit_B_ok [OF s] by blast
    then show ?thesis using finishes_proposal step_finish(1) assms(3) proposal_ok_same by blast
  next
    case step_next
    then show ?thesis using NextHeight_inv [OF inv] by (auto simp: proposal_ok_def)
  qed
qed

lemma hd_reach_proposal_ok:
  assumes "shard_ok si cid" "hd_reach tp cid n si h"
  shows "proposal_ok h"
  using assms(2)
proof induction
  case (reach_new h)
  then show ?case using NewHeightData_inv [OF assms(1), of "tp_bls tp" n tp] by (auto simp: proposal_ok_def)
next
  case (reach_step h h')
  then show ?case using hd_step_proposal_ok hd_reach_good [OF assms(1)] by blast
qed

section \<open>The aggregate\<close>

lemma csp_votes_vote_sum:
  assumes "bv_wf b" "j + n \<le> length ps"
  shows "csp_votes (Ptr b) ps n (int j) acc = vote_sum (Ptr b) (int j) (take n (drop j ps)) acc"
  using assms(2)
proof (induction n arbitrary: j acc)
  case (Suc n)
  then have j: "j < length ps" by simp
  have d: "drop j ps = ps ! j # drop (Suc j) ps" using j by (simp add: Cons_nth_drop_Suc)
  have IH: "csp_votes (Ptr b) ps n (1 + int j) a = vote_sum (Ptr b) (1 + int j) (take n (drop (Suc j) ps)) a" for a
    using Suc.IH [of "Suc j" a] Suc.prems by simp
  show ?case unfolding d using j GetIndex_total [OF assms(1), of j] by (auto simp: IH add.commute)
qed simp

lemma csp_votes_marked:
  assumes "bv_wf b" "Bits b = int (length ps)" "votes_ok ps"
  shows "csp_votes (Ptr b) ps (nat (Size (Ptr b))) 0 0 = Ret (marked_votes b ps)"
  using csp_votes_vote_sum [OF assms(1), of 0 "length ps" ps 0] vote_sum_marked [OF assms] assms(2)
  by (simp add: Size_def)

lemma collect_sigs_map:
  assumes "bv_wf b" "j + n \<le> nat (Bits b)" "length pcs = nat (Bits b)"
    and "\<forall>i < length pcs. bv_bit b i \<longrightarrow> pcs ! i = Ptr (w i)"
  shows "collect_sigs (Ptr b) pcs n (int j) = Ret (map (\<lambda>i. pc_Signature (w i)) (filter (bv_bit b) [j..<j + n]))"
  using assms(2)
proof (induction n arbitrary: j)
  case (Suc n)
  have g: "GetIndex (Ptr b) (int j) = Ret (bv_bit b j)" using GetIndex_bv [OF assms(1), of j] Suc.prems by simp
  have up: "[j..<j + Suc n] = j # [Suc j..<Suc j + n]" by (simp add: upt_conv_Cons)
  have IH: "collect_sigs (Ptr b) pcs n (1 + int j) = Ret (map (\<lambda>i. pc_Signature (w i)) (filter (bv_bit b) [Suc j..<Suc j + n]))"
    using Suc.IH [of "Suc j"] Suc.prems by simp
  show ?case unfolding up using g IH Suc.prems assms(3,4) by (auto simp: add.commute)
qed simp

text \<open>Matching votes that are regular precommits all sign the same bytes.\<close>

definition regular_precommits :: "HeightDataPackage \<Rightarrow> bool" where
  "regular_precommits h \<longleftrightarrow> (\<forall>i w. i < length (Precommits h) \<longrightarrow> Precommits h ! i = Ptr w \<longrightarrow>
     proposal_hash h = Ptr (pc_BlockHeaderHash w) \<longrightarrow> pcm_Code w = CodeTypeOK \<and> pc_VoteType w = VoteTypePrecommit)"

lemma aggregate_valid:
  assumes B: "bls_ok (tp_bls tp)" and g: "hd_good tp h" "proposal_ok h" and st: "RoundStepPrecommit \<le> PassStep h"
    and reg: "regular_precommits h"
  obtains pa p b v where "GenerateAggregatePrecommitSignature tp h = Ret pa" "hd_Proposal h = Ptr p"
    "pa_Header pa = p_Header p" "pa_BlockHeaderHash pa = p_BlockHeaderHash p" "pa_ValidatorBitVector pa = Ptr b"
    "bv_wf b" "Bits b = int (length (my_peers h))" "3 * marked_votes b (my_peers h) > 2 * total_votes (my_peers h)"
    "AllValidatorSet h (MyChainID h) = Some v"
    "VerifySignatures (tp_bls tp) (precommit_codec (tp_codecs tp)) pa (Ptr v) (Byte (Ptr b)) = Ret True"
proof -
  let ?ps = "my_peers h" and ?c = "precommit_codec (tp_codecs tp)"
  obtain p where p: "hd_Proposal h = Ptr p"
    using g(1) st by (cases "hd_Proposal h") (auto simp: hd_good_def step_ok_def block_ready_def round_step_defs)
  obtain v where v: "AllValidatorSet h (MyChainID h) = Some v" "Verifier_Size v = int (length ?ps)"
    using hd_good_committee [OF g(1)] by (auto simp: committee_ok_def)
  have L: "ledger pc_BlockHeaderHash (valid_precommit tp h) (Ptr (p_BlockHeaderHash p)) ?ps (Precommits h) (PrecommitsBitVector h) (PrecommitsTotal h)"
    using g(1) p by (simp add: hd_good_def hd_inv_def proposal_hash_def)
  then obtain b where b: "PrecommitsBitVector h = Ptr b" "bv_wf b" "Bits b = int (length ?ps)"
    "PrecommitsTotal h = marked_votes b ?ps"
    "\<forall>i < length ?ps. bv_bit b i \<longleftrightarrow> (\<exists>w. Precommits h ! i = Ptr w \<and> p_BlockHeaderHash p = pc_BlockHeaderHash w)"
    and len: "length (Precommits h) = length ?ps" by (auto simp: ledger_def)
  have q: "3 * marked_votes b ?ps > 2 * total_votes ?ps" using g(1) st b(4) by (simp add: hd_good_def step_ok_def quorum_def)
  have "0 \<le> total_votes ?ps" using my_votes_total hd_good_committee [OF g(1)] by fastforce
  then have ne: "bv_indices b \<noteq> []" using q b(3) by (auto simp: bv_indices_def marked_votes_def)
  define w where "w i = deref (Precommits h ! i)" for i
  have in_set: "i \<in> set (bv_indices b) \<longleftrightarrow> i < length ?ps \<and> bv_bit b i" for i using b(3) by (auto simp: bv_indices_def)
  have w: "Precommits h ! i = Ptr (w i) \<and> pc_BlockHeaderHash (w i) = p_BlockHeaderHash p \<and> valid_precommit tp h i (w i)"
    if "i \<in> set (bv_indices b)" for i using that b(5) L by (auto simp: in_set w_def ledger_def)
  let ?pa0 = "\<lambda>s. \<lparr>pa_VoteType = VoteTypePrecommitAggregated, pa_Code = CodeTypeOK, pa_ValidatorBitVector = Ptr b,
      pa_Header = p_Header p, pa_BlockHeaderHash = p_BlockHeaderHash p, AggregatedSignatures = s\<rparr>"
  have sb: "Precommit_SignBytes ?c (w i) = Precommit_SignBytes ?c (Aggregated_Precommit (?pa0 s))" if "i \<in> set (bv_indices b)" for i s
  proof -
    have "pcm_Code (w i) = CodeTypeOK" "pc_VoteType (w i) = VoteTypePrecommit"
      using reg w [OF that] that len p by (auto simp: regular_precommits_def proposal_hash_def in_set)
    then show ?thesis
      using w [OF that] g(2) p by (intro Precommit_SignBytes_cong)
        (simp_all add: Aggregated_Precommit_def NewPrecommit_def valid_precommit_def proposal_ok_def Let_def)
  qed
  obtain msg where msg: "\<And>s. Precommit_SignBytes ?c (Aggregated_Precommit (?pa0 s)) = Ret msg"
  proof -
    obtain i where i: "i \<in> set (bv_indices b)" using ne by (meson list.set_sel(1))
    obtain bz where "Precommit_SignBytes ?c (w i) = Ret bz" using w [OF i] by (auto simp: valid_precommit_def)
    then show thesis using that sb [OF i] by metis
  qed
  have "\<exists>\<sigma> pk. publicKeys v ! i = Ptr pk \<and> sig_parse (tp_bls tp) (pc_Signature (w i)) = Some \<sigma> \<and> sig_verify (tp_bls tp) \<sigma> pk msg"
    if i: "i \<in> set (bv_indices b)" for i
  proof -
    have "Verifier_Verify (tp_bls tp) v (pc_Signature (w i)) msg (int i) = Ret True"
      using w [OF i] sb [OF i] msg v(1) by (auto simp: valid_precommit_def)
    then show ?thesis by (auto simp: Verifier_Verify_def split: if_splits bind_splits ptr.splits option.splits)
  qed
  then obtain \<sigma> pk where k: "\<forall>i \<in> set (bv_indices b). publicKeys v ! i = Ptr (pk i)"
    "\<forall>i \<in> set (bv_indices b). sig_parse (tp_bls tp) (pc_Signature (w i)) = Some (\<sigma> i) \<and> sig_verify (tp_bls tp) (\<sigma> i) (pk i) msg"
    by metis
  obtain agg where agg: "AggregateSignatures (tp_bls tp) (map (\<lambda>i. pc_Signature (w i)) (bv_indices b)) = Inr agg"
    "VerifyAggregateSignature (tp_bls tp) v agg msg (Byte (Ptr b)) = Ret True"
    using aggregate_verifies [OF B b(2) _ ne refl k] b(3) v(2) by auto
  have "collect_sigs (Ptr b) (Precommits h) (nat (Bits b)) (int 0) = Ret (map (\<lambda>i. pc_Signature (w i)) (bv_indices b))"
    using collect_sigs_map [OF b(2), of 0 "nat (Bits b)" "Precommits h" w] w in_set len b(3) by (simp add: bv_indices_def)
  then have gen: "GenerateAggregatePrecommitSignature tp h = Ret (?pa0 agg)"
    using agg(1) p b(1,2) by (simp add: GenerateAggregatePrecommitSignature_def Size_def NewPrecommitAggregated_def Byte_roundtrip_aux)
  have "VerifySignatures (tp_bls tp) ?c (?pa0 agg) (Ptr v) (Byte (Ptr b)) = Ret True"
    using msg [of agg] agg(2) by (simp add: VerifySignatures_def)
  then show thesis using that [OF gen p] b q v by simp
qed

text \<open>A neighbour at the same height that knows the committee.\<close>

definition neighbour :: "HeightDataPackage \<Rightarrow> HeightDataPackage \<Rightarrow> bool" where
  "neighbour h g \<longleftrightarrow> hd_Height g = hd_Height h \<and> peers g (MyChainID h) = my_peers h \<and>
     AllValidatorSet g (MyChainID h) = AllValidatorSet h (MyChainID h) \<and> ShardVotes g (MyChainID h) = ShardVotes h (MyChainID h)"

lemma aggregate_accepted_aux:
  assumes B: "bls_ok (tp_bls tp)" and g: "hd_good tp h" "proposal_ok h" and st: "RoundStepPrecommit \<le> PassStep h"
    and reg: "regular_precommits h" and n: "neighbour h g'" "\<not> m_has (CrossShardProposals g') (MyChainID h)"
    and buf: "randomHeaderBuffer g' (MyChainID h) = None"
  shows "\<exists>pa g''. GenerateAggregatePrecommitSignature tp h = Ret pa \<and>
    AddCrossShardProposal tp g' (NewCrossShardProposal pa st') = Ret (Nil_ptr, g'') \<and>
    m_get (CrossShardProposals g'') (MyChainID h) = Some (NewCrossShardProposal pa st')"
proof -
  obtain pa p b v where a: "GenerateAggregatePrecommitSignature tp h = Ret pa" "hd_Proposal h = Ptr p"
    "pa_Header pa = p_Header p" "pa_BlockHeaderHash pa = p_BlockHeaderHash p" "pa_ValidatorBitVector pa = Ptr b"
    "bv_wf b" "Bits b = int (length (my_peers h))" "3 * marked_votes b (my_peers h) > 2 * total_votes (my_peers h)"
    "AllValidatorSet h (MyChainID h) = Some v"
    "VerifySignatures (tp_bls tp) (precommit_codec (tp_codecs tp)) pa (Ptr v) (Byte (Ptr b)) = Ret True"
    by (rule aggregate_valid [OF B g st reg])
  have ok: "votes_ok (my_peers h)" "ShardVotes h (MyChainID h) = Some (total_votes (my_peers h))"
    using hd_good_committee [OF g(1)] by (auto simp: committee_ok_def)
  have t: "0 \<le> total_votes (my_peers h)" "total_votes (my_peers h) < 2 ^ 30"
    using ok(1) sum_list_nonneg_prefix by (auto simp: votes_ok_def)
  have thr: "marked_votes b (my_peers h) > i32 ((total_votes (my_peers h) * 2) sdiv 3)"
    using t a(8) two_thirds_gt [OF t(1)] by (simp add: i32_id sdiv_nonneg)
  have hdr: "psh_Height (p_Header p) = hd_Height h" "psh_ChainID (p_Header p) = MyChainID h" "0 \<le> psh_Total (p_Header p)"
    using g(2) a(2) by (auto simp: proposal_ok_def)
  have sv: "map_get 0 (ShardVotes g') (MyChainID h) = total_votes (my_peers h)" using n(1) ok(2) by (simp add: neighbour_def map_get_def)
  have bm: "map_get [] (randomHeaderBuffer g') (MyChainID h) = []" using buf by (simp add: map_get_def)
  have vv: "validators g' (MyChainID h) = Ptr v" using n(1) a(9) by (simp add: validators_def neighbour_def)
  obtain ps where np: "NewPartSet (p_Header p) (p_BlockHeaderHash p) = Ret ps" using hdr(3) by (simp add: NewPartSet_def)
  let ?csp = "NewCrossShardProposal pa st'"
  let ?g = "g'\<lparr>CrossShardProposals := m_put (MyChainID h) ?csp (CrossShardProposals g'),
       CrossShardPartSets := m_put (MyChainID h) ps (CrossShardPartSets g')\<rparr>"
  have cv: "csp_votes (Ptr b) (my_peers h) (nat (Size (Ptr b))) 0 0 = Ret (marked_votes b (my_peers h))"
    by (rule csp_votes_marked [OF a(6,7) ok(1)])
  have "AddCrossShardProposal tp g' ?csp = Ret (Nil_ptr, ?g)"
    using a hdr n vv np cv thr sv bm
    by (simp add: AddCrossShardProposal_def NewCrossShardProposal_def neighbour_def Let_def)
  moreover have "m_get (CrossShardProposals ?g) (MyChainID h) = Some ?csp" by (simp add: m_get_put)
  ultimately show ?thesis using a(1) by blast
qed
section \<open>A concrete run\<close>

text \<open>One validator, one part, one block: the node passes the precommit step.\<close>

definition demo_tp :: thirdparty where
  "demo_tp = \<lparr>tp_bls = toy_bls,
     tp_codecs = \<lparr>proposal_codec = \<lparr>Marshal = \<lambda>m. Some [1], Unmarshal = \<lambda>bz. None\<rparr>,
        prevote_codec = \<lparr>Marshal = \<lambda>m. Some [2], Unmarshal = \<lambda>bz. None\<rparr>,
        precommit_codec = \<lparr>Marshal = \<lambda>m. Some [3], Unmarshal = \<lambda>bz. None\<rparr>,
        precommit_agg_codec = no_codec, csp_codec = no_codec, csa_codec = no_codec, csc_codec = no_codec,
        block_codec = demo_codec, part_codec = no_codec\<rparr>,
     tp_time = \<lambda>t. Some [7]\<rparr>"

definition demo_si :: ShardInfo where
  "demo_si = \<lparr>si_PeerList = [''a'' \<mapsto> [demo_peer], ''b'' \<mapsto> [demo_peer]], RelatedShards = [(''b'', True)],
     Related2LevelShards = [], PeerRelatedMap = [''a'' \<mapsto> [''b''], ''b'' \<mapsto> [''a'']], ShardIdentity = 1, KeyRangeMap = Map.empty\<rparr>"

definition demo_root :: bytes where
  "demo_root = leafHash [1, 2, 3, 4, 5]"

definition demo_proposal :: "bytes \<Rightarrow> Proposal" where
  "demo_proposal hash = (NewProposal \<lparr>psh_Height = 5, psh_Round = 0, psh_Total = 1, psh_Root = demo_root, psh_ChainID = ''a''\<rparr> 0 hash)
     \<lparr>p_Signature := ''++''\<rparr>"

definition demo_piece :: Part where
  "demo_piece = \<lparr>pt_ChainID = ''a'', pt_Height = 5, pt_Round = 0, pt_Bytes = [1, 2, 3, 4, 5],
     pt_Proof = \<lparr>Total = 1, Index = 0, LeafHash = Ptr demo_root, Aunts = []\<rparr>\<rparr>"

definition demo_prevote :: "bytes \<Rightarrow> Prevote" where
  "demo_prevote hash = (NewPrevote 5 0 hash 0)\<lparr>pv_Signature := ''++''\<rparr>"

definition demo_precommit :: "bytes \<Rightarrow> Precommit" where
  "demo_precommit hash = (NewPrecommit 5 0 hash 0)\<lparr>pc_Signature := ''++''\<rparr>"

definition demo_node :: "string \<Rightarrow> HeightDataPackage" where
  "demo_node cid = \<lparr>hd_Height = 5, hd_Round = 0, MyChainID = cid, PassStep = 1, hd_ShardInfo = demo_si,
     ShardVotes = [''a'' \<mapsto> 1, ''b'' \<mapsto> 1],
     AllValidatorSet = [''a'' \<mapsto> \<lparr>publicKeys = [Ptr 1]\<rparr>, ''b'' \<mapsto> \<lparr>publicKeys = [Ptr 1]\<rparr>], hd_Proposal = Nil_ptr,
     Prevotes = [Nil_ptr], PrevotesBitVector = Ptr \<lparr>Bits = 1, Elems = [0]\<rparr>, PrevotesTotal = 0,
     Precommits = [Nil_ptr], PrecommitsBitVector = Ptr \<lparr>Bits = 1, Elems = [0]\<rparr>, PrecommitsTotal = 0,
     CrossShardProposals = [], CrossShardAccepts = [''b'' \<mapsto> NewCSAShardSet 5 ''b'' [demo_peer] (Ptr \<lparr>publicKeys = [Ptr 1]\<rparr>)],
     CrossShardAcceptFinishCounter = 0, CrossShardCommits = [],
     CrossShardPartSets = [], CrossShardBlocks = [], randomHeaderBuffer = Map.empty\<rparr>"

lemma demo_new: "NewHeightData toy_bls cid 5 demo_si = Ret (demo_node cid)" if "cid \<in> {''a'', ''b''}"
  using that
  by (auto simp: NewHeightData_def SetShardInfo_def demo_si_def demo_node_def clearAll_def clearProposal_def clearPrevote_def
      clearPrecommit_def clearCrossShardData_def validator_size_def NewVerifier_def demo_peer_def toy_bls_def
      Verifier_Size_def NewBitVector_def peers_def validators_def RoundStepNewHeight_def fun_eq_iff map_get_def)

lemma demo_verify: "Verifier_Verify toy_bls \<lparr>publicKeys = [Ptr 1]\<rparr> ''++'' [x] 0 = Ret True"
  by (simp add: Verifier_Verify_def go_index_def toy_bls_def)

definition demo_part_set :: "bytes \<Rightarrow> Part ptr \<Rightarrow> PartSet" where
  "demo_part_set hash q = \<lparr>ps_Header = \<lparr>psh_Height = 5, psh_Round = 0, psh_Total = 1, psh_Root = demo_root, psh_ChainID = ''a''\<rparr>,
     Parts = [q], count = (if q = Nil_ptr then 0 else 1), ps_BlockHeaderHash = hash\<rparr>"

lemma demo_step1:
  "AddProposal demo_tp (demo_node ''a'') (demo_proposal hash) 0 =
   Ret (Nil_ptr, (demo_node ''a'')\<lparr>hd_Proposal := Ptr (demo_proposal hash), CrossShardPartSets := [(''a'', demo_part_set hash Nil_ptr)]\<rparr>)"
  by (simp add: AddProposal_def demo_node_def demo_proposal_def NewProposal_def demo_tp_def Proposal_SignBytes_def MustProtoBytes_def
      demo_verify NewPartSet_def demo_part_set_def map_get_def reCalculatePrevotes_def reCalculatePrecommits_def)

lemma demo_step2:
  assumes "Block_Hash (\<lambda>t. Some [7]) (demo_block\<lparr>blockhash := []\<rparr>) = Ret (hash, blk)"
    and "hd_Height h = 5" "hd_Round h = 0" "CrossShardPartSets h = [(''a'', demo_part_set hash Nil_ptr)]" "CrossShardBlocks h = []"
  shows "hd_AddPart demo_tp h demo_piece =
   Ret (Nil_ptr, h\<lparr>CrossShardPartSets := [(''a'', demo_part_set hash (Ptr demo_piece))], CrossShardBlocks := [(''a'', Ptr blk)]\<rparr>)"
proof -
  have v: "Verify (pt_Proof demo_piece) demo_root (pt_Bytes demo_piece) = Ret (Inr ())"
    by (simp add: Verify_def demo_piece_def demo_root_def ComputeRootHash_def computeHashFromAunts.simps)
  have a: "AddPart (demo_part_set hash Nil_ptr) demo_piece = Ret (Nil_ptr, demo_part_set hash (Ptr demo_piece))"
    using v by (simp add: AddPart_def demo_part_set_def Part_Verify_def go_index_def go_update_def)
      (simp add: demo_piece_def Part_Index_def)
  have nb: "NewBlockFromBytes demo_codec [1, 2, 3, 4, 5] = Ret (Ptr (demo_block\<lparr>blockhash := []\<rparr>))"
    by (rule Block_bytes_roundtrip [OF demo_block_facts(1-3)])
  have "GenBlock (\<lambda>t. Some [7]) demo_codec (demo_part_set hash (Ptr demo_piece)) = Ret (Ptr blk, Nil_ptr)"
    using assms(1) nb by (simp add: GenBlock_def IsComplete_def demo_part_set_def part_bytes_def demo_piece_def
       Block_ValidateBasic_def demo_block_def demo_header_def)
  then show ?thesis
    using a assms(2-5) by (simp add: hd_AddPart_def addInnerPart_def demo_tp_def IsComplete_def)
      (simp add: demo_piece_def demo_part_set_def Let_def)
qed

lemma demo_step3:
  assumes "hd_Height h = 5" "hd_Round h = 0" "MyChainID h = ''a''" "hd_ShardInfo h = demo_si"
    "AllValidatorSet h = AllValidatorSet (demo_node ''a'')" "hd_Proposal h = Ptr (demo_proposal hash)"
    "Prevotes h = [Nil_ptr]" "PrevotesBitVector h = Ptr \<lparr>Bits = 1, Elems = [0]\<rparr>" "PrevotesTotal h = 0"
  shows "AddPrevote demo_tp h (demo_prevote hash) = Ret (Nil_ptr, h\<lparr>Prevotes := [Ptr (demo_prevote hash)],
    PrevotesBitVector := Ptr \<lparr>Bits = 1, Elems = [1]\<rparr>, PrevotesTotal := 1\<rparr>)"
proof -
  have g: "GetIndex (Ptr \<lparr>Bits = 1, Elems = [0]\<rparr>) 0 = Ret False" "SetIndex (Ptr \<lparr>Bits = 1, Elems = [0]\<rparr>) 0 True = Ret (True, Ptr \<lparr>Bits = 1, Elems = [1]\<rparr>)"
    by (simp_all add: GetIndex_def SetIndex_def mask8_def go_index_def go_update_def signed_divide_int_def signed_modulo_int_def)
  show ?thesis
    using assms g by (simp add: AddPrevote_def demo_prevote_def NewPrevote_def demo_node_def Verifier_Size_def demo_tp_def
      Prevote_SignBytes_def MustProtoBytes_def demo_verify go_update_def count_prevote_def my_vote_def peers_def matches_proposal_def
      demo_si_def map_get_def go_index_def demo_peer_def demo_proposal_def NewProposal_def)
qed

lemma demo_step4:
  assumes "hd_Height h = 5" "hd_Round h = 0" "MyChainID h = ''a''" "hd_ShardInfo h = demo_si"
    "AllValidatorSet h = AllValidatorSet (demo_node ''a'')" "hd_Proposal h = Ptr (demo_proposal hash)"
    "Precommits h = [Nil_ptr]" "PrecommitsBitVector h = Ptr \<lparr>Bits = 1, Elems = [0]\<rparr>" "PrecommitsTotal h = 0"
  shows "AddPrecommit demo_tp h (demo_precommit hash) = Ret (Nil_ptr, h\<lparr>Precommits := [Ptr (demo_precommit hash)],
    PrecommitsBitVector := Ptr \<lparr>Bits = 1, Elems = [1]\<rparr>, PrecommitsTotal := 1\<rparr>)"
proof -
  have g: "GetIndex (Ptr \<lparr>Bits = 1, Elems = [0]\<rparr>) 0 = Ret False" "SetIndex (Ptr \<lparr>Bits = 1, Elems = [0]\<rparr>) 0 True = Ret (True, Ptr \<lparr>Bits = 1, Elems = [1]\<rparr>)"
    by (simp_all add: GetIndex_def SetIndex_def mask8_def go_index_def go_update_def signed_divide_int_def signed_modulo_int_def)
  show ?thesis
    using assms g by (simp add: AddPrecommit_def demo_precommit_def NewPrecommit_def demo_node_def Verifier_Size_def demo_tp_def
      Precommit_SignBytes_def MustProtoBytes_def demo_verify go_update_def count_precommit_def my_vote_def peers_def matches_proposal_def
      demo_si_def map_get_def go_index_def demo_peer_def demo_proposal_def NewProposal_def)
qed

definition demo_final :: "bytes \<Rightarrow> Block \<Rightarrow> HeightDataPackage" where
  "demo_final hash blk = (demo_node ''a'')\<lparr>hd_Proposal := Ptr (demo_proposal hash),
     CrossShardPartSets := [(''a'', demo_part_set hash (Ptr demo_piece))], CrossShardBlocks := [(''a'', Ptr blk)],
     Prevotes := [Ptr (demo_prevote hash)], PrevotesBitVector := Ptr \<lparr>Bits = 1, Elems = [1]\<rparr>, PrevotesTotal := 1,
     Precommits := [Ptr (demo_precommit hash)], PrecommitsBitVector := Ptr \<lparr>Bits = 1, Elems = [1]\<rparr>, PrecommitsTotal := 1,
     PassStep := RoundStepPrecommit\<rparr>"

lemma demo_run: "\<exists>hash blk. hd_reach demo_tp ''a'' 5 demo_si (demo_final hash blk)"
proof -
  have "\<exists>hash blk. Block_Hash (\<lambda>t. Some [7]) (demo_block\<lparr>blockhash := []\<rparr>) = Ret (hash, blk)"
    using Block_Hash_cases [of "demo_block\<lparr>blockhash := []\<rparr>" "\<lambda>t. Some [7]"] by metis
  then obtain hash blk where hb: "Block_Hash (\<lambda>t. Some [7]) (demo_block\<lparr>blockhash := []\<rparr>) = Ret (hash, blk)" by blast
  let ?r = "hd_reach demo_tp ''a'' 5 demo_si"
  have "?r (demo_node ''a'')" by (rule reach_new) (simp add: demo_new demo_tp_def)
  note r1 = reach_step [OF this step_proposal [OF demo_step1 [of hash]]]
  note r2 = reach_step [OF r1 step_part [OF demo_step2 [OF hb]]]
  have r3: "?r ((demo_node ''a'')\<lparr>hd_Proposal := Ptr (demo_proposal hash),
     CrossShardPartSets := [(''a'', demo_part_set hash (Ptr demo_piece))], CrossShardBlocks := [(''a'', Ptr blk)]\<rparr>)" (is "hd_reach _ _ _ _ ?h3")
    using r2 by (simp add: demo_node_def)
  note r4 = reach_step [OF r3 step_prevote [OF demo_step3 [of _ hash]]]
  have r5: "?r (?h3\<lparr>Prevotes := [Ptr (demo_prevote hash)],
    PrevotesBitVector := Ptr \<lparr>Bits = 1, Elems = [1]\<rparr>, PrevotesTotal := 1\<rparr>)" (is "hd_reach _ _ _ _ ?h5")
    by (rule r4) (simp_all add: demo_node_def)
  have r6: "?r (?h5\<lparr>Precommits := [Ptr (demo_precommit hash)],
    PrecommitsBitVector := Ptr \<lparr>Bits = 1, Elems = [1]\<rparr>, PrecommitsTotal := 1\<rparr>)" (is "hd_reach _ _ _ _ ?h6")
    by (rule reach_step [OF r5 step_precommit [OF demo_step4 [of _ hash]]]) (simp_all add: demo_node_def)
  have "snd (FinishPrecommit ?h6) = demo_final hash blk"
    by (simp add: FinishPrecommit_def FinishPrevote_def FinishProposal_def demo_node_def round_step_defs my_votes_def map_get_def
        signed_divide_int_def demo_final_def)
  moreover have "?r (snd (FinishPrecommit ?h6))" by (rule reach_step [OF r6 step_finish]) simp
  ultimately show ?thesis by metis
qed

section \<open>Properties\<close>

lemma demo_shard_ok: "shard_ok demo_si ''a''"
  by (simp add: shard_ok_def demo_si_def votes_ok_def total_votes_def demo_peer_def)







end
