(* ===== verification/Consensus.thy ===== *)
theory Consensus
  imports HeightSteps Store
begin

text \<open>
  Model of \<open>melete/consensus/main.go\<close>, \<open>sort_shard.go\<close> and \<open>round-step.go\<close>: the consensus state of a
  node, the reaction to a received message, the step transitions of a height (propose, prevote,
  precommit, cross-shard accept or proposal, cross-shard commit) and the move to the next height.
  The state is passed explicitly; messages handed to the network are appended to \<open>outbox\<close> in the
  order of the calls. Log output is not modelled. The mempools and the application are the values of
  the interfaces \<open>MempoolConn\<close> and \<open>ABCIConn\<close>: their operations are fields of \<open>env\<close>, their states
  parts of the consensus state.

  A step may hand control back to \<open>handleStateTransition\<close> (messages kept for the new height are
  processed there), so the transition function takes that call as an argument \<open>rec\<close> and is closed by
  recursion on fuel. A run is \<open>None\<close> when the fuel is used up, \<open>Some Panic\<close> when the code panics.
\<close>

section \<open>Runs\<close>

type_synonym 'a run = "'a go option"

definition run_bind :: "'a run \<Rightarrow> ('a \<Rightarrow> 'b run) \<Rightarrow> 'b run" where
  "run_bind r f = (case r of None \<Rightarrow> None | Some Panic \<Rightarrow> Some Panic | Some (Ret x) \<Rightarrow> f x)"

lemma run_bind_simps [simp]:
  "run_bind None f = None" "run_bind (Some Panic) f = Some Panic" "run_bind (Some (Ret x)) f = f x"
  by (simp_all add: run_bind_def)

lemma run_bind_Ret: "run_bind r f = Some (Ret y) \<longleftrightarrow> (\<exists>x. r = Some (Ret x) \<and> f x = Some (Ret y))"
  by (cases r) (auto simp: run_bind_def split: option.splits)

section \<open>Time\<close>

definition time_ns :: "GoTime \<Rightarrow> int" where
  "time_ns t = sec t * 1000000000 + nsec t"

definition time_Add :: "GoTime \<Rightarrow> int \<Rightarrow> GoTime" where
  "time_Add t d = (let n = time_ns t + d in \<lparr>sec = n div 1000000000, nsec = n mod 1000000000\<rparr>)"

definition time_Before :: "GoTime \<Rightarrow> GoTime \<Rightarrow> bool" where
  "time_Before t u = (time_ns t < time_ns u)"

section \<open>State\<close>

datatype cmsg =
  M_Part Part | M_Proposal Proposal | M_Prevote Prevote | M_Precommit Precommit
| M_CSP CrossShardProposal | M_CSA CrossShardAccept | M_CSC CrossShardCommit

text \<open>
  What the node calls but does not contain: the third-party libraries, the clock (the time read when
  the block of a height is proposed), the mempool and the application. \<open>ReapTx\<close> returns the
  transactions and their number or an error; \<open>PreExecutionC\<close> hashes the block it is given.
\<close>

record ('a, 'm) env =
  e_tp :: thirdparty
  e_receipt_codec :: "pb_Receipt codec"
  e_now :: "int \<Rightarrow> GoTime"
  e_ReapTx :: "'m \<Rightarrow> int \<Rightarrow> unit + Txs \<times> int"
  e_Update :: "'m \<Rightarrow> Txs \<Rightarrow> bytes \<Rightarrow> 'm go"
  e_PreExecutionC :: "'a \<Rightarrow> Block \<Rightarrow> (ABCIPreExecutionResponseC \<times> 'a \<times> Block) go"
  e_PreExecutionI :: "'a \<Rightarrow> Block ptr list \<Rightarrow> (ABCIPreExecutionResponseI \<times> 'a) go"
  e_Execution :: "'a \<Rightarrow> Block ptr list \<Rightarrow> BitVector ptr list \<Rightarrow> Block ptr list \<Rightarrow> (ABCIExecutionResponse \<times> 'a) go"
  e_Commit :: "'a \<Rightarrow> bytes \<times> 'a"

record ('a, 'm) ConsensusState =
  cs_Height :: int
  cs_Round :: int
  cs_Step :: int
  cs_mempool :: 'm
  cross_shard_mempool :: 'm
  cs_abci :: 'a
  cs_store :: kv
  cs_signer :: Signer
  signerIndex :: int
  heightDatas :: HeightDataPackage
  relayMessageChannel :: "int \<rightharpoonup> (int \<rightharpoonup> cmsg list)"
  MinBlockInterval :: int
  LastBlockTime :: GoTime
  MaxPartSize :: int
  maxBlockTxNum :: int
  LastBlockHash :: bytes
  LastChainedHash :: "bytes list"
  LastRelatedCommitStatus :: "bytes list"
  LastCommitStatus :: bytes
  LastReceiptRoot :: bytes
  LastStateRoot :: bytes
  BlockHash :: bytes
  ChainedHash :: "bytes list"
  cs_RelatedCommitStatus :: "bytes list"
  CommitStatus :: bytes
  outbox :: "out_msg list"

definition NewConsensusState ::
  "bls \<Rightarrow> string \<Rightarrow> ShardInfo \<Rightarrow> Signer \<Rightarrow> int \<Rightarrow> 'm \<Rightarrow> 'm \<Rightarrow> 'a \<Rightarrow> kv \<Rightarrow> GoTime \<Rightarrow> int \<Rightarrow> int \<Rightarrow> int
   \<Rightarrow> ('a, 'm) ConsensusState go" where
  "NewConsensusState B chain_id si signer signer_index mempool cross_mempool abci store now minBlockInterval maxPartSize maxTxNum =
     do { h \<leftarrow> NewHeightData B chain_id 0 si;
          e \<leftarrow> HashFromByteSlices [];
          Ret \<lparr>cs_Height = 0, cs_Round = 0, cs_Step = RoundStepNewHeight, cs_mempool = mempool,
               cross_shard_mempool = cross_mempool, cs_abci = abci, cs_store = store, cs_signer = signer,
               signerIndex = signer_index, heightDatas = h, relayMessageChannel = Map.empty,
               MinBlockInterval = minBlockInterval, LastBlockTime = now, MaxPartSize = maxPartSize,
               maxBlockTxNum = maxTxNum, LastBlockHash = e, LastChainedHash = [], LastRelatedCommitStatus = [],
               LastCommitStatus = [], LastReceiptRoot = e, LastStateRoot = [], BlockHash = [], ChainedHash = [],
               cs_RelatedCommitStatus = [], CommitStatus = [], outbox = []\<rparr> }"

definition cs_IsIShard :: "('a, 'm) ConsensusState \<Rightarrow> bool" where
  "cs_IsIShard s = hd_IsIShard (heightDatas s)"

definition cs_IsCShard :: "('a, 'm) ConsensusState \<Rightarrow> bool" where
  "cs_IsCShard s = hd_IsCShard (heightDatas s)"

definition RoundStepString :: "int \<Rightarrow> string" where
  "RoundStepString s =
     (if s = RoundStepNewHeight then ''New-Height'' else if s = RoundStepNewRound then ''NewRound''
      else if s = RoundStepPropose then ''Propose'' else if s = RoundStepPrevote then ''Prevote''
      else if s = RoundStepPrecommit then ''Precommit'' else if s = RoundStepCrossShardAccept then ''CrossShardAccept''
      else if s = RoundStepCrossShardCommit then ''CrossShardCommit'' else ''Unknown'')"

definition ShardIDLess :: "string \<Rightarrow> string \<Rightarrow> bool" where
  "ShardIDLess a b = (a < b)"

text \<open>\<open>sort.Slice\<close> by \<open>ShardIDLess\<close>.\<close>

definition sortShards :: "string list \<Rightarrow> string list" where
  "sortShards shards = sort shards"

text \<open>
  A message for a later height or round is kept. The first one for a height creates the entry but
  falls through to \<open>false\<close>.
\<close>

definition addRelayMessageIfOverTime :: "('a, 'm) ConsensusState \<Rightarrow> int \<Rightarrow> int \<Rightarrow> cmsg \<Rightarrow> bool \<times> ('a, 'm) ConsensusState" where
  "addRelayMessageIfOverTime s height rnd msg =
     (if cs_Height s < height \<or> cs_Height s = height \<and> cs_Round s < rnd then
        case relayMessageChannel s height of
          Some u \<Rightarrow> (True, s\<lparr>relayMessageChannel := (relayMessageChannel s)(height \<mapsto> u(rnd \<mapsto> map_get [] u rnd @ [msg]))\<rparr>)
        | None \<Rightarrow> (False, s\<lparr>relayMessageChannel := (relayMessageChannel s)(height \<mapsto> [rnd \<mapsto> [msg]])\<rparr>)
      else (False, s))"

definition Next :: "('a, 'm) ConsensusState \<Rightarrow> ('a, 'm) ConsensusState" where
  "Next s =
     (if cs_Step s = RoundStepCrossShardCommit then
        s\<lparr>relayMessageChannel := (relayMessageChannel s)(cs_Height s := None), cs_Round := 0,
          cs_Height := cs_Height s + 1, cs_Step := RoundStepNewHeight\<rparr>
      else s\<lparr>cs_Step := cs_Step s + 1\<rparr>)"

section \<open>Sending\<close>

definition SendTo :: "string \<Rightarrow> bytes \<Rightarrow> 32 word \<Rightarrow> ('a, 'm) ConsensusState \<Rightarrow> ('a, 'm) ConsensusState" where
  "SendTo shardID bz messageType s = s\<lparr>outbox := outbox s @ [(shardID, bz, messageType)]\<rparr>"

definition SendInternal :: "bytes \<Rightarrow> 32 word \<Rightarrow> ('a, 'm) ConsensusState \<Rightarrow> ('a, 'm) ConsensusState" where
  "SendInternal bz messageType s = s\<lparr>outbox := outbox s @ [(MyChainID (heightDatas s), bz, messageType)]\<rparr>"

definition SendToRelatedShards :: "bytes \<Rightarrow> 32 word \<Rightarrow> ('a, 'm) ConsensusState \<Rightarrow> ('a, 'm) ConsensusState" where
  "SendToRelatedShards bz messageType s =
     fold (\<lambda>shard. SendTo shard bz messageType) (m_keys (RelatedShards (hd_ShardInfo (heightDatas s)))) s"

definition SendTo2LevelRelatedShards :: "bytes \<Rightarrow> 32 word \<Rightarrow> ('a, 'm) ConsensusState \<Rightarrow> ('a, 'm) ConsensusState" where
  "SendTo2LevelRelatedShards bz messageType s =
     fold (\<lambda>shard. SendTo shard bz messageType) (m_keys (Related2LevelShards (hd_ShardInfo (heightDatas s)))) s"

definition SendToRelatedShardsExcept :: "bytes \<Rightarrow> 32 word \<Rightarrow> string \<Rightarrow> ('a, 'm) ConsensusState \<Rightarrow> ('a, 'm) ConsensusState" where
  "SendToRelatedShardsExcept bz messageType exception s =
     fold (\<lambda>shard s. if shard = exception then s else SendTo shard bz messageType s)
       (m_keys (RelatedShards (hd_ShardInfo (heightDatas s)))) s"

section \<open>Stored blocks\<close>

text \<open>
  \<open>cs.heightDatas.CrossShardBlocks[shard]\<close>: a missing block is a nil pointer, whose use panics.
  Hashing a block updates it in place.
\<close>

definition block_at :: "('a, 'm) ConsensusState \<Rightarrow> string \<Rightarrow> Block ptr" where
  "block_at s shard = (case m_get (CrossShardBlocks (heightDatas s)) shard of None \<Rightarrow> Nil_ptr | Some b \<Rightarrow> b)"

definition need_block :: "('a, 'm) ConsensusState \<Rightarrow> string \<Rightarrow> Block go" where
  "need_block s shard = (case block_at s shard of Nil_ptr \<Rightarrow> Panic | Ptr b \<Rightarrow> Ret b)"

definition put_block_at :: "string \<Rightarrow> Block \<Rightarrow> ('a, 'm) ConsensusState \<Rightarrow> ('a, 'm) ConsensusState" where
  "put_block_at shard b s =
     s\<lparr>heightDatas := (heightDatas s)\<lparr>CrossShardBlocks := m_put shard (Ptr b) (CrossShardBlocks (heightDatas s))\<rparr>\<rparr>"

definition hash_block_at :: "('a, 'm) env \<Rightarrow> ('a, 'm) ConsensusState \<Rightarrow> string \<Rightarrow> (bytes \<times> ('a, 'm) ConsensusState) go" where
  "hash_block_at E s shard =
     do { b \<leftarrow> need_block s shard;
          (hs, b') \<leftarrow> Block_Hash (tp_time (e_tp E)) b;
          Ret (hs, put_block_at shard b' s) }"

section \<open>Proposer\<close>

definition calculateProposer :: "('a, 'm) ConsensusState \<Rightarrow> int go" where
  "calculateProposer s =
     do { n \<leftarrow> validator_size (heightDatas s) (MyChainID (heightDatas s));
          if n = 0 then Panic else Ret ((cs_Height s + cs_Round s) smod n) }"

definition isProposer :: "('a, 'm) ConsensusState \<Rightarrow> bool go" where
  "isProposer s = do { p \<leftarrow> calculateProposer s; Ret (p = signerIndex s) }"

text \<open>The transactions of the new block.\<close>

definition reap_block :: "('a, 'm) env \<Rightarrow> ('a, 'm) ConsensusState \<Rightarrow> (Txs \<times> Txs) go" where
  "reap_block E s =
     (if cs_IsCShard s then
        case e_ReapTx E (cs_mempool s) (maxBlockTxNum s sdiv 2) of
          Inl _ \<Rightarrow> Panic
        | Inr (innerTxs, innerTxsSize) \<Rightarrow>
            (case e_ReapTx E (cross_shard_mempool s) (maxBlockTxNum s - innerTxsSize) of
               Inl _ \<Rightarrow> Panic
             | Inr (crossShardTxs, _) \<Rightarrow> Ret (innerTxs, crossShardTxs))
      else
        case e_ReapTx E (cs_mempool s) (maxBlockTxNum s) of
          Inl _ \<Rightarrow> Panic
        | Inr (innerTxs, _) \<Rightarrow> Ret (innerTxs, []))"

definition new_block :: "('a, 'm) env \<Rightarrow> ('a, 'm) ConsensusState \<Rightarrow> Txs \<Rightarrow> Txs \<Rightarrow> Block" where
  "new_block E s innerTxs crossShardTxs =
     (let interval_dst = time_Add (LastBlockTime s) (MinBlockInterval s);
          t = e_now E (cs_Height s)
      in \<lparr>b_Header = \<lparr>BlockType = (if cs_IsCShard s then BLOCKTYPE_C else BLOCKTYPE_I), HashPointer = LastBlockHash s,
             ChainID = MyChainID (heightDatas s), Height = cs_Height s,
             Time = (if time_Before t interval_dst then interval_dst else t), BodyRoot = [], CrossShardBodyRoot = [],
             StateRoot = LastStateRoot s, ReceiptRoot = LastReceiptRoot s, RelationRoot = []\<rparr>,
          b_Body = \<lparr>BodyTxs = innerTxs\<rparr>, b_CrossShardBody = \<lparr>CrossShardTxs = crossShardTxs, CrossShardDatas = []\<rparr>,
          b_Relation = \<lparr>RelatedCommitStatus = LastRelatedCommitStatus s, RelatedHash = LastChainedHash s,
             MyCommitStatus = LastCommitStatus s\<rparr>, blockhash = []\<rparr>)"

fun send_parts_internal :: "('a, 'm) env \<Rightarrow> Part ptr list \<Rightarrow> ('a, 'm) ConsensusState \<Rightarrow> ('a, 'm) ConsensusState go" where
  "send_parts_internal E [] s = Ret s"
| "send_parts_internal E (q # qs) s =
     (case q of
        Nil_ptr \<Rightarrow> Panic
      | Ptr p \<Rightarrow> do { bz \<leftarrow> Part_ProtoBytes (part_codec (tp_codecs (e_tp E))) p;
                       send_parts_internal E qs (SendInternal bz MsgPart s) })"

text \<open>
  The block, its part set and the signed proposal are stored before they are sent. The sending
  goroutine first sleeps until the block interval has passed; here its messages are in the outbox at once.
\<close>

definition propose_block :: "('a, 'm) env \<Rightarrow> Block \<Rightarrow> PartSet \<Rightarrow> ('a, 'm) ConsensusState \<Rightarrow> ('a, 'm) ConsensusState go" where
  "propose_block E block part_set s =
     (let c = tp_codecs (e_tp E); my = MyChainID (heightDatas s);
          proposal = NewProposal (ps_Header part_set) (signerIndex s) (ps_BlockHeaderHash part_set)
      in do { sig \<leftarrow> SignType (tp_bls (e_tp E)) (cs_signer s) (Proposal_SignBytes (proposal_codec c) proposal);
              let proposal' = proposal\<lparr>p_Signature := sig\<rparr>; h = heightDatas s;
                  s' = s\<lparr>heightDatas := h\<lparr>CrossShardBlocks := m_put my (Ptr block) (CrossShardBlocks h),
                                          CrossShardPartSets := m_put my part_set (CrossShardPartSets h),
                                          hd_Proposal := Ptr proposal'\<rparr>\<rparr>
              in do { bz \<leftarrow> Proposal_ProtoBytes (proposal_codec c) proposal';
                      send_parts_internal E (Parts part_set) (SendInternal bz MsgTendermintProposal s') } })"

text \<open>The block of a new height; at a boundary shard with the data of its cross-shard transactions.\<close>

definition make_block :: "('a, 'm) env \<Rightarrow> ('a, 'm) ConsensusState \<Rightarrow> (Block \<times> ('a, 'm) ConsensusState) go" where
  "make_block E s =
     do { (innerTxs, crossShardTxs) \<leftarrow> reap_block E s;
          let block = new_block E s innerTxs crossShardTxs
          in if cs_IsCShard s then
               do { (resp, a, block') \<leftarrow> e_PreExecutionC E (cs_abci s) block;
                    Ret (block'\<lparr>b_CrossShardBody := (b_CrossShardBody block')\<lparr>CrossShardDatas := pc_CrossShardDatas resp\<rparr>\<rparr>,
                         s\<lparr>cs_abci := a\<rparr>) }
             else Ret (block, s) }"

definition createBlockAndBroadcast :: "('a, 'm) env \<Rightarrow> ('a, 'm) ConsensusState \<Rightarrow> ('a, 'm) ConsensusState run" where
  "createBlockAndBroadcast E s =
     run_bind (Some (make_block E s))
       (\<lambda>(block, s1).
          run_bind (PartSetFromBlock (tp_time (e_tp E)) (block_codec (tp_codecs (e_tp E))) block (MaxPartSize s1) (cs_Round s1))
            (\<lambda>(part_set, block'). Some (propose_block E block' part_set s1)))"

section \<open>Steps\<close>

text \<open>The proposal is complete: check the block and prevote for it.\<close>

definition check_proposal :: "('a, 'm) env \<Rightarrow> ('a, 'm) ConsensusState \<Rightarrow> ('a, 'm) ConsensusState go" where
  "check_proposal E s =
     (let my = MyChainID (heightDatas s)
      in do { proposalBlock \<leftarrow> need_block s my;
              proposer \<leftarrow> (if cs_IsCShard s then calculateProposer s else Ret (signerIndex s));
              s1 \<leftarrow> (if cs_IsCShard s \<and> proposer \<noteq> signerIndex s then
                        do { (resp, a, b') \<leftarrow> e_PreExecutionC E (cs_abci s) proposalBlock;
                             if pc_Code resp \<noteq> CodeTypeOK \<or>
                                \<not> CompareBytesList (pc_CrossShardDatas resp) (CrossShardDatas (b_CrossShardBody b')) then Panic
                             else Ret (put_block_at my b' (s\<lparr>cs_abci := a\<rparr>)) }
                      else Ret s);
              b \<leftarrow> need_block s1 my;
              if LastReceiptRoot s \<noteq> ReceiptRoot (b_Header b) then Panic
              else if LastStateRoot s \<noteq> StateRoot (b_Header b) then Panic
              else Ret s1 })"

definition doPropose :: "('a, 'm) env \<Rightarrow> ('a, 'm) ConsensusState \<Rightarrow> ('a, 'm) ConsensusState go" where
  "doPropose E s =
     (let my = MyChainID (heightDatas s); c = prevote_codec (tp_codecs (e_tp E))
      in do { s1 \<leftarrow> check_proposal E s;
              (hs, s2) \<leftarrow> hash_block_at E s1 my;
              let s3 = s2\<lparr>BlockHash := hs\<rparr>; vote = NewPrevote (cs_Height s3) (cs_Round s3) hs (signerIndex s3)
              in do { sig \<leftarrow> SignType (tp_bls (e_tp E)) (cs_signer s3) (Prevote_SignBytes c vote);
                      let vote' = vote\<lparr>pv_Signature := sig\<rparr>
                      in do { (_, h) \<leftarrow> AddPrevote (e_tp E) (heightDatas s3) vote';
                              bz \<leftarrow> Prevote_ProtoBytes c vote';
                              Ret (Next (SendInternal bz MsgTendermintPrevote (s3\<lparr>heightDatas := h\<rparr>))) } } })"

definition doPrevote :: "('a, 'm) env \<Rightarrow> ('a, 'm) ConsensusState \<Rightarrow> ('a, 'm) ConsensusState go" where
  "doPrevote E s =
     (let c = precommit_codec (tp_codecs (e_tp E)); vote = NewPrecommit (cs_Height s) (cs_Round s) (BlockHash s) (signerIndex s)
      in do { sig \<leftarrow> SignType (tp_bls (e_tp E)) (cs_signer s) (Precommit_SignBytes c vote);
              let vote' = vote\<lparr>pc_Signature := sig\<rparr>
              in do { (_, h) \<leftarrow> AddPrecommit (e_tp E) (heightDatas s) vote';
                      bz \<leftarrow> Precommit_ProtoBytes c vote';
                      Ret (Next (SendInternal bz MsgTendermintPrecommit (s\<lparr>heightDatas := h\<rparr>))) } })"

fun part_messages :: "pb_Part codec \<Rightarrow> Part ptr list \<Rightarrow> bytes list go" where
  "part_messages c [] = Ret []"
| "part_messages c (q # qs) =
     (case q of Nil_ptr \<Rightarrow> Panic | Ptr p \<Rightarrow> do { bz \<leftarrow> Part_ProtoBytes c p; rest \<leftarrow> part_messages c qs; Ret (bz # rest) })"

definition put_own_proposal :: "CrossShardProposal \<Rightarrow> ('a, 'm) ConsensusState \<Rightarrow> ('a, 'm) ConsensusState" where
  "put_own_proposal proposal s =
     (let h = heightDatas s
      in s\<lparr>heightDatas := h\<lparr>CrossShardProposals := m_put (MyChainID h) proposal (CrossShardProposals h)\<rparr>\<rparr>)"

text \<open>The block a boundary shard sends to its neighbours: without the inner transactions.\<close>

definition outer_block :: "Block \<Rightarrow> Block" where
  "outer_block b = b\<lparr>b_Body := \<lparr>BodyTxs = []\<rparr>, blockhash := []\<rparr>"

text \<open>The inner shard's cross-shard proposal, sent by the proposer; the flag says whether to go on with the parts.\<close>

definition inner_proposal :: "('a, 'm) env \<Rightarrow> ('a, 'm) ConsensusState \<Rightarrow> (bool \<times> ('a, 'm) ConsensusState) go" where
  "inner_proposal E s =
     do { agg \<leftarrow> GenerateAggregatePrecommitSignature (e_tp E) (heightDatas s);
          let proposal = NewCrossShardProposal agg ShardTypeI; s1 = put_own_proposal proposal s
          in do { p \<leftarrow> isProposer s1;
                  if p then do { bz \<leftarrow> CrossShardProposal_ProtoBytes (csp_codec (tp_codecs (e_tp E))) proposal;
                                 Ret (True, SendToRelatedShards bz MsgTendermintCrossShardProposal s1) }
                  else Ret (False, s1) } }"

text \<open>The node's own part set, made anew when it is not stored.\<close>

definition own_part_set :: "('a, 'm) env \<Rightarrow> ('a, 'm) ConsensusState \<Rightarrow> (PartSet \<times> ('a, 'm) ConsensusState) run" where
  "own_part_set E s =
     (let my = MyChainID (heightDatas s)
      in case m_get (CrossShardPartSets (heightDatas s)) my of
           Some ps \<Rightarrow> Some (Ret (ps, s))
         | None \<Rightarrow>
             run_bind (Some (need_block s my))
               (\<lambda>b. run_bind (PartSetFromBlock (tp_time (e_tp E)) (block_codec (tp_codecs (e_tp E))) b (MaxPartSize s) (cs_Round s))
                  (\<lambda>(ps, b'). Some (Ret (ps, put_block_at my b' s)))))"

definition doPrecommit_I :: "('a, 'm) env \<Rightarrow> ('a, 'm) ConsensusState \<Rightarrow> ('a, 'm) ConsensusState run" where
  "doPrecommit_I E s =
     run_bind (Some (inner_proposal E s))
       (\<lambda>(p, s2).
          if \<not> p then Some (Ret (Next s2))
          else run_bind (own_part_set E s2)
                 (\<lambda>(ps, s3). Some (do { bzs \<leftarrow> part_messages (part_codec (tp_codecs (e_tp E))) (Parts ps);
                                        Ret (Next (fold (\<lambda>bz. SendToRelatedShards bz MsgPart) bzs s3)) })))"

definition doPrecommit_C :: "('a, 'm) env \<Rightarrow> ('a, 'm) ConsensusState \<Rightarrow> ('a, 'm) ConsensusState run" where
  "doPrecommit_C E s =
     (let tp = e_tp E; c = tp_codecs tp; my = MyChainID (heightDatas s)
      in run_bind (Some (need_block s my))
           (\<lambda>b. run_bind (PartSetFromBlock (tp_time tp) (block_codec c) (outer_block b) (MaxPartSize s) (cs_Round s))
              (\<lambda>(part_set, _). Some
                 (do { agg \<leftarrow> GenerateAggregatePrecommitSignature tp (heightDatas s);
                       let proposal = NewCrossShardProposal (agg\<lparr>pa_Header := ps_Header part_set\<rparr>) ShardTypeC;
                           s1 = put_own_proposal proposal s
                       in do { p \<leftarrow> isProposer s1;
                               if p then
                                 do { bz \<leftarrow> CrossShardProposal_ProtoBytes (csp_codec c) proposal;
                                      bzs \<leftarrow> part_messages (part_codec c) (Parts part_set);
                                      Ret (Next (fold (\<lambda>pbz s. SendTo2LevelRelatedShards pbz MsgPart (SendToRelatedShards pbz MsgPart s)) bzs
                                        (SendTo2LevelRelatedShards bz MsgTendermintCrossShardProposal
                                          (SendToRelatedShards bz MsgTendermintCrossShardProposal s1)))) }
                               else Ret (Next s1) } }))))"

definition doPrecommit :: "('a, 'm) env \<Rightarrow> ('a, 'm) ConsensusState \<Rightarrow> ('a, 'm) ConsensusState run" where
  "doPrecommit E s = (if cs_IsIShard s then doPrecommit_I E s else doPrecommit_C E s)"

text \<open>One accept of \<open>doCSA\<close>, signed and sent to the shard that proposed the block.\<close>

fun send_accepts ::
  "('a, 'm) env \<Rightarrow> bytes list \<Rightarrow> int \<Rightarrow> string list \<Rightarrow> ('a, 'm) ConsensusState \<Rightarrow> ('a, 'm) ConsensusState go" where
  "send_accepts E votes i [] s = Ret s"
| "send_accepts E votes i (shard # shards) s =
     (let c = csa_codec (tp_codecs (e_tp E))
      in do { (hs, s1) \<leftarrow> hash_block_at E s shard;
              st \<leftarrow> go_index votes i;
              let csa = NewCrossShardAccept shard (MyChainID (heightDatas s1)) (cs_Height s1) hs st (signerIndex s1)
              in do { sig \<leftarrow> SignType (tp_bls (e_tp E)) (cs_signer s1) (CrossShardAccept_SignBytes c csa);
                      bz \<leftarrow> CrossShardAccept_ProtoBytes c (csa\<lparr>csa_Signature := sig\<rparr>);
                      send_accepts E votes (i + 1) shards (SendTo shard bz MsgTendermintCrossShardAccept s1) } })"

definition doCSA :: "('a, 'm) env \<Rightarrow> ('a, 'm) ConsensusState \<Rightarrow> ('a, 'm) ConsensusState go" where
  "doCSA E s =
     (let relatedShards = sortShards (m_keys (RelatedShards (hd_ShardInfo (heightDatas s))))
      in do { (resp, a) \<leftarrow> e_PreExecutionI E (cs_abci s) (map (block_at s) relatedShards);
              s' \<leftarrow> send_accepts E (CommitStatusVote resp) 0 relatedShards (s\<lparr>cs_abci := a\<rparr>);
              Ret (Next s') })"

definition doCSP :: "('a, 'm) env \<Rightarrow> ('a, 'm) ConsensusState \<Rightarrow> ('a, 'm) ConsensusState go" where
  "doCSP E s =
     (let h = heightDatas s
      in do { csc \<leftarrow> GenerateCrossShardCommit (e_tp E) h;
              let s1 = s\<lparr>heightDatas := h\<lparr>CrossShardCommits := m_put (MyChainID h) csc (CrossShardCommits h)\<rparr>\<rparr>
              in do { p \<leftarrow> isProposer s1;
                      if p then do { bz \<leftarrow> CrossShardCommit_ProtoBytes (csc_codec (tp_codecs (e_tp E))) csc;
                                     Ret (Next (SendToRelatedShards bz MsgTendermintCrossShardCommit s1)) }
                      else Ret (Next s1) } })"

section \<open>Execution of a height\<close>

text \<open>The conjunction of the commit statuses a shard's neighbours voted for.\<close>

fun total_status :: "bytes list \<Rightarrow> BitVector ptr \<Rightarrow> BitVector ptr go" where
  "total_status [] t = Ret t"
| "total_status (st # sts) t =
     do { v \<leftarrow> NewBitArrayFromByte st;
          if is_nil t then total_status sts v else do { t' \<leftarrow> And t v; total_status sts t' } }"

fun commit_statuses :: "('a, 'm) ConsensusState \<Rightarrow> string list \<Rightarrow> BitVector ptr list go" where
  "commit_statuses s [] = Ret []"
| "commit_statuses s (shard # shards) =
     (case m_get (CrossShardCommits (heightDatas s)) shard of
        None \<Rightarrow> Panic
      | Some csc \<Rightarrow> do { t \<leftarrow> total_status (CommitStatusList csc) Nil_ptr;
                         rest \<leftarrow> commit_statuses s shards;
                         Ret (t # rest) })"

definition executionAllBlocks ::
  "('a, 'm) env \<Rightarrow> ('a, 'm) ConsensusState \<Rightarrow> string list \<Rightarrow> string list
   \<Rightarrow> (ABCIExecutionResponse \<times> bytes list \<times> ('a, 'm) ConsensusState) go" where
  "executionAllBlocks E s c_neighbours i_neighbours =
     do { commitStatuses \<leftarrow> commit_statuses s c_neighbours;
          (resp, a) \<leftarrow> e_Execution E (cs_abci s) (map (block_at s) c_neighbours) commitStatuses (map (block_at s) i_neighbours);
          Ret (resp, map Byte commitStatuses, s\<lparr>cs_abci := a\<rparr>) }"

fun receipt_bytes :: "pb_Receipt codec \<Rightarrow> ABCIExecutionReceipt ptr list \<Rightarrow> bytes list go" where
  "receipt_bytes c [] = Ret []"
| "receipt_bytes c (r # rs) =
     (case r of Nil_ptr \<Rightarrow> Panic
      | Ptr x \<Rightarrow> do { bz \<leftarrow> MustProtoBytes c (Receipt_ToProto x); rest \<leftarrow> receipt_bytes c rs; Ret (bz # rest) })"

definition set_roots :: "('a, 'm) env \<Rightarrow> ABCIExecutionReceipt ptr list \<Rightarrow> ('a, 'm) ConsensusState \<Rightarrow> ('a, 'm) ConsensusState go" where
  "set_roots E receipts s =
     do { receiptTree \<leftarrow> receipt_bytes (e_receipt_codec E) receipts;
          (rt, _) \<leftarrow> ProofsFromByteSlices receiptTree;
          let (st, a) = e_Commit E (cs_abci s)
          in Ret (s\<lparr>LastReceiptRoot := rt, LastStateRoot := st, cs_abci := a\<rparr>) }"

text \<open>\<open>cs.store.SetBlockByHeight\<close> for the block of a shard; the returned error is dropped.\<close>

definition store_block :: "('a, 'm) env \<Rightarrow> int \<Rightarrow> string \<Rightarrow> string \<Rightarrow> ('a, 'm) ConsensusState \<Rightarrow> ('a, 'm) ConsensusState go" where
  "store_block E height chain shard s =
     do { b \<leftarrow> need_block s shard;
          (_, p, b') \<leftarrow> SetBlockByHeight (tp_time (e_tp E)) (block_codec (tp_codecs (e_tp E))) (cs_store s) height chain b;
          Ret (put_block_at shard b' (s\<lparr>cs_store := p\<rparr>)) }"

fun store_blocks :: "('a, 'm) env \<Rightarrow> string list \<Rightarrow> ('a, 'm) ConsensusState \<Rightarrow> ('a, 'm) ConsensusState go" where
  "store_blocks E [] s = Ret s"
| "store_blocks E (shard # shards) s =
     do { b \<leftarrow> need_block s shard;
          s' \<leftarrow> store_block E (Height (b_Header b)) (ChainID (b_Header b)) shard s;
          store_blocks E shards s' }"

text \<open>Collecting the hashes and statuses of the neighbouring boundary shards, in the order of the list.\<close>

fun chain_C ::
  "('a, 'm) env \<Rightarrow> bytes list \<Rightarrow> int \<Rightarrow> string list \<Rightarrow> ('a, 'm) ConsensusState \<Rightarrow> ('a, 'm) ConsensusState go" where
  "chain_C E commitStatus i [] s = Ret s"
| "chain_C E commitStatus i (cshard # shards) s =
     (if cshard = MyChainID (heightDatas s) then
        do { st \<leftarrow> go_index commitStatus i;
             (hs, s1) \<leftarrow> hash_block_at E s cshard;
             b \<leftarrow> need_block s1 cshard;
             chain_C E commitStatus (i + 1) shards
               (s1\<lparr>CommitStatus := st, BlockHash := hs, LastBlockTime := Time (b_Header b)\<rparr>) }
      else
        do { st \<leftarrow> go_index commitStatus i;
             (hs, s1) \<leftarrow> hash_block_at E s cshard;
             chain_C E commitStatus (i + 1) shards
               (s1\<lparr>cs_RelatedCommitStatus := cs_RelatedCommitStatus s1 @ [st], ChainedHash := ChainedHash s1 @ [hs]\<rparr>) })"

fun chain_I :: "('a, 'm) env \<Rightarrow> string list \<Rightarrow> ('a, 'm) ConsensusState \<Rightarrow> ('a, 'm) ConsensusState go" where
  "chain_I E [] s = Ret s"
| "chain_I E (ishard # shards) s =
     (if ishard \<noteq> MyChainID (heightDatas s) then
        do { (hs, s1) \<leftarrow> hash_block_at E s ishard; chain_I E shards (s1\<lparr>ChainedHash := ChainedHash s1 @ [hs]\<rparr>) }
      else chain_I E shards s)"

definition update_mempool :: "('a, 'm) env \<Rightarrow> ('a, 'm) ConsensusState \<Rightarrow> ('a, 'm) ConsensusState go" where
  "update_mempool E s =
     do { b \<leftarrow> need_block s (MyChainID (heightDatas s));
          m \<leftarrow> e_Update E (cs_mempool s) (BodyTxs (b_Body b)) [];
          Ret (s\<lparr>cs_mempool := m\<rparr>) }"

definition update_cross_shard_mempool :: "('a, 'm) env \<Rightarrow> ('a, 'm) ConsensusState \<Rightarrow> ('a, 'm) ConsensusState go" where
  "update_cross_shard_mempool E s =
     do { b \<leftarrow> need_block s (MyChainID (heightDatas s));
          m \<leftarrow> e_Update E (cross_shard_mempool s) (CrossShardTxs (b_CrossShardBody b)) (CommitStatus s);
          Ret (s\<lparr>cross_shard_mempool := m\<rparr>) }"

text \<open>
  \<open>doCSC_C\<close> up to the call of \<open>enterNewHeight\<close>. The order of \<open>i_neighbours\<close> is the iteration order of
  the map of related shards. The last decoding only serves the log, but may panic.
\<close>

definition finish_CSC_C :: "('a, 'm) env \<Rightarrow> ('a, 'm) ConsensusState \<Rightarrow> ('a, 'm) ConsensusState go" where
  "finish_CSC_C E s =
     (let my = MyChainID (heightDatas s); si = hd_ShardInfo (heightDatas s);
          c_neighbours = sortShards (my # m_keys (Related2LevelShards si));
          i_neighbours = my # m_keys (RelatedShards si)
      in do { (resp, commitStatus, s1) \<leftarrow> executionAllBlocks E s c_neighbours i_neighbours;
              s2 \<leftarrow> chain_C E commitStatus 0 c_neighbours (s1\<lparr>ChainedHash := [], cs_RelatedCommitStatus := []\<rparr>);
              s3 \<leftarrow> chain_I E i_neighbours s2;
              s4 \<leftarrow> set_roots E (map_get [] (CrossShardResps resp) my @ map_get [] (InnerShardResps resp) my) s3;
              s5 \<leftarrow> store_blocks E c_neighbours s4;
              s6 \<leftarrow> store_blocks E i_neighbours s5;
              s7 \<leftarrow> update_mempool E s6;
              s8 \<leftarrow> update_cross_shard_mempool E s7;
              _ \<leftarrow> NewBitArrayFromByte (CommitStatus s8);
              Ret s8 })"

fun chain_inner ::
  "('a, 'm) env \<Rightarrow> bytes list \<Rightarrow> int \<Rightarrow> string list \<Rightarrow> ('a, 'm) ConsensusState \<Rightarrow> ('a, 'm) ConsensusState go" where
  "chain_inner E commitStatus i [] s = Ret s"
| "chain_inner E commitStatus i (cshard # shards) s =
     do { st \<leftarrow> go_index commitStatus i;
          (hs, s1) \<leftarrow> hash_block_at E s cshard;
          chain_inner E commitStatus (i + 1) shards
            (s1\<lparr>cs_RelatedCommitStatus := cs_RelatedCommitStatus s1 @ [st], ChainedHash := ChainedHash s1 @ [hs]\<rparr>) }"

text \<open>\<open>doCSC_I\<close> up to the call of \<open>enterNewHeight\<close>.\<close>

definition finish_CSC_I :: "('a, 'm) env \<Rightarrow> ('a, 'm) ConsensusState \<Rightarrow> ('a, 'm) ConsensusState go" where
  "finish_CSC_I E s =
     (let my = MyChainID (heightDatas s);
          c_neighbours = sortShards (m_keys (RelatedShards (hd_ShardInfo (heightDatas s))))
      in do { (resp, commitStatus, s1) \<leftarrow> executionAllBlocks E s c_neighbours [my];
              s2 \<leftarrow> chain_inner E commitStatus 0 c_neighbours (s1\<lparr>ChainedHash := [], cs_RelatedCommitStatus := []\<rparr>);
              (hs, s3) \<leftarrow> hash_block_at E (s2\<lparr>CommitStatus := []\<rparr>) my;
              b \<leftarrow> need_block s3 my;
              s4 \<leftarrow> set_roots E (map_get [] (InnerShardResps resp) my) (s3\<lparr>BlockHash := hs, LastBlockTime := Time (b_Header b)\<rparr>);
              s5 \<leftarrow> store_block E (cs_Height s4) my my s4;
              s6 \<leftarrow> store_blocks E c_neighbours s5;
              update_mempool E s6 })"

section \<open>Transitions\<close>

text \<open>The height data part of \<open>doMessage\<close>; an inner shard's forwarded commits go to the outbox.\<close>

definition add_message ::
  "('a, 'm) env \<Rightarrow> cmsg \<Rightarrow> ('a, 'm) ConsensusState \<Rightarrow> (HDError ptr \<times> ('a, 'm) ConsensusState) go" where
  "add_message E m s =
     (let tp = e_tp E; h = heightDatas s; ret = (\<lambda>(e, h'). Ret (e, s\<lparr>heightDatas := h'\<rparr>))
      in case m of
           M_Part p \<Rightarrow> hd_AddPart tp h p \<bind> ret
         | M_Proposal p \<Rightarrow> do { i \<leftarrow> calculateProposer s; AddProposal tp h p i \<bind> ret }
         | M_Prevote p \<Rightarrow> AddPrevote tp h p \<bind> ret
         | M_Precommit p \<Rightarrow> AddPrecommit tp h p \<bind> ret
         | M_CSP p \<Rightarrow> AddCrossShardProposal tp h p \<bind> ret
         | M_CSA a \<Rightarrow> AddCrossShardAccept tp h a \<bind> ret
         | M_CSC c \<Rightarrow> do { (e, h', out) \<leftarrow> AddCrossShardCommit tp h c;
                            Ret (e, s\<lparr>heightDatas := h', outbox := outbox s @ out\<rparr>) })"

fun msg_height :: "cmsg \<Rightarrow> int" where
  "msg_height (M_Part p) = pt_Height p"
| "msg_height (M_Proposal p) = psh_Height (p_Header p)"
| "msg_height (M_Prevote p) = pv_Height p"
| "msg_height (M_Precommit p) = pc_Height p"
| "msg_height (M_CSP p) = psh_Height (pa_Header (csp_AggregatedSignatures p))"
| "msg_height (M_CSA a) = csa_Height a"
| "msg_height (M_CSC c) = csc_Height c"

text \<open>The round \<open>doMessage\<close> passes to \<open>addRelayMessageIfOverTime\<close>.\<close>

fun msg_round :: "cmsg \<Rightarrow> int" where
  "msg_round (M_Part p) = pt_Round p"
| "msg_round (M_Proposal p) = psh_Round (p_Header p)"
| "msg_round (M_Prevote p) = pv_Round p"
| "msg_round (M_Precommit p) = pc_Round p"
| "msg_round _ = 0"

definition doMessage ::
  "('a, 'm) env \<Rightarrow> (('a, 'm) ConsensusState \<Rightarrow> ('a, 'm) ConsensusState run) \<Rightarrow> cmsg \<Rightarrow> ('a, 'm) ConsensusState
   \<Rightarrow> (HDError ptr \<times> ('a, 'm) ConsensusState) run" where
  "doMessage E rec m s =
     (case addRelayMessageIfOverTime s (msg_height m) (msg_round m) m of
        (True, s1) \<Rightarrow> Some (Ret (Nil_ptr, s1))
      | (False, s1) \<Rightarrow>
          run_bind (Some (add_message E m s1))
            (\<lambda>(e, s2). case e of
               Ptr DoNothing \<Rightarrow> Some (Ret (Nil_ptr, s2))
             | Ptr err \<Rightarrow> Some (Ret (Ptr err, s2))
             | Nil_ptr \<Rightarrow> run_bind (rec s2) (\<lambda>s3. Some (Ret (Nil_ptr, s3)))))"

fun relay_messages ::
  "('a, 'm) env \<Rightarrow> (('a, 'm) ConsensusState \<Rightarrow> ('a, 'm) ConsensusState run) \<Rightarrow> cmsg list \<Rightarrow> ('a, 'm) ConsensusState
   \<Rightarrow> ('a, 'm) ConsensusState run" where
  "relay_messages E rec [] s = Some (Ret s)"
| "relay_messages E rec (m # ms) s = run_bind (doMessage E rec m s) (\<lambda>(_, s'). relay_messages E rec ms s')"

definition enterNewRound ::
  "('a, 'm) env \<Rightarrow> (('a, 'm) ConsensusState \<Rightarrow> ('a, 'm) ConsensusState run) \<Rightarrow> ('a, 'm) ConsensusState
   \<Rightarrow> ('a, 'm) ConsensusState run" where
  "enterNewRound E rec s =
     (let s0 = s\<lparr>cs_Step := RoundStepPropose\<rparr>
      in run_bind (Some (isProposer s0))
           (\<lambda>p. run_bind (if p then createBlockAndBroadcast E s0 else Some (Ret s0))
              (\<lambda>s1. case relayMessageChannel s1 (cs_Height s1) of
                 None \<Rightarrow> Some (Ret s1)
               | Some relay_height \<Rightarrow>
                   (case relay_height (cs_Round s1) of
                      None \<Rightarrow> Some (Ret s1)
                    | Some relayRound \<Rightarrow> relay_messages E rec relayRound s1))))"

text \<open>The part of \<open>enterNewHeight\<close> before \<open>enterNewRound\<close>.\<close>

definition reset_height :: "('a, 'm) ConsensusState \<Rightarrow> ('a, 'm) ConsensusState go" where
  "reset_height s =
     (let s1 = Next (s\<lparr>cs_Step := RoundStepCrossShardCommit\<rparr>);
          s2 = s1\<lparr>LastBlockHash := BlockHash s1, LastChainedHash := ChainedHash s1, LastCommitStatus := CommitStatus s1,
                  LastRelatedCommitStatus := cs_RelatedCommitStatus s1\<rparr>
      in do { h \<leftarrow> NextHeight (heightDatas s2); Ret (s2\<lparr>heightDatas := h\<rparr>) })"

definition enterNewHeight ::
  "('a, 'm) env \<Rightarrow> (('a, 'm) ConsensusState \<Rightarrow> ('a, 'm) ConsensusState run) \<Rightarrow> ('a, 'm) ConsensusState
   \<Rightarrow> ('a, 'm) ConsensusState run" where
  "enterNewHeight E rec s = run_bind (Some (reset_height s)) (enterNewRound E rec)"

text \<open>
  One round of \<open>handleStateTransition\<close>: \<open>rec\<close> is its recursive call. A step outside the five cases of
  the switch goes straight to the recursive call.
\<close>

definition transition ::
  "('a, 'm) env \<Rightarrow> (('a, 'm) ConsensusState \<Rightarrow> ('a, 'm) ConsensusState run) \<Rightarrow> ('a, 'm) ConsensusState
   \<Rightarrow> ('a, 'm) ConsensusState run" where
  "transition E rec s =
     (let test = (\<lambda>(ok, h). (ok, s\<lparr>heightDatas := h\<rparr>)); h = heightDatas s
      in if cs_Step s = RoundStepPropose then
           (case test (FinishProposal h) of (True, s1) \<Rightarrow> run_bind (Some (doPropose E s1)) rec | (False, s1) \<Rightarrow> Some (Ret s1))
         else if cs_Step s = RoundStepPrevote then
           (case test (FinishPrevote h) of (True, s1) \<Rightarrow> run_bind (Some (doPrevote E s1)) rec | (False, s1) \<Rightarrow> Some (Ret s1))
         else if cs_Step s = RoundStepPrecommit then
           (case test (FinishPrecommit h) of (True, s1) \<Rightarrow> run_bind (doPrecommit E s1) rec | (False, s1) \<Rightarrow> Some (Ret s1))
         else if cs_Step s = RoundStepCrossShardAccept then
           (case (if cs_IsIShard s then test (FinishCrossShardAccept h) else (False, s)) of
              (True, s1) \<Rightarrow> run_bind (Some (doCSA E s1)) rec
            | (False, s1) \<Rightarrow>
                (case (if cs_IsCShard s1 then (case FinishCrossShardProposal (heightDatas s1) of (ok, h') \<Rightarrow> (ok, s1\<lparr>heightDatas := h'\<rparr>))
                       else (False, s1)) of
                   (True, s2) \<Rightarrow> run_bind (Some (doCSP E s2)) rec
                 | (False, s2) \<Rightarrow> Some (Ret s2)))
         else if cs_Step s = RoundStepCrossShardCommit then
           (case (if cs_IsIShard s then test (FinishCrossShardCommit_I h) else (False, s)) of
              (True, s1) \<Rightarrow> run_bind (run_bind (Some (finish_CSC_I E s1)) (enterNewHeight E rec)) rec
            | (False, s1) \<Rightarrow>
                (case (if cs_IsCShard s1 then (case FinishCrossShardCommit_B (heightDatas s1) of (ok, h') \<Rightarrow> (ok, s1\<lparr>heightDatas := h'\<rparr>))
                       else (False, s1)) of
                   (True, s2) \<Rightarrow> run_bind (run_bind (Some (finish_CSC_C E s2)) (enterNewHeight E rec)) rec
                 | (False, s2) \<Rightarrow> Some (Ret s2)))
         else rec s)"

fun handleStateTransition :: "('a, 'm) env \<Rightarrow> nat \<Rightarrow> ('a, 'm) ConsensusState \<Rightarrow> ('a, 'm) ConsensusState run" where
  "handleStateTransition E 0 s = None"
| "handleStateTransition E (Suc fuel) s = transition E (handleStateTransition E fuel) s"

definition Start :: "('a, 'm) env \<Rightarrow> nat \<Rightarrow> ('a, 'm) ConsensusState \<Rightarrow> ('a, 'm) ConsensusState run" where
  "Start E fuel s =
     (if cs_Height s = 0 then enterNewHeight E (handleStateTransition E fuel) s else handleStateTransition E fuel s)"

section \<open>Receiving\<close>

datatype ReceiveError =
  UnmarshalError | BadPart PartBasicError | BadVote VoteError | IShardReceivedCSA | UnrecognizedType | Failed HDError

text \<open>Decoding and the basic checks; \<open>Inl\<close> is the error returned before the lock is taken.\<close>

definition decode ::
  "(bytes \<Rightarrow> 'b ptr go) \<Rightarrow> ('b \<Rightarrow> ReceiveError + unit) \<Rightarrow> ('b \<Rightarrow> cmsg) \<Rightarrow> bytes \<Rightarrow> (ReceiveError + cmsg) go" where
  "decode parse check con bz =
     do { p \<leftarrow> parse bz;
          case p of
            Nil_ptr \<Rightarrow> Ret (Inl UnmarshalError)
          | Ptr m \<Rightarrow> (case check m of Inl e \<Rightarrow> Ret (Inl e) | Inr _ \<Rightarrow> Ret (Inr (con m))) }"

definition bad :: "('e \<Rightarrow> ReceiveError) \<Rightarrow> 'e + unit \<Rightarrow> ReceiveError + unit" where
  "bad f r = (case r of Inl e \<Rightarrow> Inl (f e) | Inr _ \<Rightarrow> Inr ())"

definition decode_message :: "('a, 'm) env \<Rightarrow> bool \<Rightarrow> bytes \<Rightarrow> 32 word \<Rightarrow> (ReceiveError + cmsg) go" where
  "decode_message E i_shard bz messageType =
     (let c = tp_codecs (e_tp E)
      in if messageType = MsgPart then
           decode (NewPartFromBytes (part_codec c)) (bad BadPart \<circ> Part_ValidateBasic) M_Part bz
         else if messageType = MsgTendermintProposal then
           decode (NewProposalFromBytes (proposal_codec c)) (bad BadVote \<circ> Proposal_ValidateBasic) M_Proposal bz
         else if messageType = MsgTendermintPrevote then
           decode (NewPrevoteFromBytes (prevote_codec c)) (bad BadVote \<circ> Prevote_ValidateBasic) M_Prevote bz
         else if messageType = MsgTendermintPrecommit then
           decode (NewPrecommitFromBytes (precommit_codec c)) (bad BadVote \<circ> Precommit_ValidateBasic) M_Precommit bz
         else if messageType = MsgTendermintCrossShardProposal then
           decode (NewCrossShardProposalFromBytes (csp_codec c)) (bad BadVote \<circ> CrossShardProposal_ValidateBasic) M_CSP bz
         else if messageType = MsgTendermintCrossShardAccept then
           (if i_shard then Ret (Inl IShardReceivedCSA)
            else decode (NewCrossShardAcceptFromBytes (csa_codec c)) (bad BadVote \<circ> CrossShardAccept_ValidateBasic) M_CSA bz)
         else if messageType = MsgTendermintCrossShardCommit then
           decode (NewCrossShardCommitFromBytes (csc_codec c)) (bad BadVote \<circ> CrossShardCommit_ValidateBasic) M_CSC bz
         else Ret (Inl UnrecognizedType))"

definition cs_Receive ::
  "('a, 'm) env \<Rightarrow> nat \<Rightarrow> bytes \<Rightarrow> 32 word \<Rightarrow> ('a, 'm) ConsensusState \<Rightarrow> (ReceiveError ptr \<times> ('a, 'm) ConsensusState) run" where
  "cs_Receive E fuel bz messageType s =
     run_bind (Some (decode_message E (cs_IsIShard s) bz messageType))
       (\<lambda>r. case r of
          Inl e \<Rightarrow> Some (Ret (Ptr e, s))
        | Inr m \<Rightarrow>
            run_bind (doMessage E (handleStateTransition E fuel) m s)
              (\<lambda>(e, s'). Some (Ret (case e of Nil_ptr \<Rightarrow> Nil_ptr | Ptr x \<Rightarrow> Ptr (Failed x), s'))))"

end
