(* ===== verification/ConsensusFrame.thy ===== *)
theory ConsensusFrame
  imports Consensus
begin

text \<open>
  The frame of the consensus steps of \<open>melete/consensus/main.go\<close>: which parts of the consensus state each
  of them leaves alone, that the functions taking the recursive call as an argument are monotone in
  it, and rules that follow a function along its control flow.
\<close>

section \<open>Fuel\<close>

text \<open>A run that uses less fuel either runs out of it or ends the same way.\<close>

definition run_le :: "'a run \<Rightarrow> 'a run \<Rightarrow> bool" where
  "run_le r r' \<longleftrightarrow> r = None \<or> r' = r"

lemma run_le_refl [simp]: "run_le r r"
  by (simp add: run_le_def)

lemma run_le_Some: "run_le r r' \<Longrightarrow> r = Some x \<Longrightarrow> r' = Some x"
  by (simp add: run_le_def)

lemma run_le_bind: "run_le r r' \<Longrightarrow> (\<And>x. run_le (f x) (f' x)) \<Longrightarrow> run_le (run_bind r f) (run_bind r' f')"
  unfolding run_le_def run_bind_def by (fastforce split: option.splits)

text \<open>The functions that take the recursive call as an argument are monotone in it.\<close>

definition rec_le :: "(('a, 'm) ConsensusState \<Rightarrow> ('a, 'm) ConsensusState run) \<Rightarrow> (('a, 'm) ConsensusState \<Rightarrow> ('a, 'm) ConsensusState run) \<Rightarrow> bool" where
  "rec_le rec rec' \<longleftrightarrow> (\<forall>s. run_le (rec s) (rec' s))"

lemma doMessage_le: "rec_le rec rec' \<Longrightarrow> run_le (doMessage E rec m s) (doMessage E rec' m s)"
  unfolding doMessage_def rec_le_def
  by (auto split: prod.splits bool.splits ptr.splits HDError.splits intro!: run_le_bind)

lemma relay_messages_le: "rec_le rec rec' \<Longrightarrow> run_le (relay_messages E rec ms s) (relay_messages E rec' ms s)"
  by (induction ms arbitrary: s) (auto intro!: run_le_bind doMessage_le split: prod.splits)

lemma enterNewRound_le: "rec_le rec rec' \<Longrightarrow> run_le (enterNewRound E rec s) (enterNewRound E rec' s)"
  unfolding enterNewRound_def Let_def
  by (intro run_le_bind) (auto split: option.splits intro: relay_messages_le)

lemma enterNewHeight_le: "rec_le rec rec' \<Longrightarrow> run_le (enterNewHeight E rec s) (enterNewHeight E rec' s)"
  unfolding enterNewHeight_def by (intro run_le_bind enterNewRound_le) auto

lemma run_le_splits:
  "(\<And>a b. run_le (f a b) (f' a b)) \<Longrightarrow> run_le (case_prod f p) (case_prod f' p)"
  "run_le r1 r1' \<Longrightarrow> run_le r2 r2' \<Longrightarrow> run_le (case_bool r1 r2 c) (case_bool r1' r2' c)"
  "run_le r1 r1' \<Longrightarrow> run_le r2 r2' \<Longrightarrow> run_le (if c then r1 else r2) (if c then r1' else r2')"
  by (auto split: prod.split bool.split)

lemma transition_le:
  assumes "rec_le rec rec'"
  shows "run_le (transition E rec s) (transition E rec' s)"
proof -
  have r: "run_le (rec s) (rec' s)" for s using assms by (simp add: rec_le_def)
  show ?thesis
    unfolding transition_def Let_def
    by (intro run_le_splits run_le_bind run_le_refl enterNewHeight_le [OF assms] r)
qed

lemma handleStateTransition_le: "n \<le> m \<Longrightarrow> rec_le (handleStateTransition E n) (handleStateTransition E m)"
proof (induction n arbitrary: m)
  case 0 then show ?case by (simp add: rec_le_def run_le_def)
next
  case (Suc n)
  then obtain k where "m = Suc k" "n \<le> k" by (cases m) auto
  then show ?case using Suc.IH [of k] transition_le [of "handleStateTransition E n" "handleStateTransition E k" E]
    by (simp add: rec_le_def)
qed

lemma handle_fuel: "handleStateTransition E n s = Some r \<Longrightarrow> n \<le> m \<Longrightarrow> handleStateTransition E m s = Some r"
  using handleStateTransition_le [of n m E] run_le_Some unfolding rec_le_def by blast

section \<open>Control flow\<close>

text \<open>Rules to go through a function along its control flow.\<close>

definition go_all :: "('a \<Rightarrow> bool) \<Rightarrow> 'a go \<Rightarrow> bool" where
  "go_all P r \<longleftrightarrow> (\<forall>x. r = Ret x \<longrightarrow> P x)"

definition run_all :: "('a \<Rightarrow> bool) \<Rightarrow> 'a run \<Rightarrow> bool" where
  "run_all P r \<longleftrightarrow> (\<forall>x. r = Some (Ret x) \<longrightarrow> P x)"

lemma go_all_rules:
  "P x \<Longrightarrow> go_all P (Ret x)" "go_all P Panic"
  "(\<And>x. r = Ret x \<Longrightarrow> go_all P (f x)) \<Longrightarrow> go_all P (r \<bind> f)"
  "(c \<Longrightarrow> go_all P a) \<Longrightarrow> (\<not> c \<Longrightarrow> go_all P b) \<Longrightarrow> go_all P (if c then a else b)"
  "(\<And>x y. p = (x, y) \<Longrightarrow> go_all P (g x y)) \<Longrightarrow> go_all P (case_prod g p)"
  "(q = Nil_ptr \<Longrightarrow> go_all P a) \<Longrightarrow> (\<And>x. q = Ptr x \<Longrightarrow> go_all P (h x)) \<Longrightarrow> go_all P (case_ptr a h q)"
  "(m = None \<Longrightarrow> go_all P a) \<Longrightarrow> (\<And>x. m = Some x \<Longrightarrow> go_all P (h x)) \<Longrightarrow> go_all P (case_option a h m)"
  by (auto simp: go_all_def split: option.splits prod.splits ptr.splits bind_splits)

lemma run_all_rules:
  "go_all P r \<Longrightarrow> run_all P (Some r)"
  "(\<And>x. r' = Some (Ret x) \<Longrightarrow> run_all P (f x)) \<Longrightarrow> run_all P (run_bind r' f)"
  "(c \<Longrightarrow> run_all P a) \<Longrightarrow> (\<not> c \<Longrightarrow> run_all P b) \<Longrightarrow> run_all P (if c then a else b)"
  "(\<And>x y. p = (x, y) \<Longrightarrow> run_all P (g x y)) \<Longrightarrow> run_all P (case_prod g p)"
  "(m = None \<Longrightarrow> run_all P a) \<Longrightarrow> (\<And>x. m = Some x \<Longrightarrow> run_all P (h x)) \<Longrightarrow> run_all P (case_option a h m)"
  by (auto simp: run_all_def go_all_def run_bind_Ret split: option.splits prod.splits)

lemma run_all_bind: "run_all Q r \<Longrightarrow> (\<And>x. Q x \<Longrightarrow> run_all P (f x)) \<Longrightarrow> run_all P (run_bind r f)"
  by (auto simp: run_all_def run_bind_Ret)

lemma go_all_mono: "go_all Q r \<Longrightarrow> (\<And>x. Q x \<Longrightarrow> P x) \<Longrightarrow> go_all P r"
  by (auto simp: go_all_def)

lemma go_allD: "go_all P r \<Longrightarrow> r = Ret x \<Longrightarrow> P x"
  by (simp add: go_all_def)

lemma run_allD: "run_all P r \<Longrightarrow> r = Some (Ret x) \<Longrightarrow> P x"
  by (simp add: run_all_def)

lemma go_all_bind: "go_all Q r \<Longrightarrow> (\<And>x. Q x \<Longrightarrow> go_all P (f x)) \<Longrightarrow> go_all P (r \<bind> f)"
  by (auto simp: go_all_def split: bind_splits)

section \<open>What a step leaves alone\<close>

text \<open>
  \<open>waiting\<close>: nothing has been heard from the neighbouring shards at this height. \<open>quiet\<close>: a step
  that keeps height, round, buffered messages and committee, and does not end the waiting.
\<close>

definition waiting :: "HeightDataPackage \<Rightarrow> bool" where
  "waiting h \<longleftrightarrow> PassStep h < RoundStepCrossShardAccept \<and> m_len (CrossShardProposals h) \<le> 1 \<and>
     set (m_keys (CrossShardProposals h)) \<subseteq> {MyChainID h} \<and> CrossShardAcceptFinishCounter h \<le> 0"

definition hd_quiet :: "HeightDataPackage \<Rightarrow> HeightDataPackage \<Rightarrow> bool" where
  "hd_quiet h h' \<longleftrightarrow> same_frame h h' \<and> (waiting h \<longrightarrow> waiting h')"

definition quiet :: "('a, 'm) ConsensusState \<Rightarrow> ('a, 'm) ConsensusState \<Rightarrow> bool" where
  "quiet s s' \<longleftrightarrow> cs_Height s' = cs_Height s \<and> cs_Round s' = cs_Round s \<and> cs_Step s' = cs_Step s \<and>
     relayMessageChannel s' = relayMessageChannel s \<and> MaxPartSize s' = MaxPartSize s \<and>
     hd_quiet (heightDatas s) (heightDatas s')"

lemma hd_quiet_refl [simp]: "hd_quiet h h"
  by (simp add: hd_quiet_def)

lemma hd_quiet_trans: "hd_quiet a b \<Longrightarrow> hd_quiet b c \<Longrightarrow> hd_quiet a c"
  using same_frame_trans unfolding hd_quiet_def by blast

lemma quiet_refl [simp]: "quiet s s"
  by (simp add: quiet_def)

lemma quiet_trans: "quiet a b \<Longrightarrow> quiet b c \<Longrightarrow> quiet a c"
  using hd_quiet_trans unfolding quiet_def by fastforce

lemma hd_quietI:
  "hd_Height h' = hd_Height h \<Longrightarrow> hd_Round h' = hd_Round h \<Longrightarrow> MyChainID h' = MyChainID h \<Longrightarrow>
   hd_ShardInfo h' = hd_ShardInfo h \<Longrightarrow> ShardVotes h' = ShardVotes h \<Longrightarrow> AllValidatorSet h' = AllValidatorSet h \<Longrightarrow>
   PassStep h' = PassStep h \<Longrightarrow> CrossShardProposals h' = CrossShardProposals h \<Longrightarrow>
   CrossShardAcceptFinishCounter h' = CrossShardAcceptFinishCounter h \<Longrightarrow> hd_quiet h h'"
  by (simp add: hd_quiet_def same_frame_def waiting_def)

lemma count_prevote_quiet: "count_prevote h i = Ret h' \<Longrightarrow> hd_quiet h h'"
  by (auto simp: count_prevote_def intro!: hd_quietI split: bind_splits)

lemma count_precommit_quiet: "count_precommit h i = Ret h' \<Longrightarrow> hd_quiet h h'"
  by (auto simp: count_precommit_def intro!: hd_quietI split: bind_splits)

lemma AddPrevote_quiet: "AddPrevote tp h p = Ret (e, h') \<Longrightarrow> hd_quiet h h'"
proof -
  have s: "hd_quiet h (h\<lparr>Prevotes := x\<rparr>)" for x by (rule hd_quietI) simp_all
  assume "AddPrevote tp h p = Ret (e, h')"
  then show ?thesis using s
    by (auto simp: AddPrevote_def Let_def split: if_splits option.splits bind_splits
        dest!: count_prevote_quiet intro: hd_quiet_trans [OF s])
qed

lemma AddPrecommit_quiet: "AddPrecommit tp h p = Ret (e, h') \<Longrightarrow> hd_quiet h h'"
proof -
  have s: "hd_quiet h (h\<lparr>Precommits := x\<rparr>)" for x by (rule hd_quietI) simp_all
  assume "AddPrecommit tp h p = Ret (e, h')"
  then show ?thesis using s
    by (auto simp: AddPrecommit_def Let_def split: if_splits option.splits bind_splits
        dest!: count_precommit_quiet intro: hd_quiet_trans [OF s])
qed

text \<open>Sending, hashing and storing.\<close>

lemma SendTo_quiet [simp]: "quiet s (SendTo c bz t s)" "quiet s (SendInternal bz t s)"
  by (simp_all add: SendTo_def SendInternal_def quiet_def)

lemma fold_quiet: "(\<And>x s. quiet s (f x s)) \<Longrightarrow> quiet s (fold f xs s)"
proof (induction xs arbitrary: s)
  case (Cons x xs)
  show ?case using quiet_trans [OF Cons.prems [of s x] Cons.IH [OF Cons.prems]] by simp
qed simp

lemma SendToShards_quiet [simp]:
  "quiet s (SendToRelatedShards bz t s)" "quiet s (SendTo2LevelRelatedShards bz t s)"
  unfolding SendToRelatedShards_def SendTo2LevelRelatedShards_def by (rule fold_quiet, simp)+

lemma put_block_at_quiet [simp]: "quiet s (put_block_at shard b s)"
  by (simp add: put_block_at_def quiet_def) (rule hd_quietI; simp)

lemma hash_block_at_quiet: "hash_block_at E s shard = Ret (hs, s') \<Longrightarrow> quiet s s'"
  by (auto simp: hash_block_at_def split: bind_splits)

lemma send_parts_internal_quiet: "send_parts_internal E qs s = Ret s' \<Longrightarrow> quiet s s'"
proof (induction qs arbitrary: s)
  case (Cons q qs)
  then show ?case by (auto split: ptr.splits bind_splits intro: quiet_trans [OF SendTo_quiet(2)])
qed simp

lemma quiet_fields:
  "hd_quiet (heightDatas s) h \<Longrightarrow> quiet s (s\<lparr>heightDatas := h\<rparr>)"
  "quiet s (s\<lparr>cs_abci := a\<rparr>)" "quiet s (s\<lparr>BlockHash := hs\<rparr>)" "quiet s (s\<lparr>cs_store := st\<rparr>)"
  "quiet s (s\<lparr>cs_mempool := m\<rparr>)" "quiet s (s\<lparr>cross_shard_mempool := m\<rparr>)" "quiet s (s\<lparr>ChainedHash := bs\<rparr>)"
  "quiet s (s\<lparr>cs_RelatedCommitStatus := bs\<rparr>)" "quiet s (s\<lparr>CommitStatus := hs\<rparr>)"
  "quiet s (s\<lparr>LastBlockTime := tm\<rparr>)" "quiet s (s\<lparr>LastReceiptRoot := hs\<rparr>)" "quiet s (s\<lparr>LastStateRoot := hs\<rparr>)"
  "quiet s (s\<lparr>LastBlockHash := hs\<rparr>)" "quiet s (s\<lparr>LastChainedHash := bs\<rparr>)" "quiet s (s\<lparr>LastCommitStatus := hs\<rparr>)"
  "quiet s (s\<lparr>LastRelatedCommitStatus := bs\<rparr>)" "quiet s (s\<lparr>outbox := out\<rparr>)"
  by (simp_all add: quiet_def)

lemma propose_block_quiet: "propose_block E block ps s = Ret s' \<Longrightarrow> quiet s s'"
proof -
  let ?s = "\<lambda>a b c. s\<lparr>heightDatas := (heightDatas s)\<lparr>CrossShardBlocks := a, CrossShardPartSets := b, hd_Proposal := c\<rparr>\<rparr>"
  have s: "quiet s (SendInternal bz t (?s a b c))" for a b c bz t
    by (rule quiet_trans [OF quiet_fields(1) SendTo_quiet(2)], rule hd_quietI) simp_all
  assume "propose_block E block ps s = Ret s'"
  then show ?thesis
    by (auto simp: propose_block_def Let_def split: bind_splits dest!: send_parts_internal_quiet intro: quiet_trans [OF s])
qed

lemma make_block_quiet: "go_all (\<lambda>(b, s1). quiet s s1) (make_block E s)"
  unfolding make_block_def Let_def by (intro go_all_rules) (simp_all add: quiet_fields)

lemma createBlock_quiet: "run_all (quiet s) (createBlockAndBroadcast E s)"
  unfolding createBlockAndBroadcast_def
  by (rule run_all_bind [OF run_all_rules(1) [OF make_block_quiet]], intro run_all_rules)
    (auto simp: go_all_def dest!: propose_block_quiet intro: quiet_trans)

lemma check_proposal_quiet: "check_proposal E s = Ret s' \<Longrightarrow> quiet s s'"
proof -
  have s: "quiet s (put_block_at my b (s\<lparr>cs_abci := a\<rparr>))" for my b a
    by (rule quiet_trans [OF quiet_fields(2) put_block_at_quiet])
  assume "check_proposal E s = Ret s'"
  then show ?thesis using s by (auto simp: check_proposal_def Let_def split: if_splits bind_splits)
qed

text \<open>The step functions: quiet, and then \<open>Next\<close>.\<close>

definition quiet_next :: "('a, 'm) ConsensusState \<Rightarrow> ('a, 'm) ConsensusState \<Rightarrow> bool" where
  "quiet_next s s' \<longleftrightarrow> (\<exists>s1. quiet s s1 \<and> s' = Next s1)"

lemma quiet_nextI: "quiet s s1 \<Longrightarrow> quiet_next s (Next s1)"
  by (auto simp: quiet_next_def)

lemma doPropose_quiet: "doPropose E s = Ret s' \<Longrightarrow> quiet_next s s'"
proof -
  assume "doPropose E s = Ret s'"
  then obtain s1 hs s2 vote e h bz where a: "check_proposal E s = Ret s1"
    "hash_block_at E s1 (MyChainID (heightDatas s)) = Ret (hs, s2)"
    "AddPrevote (e_tp E) (heightDatas s2) vote = Ret (e, h)"
    "s' = Next (SendInternal bz MsgTendermintPrevote (s2\<lparr>BlockHash := hs, heightDatas := h\<rparr>))"
    by (auto simp: doPropose_def Let_def split: bind_splits)
  have "quiet s s2" using quiet_trans check_proposal_quiet [OF a(1)] hash_block_at_quiet [OF a(2)] .
  moreover have "quiet s2 (s2\<lparr>BlockHash := hs, heightDatas := h\<rparr>)"
    using quiet_trans [OF quiet_fields(3) quiet_fields(1)] AddPrevote_quiet [OF a(3)] by simp
  ultimately have "quiet s (SendInternal bz MsgTendermintPrevote (s2\<lparr>BlockHash := hs, heightDatas := h\<rparr>))"
    by (blast intro: quiet_trans SendTo_quiet(2))
  then show ?thesis using a(4) quiet_nextI by simp
qed

lemma doPrevote_quiet: "doPrevote E s = Ret s' \<Longrightarrow> quiet_next s s'"
  by (auto simp: doPrevote_def Let_def split: bind_splits dest!: AddPrecommit_quiet
      intro!: quiet_nextI intro: quiet_trans [OF quiet_fields(1) SendTo_quiet(2)])

lemma put_own_quiet: "quiet s (put_own_proposal p s)"
proof -
  have "length (AList.update k v xs) \<le> 1" if "length xs \<le> 1" "fst ` set xs \<subseteq> {k}" for k v and xs :: "(string, CrossShardProposal) gomap"
    using that by (cases xs) auto
  moreover have "fst ` set (AList.update k v xs) = insert k (fst ` set xs)" for k v and xs :: "(string, CrossShardProposal) gomap"
    by (simp add: dom_update)
  ultimately show ?thesis
    by (auto simp: put_own_proposal_def Let_def quiet_def hd_quiet_def same_frame_def waiting_def)
qed

lemma fold_sends:
  "quiet s (fold (\<lambda>bz. SendToRelatedShards bz t) bzs s)"
  "quiet s (fold (\<lambda>bz s. SendTo2LevelRelatedShards bz t (SendToRelatedShards bz t s)) bzs s)"
  by (rule fold_quiet, simp) (rule fold_quiet, rule quiet_trans [OF SendToShards_quiet(1) SendToShards_quiet(2)])

lemma inner_proposal_quiet: "go_all (\<lambda>(p, s2). quiet s s2) (inner_proposal E s)"
  unfolding inner_proposal_def Let_def
  by (intro go_all_rules) (auto intro: put_own_quiet quiet_trans [OF put_own_quiet SendToShards_quiet(1)])

lemma own_part_set_quiet: "run_all (\<lambda>(ps, s3). quiet s s3) (own_part_set E s)"
  unfolding own_part_set_def Let_def by (intro run_all_rules go_all_rules) auto

lemma doPrecommit_I_quiet: "run_all (quiet_next s) (doPrecommit_I E s)"
proof -
  have c: "run_all (quiet_next s) (case r of (ps, s3) \<Rightarrow> Some (do { bzs \<leftarrow> part_messages c (Parts ps);
             Ret (Next (fold (\<lambda>bz. SendToRelatedShards bz MsgPart) bzs s3)) }))"
    if "case r of (ps, s3) \<Rightarrow> quiet s2 s3" "quiet s s2" for r c s2
    using that by (intro run_all_rules go_all_rules) (auto intro: quiet_nextI quiet_trans fold_sends(1))
  show ?thesis
    unfolding doPrecommit_I_def
    by (rule run_all_bind [OF run_all_rules(1) [OF inner_proposal_quiet]], intro run_all_rules(3,4))
      (auto intro!: run_all_rules(1) go_all_rules(1) quiet_nextI intro: run_all_bind [OF own_part_set_quiet c])
qed

lemma doPrecommit_C_quiet: "run_all (quiet_next s) (doPrecommit_C E s)"
proof -
  have f: "quiet s (fold (\<lambda>pbz s. SendTo2LevelRelatedShards pbz t (SendToRelatedShards pbz t s)) bzs
     (SendTo2LevelRelatedShards bz t' (SendToRelatedShards bz t' (put_own_proposal csp s))))" for s t t' bz bzs csp
    by (rule quiet_trans [OF put_own_quiet quiet_trans [OF SendToShards_quiet(1) quiet_trans [OF SendToShards_quiet(2) fold_sends(2)]]])
  show ?thesis
    unfolding doPrecommit_C_def Let_def by (intro run_all_rules go_all_rules quiet_nextI f put_own_quiet)
qed

lemma doPrecommit_quiet: "doPrecommit E s = Some (Ret s') \<Longrightarrow> quiet_next s s'"
  using run_allD [OF doPrecommit_I_quiet] run_allD [OF doPrecommit_C_quiet] by (simp add: doPrecommit_def split: if_splits)

lemma send_accepts_quiet: "go_all (quiet s) (send_accepts E votes i shards s)"
proof (induction shards arbitrary: i s)
  case Nil then show ?case by (simp add: go_all_def)
next
  case (Cons shard shards)
  have "go_all (quiet s) (send_accepts E votes i shards (SendTo shard bz t s1))" if "quiet s s1" for bz t s1 i
    by (rule go_all_mono [OF Cons.IH quiet_trans [OF that quiet_trans [OF SendTo_quiet(1)]]])
  then show ?case
    unfolding send_accepts.simps Let_def by (intro go_all_rules) (auto dest: hash_block_at_quiet)
qed

lemma doCSA_quiet: "doCSA E s = Ret s' \<Longrightarrow> quiet_next s s'"
  by (auto simp: doCSA_def Let_def split: bind_splits dest!: go_allD [OF send_accepts_quiet]
      intro!: quiet_nextI intro: quiet_trans [OF quiet_fields(2)])

lemma doCSP_quiet: "doCSP E s = Ret s' \<Longrightarrow> quiet_next s s'"
proof -
  have f: "quiet s (s\<lparr>heightDatas := (heightDatas s)\<lparr>CrossShardCommits := x\<rparr>\<rparr>)" for x
    by (rule quiet_fields(1), rule hd_quietI) simp_all
  assume "doCSP E s = Ret s'"
  then show ?thesis
    by (auto simp: doCSP_def Let_def split: bind_splits if_splits intro!: quiet_nextI f intro: quiet_trans [OF f SendToShards_quiet(1)])
qed

lemma quiet_upd [simp]:
  "quiet a (s\<lparr>cs_abci := x1\<rparr>) = quiet a s" "quiet a (s\<lparr>BlockHash := x2\<rparr>) = quiet a s" "quiet a (s\<lparr>cs_store := x3\<rparr>) = quiet a s"
  "quiet a (s\<lparr>cs_mempool := x4\<rparr>) = quiet a s" "quiet a (s\<lparr>cross_shard_mempool := x5\<rparr>) = quiet a s"
  "quiet a (s\<lparr>ChainedHash := x6\<rparr>) = quiet a s" "quiet a (s\<lparr>cs_RelatedCommitStatus := x7\<rparr>) = quiet a s"
  "quiet a (s\<lparr>CommitStatus := x8\<rparr>) = quiet a s" "quiet a (s\<lparr>LastBlockTime := x9\<rparr>) = quiet a s"
  "quiet a (s\<lparr>LastReceiptRoot := x10\<rparr>) = quiet a s" "quiet a (s\<lparr>LastStateRoot := x11\<rparr>) = quiet a s"
  by (simp_all add: quiet_def)

lemma executionAllBlocks_quiet: "go_all (\<lambda>(r, bs, s'). quiet s s') (executionAllBlocks E s cs is)"
  unfolding executionAllBlocks_def by (intro go_all_rules) simp

lemma set_roots_quiet: "go_all (quiet s) (set_roots E rs s)"
  unfolding set_roots_def Let_def by (intro go_all_rules) (auto split: prod.splits simp: go_all_def)

lemma put_block_after: "quiet a s \<Longrightarrow> quiet a (put_block_at shard b s)"
  using quiet_trans put_block_at_quiet by blast

lemma store_block_quiet: "go_all (quiet s) (store_block E height chain shard s)"
  unfolding store_block_def by (intro go_all_rules put_block_after) simp

lemma hash_block_after: "quiet a s \<Longrightarrow> hash_block_at E s shard = Ret (hs, s') \<Longrightarrow> quiet a s'"
  using quiet_trans hash_block_at_quiet by blast

lemma store_blocks_quiet: "go_all (quiet s) (store_blocks E shards s)"
proof (induction shards arbitrary: s)
  case (Cons shard shards)
  have "go_all (quiet s) (store_blocks E shards s1)" if "quiet s s1" for s1
    by (rule go_all_mono [OF Cons.IH quiet_trans [OF that]])
  then show ?case
    unfolding store_blocks.simps by (intro go_all_rules) (auto dest: go_allD [OF store_block_quiet])
qed (simp add: go_all_def)

lemma chain_C_quiet: "go_all (quiet s) (chain_C E st i shards s)"
proof (induction shards arbitrary: s i)
  case (Cons shard shards)
  have "go_all (quiet s) (chain_C E st i shards s1)" if "quiet s s1" for s1 i
    by (rule go_all_mono [OF Cons.IH quiet_trans [OF that]])
  then show ?case
    unfolding chain_C.simps by (intro go_all_rules) (auto dest: hash_block_at_quiet)
qed (simp add: go_all_def)

lemma chain_I_quiet: "go_all (quiet s) (chain_I E shards s)"
proof (induction shards arbitrary: s)
  case (Cons shard shards)
  have "go_all (quiet s) (chain_I E shards s1)" if "quiet s s1" for s1
    by (rule go_all_mono [OF Cons.IH quiet_trans [OF that]])
  then show ?case
    unfolding chain_I.simps by (intro go_all_rules) (auto dest: hash_block_at_quiet)
qed (simp add: go_all_def)

lemma chain_inner_quiet: "go_all (quiet s) (chain_inner E st i shards s)"
proof (induction shards arbitrary: s i)
  case (Cons shard shards)
  have "go_all (quiet s) (chain_inner E st i shards s1)" if "quiet s s1" for s1 i
    by (rule go_all_mono [OF Cons.IH quiet_trans [OF that]])
  then show ?case
    unfolding chain_inner.simps by (intro go_all_rules) (auto dest: hash_block_at_quiet)
qed (simp add: go_all_def)

lemma update_mempool_quiet: "go_all (quiet s) (update_mempool E s)" "go_all (quiet s) (update_cross_shard_mempool E s)"
  unfolding update_mempool_def update_cross_shard_mempool_def by (intro go_all_rules; simp)+

lemma go_all_seq: "go_all (quiet s1) r \<Longrightarrow> quiet s s1 \<Longrightarrow> (\<And>x. quiet s x \<Longrightarrow> go_all P (f x)) \<Longrightarrow> go_all P (r \<bind> f)"
  by (rule go_all_rules(3)) (auto dest: go_allD intro: quiet_trans)

lemma finish_CSC_C_quiet: "go_all (quiet s) (finish_CSC_C E s)"
  unfolding finish_CSC_C_def Let_def
  apply (rule go_all_bind [OF executionAllBlocks_quiet], clarify)
  apply (rule go_all_seq [OF chain_C_quiet], simp)
  apply (rule go_all_seq [OF chain_I_quiet], assumption)
  apply (rule go_all_seq [OF set_roots_quiet], assumption)
  apply (rule go_all_seq [OF store_blocks_quiet], assumption)
  apply (rule go_all_seq [OF store_blocks_quiet], assumption)
  apply (rule go_all_seq [OF update_mempool_quiet(1)], assumption)
  apply (rule go_all_seq [OF update_mempool_quiet(2)], assumption)
  by (intro go_all_rules)

lemma finish_CSC_I_quiet: "go_all (quiet s) (finish_CSC_I E s)"
  unfolding finish_CSC_I_def Let_def
  apply (rule go_all_bind [OF executionAllBlocks_quiet], clarify)
  apply (rule go_all_seq [OF chain_inner_quiet], simp)
  apply (rule go_all_rules(3), clarify)
  apply (drule hash_block_after [rotated], simp)
  apply (rule go_all_rules(3))
  apply (rule go_all_seq [OF set_roots_quiet], simp)
  apply (rule go_all_seq [OF store_block_quiet], assumption)
  apply (rule go_all_seq [OF store_blocks_quiet], assumption)
  by (rule go_all_mono [OF update_mempool_quiet(1)], rule quiet_trans)


end
