(* ===== verification/ConsensusRuns.thy ===== *)
theory ConsensusRuns
  imports ConsensusFrame
begin

text \<open>
  Runs of the consensus state machine of \<open>melete/consensus/main.go\<close>: the invariant of the consensus
  state, and the proof that a node with neighbours handles every message in finitely many steps. The
  measure is the number of later heights with buffered messages, then whether the node still waits for
  its neighbours, then the step.
\<close>

section \<open>Functions that always return\<close>

definition returns :: "'a run \<Rightarrow> bool" where
  "returns r \<longleftrightarrow> r \<noteq> None"

lemma returns_rules:
  "returns (Some x)"
  "run_all Q r \<Longrightarrow> returns r \<Longrightarrow> (\<And>x. Q x \<Longrightarrow> returns (f x)) \<Longrightarrow> returns (run_bind r f)"
  "(\<And>x y. p = (x, y) \<Longrightarrow> returns (g x y)) \<Longrightarrow> returns (case_prod g p)"
  "(c \<Longrightarrow> returns a) \<Longrightarrow> (\<not> c \<Longrightarrow> returns b) \<Longrightarrow> returns (if c then a else b)"
  "(m = None \<Longrightarrow> returns a) \<Longrightarrow> (\<And>x. m = Some x \<Longrightarrow> returns (h x)) \<Longrightarrow> returns (case_option a h m)"
  by (auto simp: returns_def run_all_def run_bind_def split: option.splits prod.splits)

lemma run_all_True: "run_all (\<lambda>_. True) r"
  by (simp add: run_all_def)

lemma PartSetFromBlock_returns: "0 < sz \<Longrightarrow> returns (PartSetFromBlock tm c b sz rnd)"
  by (simp add: returns_def PartSetFromBlock_def SplitByteArray_chunks split: option.splits)

lemma quiet_MaxPartSize: "quiet s s' \<Longrightarrow> MaxPartSize s' = MaxPartSize s"
  by (simp add: quiet_def)

lemma createBlock_returns: "0 < MaxPartSize s \<Longrightarrow> returns (createBlockAndBroadcast E s)"
  unfolding createBlockAndBroadcast_def
  by (intro returns_rules(1,3) returns_rules(2) [OF run_all_rules(1) [OF make_block_quiet]]
      returns_rules(2) [OF run_all_True] PartSetFromBlock_returns) (auto dest: quiet_MaxPartSize)

lemma own_part_set_returns: "0 < MaxPartSize s \<Longrightarrow> returns (own_part_set E s)"
  unfolding own_part_set_def Let_def
  by (intro returns_rules(1,3-5) returns_rules(2) [OF run_all_True] PartSetFromBlock_returns)

lemma doPrecommit_returns: "0 < MaxPartSize s \<Longrightarrow> returns (doPrecommit E s)"
  unfolding doPrecommit_def doPrecommit_C_def doPrecommit_I_def Let_def
  by (intro returns_rules(1,3,4) returns_rules(2) [OF run_all_rules(1) [OF inner_proposal_quiet]]
      returns_rules(2) [OF run_all_True] PartSetFromBlock_returns own_part_set_returns) (auto dest: quiet_MaxPartSize)

section \<open>The invariant\<close>

definition kept :: "('a, 'm) ConsensusState \<Rightarrow> ('a, 'm) ConsensusState \<Rightarrow> bool" where
  "kept s s' \<longleftrightarrow> cs_Height s' = cs_Height s \<and> cs_Round s' = cs_Round s \<and> cs_Step s' = cs_Step s \<and>
     relayMessageChannel s' = relayMessageChannel s \<and> MaxPartSize s' = MaxPartSize s \<and>
     same_frame (heightDatas s) (heightDatas s')"

lemma quiet_kept: "quiet s s' \<Longrightarrow> kept s s'"
  by (simp add: quiet_def kept_def hd_quiet_def)

lemma recalc_prevotes_quiet: "go_all (hd_quiet h) (recalc_prevotes hash i qs h)"
proof (induction qs arbitrary: i h)
  case (Cons q qs)
  have "go_all (hd_quiet h) (recalc_prevotes hash i qs h1)" if "hd_quiet h h1" for i h1
    by (rule go_all_mono [OF Cons.IH hd_quiet_trans [OF that]])
  then show ?case unfolding recalc_prevotes.simps by (intro go_all_rules) (auto dest: count_prevote_quiet)
qed (simp add: go_all_def)

lemma recalc_precommits_quiet: "go_all (hd_quiet h) (recalc_precommits hash i qs h)"
proof (induction qs arbitrary: i h)
  case (Cons q qs)
  have "go_all (hd_quiet h) (recalc_precommits hash i qs h1)" if "hd_quiet h h1" for i h1
    by (rule go_all_mono [OF Cons.IH hd_quiet_trans [OF that]])
  then show ?case unfolding recalc_precommits.simps by (intro go_all_rules) (auto dest: count_precommit_quiet)
qed (simp add: go_all_def)

lemma AddProposal_frame: "go_all (\<lambda>(e, h'). same_frame h h') (AddProposal tp h p i)"
proof -
  have r: "same_frame h h3" if "reCalculatePrevotes h = Ret h3" for h h3
    using that go_allD [OF recalc_prevotes_quiet] by (auto simp: reCalculatePrevotes_def hd_quiet_def split: ptr.splits)
  have q: "same_frame h h3" if "reCalculatePrecommits h = Ret h3" for h h3
    using that go_allD [OF recalc_precommits_quiet] by (auto simp: reCalculatePrecommits_def hd_quiet_def split: ptr.splits)
  have s: "same_frame h h2" if "add_parts tp ps (h\<lparr>hd_Proposal := a, CrossShardPartSets := b\<rparr>) = Ret h2" for ps a b h2
    using add_parts_same [OF that] by (simp add: same_votes_def same_frame_def)
  show ?thesis
    unfolding AddProposal_def by (intro go_all_rules) (auto dest!: r q s intro: same_frame_trans)
qed

lemma add_message_kept: "go_all (\<lambda>(e, s'). kept s s') (add_message E m s)"
proof -
  have k: "kept s (s\<lparr>heightDatas := h\<rparr>)" "kept s (s\<lparr>heightDatas := h, outbox := out\<rparr>)" if "same_frame (heightDatas s) h" for h out
    using that by (simp_all add: kept_def)
  have v: "same_votes h h' \<Longrightarrow> same_frame h h'" "hd_quiet h h' \<Longrightarrow> same_frame h h'" for h h'
    by (simp_all add: same_votes_def hd_quiet_def)
  show ?thesis
    unfolding add_message_def Let_def
    apply (cases m; simp only: cmsg.case)
    apply (intro go_all_rules; clarsimp; intro k; auto simp: hd_AddPart_def
        dest: addInnerPart_same AddCrossShardProposal_same AddCrossShardAccept_same AddCrossShardCommit_same
          AddPrevote_quiet AddPrecommit_quiet go_allD [OF AddProposal_frame] intro: v)+
    done
qed

definition buffered_ok :: "('a, 'm) ConsensusState \<Rightarrow> bool" where
  "buffered_ok s \<longleftrightarrow> finite (dom (relayMessageChannel s)) \<and>
     (\<forall>n u. relayMessageChannel s n = Some u \<longrightarrow> cs_Height s \<le> n \<and>
        (\<forall>r ms. u r = Some ms \<longrightarrow> (\<forall>m \<in> set ms. msg_height m = n \<and> msg_round m = r)))"

definition cs_inv :: "('a, 'm) ConsensusState \<Rightarrow> bool" where
  "cs_inv s \<longleftrightarrow> cs_Round s = 0 \<and> hd_Round (heightDatas s) = 0 \<and> hd_Height (heightDatas s) = cs_Height s \<and>
     0 < MaxPartSize s \<and> RelatedShards (hd_ShardInfo (heightDatas s)) \<noteq> [] \<and> buffered_ok s"

lemma kept_inv: "kept s s' \<Longrightarrow> cs_inv s \<Longrightarrow> cs_inv s'"
  by (auto simp: kept_def cs_inv_def buffered_ok_def same_frame_def)

text \<open>The steps in which messages are handled.\<close>

definition running :: "('a, 'm) ConsensusState \<Rightarrow> bool" where
  "running s \<longleftrightarrow> RoundStepPropose \<le> cs_Step s \<and> cs_Step s \<le> RoundStepCrossShardCommit"

text \<open>\<open>later\<close>: the heights still to come for which messages are buffered.\<close>

definition later :: "('a, 'm) ConsensusState \<Rightarrow> int set" where
  "later s = {n \<in> dom (relayMessageChannel s). cs_Height s < n}"

definition goes :: "('a, 'm) ConsensusState \<Rightarrow> ('a, 'm) ConsensusState \<Rightarrow> bool" where
  "goes s s' \<longleftrightarrow> cs_inv s' \<and> running s' \<and> cs_Height s \<le> cs_Height s' \<and> later s' \<subseteq> later s \<and>
     hd_ShardInfo (heightDatas s') = hd_ShardInfo (heightDatas s) \<and> MyChainID (heightDatas s') = MyChainID (heightDatas s)"

lemma goes_trans: "goes a b \<Longrightarrow> goes b c \<Longrightarrow> goes a c"
  by (auto simp: goes_def)

lemma goes_refl: "cs_inv s \<Longrightarrow> running s \<Longrightarrow> goes s s"
  by (simp add: goes_def)

lemma kept_goes: "kept s s' \<Longrightarrow> cs_inv s \<Longrightarrow> running s \<Longrightarrow> goes s s'"
  using kept_inv [of s s'] by (auto simp: goes_def kept_def running_def later_def same_frame_def)

section \<open>The completion tests\<close>

definition pass_only :: "HeightDataPackage \<Rightarrow> bool \<times> HeightDataPackage \<Rightarrow> bool" where
  "pass_only h r \<longleftrightarrow> (\<exists>p. snd r = h\<lparr>PassStep := p\<rparr> \<and> (PassStep h < RoundStepCrossShardAccept \<longrightarrow> p < RoundStepCrossShardAccept))"

lemma pass_only_self: "pass_only h (b, h)"
  by (auto simp: pass_only_def intro: exI [where x = "PassStep h"])

lemma pass_only_set: "pass_only h (a, h1) \<Longrightarrow> p < RoundStepCrossShardAccept \<Longrightarrow> pass_only h (b, h1\<lparr>PassStep := p\<rparr>)"
  by (auto simp: pass_only_def)

lemma pass_only_flag: "pass_only h (a, h1) \<Longrightarrow> pass_only h (b, h1)"
  by (auto simp: pass_only_def)

lemma Finish_pass_only:
  "pass_only h (FinishProposal h)" "pass_only h (FinishPrevote h)" "pass_only h (FinishPrecommit h)"
proof -
  show 1: "pass_only h (FinishProposal h)"
    by (auto simp: FinishProposal_def round_step_defs intro: pass_only_self pass_only_set [OF pass_only_self] split: option.splits)
  show 2: "pass_only h (FinishPrevote h)"
    using 1 by (cases "FinishProposal h")
      (auto simp: FinishPrevote_def round_step_defs intro: pass_only_self pass_only_set pass_only_flag)
  show "pass_only h (FinishPrecommit h)"
    using 2 by (cases "FinishPrevote h")
      (auto simp: FinishPrecommit_def round_step_defs intro: pass_only_self pass_only_set pass_only_flag)
qed

lemma pass_only_quiet: "pass_only h (b, h') \<Longrightarrow> hd_quiet h h'"
  by (clarsimp simp: pass_only_def hd_quiet_def same_frame_def waiting_def)

text \<open>While a node with neighbours waits for them, it does not pass the cross-shard steps.\<close>

lemma waiting_related:
  assumes "waiting h" "rel \<noteq> []" 
  shows "m_len (CrossShardProposals h) < m_len rel + 1" "CrossShardAcceptFinishCounter h < m_len rel"
  using assms by (auto simp: waiting_def neq_Nil_conv)

lemma Finish_waiting:
  assumes "waiting h" "RelatedShards (hd_ShardInfo h) \<noteq> []"
  shows "\<not> fst (FinishCrossShardAccept h) \<and> hd_quiet h (snd (FinishCrossShardAccept h))"
    "\<not> fst (FinishCrossShardProposal h) \<and> hd_quiet h (snd (FinishCrossShardProposal h))"
    "\<not> fst (FinishCrossShardCommit_I h)" "\<not> fst (FinishCrossShardCommit_B h)"
proof -
  obtain b h1 where h1: "FinishPrecommit h = (b, h1)" by (cases "FinishPrecommit h")
  then have q: "hd_quiet h h1" using Finish_pass_only(3) [of h] pass_only_quiet by metis
  then have w: "waiting h1" "hd_ShardInfo h1 = hd_ShardInfo h" using assms(1) by (simp_all add: hd_quiet_def same_frame_def)
  have p: "PassStep h < RoundStepCrossShardAccept" using assms(1) by (simp add: waiting_def)
  show 1: "\<not> fst (FinishCrossShardAccept h) \<and> hd_quiet h (snd (FinishCrossShardAccept h))"
    using p h1 q waiting_related [OF w(1) assms(2)] w(2) by (simp add: FinishCrossShardAccept_def Let_def)
  show 2: "\<not> fst (FinishCrossShardProposal h) \<and> hd_quiet h (snd (FinishCrossShardProposal h))"
    using p h1 q waiting_related [OF w(1) assms(2)] w(2) by (simp add: FinishCrossShardProposal_def RoundStepCrossShardPropose_def)
  show "\<not> fst (FinishCrossShardCommit_I h)"
    using p 1 by (auto simp: FinishCrossShardCommit_I_def round_step_defs split: prod.splits)
  show "\<not> fst (FinishCrossShardCommit_B h)"
    using p 2 by (auto simp: FinishCrossShardCommit_B_def round_step_defs split: prod.splits)
qed

text \<open>The later tests may set the step further, and touch nothing else.\<close>

definition pass_any :: "HeightDataPackage \<Rightarrow> bool \<times> HeightDataPackage \<Rightarrow> bool" where
  "pass_any h r \<longleftrightarrow> (\<exists>p. snd r = h\<lparr>PassStep := p\<rparr>)"

lemma pass_any_self: "pass_any h (b, h)"
  by (auto simp: pass_any_def intro: exI [where x = "PassStep h"])

lemma pass_any_set: "pass_any h (a, h1) \<Longrightarrow> pass_any h (b, h1\<lparr>PassStep := p\<rparr>)" "pass_any h (a, h1) \<Longrightarrow> pass_any h (b, h1)"
  by (auto simp: pass_any_def)

lemma Finish_pass_any:
  "pass_any h (FinishCrossShardAccept h)" "pass_any h (FinishCrossShardProposal h)"
  "pass_any h (FinishCrossShardCommit_I h)" "pass_any h (FinishCrossShardCommit_B h)"
proof -
  obtain b h1 where h1: "FinishPrecommit h = (b, h1)" by (cases "FinishPrecommit h")
  then have 0: "pass_any h (b, h1)" using Finish_pass_only(3) [of h] by (auto simp: pass_any_def pass_only_def)
  show 1: "pass_any h (FinishCrossShardAccept h)"
    using 0 h1 by (auto simp: FinishCrossShardAccept_def Let_def intro: pass_any_self pass_any_set)
  show 2: "pass_any h (FinishCrossShardProposal h)"
    using 0 h1 by (auto simp: FinishCrossShardProposal_def intro: pass_any_self pass_any_set)
  show "pass_any h (FinishCrossShardCommit_I h)"
    using 1 by (cases "FinishCrossShardAccept h") (auto simp: FinishCrossShardCommit_I_def intro: pass_any_self pass_any_set)
  show "pass_any h (FinishCrossShardCommit_B h)"
    using 2 by (cases "FinishCrossShardProposal h") (auto simp: FinishCrossShardCommit_B_def Let_def intro: pass_any_self pass_any_set)
qed

lemma pass_any_frame: "pass_any h (b, h') \<Longrightarrow> same_frame h h'"
  by (auto simp: pass_any_def same_frame_def)

section \<open>Settling\<close>

text \<open>
  \<open>settles E P F\<close>: from some fuel on, \<open>F\<close> with the transition function as its recursive call ends the
  same way, and a regular result has \<open>P\<close>.
\<close>

definition settles ::
  "('a, 'm) env \<Rightarrow> ('x \<Rightarrow> bool) \<Rightarrow> ((('a, 'm) ConsensusState \<Rightarrow> ('a, 'm) ConsensusState run) \<Rightarrow> 'x run) \<Rightarrow> bool" where
  "settles E P F \<longleftrightarrow> (\<exists>n r. (\<forall>m \<ge> n. F (handleStateTransition E m) = Some r) \<and> (\<forall>x. r = Ret x \<longrightarrow> P x))"

lemma settles_const: "returns r \<Longrightarrow> run_all P r \<Longrightarrow> settles E P (\<lambda>_. r)"
  by (auto simp: settles_def returns_def run_all_def)

lemma settles_bind:
  assumes "settles E Q F" "\<And>x. Q x \<Longrightarrow> settles E P (\<lambda>rec. G rec x)"
  shows "settles E P (\<lambda>rec. run_bind (F rec) (G rec))"
proof -
  obtain n r where n: "\<forall>m \<ge> n. F (handleStateTransition E m) = Some r" "\<forall>x. r = Ret x \<longrightarrow> Q x"
    using assms(1) by (auto simp: settles_def)
  show ?thesis
  proof (cases r)
    case None
    then show ?thesis using n(1) by (auto simp: settles_def intro!: exI [where x = n] exI [where x = Panic])
  next
    case (Some x)
    then obtain k r' where k: "\<forall>m \<ge> k. G (handleStateTransition E m) x = Some r'" "\<forall>x. r' = Ret x \<longrightarrow> P x"
      using assms(2) [of x] n(2) unfolding settles_def by blast
    then show ?thesis using n(1) Some
      by (auto simp: settles_def intro!: exI [where x = "max n k"] exI [where x = r'])
  qed
qed

lemma settles_mono: "settles E P F \<Longrightarrow> (\<And>x. P x \<Longrightarrow> Q x) \<Longrightarrow> settles E Q F"
  unfolding settles_def by blast

lemma settles_transition: "settles E P (\<lambda>rec. transition E rec s) \<Longrightarrow> settles E P (\<lambda>rec. rec s)"
proof -
  assume "settles E P (\<lambda>rec. transition E rec s)"
  then obtain n r where n: "\<forall>m \<ge> n. transition E (handleStateTransition E m) s = Some r" "\<forall>x. r = Ret x \<longrightarrow> P x"
    by (auto simp: settles_def)
  have "\<forall>m \<ge> Suc n. handleStateTransition E m s = Some r"
  proof (intro allI impI)
    fix m assume "Suc n \<le> m"
    then show "handleStateTransition E m s = Some r" using n(1) by (cases m) auto
  qed
  then show ?thesis using n(2) unfolding settles_def by blast
qed

definition load :: "('a, 'm) ConsensusState \<Rightarrow> nat" where
  "load s = 2 * card (later s) + (if waiting (heightDatas s) then 0 else 1)"

lemma load_le: "load s \<le> 2 * card (later s) + 1"
  by (simp add: load_def)

lemma finite_later: "cs_inv s \<Longrightarrow> finite (later s)"
  by (auto simp: cs_inv_def buffered_ok_def later_def)

lemma goes_card: "goes s s' \<Longrightarrow> cs_inv s \<Longrightarrow> card (later s') \<le> card (later s)"
  by (auto simp: goes_def intro: card_mono finite_later)

lemma doMessage_settles:
  assumes IH: "\<And>s2. cs_inv s2 \<Longrightarrow> running s2 \<Longrightarrow> card (later s2) \<le> c \<Longrightarrow> settles E (goes s2) (\<lambda>rec. rec s2)"
    and s: "cs_inv s" "running s" "card (later s) \<le> c" "msg_height m \<le> cs_Height s" "msg_round m = 0"
  shows "settles E (\<lambda>(e, s'). goes s s') (\<lambda>rec. doMessage E rec m s)"
proof -
  have r: "addRelayMessageIfOverTime s (msg_height m) (msg_round m) m = (False, s)"
    using s(1,4,5) by (auto simp: addRelayMessageIfOverTime_def cs_inv_def)
  have a: "settles E (\<lambda>(e, s'). kept s s') (\<lambda>_. Some (add_message E m s))"
    by (intro settles_const returns_rules run_all_rules add_message_kept)
  have k: "settles E (\<lambda>(e, s'). goes s s') (\<lambda>rec. case e of
               Ptr DoNothing \<Rightarrow> Some (Ret (Nil_ptr, s2))
             | Ptr err \<Rightarrow> Some (Ret (Ptr err, s2))
             | Nil_ptr \<Rightarrow> run_bind (rec s2) (\<lambda>s3. Some (Ret (Nil_ptr, s3))))" if "kept s s2" for e :: "HDError ptr" and s2
  proof -
    have g: "goes s s2" using kept_goes [OF that s(1,2)] .
    have "settles E (goes s2) (\<lambda>rec. rec s2)"
      using IH [of s2] g s(3) goes_card [OF g s(1)] by (auto simp: goes_def)
    then have "settles E (\<lambda>(e, s'). goes s s') (\<lambda>rec. run_bind (rec s2) (\<lambda>s3. Some (Ret (Nil_ptr, s3))))"
      by (rule settles_bind) (auto intro!: settles_const returns_rules simp: run_all_def intro: goes_trans [OF g])
    moreover have "settles E (\<lambda>(e, s'). goes s s') (\<lambda>rec. Some (Ret (e', s2)))" for e' :: "HDError ptr"
      using g by (intro settles_const returns_rules) (simp add: run_all_def)
    ultimately show ?thesis by (cases e) (auto split: HDError.split)
  qed
  show ?thesis
    unfolding doMessage_def r
    using settles_bind [OF a, of "\<lambda>(e, s'). goes s s'" "\<lambda>rec (e, s2). case e of
               Ptr DoNothing \<Rightarrow> Some (Ret (Nil_ptr, s2))
             | Ptr err \<Rightarrow> Some (Ret (Ptr err, s2))
             | Nil_ptr \<Rightarrow> run_bind (rec s2) (\<lambda>s3. Some (Ret (Nil_ptr, s3)))"] k
    by (auto split: prod.splits)
qed

lemma relay_messages_settles:
  assumes IH: "\<And>s2. cs_inv s2 \<Longrightarrow> running s2 \<Longrightarrow> card (later s2) \<le> c \<Longrightarrow> settles E (goes s2) (\<lambda>rec. rec s2)"
  shows "cs_inv s \<Longrightarrow> running s \<Longrightarrow> card (later s) \<le> c \<Longrightarrow> \<forall>m \<in> set ms. msg_height m \<le> cs_Height s \<and> msg_round m = 0 \<Longrightarrow>
    settles E (goes s) (\<lambda>rec. relay_messages E rec ms s)"
proof (induction ms arbitrary: s)
  case Nil
  then show ?case by (auto intro!: settles_const returns_rules simp: run_all_def goes_refl)
next
  case (Cons m ms)
  have d: "settles E (\<lambda>(e, s'). goes s s') (\<lambda>rec. doMessage E rec m s)"
    using Cons.prems by (intro doMessage_settles [OF IH]) auto
  have "settles E (goes s) (\<lambda>rec. relay_messages E rec ms s')" if g: "goes s s'" for s'
  proof -
    have "settles E (goes s') (\<lambda>rec. relay_messages E rec ms s')"
      using g Cons.prems goes_card [OF g Cons.prems(1)] by (intro Cons.IH) (auto simp: goes_def)
    then show ?thesis by (rule settles_mono) (rule goes_trans [OF g])
  qed
  then show ?case unfolding relay_messages.simps by (intro settles_bind [OF d]) auto
qed

lemma NextHeight_frame:
  assumes "NextHeight h = Ret h'"
  shows "hd_Height h' = hd_Height h + 1" "hd_Round h' = 0" "MyChainID h' = MyChainID h" "hd_ShardInfo h' = hd_ShardInfo h" "waiting h'"
  using assms by (auto simp: NextHeight_def clearAll_def clearProposal_def clearPrevote_def clearPrecommit_def
      clearCrossShardData_def waiting_def round_step_defs split: bind_splits)

text \<open>The messages buffered for the height that is entered are handled on entering it, and it starts without neighbours.\<close>

lemma enterNewHeight_settles:
  assumes IH: "\<And>s2. cs_inv s2 \<Longrightarrow> running s2 \<Longrightarrow> load s2 \<le> 2 * card (later s) \<Longrightarrow> settles E (goes s2) (\<lambda>rec. rec s2)"
    and s: "cs_inv s"
  shows "settles E (\<lambda>s'. goes s s' \<and> load s' \<le> 2 * card (later s)) (\<lambda>rec. enterNewHeight E rec s)"
proof -
  define s2 where "s2 = (let s1 = Next (s\<lparr>cs_Step := RoundStepCrossShardCommit\<rparr>)
     in s1\<lparr>LastBlockHash := BlockHash s1, LastChainedHash := ChainedHash s1, LastCommitStatus := CommitStatus s1,
           LastRelatedCommitStatus := cs_RelatedCommitStatus s1\<rparr>)"
  have s2: "cs_Height s2 = cs_Height s + 1" "cs_Round s2 = 0" "heightDatas s2 = heightDatas s" "MaxPartSize s2 = MaxPartSize s"
    "relayMessageChannel s2 = (relayMessageChannel s)(cs_Height s := None)"
    by (simp_all add: s2_def Let_def Next_def)
  let ?P = "\<lambda>s'. goes s s' \<and> load s' \<le> 2 * card (later s)"
  let ?Q = "\<lambda>s1. cs_inv s1 \<and> running s1 \<and> waiting (heightDatas s1) \<and> cs_Height s1 = cs_Height s + 1 \<and>
     relayMessageChannel s1 = relayMessageChannel s2 \<and>
     hd_ShardInfo (heightDatas s1) = hd_ShardInfo (heightDatas s) \<and> MyChainID (heightDatas s1) = MyChainID (heightDatas s)"
  have step: "settles E ?P (\<lambda>rec. enterNewRound E rec (s2\<lparr>heightDatas := h\<rparr>))" if h: "NextHeight (heightDatas s2) = Ret h" for h
  proof -
    let ?s0 = "s2\<lparr>heightDatas := h, cs_Step := RoundStepPropose\<rparr>"
    note f = NextHeight_frame [OF h]
    have "buffered_ok ?s0"
      using s by (fastforce simp: cs_inv_def buffered_ok_def s2 split: if_splits)
    then have i0: "cs_inv ?s0" using s f by (simp add: cs_inv_def s2)
    have q: "?Q s1" if "quiet ?s0 s1" for s1
      using kept_inv [OF quiet_kept [OF that] i0] that f
      by (simp add: quiet_def hd_quiet_def same_frame_def s2 running_def round_step_defs)
    have 1: "settles E ?Q (\<lambda>_. if p then createBlockAndBroadcast E ?s0 else Some (Ret ?s0))" for p
    proof (rule settles_const)
      have "0 < MaxPartSize ?s0" using i0 by (simp add: cs_inv_def)
      then show "returns (if p then createBlockAndBroadcast E ?s0 else Some (Ret ?s0))"
        using createBlock_returns [of ?s0 E] by (auto intro: returns_rules(1))
      show "run_all ?Q (if p then createBlockAndBroadcast E ?s0 else Some (Ret ?s0))"
      proof (rule run_all_rules(3))
        show "run_all ?Q (createBlockAndBroadcast E ?s0)" using createBlock_quiet [of ?s0 E] q unfolding run_all_def by blast
        show "run_all ?Q (Some (Ret ?s0))" using q [OF quiet_refl] by (simp add: run_all_def)
      qed
    qed
    have 2: "settles E ?P (\<lambda>rec. case relayMessageChannel s1 (cs_Height s1) of
                 None \<Rightarrow> Some (Ret s1)
               | Some relay_height \<Rightarrow>
                   (case relay_height (cs_Round s1) of
                      None \<Rightarrow> Some (Ret s1)
                    | Some relayRound \<Rightarrow> relay_messages E rec relayRound s1))" if q1: "?Q s1" for s1
    proof -
      have sub: "later s1 \<subseteq> later s - {cs_Height s + 1}" using q1 by (auto simp: later_def s2)
      have g: "goes s s1" using q1 sub by (auto simp: goes_def)
      have stay: "settles E ?P (\<lambda>rec. Some (Ret s1))"
        using g goes_card [OF g s] q1 by (intro settles_const returns_rules) (simp add: run_all_def load_def)
      show ?thesis
      proof (cases "\<exists>u ms. relayMessageChannel s1 (cs_Height s1) = Some u \<and> u (cs_Round s1) = Some ms")
        case False
        then show ?thesis
          using stay by (cases "relayMessageChannel s1 (cs_Height s1)"; cases "the (relayMessageChannel s1 (cs_Height s1)) (cs_Round s1)") auto
      next
        case True
        then obtain u ms where u: "relayMessageChannel s1 (cs_Height s1) = Some u" "u (cs_Round s1) = Some ms" by blast
        have r0: "cs_Round s1 = 0" and bo: "buffered_ok s1" using q1 by (auto simp: cs_inv_def)
        have "cs_Height s + 1 \<in> later s" using u q1 by (auto simp: later_def s2 split: if_splits)
        then have c: "card (later s1) < card (later s)"
          using sub finite_later [OF s] by (intro psubset_card_mono) auto
        have "settles E (goes s1) (\<lambda>rec. relay_messages E rec ms s1)"
        proof (rule relay_messages_settles [where c = "card (later s1)"])
          fix t :: "('a, 'b) ConsensusState"
          assume "cs_inv t" "running t" "card (later t) \<le> card (later s1)"
          then show "settles E (goes t) (\<lambda>rec. rec t)" using c load_le [of t] by (intro IH) auto
        next
          show "\<forall>m \<in> set ms. msg_height m \<le> cs_Height s1 \<and> msg_round m = 0"
            using bo u r0 by (fastforce simp: buffered_ok_def)
        qed (use q1 in auto)
        then have "settles E ?P (\<lambda>rec. relay_messages E rec ms s1)"
        proof (rule settles_mono)
          fix t assume t: "goes s1 t"
          have "card (later t) \<le> card (later s1)" using goes_card [OF t] q1 by simp
          then show "?P t" using goes_trans [OF g t] c load_le [of t] by auto
        qed
        then show ?thesis using u by simp
      qed
    qed
    note 3 = settles_bind [OF 1 2]
    show ?thesis
      unfolding enterNewRound_def Let_def
      by (rule settles_bind [where Q = "\<lambda>_. True", OF _ 3], rule settles_const) (simp_all add: returns_rules run_all_def)
  qed
  have r: "settles E (\<lambda>s3. \<exists>h. NextHeight (heightDatas s2) = Ret h \<and> s3 = s2\<lparr>heightDatas := h\<rparr>) (\<lambda>_. Some (reset_height s))"
    unfolding reset_height_def s2_def Let_def
    by (intro settles_const returns_rules run_all_rules go_all_rules) auto
  show ?thesis unfolding enterNewHeight_def by (rule settles_bind [OF r]) (use step in auto)
qed

section \<open>Every transition settles\<close>

definition rank :: "('a, 'm) ConsensusState \<Rightarrow> nat" where
  "rank s = 8 * load s + nat (RoundStepCrossShardCommit - cs_Step s)"

lemma rank_load: "load s' < load s \<Longrightarrow> running s' \<Longrightarrow> rank s' < rank s"
  unfolding rank_def running_def round_step_defs by linarith

lemma quiet_load: "quiet s s' \<Longrightarrow> load s' \<le> load s"
  by (auto simp: load_def quiet_def hd_quiet_def later_def)

lemma quiet_next_goes:
  assumes "quiet_next s s'" "cs_inv s" "running s" "cs_Step s \<noteq> RoundStepCrossShardCommit"
  shows "goes s s'" "rank s' < rank s"
proof -
  obtain s1 where s1: "quiet s s1" "s' = Next s1" using assms(1) by (auto simp: quiet_next_def)
  then have st: "s' = s1\<lparr>cs_Step := cs_Step s + 1\<rparr>" using assms(4) by (simp add: Next_def quiet_def)
  have "cs_inv s1" using kept_inv [OF quiet_kept [OF s1(1)] assms(2)] .
  then have "cs_inv s'" by (simp add: st cs_inv_def buffered_ok_def)
  then show "goes s s'" using s1(1) assms(3,4)
    by (auto simp: st goes_def running_def round_step_defs later_def quiet_def hd_quiet_def same_frame_def)
  have "load s' = load s1" by (simp add: st load_def later_def)
  then show "rank s' < rank s"
    using quiet_load [OF s1(1)] assms(3,4) by (simp add: rank_def st running_def round_step_defs) linarith
qed

lemma step_settles:
  assumes IH: "\<And>s2. cs_inv s2 \<Longrightarrow> running s2 \<Longrightarrow> rank s2 < rank s \<Longrightarrow> settles E (goes s2) (\<lambda>rec. rec s2)"
    and s: "cs_inv s" "running s" "cs_Step s \<noteq> RoundStepCrossShardCommit"
    and q: "quiet s s1" and f: "returns r" "run_all (quiet_next s1) r"
  shows "settles E (goes s) (\<lambda>rec. run_bind r rec)"
proof (rule settles_bind [where Q = "quiet_next s1"])
  fix x assume x: "quiet_next s1 x"
  have "quiet_next s x" using x quiet_trans [OF q] by (auto simp: quiet_next_def)
  note g = quiet_next_goes [OF this s]
  have "settles E (goes x) (\<lambda>rec. rec x)" using g by (intro IH) (auto simp: goes_def)
  then show "settles E (goes s) (\<lambda>rec. rec x)" by (rule settles_mono) (rule goes_trans [OF g(1)])
qed (rule settles_const [OF f])

lemma height_settles:
  assumes IH: "\<And>s2. cs_inv s2 \<Longrightarrow> running s2 \<Longrightarrow> rank s2 < rank s \<Longrightarrow> settles E (goes s2) (\<lambda>rec. rec s2)"
    and s: "cs_inv s" "\<not> waiting (heightDatas s)" and k: "kept s s1" and f: "go_all (quiet s1) r"
  shows "settles E (goes s) (\<lambda>rec. run_bind (run_bind (Some r) (enterNewHeight E rec)) rec)"
proof -
  have l: "load s = 2 * card (later s) + 1" using s(2) by (simp add: load_def)
  have r: "settles E (kept s) (\<lambda>_. Some r)"
  proof (intro settles_const returns_rules run_all_rules)
    show "go_all (kept s) r"
      using f by (rule go_all_mono) (drule quiet_kept, use k same_frame_trans in \<open>auto simp: kept_def\<close>)
  qed
  have 1: "settles E (\<lambda>s'. goes s s' \<and> load s' \<le> 2 * card (later s)) (\<lambda>rec. run_bind (Some r) (enterNewHeight E rec))"
  proof (rule settles_bind [OF r])
    fix x assume x: "kept s x"
    have e: "later x = later s" using x by (simp add: kept_def later_def)
    have ix: "cs_inv x" using kept_inv [OF x s(1)] .
    have "settles E (\<lambda>s'. goes x s' \<and> load s' \<le> 2 * card (later x)) (\<lambda>rec. enterNewHeight E rec x)"
    proof (rule enterNewHeight_settles [OF _ ix])
      fix t :: "('a, 'b) ConsensusState"
      assume t: "cs_inv t" "running t" "load t \<le> 2 * card (later x)"
      then show "settles E (goes t) (\<lambda>rec. rec t)" using rank_load [of t s] l e by (intro IH) auto
    qed
    then show "settles E (\<lambda>s'. goes s s' \<and> load s' \<le> 2 * card (later s)) (\<lambda>rec. enterNewHeight E rec x)"
      by (rule settles_mono) (use x e in \<open>auto simp: goes_def kept_def same_frame_def\<close>)
  qed
  show ?thesis
  proof (rule settles_bind [OF 1])
    fix x assume x: "goes s x \<and> load x \<le> 2 * card (later s)"
    have "settles E (goes x) (\<lambda>rec. rec x)" using x rank_load [of x s] l by (intro IH) (auto simp: goes_def)
    then show "settles E (goes s) (\<lambda>rec. rec x)" by (rule settles_mono) (use x goes_trans in blast)
  qed
qed

lemma Finish_cross_quiet:
  assumes "RelatedShards (hd_ShardInfo h) \<noteq> []"
  shows "FinishCrossShardAccept h = (b, h') \<Longrightarrow> hd_quiet h h'" "FinishCrossShardProposal h = (b, h') \<Longrightarrow> hd_quiet h h'"
  using Finish_waiting(1,2) [of h] assms pass_any_frame Finish_pass_any(1,2) [of h] by (auto simp: hd_quiet_def)

lemma stop_settles: "cs_inv s \<Longrightarrow> running s \<Longrightarrow> kept s s1 \<Longrightarrow> settles E (goes s) (\<lambda>rec. Some (Ret s1))"
  using kept_goes [of s s1] by (intro settles_const returns_rules) (auto simp: run_all_def)

lemma transitions_settle: "cs_inv s \<Longrightarrow> running s \<Longrightarrow> settles E (goes s) (\<lambda>rec. rec s)"
proof (induction s rule: measure_induct_rule [of rank])
  case (less s)
  note i = less.prems
  have IH: "settles E (goes s2) (\<lambda>rec. rec s2)" if "cs_inv s2" "running s2" "rank s2 < rank s" for s2
    using less.IH that by blast
  let ?h = "heightDatas s"
  have early: "quiet s (s\<lparr>heightDatas := h\<rparr>)" if "pass_only ?h (b, h)" for b h
    by (rule quiet_fields(1) [OF pass_only_quiet [OF that]])
  have late: "kept s (s\<lparr>heightDatas := h\<rparr>)" if "pass_any ?h (b, h)" for b h
    using pass_any_frame [OF that] by (simp add: kept_def)
  have M: "0 < MaxPartSize s" and R: "RelatedShards (hd_ShardInfo ?h) \<noteq> []" using i(1) by (simp_all add: cs_inv_def)
  have stop: "settles E (goes s) (\<lambda>rec. Some (Ret s1))" if "kept s s1" for s1
    by (rule stop_settles [OF i that])
  have "settles E (goes s) (\<lambda>rec. transition E rec s)"
  proof -
    consider "cs_Step s = RoundStepPropose" | "cs_Step s = RoundStepPrevote" | "cs_Step s = RoundStepPrecommit"
      | "cs_Step s = RoundStepCrossShardAccept" | "cs_Step s = RoundStepCrossShardCommit"
      using i(2) by (fastforce simp: running_def round_step_defs)
    then show ?thesis
    proof cases
      case 1
      obtain b h where f: "FinishProposal ?h = (b, h)" by (cases "FinishProposal ?h")
      then have q: "quiet s (s\<lparr>heightDatas := h\<rparr>)" using early Finish_pass_only(1) by metis
      have "settles E (goes s) (\<lambda>rec. run_bind (Some (doPropose E (s\<lparr>heightDatas := h\<rparr>))) rec)"
        by (rule step_settles [OF IH i _ q]) (use 1 doPropose_quiet in \<open>auto simp: round_step_defs returns_rules run_all_def\<close>)
      then show ?thesis using stop [OF quiet_kept [OF q]] 1 f by (cases b) (simp_all add: transition_def)
    next
      case 2
      obtain b h where f: "FinishPrevote ?h = (b, h)" by (cases "FinishPrevote ?h")
      then have q: "quiet s (s\<lparr>heightDatas := h\<rparr>)" using early Finish_pass_only(2) by metis
      have "settles E (goes s) (\<lambda>rec. run_bind (Some (doPrevote E (s\<lparr>heightDatas := h\<rparr>))) rec)"
        by (rule step_settles [OF IH i _ q]) (use 2 doPrevote_quiet in \<open>auto simp: round_step_defs returns_rules run_all_def\<close>)
      then show ?thesis using stop [OF quiet_kept [OF q]] 2 f by (cases b) (simp_all add: transition_def round_step_defs)
    next
      case 3
      obtain b h where f: "FinishPrecommit ?h = (b, h)" by (cases "FinishPrecommit ?h")
      then have q: "quiet s (s\<lparr>heightDatas := h\<rparr>)" using early Finish_pass_only(3) by metis
      have "settles E (goes s) (\<lambda>rec. run_bind (doPrecommit E (s\<lparr>heightDatas := h\<rparr>)) rec)"
        by (rule step_settles [OF IH i _ q])
          (use 3 M doPrecommit_quiet in \<open>auto simp: round_step_defs run_all_def intro: doPrecommit_returns\<close>)
      then show ?thesis using stop [OF quiet_kept [OF q]] 3 f by (cases b) (simp_all add: transition_def round_step_defs)
    next
      case 4
      obtain b1 h1 where f1: "(if cs_IsIShard s then FinishCrossShardAccept ?h else (False, ?h)) = (b1, h1)" by fastforce
      then have q1: "hd_quiet ?h h1" using Finish_cross_quiet(1) [OF R] by (auto split: if_splits)
      let ?s1 = "s\<lparr>heightDatas := h1\<rparr>"
      have R1: "RelatedShards (hd_ShardInfo h1) \<noteq> []" using R q1 by (simp add: hd_quiet_def same_frame_def)
      obtain b2 h2 where f2: "(if cs_IsCShard ?s1 then FinishCrossShardProposal h1 else (False, h1)) = (b2, h2)" by fastforce
      then have q2: "hd_quiet ?h h2" using hd_quiet_trans [OF q1] Finish_cross_quiet(2) [OF R1] q1 by (auto split: if_splits)
      let ?s2 = "s\<lparr>heightDatas := h2\<rparr>"
      have "settles E (goes s) (\<lambda>rec. run_bind (Some (doCSA E ?s1)) rec)"
        by (rule step_settles [OF IH i _ quiet_fields(1) [OF q1]])
          (use 4 doCSA_quiet in \<open>auto simp: round_step_defs returns_rules run_all_def\<close>)
      moreover have "settles E (goes s) (\<lambda>rec. run_bind (Some (doCSP E ?s2)) rec)"
        by (rule step_settles [OF IH i _ quiet_fields(1) [OF q2]])
          (use 4 doCSP_quiet in \<open>auto simp: round_step_defs returns_rules run_all_def\<close>)
      moreover have "transition E rec s = (if b1 then run_bind (Some (doCSA E ?s1)) rec
          else if b2 then run_bind (Some (doCSP E ?s2)) rec else Some (Ret ?s2))" for rec
        using 4 f1 f2 by (cases b1; cases b2) (auto simp: transition_def Let_def round_step_defs split: if_splits)
      ultimately show ?thesis using stop [OF quiet_kept [OF quiet_fields(1) [OF q2]]] by (cases b1; cases b2) simp_all
    next
      case 5
      obtain b1 h1 where f1: "(if cs_IsIShard s then FinishCrossShardCommit_I ?h else (False, ?h)) = (b1, h1)" by fastforce
      then have q1: "pass_any ?h (b1, h1)" "b1 \<Longrightarrow> \<not> waiting ?h"
        using Finish_pass_any(3) [of ?h] Finish_waiting(3) [OF _ R] by (auto intro: pass_any_self split: if_splits)
      let ?s1 = "s\<lparr>heightDatas := h1\<rparr>"
      obtain b2 h2 where f2: "(if cs_IsCShard ?s1 then FinishCrossShardCommit_B h1 else (False, h1)) = (b2, h2)" by fastforce
      let ?s2 = "s\<lparr>heightDatas := h2\<rparr>"
      have p2: "pass_any ?h (b2, h2)"
        using q1(1) f2 Finish_pass_any(4) [of h1] by (auto simp: pass_any_def split: if_splits)
      have "transition E rec s = (if b1 then run_bind (run_bind (Some (finish_CSC_I E ?s1)) (enterNewHeight E rec)) rec
          else if b2 then run_bind (run_bind (Some (finish_CSC_C E ?s2)) (enterNewHeight E rec)) rec else Some (Ret ?s2))" for rec
        using 5 f1 f2 by (cases b1; cases b2) (auto simp: transition_def Let_def round_step_defs split: if_splits)
      moreover have "b1 \<Longrightarrow> settles E (goes s) (\<lambda>rec. run_bind (run_bind (Some (finish_CSC_I E ?s1)) (enterNewHeight E rec)) rec)"
        by (rule height_settles [OF IH i(1) q1(2) late [OF q1(1)] finish_CSC_I_quiet])
      moreover have "\<not> waiting ?h" if "\<not> b1" b2
      proof
        assume w: "waiting ?h"
        have "si_IsCShard (hd_ShardInfo ?h)" using that(2) f2 q1(1) by (auto simp: cs_IsCShard_def hd_IsCShard_def pass_any_def split: if_splits)
        then have "h1 = ?h" using f1 by (auto simp: cs_IsIShard_def hd_IsIShard_def si_IsIShard_def si_IsCShard_def BLOCKTYPE_I_def BLOCKTYPE_C_def split: if_splits)
        then show False using that(2) f2 Finish_waiting(4) [OF w R] by (auto split: if_splits)
      qed
      ultimately show ?thesis using stop [OF late [OF p2]] height_settles [OF IH i(1) _ late [OF p2] finish_CSC_C_quiet]
        by (cases b1; cases b2) simp_all
    qed
  qed
  then show ?case by (rule settles_transition)
qed

end
