(* ===== verification/Node.thy ===== *)
theory Node
  imports ConsensusRuns
begin

text \<open>
  The states a node of \<open>melete/consensus/main.go\<close> reaches when it is created, started and fed with
  arbitrary messages. The properties: it answers every message, its height, round and buffered messages
  stay consistent, messages for later heights are kept, a node that was not started diverges, and the
  blocks of an inner shard form a hash chain.
\<close>

section \<open>Reachable states\<close>

text \<open>A node is created, started, and then receives messages, whatever their bytes.\<close>

inductive reachable :: "('a, 'm) env \<Rightarrow> ('a, 'm) ConsensusState \<Rightarrow> ('a, 'm) ConsensusState \<Rightarrow> bool"
  for E :: "('a, 'm) env" and s0 :: "('a, 'm) ConsensusState" where
  start: "Start E n s0 = Some (Ret s) \<Longrightarrow> reachable E s0 s"
| receive: "reachable E s0 s \<Longrightarrow> cs_Receive E n bz messageType s = Some (Ret (e, s')) \<Longrightarrow> reachable E s0 s'"

definition initial_node :: "('a, 'm) ConsensusState \<Rightarrow> bool" where
  "initial_node s \<longleftrightarrow> (\<exists>B chain_id si signer i mp cmp abci store now interval part_size max_txs.
     NewConsensusState B chain_id si signer i mp cmp abci store now interval part_size max_txs = Ret s \<and>
     0 < part_size \<and> RelatedShards si \<noteq> [])"

lemma clearAll_frame: "go_all (same_frame h) (clearAll h)"
  unfolding clearAll_def clearProposal_def clearPrevote_def clearPrecommit_def clearCrossShardData_def
  by (intro go_all_rules) (auto simp: same_frame_def split: bind_splits)

lemma NewHeightData_frame: "go_all (\<lambda>h. hd_Height h = n \<and> hd_Round h = 0 \<and> hd_ShardInfo h = si) (NewHeightData B cid n si)"
  unfolding NewHeightData_def by (rule go_all_mono [OF clearAll_frame]) (simp add: same_frame_def SetShardInfo_def)

lemma NewConsensusState_inv:
  assumes "0 < part_size" "RelatedShards si \<noteq> []"
  shows "go_all (\<lambda>s. cs_inv s \<and> cs_Height s = 0)
    (NewConsensusState B cid si signer i mp cmp abci store now interval part_size max_txs)"
  unfolding NewConsensusState_def
  by (rule go_all_bind [OF NewHeightData_frame], intro go_all_rules) (use assms in \<open>simp add: cs_inv_def buffered_ok_def\<close>)

lemma initial_node_inv: "initial_node s \<Longrightarrow> cs_inv s \<and> cs_Height s = 0"
  by (auto simp: initial_node_def dest: go_allD [OF NewConsensusState_inv, rotated 2])

lemma settles_result: "settles E P F \<Longrightarrow> F (handleStateTransition E n) = Some (Ret x) \<Longrightarrow>
    (\<And>n m y. n \<le> m \<Longrightarrow> F (handleStateTransition E n) = Some y \<Longrightarrow> F (handleStateTransition E m) = Some y) \<Longrightarrow> P x"
  unfolding settles_def by (metis nle_le option.inject)

lemma enterNewHeight_fuel: "n \<le> m \<Longrightarrow> enterNewHeight E (handleStateTransition E n) s = Some y \<Longrightarrow>
    enterNewHeight E (handleStateTransition E m) s = Some y"
  using run_le_Some [OF enterNewHeight_le [OF handleStateTransition_le]] .

lemma doMessage_fuel: "n \<le> m \<Longrightarrow> doMessage E (handleStateTransition E n) msg s = Some y \<Longrightarrow>
    doMessage E (handleStateTransition E m) msg s = Some y"
  using run_le_Some [OF doMessage_le [OF handleStateTransition_le]] .

lemmas enterNewHeight_result = settles_result [where F = "\<lambda>rec. enterNewHeight E rec s" for E s, OF _ _ enterNewHeight_fuel]

lemmas doMessage_result = settles_result [where F = "\<lambda>rec. doMessage E rec m s" for E m s, OF _ _ doMessage_fuel]

lemma Start_settles:
  assumes "cs_inv s" "cs_Height s = 0"
  shows "settles E (goes s) (\<lambda>rec. enterNewHeight E rec s)"
  by (rule settles_mono [OF enterNewHeight_settles [OF _ assms(1)]]) (auto intro: transitions_settle)

lemma Start_inv:
  assumes "initial_node s0" "Start E n s0 = Some (Ret s)"
  shows "cs_inv s \<and> running s"
proof -
  have i: "cs_inv s0" "cs_Height s0 = 0" using initial_node_inv [OF assms(1)] by auto
  have "goes s0 s"
    using enterNewHeight_result [OF Start_settles [OF i], of E n s] assms(2) i(2) by (simp add: Start_def)
  then show ?thesis by (simp add: goes_def)
qed

text \<open>A message from the network may be buffered before it is handled.\<close>

lemma buffered_put:
  assumes "cs_inv s" "cs_Height s \<le> msg_height m"
    and "\<forall>r ms. u r = Some ms \<longrightarrow> (\<forall>x \<in> set ms. msg_height x = msg_height m \<and> msg_round x = r)"
  shows "cs_inv (s\<lparr>relayMessageChannel := (relayMessageChannel s)(msg_height m \<mapsto> u)\<rparr>)"
  using assms by (simp add: cs_inv_def buffered_ok_def)

lemma addRelay_kept:
  assumes i: "cs_inv s" and r: "addRelayMessageIfOverTime s (msg_height m) (msg_round m) m = (b, s')"
  shows "cs_inv s' \<and> cs_Height s' = cs_Height s \<and> cs_Step s' = cs_Step s \<and> heightDatas s' = heightDatas s"
proof (cases "cs_Height s < msg_height m \<or> cs_Height s = msg_height m \<and> cs_Round s < msg_round m")
  case True
  then have le: "cs_Height s \<le> msg_height m" by auto
  show ?thesis
  proof (cases "relayMessageChannel s (msg_height m)")
    case None
    have "cs_inv (s\<lparr>relayMessageChannel := (relayMessageChannel s)(msg_height m \<mapsto> [msg_round m \<mapsto> [m]])\<rparr>)"
      by (rule buffered_put [OF i le]) (simp split: if_splits)
    moreover have "s' = s\<lparr>relayMessageChannel := (relayMessageChannel s)(msg_height m \<mapsto> [msg_round m \<mapsto> [m]])\<rparr>"
      using r True None by (simp add: addRelayMessageIfOverTime_def)
    ultimately show ?thesis by simp
  next
    case (Some u)
    let ?u = "u(msg_round m \<mapsto> map_get [] u (msg_round m) @ [m])"
    have u: "\<forall>r ms. u r = Some ms \<longrightarrow> (\<forall>x \<in> set ms. msg_height x = msg_height m \<and> msg_round x = r)"
      using i Some by (simp add: cs_inv_def buffered_ok_def)
    have "cs_inv (s\<lparr>relayMessageChannel := (relayMessageChannel s)(msg_height m \<mapsto> ?u)\<rparr>)"
      by (rule buffered_put [OF i le]) (use u in \<open>cases "u (msg_round m)"; auto simp: map_get_def split: if_splits\<close>)
    moreover have "s' = s\<lparr>relayMessageChannel := (relayMessageChannel s)(msg_height m \<mapsto> ?u)\<rparr>"
      using r True Some by (simp add: addRelayMessageIfOverTime_def)
    ultimately show ?thesis by simp
  qed
qed (use assms in \<open>auto simp: addRelayMessageIfOverTime_def\<close>)

lemma Receive_settles:
  assumes "cs_inv s" "running s"
  shows "settles E (\<lambda>(e, s'). cs_inv s' \<and> running s' \<and> cs_Height s \<le> cs_Height s') (\<lambda>rec. doMessage E rec m s)"
proof -
  let ?P = "\<lambda>(e, s'). cs_inv s' \<and> running s' \<and> cs_Height s \<le> cs_Height s'"
  obtain b s1 where r: "addRelayMessageIfOverTime s (msg_height m) (msg_round m) m = (b, s1)" by fastforce
  have k: "cs_inv s1" "cs_Height s1 = cs_Height s" "cs_Step s1 = cs_Step s" using addRelay_kept [OF assms(1) r] by auto
  have run1: "running s1" using assms(2) k(3) by (simp add: running_def)
  have a: "settles E (\<lambda>(e, s2). kept s1 s2) (\<lambda>_. Some (add_message E m s1))"
    by (intro settles_const returns_rules run_all_rules add_message_kept)
  have c: "settles E ?P (\<lambda>rec. case e of
               Ptr DoNothing \<Rightarrow> Some (Ret (Nil_ptr, s2))
             | Ptr err \<Rightarrow> Some (Ret (Ptr err, s2))
             | Nil_ptr \<Rightarrow> run_bind (rec s2) (\<lambda>s3. Some (Ret (Nil_ptr, s3))))" if "kept s1 s2" for e :: "HDError ptr" and s2
  proof -
    have g: "goes s1 s2" using kept_goes [OF that k(1) run1] .
    have "settles E (goes s2) (\<lambda>rec. rec s2)" using transitions_settle g by (auto simp: goes_def)
    then have "settles E ?P (\<lambda>rec. run_bind (rec s2) (\<lambda>s3. Some (Ret (Nil_ptr :: HDError ptr, s3))))"
      by (rule settles_bind) (use g k(2) in \<open>auto intro!: settles_const returns_rules simp: run_all_def goes_def\<close>)
    moreover have "settles E ?P (\<lambda>rec. Some (Ret (e', s2)))" for e' :: "HDError ptr"
      using g k(2) by (intro settles_const returns_rules) (simp add: run_all_def goes_def)
    ultimately show ?thesis by (cases e) (auto split: HDError.split)
  qed
  show ?thesis
  proof (cases b)
    case True
    have "settles E ?P (\<lambda>rec. Some (Ret (Nil_ptr :: HDError ptr, s1)))"
      using k run1 by (intro settles_const returns_rules) (simp add: run_all_def)
    then show ?thesis using True r by (simp add: doMessage_def)
  next
    case False
    then show ?thesis
      using settles_bind [OF a, of ?P "\<lambda>rec (e, s2). case e of
               Ptr DoNothing \<Rightarrow> Some (Ret (Nil_ptr, s2))
             | Ptr err \<Rightarrow> Some (Ret (Ptr err, s2))
             | Nil_ptr \<Rightarrow> run_bind (rec s2) (\<lambda>s3. Some (Ret (Nil_ptr, s3)))"] c r
      by (auto simp: doMessage_def split: prod.splits)
  qed
qed

lemma reachable_inv: "reachable E s0 s \<Longrightarrow> initial_node s0 \<Longrightarrow> cs_inv s \<and> running s"
proof (induction rule: reachable.induct)
  case (start n s)
  then show ?case using Start_inv by blast
next
  case (receive s n bz messageType e s')
  then have i: "cs_inv s" "running s" by auto
  have d: "cs_inv t \<and> running t" if "doMessage E (handleStateTransition E n) m s = Some (Ret (x, t))" for m x t
    using doMessage_result [OF Receive_settles [OF i] that] by simp
  obtain r where r: "decode_message E (cs_IsIShard s) bz messageType = Ret r"
    using receive.hyps(2) by (auto simp: cs_Receive_def run_bind_Ret)
  show ?case
  proof (cases r)
    case (Inl x)
    then show ?thesis using receive.hyps(2) r i by (simp add: cs_Receive_def)
  next
    case (Inr m)
    then obtain x where "doMessage E (handleStateTransition E n) m s = Some (Ret (x, s'))"
      using receive.hyps(2) r by (auto simp: cs_Receive_def run_bind_Ret)
    then show ?thesis using d by blast
  qed
qed

section \<open>Messages for later heights\<close>

lemma add_later_nothing:
  assumes "hd_Height (heightDatas s) \<noteq> msg_height m"
  shows "go_all (\<lambda>(e, s'). e = Ptr DoNothing \<and> s' = s) (add_message E m s)"
  using assms
  by (cases m)
    (auto simp: add_message_def go_all_def hd_AddPart_def addInnerPart_def AddProposal_def AddPrevote_def AddPrecommit_def
      AddCrossShardProposal_def AddCrossShardAccept_def AddCrossShardCommit_def Let_def split: bind_splits if_splits)

section \<open>A node that never starts\<close>

lemma stuck: "\<not> running s \<Longrightarrow> handleStateTransition E n s = None"
  by (induction n) (auto simp: transition_def running_def round_step_defs Let_def)

section \<open>A small network\<close>

definition demo_env :: "(unit, unit) env" where
  "demo_env = \<lparr>e_tp = demo_tp, e_receipt_codec = \<lparr>Marshal = \<lambda>m. Some [1], Unmarshal = \<lambda>bz. None\<rparr>,
     e_now = \<lambda>n. \<lparr>sec = n, nsec = 0\<rparr>, e_ReapTx = \<lambda>m n. Inr ([], 0), e_Update = \<lambda>m txs bz. Ret (),
     e_PreExecutionC = \<lambda>a b. Ret (\<lparr>pc_Code = 0, pc_CrossShardDatas = []\<rparr>, a, b),
     e_PreExecutionI = \<lambda>a bs. Ret (\<lparr>pi_Code = 0, CommitStatusVote = []\<rparr>, a),
     e_Execution = \<lambda>a cs st is. Ret (\<lparr>CrossShardResps = Map.empty, InnerShardResps = Map.empty\<rparr>, a),
     e_Commit = \<lambda>a. ([], a)\<rparr>"

definition demo_state :: "bytes \<Rightarrow> int \<Rightarrow> int \<Rightarrow> (unit, unit) ConsensusState" where
  "demo_state e height step =
     \<lparr>cs_Height = height, cs_Round = 0, cs_Step = step, cs_mempool = (), cross_shard_mempool = (), cs_abci = (),
      cs_store = \<lparr>contents = Map.empty, failing = (\<lambda>k. False)\<rparr>, cs_signer = \<lparr>privateKey = 1\<rparr>, signerIndex = 1,
      heightDatas = (demo_node ''a'')\<lparr>hd_Height := height,
         CrossShardAccepts := [''b'' \<mapsto> NewCSAShardSet height ''b'' [demo_peer] (Ptr \<lparr>publicKeys = [Ptr 1]\<rparr>)]\<rparr>,
      relayMessageChannel = Map.empty, MinBlockInterval = 1, LastBlockTime = \<lparr>sec = 0, nsec = 0\<rparr>, MaxPartSize = 2,
      maxBlockTxNum = 10, LastBlockHash = (if height = 0 then e else []), LastChainedHash = [], LastRelatedCommitStatus = [],
      LastCommitStatus = [], LastReceiptRoot = e, LastStateRoot = [], BlockHash = [], ChainedHash = [],
      cs_RelatedCommitStatus = [], CommitStatus = [], outbox = []\<rparr>"

lemma demo_clear:
  "NextHeight ((demo_node ''a'')\<lparr>hd_Height := 0, CrossShardAccepts := a\<rparr>) =
   Ret ((demo_node ''a'')\<lparr>hd_Height := 1, CrossShardAccepts := [''b'' \<mapsto> NewCSAShardSet 1 ''b'' [demo_peer] (Ptr \<lparr>publicKeys = [Ptr 1]\<rparr>)]\<rparr>)"
  by (auto simp: NextHeight_def demo_si_def demo_node_def clearAll_def clearProposal_def clearPrevote_def
      clearPrecommit_def clearCrossShardData_def validator_size_def demo_peer_def
      Verifier_Size_def NewBitVector_def peers_def validators_def RoundStepNewHeight_def fun_eq_iff map_get_def)

lemma demo_new_node:
  "\<exists>e. NewConsensusState toy_bls ''a'' demo_si \<lparr>privateKey = 1\<rparr> 1 () () () \<lparr>contents = Map.empty, failing = (\<lambda>k. False)\<rparr>
     \<lparr>sec = 0, nsec = 0\<rparr> 1 2 10 = Ret (demo_state e 0 RoundStepNewHeight) \<and> initial_node (demo_state e 0 RoundStepNewHeight)"
proof -
  obtain e where e: "HashFromByteSlices [] = Ret e" using HashFromByteSlices_tree_hash by blast
  have "NewHeightData toy_bls ''a'' 0 demo_si = Ret ((demo_node ''a'')\<lparr>hd_Height := 0,
      CrossShardAccepts := [''b'' \<mapsto> NewCSAShardSet 0 ''b'' [demo_peer] (Ptr \<lparr>publicKeys = [Ptr 1]\<rparr>)]\<rparr>)"
    by (auto simp: NewHeightData_def SetShardInfo_def demo_si_def demo_node_def clearAll_def clearProposal_def clearPrevote_def
      clearPrecommit_def clearCrossShardData_def validator_size_def NewVerifier_def demo_peer_def toy_bls_def
      Verifier_Size_def NewBitVector_def peers_def validators_def RoundStepNewHeight_def fun_eq_iff map_get_def)
  then have n: "NewConsensusState toy_bls ''a'' demo_si \<lparr>privateKey = 1\<rparr> 1 () () () \<lparr>contents = Map.empty, failing = (\<lambda>k. False)\<rparr>
     \<lparr>sec = 0, nsec = 0\<rparr> 1 2 10 = Ret (demo_state e 0 RoundStepNewHeight)"
    using e by (simp add: NewConsensusState_def demo_state_def)
  then have "initial_node (demo_state e 0 RoundStepNewHeight)"
    unfolding initial_node_def by (intro exI conjI, assumption) (simp_all add: demo_si_def)
  with n show ?thesis by blast
qed

lemma demo_started: "Start demo_env n (demo_state e 0 RoundStepNewHeight) = Some (Ret (demo_state e 1 RoundStepPropose))"
proof -
  have r: "reset_height (demo_state e 0 RoundStepNewHeight) = Ret (demo_state e 1 RoundStepNewHeight)"
    by (simp add: reset_height_def demo_state_def Next_def Let_def demo_clear)
  have "isProposer (demo_state e 1 RoundStepPropose) = Ret False"
    by (simp add: isProposer_def calculateProposer_def demo_state_def demo_node_def validator_size_def Verifier_Size_def signed_modulo_int_def)
  then have "enterNewRound demo_env rec (demo_state e 1 RoundStepNewHeight) = Some (Ret (demo_state e 1 RoundStepPropose))" for rec
    by (simp add: enterNewRound_def demo_state_def)
  then show ?thesis using r by (simp add: Start_def enterNewHeight_def) (simp add: demo_state_def)
qed

section \<open>The chain of blocks\<close>

text \<open>\<open>holds b x s\<close>: the node's own block is \<open>b\<close>, and \<open>x\<close> is recorded as the hash of the height's block.\<close>

definition holds :: "Block \<Rightarrow> bytes \<Rightarrow> ('a, 'm) ConsensusState \<Rightarrow> bool" where
  "holds b x s \<longleftrightarrow> block_at s (MyChainID (heightDatas s)) = Ptr b \<and> BlockHash s = x"

lemma holds_upd [simp]:
  "holds b x (s\<lparr>cs_abci := x1\<rparr>) = holds b x s" "holds b x (s\<lparr>cs_store := x3\<rparr>) = holds b x s"
  "holds b x (s\<lparr>cs_mempool := x4\<rparr>) = holds b x s" "holds b x (s\<lparr>ChainedHash := x6\<rparr>) = holds b x s"
  "holds b x (s\<lparr>cs_RelatedCommitStatus := x7\<rparr>) = holds b x s" "holds b x (s\<lparr>CommitStatus := x8\<rparr>) = holds b x s"
  "holds b x (s\<lparr>LastBlockTime := x9\<rparr>) = holds b x s" "holds b x (s\<lparr>LastReceiptRoot := x10\<rparr>) = holds b x s"
  "holds b x (s\<lparr>LastStateRoot := x11\<rparr>) = holds b x s"
  by (simp_all add: holds_def block_at_def)

lemma put_block_at_holds:
  "holds b x s \<Longrightarrow> (shard = MyChainID (heightDatas s) \<Longrightarrow> b' = b) \<Longrightarrow> holds b x (put_block_at shard b' s)"
  by (auto simp: holds_def put_block_at_def block_at_def update_conv' split: option.splits)

lemma MyChainID_put [simp]: "MyChainID (heightDatas (put_block_at shard b s)) = MyChainID (heightDatas s)"
  by (simp add: put_block_at_def)

lemma hash_block_at_holds:
  assumes "holds b x s" "Block_Hash (tp_time (e_tp E)) b = Ret (hs, b)" "hash_block_at E s shard = Ret (y, s')"
  shows "holds b x s'" "shard = MyChainID (heightDatas s) \<Longrightarrow> y = hs"
proof -
  obtain c d where c: "block_at s shard = Ptr c" "Block_Hash (tp_time (e_tp E)) c = Ret (y, d)" "s' = put_block_at shard d s"
    using assms(3) by (auto simp: hash_block_at_def need_block_def split: bind_splits ptr.splits)
  have m: "c = b" "y = hs" "d = b" if "shard = MyChainID (heightDatas s)"
    using that c assms(1,2) by (auto simp: holds_def)
  show "holds b x s'" using put_block_at_holds [OF assms(1)] m(3) c(3) by simp
  show "shard = MyChainID (heightDatas s) \<Longrightarrow> y = hs" by (rule m(2))
qed

lemma go_all_conj: "go_all P r \<Longrightarrow> go_all Q r \<Longrightarrow> go_all (\<lambda>x. P x \<and> Q x) r"
  by (simp add: go_all_def)

lemma chain_inner_holds:
  assumes "Block_Hash (tp_time (e_tp E)) b = Ret (hs, b)"
  shows "holds b x s \<Longrightarrow> go_all (holds b x) (chain_inner E st i shards s)"
proof (induction shards arbitrary: s i)
  case (Cons shard shards)
  then show ?case
    unfolding chain_inner.simps by (intro go_all_rules Cons.IH) (use hash_block_at_holds [OF Cons.prems assms] in simp)
qed (simp add: go_all_def)

lemma set_roots_holds: "holds b x s \<Longrightarrow> go_all (holds b x) (set_roots E rs s)"
  unfolding set_roots_def Let_def by (intro go_all_rules) (auto split: prod.splits simp: go_all_def)

lemma store_block_holds:
  assumes "Block_Hash (tp_time (e_tp E)) b = Ret (hs, b)" "holds b x s"
  shows "go_all (holds b x) (store_block E height chain shard s)"
proof -
  have "d = b" if "need_block s shard = Ret c" "SetBlockByHeight (tp_time (e_tp E)) cd p height chain c = Ret (e, p', d)"
    "shard = MyChainID (heightDatas s)" for c cd p e p' d
  proof -
    have "c = b" using that(1,3) assms(2) by (simp add: need_block_def holds_def)
    then show ?thesis using that(2) assms(1) by (auto simp: SetBlockByHeight_def Let_def split: bind_splits prod.splits ptr.splits)
  qed
  then show ?thesis
    unfolding store_block_def by (intro go_all_rules put_block_at_holds) (use assms(2) in \<open>auto\<close>)
qed

lemma store_blocks_holds:
  assumes "Block_Hash (tp_time (e_tp E)) b = Ret (hs, b)"
  shows "holds b x s \<Longrightarrow> go_all (holds b x) (store_blocks E shards s)"
proof (induction shards arbitrary: s)
  case (Cons shard shards)
  show ?case unfolding store_blocks.simps
    by (rule go_all_rules(3), rule go_all_bind [OF store_block_holds [OF assms Cons.prems]], rule Cons.IH)
qed (simp add: go_all_def)

lemma finish_CSC_I_holds:
  assumes h: "Block_Hash (tp_time (e_tp E)) b = Ret (hs, b)" and s: "holds b x s"
  shows "go_all (holds b hs) (finish_CSC_I E s)"
proof -
  have e: "go_all (\<lambda>(r, cst, s1). holds b x s1 \<and> MyChainID (heightDatas s1) = MyChainID (heightDatas s)) (executionAllBlocks E s cs is)" for cs "is"
    unfolding executionAllBlocks_def by (intro go_all_rules) (use s in simp)
  have k: "go_all (\<lambda>s2. holds b x s2 \<and> MyChainID (heightDatas s2) = MyChainID (heightDatas s))
     (chain_inner E st i shards (s1\<lparr>ChainedHash := [], cs_RelatedCommitStatus := []\<rparr>))"
    if "holds b x s1" "MyChainID (heightDatas s1) = MyChainID (heightDatas s)" for s1 st i shards
    by (intro go_all_conj chain_inner_holds [OF h] go_all_mono [OF chain_inner_quiet])
      (use that in \<open>simp_all add: quiet_def hd_quiet_def same_frame_def\<close>)
  have w: "holds b hs (s3\<lparr>BlockHash := hs, LastBlockTime := t\<rparr>)" if "holds b x s3" for s3 :: "('a, 'b) ConsensusState" and t
    using that by (simp add: holds_def block_at_def)
  show ?thesis
    unfolding finish_CSC_I_def Let_def
    apply (rule go_all_bind [OF e], clarify)
    apply (rule go_all_bind [OF k], simp, simp)
    apply (rule go_all_rules(3), clarify)
    apply (frule hash_block_at_holds(2) [OF _ h, rotated], simp, simp)
    apply hypsubst
    apply (drule hash_block_at_holds(1) [OF _ h, rotated], simp)
    apply (rule go_all_rules(3))
    apply (rule go_all_bind [OF set_roots_holds [OF w]], assumption)
    apply (rule go_all_bind [OF store_block_holds [OF h]], assumption)
    apply (rule go_all_bind [OF store_blocks_holds [OF h]], assumption)
    unfolding update_mempool_def by (intro go_all_rules) simp
qed

lemma Block_Hash_header:
  assumes "Block_Hash tm b = Ret (x, b')"
  shows "HashPointer (b_Header b') = HashPointer (b_Header b)" "StateRoot (b_Header b') = StateRoot (b_Header b)"
    "ReceiptRoot (b_Header b') = ReceiptRoot (b_Header b)" "b_Relation b' = b_Relation b" "b_Body b' = b_Body b"
  using assms by (auto simp: Block_Hash_def fillHeader_def split: if_splits bind_splits)

lemma block_at_SendInternal: "block_at (SendInternal bz t s) c = block_at s c"
  by (simp add: SendInternal_def block_at_def)

lemma block_at_put:
  "block_at (s\<lparr>heightDatas := h\<lparr>CrossShardBlocks := m_put c b m, CrossShardPartSets := x, hd_Proposal := y\<rparr>\<rparr>) c = b"
  by (simp add: block_at_def update_conv')

text \<open>What a proposer puts into the block of the height it has entered.\<close>

lemma inner_block_header:
  assumes "cs_IsIShard s" "createBlockAndBroadcast E s = Some (Ret s')"
  obtains b where "block_at s' (MyChainID (heightDatas s)) = Ptr b" "HashPointer (b_Header b) = LastBlockHash s"
    "Height (b_Header b) = cs_Height s" "ChainID (b_Header b) = MyChainID (heightDatas s)"
    "ReceiptRoot (b_Header b) = LastReceiptRoot s" "StateRoot (b_Header b) = LastStateRoot s"
    "RelatedHash (b_Relation b) = LastChainedHash s"
proof -
  have nc: "\<not> cs_IsCShard s"
    using assms(1) by (auto simp: cs_IsCShard_def cs_IsIShard_def hd_IsCShard_def hd_IsIShard_def si_IsIShard_def si_IsCShard_def
        BLOCKTYPE_I_def BLOCKTYPE_C_def)
  obtain txs ctxs ps b where p: "PartSetFromBlock (tp_time (e_tp E)) (block_codec (tp_codecs (e_tp E))) (new_block E s txs ctxs)
      (MaxPartSize s) (cs_Round s) = Some (Ret (ps, b))" "propose_block E b ps s = Ret s'"
    using assms(2) nc by (auto simp: createBlockAndBroadcast_def make_block_def Let_def run_bind_Ret split: bind_splits)
  obtain hs where h: "Block_Hash (tp_time (e_tp E)) (new_block E s txs ctxs) = Ret (hs, b)"
    using p(1) by (auto simp: PartSetFromBlock_def split: option.splits bind_splits)
  let ?Q = "\<lambda>t. block_at t (MyChainID (heightDatas s)) = Ptr b"
  have sp: "?Q t \<Longrightarrow> go_all ?Q (send_parts_internal E qs t)" for qs and t :: "('a, 'b) ConsensusState"
  proof (induction qs arbitrary: t)
    case (Cons q qs)
    then show ?case by (cases q) (auto intro!: go_all_rules Cons.IH simp: block_at_SendInternal go_all_rules(2))
  qed (simp add: go_all_def)
  have "go_all ?Q (propose_block E b ps s)"
    unfolding propose_block_def Let_def
    by (intro go_all_rules sp) (simp only: block_at_SendInternal block_at_put)
  from go_allD [OF this p(2)] have "?Q s'" .
  then show thesis
    using that [of b] Block_Hash_header [OF h] Block_Hash_keeps [OF h] by (simp add: new_block_def Let_def)
qed


lemma demo_reachable:
  "\<exists>e. initial_node (demo_state e 0 RoundStepNewHeight) \<and>
     reachable demo_env (demo_state e 0 RoundStepNewHeight) (demo_state e 1 RoundStepPropose)"
  using demo_new_node demo_started reachable.start by blast

lemma Receive_fuel:
  assumes "\<And>m. \<exists>n r. \<forall>k \<ge> n. doMessage E (handleStateTransition E k) m s = Some r"
  shows "\<exists>n r. \<forall>k \<ge> n. cs_Receive E k bz messageType s = Some r"
proof (cases "decode_message E (cs_IsIShard s) bz messageType")
  case (Some d)
  show ?thesis
  proof (cases d)
    case (Inl e) then show ?thesis using Some by (simp add: cs_Receive_def)
  next
    case (Inr m)
    obtain n r where "\<forall>k \<ge> n. doMessage E (handleStateTransition E k) m s = Some r" using assms by blast
    then show ?thesis using Inr Some
      by (intro exI [where x = n]) (cases r; auto simp: cs_Receive_def run_bind_def split: prod.splits)
  qed
qed (simp add: cs_Receive_def)

section \<open>Properties\<close>

text \<open>C12: a node with neighbours answers: starting it ends, and in every state it then reaches, whatever
  bytes it receives, handling them ends with a result or a panic after finitely many transitions, the
  same for every larger fuel.\<close>

theorem node_always_responds:
  assumes "initial_node s0"
  shows "(\<exists>n r. \<forall>k \<ge> n. Start E k s0 = Some r) \<and>
    (\<forall>s bz messageType. reachable E s0 s \<longrightarrow> (\<exists>n r. \<forall>k \<ge> n. cs_Receive E k bz messageType s = Some r))"
proof -
  have i: "cs_inv s0" "cs_Height s0 = 0" using initial_node_inv [OF assms] by auto
  have "\<exists>n r. \<forall>k \<ge> n. Start E k s0 = Some r"
    using Start_settles [OF i] i(2) unfolding settles_def Start_def by simp blast
  moreover have "\<exists>n r. \<forall>k \<ge> n. cs_Receive E k bz messageType s = Some r" if "reachable E s0 s" for s bz messageType
  proof (rule Receive_fuel)
    have "cs_inv s" "running s" using reachable_inv [OF that assms] by auto
    then show "\<exists>n r. \<forall>k \<ge> n. doMessage E (handleStateTransition E k) m s = Some r" for m
      using Receive_settles [of s E m] unfolding settles_def by blast
  qed
  ultimately show ?thesis by blast
qed

theorem node_always_responds_witness:
  "\<exists>e n r. \<forall>k \<ge> n. cs_Receive demo_env k [1, 2] MsgPart (demo_state e 1 RoundStepPropose) = Some r"
  using demo_reachable node_always_responds by blast

text \<open>C13: in every reachable state the consensus state and the height data agree on height and round, the
  step is one of the five a message is handled in, and every buffered message is filed under its own
  height and round, which is not below the current height.\<close>

theorem node_stays_consistent:
  assumes "initial_node s0" "reachable E s0 s"
  shows "hd_Height (heightDatas s) = cs_Height s \<and> hd_Round (heightDatas s) = 0 \<and> cs_Round s = 0 \<and>
    RoundStepPropose \<le> cs_Step s \<and> cs_Step s \<le> RoundStepCrossShardCommit \<and>
    (\<forall>n u r ms. relayMessageChannel s n = Some u \<longrightarrow> u r = Some ms \<longrightarrow>
       cs_Height s \<le> n \<and> (\<forall>m \<in> set ms. msg_height m = n \<and> msg_round m = r))"
  using reachable_inv [OF assms(2,1)] unfolding cs_inv_def running_def buffered_ok_def by blast

theorem node_stays_consistent_witness:
  "\<exists>e. hd_Height (heightDatas (demo_state e 1 RoundStepPropose)) = cs_Height (demo_state e 1 RoundStepPropose)"
  using demo_reachable node_stays_consistent by blast

text \<open>C28: a message for a later height that is handled without a panic is kept exactly once, at the end of
  the messages of its height and round; nothing else changes and no error is reported.\<close>

theorem future_message_buffered:
  assumes "initial_node s0" "reachable E s0 s" "cs_Height s < msg_height m" "doMessage E rec m s = Some (Ret (e, s'))"
  shows "e = Nil_ptr \<and> (\<exists>u old. u = map_get Map.empty (relayMessageChannel s) (msg_height m) \<and>
     old = map_get [] u (msg_round m) \<and>
     s' = s\<lparr>relayMessageChannel := (relayMessageChannel s)(msg_height m \<mapsto> u(msg_round m \<mapsto> old @ [m]))\<rparr>)"
proof -
  have h: "hd_Height (heightDatas s) \<noteq> msg_height m" using reachable_inv [OF assms(2,1)] assms(3) by (simp add: cs_inv_def)
  show ?thesis
  proof (cases "relayMessageChannel s (msg_height m)")
    case None
    let ?s = "s\<lparr>relayMessageChannel := (relayMessageChannel s)(msg_height m \<mapsto> [msg_round m \<mapsto> [m]])\<rparr>"
    have r: "addRelayMessageIfOverTime s (msg_height m) (msg_round m) m = (False, ?s)"
      using None assms(3) by (simp add: addRelayMessageIfOverTime_def)
    have "go_all (\<lambda>(e, t). e = Ptr DoNothing \<and> t = ?s) (add_message E m ?s)"
      using h by (intro add_later_nothing) simp
    then have "e = Nil_ptr \<and> s' = ?s" using assms(4) r by (auto simp: doMessage_def run_bind_Ret go_all_def)
    then show ?thesis using None by (simp add: map_get_def)
  next
    case (Some u)
    then show ?thesis using assms(3,4) by (auto simp: doMessage_def addRelayMessageIfOverTime_def map_get_def)
  qed
qed

theorem future_message_buffered_witness:
  "\<exists>e s'. doMessage demo_env (\<lambda>s. None) (M_Part demo_piece) (demo_state e 1 RoundStepPropose) = Some (Ret (Nil_ptr, s')) \<and>
     relayMessageChannel s' = [5 \<mapsto> [0 \<mapsto> [M_Part demo_piece]]]"
proof -
  obtain e where e: "initial_node (demo_state e 0 RoundStepNewHeight)"
    "reachable demo_env (demo_state e 0 RoundStepNewHeight) (demo_state e 1 RoundStepPropose)" using demo_reachable by blast
  let ?s = "demo_state e 1 RoundStepPropose"
  have f: "msg_height (M_Part demo_piece) = 5" "msg_round (M_Part demo_piece) = 0" "relayMessageChannel ?s = Map.empty" "cs_Height ?s = 1"
    by (simp_all add: demo_piece_def demo_state_def)
  obtain s' where s': "doMessage demo_env (\<lambda>s. None) (M_Part demo_piece) ?s = Some (Ret (Nil_ptr, s'))"
    using f by (auto simp: doMessage_def addRelayMessageIfOverTime_def add_message_def hd_AddPart_def addInnerPart_def
        demo_state_def demo_node_def demo_piece_def)
  have "relayMessageChannel s' = [5 \<mapsto> [0 \<mapsto> [M_Part demo_piece]]]"
    using future_message_buffered [OF e _ s'] f by (auto simp: map_get_def)
  with s' show ?thesis by blast
qed

text \<open>Handling a message in a step outside the five, as before the node was started, never returns once
  the message is accepted: the transition function calls itself for ever.\<close>

theorem transition_before_start_diverges:
  assumes "cs_Step s = RoundStepNewHeight \<or> cs_Step s = RoundStepNewRound"
  shows "handleStateTransition E n s = None"
  by (rule stuck) (use assms in \<open>auto simp: running_def round_step_defs\<close>)

theorem transition_before_start_diverges_witness:
  "\<forall>n. handleStateTransition demo_env n (demo_state [] 0 RoundStepNewHeight) = None"
  by (intro allI, rule transition_before_start_diverges) (simp add: demo_state_def)


text \<open>C20: the blocks of an inner shard form a chain: when the height whose own block hashes to \<open>hs\<close> is finished
  and the node proposes the next block, that block points to \<open>hs\<close>, has the next height, names the same
  shard, and carries the hashes of the neighbours' blocks and the roots computed when the height ended.\<close>

theorem inner_blocks_chained:
  assumes "cs_IsIShard s" "block_at s (MyChainID (heightDatas s)) = Ptr b" "Block_Hash (tp_time (e_tp E)) b = Ret (hs, b)"
    and "finish_CSC_I E s = Ret s1" "reset_height s1 = Ret s2"
    and "createBlockAndBroadcast E (s2\<lparr>cs_Step := RoundStepPropose\<rparr>) = Some (Ret s3)"
  shows "\<exists>new. block_at s3 (MyChainID (heightDatas s)) = Ptr new \<and> HashPointer (b_Header new) = hs \<and>
     Height (b_Header new) = cs_Height s + 1 \<and> ChainID (b_Header new) = MyChainID (heightDatas s) \<and>
     RelatedHash (b_Relation new) = ChainedHash s1 \<and> ReceiptRoot (b_Header new) = LastReceiptRoot s1 \<and>
     StateRoot (b_Header new) = LastStateRoot s1"
proof -
  have "holds b hs s1"
    using go_allD [OF finish_CSC_I_holds [OF assms(3)] assms(4)] assms(2) by (simp add: holds_def)
  then have bh: "BlockHash s1 = hs" by (simp add: holds_def)
  have f: "cs_Height s1 = cs_Height s" "same_frame (heightDatas s) (heightDatas s1)"
    using go_allD [OF finish_CSC_I_quiet assms(4)] by (simp_all add: quiet_def hd_quiet_def)
  obtain h where h: "NextHeight (heightDatas s1) = Ret h" and s2: "s2 = (Next (s1\<lparr>cs_Step := RoundStepCrossShardCommit\<rparr>))
      \<lparr>LastBlockHash := BlockHash s1, LastChainedHash := ChainedHash s1, LastCommitStatus := CommitStatus s1,
       LastRelatedCommitStatus := cs_RelatedCommitStatus s1, heightDatas := h\<rparr>"
    using assms(5) by (auto simp: reset_height_def Let_def Next_def split: bind_splits)
  note nh = NextHeight_frame [OF h]
  let ?s = "s2\<lparr>cs_Step := RoundStepPropose\<rparr>"
  have e: "LastBlockHash ?s = hs" "cs_Height ?s = cs_Height s + 1" "LastChainedHash ?s = ChainedHash s1"
    "LastReceiptRoot ?s = LastReceiptRoot s1" "LastStateRoot ?s = LastStateRoot s1" "heightDatas ?s = h"
    by (simp_all add: s2 Next_def bh f)
  have "cs_IsIShard ?s" using assms(1) nh(4) f(2) e(6) by (simp add: cs_IsIShard_def hd_IsIShard_def same_frame_def)
  from inner_block_header [OF this assms(6)] obtain new where n: "block_at s3 (MyChainID (heightDatas ?s)) = Ptr new"
    "HashPointer (b_Header new) = LastBlockHash ?s" "Height (b_Header new) = cs_Height ?s"
    "ChainID (b_Header new) = MyChainID (heightDatas ?s)" "ReceiptRoot (b_Header new) = LastReceiptRoot ?s"
    "StateRoot (b_Header new) = LastStateRoot ?s" "RelatedHash (b_Relation new) = LastChainedHash ?s" by blast
  moreover have "MyChainID (heightDatas ?s) = MyChainID (heightDatas s)" using nh(3) f(2) e(6) by (simp add: same_frame_def)
  ultimately show ?thesis unfolding e by auto
qed

definition demo_any :: "'m codec" where
  "demo_any = \<lparr>Marshal = \<lambda>m. Some [1, 2, 3, 4, 5], Unmarshal = \<lambda>bz. None\<rparr>"

definition chain_env :: "(unit, unit) env" where
  "chain_env = demo_env\<lparr>e_tp := demo_tp\<lparr>tp_codecs := (tp_codecs demo_tp)\<lparr>block_codec := demo_any, part_codec := demo_any\<rparr>\<rparr>\<rparr>"

definition chain_state :: "Block \<Rightarrow> (unit, unit) ConsensusState" where
  "chain_state b = (demo_state [] 1 RoundStepCrossShardCommit)\<lparr>signerIndex := 0,
     heightDatas := (demo_node ''a'')\<lparr>hd_Height := 1, hd_ShardInfo := demo_si\<lparr>RelatedShards := []\<rparr>,
       CrossShardBlocks := [(''a'', Ptr b)]\<rparr>\<rparr>"

lemma MustProto_any [simp]: "MustProtoBytes demo_any m = Ret [1, 2, 3, 4, 5]"
  by (simp add: MustProtoBytes_def demo_any_def)

lemma chain_propose:
  assumes "MyChainID (heightDatas s) = ''a''" "cs_IsIShard s" "MaxPartSize s = 2"
  shows "\<exists>s'. createBlockAndBroadcast chain_env s = Some (Ret s')"
proof -
  have nc: "\<not> cs_IsCShard s"
    using assms(2) by (auto simp: cs_IsCShard_def cs_IsIShard_def hd_IsCShard_def hd_IsIShard_def si_IsIShard_def si_IsCShard_def
        BLOCKTYPE_I_def BLOCKTYPE_C_def)
  have m: "make_block chain_env s = Ret (new_block chain_env s [] [], s)"
    using nc by (simp add: make_block_def reap_block_def chain_env_def demo_env_def)
  have bz: "Block_ProtoBytes demo_any (new_block chain_env s [] []) = Ret [1, 2, 3, 4, 5]" by (simp add: Block_ProtoBytes_def)
  have sz: "0 < MaxPartSize s" using assms(3) by simp
  obtain parts hd bh b' where p: "PartSetFromBlock (tp_time (e_tp chain_env)) demo_any (new_block chain_env s [] [])
      (MaxPartSize s) (cs_Round s) = Some (Ret (\<lparr>ps_Header = hd, Parts = map Ptr parts, count = int (length parts),
        ps_BlockHeaderHash = bh\<rparr>, b'))"
    using PartSetFromBlock_spec [OF bz sz] by metis
  have c: "block_codec (tp_codecs (e_tp chain_env)) = demo_any" "part_codec (tp_codecs (e_tp chain_env)) = demo_any"
    "tp_bls (e_tp chain_env) = toy_bls" "proposal_codec (tp_codecs (e_tp chain_env)) = \<lparr>Marshal = \<lambda>m. Some [1], Unmarshal = \<lambda>bz. None\<rparr>"
    by (simp_all add: chain_env_def demo_env_def demo_tp_def)
  have sp: "\<exists>t'. send_parts_internal chain_env (map Ptr ps) t = Ret t'" for ps and t :: "(unit, unit) ConsensusState"
    by (induction ps arbitrary: t) (auto simp: Part_ProtoBytes_def c)
  have "\<exists>s'. propose_block chain_env b' \<lparr>ps_Header = hd, Parts = map Ptr parts, count = int (length parts),
      ps_BlockHeaderHash = bh\<rparr> s = Ret s'"
    using sp by (auto simp: propose_block_def c Let_def SignType_def Proposal_SignBytes_def Proposal_ProtoBytes_def MustProtoBytes_def)
  then show ?thesis using m p c by (simp add: createBlockAndBroadcast_def)
qed

theorem inner_blocks_chained_witness:
  "\<exists>b hs s1 s2 s3 new. Block_Hash (\<lambda>t. Some [7]) b = Ret (hs, b) \<and> finish_CSC_I chain_env (chain_state b) = Ret s1 \<and>
     reset_height s1 = Ret s2 \<and> createBlockAndBroadcast chain_env (s2\<lparr>cs_Step := RoundStepPropose\<rparr>) = Some (Ret s3) \<and>
     block_at s3 ''a'' = Ptr new \<and> HashPointer (b_Header new) = hs \<and> Height (b_Header new) = 2"
proof -
  have bz: "Block_ProtoBytes demo_any (demo_block\<lparr>blockhash := []\<rparr>) = Ret [1, 2, 3, 4, 5]" by (simp add: Block_ProtoBytes_def)
  obtain hs b where "Block_Hash (\<lambda>t. Some [7]) (demo_block\<lparr>blockhash := []\<rparr>) = Ret (hs, b)"
    by (rule PartSetFromBlock_spec [OF bz, of 2 "\<lambda>t. Some [7]" 0]) auto
  then have b: "Block_Hash (\<lambda>t. Some [7]) b = Ret (hs, b)"
    by (rule Block_Hash_cached(2) [rotated]) (simp add: cache_ok_def)
  have tm: "tp_time (e_tp chain_env) = (\<lambda>t. Some [7])" "block_codec (tp_codecs (e_tp chain_env)) = demo_any"
    by (simp_all add: chain_env_def demo_env_def demo_tp_def)
  obtain root where root: "ProofsFromByteSlices [] = Ret (root, [])" using ProofsFromByteSlices_spec [of "[]"] by auto
  let ?s = "chain_state b"
  have i: "cs_IsIShard ?s" by (simp add: chain_state_def cs_IsIShard_def hd_IsIShard_def si_IsIShard_def demo_si_def BLOCKTYPE_I_def)
  have m: "block_at ?s (MyChainID (heightDatas ?s)) = Ptr b" "MyChainID (heightDatas ?s) = ''a''" "cs_Height ?s = 1"
    by (simp_all add: chain_state_def block_at_def demo_state_def demo_node_def)
  obtain e p where sb: "SetBlockByHeight (\<lambda>t. Some [7]) demo_any \<lparr>contents = Map.empty, failing = \<lambda>k. False\<rparr> 1 ''a'' b = Ret (e, p, b)"
    using b by (fastforce simp: SetBlockByHeight_def Block_ProtoBytes_def Let_def split: prod.splits ptr.splits)
  have x: "e_Execution chain_env a cs st is = Ret (\<lparr>CrossShardResps = Map.empty, InnerShardResps = Map.empty\<rparr>, a)"
    "e_Commit chain_env a = ([], a)" "e_Update chain_env mp txs bz = Ret ()" for a cs st "is" mp txs bz
    by (simp_all add: chain_env_def demo_env_def)
  have "\<exists>s1. finish_CSC_I chain_env ?s = Ret s1"
    by (simp add: finish_CSC_I_def executionAllBlocks_def chain_state_def demo_state_def demo_node_def demo_si_def sortShards_def
        hash_block_at_def need_block_def block_at_def put_block_at_def set_roots_def root x tm b sb store_block_def
        update_mempool_def map_get_def Let_def)
  then obtain s1 where s1: "finish_CSC_I chain_env ?s = Ret s1" by blast
  have q: "quiet ?s s1" using go_allD [OF finish_CSC_I_quiet s1] .
  have "AllValidatorSet (heightDatas s1) (MyChainID (heightDatas s1)) \<noteq> None"
    using q by (simp add: quiet_def hd_quiet_def same_frame_def chain_state_def demo_node_def)
  then obtain h where h: "NextHeight (heightDatas s1) = Ret h"
    by (auto simp: NextHeight_def clearAll_def clearProposal_def clearPrevote_def clearPrecommit_def validator_size_def)
  then obtain s2 where s2: "reset_height s1 = Ret s2" "heightDatas s2 = h" "MaxPartSize s2 = MaxPartSize s1"
    by (auto simp: reset_height_def Next_def Let_def)
  have pr: "cs_IsIShard (s2\<lparr>cs_Step := RoundStepPropose\<rparr>)" "MyChainID (heightDatas s2) = ''a''" "MaxPartSize s2 = 2"
    using i q s2 NextHeight_frame [OF h] m(2)
    by (simp_all add: cs_IsIShard_def hd_IsIShard_def quiet_def hd_quiet_def same_frame_def) (simp add: chain_state_def demo_state_def)
  obtain s3 where s3: "createBlockAndBroadcast chain_env (s2\<lparr>cs_Step := RoundStepPropose\<rparr>) = Some (Ret s3)"
    using chain_propose [of "s2\<lparr>cs_Step := RoundStepPropose\<rparr>"] pr by auto
  from inner_blocks_chained [OF i m(1) _ s1 s2(1) s3] b tm m show ?thesis using s1 s2 s3 by fastforce
qed


section \<open>The node's own vote\<close>

lemma AddPrevote_accepts:
  assumes inv: "hd_inv tp g" and i: "pv_ValidatorIndex p = int i" "GetIndex (PrevotesBitVector g) (int i) = Ret False"
    and hr: "hd_Height g = pv_Height p" "hd_Round g = pv_Round p"
    and v: "AllValidatorSet g (MyChainID g) = Some v" "int i < Verifier_Size v"
    and bz: "Prevote_SignBytes (prevote_codec (tp_codecs tp)) p = Ret bz" "Verifier_Verify (tp_bls tp) v (pv_Signature p) bz (int i) = Ret True"
  shows "\<exists>g'. AddPrevote tp g p = Ret (Nil_ptr, g') \<and> Prevotes g' = (Prevotes g)[i := Ptr p]"
proof -
  have com: "committee_ok g" using inv by (simp add: hd_inv_def)
  have n: "i < length (my_peers g)" using com v by (auto simp: committee_ok_def)
  have L: "ledger pv_BlockHeaderHash (valid_prevote tp g) (proposal_hash g) (my_peers g) (Prevotes g) (PrevotesBitVector g) (PrevotesTotal g)"
    using inv by (simp add: hd_inv_def)
  have len: "length (Prevotes g) = length (my_peers g)" using L by (simp add: ledger_def)
  have val: "valid_prevote tp g i p" using v hr bz i(1) by (auto simp: valid_prevote_def)
  let ?g = "g\<lparr>Prevotes := (Prevotes g)[i := Ptr p]\<rparr>"
  have fr: "same_frame g ?g" by (simp add: same_frame_def)
  have r: "AddPrevote tp g p = (if proposal_hash g = Ptr (pv_BlockHeaderHash p)
     then do { h2 \<leftarrow> count_prevote ?g (int i); Ret (Nil_ptr, h2) } else Ret (Nil_ptr, ?g))"
    using i hr v bz n len by (simp add: AddPrevote_def matches_proposal_iff)
  show ?thesis
  proof (cases "proposal_hash g = Ptr (pv_BlockHeaderHash p)")
    case True
    obtain bv' where "SetIndex (PrevotesBitVector g) (int i) True = Ret (True, bv')"
      by (rule ledger_store_mark [OF L n val i(2) True])
    then show ?thesis using r True my_vote_nth [of i ?g] n same_frame_facts(1) [OF fr] by (simp add: count_prevote_def)
  qed (use r in simp)
qed

lemma prevote_sign_bytes [simp]: "Prevote_SignBytes c (p\<lparr>pv_Signature := x\<rparr>) = Prevote_SignBytes c p"
  by (simp add: Prevote_SignBytes_def)

lemma check_proposal_roots:
  assumes "check_proposal E s = Ret s1"
  obtains b where "block_at s1 (MyChainID (heightDatas s)) = Ptr b" "ReceiptRoot (b_Header b) = LastReceiptRoot s"
    "StateRoot (b_Header b) = LastStateRoot s" "outbox s1 = outbox s" "cs_signer s1 = cs_signer s" "signerIndex s1 = signerIndex s"
  using assms
  by (auto simp: check_proposal_def Let_def need_block_def put_block_at_def split: bind_splits if_splits ptr.splits)

text \<open>A prevote signed with \<open>k\<close> that names the height, round, validator and block hash.\<close>

definition own_prevote :: "thirdparty \<Rightarrow> Signer \<Rightarrow> int \<Rightarrow> int \<Rightarrow> int \<Rightarrow> bytes \<Rightarrow> Prevote \<Rightarrow> bool" where
  "own_prevote tp k height rnd i hs vote \<longleftrightarrow> pv_Height vote = height \<and> pv_Round vote = rnd \<and> pv_ValidatorIndex vote = i \<and>
     pv_BlockHeaderHash vote = hs \<and>
     (\<exists>bz. Prevote_SignBytes (prevote_codec (tp_codecs tp)) vote = Ret bz \<and> pv_Signature vote = Sign (tp_bls tp) k bz)"

lemma doPropose_votes:
  assumes "doPropose E s = Ret s'"
  obtains b b' hs vote bz where "Block_Hash (tp_time (e_tp E)) b = Ret (hs, b')"
    "ReceiptRoot (b_Header b) = LastReceiptRoot s" "StateRoot (b_Header b) = LastStateRoot s"
    "block_at s' (MyChainID (heightDatas s)) = Ptr b'" "BlockHash s' = hs"
    "own_prevote (e_tp E) (cs_signer s) (cs_Height s) (cs_Round s) (signerIndex s) hs vote"
    "Prevote_ProtoBytes (prevote_codec (tp_codecs (e_tp E))) vote = Ret bz"
    "outbox s' = outbox s @ [(MyChainID (heightDatas s), bz, MsgTendermintPrevote)]"
proof -
  let ?my = "MyChainID (heightDatas s)" and ?c = "prevote_codec (tp_codecs (e_tp E))"
  obtain s1 where s1: "check_proposal E s = Ret s1" using assms by (auto simp: doPropose_def Let_def split: bind_splits)
  obtain b where b: "block_at s1 ?my = Ptr b" "ReceiptRoot (b_Header b) = LastReceiptRoot s"
    "StateRoot (b_Header b) = LastStateRoot s" "outbox s1 = outbox s" "cs_signer s1 = cs_signer s" "signerIndex s1 = signerIndex s"
    by (rule check_proposal_roots [OF s1])
  have q: "quiet s s1" by (rule check_proposal_quiet [OF s1])
  obtain hs b' where h: "Block_Hash (tp_time (e_tp E)) b = Ret (hs, b')"
    using assms s1 b(1) by (auto simp: doPropose_def Let_def hash_block_at_def need_block_def split: bind_splits)
  define s2 where "s2 = put_block_at ?my b' s1"
  have s2: "hash_block_at E s1 ?my = Ret (hs, s2)" using b(1) h by (simp add: hash_block_at_def need_block_def s2_def)
  let ?v = "NewPrevote (cs_Height s) (cs_Round s) hs (signerIndex s)"
  obtain m e h' bz where r: "Prevote_SignBytes ?c ?v = Ret m"
    "AddPrevote (e_tp E) (heightDatas s2) (?v\<lparr>pv_Signature := Sign (tp_bls (e_tp E)) (cs_signer s) m\<rparr>) = Ret (e, h')"
    "Prevote_ProtoBytes ?c (?v\<lparr>pv_Signature := Sign (tp_bls (e_tp E)) (cs_signer s) m\<rparr>) = Ret bz"
    "s' = Next (SendInternal bz MsgTendermintPrevote (s2\<lparr>BlockHash := hs, heightDatas := h'\<rparr>))"
    using assms s1 s2 q b by (auto simp: doPropose_def SignType_def Let_def s2_def put_block_at_def quiet_def split: bind_splits)
  have hq: "hd_quiet (heightDatas s2) h'" by (rule AddPrevote_quiet [OF r(2)])
  have my: "MyChainID h' = ?my" using hq q by (simp add: hd_quiet_def same_frame_def s2_def quiet_def)
  have cb: "CrossShardBlocks h' = CrossShardBlocks (heightDatas s2)"
    using r(2) by (auto simp: AddPrevote_def count_prevote_def Let_def split: bind_splits if_splits option.splits)
  have "block_at s' ?my = Ptr b'"
    using r(4) cb by (simp add: block_at_def Next_def SendInternal_def s2_def put_block_at_def update_conv')
  moreover have "outbox s' = outbox s @ [(?my, bz, MsgTendermintPrevote)]" "BlockHash s' = hs"
    using r(4) my b(4) by (simp_all add: Next_def SendInternal_def s2_def put_block_at_def)
  moreover have "own_prevote (e_tp E) (cs_signer s) (cs_Height s) (cs_Round s) (signerIndex s) hs
      (?v\<lparr>pv_Signature := Sign (tp_bls (e_tp E)) (cs_signer s) m\<rparr>)"
    using r(1) by (simp add: own_prevote_def) (simp add: NewPrevote_def)
  ultimately show thesis using that [of b hs b' "?v\<lparr>pv_Signature := Sign (tp_bls (e_tp E)) (cs_signer s) m\<rparr>" bz] h b(2,3) r(3) by blast
qed

text \<open>C16: when the proposal is complete, a node broadcasts exactly one message, a prevote for the header hash of
  the block it keeps, whose receipt and state roots are its own; and a member of the shard at the same
  height and round that has not counted the node's vote yet accepts and stores this prevote.\<close>

theorem own_prevote_accepted:
  assumes "doPropose E s = Ret s'" "bls_ok (tp_bls (e_tp E))"
    and "\<forall>m. sig_verify (tp_bls (e_tp E)) (sk_sign (tp_bls (e_tp E)) (privateKey (cs_signer s)) m) pk m"
    and "hd_inv (e_tp E) g" "hd_Height g = cs_Height s" "hd_Round g = cs_Round s"
    and "AllValidatorSet g (MyChainID g) = Some v" "0 \<le> signerIndex s" "signerIndex s < Verifier_Size v"
    and "publicKeys v ! nat (signerIndex s) = Ptr pk" "GetIndex (PrevotesBitVector g) (signerIndex s) = Ret False"
  shows "\<exists>b b' hs vote bz g'. Block_Hash (tp_time (e_tp E)) b = Ret (hs, b') \<and> block_at s' (MyChainID (heightDatas s)) = Ptr b' \<and>
     ReceiptRoot (b_Header b) = LastReceiptRoot s \<and> StateRoot (b_Header b) = LastStateRoot s \<and>
     outbox s' = outbox s @ [(MyChainID (heightDatas s), bz, MsgTendermintPrevote)] \<and>
     Prevote_ProtoBytes (prevote_codec (tp_codecs (e_tp E))) vote = Ret bz \<and> pv_BlockHeaderHash vote = hs \<and>
     AddPrevote (e_tp E) g vote = Ret (Nil_ptr, g') \<and> Prevotes g' ! nat (signerIndex s) = Ptr vote"
proof -
  obtain b b' hs vote bz where d: "Block_Hash (tp_time (e_tp E)) b = Ret (hs, b')"
    "ReceiptRoot (b_Header b) = LastReceiptRoot s" "StateRoot (b_Header b) = LastStateRoot s"
    "block_at s' (MyChainID (heightDatas s)) = Ptr b'"
    "own_prevote (e_tp E) (cs_signer s) (cs_Height s) (cs_Round s) (signerIndex s) hs vote"
    "Prevote_ProtoBytes (prevote_codec (tp_codecs (e_tp E))) vote = Ret bz"
    "outbox s' = outbox s @ [(MyChainID (heightDatas s), bz, MsgTendermintPrevote)]"
    using doPropose_votes [OF assms(1)] by metis
  let ?i = "nat (signerIndex s)"
  obtain m where m: "pv_ValidatorIndex vote = int ?i" "hd_Height g = pv_Height vote" "hd_Round g = pv_Round vote"
    "Prevote_SignBytes (prevote_codec (tp_codecs (e_tp E))) vote = Ret m"
    "pv_Signature vote = Sign (tp_bls (e_tp E)) (cs_signer s) m" "pv_BlockHeaderHash vote = hs"
    using d(5) assms(5,6,8) by (auto simp: own_prevote_def)
  have "Verifier_Verify (tp_bls (e_tp E)) v (pv_Signature vote) m (int ?i) = Ret True"
    using assms(2,3,8-10) m(5) by (auto simp: Verifier_Verify_def Verifier_Size_def Sign_def bls_ok_def go_index_def)
  then obtain g' where g': "AddPrevote (e_tp E) g vote = Ret (Nil_ptr, g')" "Prevotes g' = (Prevotes g)[?i := Ptr vote]"
    using AddPrevote_accepts [OF assms(4) m(1) _ m(2,3) assms(7) _ m(4)] assms(8,9,11) by auto
  have "?i < length (Prevotes g)"
    using assms(4,7,8,9) by (auto simp: hd_inv_def ledger_def committee_ok_def)
  then have "Prevotes g' ! ?i = Ptr vote" using g'(2) by simp
  with d m(6) g'(1) show ?thesis by blast
qed

definition vote_state :: "Block \<Rightarrow> (unit, unit) ConsensusState" where
  "vote_state b = (demo_state [] 5 RoundStepPropose)\<lparr>signerIndex := 0,
     heightDatas := (demo_node ''a'')\<lparr>CrossShardBlocks := [(''a'', Ptr b)]\<rparr>,
     LastReceiptRoot := ReceiptRoot (b_Header b), LastStateRoot := StateRoot (b_Header b)\<rparr>"

theorem own_prevote_accepted_witness:
  "\<exists>b s' vote g'. doPropose demo_env (vote_state b) = Ret s' \<and> AddPrevote demo_tp (demo_node ''a'') vote = Ret (Nil_ptr, g')"
proof -
  have bz: "Block_ProtoBytes demo_any (demo_block\<lparr>blockhash := []\<rparr>) = Ret [1, 2, 3, 4, 5]" by (simp add: Block_ProtoBytes_def)
  obtain hs b where "Block_Hash (\<lambda>t. Some [7]) (demo_block\<lparr>blockhash := []\<rparr>) = Ret (hs, b)"
    by (rule PartSetFromBlock_spec [OF bz, of 2 "\<lambda>t. Some [7]" 0]) auto
  then have b: "Block_Hash (\<lambda>t. Some [7]) b = Ret (hs, b)"
    by (rule Block_Hash_cached(2) [rotated]) (simp add: cache_ok_def)
  have e: "e_tp demo_env = demo_tp" "tp_time demo_tp = (\<lambda>t. Some [7])" "tp_bls demo_tp = toy_bls"
    by (simp_all add: demo_env_def demo_tp_def)
  have g: "GetIndex (Ptr \<lparr>Bits = 1, Elems = [0]\<rparr>) 0 = Ret False"
    by (simp add: GetIndex_def mask8_def go_index_def signed_divide_int_def signed_modulo_int_def)
  have si: "shard_ok demo_si ''a''" by (rule demo_shard_ok)
  have inv: "hd_inv demo_tp (demo_node ''a'')"
    using NewHeightData_inv [OF si] demo_new [of "''a''"] e by (metis insertI1 option.sel)
  let ?g = "(demo_node ''a'')\<lparr>CrossShardBlocks := [(''a'', Ptr b)]\<rparr>"
  let ?v = "(NewPrevote 5 0 hs 0)\<lparr>pv_Signature := Sign toy_bls \<lparr>privateKey = 1\<rparr> [2]\<rparr>"
  have inv': "hd_inv demo_tp ?g"
    using inv same_votes_inv [of "demo_node ''a''" ?g demo_tp] by (simp add: same_votes_def same_frame_def)
  have pc: "prevote_codec (tp_codecs demo_tp) = \<lparr>Marshal = \<lambda>m. Some [2], Unmarshal = \<lambda>bz. None\<rparr>" by (simp add: demo_tp_def)
  have sb: "Prevote_SignBytes (prevote_codec (tp_codecs demo_tp)) x = Ret [2]" "Prevote_ProtoBytes (prevote_codec (tp_codecs demo_tp)) x = Ret [2]" for x
    by (simp_all add: pc Prevote_SignBytes_def Prevote_ProtoBytes_def MustProtoBytes_def)
  obtain g' where g': "AddPrevote demo_tp ?g ?v = Ret (Nil_ptr, g')"
    using AddPrevote_accepts [OF inv', of ?v 0 "\<lparr>publicKeys = [Ptr 1]\<rparr>" "[2]"] g sb(1) [of ?v] e
    by (auto simp: demo_node_def NewPrevote_def Verifier_Size_def Verifier_Verify_def go_index_def Sign_def toy_bls_def)
  have "check_proposal demo_env (vote_state b) = Ret (vote_state b)"
    by (simp add: check_proposal_def Let_def need_block_def block_at_def vote_state_def demo_state_def demo_node_def demo_si_def
        cs_IsCShard_def hd_IsCShard_def si_IsCShard_def BLOCKTYPE_C_def)
  moreover have "hash_block_at demo_env (vote_state b) ''a'' = Ret (hs, vote_state b)"
    using b e by (simp add: hash_block_at_def need_block_def block_at_def put_block_at_def vote_state_def demo_state_def demo_node_def)
  moreover have f: "MyChainID (heightDatas (vote_state b)) = ''a''" "cs_Height (vote_state b) = 5" "cs_Round (vote_state b) = 0"
    "signerIndex (vote_state b) = 0" "cs_signer (vote_state b) = \<lparr>privateKey = 1\<rparr>" "heightDatas (vote_state b) = ?g"
    by (simp_all add: vote_state_def demo_state_def demo_node_def)
  ultimately have "\<exists>s'. doPropose demo_env (vote_state b) = Ret s'"
    by (simp add: doPropose_def e sb SignType_def g' Let_def)
  then obtain s' where s': "doPropose demo_env (vote_state b) = Ret s'" by blast
  have "\<exists>vote g'. AddPrevote demo_tp (demo_node ''a'') vote = Ret (Nil_ptr, g')"
    using own_prevote_accepted [OF s', of 1 "demo_node ''a''" "\<lparr>publicKeys = [Ptr 1]\<rparr>"] toy_bls_ok inv g e
    by (auto simp: vote_state_def demo_state_def demo_node_def toy_bls_def Verifier_Size_def)
  with s' show ?thesis by blast
qed

section \<open>The commit status of a shard\<close>

lemma total_status_step:
  assumes "\<forall>v \<in> set vs. bv_wf v \<and> Bits v = n" "bv_wf t" "Bits t = n"
  shows "\<exists>r. total_status (map (\<lambda>v. Byte (Ptr v)) vs) (Ptr t) = Ret (Ptr r) \<and> bv_wf r \<and> Bits r = n \<and>
     (\<forall>i < nat n. bv_bit r i \<longleftrightarrow> bv_bit t i \<and> (\<forall>v \<in> set vs. bv_bit v i))"
  using assms
proof (induction vs arbitrary: t)
  case (Cons v vs)
  obtain c where c: "And (Ptr t) (Ptr v) = Ret (Ptr c)" "bv_wf c" "bv_list c = map2 (\<and>) (bv_list t) (bv_list v)"
    by (rule And_bits [of t v]) (use Cons.prems in auto)
  have len: "length (bv_list c) = nat n" using c(3) Cons.prems by (simp add: bv_list_def)
  then have n: "Bits c = n" using c(2) Cons.prems(2,3) by (simp add: bv_list_def bv_wf_def eq_nat_nat_iff)
  have b: "bv_bit c i \<longleftrightarrow> bv_bit t i \<and> bv_bit v i" if "i < nat n" for i
  proof -
    have "bv_list c ! i = (bv_list t ! i \<and> bv_list v ! i)" using c(3) that Cons.prems by (simp add: bv_list_def)
    then show ?thesis using that n Cons.prems by (simp add: bv_list_def)
  qed
  obtain r where r: "total_status (map (\<lambda>v. Byte (Ptr v)) vs) (Ptr c) = Ret (Ptr r)" "bv_wf r" "Bits r = n"
     "\<forall>i < nat n. bv_bit r i \<longleftrightarrow> bv_bit c i \<and> (\<forall>v \<in> set vs. bv_bit v i)"
    using Cons.IH [of c] Cons.prems c(2) n by auto
  then show ?case using b c(1) Byte_roundtrip_aux [of v] Cons.prems by (intro exI [where x = r]) auto
qed simp

text \<open>A cross-shard transaction is executed exactly when every neighbour voted for it: the total commit
  status of well-formed statuses of one size is the vector of that size whose bits are the conjunction of
  theirs, and computing it from the bytes of the messages does not panic.\<close>

theorem total_status_is_conjunction:
  assumes "vs \<noteq> []" "\<forall>v \<in> set vs. bv_wf v \<and> Bits v = n"
  shows "\<exists>r. total_status (map (\<lambda>v. Byte (Ptr v)) vs) Nil_ptr = Ret (Ptr r) \<and> bv_wf r \<and> Bits r = n \<and>
     bv_list r = map (\<lambda>i. \<forall>v \<in> set vs. bv_bit v i) [0..<nat n]"
proof -
  obtain v ws where vs: "vs = v # ws" using assms(1) by (cases vs) auto
  obtain r where "total_status (map (\<lambda>v. Byte (Ptr v)) ws) (Ptr v) = Ret (Ptr r)" "bv_wf r" "Bits r = n"
     "\<forall>i < nat n. bv_bit r i \<longleftrightarrow> bv_bit v i \<and> (\<forall>w \<in> set ws. bv_bit w i)"
    using total_status_step [of ws n v] assms(2) vs by auto
  then show ?thesis using Byte_roundtrip_aux [of v] assms(2) vs by (auto simp: bv_list_def)
qed

theorem total_status_is_conjunction_witness:
  "\<exists>r. total_status [[5, 5], [5, 6]] Nil_ptr = Ret (Ptr r) \<and> bv_list r = [False, False, True]"
proof -
  let ?vs = "[\<lparr>Bits = 3, Elems = [5]\<rparr>, \<lparr>Bits = 3, Elems = [6]\<rparr>]"
  have b: "map (\<lambda>v. Byte (Ptr v)) ?vs = [[5, 5], [5, 6]]" by (simp add: Byte_def)
  obtain r where "total_status (map (\<lambda>v. Byte (Ptr v)) ?vs) Nil_ptr = Ret (Ptr r)"
    "bv_list r = map (\<lambda>i. \<forall>v \<in> set ?vs. bv_bit v i) [0..<nat 3]"
    using total_status_is_conjunction [of ?vs 3] by (auto simp: bv_wf_def)
  then show ?thesis unfolding b by (simp add: bv_bit_def upt_rec)
qed

end
