(* ===== verification/P2P.thy ===== *)
theory P2P
  imports ShardInfos Store
begin

text \<open>
  Model of the transport of messages between nodes: \<open>utils/p2p/message.go\<close>, \<open>p2p.go\<close>, \<open>sender.go\<close> and
  \<open>receiver.go\<close>. An envelope is written as one line of JSON, the receiver reads line by line and hands every message
  to the reactor of its channel. The operating system's network is the parameter \<open>network\<close>, decoding JSON the
  parameter \<open>json_Unmarshal\<close>; a connection at the receiver is what is still to be read from it. The lemmas show that messages
  arrive unchanged and in order, and what happens to broken and closed connections.
\<close>

section \<open>Envelopes\<close>

record Envelop =
  Channel_id :: byte
  Message :: "bytes ptr"
  MessageType :: "32 word"

definition NewEnvelop :: "byte \<Rightarrow> bytes ptr \<Rightarrow> 32 word \<Rightarrow> Envelop" where
  "NewEnvelop channel_id message messageType = \<lparr>Channel_id = channel_id, Message = message, MessageType = messageType\<rparr>"

text \<open>The message struct; a nil slice counts as empty there. \<open>int32(byte)\<close> keeps the value, \<open>byte(int8(i))\<close> its low byte.\<close>

record pb_Envelop =
  pe_ChannelId :: int
  pe_Message :: bytes
  pe_MessageType :: "32 word"

definition Envelop_ToProto :: "Envelop \<Rightarrow> pb_Envelop" where
  "Envelop_ToProto e = \<lparr>pe_ChannelId = uint (Channel_id e), pe_Message = slice_bytes (Message e), pe_MessageType = MessageType e\<rparr>"

definition NewEnvelopFromProto :: "pb_Envelop \<Rightarrow> Envelop go" where
  "NewEnvelopFromProto envelop =
     Ret \<lparr>Channel_id = word_of_int (i8 (pe_ChannelId envelop)), Message = Ptr (pe_Message envelop), MessageType = pe_MessageType envelop\<rparr>"

definition NewEnvelopFromBytes :: "pb_Envelop codec \<Rightarrow> bytes \<Rightarrow> Envelop ptr go" where
  "NewEnvelopFromBytes c bz = from_bytes c NewEnvelopFromProto bz"

lemma word_of_i8 [simp]: "word_of_int (i8 (uint (b :: byte))) = b"
proof -
  have "(word_of_int (i8 x) :: byte) = word_of_int x" for x
    unfolding word_of_int_eq_iff take_bit_eq_mod i8_def by (simp add: mod_diff_left_eq)
  then show ?thesis by simp
qed

interpretation envelop_wire: wire_type "\<lambda>e. Ret (Envelop_ToProto e)" NewEnvelopFromProto "\<lambda>e. Message e \<noteq> Nil_ptr"
  by unfold_locales (auto simp: NewEnvelopFromProto_def Envelop_ToProto_def slice_bytes_def split: ptr.splits)

text \<open>\<open>encoding/json\<close> writes the fields in order under the names of their tags, a byte slice in base64 and a nil one as \<open>null\<close>.\<close>

definition b64_alphabet :: string where
  "b64_alphabet = ''ABCDEFGHIJKLMNOPQRSTUVWXYZabcdefghijklmnopqrstuvwxyz0123456789+/''"

definition b64_char :: "nat \<Rightarrow> char" where
  "b64_char k = b64_alphabet ! k"

definition b64_quad :: "nat \<Rightarrow> string" where
  "b64_quad n = [b64_char (n div 262144), b64_char (n div 4096 mod 64), b64_char (n div 64 mod 64), b64_char (n mod 64)]"

fun b64 :: "bytes \<Rightarrow> string" where
  "b64 [] = []"
| "b64 [a] = take 2 (b64_quad (65536 * unat a)) @ ''==''"
| "b64 [a, b] = take 3 (b64_quad (65536 * unat a + 256 * unat b)) @ ''=''"
| "b64 (a # b # c # bs) = b64_quad (65536 * unat a + 256 * unat b + unat c) @ b64 bs"

definition quote :: char where
  "quote = CHR 0x22"

definition json_Marshal :: "Envelop \<Rightarrow> bytes" where
  "json_Marshal e = str_bytes (
     [CHR ''{'', quote, CHR ''c'', quote, CHR '':''] @ show_int (uint (Channel_id e)) @
     [CHR '','', quote, CHR ''m'', quote, CHR '':''] @ (case Message e of Nil_ptr \<Rightarrow> ''null'' | Ptr m \<Rightarrow> quote # b64 m @ [quote]) @
     [CHR '','', quote, CHR ''m'', CHR ''t'', quote, CHR '':''] @ show_int (uint (MessageType e)) @ ''}'')"

text \<open>What is relied on of decoding: it inverts encoding. \<open>None\<close> is an error.\<close>

definition json_ok :: "(bytes \<Rightarrow> Envelop option) \<Rightarrow> bool" where
  "json_ok J \<longleftrightarrow> (\<forall>e. J (json_Marshal e) = Some e)"

section \<open>The sender\<close>

text \<open>
  A network gives every operation its result and the network after it. Connections are numbers; an error is its text;
  a deadline is in minutes from now, \<open>None\<close> the zero time, which sets none.
\<close>

type_synonym conn_id = int

record 'w network =
  net_Dial :: "'w \<Rightarrow> string \<Rightarrow> (string + conn_id) \<times> 'w"
  net_SetDeadline :: "'w \<Rightarrow> conn_id \<Rightarrow> int option \<Rightarrow> string ptr \<times> 'w"
  net_Write :: "'w \<Rightarrow> conn_id \<Rightarrow> bytes \<Rightarrow> string ptr \<times> 'w"
  net_Close :: "'w \<Rightarrow> conn_id \<Rightarrow> string ptr \<times> 'w"

text \<open>The locks and the unused \<open>lockMap\<close> are left out; sleeping between two tries has no effect on the state.\<close>

record Sender =
  shardMap :: "(string, Peer list) gomap"
  connMap :: "(string, conn_id) gomap"
  MyIP :: string

definition NewSender :: "string \<Rightarrow> Sender" where
  "NewSender ip = \<lparr>shardMap = [], connMap = [], MyIP = ip\<rparr>"

definition newline :: byte where
  "newline = 10"

definition dial_conn :: "'w network \<Rightarrow> int option \<Rightarrow> string \<Rightarrow> Sender \<Rightarrow> 'w \<Rightarrow> (string ptr \<times> Sender \<times> 'w) go" where
  "dial_conn N deadline addr s w =
     (case net_Dial N w addr of
        (Inl err, w1) \<Rightarrow> Ret (Ptr err, s, w1)
      | (Inr conn, w1) \<Rightarrow>
          (case net_SetDeadline N w1 conn deadline of
             (Ptr err, w2) \<Rightarrow> Panic
           | (Nil_ptr, w2) \<Rightarrow> Ret (Nil_ptr, s\<lparr>connMap := m_put addr conn (connMap s)\<rparr>, w2)))"

text \<open>\<open>Start\<close> dials the peers of all shards it has no connection to and joins the errors, one per line (the text is taken as it is, though
  the code uses it as a format).\<close>

fun start_peers :: "'w network \<Rightarrow> Peer list \<Rightarrow> string list \<Rightarrow> Sender \<Rightarrow> 'w \<Rightarrow> (string list \<times> Sender \<times> 'w) go" where
  "start_peers N [] errList s w = Ret (errList, s, w)"
| "start_peers N (p # pl) errList s w =
     (if IP p \<noteq> MyIP s \<and> m_get (connMap s) (IP p) = None
      then do {
        (err, s1, w1) \<leftarrow> dial_conn N None (IP p) s w;
        start_peers N pl (case err of Nil_ptr \<Rightarrow> errList | Ptr e \<Rightarrow> errList @ [e]) s1 w1 }
      else start_peers N pl errList s w)"

fun join_lines :: "string list \<Rightarrow> string" where
  "join_lines [] = []"
| "join_lines [x] = x"
| "join_lines (x # y # xs) = x @ CHR 0x0A # join_lines (y # xs)"

definition Sender_Start :: "'w network \<Rightarrow> Sender \<Rightarrow> 'w \<Rightarrow> (string ptr \<times> Sender \<times> 'w) go" where
  "Sender_Start N s w = do {
     (errList, s1, w1) \<leftarrow> start_peers N (concat (map snd (shardMap s))) [] s w;
     Ret (if errList = [] then Nil_ptr else Ptr (join_lines errList), s1, w1) }"

definition Sender_Stop :: "'w network \<Rightarrow> Sender \<Rightarrow> 'w \<Rightarrow> string ptr \<times> 'w" where
  "Sender_Stop N s w = (Nil_ptr, fold (\<lambda>(_, conn) w. snd (net_Close N w conn)) (connMap s) w)"

text \<open>The list \<open>cids\<close> is the order in which the chains of the peer are visited; whether a chain is mapped to true is not looked at.\<close>

definition add_to_shard :: "Peer \<Rightarrow> string \<Rightarrow> Sender \<Rightarrow> Sender" where
  "add_to_shard peer cid s =
     (let pl = (case m_get (shardMap s) cid of None \<Rightarrow> [] | Some pl \<Rightarrow> pl) in
      if pl = [] then s\<lparr>shardMap := m_put cid [peer] (shardMap s)\<rparr>
      else if list_ex (Peer_Equal peer) pl then s
      else s\<lparr>shardMap := m_put cid (pl @ [peer]) (shardMap s)\<rparr>)"

definition AddPeer :: "string list \<Rightarrow> Peer \<Rightarrow> Sender \<Rightarrow> Sender" where
  "AddPeer cids peer s = fold (add_to_shard peer) cids s"

text \<open>The recursion of \<open>TcpDial\<close> is a retry with the connection of the map.\<close>

function TcpDial :: "'w network \<Rightarrow> bytes \<Rightarrow> string \<Rightarrow> int \<Rightarrow> Sender \<Rightarrow> 'w \<Rightarrow> (string ptr \<times> Sender \<times> 'w) go" where
  "TcpDial N content addr depth s w = do {
     (dial_err, s1, w1) \<leftarrow> (case m_get (connMap s) addr of None \<Rightarrow> dial_conn N (Some 30) addr s w | Some _ \<Rightarrow> Ret (Nil_ptr, s, w));
     case (dial_err, m_get (connMap s1) addr) of
       (Ptr err, _) \<Rightarrow> Ret (Ptr err, s1, w1)
     | (Nil_ptr, None) \<Rightarrow> Panic
     | (Nil_ptr, Some conn) \<Rightarrow>
         (let (err, w2) = net_Write N w1 conn (content @ [newline]) in
          if is_nil err then Ret (Nil_ptr, s1, w2)
          else if depth \<le> 0 then Ret (err, s1, w2)
          else TcpDial N content addr (depth - 1) s1 w2) }"
  by auto
termination by (relation "measure (\<lambda>(N, content, addr, depth, s, w). nat depth)") auto

declare TcpDial.simps [simp del]

definition Send :: "'w network \<Rightarrow> Peer \<Rightarrow> byte \<Rightarrow> bytes ptr \<Rightarrow> 32 word \<Rightarrow> Sender \<Rightarrow> 'w \<Rightarrow> (string ptr \<times> Sender \<times> 'w) go" where
  "Send N peer channel_id message messageType s w =
     (if MyIP s = IP peer then Ret (Nil_ptr, s, w)
      else let e = \<lparr>Channel_id = channel_id, Message = message, MessageType = messageType\<rparr>; bz = json_Marshal e in
        TcpDial N bz (IP peer) 5 s w)"

text \<open>The goroutines of \<open>SendToShard\<close> are taken one after the other, in the order of the list; their errors are dropped.\<close>

fun send_peers :: "'w network \<Rightarrow> Peer list \<Rightarrow> byte \<Rightarrow> bytes ptr \<Rightarrow> 32 word \<Rightarrow> Sender \<Rightarrow> 'w \<Rightarrow> (Sender \<times> 'w) go" where
  "send_peers N [] channel_id message messageType s w = Ret (s, w)"
| "send_peers N (peer # peers) channel_id message messageType s w = do {
     (_, s1, w1) \<leftarrow> Send N peer channel_id message messageType s w;
     send_peers N peers channel_id message messageType s1 w1 }"

definition SendToShard :: "'w network \<Rightarrow> string \<Rightarrow> byte \<Rightarrow> bytes ptr \<Rightarrow> 32 word \<Rightarrow> Sender \<Rightarrow> 'w \<Rightarrow> (string ptr \<times> Sender \<times> 'w) go" where
  "SendToShard N shardID channel_id message messageType s w = do {
     (s1, w1) \<leftarrow> send_peers N (case m_get (shardMap s) shardID of None \<Rightarrow> [] | Some peers \<Rightarrow> peers) channel_id message messageType s w;
     Ret (Nil_ptr, s1, w1) }"

section \<open>The receiver\<close>

text \<open>A reactor changes the state \<open>'s\<close> of the node and may panic; its error is printed.\<close>

type_synonym 's reactor = "'s \<Rightarrow> byte \<Rightarrow> bytes ptr \<Rightarrow> 32 word \<Rightarrow> (string ptr \<times> 's) go"

record 's Receiver =
  localIP :: string
  localPort :: int
  channelMap :: "byte \<rightharpoonup> 's reactor"

definition NewReceiver :: "string \<Rightarrow> int \<Rightarrow> 's Receiver" where
  "NewReceiver ip port = \<lparr>localIP = ip, localPort = port, channelMap = Map.empty\<rparr>"

definition AddChennel :: "'s reactor \<Rightarrow> byte \<Rightarrow> 's Receiver \<Rightarrow> 's Receiver" where
  "AddChennel reactor channel_id r = r\<lparr>channelMap := (channelMap r)(channel_id \<mapsto> reactor)\<rparr>"

datatype read_err = EOF | ReadFailed string

text \<open>A connection: the bytes that still arrive and the error every read ends with after them.\<close>

record conn =
  unread :: bytes
  read_end :: read_err

definition ReadBytes :: "conn \<Rightarrow> bytes \<times> read_err ptr \<times> conn" where
  "ReadBytes c =
     (if newline \<in> set (unread c)
      then (takeWhile (\<lambda>b. b \<noteq> newline) (unread c) @ [newline], Nil_ptr, c\<lparr>unread := tl (dropWhile (\<lambda>b. b \<noteq> newline) (unread c))\<rparr>)
      else (unread c, Ptr (read_end c), c\<lparr>unread := []\<rparr>))"

definition dispatch :: "(bytes \<Rightarrow> Envelop option) \<Rightarrow> 's Receiver \<Rightarrow> bytes \<Rightarrow> 's \<Rightarrow> 's go" where
  "dispatch J r bz st =
     (case J bz of
        None \<Rightarrow> Ret st
      | Some channelMessage \<Rightarrow>
          (let chid = Channel_id channelMessage in
           case channelMap r chid of
             None \<Rightarrow> Ret st
           | Some reactor \<Rightarrow> map_option snd (reactor st chid (Message channelMessage) (MessageType channelMessage))))"

text \<open>One pass of the loop of \<open>handleConnection\<close>: whether it goes on, the node and the connection. \<open>cancelled\<close> is the state of the context.\<close>

definition receive_pass :: "(bytes \<Rightarrow> Envelop option) \<Rightarrow> 's Receiver \<Rightarrow> bool \<Rightarrow> 's \<Rightarrow> conn \<Rightarrow> (bool \<times> 's \<times> conn) go" where
  "receive_pass J r cancelled st c =
     (let (bz, err, c1) = ReadBytes c in
      if bz = [] then Ret (True, st, c1)
      else let bz = (if last bz = newline then butlast bz else bz) in
        if cancelled then Ret (False, st, c1)
        else case err of
            Nil_ptr \<Rightarrow> do { st1 \<leftarrow> dispatch J r bz st; Ret (True, st1, c1) }
          | Ptr _ \<Rightarrow> Ret (False, st, c1))"

text \<open>As many passes as the list of contexts is long, unless the handler returns before.\<close>

fun handleConnection :: "(bytes \<Rightarrow> Envelop option) \<Rightarrow> 's Receiver \<Rightarrow> bool list \<Rightarrow> 's \<Rightarrow> conn \<Rightarrow> (bool \<times> 's \<times> conn) go" where
  "handleConnection J r [] st c = Ret (True, st, c)"
| "handleConnection J r (cancelled # rest) st c = do {
     (goes_on, st1, c1) \<leftarrow> receive_pass J r cancelled st c;
     if goes_on then handleConnection J r rest st1 c1 else Ret (False, st1, c1) }"

section \<open>Lemmas\<close>

subsection \<open>Base64\<close>

definition b64_index :: "char \<Rightarrow> nat" where
  "b64_index c = (if c = CHR ''='' then 0 else length (takeWhile (\<lambda>d. d \<noteq> c) b64_alphabet))"

lemma b64_char_facts:
  assumes "k < 64"
  shows "b64_index (b64_char k) = k" "b64_char k \<noteq> CHR ''=''" "b64_char k \<noteq> quote" "b64_char k \<noteq> CHR 0x0A"
proof -
  have "\<forall>k \<in> set [0..<64]. b64_index (b64_char k) = k \<and> b64_char k \<noteq> CHR ''='' \<and> b64_char k \<noteq> quote \<and> b64_char k \<noteq> CHR 0x0A"
    by code_simp
  then show "b64_index (b64_char k) = k" "b64_char k \<noteq> CHR ''=''" "b64_char k \<noteq> quote" "b64_char k \<noteq> CHR 0x0A"
    using assms by auto
qed

definition b64_value :: "string \<Rightarrow> nat" where
  "b64_value cs = foldl (\<lambda>n c. 64 * n + b64_index c) 0 cs"

fun b64_decode :: "string \<Rightarrow> bytes" where
  "b64_decode (p # q # r # s # rest) =
     (let n = b64_value [p, q, r, s]; a = word_of_nat (n div 65536); b = word_of_nat (n div 256); c = word_of_nat n in
      if s = CHR ''='' then (if r = CHR ''='' then [a] else [a, b]) else a # b # c # b64_decode rest)"
| "b64_decode _ = []"

lemma b64_digits:
  assumes "n < 16777216"
  shows "n div 262144 < 64" "64 * (64 * (64 * (n div 262144) + n div 4096 mod 64) + n div 64 mod 64) + n mod 64 = (n :: nat)"
proof -
  show "n div 262144 < 64" using assms by (simp add: less_mult_imp_div_less)
  have "64 * (n div 262144) + n div 4096 mod 64 = n div 4096"
    using mult_div_mod_eq [of 64 "n div 4096"] by (simp add: div_mult2_eq [symmetric])
  moreover have "64 * (n div 4096) + n div 64 mod 64 = n div 64"
    using mult_div_mod_eq [of 64 "n div 64"] by (simp add: div_mult2_eq [symmetric])
  ultimately show "64 * (64 * (64 * (n div 262144) + n div 4096 mod 64) + n div 64 mod 64) + n mod 64 = n" by simp
qed

lemma unat_byte: "unat (b :: byte) < 256"
  using unsigned_less [of b] by simp

lemma byte_multiples [simp]: "(256 :: byte) * b = 0" "(65536 :: byte) * b = 0"
proof -
  have "(256 :: byte) = 0" "(65536 :: byte) = 0" by simp_all
  then show "(256 :: byte) * b = 0" "(65536 :: byte) * b = 0" by (metis mult_zero_left)+
qed

lemma b64_index_pad [simp]: "b64_index CHR ''='' = 0"
  by (simp add: b64_index_def)

lemma b64_bytes:
  fixes a b c :: byte
  defines "n \<equiv> 65536 * unat a + 256 * unat b + unat c"
  shows "n < 16777216" "word_of_nat (n div 65536) = a" "word_of_nat (n div 256) = b" "word_of_nat n = c"
proof -
  show "n < 16777216" using unat_byte [of a] unat_byte [of b] unat_byte [of c] by (simp add: n_def)
  have d: "n div 256 = 256 * unat a + unat b" "n div 65536 = unat a"
    using unat_byte [of b] unat_byte [of c] by (simp_all add: n_def)
  then show "word_of_nat (n div 65536) = a" "word_of_nat (n div 256) = b" by simp_all
  show "word_of_nat n = c" by (simp add: n_def)
qed

text \<open>The pads count as zero digits.\<close>

lemma b64_value_digits:
  assumes "p < 64" "q < 64" "r < 64" "t < 64"
  shows "b64_value [b64_char p, b64_char q, b64_char r, b64_char t] = 64 * (64 * (64 * p + q) + r) + t"
    "b64_value [b64_char p, b64_char q, b64_char r, CHR ''=''] = 64 * (64 * (64 * p + q) + r)"
    "b64_value [b64_char p, b64_char q, CHR ''='', CHR ''=''] = 64 * (64 * (64 * p + q))"
  by (simp_all only: b64_value_def foldl.simps b64_char_facts(1) [OF assms(1)] b64_char_facts(1) [OF assms(2)]
      b64_char_facts(1) [OF assms(3)] b64_char_facts(1) [OF assms(4)] b64_index_pad mult_0_right add_0 add_0_right)

lemma b64_quad_value:
  assumes "n < 16777216"
  shows "b64_value [b64_char (n div 262144), b64_char (n div 4096 mod 64), b64_char (n div 64 mod 64), b64_char (n mod 64)] = n"
    "n mod 64 = 0 \<Longrightarrow> b64_value [b64_char (n div 262144), b64_char (n div 4096 mod 64), b64_char (n div 64 mod 64), CHR ''=''] = n"
    "n mod 64 = 0 \<Longrightarrow> n div 64 mod 64 = 0 \<Longrightarrow> b64_value [b64_char (n div 262144), b64_char (n div 4096 mod 64), CHR ''='', CHR ''=''] = n"
proof -
  have m: "x mod 64 < (64 :: nat)" for x by simp
  note digits = b64_value_digits [OF b64_digits(1) [OF assms] m m m]
  note sum = b64_digits(2) [OF assms]
  show "b64_value [b64_char (n div 262144), b64_char (n div 4096 mod 64), b64_char (n div 64 mod 64), b64_char (n mod 64)] = n"
    unfolding digits(1) by (rule sum)
  show "b64_value [b64_char (n div 262144), b64_char (n div 4096 mod 64), b64_char (n div 64 mod 64), CHR ''=''] = n" if "n mod 64 = 0"
    using sum unfolding digits(2) that by (simp only: add_0_right)
  show "b64_value [b64_char (n div 262144), b64_char (n div 4096 mod 64), CHR ''='', CHR ''=''] = n"
    if "n mod 64 = 0" "n div 64 mod 64 = 0"
    using sum unfolding digits(3) that by (simp only: add_0_right)
qed

lemma b64_decode_b64: "b64_decode (b64 bs) = bs"
proof (induction bs rule: b64.induct)
  case (2 a)
  have n: "65536 * unat a mod 64 = 0" "65536 * unat a div 64 mod 64 = 0" by simp_all
  have l: "65536 * unat a < 16777216" "word_of_nat (65536 * unat a div 65536) = a" using b64_bytes [of a 0 0] by simp_all
  show ?case
    by (simp only: b64.simps b64_quad_def take_Suc_Cons take0 numeral_2_eq_2 append.simps b64_decode.simps
        b64_quad_value(3) [OF l(1) n] Let_def if_True l(2) simp_thms)
next
  case (3 a b)
  define n where "n = 65536 * unat a + 256 * unat b"
  have "n mod 64 = 0" unfolding n_def by presburger
  moreover have l: "n < 16777216" "word_of_nat (n div 65536) = a" "word_of_nat (n div 256) = b"
    using b64_bytes [of a b 0] by (simp_all add: n_def)
  moreover have "b64_char (n div 64 mod 64) \<noteq> CHR ''=''" by (rule b64_char_facts) simp
  ultimately show ?case
    unfolding b64.simps n_def [symmetric]
    by (simp only: b64_quad_def take_Suc_Cons take0 numeral_3_eq_3 append.simps b64_decode.simps
        b64_quad_value(2) Let_def if_True if_False l simp_thms)
next
  case (4 a b c bs)
  define n where "n = 65536 * unat a + 256 * unat b + unat c"
  note l = b64_bytes [of a b c, folded n_def]
  have "b64_char (n mod 64) \<noteq> CHR ''=''" by (rule b64_char_facts) simp
  then show ?case
    unfolding b64.simps n_def [symmetric]
    by (simp only: b64_quad_def append.simps b64_decode.simps b64_quad_value(1) [OF l(1)] Let_def if_False l 4 simp_thms)
qed simp

subsection \<open>Lines\<close>

lemma b64_quad_chars: "n < 16777216 \<Longrightarrow> c \<in> set (b64_quad n) \<Longrightarrow> c \<noteq> quote \<and> c \<noteq> CHR 0x0A"
  using b64_digits(1) [of n] b64_char_facts(3,4) by (auto simp: b64_quad_def)

lemma pad_char: "CHR ''='' \<noteq> quote \<and> CHR ''='' \<noteq> CHR 0x0A"
  by (simp add: quote_def)

lemma b64_chars: "c \<in> set (b64 bs) \<Longrightarrow> c \<noteq> quote \<and> c \<noteq> CHR 0x0A"
proof (induction bs rule: b64.induct)
  case (2 a)
  have "65536 * unat a < 16777216" using b64_bytes(1) [of a 0 0] by simp
  then have q: "c \<in> set (b64_quad (65536 * unat a)) \<Longrightarrow> ?case" by (rule b64_quad_chars)
  have "c \<in> set (b64_quad (65536 * unat a)) \<or> c = CHR ''=''"
    using 2 in_set_takeD [of c 2] unfolding b64.simps set_append by auto
  then show ?case by (elim disjE) (simp_all add: q pad_char)
next
  case (3 a b)
  have "65536 * unat a + 256 * unat b < 16777216" using b64_bytes(1) [of a b 0] by simp
  then have q: "c \<in> set (b64_quad (65536 * unat a + 256 * unat b)) \<Longrightarrow> ?case" by (rule b64_quad_chars)
  have "c \<in> set (b64_quad (65536 * unat a + 256 * unat b)) \<or> c = CHR ''=''"
    using 3 in_set_takeD [of c 3] unfolding b64.simps set_append by auto
  then show ?case by (elim disjE) (simp_all add: q pad_char)
next
  case (4 a b c' bs)
  then show ?case using b64_quad_chars [OF b64_bytes(1) [of a b c']] unfolding b64.simps set_append by blast
qed simp

lemma show_uint: "show_int (uint (x :: 'a :: len word)) = show_nat (unat x)"
  by (simp add: show_int_def not_less)

lemma newline_str_bytes: "newline \<in> set (str_bytes cs) \<longleftrightarrow> CHR 0x0A \<in> set cs"
proof -
  have "of_char c = newline \<longleftrightarrow> c = CHR 0x0A" for c
    using str_bytes_inject [of "[c]" "[CHR 0x0A]"] by (simp add: str_bytes_def newline_def)
  then show ?thesis unfolding str_bytes_def set_map image_iff by metis
qed

lemma json_one_line: "newline \<notin> set (json_Marshal e)"
proof -
  have n: "CHR 0x0A \<notin> set (show_nat n)" for n using show_nat_digits [of n] by auto
  have "CHR 0x0A \<notin> set (b64 m)" for m using b64_chars by blast
  then have m: "CHR 0x0A \<notin> set (case Message e of Nil_ptr \<Rightarrow> ''null'' | Ptr m \<Rightarrow> quote # b64 m @ [quote])"
    by (cases "Message e") (simp_all add: quote_def)
  show ?thesis unfolding json_Marshal_def newline_str_bytes show_uint set_append Un_iff using n m by (simp add: quote_def)
qed

subsection \<open>A decoder\<close>

text \<open>It reads what \<open>json_Marshal\<close> writes: the instance in which \<open>json_ok\<close> holds.\<close>

definition is_digit :: "char \<Rightarrow> bool" where
  "is_digit c = (c \<in> set ''0123456789'')"

definition json_decode :: "bytes \<Rightarrow> Envelop option" where
  "json_decode bz =
     (let s1 = drop 5 (bytes_str bz); s2 = drop 5 (dropWhile is_digit s1);
          (m, s3) = (if take 4 s2 = ''null'' then (Nil_ptr, drop 4 s2)
             else (Ptr (b64_decode (takeWhile (\<lambda>c. c \<noteq> quote) (tl s2))), tl (dropWhile (\<lambda>c. c \<noteq> quote) (tl s2))))
      in Some \<lparr>Channel_id = word_of_nat (read_nat (takeWhile is_digit s1)), Message = m,
               MessageType = word_of_nat (read_nat (takeWhile is_digit (drop 6 s3)))\<rparr>)"

lemma number_field:
  assumes "\<not> is_digit c"
  shows "takeWhile is_digit (show_nat n @ c # xs) = show_nat n" "dropWhile is_digit (show_nat n @ c # xs) = c # xs"
proof -
  have d: "\<forall>x \<in> set (show_nat n). is_digit x" using show_nat_digits [of n] unfolding is_digit_def by blast
  show "takeWhile is_digit (show_nat n @ c # xs) = show_nat n" "dropWhile is_digit (show_nat n @ c # xs) = c # xs"
    using d assms by (simp_all only: takeWhile_append2 dropWhile_append2 takeWhile.simps dropWhile.simps if_False append_Nil2)
qed

lemma quoted_field:
  "takeWhile (\<lambda>c. c \<noteq> quote) (b64 m @ quote # xs) = b64 m" "dropWhile (\<lambda>c. c \<noteq> quote) (b64 m @ quote # xs) = quote # xs"
proof -
  have d: "\<forall>x \<in> set (b64 m). x \<noteq> quote" using b64_chars by blast
  show "takeWhile (\<lambda>c. c \<noteq> quote) (b64 m @ quote # xs) = b64 m" "dropWhile (\<lambda>c. c \<noteq> quote) (b64 m @ quote # xs) = quote # xs"
    using d by (simp_all only: takeWhile_append2 dropWhile_append2 takeWhile.simps dropWhile.simps if_False simp_thms append_Nil2)
qed

lemma drop_prefix: "length ps = n \<Longrightarrow> drop n (ps @ xs) = xs"
  by simp

lemma json_decode_ok: "json_ok json_decode"
  unfolding json_ok_def
proof
  fix e :: Envelop
  define c where "c = show_nat (unat (Channel_id e))"
  define t where "t = show_nat (unat (MessageType e))"
  define m where "m = (case Message e of Nil_ptr \<Rightarrow> ''null'' | Ptr m \<Rightarrow> quote # b64 m @ [quote])"
  define u where "u = [CHR '','', quote, CHR ''m'', CHR ''t'', quote, CHR '':''] @ t @ ''}''"
  define v where "v = [CHR '','', quote, CHR ''m'', quote, CHR '':''] @ m @ u"
  have s: "bytes_str (json_Marshal e) = [CHR ''{'', quote, CHR ''c'', quote, CHR '':''] @ c @ v"
    by (simp only: json_Marshal_def show_uint bytes_str_bytes c_def t_def m_def u_def v_def append_assoc)
  have s1: "drop 5 (bytes_str (json_Marshal e)) = c @ v" unfolding s by (rule drop_prefix) simp
  have cf: "takeWhile is_digit (c @ v) = c" "dropWhile is_digit (c @ v) = v"
    unfolding v_def c_def append.simps(2) by (rule number_field; simp add: is_digit_def)+
  have s2: "drop 5 v = m @ u" unfolding v_def by (rule drop_prefix) simp
  have tf: "takeWhile is_digit (drop 6 u) = t"
  proof -
    have "drop 6 u = t @ ''}''" unfolding u_def by (rule drop_prefix) simp
    then show ?thesis unfolding t_def by (simp only:) (rule number_field, simp add: is_digit_def)
  qed
  have mf: "(if take 4 (m @ u) = ''null'' then (Nil_ptr, drop 4 (m @ u))
      else (Ptr (b64_decode (takeWhile (\<lambda>c. c \<noteq> quote) (tl (m @ u)))), tl (dropWhile (\<lambda>c. c \<noteq> quote) (tl (m @ u))))) = (Message e, u)"
  proof (cases "Message e")
    case Nil_ptr
    then show ?thesis by (simp add: m_def)
  next
    case (Ptr x)
    have "take 4 (m @ u) \<noteq> ''null''" by (simp add: m_def Ptr quote_def)
    moreover have "tl (m @ u) = b64 x @ quote # u" by (simp add: m_def Ptr)
    ultimately show ?thesis by (simp add: quoted_field b64_decode_b64 Ptr)
  qed
  show "json_decode (json_Marshal e) = Some e"
    unfolding json_decode_def s1 Let_def cf s2 mf prod.case tf by (simp add: c_def t_def)
qed

subsection \<open>Broken and closed connections\<close>

text \<open>
  A connection that fails for good is never replaced: \<open>TcpDial\<close> writes to it once more for every try and leaves it in
  the map, so that no later message reaches the peer either.
\<close>

lemma dead_connection_stays:
  assumes "m_get (connMap s) addr = Some c" "\<And>w. dead w \<Longrightarrow> \<exists>err w'. net_Write N w c (content @ [newline]) = (Ptr err, w') \<and> dead w'"
  shows "dead w \<Longrightarrow> \<exists>err w'. TcpDial N content addr depth s w = Ret (Ptr err, s, w') \<and> dead w'"
proof (induction "nat depth" arbitrary: depth w)
  case 0
  then obtain err w' where "net_Write N w c (content @ [newline]) = (Ptr err, w')" "dead w'" using assms(2) by blast
  then show ?case using 0 assms(1) by (subst TcpDial.simps) simp
next
  case (Suc n)
  then obtain err w' where w: "net_Write N w c (content @ [newline]) = (Ptr err, w')" "dead w'" using assms(2) by blast
  have "n = nat (depth - 1)" using Suc.hyps(2) by simp
  from Suc.hyps(1) [OF this w(2)] show ?case using w Suc.hyps(2) assms(1) by (subst TcpDial.simps) simp
qed

text \<open>
  After the peer has closed the connection every read returns nothing, and the handler goes on: it never returns
  and, as it does not come to look at the context, cannot be stopped.
\<close>

lemma closed_connection_spins: "handleConnection J r contexts st \<lparr>unread = [], read_end = e\<rparr> = Ret (True, st, \<lparr>unread = [], read_end = e\<rparr>)"
  by (induction contexts) (simp_all add: receive_pass_def ReadBytes_def)

subsection \<open>Messages\<close>

definition frame :: "Envelop \<Rightarrow> bytes" where
  "frame e = json_Marshal e @ [newline]"

text \<open>The specification of a receiver: every message goes to the reactor of its channel, if there is one.\<close>

definition deliver :: "'s Receiver \<Rightarrow> Envelop \<Rightarrow> 's \<Rightarrow> 's go" where
  "deliver r e st = (case channelMap r (Channel_id e) of
     None \<Rightarrow> Ret st | Some reactor \<Rightarrow> map_option snd (reactor st (Channel_id e) (Message e) (MessageType e)))"

fun deliver_all :: "'s Receiver \<Rightarrow> Envelop list \<Rightarrow> 's \<Rightarrow> 's go" where
  "deliver_all r [] st = Ret st"
| "deliver_all r (e # es) st = do { st1 \<leftarrow> deliver r e st; deliver_all r es st1 }"

fun send_all :: "'w network \<Rightarrow> Peer \<Rightarrow> Envelop list \<Rightarrow> Sender \<Rightarrow> 'w \<Rightarrow> (Sender \<times> 'w) go" where
  "send_all N peer [] s w = Ret (s, w)"
| "send_all N peer (e # es) s w = do {
     (_, s1, w1) \<leftarrow> Send N peer (Channel_id e) (Message e) (MessageType e) s w;
     send_all N peer es s1 w1 }"

text \<open>\<open>wire w c\<close>: what was written to the connection.\<close>

definition reliable :: "'w network \<Rightarrow> ('w \<Rightarrow> conn_id \<Rightarrow> bytes) \<Rightarrow> bool" where
  "reliable N wire \<longleftrightarrow> (\<forall>w c bz. \<exists>w'. net_Write N w c bz = (Nil_ptr, w') \<and> wire w' = (wire w)(c := wire w c @ bz))"

lemma ReadBytes_frame:
  "ReadBytes \<lparr>unread = frame e @ rest, read_end = x\<rparr> = (frame e, Nil_ptr, \<lparr>unread = rest, read_end = x\<rparr>)"
proof -
  have "\<forall>b \<in> set (json_Marshal e). b \<noteq> newline" using json_one_line by metis
  then show ?thesis by (simp add: ReadBytes_def frame_def takeWhile_append2 dropWhile_append2)
qed

lemma receive_frames:
  assumes "json_ok J"
  shows "handleConnection J r (replicate (length es) False) st \<lparr>unread = concat (map frame es), read_end = x\<rparr> =
    map_option (\<lambda>st'. (True, st', \<lparr>unread = [], read_end = x\<rparr>)) (deliver_all r es st)"
proof (induction es arbitrary: st)
  case (Cons e es)
  have "dispatch J r (json_Marshal e) st = deliver r e st"
    using assms by (simp add: dispatch_def deliver_def json_ok_def Let_def)
  then have "receive_pass J r False st \<lparr>unread = frame e @ rest, read_end = x\<rparr> =
      do { st1 \<leftarrow> deliver r e st; Ret (True, st1, \<lparr>unread = rest, read_end = x\<rparr>) }" for rest
    by (simp add: receive_pass_def ReadBytes_frame) (simp add: frame_def)
  then show ?case using Cons by (cases "deliver r e st") simp_all
qed simp

lemma Send_writes:
  assumes "reliable N wire" "m_get (connMap s) (IP peer) = Some c" "MyIP s \<noteq> IP peer"
  shows "\<exists>w'. Send N peer ch m t s w = Ret (Nil_ptr, s, w') \<and> wire w' = (wire w)(c := wire w c @ frame \<lparr>Channel_id = ch, Message = m, MessageType = t\<rparr>)"
proof -
  obtain w' where "net_Write N w c (json_Marshal \<lparr>Channel_id = ch, Message = m, MessageType = t\<rparr> @ [newline]) = (Nil_ptr, w')"
    "wire w' = (wire w)(c := wire w c @ frame \<lparr>Channel_id = ch, Message = m, MessageType = t\<rparr>)"
    using assms(1) unfolding reliable_def frame_def by metis
  then show ?thesis using assms(2,3) by (simp add: Send_def Let_def TcpDial.simps)
qed

lemma send_all_writes:
  assumes "reliable N wire" "m_get (connMap s) (IP peer) = Some c" "MyIP s \<noteq> IP peer"
  shows "\<exists>w'. send_all N peer es s w = Ret (s, w') \<and> wire w' = (wire w)(c := wire w c @ concat (map frame es))"
proof (induction es arbitrary: w)
  case (Cons e es)
  obtain w1 where w1: "Send N peer (Channel_id e) (Message e) (MessageType e) s w = Ret (Nil_ptr, s, w1)" "wire w1 = (wire w)(c := wire w c @ frame e)"
    using Send_writes [OF assms, of "Channel_id e" "Message e" "MessageType e" w] by (cases e) auto
  obtain w2 where "send_all N peer es s w1 = Ret (s, w2)" "wire w2 = (wire w1)(c := wire w1 c @ concat (map frame es))"
    using Cons by blast
  then show ?case using w1 by auto
qed simp

subsection \<open>Broadcast lists\<close>

definition shard_peers :: "Sender \<Rightarrow> string \<Rightarrow> Peer list" where
  "shard_peers s cid = (case m_get (shardMap s) cid of None \<Rightarrow> [] | Some peers \<Rightarrow> peers)"

lemma add_to_shard_peers:
  "shard_peers (add_to_shard peer cid s) cid' =
     (if cid = cid' \<and> \<not> list_ex (Peer_Equal peer) (shard_peers s cid) then shard_peers s cid @ [peer] else shard_peers s cid')"
  "MyIP (add_to_shard peer cid s) = MyIP s" "connMap (add_to_shard peer cid s) = connMap s"
  by (auto simp: add_to_shard_def shard_peers_def Let_def update_conv')

lemma AddPeer_peers:
  "distinct cids \<Longrightarrow> shard_peers (AddPeer cids peer s) cid =
     (if cid \<in> set cids \<and> \<not> list_ex (Peer_Equal peer) (shard_peers s cid) then shard_peers s cid @ [peer] else shard_peers s cid)"
  unfolding AddPeer_def by (induction cids arbitrary: s) (auto simp: add_to_shard_peers)

text \<open>The peers of a configuration, each with its chains in the order in which they are visited.\<close>

definition add_peers :: "(string list \<times> Peer) list \<Rightarrow> Sender \<Rightarrow> Sender" where
  "add_peers ps s = fold (\<lambda>(cids, peer). AddPeer cids peer) ps s"

lemma add_peers_list:
  assumes "distinct (map (IP \<circ> snd) ps)" "\<forall>(cids, peer) \<in> set ps. distinct cids \<and> (\<forall>q \<in> set (shard_peers s cid). IP q \<noteq> IP peer)"
  shows "shard_peers (add_peers ps s) cid = shard_peers s cid @ map snd (filter (\<lambda>(cids, peer). cid \<in> set cids) ps)"
  using assms
proof (induction ps arbitrary: s)
  case (Cons p ps)
  obtain cids peer where p: "p = (cids, peer)" by fastforce
  have ex: "\<not> list_ex (Peer_Equal peer) (shard_peers s cid)" using Cons.prems(2) by (auto simp: p list_ex_iff Peer_Equal_def)
  then have a: "shard_peers (AddPeer cids peer s) cid = shard_peers s cid @ (if cid \<in> set cids then [peer] else [])"
    using Cons.prems(2) by (simp add: AddPeer_peers p)
  have "shard_peers (add_peers ps (AddPeer cids peer s)) cid = shard_peers (AddPeer cids peer s) cid @ map snd (filter (\<lambda>(cids, peer). cid \<in> set cids) ps)"
    using Cons.prems by (intro Cons.IH) (auto simp: p a rev_image_eqI)
  then show ?case by (simp add: add_peers_def p a)
qed (simp add: add_peers_def)

lemma add_peers_frame: "MyIP (add_peers ps s) = MyIP s" "connMap (add_peers ps s) = connMap s"
proof -
  have "MyIP (fold (add_to_shard peer) cids s) = MyIP s \<and> connMap (fold (add_to_shard peer) cids s) = connMap s" for peer cids s
    by (induction cids arbitrary: s) (simp_all add: add_to_shard_peers)
  then have "MyIP (add_peers ps s) = MyIP s \<and> connMap (add_peers ps s) = connMap s"
    unfolding add_peers_def by (induction ps arbitrary: s) (auto simp: AddPeer_def)
  then show "MyIP (add_peers ps s) = MyIP s" "connMap (add_peers ps s) = connMap s" by simp_all
qed

lemma send_peers_writes:
  assumes "reliable N wire" "distinct (map IP qs)" "inj_on conn (IP ` set qs)"
    "\<forall>q \<in> set qs. IP q \<noteq> MyIP s \<longrightarrow> m_get (connMap s) (IP q) = Some (conn (IP q))"
  shows "\<exists>w'. send_peers N qs ch m t s w = Ret (s, w') \<and> (\<forall>c. wire w' c = wire w c @
    (if c \<in> conn ` (IP ` set qs - {MyIP s}) then frame \<lparr>Channel_id = ch, Message = m, MessageType = t\<rparr> else []))"
  using assms(2-)
proof (induction qs arbitrary: w)
  case (Cons q qs)
  have ih: "\<exists>w'. send_peers N qs ch m t s w1 = Ret (s, w') \<and> (\<forall>c. wire w' c = wire w1 c @
      (if c \<in> conn ` (IP ` set qs - {MyIP s}) then frame \<lparr>Channel_id = ch, Message = m, MessageType = t\<rparr> else []))" for w1
    using Cons.prems by (intro Cons.IH) auto
  show ?case
  proof (cases "IP q = MyIP s")
    case True
    then show ?thesis using ih [of w] by (simp add: Send_def)
  next
    case False
    have c: "m_get (connMap s) (IP q) = Some (conn (IP q))" using Cons.prems(3) False by simp
    obtain w1 where w1: "Send N q ch m t s w = Ret (Nil_ptr, s, w1)"
      "wire w1 = (wire w)(conn (IP q) := wire w (conn (IP q)) @ frame \<lparr>Channel_id = ch, Message = m, MessageType = t\<rparr>)"
      using Send_writes [OF assms(1) c] False by metis
    have new: "conn (IP q) \<notin> conn ` (IP ` set qs - {MyIP s})"
      using Cons.prems(1,2) by (auto simp: inj_on_def)
    have "IP ` set (q # qs) - {MyIP s} = insert (IP q) (IP ` set qs - {MyIP s})" using False by auto
    then show ?thesis using ih [of w1] w1 new by auto
  qed
qed simp

text \<open>With different addresses and connections, a connection belongs to a peer of the shard just if its own peer has the chain.\<close>

lemma member_connection:
  fixes cid :: string
  defines "chosen ps \<equiv> map snd (filter (\<lambda>(cids, peer). cid \<in> set cids) ps)"
  assumes "distinct (map (IP \<circ> snd) ps)" "inj_on conn (IP ` snd ` set ps)" "(cids, peer) \<in> set ps" "IP peer \<noteq> ip"
  shows "conn (IP peer) \<in> conn ` (IP ` set (chosen ps) - {ip}) \<longleftrightarrow> cid \<in> set cids"
proof -
  have i: "IP peer \<in> IP ` snd ` set ps" using assms(4) by (metis imageI snd_conv)
  have "IP ` set (chosen ps) - {ip} \<subseteq> IP ` snd ` set ps" by (auto simp: chosen_def)
  then have "conn (IP peer) \<in> conn ` (IP ` set (chosen ps) - {ip}) \<longleftrightarrow> IP peer \<in> IP ` set (chosen ps) - {ip}"
    by (rule inj_on_image_mem_iff [OF assms(3) i])
  also have "\<dots> \<longleftrightarrow> cid \<in> set cids"
  proof
    assume "IP peer \<in> IP ` set (chosen ps) - {ip}"
    then obtain cids' peer' where p: "(cids', peer') \<in> set ps" "cid \<in> set cids'" "IP peer' = IP peer" by (auto simp: chosen_def)
    then have "(cids', peer') = (cids, peer)" using inj_onD [OF distinct_map [THEN iffD1, OF assms(2), THEN conjunct2]] assms(4) by fastforce
    then show "cid \<in> set cids" using p by simp
  next
    assume "cid \<in> set cids"
    then show "IP peer \<in> IP ` set (chosen ps) - {ip}" using assms(4,5) by (force simp: chosen_def)
  qed
  finally show ?thesis .
qed

section \<open>Properties\<close>

text \<open>
  C29: over a reliable network the messages a node sends to a peer one after the other arrive as they were sent, in the
  order in which they were sent, each at the reactor of its channel, whatever bytes they contain.
\<close>

theorem messages_delivered_in_order:
  assumes "json_ok J" "reliable N wire" "m_get (connMap s) (IP peer) = Some c" "MyIP s \<noteq> IP peer" "wire w c = []"
  shows "\<exists>w'. send_all N peer es s w = Ret (s, w') \<and>
    handleConnection J r (replicate (length es) False) st \<lparr>unread = wire w' c, read_end = x\<rparr> =
      map_option (\<lambda>st'. (True, st', \<lparr>unread = [], read_end = x\<rparr>)) (deliver_all r es st)"
proof -
  obtain w' where "send_all N peer es s w = Ret (s, w')" "wire w' c = concat (map frame es)"
    using send_all_writes [OF assms(2-4), of es w] assms(5) by auto
  then show ?thesis using receive_frames [OF assms(1)] by metis
qed

text \<open>A network of one connection per number that keeps what was written, and two nodes.\<close>

definition demo_net :: "(conn_id \<Rightarrow> bytes) network" where
  "demo_net = \<lparr>net_Dial = (\<lambda>w addr. (Inl ''refused'', w)), net_SetDeadline = (\<lambda>w c d. (Nil_ptr, w)),
     net_Write = (\<lambda>w c bz. (Nil_ptr, w(c := w c @ bz))), net_Close = (\<lambda>w c. (Nil_ptr, w))\<rparr>"

lemma demo_net_reliable: "reliable demo_net (\<lambda>w. w)"
  by (simp add: reliable_def demo_net_def)

definition demo_peers :: "(string list \<times> Peer) list" where
  "demo_peers = [([''i1'', ''b1''], NewPeer ''ip1'' [''i1'' \<mapsto> True, ''b1'' \<mapsto> True] [] 1),
     ([''i2''], NewPeer ''ip2'' [''i2'' \<mapsto> True] [] 1), ([''i1''], NewPeer ''ip3'' [''i1'' \<mapsto> True] [] 1)]"

definition demo_sender :: Sender where
  "demo_sender = (add_peers demo_peers (NewSender ''ip1''))\<lparr>connMap := [(''ip2'', 2), (''ip3'', 3)]\<rparr>"

text \<open>A node that lists the messages of two channels.\<close>

definition demo_receiver :: "bytes list Receiver" where
  "demo_receiver = AddChennel (\<lambda>st ch m t. Ret (Nil_ptr, st @ [slice_bytes m])) 0x31
     (AddChennel (\<lambda>st ch m t. if t = 9 then Panic else Ret (Nil_ptr, slice_bytes m # st)) 0x21 (NewReceiver ''ip3'' 80))"

theorem messages_delivered_in_order_witness:
  "\<exists>w'. send_all demo_net (snd (demo_peers ! 2))
      [NewEnvelop 0x31 (Ptr [10, 34]) 2, NewEnvelop 0x44 (Ptr [1]) 3, NewEnvelop 0x21 (Ptr [7]) 0] demo_sender (\<lambda>_. []) = Ret (demo_sender, w') \<and>
    handleConnection json_decode demo_receiver [False, False, False] [] \<lparr>unread = w' 3, read_end = EOF\<rparr> =
      Ret (True, [[7], [10, 34]], \<lparr>unread = [], read_end = EOF\<rparr>)"
proof -
  let ?es = "[NewEnvelop 0x31 (Ptr [10, 34]) 2, NewEnvelop 0x44 (Ptr [1]) 3, NewEnvelop 0x21 (Ptr [7]) 0]"
  have "m_get (connMap demo_sender) (IP (snd (demo_peers ! 2))) = Some 3" "MyIP demo_sender \<noteq> IP (snd (demo_peers ! 2))"
    by (simp_all add: demo_sender_def add_peers_frame) (simp_all add: demo_peers_def NewPeer_def NewSender_def)
  moreover have "deliver_all demo_receiver ?es [] = Ret [[7], [10, 34]]"
    by (simp add: deliver_def demo_receiver_def AddChennel_def NewReceiver_def NewEnvelop_def slice_bytes_def)
  moreover have "replicate (length ?es) False = [False, False, False]" by simp
  ultimately show ?thesis
    using messages_delivered_in_order [OF json_decode_ok demo_net_reliable, of demo_sender "snd (demo_peers ! 2)" 3 "\<lambda>_. []" ?es demo_receiver "[]" EOF]
    by (simp only: option.map simp_thms)
qed

text \<open>
  C30: a message to a shard is written once to the connection of every peer of a chain of this name but to the sender's own,
  and nothing is written to the peers of other chains. What counts is that the chain occurs in the peer's map.
\<close>

theorem broadcast_reaches_shard:
  assumes "reliable N wire" "distinct (map (IP \<circ> snd) ps)" "\<forall>(cids, peer) \<in> set ps. distinct cids" "inj_on conn (IP ` snd ` set ps)"
    "\<forall>p \<in> set ps. IP (snd p) \<noteq> ip \<longrightarrow> m_get conns (IP (snd p)) = Some (conn (IP (snd p)))"
  shows "\<exists>w'. SendToShard N cid ch m t ((add_peers ps (NewSender ip))\<lparr>connMap := conns\<rparr>) w =
      Ret (Nil_ptr, (add_peers ps (NewSender ip))\<lparr>connMap := conns\<rparr>, w') \<and>
    (\<forall>(cids, peer) \<in> set ps. IP peer \<noteq> ip \<longrightarrow> wire w' (conn (IP peer)) = wire w (conn (IP peer)) @
       (if cid \<in> set cids then frame \<lparr>Channel_id = ch, Message = m, MessageType = t\<rparr> else []))"
proof -
  let ?s = "(add_peers ps (NewSender ip))\<lparr>connMap := conns\<rparr>" and ?f = "frame \<lparr>Channel_id = ch, Message = m, MessageType = t\<rparr>"
  define qs where "qs = map snd (filter (\<lambda>(cids, peer). cid \<in> set cids) ps)"
  have "shard_peers (NewSender ip) cid = []" for cid by (simp add: shard_peers_def NewSender_def)
  then have "shard_peers (add_peers ps (NewSender ip)) cid = qs"
    using add_peers_list [OF assms(2), of "NewSender ip" cid] assms(3) by (auto simp: qs_def)
  then have q: "shard_peers ?s cid = qs" by (simp add: shard_peers_def)
  have me: "MyIP ?s = ip" by (simp add: add_peers_frame) (simp add: NewSender_def)
  have sub: "set qs \<subseteq> snd ` set ps" by (auto simp: qs_def)
  have dist: "distinct (map IP qs)"
    using distinct_filter assms(2) by (simp add: qs_def distinct_map_filter)
  have inj: "inj_on conn (IP ` set qs)" using assms(4) sub by (meson image_mono inj_on_subset)
  have con: "\<forall>q \<in> set qs. IP q \<noteq> MyIP ?s \<longrightarrow> m_get (connMap ?s) (IP q) = Some (conn (IP q))"
    using assms(5) sub me by auto
  obtain w' where w': "send_peers N qs ch m t ?s w = Ret (?s, w')"
    "\<And>c. wire w' c = wire w c @ (if c \<in> conn ` (IP ` set qs - {ip}) then ?f else [])"
    using send_peers_writes [OF assms(1) dist inj con] unfolding me by metis
  have mem: "conn (IP peer) \<in> conn ` (IP ` set qs - {ip}) \<longleftrightarrow> cid \<in> set cids" if "(cids, peer) \<in> set ps" "IP peer \<noteq> ip" for cids peer
    unfolding qs_def by (rule member_connection [OF assms(2,4) that])
  have "SendToShard N cid ch m t ?s w = Ret (Nil_ptr, ?s, w')"
    using w'(1) q by (simp add: SendToShard_def shard_peers_def)
  moreover have "\<forall>(cids, peer) \<in> set ps. IP peer \<noteq> ip \<longrightarrow>
      wire w' (conn (IP peer)) = wire w (conn (IP peer)) @ (if cid \<in> set cids then ?f else [])"
    by (clarify, simp only: w'(2) mem simp_thms)
  ultimately show ?thesis by blast
qed

theorem broadcast_reaches_shard_witness:
  "\<exists>w'. SendToShard demo_net ''i1'' 0x31 (Ptr [5]) 2 demo_sender (\<lambda>_. []) = Ret (Nil_ptr, demo_sender, w') \<and>
     w' 2 = [] \<and> w' 3 = frame (NewEnvelop 0x31 (Ptr [5]) 2)"
  using broadcast_reaches_shard [OF demo_net_reliable, of demo_peers "\<lambda>a. if a = ''ip1'' then 1 else if a = ''ip2'' then 2 else 3" "''ip1''"
      "[(''ip2'', 2), (''ip3'', 3)]" "''i1''" "0x31" "Ptr [5]" 2 "\<lambda>_. []"]
  unfolding demo_sender_def [symmetric]
  by (simp add: demo_peers_def NewPeer_def NewEnvelop_def inj_on_def)

end
