(* ===== verification/PyrBlocks.thy ===== *)
theory PyrBlocks
  imports Store
begin

text \<open>
  The blocks of the pyramid protocol (\<open>pyramid/types/block.go\<close>, \<open>block-part.go\<close>, \<open>abci-resp.go\<close>). Their
  structs, message forms and part sets are those of \<open>Blocks\<close>; what differs is here: the kinds of
  blocks, the responses, and \<open>fillHeader\<close>, which overwrites the receipt root with the hash of the
  relation, so that the hash of a block and everything built on it are defined again.
\<close>

section \<open>Kinds of blocks\<close>

definition BLOCKTYPE_B :: int where "BLOCKTYPE_B = 2"
definition BLOCKTYPE_InnerShard :: int where "BLOCKTYPE_InnerShard = 3"
definition BLOCKTYPE_CrossShard :: int where "BLOCKTYPE_CrossShard = 4"
definition BLOCKTYPE_BCommitBlock :: int where "BLOCKTYPE_BCommitBlock = 5"
definition BLOCKTYPE_ICommitBlock :: int where "BLOCKTYPE_ICommitBlock = 6"
definition BLOCKTYPE_IAcceptBlock :: int where "BLOCKTYPE_IAcceptBlock = 7"

lemmas block_type_defs = BLOCKTYPE_B_def BLOCKTYPE_InnerShard_def BLOCKTYPE_CrossShard_def
  BLOCKTYPE_BCommitBlock_def BLOCKTYPE_ICommitBlock_def BLOCKTYPE_IAcceptBlock_def

section \<open>Responses\<close>

record ABCIPreExecutionResponseB =
  pb_resp_Code :: int
  pb_resp_CrossShardDatas :: "bytes list"

definition RespB_IsOK :: "ABCIPreExecutionResponseB \<Rightarrow> bool" where
  "RespB_IsOK r = (pb_resp_Code r = CodeTypeOK)"

text \<open>\<open>BehaviorErrors\<close> only holds messages; its length is kept as whether there is one.\<close>

record pyr_ResponseI =
  pi_resp_Code :: int
  BehaviorErrors :: "string list"

definition RespI_IsOK :: "pyr_ResponseI \<Rightarrow> bool" where
  "RespI_IsOK r = (pi_resp_Code r = CodeTypeOK)"

record pyr_Response =
  Receipts :: "ABCIExecutionReceipt list"

section \<open>Hashes\<close>

definition pyr_fillHeader :: "Block \<Rightarrow> Block go" where
  "pyr_fillHeader b =
     do { b1 \<leftarrow> (if int (length (BodyRoot (b_Header b))) \<noteq> HashSize
                then do { r \<leftarrow> Body_Hash (b_Body b); Ret (b\<lparr>b_Header := (b_Header b)\<lparr>BodyRoot := r\<rparr>\<rparr>) }
                else Ret b);
          b2 \<leftarrow> (if int (length (RelationRoot (b_Header b1))) \<noteq> HashSize
                then do { r \<leftarrow> Relation_Hash (b_Relation b1); Ret (b1\<lparr>b_Header := (b_Header b1)\<lparr>ReceiptRoot := r\<rparr>\<rparr>) }
                else Ret b1);
          (if int (length (CrossShardBodyRoot (b_Header b2))) \<noteq> HashSize
           then do { r \<leftarrow> CrossShardBody_Hash (b_CrossShardBody b2);
                     Ret (b2\<lparr>b_Header := (b_Header b2)\<lparr>CrossShardBodyRoot := r\<rparr>\<rparr>) }
           else Ret b2) }"

definition pyr_Block_Hash :: "time_marshal \<Rightarrow> Block \<Rightarrow> (bytes \<times> Block) go" where
  "pyr_Block_Hash tm b =
     do { b1 \<leftarrow> pyr_fillHeader b;
          b2 \<leftarrow> (if int (length (blockhash b1)) \<noteq> HashSize
                then do { r \<leftarrow> Header_Hash tm (b_Header b1); Ret (b1\<lparr>blockhash := slice_bytes r\<rparr>) }
                else Ret b1);
          Ret (blockhash b2, b2) }"

section \<open>Part sets and the store\<close>

definition pyr_PartSetFromBlock ::
  "time_marshal \<Rightarrow> pb_Block codec \<Rightarrow> Block \<Rightarrow> int \<Rightarrow> int \<Rightarrow> (PartSet \<times> Block) go option" where
  "pyr_PartSetFromBlock tm c b maxPartSize rnd =
     (case Block_ProtoBytes c b of
        Panic \<Rightarrow> Some Panic
      | Ret bz \<Rightarrow>
          (case SplitByteArray bz maxPartSize of
             None \<Rightarrow> None
           | Some Panic \<Rightarrow> Some Panic
           | Some (Ret bzList) \<Rightarrow>
               Some (do { (hs, proof) \<leftarrow> ProofsFromByteSlices bzList;
                          parts \<leftarrow> make_parts (ChainID (b_Header b)) (Height (b_Header b)) rnd bzList proof 0;
                          (bh, b') \<leftarrow> pyr_Block_Hash tm b;
                          Ret (\<lparr>ps_Header = \<lparr>psh_Height = Height (b_Header b), psh_Round = rnd,
                                            psh_Total = int (length parts), psh_Root = hs,
                                            psh_ChainID = ChainID (b_Header b)\<rparr>,
                                Parts = map Ptr parts, count = int (length parts), ps_BlockHeaderHash = bh\<rparr>, b') })))"

definition pyr_GenBlock :: "time_marshal \<Rightarrow> pb_Block codec \<Rightarrow> PartSet \<Rightarrow> (Block ptr \<times> GenBlockError ptr) go" where
  "pyr_GenBlock tm c ps =
     (if \<not> IsComplete ps then Ret (Nil_ptr, Nil_ptr)
      else if int (length (Parts ps)) > count ps then Panic
      else
        do { blockBytes \<leftarrow> those (map part_bytes (Parts ps));
             bp \<leftarrow> NewBlockFromBytes c (concat blockBytes);
             case bp of
               Nil_ptr \<Rightarrow> Ret (Nil_ptr, Ptr DeserializationError)
             | Ptr block \<Rightarrow>
                 if ChainID (b_Header block) \<noteq> psh_ChainID (ps_Header ps) then Ret (Nil_ptr, Ptr ChainIDMismatch)
                 else if Height (b_Header block) \<noteq> psh_Height (ps_Header ps) then Ret (Nil_ptr, Ptr HeightMismatch)
                 else if \<not> is_nil (Block_ValidateBasic block) then Ret (Ptr block, Ptr InvalidBlock)
                 else do { (bh, block') \<leftarrow> pyr_Block_Hash tm block;
                           if bh \<noteq> ps_BlockHeaderHash ps then Ret (Ptr block', Ptr HeaderHashMismatch)
                           else Ret (Ptr block', Nil_ptr) } })"

text \<open>\<open>PrefixStore.SetBlockByHeight\<close> on a block of this protocol.\<close>

definition pyr_SetBlockByHeight ::
  "time_marshal \<Rightarrow> pb_Block codec \<Rightarrow> kv \<Rightarrow> int \<Rightarrow> string \<Rightarrow> Block \<Rightarrow> (DBError ptr \<times> kv \<times> Block) go" where
  "pyr_SetBlockByHeight tm c p height chain block =
     do { (hs, block') \<leftarrow> pyr_Block_Hash tm block;
          case SetState p (height_key height chain) (if hs = [] then Nil_ptr else Ptr hs) of
            (Ptr e, p') \<Rightarrow> Ret (Ptr e, p', block')
          | (Nil_ptr, p') \<Rightarrow>
              do { bz \<leftarrow> Block_ProtoBytes c block';
                   let (e, p'') = SetBlockByHash p' hs bz in Ret (e, p'', block') } }"

section \<open>Lemmas\<close>

text \<open>The block with its empty roots filled, given the three hashes.\<close>

definition pyr_filled :: "bytes \<Rightarrow> bytes \<Rightarrow> bytes \<Rightarrow> Block \<Rightarrow> Block" where
  "pyr_filled x y z b = b\<lparr>b_Header := (b_Header b)
     \<lparr>BodyRoot := (if length (BodyRoot (b_Header b)) = 32 then BodyRoot (b_Header b) else x),
      ReceiptRoot := (if length (RelationRoot (b_Header b)) = 32 then ReceiptRoot (b_Header b) else z),
      CrossShardBodyRoot := (if length (CrossShardBodyRoot (b_Header b)) = 32 then CrossShardBodyRoot (b_Header b) else y)\<rparr>\<rparr>"

lemma pyr_fillHeader_filled:
  assumes "Body_Hash (b_Body b) = Ret x" "CrossShardBody_Hash (b_CrossShardBody b) = Ret y" "Relation_Hash (b_Relation b) = Ret z"
  shows "pyr_fillHeader b = Ret (pyr_filled x y z b)"
  using assms by (cases b) (simp add: pyr_fillHeader_def pyr_filled_def HashSize_def)

lemma pyr_Block_Hash_filled:
  assumes "Body_Hash (b_Body b) = Ret x" "CrossShardBody_Hash (b_CrossShardBody b) = Ret y" "Relation_Hash (b_Relation b) = Ret z"
    and "Header_Hash tm (b_Header (pyr_filled x y z b)) = Ret r"
  defines "k \<equiv> if length (blockhash b) \<noteq> 32 then slice_bytes r else blockhash b"
  shows "pyr_Block_Hash tm b = Ret (k, pyr_filled x y z b\<lparr>blockhash := k\<rparr>)"
proof -
  have "blockhash (pyr_filled x y z b) = blockhash b" by (simp add: pyr_filled_def)
  then show ?thesis by (simp add: pyr_Block_Hash_def pyr_fillHeader_filled [OF assms(1-3)] assms(4) HashSize_def k_def)
qed

lemma pyr_Block_Hash_cases:
  obtains x y z r where "Body_Hash (b_Body b) = Ret x" "CrossShardBody_Hash (b_CrossShardBody b) = Ret y"
    "Relation_Hash (b_Relation b) = Ret z" "length x = 32" "length y = 32" "length z = 32"
    "Header_Hash tm (b_Header (pyr_filled x y z b)) = Ret r"
  using body_hashes_return Header_Hash_returns by metis

lemma pyr_Block_Hash_total: "\<exists>h b'. pyr_Block_Hash tm b = Ret (h, b')"
  by (rule pyr_Block_Hash_cases [of b tm]) (simp add: pyr_Block_Hash_filled)

lemma pyr_Block_Hash_idem:
  assumes "pyr_Block_Hash tm b = Ret (h, b')"
  shows "pyr_Block_Hash tm b' = Ret (h, b')"
proof -
  obtain x y z r where c: "Body_Hash (b_Body b) = Ret x" "CrossShardBody_Hash (b_CrossShardBody b) = Ret y"
    "Relation_Hash (b_Relation b) = Ret z" "length x = 32" "length y = 32" "length z = 32"
    "Header_Hash tm (b_Header (pyr_filled x y z b)) = Ret r"
    by (rule pyr_Block_Hash_cases)
  let ?k = "if length (blockhash b) \<noteq> 32 then slice_bytes r else blockhash b"
  have b': "b' = pyr_filled x y z b\<lparr>blockhash := ?k\<rparr>" "h = ?k"
    using assms unfolding pyr_Block_Hash_filled [OF c(1-3,7)] by auto
  have f: "pyr_filled x y z b' = b'" using c(4-6) by (simp add: b'(1) pyr_filled_def)
  have p: "b_Body b' = b_Body b" "b_CrossShardBody b' = b_CrossShardBody b" "b_Relation b' = b_Relation b"
    "b_Header b' = b_Header (pyr_filled x y z b)" "blockhash b' = ?k"
    by (simp_all add: b'(1) pyr_filled_def)
  have "pyr_Block_Hash tm b' = (let k = if length ?k \<noteq> 32 then slice_bytes r else ?k in Ret (k, b'\<lparr>blockhash := k\<rparr>))"
    using pyr_Block_Hash_filled [of b' x y z tm r] c p f by (simp add: Let_def)
  moreover have "(if length ?k \<noteq> 32 then slice_bytes r else ?k) = ?k" by simp
  ultimately show ?thesis unfolding b' by (simp add: Let_def)
qed

lemma pyr_Block_Hash_frame:
  assumes "pyr_Block_Hash tm b = Ret (h, b')"
  shows "b_CrossShardBody b' = b_CrossShardBody b" "b_Body b' = b_Body b" "b_Relation b' = b_Relation b"
    "ChainID (b_Header b') = ChainID (b_Header b)" "Height (b_Header b') = Height (b_Header b)"
    "BlockType (b_Header b') = BlockType (b_Header b)" "Time (b_Header b') = Time (b_Header b)" "blockhash b' = h"
proof -
  obtain x y z r where "Body_Hash (b_Body b) = Ret x" "CrossShardBody_Hash (b_CrossShardBody b) = Ret y"
    "Relation_Hash (b_Relation b) = Ret z" "Header_Hash tm (b_Header (pyr_filled x y z b)) = Ret r"
    by (rule pyr_Block_Hash_cases)
  note e = pyr_Block_Hash_filled [OF this]
  have b': "b' = pyr_filled x y z b\<lparr>blockhash := h\<rparr>" using assms unfolding e by fastforce
  then show "blockhash b' = h" by simp
  from b' show "b_CrossShardBody b' = b_CrossShardBody b" "b_Body b' = b_Body b" "b_Relation b' = b_Relation b"
    "ChainID (b_Header b') = ChainID (b_Header b)" "Height (b_Header b') = Height (b_Header b)"
    "BlockType (b_Header b') = BlockType (b_Header b)" "Time (b_Header b') = Time (b_Header b)"
    by (simp_all add: pyr_filled_def)
qed

text \<open>A codec that marshals every message to the same bytes, used by witnesses that only marshal.\<close>

definition any_codec :: "'m codec" where
  "any_codec = \<lparr>Marshal = (\<lambda>m. Some [9]), Unmarshal = (\<lambda>bz. None)\<rparr>"

lemma MustProto_any_codec [simp]: "MustProtoBytes any_codec m = Ret [9]"
  by (simp add: MustProtoBytes_def any_codec_def)

text \<open>
  The hash of a block does not bind its receipt root: two blocks that differ only in it have the same
  hash, because hashing overwrites the receipt root with the hash of the relation, whose own root
  stays empty.
\<close>

theorem pyr_hash_ignores_receipts:
  assumes "length (RelationRoot (b_Header b)) \<noteq> 32"
  shows "\<exists>h b'. pyr_Block_Hash tm b = Ret (h, b') \<and>
    pyr_Block_Hash tm (b\<lparr>b_Header := (b_Header b)\<lparr>ReceiptRoot := x\<rparr>\<rparr>) = Ret (h, b') \<and>
    Relation_Hash (b_Relation b) = Ret (ReceiptRoot (b_Header b')) \<and> RelationRoot (b_Header b') = RelationRoot (b_Header b)"
proof -
  obtain u y z r where c: "Body_Hash (b_Body b) = Ret u" "CrossShardBody_Hash (b_CrossShardBody b) = Ret y"
    "Relation_Hash (b_Relation b) = Ret z" "Header_Hash tm (b_Header (pyr_filled u y z b)) = Ret r"
    by (rule pyr_Block_Hash_cases)
  define c' where "c' = b\<lparr>b_Header := (b_Header b)\<lparr>ReceiptRoot := x\<rparr>\<rparr>"
  have f: "pyr_filled u y z c' = pyr_filled u y z b" "blockhash c' = blockhash b" "b_Body c' = b_Body b"
    "b_CrossShardBody c' = b_CrossShardBody b" "b_Relation c' = b_Relation b"
    using assms by (simp_all add: pyr_filled_def c'_def)
  have "pyr_Block_Hash tm c' = pyr_Block_Hash tm b"
    using pyr_Block_Hash_filled [OF c] pyr_Block_Hash_filled [of c' u y z tm r] c by (simp add: f)
  moreover have "ReceiptRoot (b_Header (pyr_filled u y z b)) = z" "RelationRoot (b_Header (pyr_filled u y z b)) = RelationRoot (b_Header b)"
    using assms by (simp_all add: pyr_filled_def)
  ultimately show ?thesis unfolding c'_def [symmetric] by (simp add: pyr_Block_Hash_filled [OF c] c(3))
qed

theorem pyr_hash_ignores_receipts_witness:
  "\<exists>h b'. pyr_Block_Hash (\<lambda>t. Some [7]) demo_block = Ret (h, b') \<and>
     pyr_Block_Hash (\<lambda>t. Some [7]) (demo_block\<lparr>b_Header := (b_Header demo_block)\<lparr>ReceiptRoot := [9]\<rparr>\<rparr>) = Ret (h, b')"
proof -
  have "length (RelationRoot (b_Header demo_block)) \<noteq> 32" by (simp add: demo_block_def demo_header_def)
  from pyr_hash_ignores_receipts [OF this, of "\<lambda>t. Some [7]" "[9]"] show ?thesis by blast
qed

end
