(* ===== verification/PyrVotes.thy ===== *)
theory PyrVotes
  imports PyrBlocks HeightData
begin

text \<open>
  The votes of the pyramid protocol: \<open>pyramid/consensus/constypes/vote_set.go\<close> (the tally of one voting
  step) and \<open>cross_shard.go\<close> (the messages of the cross-shard commit). Proposals, prevotes, precommits
  and their aggregate are those of \<open>ConsTypes\<close>; \<open>vote.go\<close> adds the methods that let prevotes and
  precommits share a vote set. The lemmas tie a vote set to the votes cast: its counts are the exact
  sums, a majority is a real and unique one, and its aggregate signature verifies.
\<close>

section \<open>Votes\<close>

text \<open>The interface \<open>Vote\<close> and its two implementations.\<close>

datatype vote = PrevoteV Prevote | PrecommitV Precommit

fun GetBlockHeaderHash :: "vote \<Rightarrow> bytes" where
  "GetBlockHeaderHash (PrevoteV p) = pv_BlockHeaderHash p"
| "GetBlockHeaderHash (PrecommitV p) = pc_BlockHeaderHash p"

fun GetSignature :: "vote \<Rightarrow> string" where
  "GetSignature (PrevoteV p) = pv_Signature p"
| "GetSignature (PrecommitV p) = pc_Signature p"

fun vote_GetIndex :: "vote \<Rightarrow> int" where
  "vote_GetIndex (PrevoteV p) = pv_ValidatorIndex p"
| "vote_GetIndex (PrecommitV p) = pc_ValidatorIndex p"

fun vote_IsOK :: "vote \<Rightarrow> bool" where
  "vote_IsOK (PrevoteV p) = Prevote_IsOK p"
| "vote_IsOK (PrecommitV p) = Precommit_IsOK p"

definition ShardTypeB :: "32 word" where "ShardTypeB = 9"

definition PrecommitAggregated_SetCode :: "PrecommitAggregated \<Rightarrow> bool \<Rightarrow> PrecommitAggregated" where
  "PrecommitAggregated_SetCode p ok =
     (if ok then p\<lparr>pa_Code := CodeTypeOK\<rparr> else p\<lparr>pa_Code := CodeTypeAbort\<rparr>)"

section \<open>Vote sets\<close>

text \<open>The map is keyed by \<open>string(hash)\<close>, which is kept as the bytes of the hash.\<close>

record VoteSet =
  validatorNum :: int
  totalVotes :: int
  votes :: "vote ptr list"
  blockHeaderHashCnt :: "bytes \<rightharpoonup> int list"
  bitVector :: "BitVector ptr"
  has_mj23 :: bool
  mj23_key :: bytes
  mj23_code :: bool

definition NewVoteSet :: "int \<Rightarrow> int \<Rightarrow> VoteSet" where
  "NewVoteSet n tv =
     \<lparr>validatorNum = n, totalVotes = tv, votes = replicate (nat n) Nil_ptr, blockHeaderHashCnt = Map.empty,
      bitVector = NewBitVector n, has_mj23 = False, mj23_key = [], mj23_code = False\<rparr>"

definition voteIndex :: "vote \<Rightarrow> int" where
  "voteIndex v = (if vote_IsOK v then 0 else 1)"

text \<open>\<open>AmbiguousVotes\<close> is the only error of \<open>AddVote\<close>.\<close>

datatype VoteSetError = AmbiguousVotes

definition count_vote :: "VoteSet \<Rightarrow> vote \<Rightarrow> int \<Rightarrow> (int list) go" where
  "count_vote vs vote valVote =
     (case blockHeaderHashCnt vs (GetBlockHeaderHash vote) of
        None \<Rightarrow> go_update [0, 0] (voteIndex vote) (i32 (0 + valVote))
      | Some u \<Rightarrow> do { c \<leftarrow> go_index u (voteIndex vote); go_update u (voteIndex vote) (i32 (c + valVote)) })"

definition AddVote :: "VoteSet \<Rightarrow> vote \<Rightarrow> int \<Rightarrow> (VoteSetError ptr \<times> VoteSet) go" where
  "AddVote vs vote valVote =
     (let key = GetBlockHeaderHash vote
      in do { seen \<leftarrow> GetIndex (bitVector vs) (vote_GetIndex vote);
              if seen then
                do { raw \<leftarrow> go_index (votes vs) (vote_GetIndex vote);
                     case raw of
                       Nil_ptr \<Rightarrow> Panic
                     | Ptr rawVote \<Rightarrow>
                         if GetBlockHeaderHash vote = GetBlockHeaderHash rawVote \<or> vote_IsOK vote \<noteq> vote_IsOK rawVote
                         then Ret (Ptr AmbiguousVotes, vs)
                         else Ret (Nil_ptr, vs) }
              else
                do { (_, bv) \<leftarrow> SetIndex (bitVector vs) (vote_GetIndex vote) True;
                     vts \<leftarrow> go_update (votes vs) (vote_GetIndex vote) (Ptr vote);
                     u \<leftarrow> count_vote vs vote valVote;
                     c \<leftarrow> go_index u (voteIndex vote);
                     let vs1 = vs\<lparr>bitVector := bv, votes := vts, blockHeaderHashCnt := (blockHeaderHashCnt vs)(key \<mapsto> u)\<rparr>
                     in if has_mj23 vs1 then Ret (Nil_ptr, vs1)
                        else if c > (i32 (2 * totalVotes vs1)) sdiv 3
                        then Ret (Nil_ptr, vs1\<lparr>has_mj23 := True, mj23_key := key, mj23_code := vote_IsOK vote\<rparr>)
                        else Ret (Nil_ptr, vs1) } })"

definition vs_HasMaj23 :: "VoteSet \<Rightarrow> bool" where
  "vs_HasMaj23 vs = has_mj23 vs"

definition vs_GetMaj23 :: "VoteSet \<Rightarrow> bytes \<times> bool" where
  "vs_GetMaj23 vs = (mj23_key vs, mj23_code vs)"

text \<open>The loop of \<open>GetMaj23AggreSig\<close>: the signatures and the bit vector of the voters for the majority.\<close>

fun maj_sigs :: "VoteSet \<Rightarrow> bytes \<Rightarrow> bool \<Rightarrow> nat \<Rightarrow> int \<Rightarrow> string list \<Rightarrow> BitVector ptr \<Rightarrow> (string list \<times> BitVector ptr) go" where
  "maj_sigs vs bz ok 0 i aggSigs bv = Ret (aggSigs, bv)"
| "maj_sigs vs bz ok (Suc n) i aggSigs bv =
     do { seen \<leftarrow> GetIndex (bitVector vs) i;
          if seen then
            do { v \<leftarrow> go_index (votes vs) i;
                 case v of
                   Nil_ptr \<Rightarrow> Panic
                 | Ptr vote \<Rightarrow>
                     if vote_IsOK vote = ok \<and> bz = GetBlockHeaderHash vote then
                       do { (_, bv') \<leftarrow> SetIndex bv i True;
                            maj_sigs vs bz ok n (i + 1) (aggSigs @ [GetSignature vote]) bv' }
                     else maj_sigs vs bz ok n (i + 1) aggSigs bv }
          else maj_sigs vs bz ok n (i + 1) aggSigs bv }"

definition GetMaj23AggreSig :: "bls \<Rightarrow> VoteSet \<Rightarrow> (string \<times> bytes) go" where
  "GetMaj23AggreSig B vs =
     (let (bz, ok) = vs_GetMaj23 vs
      in do { (aggSigs, bv) \<leftarrow> maj_sigs vs bz ok (nat (validatorNum vs)) 0 [] (NewBitVector (validatorNum vs));
              case AggregateSignatures B aggSigs of Inl _ \<Rightarrow> Panic | Inr aggSig \<Rightarrow> Ret (aggSig, Byte bv) })"

section \<open>Messages between shards\<close>

text \<open>
  Pointers to sub-messages: what \<open>New...FromProto\<close> builds is never nil (it panics on a missing
  sub-message), and the code only sends messages whose parts are set.
\<close>

record CrossShardBlock =
  csb_Block :: Block
  ColleciveSignatures :: PrecommitAggregated

record pb_CrossShardBlock =
  pcb_Block :: "pb_Block ptr"
  pcb_CollectiveSignatures :: "pb_PrecommitAggregated ptr"

record MessageAccept =
  ma_B_BlockHash :: bytes
  ma_CollectiveSignatures :: PrecommitAggregated

record pb_MessageAccept =
  pma_BBlockHash :: bytes
  pma_CollectiveSignatures :: "pb_PrecommitAggregated ptr"

record MessageAcceptSet =
  Accepts :: "MessageAccept list"
  mas_BlockHash :: bytes

record pb_MessageAcceptSet =
  pas_BlockHash :: bytes
  pas_Accepts :: "pb_MessageAccept list"

record MessageCommit =
  mc_B_BlockHash :: bytes
  mc_CollectiveSignatures :: PrecommitAggregated

record pb_MessageCommit =
  pmc_BBlockHash :: bytes
  pmc_CollectiveSignatures :: "pb_PrecommitAggregated ptr"

record MessageOK =
  ok_Height :: int
  SrcChain :: string

record pb_MessageOK =
  pok_Chain_ID :: string
  pok_Height :: int

definition CrossShardBlock_ToProto :: "CrossShardBlock \<Rightarrow> pb_CrossShardBlock" where
  "CrossShardBlock_ToProto csb =
     \<lparr>pcb_Block = Ptr (Block_ToProto (csb_Block csb)),
      pcb_CollectiveSignatures = Ptr (PrecommitAggregated_ToProto (ColleciveSignatures csb))\<rparr>"

definition CrossShardBlock_ProtoBytes :: "pb_CrossShardBlock codec \<Rightarrow> CrossShardBlock \<Rightarrow> bytes go" where
  "CrossShardBlock_ProtoBytes c csb = MustProtoBytes c (CrossShardBlock_ToProto csb)"

definition NewCrossShardBlockFromProto :: "pb_CrossShardBlock \<Rightarrow> CrossShardBlock go" where
  "NewCrossShardBlockFromProto p =
     (case pcb_Block p of
        Nil_ptr \<Rightarrow> Panic
      | Ptr q \<Rightarrow>
          do { block \<leftarrow> NewBlockFromProto q;
               sigs \<leftarrow> NewPrecommitAggregatedFromProto (pcb_CollectiveSignatures p);
               Ret \<lparr>csb_Block = block, ColleciveSignatures = sigs\<rparr> })"

text \<open>The \<open>New...FromBytes\<close> functions of these messages return an error instead of nil; \<open>Nil_ptr\<close> stands for it.\<close>

definition NewCrossShardBlockFromBytes :: "pb_CrossShardBlock codec \<Rightarrow> bytes \<Rightarrow> CrossShardBlock ptr go" where
  "NewCrossShardBlockFromBytes c bz = from_bytes c NewCrossShardBlockFromProto bz"

definition MessageAccept_ToProto :: "MessageAccept \<Rightarrow> pb_MessageAccept" where
  "MessageAccept_ToProto ma =
     \<lparr>pma_BBlockHash = ma_B_BlockHash ma,
      pma_CollectiveSignatures = Ptr (PrecommitAggregated_ToProto (ma_CollectiveSignatures ma))\<rparr>"

definition MessageAccept_ProtoBytes :: "pb_MessageAccept codec \<Rightarrow> MessageAccept \<Rightarrow> bytes go" where
  "MessageAccept_ProtoBytes c ma = MustProtoBytes c (MessageAccept_ToProto ma)"

definition NewMessageAcceptFromProto :: "pb_MessageAccept \<Rightarrow> MessageAccept go" where
  "NewMessageAcceptFromProto p =
     do { sigs \<leftarrow> NewPrecommitAggregatedFromProto (pma_CollectiveSignatures p);
          Ret \<lparr>ma_B_BlockHash = pma_BBlockHash p, ma_CollectiveSignatures = sigs\<rparr> }"

definition NewMessageAcceptFromBytes :: "pb_MessageAccept codec \<Rightarrow> bytes \<Rightarrow> MessageAccept ptr go" where
  "NewMessageAcceptFromBytes c bz = from_bytes c NewMessageAcceptFromProto bz"

definition MessageAcceptSet_ToProto :: "MessageAcceptSet \<Rightarrow> pb_MessageAcceptSet" where
  "MessageAcceptSet_ToProto mas =
     \<lparr>pas_BlockHash = mas_BlockHash mas, pas_Accepts = map MessageAccept_ToProto (Accepts mas)\<rparr>"

definition MessageAcceptSet_ProtoBytes :: "pb_MessageAcceptSet codec \<Rightarrow> MessageAcceptSet \<Rightarrow> bytes go" where
  "MessageAcceptSet_ProtoBytes c mas = MustProtoBytes c (MessageAcceptSet_ToProto mas)"

definition NewMessageAcceptSetFromProto :: "pb_MessageAcceptSet \<Rightarrow> MessageAcceptSet go" where
  "NewMessageAcceptSetFromProto p =
     do { accepts \<leftarrow> those (map NewMessageAcceptFromProto (pas_Accepts p));
          Ret \<lparr>Accepts = accepts, mas_BlockHash = pas_BlockHash p\<rparr> }"

definition NewMessageAcceptSetFromBytes :: "pb_MessageAcceptSet codec \<Rightarrow> bytes \<Rightarrow> MessageAcceptSet ptr go" where
  "NewMessageAcceptSetFromBytes c bz = from_bytes c NewMessageAcceptSetFromProto bz"

definition MessageCommit_ToProto :: "MessageCommit \<Rightarrow> pb_MessageCommit" where
  "MessageCommit_ToProto mc =
     \<lparr>pmc_BBlockHash = mc_B_BlockHash mc,
      pmc_CollectiveSignatures = Ptr (PrecommitAggregated_ToProto (mc_CollectiveSignatures mc))\<rparr>"

definition MessageCommit_ProtoBytes :: "pb_MessageCommit codec \<Rightarrow> MessageCommit \<Rightarrow> bytes go" where
  "MessageCommit_ProtoBytes c mc = MustProtoBytes c (MessageCommit_ToProto mc)"

definition NewMessageCommitFromProto :: "pb_MessageCommit \<Rightarrow> MessageCommit go" where
  "NewMessageCommitFromProto p =
     do { sigs \<leftarrow> NewPrecommitAggregatedFromProto (pmc_CollectiveSignatures p);
          Ret \<lparr>mc_B_BlockHash = pmc_BBlockHash p, mc_CollectiveSignatures = sigs\<rparr> }"

definition NewMessageCommitFromBytes :: "pb_MessageCommit codec \<Rightarrow> bytes \<Rightarrow> MessageCommit ptr go" where
  "NewMessageCommitFromBytes c bz = from_bytes c NewMessageCommitFromProto bz"

definition MessageOK_ToProto :: "MessageOK \<Rightarrow> pb_MessageOK" where
  "MessageOK_ToProto m = \<lparr>pok_Chain_ID = SrcChain m, pok_Height = ok_Height m\<rparr>"

definition MessageOK_ProtoBytes :: "pb_MessageOK codec \<Rightarrow> MessageOK \<Rightarrow> bytes go" where
  "MessageOK_ProtoBytes c m = MustProtoBytes c (MessageOK_ToProto m)"

definition NewMessageOKFromProto :: "pb_MessageOK \<Rightarrow> MessageOK go" where
  "NewMessageOKFromProto p = Ret \<lparr>ok_Height = pok_Height p, SrcChain = pok_Chain_ID p\<rparr>"

definition NewMessageOKFromBytes :: "pb_MessageOK codec \<Rightarrow> bytes \<Rightarrow> MessageOK ptr go" where
  "NewMessageOKFromBytes c bz = from_bytes c NewMessageOKFromProto bz"

text \<open>The codecs of the messages of this protocol: those shared with the other one, and the cross-shard messages.\<close>

record pyr_codecs =
  base_codecs :: codecs
  csb_codec :: "pb_CrossShardBlock codec"
  ma_codec :: "pb_MessageAccept codec"
  mas_codec :: "pb_MessageAcceptSet codec"
  mc_codec :: "pb_MessageCommit codec"
  mok_codec :: "pb_MessageOK codec"

section \<open>Message round trips\<close>

interpretation csb_wire: wire_type "\<lambda>p. Ret (CrossShardBlock_ToProto p)" NewCrossShardBlockFromProto
  "\<lambda>p. block_fits (csb_Block p) \<and> agg_fits (ColleciveSignatures p)"
proof unfold_locales
  fix x :: CrossShardBlock
  assume x: "block_fits (csb_Block x) \<and> agg_fits (ColleciveSignatures x)"
  have "NewBlockFromProto (Block_ToProto (csb_Block x)) = Ret (csb_Block x)" using block_wire.proto_inverse x by auto
  then show "\<exists>p. Ret (CrossShardBlock_ToProto x) = Ret p \<and> NewCrossShardBlockFromProto p = Ret x"
    using x by (simp add: CrossShardBlock_ToProto_def NewCrossShardBlockFromProto_def agg_roundtrip)
qed

lemma ma_roundtrip: "agg_fits (ma_CollectiveSignatures m) \<Longrightarrow> NewMessageAcceptFromProto (MessageAccept_ToProto m) = Ret m"
  by (simp add: NewMessageAcceptFromProto_def MessageAccept_ToProto_def agg_roundtrip)

lemma those_ma: "\<forall>m \<in> set ms. agg_fits (ma_CollectiveSignatures m) \<Longrightarrow>
  those (map (NewMessageAcceptFromProto \<circ> MessageAccept_ToProto) ms) = Ret ms"
  by (induction ms) (auto simp: ma_roundtrip)

interpretation ma_wire: wire_type "\<lambda>p. Ret (MessageAccept_ToProto p)" NewMessageAcceptFromProto
  "\<lambda>p. agg_fits (ma_CollectiveSignatures p)"
  by unfold_locales (simp add: ma_roundtrip)

interpretation mas_wire: wire_type "\<lambda>p. Ret (MessageAcceptSet_ToProto p)" NewMessageAcceptSetFromProto
  "\<lambda>p. \<forall>m \<in> set (Accepts p). agg_fits (ma_CollectiveSignatures m)"
  by unfold_locales (simp add: NewMessageAcceptSetFromProto_def MessageAcceptSet_ToProto_def those_ma)

interpretation mc_wire: wire_type "\<lambda>p. Ret (MessageCommit_ToProto p)" NewMessageCommitFromProto
  "\<lambda>p. agg_fits (mc_CollectiveSignatures p)"
  by unfold_locales (simp add: NewMessageCommitFromProto_def MessageCommit_ToProto_def agg_roundtrip)

interpretation mok_wire: wire_type "\<lambda>p. Ret (MessageOK_ToProto p)" NewMessageOKFromProto "\<lambda>p. True"
  by unfold_locales (simp add: NewMessageOKFromProto_def MessageOK_ToProto_def)

section \<open>The votes behind a vote set\<close>

definition backs :: "VoteSet \<Rightarrow> bytes \<Rightarrow> bool \<Rightarrow> nat \<Rightarrow> bool" where
  "backs vs k ok i \<longleftrightarrow> (\<exists>v. votes vs ! i = Ptr v \<and> GetBlockHeaderHash v = k \<and> vote_IsOK v = ok)"

definition tally :: "VoteSet \<Rightarrow> Peer list \<Rightarrow> bytes \<Rightarrow> bool \<Rightarrow> int" where
  "tally vs ps k ok = (\<Sum>i | i < length ps \<and> backs vs k ok i. Vote (ps ! i))"

definition vs_inv :: "VoteSet \<Rightarrow> Peer list \<Rightarrow> bool" where
  "vs_inv vs ps \<longleftrightarrow>
     validatorNum vs = int (length ps) \<and> totalVotes vs = total_votes ps \<and> length (votes vs) = length ps \<and>
     (\<exists>b. bitVector vs = Ptr b \<and> bv_wf b \<and> Bits b = int (length ps) \<and>
        (\<forall>i < length ps. bv_bit b i \<longleftrightarrow> votes vs ! i \<noteq> Nil_ptr)) \<and>
     (\<forall>k. blockHeaderHashCnt vs k = Some [tally vs ps k True, tally vs ps k False] \<or>
          blockHeaderHashCnt vs k = None \<and> (\<forall>ok. \<forall>i < length ps. \<not> backs vs k ok i)) \<and>
     (has_mj23 vs \<longleftrightarrow> (\<exists>k ok. 3 * tally vs ps k ok > 2 * total_votes ps)) \<and>
     (has_mj23 vs \<longrightarrow> 3 * tally vs ps (mj23_key vs) (mj23_code vs) > 2 * total_votes ps)"

lemma tally_bounds:
  assumes "votes_ok ps"
  shows "0 \<le> tally vs ps k ok" "tally vs ps k ok \<le> total_votes ps"
proof -
  have p: "\<And>i. i < length ps \<Longrightarrow> 0 \<le> Vote (ps ! i)" using assms by (simp add: votes_ok_def)
  show "0 \<le> tally vs ps k ok" unfolding tally_def using p by (intro sum_nonneg) auto
  have "tally vs ps k ok \<le> (\<Sum>i < length ps. Vote (ps ! i))"
    unfolding tally_def using p by (intro sum_mono2) auto
  then show "tally vs ps k ok \<le> total_votes ps" by (simp add: total_votes_def sum_list_sum_nth atLeast0LessThan)
qed

text \<open>A majority leaves no room for another one.\<close>

lemma tally_disjoint:
  assumes "votes_ok ps" "(k, ok) \<noteq> (k', ok')"
  shows "tally vs ps k ok + tally vs ps k' ok' \<le> total_votes ps"
proof -
  let ?A = "{i. i < length ps \<and> backs vs k ok i}" and ?B = "{i. i < length ps \<and> backs vs k' ok' i}"
  have p: "\<And>i. i < length ps \<Longrightarrow> 0 \<le> Vote (ps ! i)" using assms by (simp add: votes_ok_def)
  have "?A \<inter> ?B = {}" using assms(2) by (auto simp: backs_def)
  then have "tally vs ps k ok + tally vs ps k' ok' = (\<Sum>i \<in> ?A \<union> ?B. Vote (ps ! i))"
    unfolding tally_def by (subst sum.union_disjoint) auto
  also have "\<dots> \<le> (\<Sum>i < length ps. Vote (ps ! i))" using p by (intro sum_mono2) auto
  finally show ?thesis by (simp add: total_votes_def sum_list_sum_nth atLeast0LessThan)
qed

lemma majority_unique:
  assumes "votes_ok ps" "3 * tally vs ps k ok > 2 * total_votes ps" "3 * tally vs ps k' ok' > 2 * total_votes ps"
  shows "k = k' \<and> ok = ok'"
  using tally_disjoint [OF assms(1), of k ok k' ok' vs] tally_bounds(2) [OF assms(1), of vs k ok]
    tally_bounds [OF assms(1), of vs k' ok'] assms by force

lemma tally_set:
  assumes "length (votes vs) = length ps" "i < length ps" "votes vs ! i = Nil_ptr" "votes vs' = (votes vs)[i := Ptr v]"
  shows "tally vs' ps k ok = tally vs ps k ok + (if GetBlockHeaderHash v = k \<and> vote_IsOK v = ok then Vote (ps ! i) else 0)"
proof -
  have b: "backs vs' k ok j \<longleftrightarrow> (if j = i then GetBlockHeaderHash v = k \<and> vote_IsOK v = ok else backs vs k ok j)" if "j < length ps" for j
    using assms that by (auto simp: backs_def nth_list_update)
  have n: "\<not> backs vs k ok i" using assms by (simp add: backs_def)
  show ?thesis
  proof (cases "GetBlockHeaderHash v = k \<and> vote_IsOK v = ok")
    case True
    then have "{j. j < length ps \<and> backs vs' k ok j} = insert i {j. j < length ps \<and> backs vs k ok j}" using b assms(2) by auto
    then show ?thesis unfolding tally_def using n True by simp
  next
    case False
    then have "{j. j < length ps \<and> backs vs' k ok j} = {j. j < length ps \<and> backs vs k ok j}" using b n by (auto split: if_splits)
    then show ?thesis unfolding tally_def if_not_P [OF False] by simp
  qed
qed

lemma tally_none: "(\<And>i. i < length ps \<Longrightarrow> \<not> backs vs k ok i) \<Longrightarrow> tally vs ps k ok = 0"
proof -
  assume "\<And>i. i < length ps \<Longrightarrow> \<not> backs vs k ok i"
  then have e: "{i. i < length ps \<and> backs vs k ok i} = {}" by blast
  show ?thesis unfolding tally_def e by simp
qed

lemma vs_inv_count:
  assumes "vs_inv vs ps"
  obtains "blockHeaderHashCnt vs k = Some [tally vs ps k True, tally vs ps k False]"
  | "blockHeaderHashCnt vs k = None" "\<And>ok. tally vs ps k ok = 0"
  using assms tally_none [of ps vs k] unfolding vs_inv_def by metis

lemma count_vote_tally:
  assumes inv: "vs_inv vs ps" "votes_ok ps" and i: "vote_GetIndex v = int i" "i < length ps" "votes vs ! i = Nil_ptr"
  defines "t \<equiv> \<lambda>ok. tally vs ps (GetBlockHeaderHash v) ok + (if vote_IsOK v = ok then Vote (ps ! i) else 0)"
  shows "count_vote vs v (Vote (ps ! i)) = Ret [t True, t False]"
proof -
  let ?k = "GetBlockHeaderHash v"
  define vs' where "vs' = vs\<lparr>votes := (votes vs)[i := Ptr v]\<rparr>"
  have set: "tally vs' ps ?k ok = t ok" for ok
    using tally_set [of vs ps i vs' v ?k ok] inv(1) i by (simp add: vs_inv_def vs'_def t_def)
  have "0 \<le> t ok \<and> t ok \<le> total_votes ps" for ok using tally_bounds [OF inv(2), of vs'] set by metis
  then have r: "0 \<le> t ok \<and> t ok \<le> total_votes ps" for ok .
  have "total_votes ps < 2 ^ 30" using inv(2) by (simp add: votes_ok_def)
  then have w: "i32 (t ok) = t ok" for ok using r [of ok] by (simp add: i32_id)
  show ?thesis
  proof (rule vs_inv_count [OF inv(1), of ?k])
    assume "blockHeaderHashCnt vs ?k = Some [tally vs ps ?k True, tally vs ps ?k False]"
    then show ?thesis using w [of True] w [of False]
      by (cases "vote_IsOK v") (simp_all add: count_vote_def voteIndex_def go_index_def go_update_def t_def)
  next
    assume "blockHeaderHashCnt vs ?k = None" "\<And>ok. tally vs ps ?k ok = 0"
    then show ?thesis using w [of True] w [of False]
      by (cases "vote_IsOK v") (simp_all add: count_vote_def voteIndex_def go_index_def go_update_def t_def)
  qed
qed

lemma AddVote_new:
  assumes inv: "vs_inv vs ps" "votes_ok ps" and i: "vote_GetIndex v = int i" "i < length ps" "votes vs ! i = Nil_ptr"
  obtains vs' where "AddVote vs v (Vote (ps ! i)) = Ret (Nil_ptr, vs')" "vs_inv vs' ps" "votes vs' = (votes vs)[i := Ptr v]"
proof -
  let ?k = "GetBlockHeaderHash v"
  obtain b where b: "bitVector vs = Ptr b" "bv_wf b" "Bits b = int (length ps)"
    "\<forall>i < length ps. bv_bit b i \<longleftrightarrow> votes vs ! i \<noteq> Nil_ptr" and l: "length (votes vs) = length ps" "totalVotes vs = total_votes ps"
    using inv(1) by (auto simp: vs_inv_def)
  have nb: "\<not> bv_bit b i" "GetIndex (bitVector vs) (int i) = Ret False" using b i GetIndex_total [OF b(2), of i] by auto
  obtain b' where b': "SetIndex (Ptr b) (int i) True = Ret (True, Ptr b')" "bv_wf b'" "Bits b' = int (length ps)"
    "\<And>j. j < length ps \<Longrightarrow> bv_bit b' j \<longleftrightarrow> j = i \<or> bv_bit b j"
    by (rule ledger_mark [of "votes vs" ps "\<lambda>_ _. True" b i]) (use b i l nb in auto)
  define w where "w = vs\<lparr>votes := (votes vs)[i := Ptr v]\<rparr>"
  define u where "u = [tally w ps ?k True, tally w ps ?k False]"
  define vs1 where "vs1 = vs\<lparr>bitVector := Ptr b', votes := (votes vs)[i := Ptr v], blockHeaderHashCnt := (blockHeaderHashCnt vs)(?k \<mapsto> u)\<rparr>"
  have ts: "tally x ps k ok = tally vs ps k ok + (if ?k = k \<and> vote_IsOK v = ok then Vote (ps ! i) else 0)"
    if "votes x = (votes vs)[i := Ptr v]" for x k ok
    using tally_set [OF l(1) i(2,3) that] .
  have u: "count_vote vs v (Vote (ps ! i)) = Ret u" "go_index u (voteIndex v) = Ret (tally w ps ?k (vote_IsOK v))"
    using count_vote_tally [OF inv i] by (simp_all add: ts w_def u_def voteIndex_def go_index_def)
  have thr: "tally w ps ?k (vote_IsOK v) > (i32 (2 * total_votes ps)) sdiv 3 \<longleftrightarrow> 3 * tally w ps ?k (vote_IsOK v) > 2 * total_votes ps"
    using i32_two_thirds [of "total_votes ps"] inv(2) sum_list_nonneg_prefix [of ps] by (simp add: votes_ok_def mult.commute)
  define maj where "maj = (\<not> has_mj23 vs \<and> 3 * tally w ps ?k (vote_IsOK v) > 2 * total_votes ps)"
  define vs' where "vs' = (if maj then vs1\<lparr>has_mj23 := True, mj23_key := ?k, mj23_code := vote_IsOK v\<rparr> else vs1)"
  have f: "has_mj23 vs1 = has_mj23 vs" "totalVotes vs1 = total_votes ps" by (simp_all add: vs1_def l)
  have "AddVote vs v (Vote (ps ! i)) =
    (if has_mj23 vs1 then Ret (Nil_ptr, vs1)
     else if tally w ps ?k (vote_IsOK v) > (i32 (2 * totalVotes vs1)) sdiv 3
     then Ret (Nil_ptr, vs1\<lparr>has_mj23 := True, mj23_key := ?k, mj23_code := vote_IsOK v\<rparr>) else Ret (Nil_ptr, vs1))"
    using nb(2) b'(1) b(1) l(1) i(2) u unfolding AddVote_def Let_def vs1_def by (simp add: i(1) del: fun_upd_apply)
  then have add: "AddVote vs v (Vote (ps ! i)) = Ret (Nil_ptr, vs')"
    unfolding f thr vs'_def maj_def by simp
  have v': "votes vs' = (votes vs)[i := Ptr v]" by (simp add: vs'_def vs1_def)
  have t': "tally vs' ps k ok = tally vs ps k ok + (if ?k = k \<and> vote_IsOK v = ok then Vote (ps ! i) else 0)" for k ok
    by (rule ts [OF v'])
  have cnt: "blockHeaderHashCnt vs' k = Some [tally vs' ps k True, tally vs' ps k False] \<or>
      blockHeaderHashCnt vs' k = None \<and> (\<forall>ok. \<forall>i < length ps. \<not> backs vs' k ok i)" for k
  proof (cases "k = ?k")
    case True
    then show ?thesis using ts [of w] ts [of vs'] v' by (simp add: vs'_def vs1_def u_def w_def)
  next
    case False
    then have "blockHeaderHashCnt vs' k = blockHeaderHashCnt vs k" "\<And>ok. tally vs' ps k ok = tally vs ps k ok"
      "\<And>ok j. j < length ps \<Longrightarrow> backs vs' k ok j = backs vs k ok j"
      using t' v' i l(1) by (auto simp: vs'_def vs1_def backs_def nth_list_update)
    then show ?thesis using inv(1) by (simp add: vs_inv_def)
  qed
  have w': "tally w ps ?k ok = tally vs' ps ?k ok" for ok using ts [of w] t' by (simp add: w_def)
  have up: "tally vs ps k ok \<le> tally vs' ps k ok" for k ok using t' i(2) inv(2) by (auto simp: votes_ok_def)
  have same: "tally vs' ps k ok = tally vs ps k ok" if "(k, ok) \<noteq> (?k, vote_IsOK v)" for k ok using that t' by auto
  have hm: "has_mj23 vs' \<longleftrightarrow> has_mj23 vs \<or> maj" by (auto simp: vs'_def vs1_def)
  have old: "has_mj23 vs \<longleftrightarrow> (\<exists>k ok. 3 * tally vs ps k ok > 2 * total_votes ps)"
    "has_mj23 vs \<Longrightarrow> 3 * tally vs ps (mj23_key vs) (mj23_code vs) > 2 * total_votes ps"
    using inv(1) by (simp_all add: vs_inv_def)
  have ex: "has_mj23 vs' \<longleftrightarrow> (\<exists>k ok. 3 * tally vs' ps k ok > 2 * total_votes ps)"
  proof
    assume "has_mj23 vs'"
    then consider "has_mj23 vs" | maj using hm by blast
    then show "\<exists>k ok. 3 * tally vs' ps k ok > 2 * total_votes ps"
    proof cases
      case 1
      then show ?thesis using old(2) up [of "mj23_key vs" "mj23_code vs"] by (metis less_le_trans mult_left_mono zero_le_numeral)
    next
      case 2
      then show ?thesis using w' by (auto simp: maj_def)
    qed
  next
    assume "\<exists>k ok. 3 * tally vs' ps k ok > 2 * total_votes ps"
    then obtain k ok where k: "3 * tally vs' ps k ok > 2 * total_votes ps" by blast
    show "has_mj23 vs'"
    proof (cases "(k, ok) = (?k, vote_IsOK v)")
      case True
      then show ?thesis using k w' hm by (auto simp: maj_def)
    next
      case False
      then show ?thesis using k same [OF False] old(1) hm by auto
    qed
  qed
  have key: "3 * tally vs' ps (mj23_key vs') (mj23_code vs') > 2 * total_votes ps" if "has_mj23 vs'"
  proof (cases maj)
    case True
    then have "mj23_key vs' = ?k" "mj23_code vs' = vote_IsOK v" by (simp_all add: vs'_def)
    moreover have "3 * tally w ps ?k (vote_IsOK v) > 2 * total_votes ps" using True unfolding maj_def by blast
    ultimately show ?thesis unfolding w' by simp
  next
    case False
    then have "has_mj23 vs" "mj23_key vs' = mj23_key vs" "mj23_code vs' = mj23_code vs" using that hm by (simp_all add: vs'_def vs1_def)
    then show ?thesis using old(2) up [of "mj23_key vs" "mj23_code vs"] by simp
  qed
  have bits: "\<exists>b. bitVector vs' = Ptr b \<and> bv_wf b \<and> Bits b = int (length ps) \<and> (\<forall>i < length ps. bv_bit b i \<longleftrightarrow> votes vs' ! i \<noteq> Nil_ptr)"
  proof (intro exI conjI allI impI)
    show "bitVector vs' = Ptr b'" by (simp add: vs'_def vs1_def)
    show "bv_bit b' j \<longleftrightarrow> votes vs' ! j \<noteq> Nil_ptr" if "j < length ps" for j
      using b'(4) [OF that] b(4) that l(1) i(2) by (cases "j = i") (simp_all add: v')
  qed (rule b'(2), rule b'(3))
  have fr: "validatorNum vs' = int (length ps)" "totalVotes vs' = total_votes ps" "length (votes vs') = length ps"
    using inv(1) l v' by (simp_all add: vs'_def vs1_def vs_inv_def)
  have "vs_inv vs' ps" unfolding vs_inv_def by (intro conjI allI impI fr bits cnt ex key)
  then show thesis by (rule that [OF add _ v'])
qed

lemma AddVote_seen:
  assumes inv: "vs_inv vs ps" and i: "vote_GetIndex v = int i" "i < length ps" "votes vs ! i = Ptr w"
  shows "AddVote vs v x = Ret (if GetBlockHeaderHash v = GetBlockHeaderHash w \<or> vote_IsOK v \<noteq> vote_IsOK w then Ptr AmbiguousVotes else Nil_ptr, vs)"
proof -
  obtain b where b: "bitVector vs = Ptr b" "bv_wf b" "Bits b = int (length ps)" "bv_bit b i" and l: "length (votes vs) = length ps"
    using inv i by (auto simp: vs_inv_def)
  then have "GetIndex (bitVector vs) (int i) = Ret True" using i GetIndex_total [OF b(2), of i] by simp
  then show ?thesis using i l by (simp add: AddVote_def Let_def)
qed

lemma NewVoteSet_inv:
  assumes "votes_ok ps"
  shows "vs_inv (NewVoteSet (int (length ps)) (total_votes ps)) ps" 
proof -
  let ?s = "NewVoteSet (int (length ps)) (total_votes ps)"
  have n: "\<not> backs ?s k ok i" if "i < length ps" for k ok i using that by (simp add: backs_def NewVoteSet_def)
  have t: "tally ?s ps k ok = 0" for k ok using n by (rule tally_none)
  have "\<not> 2 * total_votes ps < 0" using assms sum_list_nonneg_prefix [of ps] by (simp add: votes_ok_def)
  then have z: "\<not> (3 * tally ?s ps k ok > 2 * total_votes ps)" for k ok by (simp add: t)
  have "\<exists>b. bitVector ?s = Ptr b \<and> bv_wf b \<and> Bits b = int (length ps) \<and> (\<forall>i < length ps. bv_bit b i \<longleftrightarrow> votes ?s ! i \<noteq> Nil_ptr)"
    using NewBitVector_clear [of "int (length ps)"] by (auto simp: NewVoteSet_def)
  then show ?thesis unfolding vs_inv_def using n z by (auto simp: NewVoteSet_def)
qed


lemma backs_voted: "vs_inv vs ps \<Longrightarrow> i < length ps \<Longrightarrow> GetIndex (bitVector vs) (int i) = Ret (votes vs ! i \<noteq> Nil_ptr)"
  unfolding vs_inv_def using GetIndex_total by auto

lemma majority_backed:
  assumes "votes_ok ps" "3 * tally vs ps k ok > 2 * total_votes ps"
  shows "\<exists>i < length ps. backs vs k ok i"
  using tally_none [of ps vs k ok] assms sum_list_nonneg_prefix [of ps] by (fastforce simp: votes_ok_def)

section \<open>Voting\<close>

text \<open>Votes of validators \<open>ps\<close> arriving in some order, each counted with its voter's weight.\<close>

fun cast_votes :: "Peer list \<Rightarrow> vote list \<Rightarrow> VoteSet \<Rightarrow> VoteSet go" where
  "cast_votes ps [] s = Ret s"
| "cast_votes ps (v # vs) s =
     do { p \<leftarrow> go_index ps (vote_GetIndex v);
          (_, s') \<leftarrow> AddVote s v (Vote p);
          cast_votes ps vs s' }"

text \<open>The specification: the first vote of a validator is the one that counts.\<close>

definition first_vote :: "vote list \<Rightarrow> nat \<Rightarrow> vote option" where
  "first_vote vs i = find (\<lambda>v. vote_GetIndex v = int i) vs"

definition weight :: "Peer list \<Rightarrow> vote list \<Rightarrow> bytes \<Rightarrow> bool \<Rightarrow> int" where
  "weight ps vs k ok =
     (\<Sum>i | i < length ps \<and> (\<exists>v. first_vote vs i = Some v \<and> GetBlockHeaderHash v = k \<and> vote_IsOK v = ok). Vote (ps ! i))"

lemma cast_votes_result:
  assumes "vs_inv s ps" "votes_ok ps" "\<forall>v \<in> set vs. 0 \<le> vote_GetIndex v \<and> vote_GetIndex v < int (length ps)"
  shows "\<exists>s'. cast_votes ps vs s = Ret s' \<and> vs_inv s' ps \<and>
    (\<forall>i < length ps. votes s' ! i = (case votes s ! i of Ptr v \<Rightarrow> Ptr v
       | Nil_ptr \<Rightarrow> (case first_vote vs i of None \<Rightarrow> Nil_ptr | Some v \<Rightarrow> Ptr v)))"
  using assms
proof (induction vs arbitrary: s)
  case Nil
  then show ?case by (auto simp: first_vote_def split: ptr.splits)
next
  case (Cons v vs)
  obtain i where i: "vote_GetIndex v = int i" "i < length ps" using Cons.prems(3) by (metis list.set_intros(1) nonneg_int_cases of_nat_less_iff)
  obtain e s1 where s1: "AddVote s v (Vote (ps ! i)) = Ret (e, s1)" "vs_inv s1 ps"
    "votes s1 = (if votes s ! i = Nil_ptr then (votes s)[i := Ptr v] else votes s)"
  proof (cases "votes s ! i")
    case Nil_ptr
    then show ?thesis using AddVote_new [OF Cons.prems(1,2) i] that by metis
  next
    case (Ptr w)
    show ?thesis by (rule that [OF AddVote_seen [OF Cons.prems(1) i Ptr]]) (simp_all add: Ptr Cons.prems(1))
  qed
  have l: "length (votes s) = length ps" using Cons.prems(1) by (simp add: vs_inv_def)
  obtain s' where s': "cast_votes ps vs s1 = Ret s'" "vs_inv s' ps" "\<forall>i < length ps. votes s' ! i = (case votes s1 ! i of Ptr v \<Rightarrow> Ptr v
       | Nil_ptr \<Rightarrow> (case first_vote vs i of None \<Rightarrow> Nil_ptr | Some v \<Rightarrow> Ptr v))"
    using Cons.IH [OF s1(2) Cons.prems(2)] Cons.prems(3) by auto
  have "votes s' ! j = (case votes s ! j of Ptr v \<Rightarrow> Ptr v
       | Nil_ptr \<Rightarrow> (case first_vote (v # vs) j of None \<Rightarrow> Nil_ptr | Some v \<Rightarrow> Ptr v))" if j: "j < length ps" for j
    using s'(3) j s1(3) i l by (cases "votes s ! j"; cases "j = i") (auto simp: first_vote_def)
  then show ?case using i s1(1) s'(1,2) by auto
qed

lemma cast_all:
  assumes "votes_ok ps" "\<forall>v \<in> set vs. 0 \<le> vote_GetIndex v \<and> vote_GetIndex v < int (length ps)"
  obtains s where "cast_votes ps vs (NewVoteSet (int (length ps)) (total_votes ps)) = Ret s" "vs_inv s ps"
    "\<And>i. i < length ps \<Longrightarrow> votes s ! i = (case first_vote vs i of None \<Rightarrow> Nil_ptr | Some v \<Rightarrow> Ptr v)"
    "\<And>k ok. tally s ps k ok = weight ps vs k ok"
proof -
  obtain s where s: "cast_votes ps vs (NewVoteSet (int (length ps)) (total_votes ps)) = Ret s" "vs_inv s ps"
    "\<forall>i < length ps. votes s ! i = (case votes (NewVoteSet (int (length ps)) (total_votes ps)) ! i of Ptr v \<Rightarrow> Ptr v
       | Nil_ptr \<Rightarrow> (case first_vote vs i of None \<Rightarrow> Nil_ptr | Some v \<Rightarrow> Ptr v))"
    using cast_votes_result [OF NewVoteSet_inv [OF assms(1)] assms] by blast
  have v: "votes s ! i = (case first_vote vs i of None \<Rightarrow> Nil_ptr | Some v \<Rightarrow> Ptr v)" if "i < length ps" for i
    using s(3) that by (simp add: NewVoteSet_def)
  have "backs s k ok i \<longleftrightarrow> (\<exists>v. first_vote vs i = Some v \<and> GetBlockHeaderHash v = k \<and> vote_IsOK v = ok)" if "i < length ps" for k ok i
    using v [OF that] by (auto simp: backs_def split: option.splits)
  then have "tally s ps k ok = weight ps vs k ok" for k ok
    unfolding tally_def weight_def by (intro sum.cong) auto
  then show thesis using s v that by blast
qed

section \<open>The aggregate of a majority\<close>

lemma maj_sigs_result:
  assumes inv: "vs_inv vs ps" and b: "bv_wf b" "Bits b = int (length ps)" and "j + n \<le> length ps" "\<forall>i. j \<le> i \<and> i < length ps \<longrightarrow> \<not> bv_bit b i"
  shows "\<exists>b'. maj_sigs vs k ok n (int j) sigs (Ptr b) =
      Ret (sigs @ map (\<lambda>i. GetSignature (deref (votes vs ! i))) (filter (backs vs k ok) [j..<j + n]), Ptr b') \<and>
    bv_wf b' \<and> Bits b' = int (length ps) \<and>
    (\<forall>i < length ps. bv_bit b' i \<longleftrightarrow> bv_bit b i \<or> j \<le> i \<and> i < j + n \<and> backs vs k ok i)"
  using assms(2-)
proof (induction n arbitrary: j b sigs)
  case (Suc n)
  have up: "[j..<j + Suc n] = j # [Suc j..<Suc j + n]" by (simp add: upt_rec)
  have jl: "j < length ps" using Suc.prems(3) by simp
  have g: "GetIndex (bitVector vs) (int j) = Ret (votes vs ! j \<noteq> Nil_ptr)" by (rule backs_voted [OF inv jl])
  have l: "length (votes vs) = length ps" using inv by (simp add: vs_inv_def)
  show ?case
  proof (cases "backs vs k ok j")
    case False
    have skip: "maj_sigs vs k ok (Suc n) (int j) sigs (Ptr b) = maj_sigs vs k ok n (int (Suc j)) sigs (Ptr b)"
      using False g jl l by (cases "votes vs ! j") (auto simp: backs_def add.commute)
    obtain b' where "maj_sigs vs k ok n (int (Suc j)) sigs (Ptr b) =
        Ret (sigs @ map (\<lambda>i. GetSignature (deref (votes vs ! i))) (filter (backs vs k ok) [Suc j..<Suc j + n]), Ptr b')"
      "bv_wf b'" "Bits b' = int (length ps)"
      "\<forall>i < length ps. bv_bit b' i \<longleftrightarrow> bv_bit b i \<or> Suc j \<le> i \<and> i < Suc j + n \<and> backs vs k ok i"
      using Suc.IH [OF Suc.prems(1,2), of "Suc j" sigs] Suc.prems(3,4) by auto
    then show ?thesis unfolding skip up using False
      by (intro exI [of _ b']) (auto simp del: upt_Suc maj_sigs.simps simp: Suc_le_eq order_le_less)
  next
    case True
    then obtain v where v: "votes vs ! j = Ptr v" "GetBlockHeaderHash v = k" "vote_IsOK v = ok" by (auto simp: backs_def)
    obtain b1 where b1: "SetIndex (Ptr b) (int j) True = Ret (True, Ptr b1)" "bv_wf b1" "Bits b1 = int (length ps)"
      "\<And>i. i < length ps \<Longrightarrow> bv_bit b1 i \<longleftrightarrow> i = j \<or> bv_bit b i"
      by (rule ledger_mark [of "votes vs" ps "\<lambda>_ _. True" b j]) (use Suc.prems l jl in auto)
    have take: "maj_sigs vs k ok (Suc n) (int j) sigs (Ptr b) = maj_sigs vs k ok n (int (Suc j)) (sigs @ [GetSignature v]) (Ptr b1)"
      using v g jl l b1(1) by (simp add: add.commute)
    obtain b' where "maj_sigs vs k ok n (int (Suc j)) (sigs @ [GetSignature v]) (Ptr b1) =
        Ret ((sigs @ [GetSignature v]) @ map (\<lambda>i. GetSignature (deref (votes vs ! i))) (filter (backs vs k ok) [Suc j..<Suc j + n]), Ptr b')"
      "bv_wf b'" "Bits b' = int (length ps)"
      "\<forall>i < length ps. bv_bit b' i \<longleftrightarrow> bv_bit b1 i \<or> Suc j \<le> i \<and> i < Suc j + n \<and> backs vs k ok i"
      using Suc.IH [OF b1(2,3), of "Suc j" "sigs @ [GetSignature v]"] Suc.prems(3,4) b1(4) by auto
    then show ?thesis unfolding take up using True v(1) b1(4)
      by (intro exI [of _ b']) (auto simp del: upt_Suc maj_sigs.simps simp: Suc_le_eq order_le_less)
  qed
qed auto

text \<open>The validators behind a majority, with the keys and signatures of a verifier.\<close>

lemma GetMaj23AggreSig_verifies:
  assumes ok: "bls_ok B" and inv: "vs_inv vs ps" "votes_ok ps" "has_mj23 vs" and V: "Verifier_Size V = int (length ps)"
    and signed: "\<And>i v. i < length ps \<Longrightarrow> votes vs ! i = Ptr v \<Longrightarrow> GetBlockHeaderHash v = mj23_key vs \<Longrightarrow> vote_IsOK v = mj23_code vs \<Longrightarrow>
      Verifier_Verify B V (GetSignature v) msg (int i) = Ret True"
  shows "\<exists>agg b. GetMaj23AggreSig B vs = Ret (agg, Byte (Ptr b)) \<and> bv_wf b \<and> Bits b = int (length ps) \<and>
    VerifyAggregateSignature B V agg msg (Byte (Ptr b)) = Ret True \<and> 3 * marked_votes b ps > 2 * total_votes ps"
proof -
  let ?k = "mj23_key vs" and ?ok = "mj23_code vs"
  obtain b0 where b0: "NewBitVector (int (length ps)) = Ptr b0" "bv_wf b0" "Bits b0 = int (length ps)" "\<forall>i < length ps. \<not> bv_bit b0 i"
    using NewBitVector_clear [of "int (length ps)"] by auto
  obtain b where b: "maj_sigs vs ?k ?ok (length ps) 0 [] (Ptr b0) =
      Ret (map (\<lambda>i. GetSignature (deref (votes vs ! i))) (filter (backs vs ?k ?ok) [0..<length ps]), Ptr b)"
    "bv_wf b" "Bits b = int (length ps)" "\<forall>i < length ps. bv_bit b i \<longleftrightarrow> backs vs ?k ?ok i"
    using maj_sigs_result [OF inv(1) b0(2,3), of 0 "length ps" ?k ?ok "[]"] b0(4) by auto
  have maj: "3 * tally vs ps ?k ?ok > 2 * total_votes ps" using inv by (simp add: vs_inv_def)
  have ind: "bv_indices b = filter (backs vs ?k ?ok) [0..<length ps]"
    unfolding bv_indices_def using b(3,4) by (intro filter_cong) auto
  have ne: "bv_indices b \<noteq> []" using majority_backed [OF inv(2) maj] by (auto simp: ind filter_empty_conv)
  define s where "s i = GetSignature (deref (votes vs ! i))" for i
  have sig: "\<exists>pk \<sigma>. publicKeys V ! i = Ptr pk \<and> sig_parse B (s i) = Some \<sigma> \<and> sig_verify B \<sigma> pk msg" if i: "i \<in> set (bv_indices b)" for i
  proof -
    obtain v where v: "votes vs ! i = Ptr v" "GetBlockHeaderHash v = ?k" "vote_IsOK v = ?ok" "i < length ps"
      using i by (auto simp: ind backs_def)
    then have "Verifier_Verify B V (s i) msg (int i) = Ret True" using signed by (simp add: s_def)
    then show ?thesis by (auto simp: Verifier_Verify_def split: if_splits ptr.splits option.splits bind_splits)
  qed
  then obtain pk \<sigma> where pk: "\<forall>i \<in> set (bv_indices b). publicKeys V ! i = Ptr (pk i)"
    "\<forall>i \<in> set (bv_indices b). sig_parse B (s i) = Some (\<sigma> i) \<and> sig_verify B (\<sigma> i) (pk i) msg" by metis
  obtain agg where agg: "AggregateSignatures B (map s (bv_indices b)) = Inr agg" "VerifyAggregateSignature B V agg msg (Byte (Ptr b)) = Ret True"
    using aggregate_verifies [OF ok b(2) _ ne refl pk] b(3) V by auto
  have "marked_votes b ps = tally vs ps ?k ?ok"
    unfolding tally_def marked_votes_sum [OF b(3)] using b(4) by (intro sum.cong) auto
  moreover have "GetMaj23AggreSig B vs = Ret (agg, Byte (Ptr b))"
    using b(1) b0(1) agg(1) inv(1) by (simp add: GetMaj23AggreSig_def vs_GetMaj23_def vs_inv_def ind s_def [abs_def])
  ultimately show ?thesis using agg(2) b(2,3) maj by auto
qed


section \<open>Properties\<close>

text \<open>
  C27: whatever votes the validators cast and in whatever order, the vote set announces a majority exactly
  when some block hash and code is backed, by the first vote of each validator, with more than two thirds
  of the voting power, and the hash and code it announces are the only such ones.
\<close>

theorem vote_set_finds_majority:
  assumes "votes_ok ps" "\<forall>v \<in> set vs. 0 \<le> vote_GetIndex v \<and> vote_GetIndex v < int (length ps)"
  shows "\<exists>s. cast_votes ps vs (NewVoteSet (int (length ps)) (total_votes ps)) = Ret s \<and>
    (vs_HasMaj23 s \<longleftrightarrow> (\<exists>k ok. 3 * weight ps vs k ok > 2 * total_votes ps)) \<and>
    (\<forall>k ok. vs_HasMaj23 s \<longrightarrow> (3 * weight ps vs k ok > 2 * total_votes ps \<longleftrightarrow> vs_GetMaj23 s = (k, ok)))"
proof -
  obtain s where s: "cast_votes ps vs (NewVoteSet (int (length ps)) (total_votes ps)) = Ret s" "vs_inv s ps"
    "\<And>k ok. tally s ps k ok = weight ps vs k ok"
    by (rule cast_all [OF assms]) blast
  have h: "has_mj23 s \<longleftrightarrow> (\<exists>k ok. 3 * weight ps vs k ok > 2 * total_votes ps)"
    "has_mj23 s \<Longrightarrow> 3 * weight ps vs (mj23_key s) (mj23_code s) > 2 * total_votes ps"
    using s(2) by (simp_all add: vs_inv_def s(3))
  have "3 * weight ps vs k ok > 2 * total_votes ps \<longleftrightarrow> vs_GetMaj23 s = (k, ok)" if "has_mj23 s" for k ok
    using h(2) [OF that] majority_unique [OF assms(1), of s k ok "mj23_key s" "mj23_code s"] by (auto simp: s(3) vs_GetMaj23_def)
  then show ?thesis using s(1) h(1) by (auto simp: vs_HasMaj23_def)
qed

definition demo_vote :: "int \<Rightarrow> bytes \<Rightarrow> vote" where
  "demo_vote i h = PrecommitV (NewPrecommit 1 0 h i)"

theorem vote_set_finds_majority_witness:
  "\<exists>s. cast_votes [demo_peer, demo_peer] [demo_vote 1 [7], demo_vote 0 [7]] (NewVoteSet 2 2) = Ret s \<and>
     vs_HasMaj23 s \<and> vs_GetMaj23 s = ([7], True)"
proof -
  let ?ps = "[demo_peer, demo_peer]" and ?vs = "[demo_vote 1 [7], demo_vote 0 [7]]"
  have t: "total_votes ?ps = 2" "votes_ok ?ps" by (simp_all add: total_votes_def votes_ok_def demo_peer_def)
  have i: "\<forall>v \<in> set ?vs. 0 \<le> vote_GetIndex v \<and> vote_GetIndex v < int (length ?ps)" by (simp add: demo_vote_def NewPrecommit_def)
  have "{i. i < length ?ps \<and> (\<exists>v. first_vote ?vs i = Some v \<and> GetBlockHeaderHash v = [7] \<and> vote_IsOK v = True)} = {0, 1}"
    by (auto simp: first_vote_def demo_vote_def NewPrecommit_def Precommit_IsOK_def less_Suc_eq)
  then have "weight ?ps ?vs [7] True = 2" unfolding weight_def by (simp add: demo_peer_def)
  then have w: "3 * weight ?ps ?vs [7] True > 2 * total_votes ?ps" by (simp add: t(1))
  obtain s where s: "cast_votes ?ps ?vs (NewVoteSet (int (length ?ps)) (total_votes ?ps)) = Ret s"
    "vs_HasMaj23 s \<longleftrightarrow> (\<exists>k ok. 3 * weight ?ps ?vs k ok > 2 * total_votes ?ps)"
    "\<forall>k ok. vs_HasMaj23 s \<longrightarrow> (3 * weight ?ps ?vs k ok > 2 * total_votes ?ps \<longleftrightarrow> vs_GetMaj23 s = (k, ok))"
    using vote_set_finds_majority [OF t(2) i] by blast
  have "cast_votes ?ps ?vs (NewVoteSet 2 2) = Ret s" using s(1) t(1) by simp
  moreover have "vs_HasMaj23 s" "vs_GetMaj23 s = ([7], True)" using s(2,3) w by blast+
  ultimately show ?thesis by blast
qed

text \<open>
  The test for repeated votes is inverted: a validator that repeats its vote unchanged is reported as
  casting ambiguous votes, and one that votes for a different block with the same code is not.
\<close>

theorem repeated_vote_is_ambiguous:
  assumes "votes_ok ps" "vs_inv s ps" "vote_GetIndex v = int i" "i < length ps" "votes s ! i = Nil_ptr"
    and "vote_GetIndex w = int i" "GetBlockHeaderHash w \<noteq> GetBlockHeaderHash v" "vote_IsOK w = vote_IsOK v"
  shows "\<exists>s1. AddVote s v (Vote (ps ! i)) = Ret (Nil_ptr, s1) \<and>
    AddVote s1 v (Vote (ps ! i)) = Ret (Ptr AmbiguousVotes, s1) \<and> AddVote s1 w (Vote (ps ! i)) = Ret (Nil_ptr, s1)"
proof -
  obtain s1 where s1: "AddVote s v (Vote (ps ! i)) = Ret (Nil_ptr, s1)" "vs_inv s1 ps" "votes s1 = (votes s)[i := Ptr v]"
    by (rule AddVote_new [OF assms(2,1,3-5)])
  moreover have "votes s1 ! i = Ptr v" using s1(2,3) assms(2,4) by (simp add: vs_inv_def)
  ultimately show ?thesis using AddVote_seen [of s1 ps v i v] AddVote_seen [of s1 ps w i v] assms(3,4,6-) by simp
qed

theorem repeated_vote_is_ambiguous_witness:
  "\<exists>s1. AddVote (NewVoteSet 2 2) (demo_vote 1 [7]) 1 = Ret (Nil_ptr, s1) \<and>
     AddVote s1 (demo_vote 1 [7]) 1 = Ret (Ptr AmbiguousVotes, s1) \<and> AddVote s1 (demo_vote 1 [8]) 1 = Ret (Nil_ptr, s1)"
proof -
  let ?ps = "[demo_peer, demo_peer]"
  have t: "total_votes ?ps = 2" "votes_ok ?ps" by (simp_all add: total_votes_def votes_ok_def demo_peer_def)
  have s: "vs_inv (NewVoteSet 2 2) ?ps" using NewVoteSet_inv [OF t(2)] t(1) by simp
  show ?thesis
    using repeated_vote_is_ambiguous [OF t(2) s, of "demo_vote 1 [7]" 1 "demo_vote 1 [8]"]
    by (simp add: demo_vote_def NewPrecommit_def Precommit_IsOK_def NewVoteSet_def demo_peer_def)
qed

end
