(* ===== verification/PyrHeight.thy ===== *)
theory PyrHeight
  imports PyrVotes
begin

text \<open>
  Model of \<open>pyramid/consensus/height_datas.go\<close>, \<open>round-step.go\<close> and \<open>pyramid/shardinfo/shardinfo.go\<close>, and of
  the part of \<open>pyramid/types/block-part.go\<close> that adds a part to a part set: what a node of the pyramid
  protocol collects for one height. Votes are counted by two vote sets (\<open>PyrVotes\<close>). Operations return
  the error (\<open>Nil_ptr\<close> for nil) and the updated package.
\<close>

section \<open>Parts\<close>

definition pyr_Part_Verify :: "Part \<Rightarrow> bytes \<Rightarrow> int \<Rightarrow> string \<Rightarrow> bool go" where
  "pyr_Part_Verify p rt tot chainID =
     (if tot \<noteq> Total (pt_Proof p) then Ret False
      else if chainID \<noteq> pt_ChainID p then Ret False
      else do { v \<leftarrow> Verify (pt_Proof p) rt (pt_Bytes p); Ret (case v of Inl _ \<Rightarrow> False | Inr _ \<Rightarrow> True) })"

datatype pyr_PartError = PyrDuplicatedPart | PyrPartHeight | PyrPartRound | PyrPartVerify

definition pyr_PartSet_AddPart :: "PartSet \<Rightarrow> Part \<Rightarrow> (pyr_PartError ptr \<times> PartSet) go" where
  "pyr_PartSet_AddPart ps p =
     do { dup \<leftarrow> (if Part_Index p < psh_Total (ps_Header ps)
                 then do { q \<leftarrow> go_index (Parts ps) (Part_Index p); Ret (\<not> is_nil q) } else Ret False);
          if dup then Ret (Ptr PyrDuplicatedPart, ps)
          else if psh_Height (ps_Header ps) \<noteq> pt_Height p then Ret (Ptr PyrPartHeight, ps)
          else if psh_Round (ps_Header ps) \<noteq> pt_Round p then Ret (Ptr PyrPartRound, ps)
          else do { ok \<leftarrow> pyr_Part_Verify p (psh_Root (ps_Header ps)) (psh_Total (ps_Header ps)) (psh_ChainID (ps_Header ps));
                    if \<not> ok then Ret (Ptr PyrPartVerify, ps)
                    else do { parts' \<leftarrow> go_update (Parts ps) (Part_Index p) (Ptr p);
                              Ret (Nil_ptr, ps\<lparr>Parts := parts', count := PartSet.count ps + 1\<rparr>) } } }"

section \<open>Shard information\<close>

record pyr_ShardInfo =
  psi_PeerListM :: "string \<rightharpoonup> Peer list"
  psi_Related :: "(string, bool) gomap"
  psi_PeerRelated :: "string \<rightharpoonup> string list"
  psi_Identity :: int
  psi_KeyRangeMap :: "string \<rightharpoonup> string"

record pb_pyr_ShardInfo =
  pps_PeerList :: "string \<rightharpoonup> pb_Peer list"
  pps_RelatedShards :: "(string, bool) gomap"
  pps_PeerRelatedMap :: "string \<rightharpoonup> string list"
  pps_ShardIdentity :: int

definition pyr_SetIShard :: "pyr_ShardInfo \<Rightarrow> pyr_ShardInfo" where
  "pyr_SetIShard s = s\<lparr>psi_Identity := BLOCKTYPE_I\<rparr>"

definition SetBShard :: "pyr_ShardInfo \<Rightarrow> pyr_ShardInfo" where
  "SetBShard s = s\<lparr>psi_Identity := BLOCKTYPE_B\<rparr>"

definition psi_IsIShard :: "pyr_ShardInfo \<Rightarrow> bool" where
  "psi_IsIShard s = (psi_Identity s = BLOCKTYPE_I)"

definition psi_IsBShard :: "pyr_ShardInfo \<Rightarrow> bool" where
  "psi_IsBShard s = (psi_Identity s = BLOCKTYPE_B)"

definition pyr_ShardInfo_ToProto :: "pyr_ShardInfo \<Rightarrow> pb_pyr_ShardInfo" where
  "pyr_ShardInfo_ToProto s =
     \<lparr>pps_PeerList = (\<lambda>k. map_option (map Peer_ToProto) (psi_PeerListM s k)), pps_RelatedShards = psi_Related s,
      pps_PeerRelatedMap = psi_PeerRelated s, pps_ShardIdentity = i32 (psi_Identity s)\<rparr>"

definition pyr_ShardInfo_ProtoBytes :: "pb_pyr_ShardInfo codec \<Rightarrow> pyr_ShardInfo \<Rightarrow> bytes go" where
  "pyr_ShardInfo_ProtoBytes c s = MustProtoBytes c (pyr_ShardInfo_ToProto s)"

definition pyr_NewShardInfoFromProto :: "pb_pyr_ShardInfo \<Rightarrow> pyr_ShardInfo go" where
  "pyr_NewShardInfoFromProto p = Ret
     \<lparr>psi_PeerListM = (\<lambda>k. map_option (map peer_of_proto) (pps_PeerList p k)), psi_Related = pps_RelatedShards p,
      psi_PeerRelated = pps_PeerRelatedMap p, psi_Identity = i8 (pps_ShardIdentity p), psi_KeyRangeMap = Map.empty\<rparr>"

definition pyr_NewShardInfoFromBytes :: "pb_pyr_ShardInfo codec \<Rightarrow> bytes \<Rightarrow> pyr_ShardInfo ptr go" where
  "pyr_NewShardInfoFromBytes c bz = from_bytes c pyr_NewShardInfoFromProto bz"

interpretation pyr_shardinfo_wire: wire_type "\<lambda>s. Ret (pyr_ShardInfo_ToProto s)" pyr_NewShardInfoFromProto
  "\<lambda>s. code_fits (psi_Identity s) \<and> psi_KeyRangeMap s = Map.empty"
  by unfold_locales (simp add: pyr_NewShardInfoFromProto_def pyr_ShardInfo_ToProto_def peers_roundtrip)

section \<open>State\<close>

definition RoundStepCommit :: int where "RoundStepCommit = 6"

lemmas pyr_round_step_defs = RoundStepNone_def RoundStepNewHeight_def RoundStepNewRound_def RoundStepPropose_def
  RoundStepPrevote_def RoundStepPrecommit_def RoundStepCommit_def

definition pyr_RoundStepString :: "int \<Rightarrow> string" where
  "pyr_RoundStepString s =
     (if s = RoundStepNewHeight then ''New-Height'' else if s = RoundStepNewRound then ''NewRound''
      else if s = RoundStepPropose then ''Propose'' else if s = RoundStepPrevote then ''Prevote''
      else if s = RoundStepPrecommit then ''Precommit'' else if s = RoundStepCommit then ''Commit'' else ''Unknown'')"

record PHeightData =
  ph_Height :: int
  ph_Round :: int
  ph_MyChainID :: string
  ph_PassStep :: int
  ph_ShardInfo :: pyr_ShardInfo
  ph_ShardVotes :: "string \<rightharpoonup> int"
  ph_AllValidatorSet :: "string \<rightharpoonup> Verifier"
  ph_Proposal :: "Proposal ptr"
  ph_Prevotes :: VoteSet
  ph_Precommits :: VoteSet
  ph_PartSet :: "PartSet ptr"
  ph_Block :: "Block ptr"
  ph_buffer :: "Part list"

datatype PHDError =
  PDoNothing | PProposerIndex | PWrongChain | PInvalidSignature | PPart pyr_PartError | PBlock GenBlockError
| PIndexOutOfRange | PVote VoteSetError

record pyr_thirdparty =
  p_bls :: bls
  p_codecs :: pyr_codecs
  p_time :: time_marshal

definition ph_IsIShard :: "PHeightData \<Rightarrow> bool" where
  "ph_IsIShard h = psi_IsIShard (ph_ShardInfo h)"

definition ph_IsBShard :: "PHeightData \<Rightarrow> bool" where
  "ph_IsBShard h = psi_IsBShard (ph_ShardInfo h)"

definition pyr_validators :: "PHeightData \<Rightarrow> string \<Rightarrow> Verifier ptr" where
  "pyr_validators h cid = (case ph_AllValidatorSet h cid of None \<Rightarrow> Nil_ptr | Some v \<Rightarrow> Ptr v)"

text \<open>\<open>h.AllValidatorSet[cid].Size()\<close>: a nil verifier panics.\<close>

definition pyr_validator_size :: "PHeightData \<Rightarrow> string \<Rightarrow> int go" where
  "pyr_validator_size h cid = (case ph_AllValidatorSet h cid of None \<Rightarrow> Panic | Some v \<Rightarrow> Ret (Verifier_Size v))"

section \<open>Set-up and clearing\<close>

text \<open>
  The loop over \<open>s.PeerList\<close> writes one entry per shard, so its order does not matter; \<open>NewVerifier\<close> never
  returns an error or nil, so that \<open>setKeys\<close> always stores its verifier.
\<close>

definition pyr_SetShardInfo :: "bls \<Rightarrow> PHeightData \<Rightarrow> pyr_ShardInfo \<Rightarrow> PHeightData" where
  "pyr_SetShardInfo B h s =
     h\<lparr>ph_ShardInfo := s,
       ph_AllValidatorSet := (\<lambda>cid. map_option (\<lambda>ps. NewVerifier B (map Pubkey ps)) (psi_PeerListM s cid)),
       ph_ShardVotes := (\<lambda>cid. map_option (\<lambda>ps. foldl (\<lambda>t peer. t + Vote peer) 0 ps) (psi_PeerListM s cid))\<rparr>"

definition pyr_clearProposal :: "PHeightData \<Rightarrow> PHeightData" where
  "pyr_clearProposal h = h\<lparr>ph_Proposal := Nil_ptr, ph_Block := Nil_ptr, ph_PartSet := Nil_ptr\<rparr>"

definition fresh_votes :: "PHeightData \<Rightarrow> VoteSet go" where
  "fresh_votes h =
     do { n \<leftarrow> pyr_validator_size h (ph_MyChainID h);
          Ret (NewVoteSet n (i32 (map_get 0 (ph_ShardVotes h) (ph_MyChainID h)))) }"

definition pyr_clearPrevote :: "PHeightData \<Rightarrow> PHeightData go" where
  "pyr_clearPrevote h = do { vs \<leftarrow> fresh_votes h; Ret (h\<lparr>ph_Prevotes := vs\<rparr>) }"

definition pyr_clearPrecommit :: "PHeightData \<Rightarrow> PHeightData go" where
  "pyr_clearPrecommit h = do { vs \<leftarrow> fresh_votes h; Ret (h\<lparr>ph_Precommits := vs\<rparr>) }"

definition pyr_clearAll :: "PHeightData \<Rightarrow> PHeightData go" where
  "pyr_clearAll h = do { h2 \<leftarrow> pyr_clearPrevote (pyr_clearProposal h); pyr_clearPrecommit h2 }"

text \<open>The buffer of parts is kept.\<close>

definition pyr_NextHeight :: "PHeightData \<Rightarrow> PHeightData go" where
  "pyr_NextHeight h = pyr_clearAll (h\<lparr>ph_Height := ph_Height h + 1, ph_Round := 0, ph_PassStep := RoundStepNewHeight\<rparr>)"

definition pyr_NewHeightData :: "bls \<Rightarrow> string \<Rightarrow> int \<Rightarrow> pyr_ShardInfo \<Rightarrow> PHeightData go" where
  "pyr_NewHeightData B mychainid height si =
     do { h \<leftarrow> pyr_clearAll (pyr_SetShardInfo B
            \<lparr>ph_Height = height, ph_Round = 0, ph_MyChainID = mychainid, ph_PassStep = RoundStepNewHeight,
             ph_ShardInfo = si, ph_ShardVotes = Map.empty, ph_AllValidatorSet = Map.empty, ph_Proposal = Nil_ptr,
             ph_Prevotes = NewVoteSet 0 0, ph_Precommits = NewVoteSet 0 0, ph_PartSet = Nil_ptr,
             ph_Block = Nil_ptr, ph_buffer = []\<rparr> si);
          Ret (h\<lparr>ph_buffer := []\<rparr>) }"

section \<open>Step completion\<close>

definition pyr_FinishProposal :: "PHeightData \<Rightarrow> (bool \<times> PHeightData) go" where
  "pyr_FinishProposal h =
     (if ph_PassStep h \<ge> RoundStepPropose then Ret (True, h)
      else if is_nil (ph_Proposal h) then Ret (False, h)
      else if is_nil (ph_Block h) then Ret (False, h)
      else case ph_PartSet h of
             Nil_ptr \<Rightarrow> Panic
           | Ptr ps \<Rightarrow> if \<not> IsComplete ps then Ret (False, h) else Ret (True, h\<lparr>ph_PassStep := RoundStepPropose\<rparr>))"

definition pyr_FinishPrevote :: "PHeightData \<Rightarrow> (bool \<times> PHeightData) go" where
  "pyr_FinishPrevote h =
     (if ph_PassStep h \<ge> RoundStepPrevote then Ret (True, h)
      else do { (ok, h1) \<leftarrow> pyr_FinishProposal h;
                if \<not> ok then Ret (False, h1)
                else if \<not> vs_HasMaj23 (ph_Prevotes h1) then Ret (False, h1)
                else Ret (True, h1\<lparr>ph_PassStep := RoundStepPrevote\<rparr>) })"

definition pyr_FinishPrecommit :: "PHeightData \<Rightarrow> (bool \<times> PHeightData) go" where
  "pyr_FinishPrecommit h =
     (if ph_PassStep h \<ge> RoundStepPrecommit then Ret (True, h)
      else do { (ok, h1) \<leftarrow> pyr_FinishPrevote h;
                if \<not> ok then Ret (False, h1)
                else if \<not> vs_HasMaj23 (ph_Precommits h1) then Ret (False, h1)
                else Ret (True, h1\<lparr>ph_PassStep := RoundStepPrecommit\<rparr>) })"

section \<open>Adding messages\<close>

definition pyr_AddPart :: "pyr_thirdparty \<Rightarrow> PHeightData \<Rightarrow> Part \<Rightarrow> (PHDError ptr \<times> PHeightData) go" where
  "pyr_AddPart tp h p =
     (if ph_Height h \<noteq> pt_Height p \<or> ph_Round h \<noteq> pt_Round p then Ret (Ptr PDoNothing, h)
      else if pt_ChainID p \<noteq> ph_MyChainID h then Ret (Ptr PWrongChain, h)
      else case ph_PartSet h of
        Nil_ptr \<Rightarrow> Ret (Ptr PDoNothing, h\<lparr>ph_buffer := ph_buffer h @ [p]\<rparr>)
      | Ptr ps \<Rightarrow>
          do { (e, ps') \<leftarrow> pyr_PartSet_AddPart ps p;
               let h1 = h\<lparr>ph_PartSet := Ptr ps'\<rparr>
               in case e of
                    Ptr PyrDuplicatedPart \<Rightarrow> Ret (Ptr PDoNothing, h1)
                  | Ptr err \<Rightarrow> Ret (Ptr (PPart err), h1)
                  | Nil_ptr \<Rightarrow>
                      if IsComplete ps' then
                        do { (b, err) \<leftarrow> pyr_GenBlock (p_time tp) (block_codec (base_codecs (p_codecs tp))) ps';
                             case err of
                               Ptr x \<Rightarrow> Ret (Ptr (PBlock x), h1)
                             | Nil_ptr \<Rightarrow> Ret (Nil_ptr, h1\<lparr>ph_Block := b\<rparr>) }
                      else Ret (Nil_ptr, h1) })"

fun pyr_add_parts :: "pyr_thirdparty \<Rightarrow> Part list \<Rightarrow> PHeightData \<Rightarrow> PHeightData go" where
  "pyr_add_parts tp [] h = Ret h"
| "pyr_add_parts tp (p # ps) h = do { (_, h') \<leftarrow> pyr_AddPart tp h p; pyr_add_parts tp ps h' }"

definition pyr_AddProposal ::
  "pyr_thirdparty \<Rightarrow> PHeightData \<Rightarrow> Proposal \<Rightarrow> int \<Rightarrow> (PHDError ptr \<times> PHeightData) go" where
  "pyr_AddProposal tp h p index =
     (if \<not> is_nil (ph_Proposal h) then Ret (Ptr PDoNothing, h)
      else if ph_Height h \<noteq> psh_Height (p_Header p) \<or> ph_Round h \<noteq> psh_Round (p_Header p) then Ret (Ptr PDoNothing, h)
      else if ProposerIndex p \<noteq> index then Ret (Ptr PProposerIndex, h)
      else if psh_ChainID (p_Header p) \<noteq> ph_MyChainID h then Ret (Ptr PWrongChain, h)
      else case ph_AllValidatorSet h (ph_MyChainID h) of
        None \<Rightarrow> Panic
      | Some v \<Rightarrow>
          do { bz \<leftarrow> Proposal_SignBytes (proposal_codec (base_codecs (p_codecs tp))) p;
               ok \<leftarrow> Verifier_Verify (p_bls tp) v (p_Signature p) bz index;
               if \<not> ok then Ret (Ptr PInvalidSignature, h)
               else
                 do { ps \<leftarrow> NewPartSet (p_Header p) (p_BlockHeaderHash p);
                      h2 \<leftarrow> pyr_add_parts tp (ph_buffer h) (h\<lparr>ph_Proposal := Ptr p, ph_PartSet := Ptr ps\<rparr>);
                      Ret (Nil_ptr, h2) } })"

text \<open>\<open>h.ShardInfo.PeerList[h.MyChainID][index].Vote\<close>.\<close>

definition pyr_my_vote :: "PHeightData \<Rightarrow> int \<Rightarrow> int go" where
  "pyr_my_vote h index =
     do { p \<leftarrow> go_index (map_get [] (psi_PeerListM (ph_ShardInfo h)) (ph_MyChainID h)) index; Ret (Vote p) }"

text \<open>What \<open>AddPrevote\<close> and \<open>AddPrecommit\<close> do with the error of \<open>VoteSet.AddVote\<close>: it is returned.\<close>

definition vote_error :: "VoteSetError ptr \<Rightarrow> PHDError ptr" where
  "vote_error e = (case e of Nil_ptr \<Rightarrow> Nil_ptr | Ptr x \<Rightarrow> Ptr (PVote x))"

definition pyr_AddPrevote :: "pyr_thirdparty \<Rightarrow> PHeightData \<Rightarrow> Prevote \<Rightarrow> (PHDError ptr \<times> PHeightData) go" where
  "pyr_AddPrevote tp h p =
     (if ph_Height h \<noteq> pv_Height p \<or> ph_Round h \<noteq> pv_Round p then Ret (Ptr PDoNothing, h)
      else case ph_AllValidatorSet h (ph_MyChainID h) of
        None \<Rightarrow> Panic
      | Some v \<Rightarrow>
          if pv_ValidatorIndex p < 0 \<or> pv_ValidatorIndex p \<ge> Verifier_Size v then Ret (Ptr PIndexOutOfRange, h)
          else
            do { bz \<leftarrow> Prevote_SignBytes (prevote_codec (base_codecs (p_codecs tp))) p;
                 ok \<leftarrow> Verifier_Verify (p_bls tp) v (pv_Signature p) bz (pv_ValidatorIndex p);
                 if \<not> ok then Ret (Ptr PInvalidSignature, h)
                 else
                   do { valVote \<leftarrow> pyr_my_vote h (pv_ValidatorIndex p);
                        (e, vs) \<leftarrow> AddVote (ph_Prevotes h) (PrevoteV p) valVote;
                        Ret (vote_error e, h\<lparr>ph_Prevotes := vs\<rparr>) } })"

definition pyr_AddPrecommit :: "pyr_thirdparty \<Rightarrow> PHeightData \<Rightarrow> Precommit \<Rightarrow> (PHDError ptr \<times> PHeightData) go" where
  "pyr_AddPrecommit tp h p =
     (if ph_Height h \<noteq> pc_Height p \<or> ph_Round h \<noteq> pc_Round p then Ret (Ptr PDoNothing, h)
      else case ph_AllValidatorSet h (ph_MyChainID h) of
        None \<Rightarrow> Panic
      | Some v \<Rightarrow>
          if pc_ValidatorIndex p < 0 \<or> pc_ValidatorIndex p \<ge> Verifier_Size v then Ret (Ptr PIndexOutOfRange, h)
          else
            do { bz \<leftarrow> Precommit_SignBytes (precommit_codec (base_codecs (p_codecs tp))) p;
                 ok \<leftarrow> Verifier_Verify (p_bls tp) v (pc_Signature p) bz (pc_ValidatorIndex p);
                 if \<not> ok then Ret (Ptr PInvalidSignature, h)
                 else
                   do { valVote \<leftarrow> pyr_my_vote h (pc_ValidatorIndex p);
                        (e, vs) \<leftarrow> AddVote (ph_Precommits h) (PrecommitV p) valVote;
                        Ret (vote_error e, h\<lparr>ph_Precommits := vs\<rparr>) } })"

text \<open>The certificate of a height: the majority of the precommits and its aggregate signature.\<close>

definition pyr_GenerateAggregatePrecommitSignature :: "bls \<Rightarrow> PHeightData \<Rightarrow> PrecommitAggregated go" where
  "pyr_GenerateAggregatePrecommitSignature B h =
     (let (hash, ok) = vs_GetMaj23 (ph_Precommits h)
      in do { (sig, bv) \<leftarrow> GetMaj23AggreSig B (ph_Precommits h);
              case ph_Proposal h of
                Nil_ptr \<Rightarrow> Panic
              | Ptr p \<Rightarrow> do { pa \<leftarrow> NewPrecommitAggregated bv (p_Header p) hash sig;
                              Ret (PrecommitAggregated_SetCode pa ok) } })"

end
