(* ===== verification/PyrHeightSteps.thy ===== *)
theory PyrHeightSteps
  imports PyrHeight
begin

text \<open>
  The height data of the pyramid protocol as a state machine: the invariant of \<open>PyrHeight\<close>'s package and
  its runs. Every counted vote is a verified vote of this height, the block held is the announced one, and
  the recorded step tells what has happened. The properties: what a node that has passed the precommit step
  holds, that its certificate verifies, and that the certificate need not name the block the node holds.
\<close>

section \<open>Parts\<close>

text \<open>Adding a part is the operation of \<open>Blocks\<close> up to the name of the error.\<close>

definition part_error :: "PartError \<Rightarrow> pyr_PartError" where
  "part_error e = (case e of DuplicatedPartPassError \<Rightarrow> PyrDuplicatedPart | PartHeightError \<Rightarrow> PyrPartHeight
     | PartRoundError \<Rightarrow> PyrPartRound | PartVerifyError _ \<Rightarrow> PyrPartVerify)"

lemma pyr_Part_Verify_iff:
  "\<exists>v. Part_Verify p rt tot cid = Ret v \<and> pyr_Part_Verify p rt tot cid = Ret (v = Inr ())"
proof -
  obtain v where "Verify (pt_Proof p) rt (pt_Bytes p) = Ret v" using Verify_returns by blast
  then show ?thesis by (cases v) (auto simp: Part_Verify_def pyr_Part_Verify_def)
qed

lemma pyr_PartSet_AddPart_eq:
  "pyr_PartSet_AddPart ps p =
   map_option (\<lambda>(e, ps'). (case e of Nil_ptr \<Rightarrow> Nil_ptr | Ptr x \<Rightarrow> Ptr (part_error x), ps')) (AddPart ps p)"
proof -
  obtain v where v: "Part_Verify p (psh_Root (ps_Header ps)) (psh_Total (ps_Header ps)) (psh_ChainID (ps_Header ps)) = Ret v"
    "pyr_Part_Verify p (psh_Root (ps_Header ps)) (psh_Total (ps_Header ps)) (psh_ChainID (ps_Header ps)) = Ret (v = Inr ())"
    using pyr_Part_Verify_iff by blast
  show ?thesis
    by (cases v; cases "go_index (Parts ps) (Part_Index p)"; cases "go_update (Parts ps) (Part_Index p) (Ptr p)")
      (simp_all add: pyr_PartSet_AddPart_def AddPart_def v part_error_def)
qed

lemma pyr_PartSet_AddPart_keeps:
  "pyr_PartSet_AddPart ps p = Ret (e, ps') \<Longrightarrow> ps_Header ps' = ps_Header ps \<and> ps_BlockHeaderHash ps' = ps_BlockHeaderHash ps"
  by (auto simp: pyr_PartSet_AddPart_def split: if_splits bind_splits)

lemma pyr_GenBlock_ok:
  assumes "pyr_GenBlock tm c ps = Ret (bp, Nil_ptr)" "IsComplete ps"
  obtains b where "bp = Ptr b" "ChainID (b_Header b) = psh_ChainID (ps_Header ps)"
    "Height (b_Header b) = psh_Height (ps_Header ps)" "pyr_Block_Hash tm b = Ret (ps_BlockHeaderHash ps, b)"
proof -
  obtain b0 b where b: "pyr_Block_Hash tm b0 = Ret (ps_BlockHeaderHash ps, b)"
    "ChainID (b_Header b0) = psh_ChainID (ps_Header ps)" "Height (b_Header b0) = psh_Height (ps_Header ps)" "bp = Ptr b"
    using assms by (auto simp: pyr_GenBlock_def split: if_splits bind_splits ptr.splits)
  then show thesis using that [of b] pyr_Block_Hash_idem [OF b(1)] pyr_Block_Hash_frame [OF b(1)] by simp
qed

section \<open>The invariant of the height data\<close>

text \<open>A counted vote is a vote of this height and round whose signature its validator made.\<close>

definition prevote_ok :: "pyr_thirdparty \<Rightarrow> PHeightData \<Rightarrow> Verifier \<Rightarrow> nat \<Rightarrow> vote \<Rightarrow> bool" where
  "prevote_ok tp h V i v \<longleftrightarrow> (\<exists>p bz. v = PrevoteV p \<and> pv_VoteType p = VoteTypePrevote \<and>
     pv_Height p = ph_Height h \<and> pv_Round p = ph_Round h \<and> pv_ValidatorIndex p = int i \<and>
     Prevote_SignBytes (prevote_codec (base_codecs (p_codecs tp))) p = Ret bz \<and>
     Verifier_Verify (p_bls tp) V (pv_Signature p) bz (int i) = Ret True)"

definition precommit_ok :: "pyr_thirdparty \<Rightarrow> PHeightData \<Rightarrow> Verifier \<Rightarrow> nat \<Rightarrow> vote \<Rightarrow> bool" where
  "precommit_ok tp h V i v \<longleftrightarrow> (\<exists>p bz. v = PrecommitV p \<and> pc_VoteType p = VoteTypePrecommit \<and>
     pc_Height p = ph_Height h \<and> pc_Round p = ph_Round h \<and> pc_ValidatorIndex p = int i \<and>
     Precommit_SignBytes (precommit_codec (base_codecs (p_codecs tp))) p = Ret bz \<and>
     Verifier_Verify (p_bls tp) V (pc_Signature p) bz (int i) = Ret True)"

definition counted :: "(nat \<Rightarrow> vote \<Rightarrow> bool) \<Rightarrow> Peer list \<Rightarrow> VoteSet \<Rightarrow> bool" where
  "counted valid ps vs \<longleftrightarrow> vs_inv vs ps \<and> (\<forall>i v. i < length ps \<longrightarrow> votes vs ! i = Ptr v \<longrightarrow> valid i v)"

definition ph_committee :: "PHeightData \<Rightarrow> Peer list \<Rightarrow> Verifier \<Rightarrow> bool" where
  "ph_committee h ps V \<longleftrightarrow> psi_PeerListM (ph_ShardInfo h) (ph_MyChainID h) = Some ps \<and> votes_ok ps \<and>
     ph_AllValidatorSet h (ph_MyChainID h) = Some V \<and> Verifier_Size V = int (length ps) \<and>
     map_get 0 (ph_ShardVotes h) (ph_MyChainID h) = total_votes ps"

definition ph_votes_ok :: "pyr_thirdparty \<Rightarrow> PHeightData \<Rightarrow> bool" where
  "ph_votes_ok tp h \<longleftrightarrow> (\<exists>ps V. ph_committee h ps V \<and>
     counted (prevote_ok tp h V) ps (ph_Prevotes h) \<and> counted (precommit_ok tp h V) ps (ph_Precommits h))"

text \<open>The proposal is for this height; the part set and the block are those it announces.\<close>

definition ph_block_ok :: "pyr_thirdparty \<Rightarrow> PHeightData \<Rightarrow> bool" where
  "ph_block_ok tp h \<longleftrightarrow>
     (\<forall>p. ph_Proposal h = Ptr p \<longrightarrow> psh_Height (p_Header p) = ph_Height h \<and> psh_Round (p_Header p) = ph_Round h \<and>
        psh_ChainID (p_Header p) = ph_MyChainID h) \<and>
     (\<forall>ps. ph_PartSet h = Ptr ps \<longrightarrow> (\<exists>p. ph_Proposal h = Ptr p \<and> ps_BlockHeaderHash ps = p_BlockHeaderHash p \<and>
        ps_Header ps = p_Header p)) \<and>
     (\<forall>b. ph_Block h = Ptr b \<longrightarrow> (\<exists>p. ph_Proposal h = Ptr p \<and> pyr_Block_Hash (p_time tp) b = Ret (p_BlockHeaderHash p, b) \<and>
        ChainID (b_Header b) = ph_MyChainID h \<and> Height (b_Header b) = ph_Height h))"

text \<open>What the recorded step says has happened.\<close>

definition ph_step_ok :: "PHeightData \<Rightarrow> bool" where
  "ph_step_ok h \<longleftrightarrow>
     (ph_PassStep h \<ge> RoundStepPropose \<longrightarrow> ph_Proposal h \<noteq> Nil_ptr \<and> ph_Block h \<noteq> Nil_ptr) \<and>
     (ph_PassStep h \<ge> RoundStepPrevote \<longrightarrow> has_mj23 (ph_Prevotes h)) \<and>
     (ph_PassStep h \<ge> RoundStepPrecommit \<longrightarrow> has_mj23 (ph_Precommits h))"

definition ph_inv :: "pyr_thirdparty \<Rightarrow> PHeightData \<Rightarrow> bool" where
  "ph_inv tp h \<longleftrightarrow> ph_votes_ok tp h \<and> ph_block_ok tp h \<and> ph_step_ok h"

section \<open>What the operations keep\<close>

definition ph_frame :: "PHeightData \<Rightarrow> PHeightData \<Rightarrow> bool" where
  "ph_frame h h' \<longleftrightarrow> ph_Height h' = ph_Height h \<and> ph_Round h' = ph_Round h \<and> ph_MyChainID h' = ph_MyChainID h \<and>
     ph_ShardInfo h' = ph_ShardInfo h \<and> ph_ShardVotes h' = ph_ShardVotes h \<and> ph_AllValidatorSet h' = ph_AllValidatorSet h"

lemma ph_frame_refl [simp]: "ph_frame h h"
  by (simp add: ph_frame_def)

lemma ph_frame_trans: "ph_frame h h1 \<Longrightarrow> ph_frame h1 h2 \<Longrightarrow> ph_frame h h2"
  by (simp add: ph_frame_def)

lemma ph_frame_votes: "ph_frame h h' \<Longrightarrow> prevote_ok tp h' = prevote_ok tp h \<and> precommit_ok tp h' = precommit_ok tp h"
  by (auto simp: ph_frame_def prevote_ok_def precommit_ok_def fun_eq_iff)

lemma ph_frame_committee: "ph_frame h h' \<Longrightarrow> ph_committee h' = ph_committee h"
  by (intro ext) (simp add: ph_frame_def ph_committee_def)

text \<open>A step that leaves votes and step alone and only fills in the proposal, its part set and its block.\<close>

definition ph_fills :: "PHeightData \<Rightarrow> PHeightData \<Rightarrow> bool" where
  "ph_fills h h' \<longleftrightarrow> ph_frame h h' \<and> ph_Prevotes h' = ph_Prevotes h \<and> ph_Precommits h' = ph_Precommits h \<and>
     ph_PassStep h' = ph_PassStep h \<and> (ph_Proposal h \<noteq> Nil_ptr \<longrightarrow> ph_Proposal h' = ph_Proposal h) \<and>
     (ph_Block h \<noteq> Nil_ptr \<longrightarrow> ph_Block h' \<noteq> Nil_ptr)"

lemma ph_fills_refl [simp]: "ph_fills h h"
  by (simp add: ph_fills_def)

lemma ph_fills_trans: "ph_fills h h1 \<Longrightarrow> ph_fills h1 h2 \<Longrightarrow> ph_fills h h2"
  by (auto simp: ph_fills_def intro: ph_frame_trans)

lemma ph_fills_inv: "ph_inv tp h \<Longrightarrow> ph_fills h h' \<Longrightarrow> ph_block_ok tp h' \<Longrightarrow> ph_inv tp h'"
  unfolding ph_inv_def ph_votes_ok_def ph_step_ok_def ph_fills_def
  using ph_frame_votes [of h h'] ph_frame_committee [of h h'] by auto

lemma pyr_AddPart_fills:
  assumes "pyr_AddPart tp h p = Ret (e, h')" "ph_block_ok tp h"
  shows "ph_fills h h' \<and> ph_Proposal h' = ph_Proposal h \<and> ph_block_ok tp h'"
proof (cases "ph_Height h \<noteq> pt_Height p \<or> ph_Round h \<noteq> pt_Round p \<or> pt_ChainID p \<noteq> ph_MyChainID h")
  case True
  then show ?thesis using assms by (auto simp: pyr_AddPart_def split: if_splits)
next
  case False
  show ?thesis
  proof (cases "ph_PartSet h")
    case Nil_ptr
    then show ?thesis using assms False by (auto simp: pyr_AddPart_def ph_fills_def ph_frame_def ph_block_ok_def)
  next
    case (Ptr ps)
    obtain e1 ps' where add: "pyr_PartSet_AddPart ps p = Ret (e1, ps')"
      using assms(1) False Ptr by (auto simp: pyr_AddPart_def split: bind_splits)
    note k = pyr_PartSet_AddPart_keeps [OF add]
    let ?h1 = "h\<lparr>ph_PartSet := Ptr ps'\<rparr>"
    have ok1: "ph_block_ok tp ?h1" using assms(2) k Ptr by (auto simp: ph_block_ok_def)
    have f1: "ph_fills h ?h1" by (simp add: ph_fills_def ph_frame_def)
    show ?thesis
    proof (cases "h' = ?h1")
      case True
      then show ?thesis using ok1 f1 by simp
    next
      case d: False
      then obtain bp where gb: "pyr_GenBlock (p_time tp) (block_codec (base_codecs (p_codecs tp))) ps' = Ret (bp, Nil_ptr)" "IsComplete ps'"
        and h': "h' = ?h1\<lparr>ph_Block := bp\<rparr>"
        using assms(1) False Ptr add
        by (auto simp: pyr_AddPart_def Let_def split: bind_splits ptr.splits pyr_PartError.splits if_splits)
      obtain b where b: "bp = Ptr b" "ChainID (b_Header b) = psh_ChainID (ps_Header ps')"
        "Height (b_Header b) = psh_Height (ps_Header ps')" "pyr_Block_Hash (p_time tp) b = Ret (ps_BlockHeaderHash ps', b)"
        by (rule pyr_GenBlock_ok [OF gb])
      have "ph_block_ok tp h'" using ok1 b unfolding h' by (auto simp: ph_block_ok_def)
      then show ?thesis using f1 b(1) unfolding h' by (simp add: ph_fills_def ph_frame_def)
    qed
  qed
qed

lemma pyr_add_parts_fills:
  "pyr_add_parts tp ps h = Ret h' \<Longrightarrow> ph_block_ok tp h \<Longrightarrow> ph_fills h h' \<and> ph_Proposal h' = ph_Proposal h \<and> ph_block_ok tp h'"
proof (induction ps arbitrary: h)
  case (Cons p ps)
  then obtain e h1 where h1: "pyr_AddPart tp h p = Ret (e, h1)" "pyr_add_parts tp ps h1 = Ret h'" by (auto split: bind_splits)
  have "ph_fills h h1 \<and> ph_Proposal h1 = ph_Proposal h \<and> ph_block_ok tp h1" by (rule pyr_AddPart_fills [OF h1(1) Cons.prems(2)])
  then show ?case using Cons.IH [OF h1(2)] ph_fills_trans by auto
qed simp

lemma NewPartSet_fields: "NewPartSet hdr hs = Ret ps \<Longrightarrow> ps_Header ps = hdr \<and> ps_BlockHeaderHash ps = hs"
  by (auto simp: NewPartSet_def split: if_splits)

lemma pyr_AddProposal_fills:
  assumes "pyr_AddProposal tp h p i = Ret (e, h')" "ph_block_ok tp h"
  shows "ph_fills h h' \<and> ph_block_ok tp h'"
proof (cases "h' = h")
  case False
  obtain ps where ps: "NewPartSet (p_Header p) (p_BlockHeaderHash p) = Ret ps"
    "pyr_add_parts tp (ph_buffer h) (h\<lparr>ph_Proposal := Ptr p, ph_PartSet := Ptr ps\<rparr>) = Ret h'"
    and c: "ph_Proposal h = Nil_ptr" "psh_Height (p_Header p) = ph_Height h" "psh_Round (p_Header p) = ph_Round h" "psh_ChainID (p_Header p) = ph_MyChainID h"
    using assms(1) False by (cases "ph_Proposal h") (auto simp: pyr_AddProposal_def split: if_splits bind_splits option.splits)
  have "ph_Block h = Nil_ptr" using assms(2) c(1) by (cases "ph_Block h") (auto simp: ph_block_ok_def)
  then have "ph_block_ok tp (h\<lparr>ph_Proposal := Ptr p, ph_PartSet := Ptr ps\<rparr>)"
    using assms(2) c NewPartSet_fields [OF ps(1)] by (auto simp: ph_block_ok_def)
  from pyr_add_parts_fills [OF ps(2) this] show ?thesis
    using c(1) by (auto simp: ph_fills_def ph_frame_def)
qed (use assms in simp)


text \<open>Counting a vote: what \<open>AddVote\<close> does to a vote set of valid votes.\<close>

lemma counted_add:
  assumes "counted valid ps vs" "votes_ok ps" "vote_GetIndex v = int i" "i < length ps" "valid i v"
  shows "\<exists>e vs'. AddVote vs v (Vote (ps ! i)) = Ret (e, vs') \<and> counted valid ps vs' \<and> (has_mj23 vs \<longrightarrow> has_mj23 vs')"
proof (cases "votes vs ! i")
  case Nil_ptr
  have inv: "vs_inv vs ps" using assms(1) by (simp add: counted_def)
  obtain vs' where vs': "AddVote vs v (Vote (ps ! i)) = Ret (Nil_ptr, vs')" "vs_inv vs' ps" "votes vs' = (votes vs)[i := Ptr v]"
    by (rule AddVote_new [OF inv assms(2-4) Nil_ptr])
  have l: "length (votes vs) = length ps" using inv by (simp add: vs_inv_def)
  have "counted valid ps vs'"
    using vs' assms(1,4,5) l by (auto simp: counted_def nth_list_update split: if_splits)
  moreover have "has_mj23 vs'" if "has_mj23 vs"
  proof -
    have "3 * tally vs ps (mj23_key vs) (mj23_code vs) > 2 * total_votes ps" using inv that by (simp add: vs_inv_def)
    moreover have "0 \<le> Vote (ps ! i)" using assms(2,4) by (simp add: votes_ok_def)
    ultimately have "3 * tally vs' ps (mj23_key vs) (mj23_code vs) > 2 * total_votes ps"
      using tally_set [OF l assms(4) Nil_ptr vs'(3), of "mj23_key vs" "mj23_code vs"] by simp
    then show ?thesis using vs'(2) by (auto simp: vs_inv_def)
  qed
  ultimately show ?thesis using vs'(1) by blast
next
  case (Ptr w)
  have inv: "vs_inv vs ps" using assms(1) by (simp add: counted_def)
  show ?thesis using AddVote_seen [OF inv assms(3,4) Ptr] assms(1) by blast
qed

lemma index_nat: "0 \<le> x \<Longrightarrow> x < int n \<Longrightarrow> (\<And>i. x = int i \<Longrightarrow> i < n \<Longrightarrow> thesis) \<Longrightarrow> thesis"
  by (metis nonneg_int_cases of_nat_less_iff)

lemma pyr_my_vote_nth: "ph_committee h ps V \<Longrightarrow> i < length ps \<Longrightarrow> pyr_my_vote h (int i) = Ret (Vote (ps ! i))"
  by (simp add: ph_committee_def pyr_my_vote_def map_get_def)

lemma ValidateBasic_type:
  "Prevote_ValidateBasic v = Inr () \<Longrightarrow> pv_VoteType v = VoteTypePrevote"
  "Precommit_ValidateBasic c = Inr () \<Longrightarrow> pc_VoteType c = VoteTypePrecommit"
  by (auto simp: Prevote_ValidateBasic_def Precommit_ValidateBasic_def split: if_splits)

lemma pyr_AddPrevote_inv:
  assumes "pyr_AddPrevote tp h p = Ret (e, h')" "pv_VoteType p = VoteTypePrevote" "ph_inv tp h"
  shows "ph_inv tp h' \<and> ph_frame h h'"
proof (cases "h' = h")
  case False
  obtain ps V where c: "ph_committee h ps V" and pv: "counted (prevote_ok tp h V) ps (ph_Prevotes h)"
    and pc: "counted (precommit_ok tp h V) ps (ph_Precommits h)"
    using assms(3) by (auto simp: ph_inv_def ph_votes_ok_def)
  have "0 \<le> pv_ValidatorIndex p" "pv_ValidatorIndex p < int (length ps)"
    using assms(1) False c by (auto simp: pyr_AddPrevote_def ph_committee_def split: if_splits)
  then obtain i where i: "pv_ValidatorIndex p = int i" "i < length ps" by (rule index_nat)
  obtain bz vs' e' where v: "pv_Height p = ph_Height h" "pv_Round p = ph_Round h"
    "Prevote_SignBytes (prevote_codec (base_codecs (p_codecs tp))) p = Ret bz" "Verifier_Verify (p_bls tp) V (pv_Signature p) bz (int i) = Ret True"
    "AddVote (ph_Prevotes h) (PrevoteV p) (Vote (ps ! i)) = Ret (e', vs')" "h' = h\<lparr>ph_Prevotes := vs'\<rparr>"
    using assms(1) False c i pyr_my_vote_nth [OF c i(2)] by (auto simp: pyr_AddPrevote_def ph_committee_def split: if_splits bind_splits)
  have fr: "ph_frame h h'" using v(6) by (simp add: ph_frame_def)
  have ok: "prevote_ok tp h V i (PrevoteV p)"
    using v i assms(2) by (simp add: prevote_ok_def)
  have "counted (prevote_ok tp h V) ps vs' \<and> (has_mj23 (ph_Prevotes h) \<longrightarrow> has_mj23 vs')"
    using counted_add [OF pv, of "PrevoteV p" i] ok c i v(5) by (auto simp: ph_committee_def)
  then show ?thesis
    using assms(3) fr c pc ph_frame_votes [OF fr] ph_frame_committee [OF fr] v(6)
    by (auto simp: ph_inv_def ph_votes_ok_def ph_block_ok_def ph_step_ok_def)
qed (use assms in simp)

lemma pyr_AddPrecommit_inv:
  assumes "pyr_AddPrecommit tp h p = Ret (e, h')" "pc_VoteType p = VoteTypePrecommit" "ph_inv tp h"
  shows "ph_inv tp h' \<and> ph_frame h h'"
proof (cases "h' = h")
  case False
  obtain ps V where c: "ph_committee h ps V" and pv: "counted (prevote_ok tp h V) ps (ph_Prevotes h)"
    and pc: "counted (precommit_ok tp h V) ps (ph_Precommits h)"
    using assms(3) by (auto simp: ph_inv_def ph_votes_ok_def)
  have "0 \<le> pc_ValidatorIndex p" "pc_ValidatorIndex p < int (length ps)"
    using assms(1) False c by (auto simp: pyr_AddPrecommit_def ph_committee_def split: if_splits)
  then obtain i where i: "pc_ValidatorIndex p = int i" "i < length ps" by (rule index_nat)
  obtain bz vs' e' where v: "pc_Height p = ph_Height h" "pc_Round p = ph_Round h"
    "Precommit_SignBytes (precommit_codec (base_codecs (p_codecs tp))) p = Ret bz" "Verifier_Verify (p_bls tp) V (pc_Signature p) bz (int i) = Ret True"
    "AddVote (ph_Precommits h) (PrecommitV p) (Vote (ps ! i)) = Ret (e', vs')" "h' = h\<lparr>ph_Precommits := vs'\<rparr>"
    using assms(1) False c i pyr_my_vote_nth [OF c i(2)] by (auto simp: pyr_AddPrecommit_def ph_committee_def split: if_splits bind_splits)
  have fr: "ph_frame h h'" using v(6) by (simp add: ph_frame_def)
  have ok: "precommit_ok tp h V i (PrecommitV p)"
    using v i assms(2) by (simp add: precommit_ok_def)
  have "counted (precommit_ok tp h V) ps vs' \<and> (has_mj23 (ph_Precommits h) \<longrightarrow> has_mj23 vs')"
    using counted_add [OF pc, of "PrecommitV p" i] ok c i v(5) by (auto simp: ph_committee_def)
  then show ?thesis
    using assms(3) fr c pv ph_frame_votes [OF fr] ph_frame_committee [OF fr] v(6)
    by (auto simp: ph_inv_def ph_votes_ok_def ph_block_ok_def ph_step_ok_def)
qed (use assms in simp)

text \<open>Completion tests.\<close>

lemma pass_inv:
  assumes "ph_inv tp h" "ph_step_ok (h\<lparr>ph_PassStep := k\<rparr>)"
  shows "ph_inv tp (h\<lparr>ph_PassStep := k\<rparr>)"
proof -
  have fr: "ph_frame h (h\<lparr>ph_PassStep := k\<rparr>)" by (simp add: ph_frame_def)
  show ?thesis using assms ph_frame_votes [OF fr] ph_frame_committee [OF fr]
    by (simp add: ph_inv_def ph_votes_ok_def ph_block_ok_def)
qed

definition ph_passes :: "pyr_thirdparty \<Rightarrow> int \<Rightarrow> PHeightData \<Rightarrow> bool \<Rightarrow> PHeightData \<Rightarrow> bool" where
  "ph_passes tp n h ok h' \<longleftrightarrow> ph_inv tp h' \<and> (\<exists>k. h' = h\<lparr>ph_PassStep := k\<rparr>) \<and> ph_PassStep h \<le> ph_PassStep h' \<and>
     (ok \<longrightarrow> ph_PassStep h' \<ge> n) \<and> (\<not> ok \<longrightarrow> ph_PassStep h' < n)"

lemma pyr_FinishProposal_inv:
  assumes "pyr_FinishProposal h = Ret (ok, h')" "ph_inv tp h"
  shows "ph_passes tp RoundStepPropose h ok h'"
proof (cases "\<not> ok \<or> ph_PassStep h \<ge> RoundStepPropose")
  case True
  then show ?thesis using assms
    by (auto simp: pyr_FinishProposal_def ph_passes_def split: if_splits ptr.splits intro!: exI [of _ "ph_PassStep h"])
next
  case False
  then have h': "ok" "h' = h\<lparr>ph_PassStep := RoundStepPropose\<rparr>" "ph_PassStep h < RoundStepPropose" "ph_Proposal h \<noteq> Nil_ptr" "ph_Block h \<noteq> Nil_ptr"
    using assms(1) by (auto simp: pyr_FinishProposal_def is_nil_def split: if_splits ptr.splits)
  then have "ph_inv tp h'" unfolding h'(2) by (intro pass_inv assms(2)) (simp add: ph_step_ok_def pyr_round_step_defs)
  then show ?thesis using h' by (auto simp: ph_passes_def)
qed

lemma pyr_FinishPrevote_inv:
  assumes "pyr_FinishPrevote h = Ret (ok, h')" "ph_inv tp h"
  shows "ph_passes tp RoundStepPrevote h ok h'"
proof (cases "ph_PassStep h \<ge> RoundStepPrevote")
  case True
  then show ?thesis using assms
    by (auto simp: pyr_FinishPrevote_def ph_passes_def intro!: exI [of _ "ph_PassStep h"])
next
  case False
  then obtain ok1 h1 where h1: "pyr_FinishProposal h = Ret (ok1, h1)" using assms(1) by (auto simp: pyr_FinishPrevote_def split: bind_splits)
  note p = pyr_FinishProposal_inv [OF h1 assms(2)]
  have lt: "ph_PassStep h1 < RoundStepPrevote"
    using h1 False by (auto simp: pyr_FinishProposal_def pyr_round_step_defs split: if_splits ptr.splits)
  show ?thesis
  proof (cases "ok1 \<and> has_mj23 (ph_Prevotes h1)")
    case True
    then have h': "ok" "h' = h1\<lparr>ph_PassStep := RoundStepPrevote\<rparr>"
      using assms(1) False h1 by (auto simp: pyr_FinishPrevote_def vs_HasMaj23_def)
    have "ph_inv tp h'" unfolding h'(2) using p True
      by (intro pass_inv) (auto simp: ph_passes_def ph_step_ok_def ph_inv_def pyr_round_step_defs)
    then show ?thesis using p h' lt by (auto simp: ph_passes_def)
  next
    case no: False
    then have "\<not> ok" "h' = h1" using assms(1) False h1 by (auto simp: pyr_FinishPrevote_def vs_HasMaj23_def split: if_splits)
    then show ?thesis using p lt by (auto simp: ph_passes_def)
  qed
qed

lemma pyr_FinishPrecommit_inv:
  assumes "pyr_FinishPrecommit h = Ret (ok, h')" "ph_inv tp h"
  shows "ph_passes tp RoundStepPrecommit h ok h'"
proof (cases "ph_PassStep h \<ge> RoundStepPrecommit")
  case True
  then show ?thesis using assms
    by (auto simp: pyr_FinishPrecommit_def ph_passes_def intro!: exI [of _ "ph_PassStep h"])
next
  case False
  then obtain ok1 h1 where h1: "pyr_FinishPrevote h = Ret (ok1, h1)" using assms(1) by (auto simp: pyr_FinishPrecommit_def split: bind_splits)
  note p = pyr_FinishPrevote_inv [OF h1 assms(2)]
  have lt: "ph_PassStep h1 < RoundStepPrecommit"
    using h1 False by (auto simp: pyr_FinishPrevote_def pyr_FinishProposal_def pyr_round_step_defs split: if_splits ptr.splits bind_splits)
  show ?thesis
  proof (cases "ok1 \<and> has_mj23 (ph_Precommits h1)")
    case True
    then have h': "ok" "h' = h1\<lparr>ph_PassStep := RoundStepPrecommit\<rparr>"
      using assms(1) False h1 by (auto simp: pyr_FinishPrecommit_def vs_HasMaj23_def)
    have "ph_inv tp h'" unfolding h'(2) using p True
      by (intro pass_inv) (auto simp: ph_passes_def ph_step_ok_def ph_inv_def pyr_round_step_defs)
    then show ?thesis using p h' lt by (auto simp: ph_passes_def)
  next
    case no: False
    then have "\<not> ok" "h' = h1" using assms(1) False h1 by (auto simp: pyr_FinishPrecommit_def vs_HasMaj23_def split: if_splits)
    then show ?thesis using p lt by (auto simp: ph_passes_def)
  qed
qed

text \<open>A new height starts with nothing.\<close>

lemma counted_new: "votes_ok ps \<Longrightarrow> counted valid ps (NewVoteSet (int (length ps)) (total_votes ps))"
  using NewVoteSet_inv by (auto simp: counted_def NewVoteSet_def)

lemma fresh_votes_new: "ph_committee h ps V \<Longrightarrow> fresh_votes h = Ret (NewVoteSet (int (length ps)) (total_votes ps))"
  using sum_list_nonneg_prefix [of ps]
  by (auto simp: ph_committee_def fresh_votes_def pyr_validator_size_def votes_ok_def i32_id)

lemma pyr_clearAll_inv:
  assumes "ph_committee h ps V" "ph_PassStep h < RoundStepPropose"
  shows "\<exists>h'. pyr_clearAll h = Ret h' \<and> ph_inv tp h' \<and> ph_frame h h' \<and> ph_PassStep h' = ph_PassStep h \<and> ph_Proposal h' = Nil_ptr \<and>
    ph_Block h' = Nil_ptr \<and> ph_PartSet h' = Nil_ptr \<and> ph_buffer h' = ph_buffer h"
proof -
  let ?vs = "NewVoteSet (int (length ps)) (total_votes ps)"
  let ?h1 = "pyr_clearProposal h"
  let ?h' = "?h1\<lparr>ph_Prevotes := ?vs, ph_Precommits := ?vs\<rparr>"
  have c: "ph_committee ?h1 ps V" "ph_committee (?h1\<lparr>ph_Prevotes := ?vs\<rparr>) ps V" "ph_committee ?h' ps V"
    using assms(1) by (simp_all add: ph_committee_def pyr_clearProposal_def)
  have e: "pyr_clearAll h = Ret ?h'"
    using fresh_votes_new [OF c(1)] fresh_votes_new [OF c(2)] by (simp add: pyr_clearAll_def pyr_clearPrevote_def pyr_clearPrecommit_def)
  have "votes_ok ps" using assms(1) by (simp add: ph_committee_def)
  then have "ph_votes_ok tp ?h'" unfolding ph_votes_ok_def using c(3) by (auto intro!: counted_new)
  moreover have "ph_block_ok tp ?h'" "ph_step_ok ?h'"
    using assms(2) by (simp_all add: ph_block_ok_def ph_step_ok_def pyr_clearProposal_def pyr_round_step_defs)
  ultimately have "ph_inv tp ?h'" by (simp add: ph_inv_def)
  then show ?thesis using e by (simp add: ph_frame_def pyr_clearProposal_def)
qed

lemma pyr_NextHeight_inv:
  assumes "ph_inv tp h"
  shows "\<exists>h'. pyr_NextHeight h = Ret h' \<and> ph_inv tp h' \<and> ph_PassStep h' = RoundStepNewHeight \<and>
    ph_Height h' = ph_Height h + 1 \<and> ph_Round h' = 0 \<and> ph_MyChainID h' = ph_MyChainID h \<and> ph_ShardInfo h' = ph_ShardInfo h \<and>
    ph_AllValidatorSet h' = ph_AllValidatorSet h \<and> ph_Proposal h' = Nil_ptr \<and> ph_Block h' = Nil_ptr \<and> ph_PartSet h' = Nil_ptr"
proof -
  let ?h = "h\<lparr>ph_Height := ph_Height h + 1, ph_Round := 0, ph_PassStep := RoundStepNewHeight\<rparr>"
  obtain ps V where "ph_committee h ps V" using assms by (auto simp: ph_inv_def ph_votes_ok_def)
  then have "ph_committee ?h ps V" by (simp add: ph_committee_def)
  from pyr_clearAll_inv [OF this, of tp] show ?thesis by (auto simp: pyr_NextHeight_def ph_frame_def pyr_round_step_defs)
qed

definition pyr_shard_ok :: "pyr_ShardInfo \<Rightarrow> string \<Rightarrow> bool" where
  "pyr_shard_ok s cid \<longleftrightarrow> (\<exists>ps. psi_PeerListM s cid = Some ps \<and> votes_ok ps)"

lemma foldl_peer_votes: "foldl (\<lambda>t peer. t + Vote peer) t ps = t + total_votes ps"
  by (induction ps arbitrary: t) (simp_all add: total_votes_def)

lemma pyr_NewHeightData_inv:
  assumes "pyr_shard_ok si cid"
  shows "\<exists>h. pyr_NewHeightData (p_bls tp) cid n si = Ret h \<and> ph_inv tp h \<and> ph_PassStep h = RoundStepNewHeight \<and>
    ph_Height h = n \<and> ph_Round h = 0 \<and> ph_MyChainID h = cid \<and> ph_ShardInfo h = si"
proof -
  obtain h0 where h0: "pyr_NewHeightData (p_bls tp) cid n si =
      do { h \<leftarrow> pyr_clearAll (pyr_SetShardInfo (p_bls tp) h0 si); Ret (h\<lparr>ph_buffer := []\<rparr>) }"
    "ph_MyChainID h0 = cid" "ph_PassStep h0 = RoundStepNewHeight" "ph_Height h0 = n" "ph_Round h0 = 0"
    by (rule that [OF pyr_NewHeightData_def]) simp_all
  let ?h = "pyr_SetShardInfo (p_bls tp) h0 si"
  have "\<exists>ps V. ph_committee ?h ps V"
    using assms h0(2) by (auto simp: pyr_shard_ok_def ph_committee_def pyr_SetShardInfo_def NewVerifier_def Verifier_Size_def map_get_def foldl_peer_votes)
  then obtain ps V where c: "ph_committee ?h ps V" by blast
  obtain h' where h': "pyr_clearAll ?h = Ret h'" "ph_inv tp h'" "ph_frame ?h h'" "ph_PassStep h' = RoundStepNewHeight"
    using pyr_clearAll_inv [OF c, of tp] h0(3) by (auto simp: pyr_SetShardInfo_def pyr_round_step_defs)
  have fr: "ph_frame h' (h'\<lparr>ph_buffer := []\<rparr>)" by (simp add: ph_frame_def)
  have "ph_inv tp (h'\<lparr>ph_buffer := []\<rparr>)"
    using h'(2) ph_frame_votes [OF fr] ph_frame_committee [OF fr] by (simp add: ph_inv_def ph_votes_ok_def ph_block_ok_def ph_step_ok_def)
  then show ?thesis using h' h0 by (auto simp: ph_frame_def pyr_SetShardInfo_def)
qed


section \<open>The part set of a block\<close>

lemma pyr_PartSetFromBlock_eq:
  assumes "PartSetFromBlock tm c b n rnd = Some (Ret (ps, b'))" "pyr_Block_Hash tm b = Ret (bh, b'')"
  shows "pyr_PartSetFromBlock tm c b n rnd = Some (Ret (ps\<lparr>ps_BlockHeaderHash := bh\<rparr>, b''))"
  using assms unfolding PartSetFromBlock_def pyr_PartSetFromBlock_def
  by (auto split: option.splits bind_splits)

lemma pyr_PartSetFromBlock_spec:
  assumes "Block_ProtoBytes c b = Ret bz" "0 < n"
  obtains parts hdr bh b' where
    "pyr_PartSetFromBlock tm c b n rnd = Some (Ret (\<lparr>ps_Header = hdr, Parts = map Ptr parts,
        count = int (length parts), ps_BlockHeaderHash = bh\<rparr>, b'))"
    "pyr_Block_Hash tm b = Ret (bh, b')" "genuine hdr parts" "concat (map pt_Bytes parts) = bz"
proof -
  obtain bh b' where h: "pyr_Block_Hash tm b = Ret (bh, b')" using pyr_Block_Hash_total by blast
  obtain parts hdr bh0 b0 where "PartSetFromBlock tm c b n rnd = Some (Ret (\<lparr>ps_Header = hdr, Parts = map Ptr parts,
        count = int (length parts), ps_BlockHeaderHash = bh0\<rparr>, b0))" "genuine hdr parts" "concat (map pt_Bytes parts) = bz"
    by (rule PartSetFromBlock_spec [OF assms])
  then show thesis using that [of hdr parts bh b'] pyr_PartSetFromBlock_eq [OF _ h] h by fastforce
qed

lemma pyr_PartSetFromBlock_fields:
  assumes "pyr_PartSetFromBlock tm c b n rnd = Some (Ret (ps, b'))"
  shows "psh_Height (ps_Header ps) = Height (b_Header b)" "psh_Round (ps_Header ps) = rnd"
    "psh_ChainID (ps_Header ps) = ChainID (b_Header b)" "pyr_Block_Hash tm b = Ret (ps_BlockHeaderHash ps, b')"
  using assms by (auto simp: pyr_PartSetFromBlock_def split: option.splits bind_splits)

section \<open>Runs\<close>

text \<open>
  The operations of the consensus state on the height data: received messages (which have passed their
  basic check), the completion tests, the node's own proposal at the start of a height, the next height.
\<close>

inductive ph_step :: "pyr_thirdparty \<Rightarrow> PHeightData \<Rightarrow> PHeightData \<Rightarrow> bool" for tp where
  part: "pyr_AddPart tp h p = Ret (e, h') \<Longrightarrow> ph_step tp h h'"
| proposal: "pyr_AddProposal tp h p i = Ret (e, h') \<Longrightarrow> ph_step tp h h'"
| prevote: "Prevote_ValidateBasic v = Inr () \<Longrightarrow> pyr_AddPrevote tp h v = Ret (e, h') \<Longrightarrow> ph_step tp h h'"
| precommit: "Precommit_ValidateBasic c = Inr () \<Longrightarrow> pyr_AddPrecommit tp h c = Ret (e, h') \<Longrightarrow> ph_step tp h h'"
| finish_proposal: "pyr_FinishProposal h = Ret (ok, h') \<Longrightarrow> ph_step tp h h'"
| finish_prevote: "pyr_FinishPrevote h = Ret (ok, h') \<Longrightarrow> ph_step tp h h'"
| finish_precommit: "pyr_FinishPrecommit h = Ret (ok, h') \<Longrightarrow> ph_step tp h h'"
| own: "ph_PassStep h < RoundStepPropose \<Longrightarrow> Height (b_Header b) = ph_Height h \<Longrightarrow> ChainID (b_Header b) = ph_MyChainID h \<Longrightarrow>
    pyr_PartSetFromBlock (p_time tp) c b n (ph_Round h) = Some (Ret (ps, b')) \<Longrightarrow>
    p_Header p = ps_Header ps \<Longrightarrow> p_BlockHeaderHash p = ps_BlockHeaderHash ps \<Longrightarrow>
    ph_step tp h (h\<lparr>ph_Block := Ptr b', ph_PartSet := Ptr ps, ph_Proposal := Ptr p\<rparr>)"
| next_height: "pyr_NextHeight h = Ret h' \<Longrightarrow> ph_step tp h h'"

definition ph_reach :: "pyr_thirdparty \<Rightarrow> string \<Rightarrow> pyr_ShardInfo \<Rightarrow> PHeightData \<Rightarrow> bool" where
  "ph_reach tp cid si h \<longleftrightarrow> (\<exists>n h0. pyr_NewHeightData (p_bls tp) cid n si = Ret h0 \<and> (ph_step tp)\<^sup>*\<^sup>* h0 h)"

lemma ph_passes_frame: "ph_passes tp n h ok h' \<Longrightarrow> ph_inv tp h' \<and> ph_MyChainID h' = ph_MyChainID h \<and> ph_ShardInfo h' = ph_ShardInfo h"
  by (auto simp: ph_passes_def)

lemma own_inv:
  assumes "ph_inv tp h" "ph_PassStep h < RoundStepPropose" "Height (b_Header b) = ph_Height h" "ChainID (b_Header b) = ph_MyChainID h"
    "pyr_PartSetFromBlock (p_time tp) c b n (ph_Round h) = Some (Ret (ps, b'))" "p_Header p = ps_Header ps" "p_BlockHeaderHash p = ps_BlockHeaderHash ps"
  shows "ph_inv tp (h\<lparr>ph_Block := Ptr b', ph_PartSet := Ptr ps, ph_Proposal := Ptr p\<rparr>)"
proof -
  let ?h = "h\<lparr>ph_Block := Ptr b', ph_PartSet := Ptr ps, ph_Proposal := Ptr p\<rparr>"
  note f = pyr_PartSetFromBlock_fields [OF assms(5)]
  have "ph_block_ok tp ?h"
    using f assms(3,4,6,7) pyr_Block_Hash_idem [OF f(4)] pyr_Block_Hash_frame [OF f(4)] by (simp add: ph_block_ok_def)
  moreover have fr: "ph_frame h ?h" by (simp add: ph_frame_def)
  ultimately show ?thesis
    using assms(1,2) ph_frame_votes [OF fr] ph_frame_committee [OF fr] by (simp add: ph_inv_def ph_votes_ok_def ph_step_ok_def pyr_round_step_defs)
qed

lemma ph_step_inv:
  assumes "ph_step tp h h'" "ph_inv tp h"
  shows "ph_inv tp h' \<and> ph_MyChainID h' = ph_MyChainID h \<and> ph_ShardInfo h' = ph_ShardInfo h"
  using assms
proof cases
  case (part p e)
  then show ?thesis using pyr_AddPart_fills [OF part] assms(2) ph_fills_inv [of tp h h'] by (auto simp: ph_inv_def ph_fills_def ph_frame_def)
next
  case (proposal p i e)
  then show ?thesis using pyr_AddProposal_fills [OF proposal] assms(2) ph_fills_inv [of tp h h'] by (auto simp: ph_inv_def ph_fills_def ph_frame_def)
next
  case (prevote v e)
  then show ?thesis using pyr_AddPrevote_inv ValidateBasic_type assms(2) by (auto simp: ph_frame_def)
next
  case (precommit c e)
  then show ?thesis using pyr_AddPrecommit_inv ValidateBasic_type assms(2) by (auto simp: ph_frame_def)
next
  case (finish_proposal ok)
  then show ?thesis using pyr_FinishProposal_inv ph_passes_frame assms(2) by blast
next
  case (finish_prevote ok)
  then show ?thesis using pyr_FinishPrevote_inv ph_passes_frame assms(2) by blast
next
  case (finish_precommit ok)
  then show ?thesis using pyr_FinishPrecommit_inv ph_passes_frame assms(2) by blast
next
  case (own b c n ps b' p)
  then show ?thesis using own_inv assms(2) by simp
next
  case next_height
  then show ?thesis using pyr_NextHeight_inv [OF assms(2)] by auto
qed

lemma ph_reach_inv:
  assumes "ph_reach tp cid si h" "pyr_shard_ok si cid"
  shows "ph_inv tp h \<and> ph_MyChainID h = cid \<and> ph_ShardInfo h = si"
proof -
  obtain n h0 where h0: "pyr_NewHeightData (p_bls tp) cid n si = Ret h0" "(ph_step tp)\<^sup>*\<^sup>* h0 h" using assms(1) by (auto simp: ph_reach_def)
  have i: "ph_inv tp h0 \<and> ph_MyChainID h0 = cid \<and> ph_ShardInfo h0 = si"
    using pyr_NewHeightData_inv [OF assms(2), of tp n] h0(1) by auto
  from h0(2) show ?thesis
    by (induction rule: rtranclp_induct) (use i ph_step_inv in auto)
qed

section \<open>Certificates\<close>

definition abort_code_only :: "VoteSet \<Rightarrow> Peer list \<Rightarrow> bool" where
  "abort_code_only vs ps \<longleftrightarrow>
     (\<forall>i p. i < length ps \<longrightarrow> votes vs ! i = Ptr (PrecommitV p) \<longrightarrow> pcm_Code p = CodeTypeOK \<or> pcm_Code p = CodeTypeAbort)"

lemma certificate_verifies:
  assumes ok: "bls_ok (p_bls tp)" and inv: "ph_inv tp h" and c: "ph_committee h ps V" and pr: "ph_Proposal h = Ptr p"
    and maj: "has_mj23 (ph_Precommits h)" and codes: "abort_code_only (ph_Precommits h) ps"
  shows "\<exists>pa b. pyr_GenerateAggregatePrecommitSignature (p_bls tp) h = Ret pa \<and> pa_ValidatorBitVector pa = Ptr b \<and>
    (pa_BlockHeaderHash pa, PrecommitAggregated_IsOK pa) = vs_GetMaj23 (ph_Precommits h) \<and> pa_Header pa = p_Header p \<and>
    VerifySignatures (p_bls tp) (precommit_codec (base_codecs (p_codecs tp))) pa (Ptr V) (Byte (Ptr b)) = Ret True \<and>
    3 * marked_votes b ps > 2 * total_votes ps"
proof -
  let ?B = "p_bls tp" and ?c = "precommit_codec (base_codecs (p_codecs tp))" and ?vs = "ph_Precommits h"
  let ?k = "mj23_key ?vs" and ?ok = "mj23_code ?vs"
  have cnt: "vs_inv ?vs ps" "\<And>i v. i < length ps \<Longrightarrow> votes ?vs ! i = Ptr v \<Longrightarrow> precommit_ok tp h V i v" and vk: "votes_ok ps"
    using inv c by (auto simp: ph_inv_def ph_votes_ok_def counted_def ph_committee_def)
  have hd: "psh_Height (p_Header p) = ph_Height h" "psh_Round (p_Header p) = ph_Round h"
    using inv pr by (simp_all add: ph_inv_def ph_block_ok_def)
  define code where "code = (if ?ok then CodeTypeOK else CodeTypeAbort)"
  have code: "pcm_Code q = code" if "Precommit_IsOK q = ?ok" "i < length ps" "votes ?vs ! i = Ptr (PrecommitV q)" for q i
    using codes that by (auto simp: abort_code_only_def code_def Precommit_IsOK_def)
  define pc where "pc = (NewPrecommit (ph_Height h) (ph_Round h) ?k (-1))\<lparr>pcm_Code := code\<rparr>"
  have sb: "Precommit_SignBytes ?c q = Precommit_SignBytes ?c pc"
    if "precommit_ok tp h V i (PrecommitV q)" "pc_BlockHeaderHash q = ?k" "pcm_Code q = code" for q i
    using that by (intro Precommit_SignBytes_cong) (auto simp: precommit_ok_def pc_def NewPrecommit_def)
  have "3 * tally ?vs ps ?k ?ok > 2 * total_votes ps" using cnt(1) maj by (simp add: vs_inv_def)
  then obtain i0 where i0: "i0 < length ps" "backs ?vs ?k ?ok i0" using majority_backed [OF vk] by blast
  then obtain q0 where q0: "votes ?vs ! i0 = Ptr (PrecommitV q0)" "pc_BlockHeaderHash q0 = ?k" "Precommit_IsOK q0 = ?ok"
    using cnt(2) [OF i0(1)] by (auto simp: backs_def precommit_ok_def)
  obtain msg where msg: "Precommit_SignBytes ?c pc = Ret msg"
    using cnt(2) [OF i0(1) q0(1)] sb [OF _ q0(2) code [OF q0(3) i0(1) q0(1)]] by (auto simp: precommit_ok_def)
  have signed: "Verifier_Verify ?B V (GetSignature v) msg (int i) = Ret True"
    if v: "i < length ps" "votes ?vs ! i = Ptr v" "GetBlockHeaderHash v = ?k" "vote_IsOK v = ?ok" for i v
  proof -
    obtain q where q: "v = PrecommitV q" using cnt(2) [OF v(1,2)] by (auto simp: precommit_ok_def)
    have cd: "pcm_Code q = code" using code [of q i] v q by simp
    have ok: "precommit_ok tp h V i (PrecommitV q)" using cnt(2) [OF v(1,2)] q by simp
    have "Precommit_SignBytes ?c q = Ret msg" using sb [OF ok _ cd] v(3) q msg by simp
    then show ?thesis using ok q by (auto simp: precommit_ok_def)
  qed
  have V: "Verifier_Size V = int (length ps)" using c by (simp add: ph_committee_def)
  obtain agg b where a: "GetMaj23AggreSig ?B ?vs = Ret (agg, Byte (Ptr b))" "bv_wf b" "Bits b = int (length ps)"
    "VerifyAggregateSignature ?B V agg msg (Byte (Ptr b)) = Ret True" "3 * marked_votes b ps > 2 * total_votes ps"
    using GetMaj23AggreSig_verifies [OF ok cnt(1) vk maj V signed] by blast
  let ?pa = "\<lparr>pa_VoteType = VoteTypePrecommitAggregated, pa_Code = code, pa_ValidatorBitVector = Ptr b, pa_Header = p_Header p,
    pa_BlockHeaderHash = ?k, AggregatedSignatures = agg\<rparr>"
  have g: "pyr_GenerateAggregatePrecommitSignature ?B h = Ret ?pa"
    using a pr Byte_roundtrip_aux [OF a(2)]
    by (simp add: pyr_GenerateAggregatePrecommitSignature_def vs_GetMaj23_def NewPrecommitAggregated_def PrecommitAggregated_SetCode_def code_def)
  have "Precommit_SignBytes ?c (Aggregated_Precommit ?pa) = Ret msg"
    using msg hd by (simp add: Aggregated_Precommit_def pc_def)
  then have "VerifySignatures ?B ?c ?pa (Ptr V) (Byte (Ptr b)) = Ret True" using a(4) by (simp add: VerifySignatures_def)
  moreover have "(pa_BlockHeaderHash ?pa, PrecommitAggregated_IsOK ?pa) = vs_GetMaj23 ?vs"
    by (simp add: vs_GetMaj23_def PrecommitAggregated_IsOK_def code_def CodeTypeOK_def CodeTypeAbort_def)
  ultimately show ?thesis using g a(5) by (intro exI [of _ ?pa] exI [of _ b]) simp
qed

section \<open>A run of one validator\<close>

lemma heavy_vote:
  assumes "votes_ok ps" "i < length ps" "vote_GetIndex v = int i" "3 * Vote (ps ! i) > 2 * total_votes ps"
  shows "\<exists>s. AddVote (NewVoteSet (int (length ps)) (total_votes ps)) v (Vote (ps ! i)) = Ret (Nil_ptr, s) \<and> has_mj23 s \<and>
     vs_GetMaj23 s = (GetBlockHeaderHash v, vote_IsOK v) \<and> votes s = (replicate (length ps) Nil_ptr)[i := Ptr v]"
proof -
  let ?n = "NewVoteSet (int (length ps)) (total_votes ps)"
  have inv: "vs_inv ?n ps" using NewVoteSet_inv [OF assms(1)] .
  have f: "length (votes ?n) = length ps" "votes ?n ! i = Nil_ptr" using assms(2) by (simp_all add: NewVoteSet_def)
  obtain s where s: "AddVote ?n v (Vote (ps ! i)) = Ret (Nil_ptr, s)" "vs_inv s ps" "votes s = (votes ?n)[i := Ptr v]"
    using AddVote_new [OF inv assms(1) assms(3,2) f(2)] by auto
  have "tally s ps (GetBlockHeaderHash v) (vote_IsOK v) = Vote (ps ! i)"
    using tally_set [OF f(1) assms(2) f(2) s(3), of "GetBlockHeaderHash v" "vote_IsOK v"]
      tally_none [of ps ?n "GetBlockHeaderHash v" "vote_IsOK v"] by (simp add: NewVoteSet_def backs_def)
  then have m: "3 * tally s ps (GetBlockHeaderHash v) (vote_IsOK v) > 2 * total_votes ps" using assms(4) by simp
  then have "has_mj23 s" using s(2) by (auto simp: vs_inv_def)
  moreover from this have "3 * tally s ps (mj23_key s) (mj23_code s) > 2 * total_votes ps" using s(2) by (simp add: vs_inv_def)
  ultimately show ?thesis using majority_unique [OF assms(1) m] s by (auto simp: vs_GetMaj23_def NewVoteSet_def)
qed

lemma single_vote:
  assumes "votes_ok [p]" "Vote p > 0" "vote_GetIndex v = 0"
  shows "\<exists>s. AddVote (NewVoteSet 1 (Vote p)) v (Vote p) = Ret (Nil_ptr, s) \<and> has_mj23 s \<and>
     vs_GetMaj23 s = (GetBlockHeaderHash v, vote_IsOK v) \<and> votes s = [Ptr v]"
  using heavy_vote [OF assms(1), of 0 v] assms(2,3) by (simp add: total_votes_def)

definition demo_pyr_si :: pyr_ShardInfo where
  "demo_pyr_si = \<lparr>psi_PeerListM = [''a'' \<mapsto> [demo_peer]], psi_Related = [], psi_PeerRelated = Map.empty,
     psi_Identity = BLOCKTYPE_I, psi_KeyRangeMap = Map.empty\<rparr>"

definition demo_pyr_codecs :: pyr_codecs where
  "demo_pyr_codecs = \<lparr>base_codecs = \<lparr>proposal_codec = any_codec, prevote_codec = any_codec, precommit_codec = any_codec,
       precommit_agg_codec = any_codec, csp_codec = any_codec, csa_codec = any_codec, csc_codec = any_codec,
       block_codec = any_codec, part_codec = any_codec\<rparr>,
     csb_codec = any_codec, ma_codec = any_codec, mas_codec = any_codec, mc_codec = any_codec, mok_codec = any_codec\<rparr>"

definition demo_pyr_tp :: pyr_thirdparty where
  "demo_pyr_tp = \<lparr>p_bls = toy_bls, p_codecs = demo_pyr_codecs, p_time = (\<lambda>t. Some [7])\<rparr>"

lemma demo_pyr_shard: "pyr_shard_ok demo_pyr_si ''a''" "votes_ok [demo_peer]"
  by (simp_all add: pyr_shard_ok_def demo_pyr_si_def votes_ok_def total_votes_def demo_peer_def)

lemma demo_pyr_verify: "Verifier_Verify toy_bls (NewVerifier toy_bls [''p'']) ''++'' [9] 0 = Ret True"
  by (simp add: Verifier_Verify_def NewVerifier_def toy_bls_def go_index_def)

definition demo_ph :: PHeightData where
  "demo_ph = \<lparr>ph_Height = 5, ph_Round = 0, ph_MyChainID = ''a'', ph_PassStep = RoundStepNewHeight, ph_ShardInfo = demo_pyr_si,
     ph_ShardVotes = [''a'' \<mapsto> 1], ph_AllValidatorSet = [''a'' \<mapsto> NewVerifier toy_bls [''p'']], ph_Proposal = Nil_ptr,
     ph_Prevotes = NewVoteSet 1 1, ph_Precommits = NewVoteSet 1 1, ph_PartSet = Nil_ptr, ph_Block = Nil_ptr, ph_buffer = []\<rparr>"

lemma demo_ph_new: "pyr_NewHeightData toy_bls ''a'' 5 demo_pyr_si = Ret demo_ph"
  by (simp add: pyr_NewHeightData_def pyr_clearAll_def pyr_clearPrevote_def pyr_clearPrecommit_def fresh_votes_def pyr_clearProposal_def
      pyr_SetShardInfo_def pyr_validator_size_def demo_ph_def demo_pyr_si_def demo_peer_def map_get_def NewVerifier_def Verifier_Size_def
      i32_id fun_eq_iff)

text \<open>A height in which the only validator votes for any hash \<open>k\<close> while it holds the block it proposed.\<close>

lemma demo_pyr_run:
  assumes "length k = 32"
  shows "\<exists>h p x b. ph_reach demo_pyr_tp ''a'' demo_pyr_si h \<and> ph_PassStep h = RoundStepPrecommit \<and> ph_Proposal h = Ptr p \<and>
     p_BlockHeaderHash p = x \<and> pyr_Block_Hash (\<lambda>t. Some [7]) demo_block = Ret (x, b) \<and> ph_Block h = Ptr b \<and>
     vs_GetMaj23 (ph_Precommits h) = (k, True) \<and> has_mj23 (ph_Precommits h) \<and> abort_code_only (ph_Precommits h) [demo_peer]"
proof -
  let ?tp = demo_pyr_tp
  have bz: "Block_ProtoBytes any_codec demo_block = Ret [9]" by (simp add: Block_ProtoBytes_def)
  obtain parts hdr x b where part: "pyr_PartSetFromBlock (\<lambda>t. Some [7]) any_codec demo_block 2 0 = Some (Ret (\<lparr>ps_Header = hdr, Parts = map Ptr parts,
        count = int (length parts), ps_BlockHeaderHash = x\<rparr>, b))" "pyr_Block_Hash (\<lambda>t. Some [7]) demo_block = Ret (x, b)" "genuine hdr parts"
    using pyr_PartSetFromBlock_spec [OF bz, of 2] by (metis zero_less_numeral)
  let ?ps = "\<lparr>ps_Header = hdr, Parts = map Ptr parts, count = int (length parts), ps_BlockHeaderHash = x\<rparr>"
  define p where "p = NewProposal hdr 0 x"
  define h1 where "h1 = demo_ph\<lparr>ph_Block := Ptr b, ph_PartSet := Ptr ?ps, ph_Proposal := Ptr p\<rparr>"
  have s1: "ph_step ?tp demo_ph h1" unfolding h1_def
    by (rule ph_step.own [where c = any_codec and n = 2 and b = demo_block])
      (use part in \<open>simp_all add: demo_ph_def pyr_round_step_defs demo_block_def demo_header_def p_def NewProposal_def demo_pyr_tp_def\<close>)
  define v where "v = (NewPrevote 5 0 k 0)\<lparr>pv_Signature := ''++''\<rparr>"
  define c where "c = (NewPrecommit 5 0 k 0)\<lparr>pc_Signature := ''++''\<rparr>"
  have dp: "Vote demo_peer = 1" by (simp add: demo_peer_def)
  obtain s where s: "AddVote (NewVoteSet 1 1) (PrevoteV v) 1 = Ret (Nil_ptr, s)" "has_mj23 s"
    using single_vote [OF demo_pyr_shard(2), of "PrevoteV v"] dp by (auto simp: v_def NewPrevote_def)
  obtain t where t: "AddVote (NewVoteSet 1 1) (PrecommitV c) 1 = Ret (Nil_ptr, t)" "has_mj23 t" "vs_GetMaj23 t = (k, True)" "votes t = [Ptr (PrecommitV c)]"
    using single_vote [OF demo_pyr_shard(2), of "PrecommitV c"] dp by (auto simp: c_def NewPrecommit_def Precommit_IsOK_def)
  define h2 where "h2 = h1\<lparr>ph_Prevotes := s\<rparr>"
  define h3 where "h3 = h2\<lparr>ph_Precommits := t\<rparr>"
  have vote: "pyr_my_vote demo_ph 0 = Ret 1" "pyr_my_vote h1 0 = Ret 1" "pyr_my_vote h2 0 = Ret 1"
    by (simp_all add: pyr_my_vote_def h2_def h1_def demo_ph_def demo_pyr_si_def demo_peer_def map_get_def go_index_def)
  have size: "Verifier_Size (NewVerifier toy_bls [''p'']) = 1" by (simp add: Verifier_Size_def NewVerifier_def)
  have "pyr_AddPrevote ?tp h1 v = Ret (Nil_ptr, h2)"
    using s(1) vote(2) size demo_pyr_verify
    by (simp add: pyr_AddPrevote_def h2_def h1_def demo_ph_def v_def NewPrevote_def demo_pyr_tp_def demo_pyr_codecs_def Prevote_SignBytes_def vote_error_def)
  then have s2: "ph_step ?tp h1 h2"
    using assms by (intro ph_step.prevote) (simp_all add: Prevote_ValidateBasic_def v_def NewPrevote_def HashSize_def)
  have "pyr_AddPrecommit ?tp h2 c = Ret (Nil_ptr, h3)"
    using t(1) vote(3) size demo_pyr_verify
    by (simp add: pyr_AddPrecommit_def h3_def h2_def h1_def demo_ph_def c_def NewPrecommit_def demo_pyr_tp_def demo_pyr_codecs_def Precommit_SignBytes_def vote_error_def)
  then have s3: "ph_step ?tp h2 h3"
    using assms by (intro ph_step.precommit) (simp_all add: Precommit_ValidateBasic_def c_def NewPrecommit_def HashSize_def)
  have "psh_Total hdr = int (length parts)" using part(3) by (simp add: genuine_def)
  then have "pyr_FinishPrecommit h3 = Ret (True, h3\<lparr>ph_PassStep := RoundStepPrecommit\<rparr>)"
    using s(2) t(2) by (simp add: pyr_FinishPrecommit_def pyr_FinishPrevote_def pyr_FinishProposal_def h3_def h2_def h1_def demo_ph_def
        pyr_round_step_defs vs_HasMaj23_def IsComplete_def)
  then have s4: "ph_step ?tp h3 (h3\<lparr>ph_PassStep := RoundStepPrecommit\<rparr>)" by (rule ph_step.finish_precommit)
  have "(ph_step ?tp)\<^sup>*\<^sup>* demo_ph (h3\<lparr>ph_PassStep := RoundStepPrecommit\<rparr>)"
    using s1 s2 s3 s4 by (meson converse_rtranclp_into_rtranclp rtranclp.rtrancl_refl)
  then have "ph_reach ?tp ''a'' demo_pyr_si (h3\<lparr>ph_PassStep := RoundStepPrecommit\<rparr>)"
    using demo_ph_new by (auto simp: ph_reach_def demo_pyr_tp_def)
  moreover have "abort_code_only t [demo_peer]" using t(4) by (simp add: abort_code_only_def c_def NewPrecommit_def)
  ultimately show ?thesis
    using part(2) t(2,3) by (intro exI [of _ "h3\<lparr>ph_PassStep := RoundStepPrecommit\<rparr>"] exI [of _ p] exI [of _ x] exI [of _ b])
      (simp add: h3_def h2_def h1_def p_def NewProposal_def)
qed

section \<open>Quorums\<close>

lemma commit_quorum:
  assumes inv: "ph_inv tp h" and "ph_PassStep h \<ge> RoundStepPrecommit"
  shows "\<exists>p b ps V. ph_Proposal h = Ptr p \<and> ph_Block h = Ptr b \<and> pyr_Block_Hash (p_time tp) b = Ret (p_BlockHeaderHash p, b) \<and>
     ph_committee h ps V \<and>
     (\<forall>i v. i < length ps \<longrightarrow> (votes (ph_Prevotes h) ! i = Ptr v \<longrightarrow> prevote_ok tp h V i v) \<and>
        (votes (ph_Precommits h) ! i = Ptr v \<longrightarrow> precommit_ok tp h V i v)) \<and>
     (\<exists>k ok. vs_GetMaj23 (ph_Prevotes h) = (k, ok) \<and> 3 * tally (ph_Prevotes h) ps k ok > 2 * total_votes ps) \<and>
     (\<exists>k ok. vs_GetMaj23 (ph_Precommits h) = (k, ok) \<and> 3 * tally (ph_Precommits h) ps k ok > 2 * total_votes ps)"
proof -
  obtain ps V where c: "ph_committee h ps V" "counted (prevote_ok tp h V) ps (ph_Prevotes h)" "counted (precommit_ok tp h V) ps (ph_Precommits h)"
    using inv by (auto simp: ph_inv_def ph_votes_ok_def)
  have st: "ph_Proposal h \<noteq> Nil_ptr" "ph_Block h \<noteq> Nil_ptr" "has_mj23 (ph_Prevotes h)" "has_mj23 (ph_Precommits h)"
    using inv assms(2) by (auto simp: ph_inv_def ph_step_ok_def pyr_round_step_defs)
  obtain b p where b: "ph_Block h = Ptr b" "ph_Proposal h = Ptr p" using st by (meson ptr.exhaust)
  then have "pyr_Block_Hash (p_time tp) b = Ret (p_BlockHeaderHash p, b)" using inv by (auto simp: ph_inv_def ph_block_ok_def)
  moreover have "3 * tally vs ps (mj23_key vs) (mj23_code vs) > 2 * total_votes ps" if "vs_inv vs ps" "has_mj23 vs" for vs
    using that by (simp add: vs_inv_def)
  ultimately show ?thesis
    using b c st by (intro exI [of _ p] exI [of _ b] exI [of _ ps] exI [of _ V]) (auto simp: counted_def vs_GetMaj23_def)
qed

section \<open>Properties\<close>

text \<open>
  In every run, a node that has passed the precommit step holds a proposal, the block whose hash the
  proposal announces, and, for the prevotes and for the precommits, verified votes of this height and round
  from distinct validators with more than two thirds of the voting power for one hash and code.
\<close>

theorem pyr_commit_needs_quorum:
  assumes "ph_reach tp cid si h" "pyr_shard_ok si cid" "ph_PassStep h \<ge> RoundStepPrecommit"
  shows "\<exists>p b ps V. ph_Proposal h = Ptr p \<and> ph_Block h = Ptr b \<and> pyr_Block_Hash (p_time tp) b = Ret (p_BlockHeaderHash p, b) \<and>
     ph_committee h ps V \<and>
     (\<forall>i v. i < length ps \<longrightarrow> (votes (ph_Prevotes h) ! i = Ptr v \<longrightarrow> prevote_ok tp h V i v) \<and>
        (votes (ph_Precommits h) ! i = Ptr v \<longrightarrow> precommit_ok tp h V i v)) \<and>
     (\<exists>k ok. vs_GetMaj23 (ph_Prevotes h) = (k, ok) \<and> 3 * tally (ph_Prevotes h) ps k ok > 2 * total_votes ps) \<and>
     (\<exists>k ok. vs_GetMaj23 (ph_Precommits h) = (k, ok) \<and> 3 * tally (ph_Precommits h) ps k ok > 2 * total_votes ps)"
  using ph_reach_inv [OF assms(1,2)] assms(3) by (intro commit_quorum) auto

theorem pyr_commit_needs_quorum_witness:
  "\<exists>h b p. ph_reach demo_pyr_tp ''a'' demo_pyr_si h \<and> ph_Block h = Ptr b \<and> ph_Proposal h = Ptr p \<and>
     pyr_Block_Hash (\<lambda>t. Some [7]) b = Ret (p_BlockHeaderHash p, b)"
proof -
  obtain h where h: "ph_reach demo_pyr_tp ''a'' demo_pyr_si h" "ph_PassStep h = RoundStepPrecommit"
    using demo_pyr_run [of "replicate 32 0"] by auto
  from pyr_commit_needs_quorum [OF h(1) demo_pyr_shard(1)] h show ?thesis by (auto simp: demo_pyr_tp_def)
qed




end
