(* ===== verification/PyrBank.thy ===== *)
theory PyrBank
  imports Ledger PyrBlocks
begin

text \<open>
  Model of \<open>pyramid/abci/minibank/application.go\<close>: the banking application of the pyramid protocol. The
  databases (\<open>memdb.go\<close>) and transactions (\<open>types.go\<close>) are those of \<open>BankDB\<close> and \<open>Bank\<close>. Cross-shard
  transactions take two phases: \<open>AcceptCrossShard\<close> executes a block of a boundary shard and locks the
  written keys with their new values, \<open>AcceptCommitShard\<close> writes the locked values to the store or drops
  them. Every operation holds \<open>abciLock\<close>, so they run one after the other; console output is not
  modelled.
\<close>

section \<open>The application\<close>

record PApplication =
  blockDBConn :: kv
  DBConn :: kv
  pKeyRangeTree :: "string \<rightharpoonup> RangeTree"
  AllShardRangeTree :: "RangeTree ptr"
  p_IsI :: bool
  p_MyChainID :: string
  p_appStatus :: bytes
  p_LockedKeys :: "string \<rightharpoonup> 32 word"

definition pyr_NewApplication ::
  "kv \<Rightarrow> string \<Rightarrow> bool \<Rightarrow> RangeTree ptr \<Rightarrow> (string \<rightharpoonup> RangeTree) \<Rightarrow> kv \<Rightarrow> PApplication" where
  "pyr_NewApplication db chain_id isI keyRangeTree relatedTree block_db_conn =
     \<lparr>blockDBConn = block_db_conn, DBConn = db, pKeyRangeTree = relatedTree, AllShardRangeTree = keyRangeTree,
      p_IsI = isI, p_MyChainID = chain_id, p_appStatus = str_bytes ''minibank'', p_LockedKeys = Map.empty\<rparr>"

definition SetBlockStore :: "PApplication \<Rightarrow> kv \<Rightarrow> PApplication" where
  "SetBlockStore app bs = app\<lparr>blockDBConn := bs\<rparr>"

definition pyr_Commit :: "PApplication \<Rightarrow> bytes" where
  "pyr_Commit app = p_appStatus app"

text \<open>\<open>app.KeyRangeTree[chain]\<close>: a missing tree is nil.\<close>

definition shard_tree :: "PApplication \<Rightarrow> string \<Rightarrow> RangeTree ptr" where
  "shard_tree app chain = (case pKeyRangeTree app chain of None \<Rightarrow> Nil_ptr | Some t \<Rightarrow> Ptr t)"

section \<open>Locks\<close>

definition requireLock :: "PApplication \<Rightarrow> string \<Rightarrow> bool" where
  "requireLock app key = (case p_LockedKeys app key of Some _ \<Rightarrow> False | None \<Rightarrow> True)"

definition setLock :: "PApplication \<Rightarrow> string \<Rightarrow> 32 word \<Rightarrow> bool \<times> PApplication" where
  "setLock app key value =
     (case p_LockedKeys app key of
        Some _ \<Rightarrow> (False, app)
      | None \<Rightarrow> (True, app\<lparr>p_LockedKeys := (p_LockedKeys app)(key \<mapsto> value)\<rparr>))"

text \<open>\<open>None\<close> is a nil batch.\<close>

definition releaseLock :: "PApplication \<Rightarrow> string \<Rightarrow> batch option \<Rightarrow> DBError ptr \<times> PApplication \<times> batch option" where
  "releaseLock app key batch =
     (case p_LockedKeys app key of
        None \<Rightarrow> (Nil_ptr, app, batch)
      | Some value \<Rightarrow>
          (let app' = app\<lparr>p_LockedKeys := (p_LockedKeys app)(key := None)\<rparr>
           in case batch of
                None \<Rightarrow> (Nil_ptr, app', batch)
              | Some b \<Rightarrow> (let (e, b') = pbatch_Set b (str_bytes key) (Ptr (Uint32ToBytes value)) in (e, app', Some b'))))"

definition undoLock :: "PApplication \<Rightarrow> string \<Rightarrow> PApplication" where
  "undoLock app key = app\<lparr>p_LockedKeys := (p_LockedKeys app)(key := None)\<rparr>"

text \<open>Key sets are lists of distinct keys in iteration order. \<open>appendRWSet\<close> only fills the write set.\<close>

definition add_keys :: "string list \<Rightarrow> string list \<Rightarrow> string list" where
  "add_keys ks s = fold (\<lambda>k s. List.insert k s) ks s"

definition appendRWSet :: "pb_TransferTx \<Rightarrow> string list \<times> string list \<Rightarrow> string list \<times> string list" where
  "appendRWSet tx = (\<lambda>(readset, writeSet). (readset, add_keys (To tx) (add_keys (From tx) writeSet)))"

definition pyr_getRWSet :: "pb_TransferTx \<Rightarrow> string list \<times> string list" where
  "pyr_getRWSet tx = (let keys = add_keys (To tx) (add_keys (From tx) []) in (keys, keys))"

section \<open>Transactions\<close>

text \<open>The tag of a transfer: the two protocols number their messages differently.\<close>

definition pyr_TxTransfer :: "32 word" where "pyr_TxTransfer = 12"

datatype TxError = TxTooShort | NotATransfer | TxMalformed

definition unmarshalTransferTx :: "bank_lib \<Rightarrow> bytes \<Rightarrow> (TxError + pb_TransferTx) go" where
  "unmarshalTransferTx L tx =
     (if length tx < 4 then Ret (Inl TxTooShort)
      else do { txType \<leftarrow> BytesToUint32 (take 4 tx);
                if txType \<noteq> pyr_TxTransfer then Ret (Inl NotATransfer)
                else do { r \<leftarrow> NewTransferTxFromBytes L tx;
                          Ret (case r of Inl _ \<Rightarrow> Inl TxMalformed | Inr ptx \<Rightarrow> Inr ptx) } })"

definition CheckLock :: "bank_lib \<Rightarrow> PApplication \<Rightarrow> bytes \<Rightarrow> bool go" where
  "CheckLock L app tx =
     do { r \<leftarrow> unmarshalTransferTx L tx;
          Ret (case r of
                 Inl _ \<Rightarrow> True
               | Inr ptx \<Rightarrow> (let (rs, ws) = pyr_getRWSet ptx
                             in list_all (requireLock app) rs \<and> list_all (requireLock app) ws)) }"

text \<open>The loops of \<open>doTransfer\<close>: a balance that cannot be read counts as the initial one, unchecked.\<close>

fun pyr_read_froms ::
  "GetSetMemDB \<Rightarrow> (string \<Rightarrow> bool) \<Rightarrow> string list \<Rightarrow> 32 word list \<Rightarrow> MemoryDB \<Rightarrow> ((BankError + 32 word list) \<times> MemoryDB) go" where
  "pyr_read_froms G locked [] ms m = Ret (Inr [], m)"
| "pyr_read_froms G locked (fromKey # ks) ms m =
     (if locked fromKey then Ret (Inl KeyIsLocked, m)
      else do { (r, m1) \<leftarrow> g_Get G fromKey m;
                money \<leftarrow> go_index ms 0;
                case r of
                  Inl e \<Rightarrow>
                    do { (rest, m2) \<leftarrow> pyr_read_froms G locked ks (tl ms) m1;
                         Ret (map_sum id ((#) (initBalance - money)) rest, m2) }
                | Inr balance \<Rightarrow>
                    if balance < money then Ret (Inl NotEnough, m1)
                    else do { (rest, m2) \<leftarrow> pyr_read_froms G locked ks (tl ms) m1;
                              Ret (map_sum id ((#) (balance - money)) rest, m2) } })"

fun pyr_read_tos ::
  "GetSetMemDB \<Rightarrow> (string \<Rightarrow> bool) \<Rightarrow> string list \<Rightarrow> 32 word list \<Rightarrow> MemoryDB \<Rightarrow> ((BankError + 32 word list) \<times> MemoryDB) go" where
  "pyr_read_tos G locked [] ms m = Ret (Inr [], m)"
| "pyr_read_tos G locked (toKey # ks) ms m =
     (if locked toKey then Ret (Inl KeyIsLocked, m)
      else do { (r, m1) \<leftarrow> g_Get G toKey m;
                money \<leftarrow> go_index ms 0;
                (rest, m2) \<leftarrow> pyr_read_tos G locked ks (tl ms) m1;
                Ret (map_sum id ((#) ((case r of Inl _ \<Rightarrow> initBalance | Inr balance \<Rightarrow> balance) + money)) rest, m2) })"

definition pyr_doTransfer ::
  "GetSetMemDB \<Rightarrow> (string \<Rightarrow> bool) \<Rightarrow> pb_TransferTx \<Rightarrow> MemoryDB \<Rightarrow> (BankError ptr \<times> MemoryDB) go" where
  "pyr_doTransfer G locked tx m =
     (case ValidateTransferTx tx of
        Ptr e \<Rightarrow> Ret (Ptr e, m)
      | Nil_ptr \<Rightarrow>
          do { (rf, m1) \<leftarrow> pyr_read_froms G locked (From tx) (FromMoney tx) m;
               case rf of
                 Inl e \<Rightarrow> Ret (Ptr e, m1)
               | Inr fromBalance \<Rightarrow>
                   do { (rt, m2) \<leftarrow> pyr_read_tos G locked (To tx) (ToMoney tx) m1;
                        case rt of
                          Inl e \<Rightarrow> Ret (Ptr e, m2)
                        | Inr toBalance \<Rightarrow>
                            do { (e, m3) \<leftarrow> write_all G locked (zip (From tx) fromBalance) m2;
                                 case e of
                                   Ptr x \<Rightarrow> Ret (Ptr x, m3)
                                 | Nil_ptr \<Rightarrow> write_all G locked (zip (To tx) toBalance) m3 } } })"

definition pyr_execute :: "bank_lib \<Rightarrow> GetSetMemDB \<Rightarrow> (string \<Rightarrow> bool) \<Rightarrow> bytes \<Rightarrow> MemoryDB \<Rightarrow> (BankError ptr \<times> MemoryDB) go" where
  "pyr_execute L G locked txBytes m =
     (if length txBytes < 4 then Ret (Ptr ShortTx, m)
      else do { txType \<leftarrow> BytesToUint32 (take 4 txBytes);
                if txType = pyr_TxTransfer then
                  (case Unmarshal (transfer_codec L) (drop 4 txBytes) of
                     None \<Rightarrow> Ret (Ptr (TxUnmarshal (unmarshal_text L (drop 4 txBytes))), m)
                   | Some tx \<Rightarrow> pyr_doTransfer G locked tx m)
                else Ret (Ptr UndefinedTxType, m) })"

text \<open>The text of an error; the two with an empty text belong to insertions, which this application does not have.\<close>

fun pyr_error_text :: "bank_lib \<Rightarrow> BankError \<Rightarrow> string" where
  "pyr_error_text L OutOfShardRange = ''Out of shard range''"
| "pyr_error_text L (NotInCrossShardData key) =
     ''During the transaction, key='' @ key @ ''is read, but the cross-shard block is not provided''"
| "pyr_error_text L ShortTx = ''Given tx length less than 4, invalid format''"
| "pyr_error_text L (TxUnmarshal t) = t"
| "pyr_error_text L UndefinedTxType = ''ABCI Tx does not define a type''"
| "pyr_error_text L LengthMismatch = ''From/FromMoney and To/ToMoney have different lengths''"
| "pyr_error_text L EmptyTransfer = ''From/To is empty''"
| "pyr_error_text L MoneyMismatch = ''The sum of FromMoney and ToMoney is not equal''"
| "pyr_error_text L KeyIsLocked = ''Locked primary key accessed''"
| "pyr_error_text L NotEnough = ''Balance is not Enough''"
| "pyr_error_text L KeyAlreadyLocked = []"
| "pyr_error_text L KeyAlreadyExists = []"
| "pyr_error_text L (StoreError e) = store_text L e"

definition is_locked :: "PApplication \<Rightarrow> string \<Rightarrow> bool" where
  "is_locked app key = (case p_LockedKeys app key of Some _ \<Rightarrow> True | None \<Rightarrow> False)"

definition pyr_ValidateTx :: "bank_lib \<Rightarrow> PApplication \<Rightarrow> bytes \<Rightarrow> bool \<Rightarrow> bool go" where
  "pyr_ValidateTx L app txBytes isCrossShard =
     (if length txBytes < 4 then Ret False
      else if p_IsI app \<and> isCrossShard then Ret False
      else
        let rangeTree = (if p_IsI app \<or> isCrossShard then AllShardRangeTree app else shard_tree app (p_MyChainID app))
        in do { txType \<leftarrow> BytesToUint32 (take 4 txBytes);
                if txType = pyr_TxTransfer then
                  do { r \<leftarrow> unmarshalTransferTx L txBytes;
                       case r of
                         Inl _ \<Rightarrow> Ret False
                       | Inr tx \<Rightarrow> do { ok \<leftarrow> all_in_range rangeTree (From tx);
                                        if ok then all_in_range rangeTree (To tx) else Ret False } }
                else Ret False })"
section \<open>Inner-shard blocks\<close>

fun pyr_inner_txs ::
  "bank_lib \<Rightarrow> GetSetMemDB \<Rightarrow> (string \<Rightarrow> bool) \<Rightarrow> bytes list \<Rightarrow> MemoryDB \<Rightarrow> (ABCIExecutionReceipt list \<times> MemoryDB) go" where
  "pyr_inner_txs L G locked [] m = Ret ([], m)"
| "pyr_inner_txs L G locked (tx # txs) m =
     do { (err, m1) \<leftarrow> pyr_execute L G locked tx m;
          (rcs, m2) \<leftarrow> pyr_inner_txs L G locked txs (CommitWrite (is_nil err) m1);
          Ret ((case err of Nil_ptr \<Rightarrow> receipt CodeTypeOK [] | Ptr e \<Rightarrow> receipt CodeTypeAbort (pyr_error_text L e)) # rcs, m2) }"

text \<open>
  The operations on blocks return the response with its three counts, the application and the block,
  which storing it has hashed. Errors of the block store are ignored, those of writing balances panic.
\<close>

type_synonym pyr_result = "(pyr_Response \<times> int \<times> int \<times> int) \<times> PApplication \<times> Block"

definition pyr_store_block :: "bank_lib \<Rightarrow> pb_Block codec \<Rightarrow> PApplication \<Rightarrow> Block \<Rightarrow> (PApplication \<times> Block) go" where
  "pyr_store_block L c app block =
     do { (_, bs, block') \<leftarrow> pyr_SetBlockByHeight (lib_time L) c (blockDBConn app) (Height (b_Header block)) (ChainID (b_Header block)) block;
          Ret (app\<lparr>blockDBConn := bs\<rparr>, block') }"

definition ExecutionInnerShard :: "bank_lib \<Rightarrow> pb_Block codec \<Rightarrow> PApplication \<Rightarrow> Block \<Rightarrow> pyr_result go" where
  "ExecutionInnerShard L c app block =
     (if BlockType (b_Header block) \<noteq> BLOCKTYPE_InnerShard then Panic
      else
        let tree = shard_tree app (ChainID (b_Header block)); txs = BodyTxs (b_Body block)
        in do { (receipts, m) \<leftarrow> pyr_inner_txs L (range_db (DBConn app) tree) (is_locked app) txs NewMemoryDB;
                db' \<leftarrow> write_range tree m (DBConn app);
                (app', block') \<leftarrow> pyr_store_block L c (app\<lparr>DBConn := db'\<rparr>) block;
                Ret ((\<lparr>Receipts = receipts\<rparr>, int (length txs), 0, 0), app', block') })"

section \<open>Cross-shard blocks at the boundary shard\<close>

text \<open>The loop of \<open>FillData\<close>: what each transaction read becomes its data.\<close>

fun fill_txs :: "bank_lib \<Rightarrow> GetSetMemDB \<Rightarrow> (string \<Rightarrow> bool) \<Rightarrow> bytes list \<Rightarrow> MemoryDB \<Rightarrow> bytes list go" where
  "fill_txs L G locked [] m = Ret []"
| "fill_txs L G locked (tx # txs) m =
     do { (err, m1) \<leftarrow> pyr_execute L G locked tx m;
          let ok = is_nil err
          in do { bz \<leftarrow> CrossShardDataBytes L (if ok then GetReadSet m1 else []) ok;
                  csd \<leftarrow> fill_txs L G locked txs (CommitWrite ok m1);
                  Ret (bz # csd) } }"

definition FillData :: "bank_lib \<Rightarrow> PApplication \<Rightarrow> Block \<Rightarrow> Block go" where
  "FillData L app block =
     (if p_IsI app then Panic
      else do { csd \<leftarrow> fill_txs L (range_db (DBConn app) (AllShardRangeTree app)) (is_locked app)
                         (CrossShardTxs (b_CrossShardBody block)) NewMemoryDB;
                Ret (block\<lparr>b_CrossShardBody := (b_CrossShardBody block)\<lparr>CrossShardDatas := csd\<rparr>\<rparr>) })"

definition PreExecutionB :: "Block \<Rightarrow> ABCIPreExecutionResponseB" where
  "PreExecutionB block = \<lparr>pb_resp_Code = CodeTypeOK, pb_resp_CrossShardDatas = CrossShardDatas (b_CrossShardBody block)\<rparr>"

section \<open>Cross-shard blocks at an inner shard: the vote\<close>

fun collect_keys :: "bank_lib \<Rightarrow> bytes list \<Rightarrow> string list \<times> string list \<Rightarrow> (string list \<times> string list) option go" where
  "collect_keys L [] sets = Ret (Some sets)"
| "collect_keys L (tx # txs) sets =
     do { r \<leftarrow> unmarshalTransferTx L tx;
          case r of Inl _ \<Rightarrow> Ret None | Inr ptx \<Rightarrow> collect_keys L txs (appendRWSet ptx sets) }"

definition abort_I :: "string \<Rightarrow> pyr_ResponseI" where
  "abort_I msg = \<lparr>pi_resp_Code = CodeTypeAbort, BehaviorErrors = [msg]\<rparr>"

text \<open>
  The data of a transaction are checked and the transaction is executed on them; the loop runs over the
  transactions of the \<^emph>\<open>body\<close> (not the cross-shard ones) with the data of the cross-shard body. \<open>Some\<close>
  is an early return with its response.
\<close>

fun check_data ::
  "bank_lib \<Rightarrow> PApplication \<Rightarrow> bytes list \<Rightarrow> int \<Rightarrow> bytes list \<Rightarrow> MemoryDB \<Rightarrow> pyr_ResponseI option go" where
  "check_data L app datas i [] m = Ret None"
| "check_data L app datas i (tx # txs) m =
     do { bz \<leftarrow> go_index datas i;
          r \<leftarrow> NewCrossShardDataFromBytes L bz;
          case r of
            Inl _ \<Rightarrow> Ret (Some (abort_I ''Problem with cross-shard data!''))
          | Inr (csdb, ok) \<Rightarrow>
              do { (fresh, m1) \<leftarrow> data_fresh (DBConn app) (AllShardRangeTree app) csdb m;
                   if \<not> fresh then Ret (Some (abort_I (''Cross-shard data is stale ('' @ show_int i @ '')!'')))
                   else if ok then
                     do { (err, m2) \<leftarrow> pyr_execute L (cross_db csdb) (is_locked app) tx m1;
                          check_data L app datas (i + 1) txs (CommitWrite (is_nil err) m2) }
                   else check_data L app datas (i + 1) txs m1 } }"

definition pyr_PreExecutionI :: "bank_lib \<Rightarrow> PApplication \<Rightarrow> Block \<Rightarrow> pyr_ResponseI go" where
  "pyr_PreExecutionI L app block =
     (if BlockType (b_Header block) \<noteq> BLOCKTYPE_CrossShard then Panic
      else if \<not> p_IsI app then Panic
      else
        do { keys \<leftarrow> collect_keys L (CrossShardTxs (b_CrossShardBody block)) ([], []);
             case keys of
               None \<Rightarrow> Ret (abort_I ''There are non-serializable transactions'')
             | Some (readSet, writeSet) \<Rightarrow>
                 if \<not> list_all (requireLock app) readSet then Ret (abort_I ''Locked primary key accessed. Conflict!'')
                 else if \<not> list_all (requireLock app) writeSet then
                   Ret (abort_I (''Locked primary key accessed. Conflict!'' @ [CHR 0xEF, CHR 0xBC, CHR 0x81]))
                 else
                   do { r \<leftarrow> check_data L app (CrossShardDatas (b_CrossShardBody block)) 0 (BodyTxs (b_Body block)) NewMemoryDB;
                        Ret (case r of Some resp \<Rightarrow> resp | None \<Rightarrow> \<lparr>pi_resp_Code = CodeTypeOK, BehaviorErrors = []\<rparr>) } })"

section \<open>Cross-shard blocks at an inner shard: prepare\<close>

fun prepare_txs ::
  "bank_lib \<Rightarrow> (string \<Rightarrow> bool) \<Rightarrow> bytes list \<Rightarrow> int \<Rightarrow> bytes list \<Rightarrow> MemoryDB \<Rightarrow> (ABCIExecutionReceipt list \<times> MemoryDB) go" where
  "prepare_txs L locked datas i [] m = Ret ([], m)"
| "prepare_txs L locked datas i (tx # txs) m =
     do { bz \<leftarrow> go_index datas i;
          r \<leftarrow> NewCrossShardDataFromBytes L bz;
          (rc, m1) \<leftarrow>
            (case r of
               Inl err \<Rightarrow> Ret (receipt CodeTypeEncodingError (pyr_error_text L err), m)
             | Inr (csd, ok) \<Rightarrow>
                 if \<not> ok then Ret (receipt CodeTypeEncodingError [], m)
                 else
                   do { (err, m') \<leftarrow> pyr_execute L (cross_db csd) locked tx m;
                        Ret (case err of
                               Ptr e \<Rightarrow> receipt CodeTypeUnknownError (pyr_error_text L e)
                             | Nil_ptr \<Rightarrow> receipt CodeTypeOK [],
                             CommitWrite (is_nil err) m') });
          (rcs, m2) \<leftarrow> prepare_txs L locked datas (i + 1) txs m1;
          Ret (rc # rcs, m2) }"

text \<open>The keys of the transactions that were executed; a decoding error panics.\<close>

fun ok_keys :: "bank_lib \<Rightarrow> bytes list \<Rightarrow> ABCIExecutionReceipt list \<Rightarrow> string list \<times> string list \<Rightarrow> (string list \<times> string list) go" where
  "ok_keys L [] rcs sets = Ret sets"
| "ok_keys L (tx # txs) rcs sets =
     do { rc \<leftarrow> go_index rcs 0;
          if \<not> Receipt_IsOK rc then ok_keys L txs (tl rcs) sets
          else do { r \<leftarrow> unmarshalTransferTx L tx;
                    case r of Inl _ \<Rightarrow> Panic | Inr ptx \<Rightarrow> ok_keys L txs (tl rcs) (appendRWSet ptx sets) } }"

fun lock_keys :: "RangeTree ptr \<Rightarrow> string list \<Rightarrow> MemoryDB \<Rightarrow> PApplication \<Rightarrow> PApplication go" where
  "lock_keys rt [] m app = Ret app"
| "lock_keys rt (key # keys) m app =
     do { mine \<leftarrow> tree_search rt key;
          if \<not> mine then lock_keys rt keys m app
          else do { (r, m') \<leftarrow> MemoryDB_Get (DBConn app) key m;
                    case r of Inl _ \<Rightarrow> Panic | Inr u \<Rightarrow> lock_keys rt keys m' (snd (setLock app key u)) } }"

definition prepare :: "bank_lib \<Rightarrow> PApplication \<Rightarrow> Block \<Rightarrow> string \<Rightarrow> (ABCIExecutionReceipt list \<times> PApplication) go" where
  "prepare L app block chain_id =
     (let txs = CrossShardTxs (b_CrossShardBody block)
      in do { (receipts, m) \<leftarrow> prepare_txs L (is_locked app) (CrossShardDatas (b_CrossShardBody block)) 0 txs NewMemoryDB;
              (readSet, writeSet) \<leftarrow> ok_keys L txs receipts ([], []);
              app' \<leftarrow> lock_keys (shard_tree app chain_id) writeSet m app;
              Ret (receipts, app') })"

text \<open>The block is marked as received whether it is to be committed or not; the deferred function stores it.\<close>

definition AcceptCrossShard :: "bank_lib \<Rightarrow> pb_Block codec \<Rightarrow> PApplication \<Rightarrow> Block \<Rightarrow> string \<Rightarrow> bool \<Rightarrow> pyr_result go" where
  "AcceptCrossShard L c app block chain_id ifcommit =
     (if BlockType (b_Header block) \<noteq> BLOCKTYPE_CrossShard then Panic
      else
        do { (receipts, app1) \<leftarrow> (if ifcommit then prepare L app block chain_id else Ret ([], app));
             (hs, block1) \<leftarrow> pyr_Block_Hash (lib_time L) block;
             let app2 = app1\<lparr>blockDBConn := snd (SetState (blockDBConn app1) hs (Ptr (str_bytes ''ok'')))\<rparr>
             in do { (app3, block2) \<leftarrow> pyr_store_block L c app2 block1;
                     Ret ((\<lparr>Receipts = receipts\<rparr>, 1, 0, 0), app3, block2) } })"

section \<open>Cross-shard blocks at an inner shard: commit or abort\<close>

fun tx_keys :: "bank_lib \<Rightarrow> bytes list \<Rightarrow> string list \<times> string list \<Rightarrow> (string list \<times> string list) go" where
  "tx_keys L [] sets = Ret sets"
| "tx_keys L (tx # txs) sets =
     do { r \<leftarrow> unmarshalTransferTx L tx;
          tx_keys L txs (case r of Inl _ \<Rightarrow> sets | Inr ptx \<Rightarrow> appendRWSet ptx sets) }"

fun release_keys :: "RangeTree ptr \<Rightarrow> bool \<Rightarrow> string list \<Rightarrow> PApplication \<Rightarrow> batch \<Rightarrow> (PApplication \<times> batch) go" where
  "release_keys rt commit [] app b = Ret (app, b)"
| "release_keys rt commit (key # keys) app b =
     do { mine \<leftarrow> tree_search rt key;
          if \<not> mine then release_keys rt commit keys app b
          else if commit then
            (case releaseLock app key (Some b) of
               (_, app', Some b') \<Rightarrow> release_keys rt commit keys app' b'
             | (_, app', None) \<Rightarrow> release_keys rt commit keys app' b)
          else release_keys rt commit keys (undoLock app key) b }"

text \<open>One hash: a block that cannot be read, or that was not received here, is aborted.\<close>

definition finish_block ::
  "bank_lib \<Rightarrow> pb_Block codec \<Rightarrow> RangeTree ptr \<Rightarrow> bytes \<Rightarrow> bool go \<Rightarrow> PApplication \<Rightarrow> batch \<Rightarrow> (ABCIExecutionReceipt \<times> PApplication \<times> batch) go" where
  "finish_block L c rt hs commit app b =
     do { q \<leftarrow> NewBlockFromBytes c (case GetBlockByHash (blockDBConn app) hs of Inl _ \<Rightarrow> [] | Inr p \<Rightarrow> slice_bytes p);
          case q of
            Nil_ptr \<Rightarrow> Ret (receipt CodeTypeAbort [], app, b)
          | Ptr block \<Rightarrow>
              (case GetState (blockDBConn app) hs of
                 Inl _ \<Rightarrow> Ret (receipt CodeTypeAbort [], app, b)
               | Inr icommit \<Rightarrow>
                   if slice_bytes icommit \<noteq> str_bytes ''ok'' then Ret (receipt CodeTypeAbort [], app, b)
                   else
                     do { (_, writeSet) \<leftarrow> tx_keys L (CrossShardTxs (b_CrossShardBody block)) ([], []);
                          do_commit \<leftarrow> commit;
                          (app', b') \<leftarrow> release_keys rt do_commit writeSet app b;
                          Ret (receipt (if do_commit then CodeTypeOK else CodeTypeAbort) [], app', b') }) }"

fun finish_blocks ::
  "bank_lib \<Rightarrow> pb_Block codec \<Rightarrow> RangeTree ptr \<Rightarrow> bytes list \<Rightarrow> bool list \<Rightarrow> PApplication \<Rightarrow> batch
   \<Rightarrow> (ABCIExecutionReceipt list \<times> PApplication \<times> batch) go" where
  "finish_blocks L c rt [] commits app b = Ret ([], app, b)"
| "finish_blocks L c rt (hs # hashes) commits app b =
     do { (rc, app1, b1) \<leftarrow> finish_block L c rt hs (go_index commits 0) app b;
          (rcs, app2, b2) \<leftarrow> finish_blocks L c rt hashes (tl commits) app1 b1;
          Ret (rc # rcs, app2, b2) }"

definition AcceptCommitShard ::
  "bank_lib \<Rightarrow> pb_Block codec \<Rightarrow> PApplication \<Rightarrow> bytes list \<Rightarrow> bool list \<Rightarrow> string
   \<Rightarrow> ((pyr_Response \<times> int \<times> int \<times> int) \<times> PApplication) go" where
  "AcceptCommitShard L c app hashes commits chain_id =
     do { (receipts, app1, b) \<leftarrow> finish_blocks L c (shard_tree app chain_id) hashes commits app db_NewBatch;
          case pbatch_Write (DBConn app1) b of
            (Ptr _, _) \<Rightarrow> Panic
          | (Nil_ptr, db', _) \<Rightarrow> Ret ((\<lparr>Receipts = receipts\<rparr>, 1, 0, 0), app1\<lparr>DBConn := db'\<rparr>) }"

end
