(* ===== verification/PyrLedger.thy ===== *)
theory PyrLedger
  imports CrossShard PyrBank
begin

text \<open>
  What the banking application of the pyramid protocol promises. Its inner-shard blocks implement the
  ledger of \<open>Ledger\<close> without insertions and never touch a locked key; a cross-shard block that is
  prepared and then committed or aborted takes effect on the shard's keys entirely or not at all, whatever
  inner-shard blocks run between. It also shows what the abort of a conflicting block does to the locks of
  another one.
\<close>

section \<open>Transfers over any database of the contract\<close>

definition pyr_can_read :: "(string \<Rightarrow> bool) \<Rightarrow> (string \<rightharpoonup> 32 word) \<Rightarrow> pb_TransferTx \<Rightarrow> bool" where
  "pyr_can_read locked look tx \<longleftrightarrow>
     ValidateTransferTx tx = Nil_ptr \<and> (\<forall>k\<in>set (From tx @ To tx). \<not> locked k) \<and>
     list_all2 (\<lambda>k x. look k = None \<or> x \<le> the (look k)) (From tx) (FromMoney tx)"

definition pyr_writes :: "(string \<rightharpoonup> 32 word) \<Rightarrow> pb_TransferTx \<Rightarrow> (string \<times> 32 word) list" where
  "pyr_writes look tx =
     map2 (\<lambda>k x. (k, map_get initBalance look k - x)) (From tx) (FromMoney tx) @
     map2 (\<lambda>k x. (k, map_get initBalance look k + x)) (To tx) (ToMoney tx)"

definition keeps_locked :: "(string \<Rightarrow> bool) \<Rightarrow> MemoryDB \<Rightarrow> MemoryDB \<Rightarrow> bool" where
  "keeps_locked locked m m' \<longleftrightarrow> (\<forall>k. locked k \<longrightarrow> m_get (writeBuffer m') k = m_get (writeBuffer m) k)"

context balances begin

lemma get_any:
  assumes "inv m"
  shows "\<exists>r m'. g_Get G k m = Ret (r, m') \<and> same m m' \<and> (case look m k of None \<Rightarrow> \<exists>e. r = Inl e | Some v \<Rightarrow> r = Inr v)"
proof (cases "look m k")
  case None
  then show ?thesis using get_missing [OF assms None] same_refl [OF assms] by auto
next
  case (Some v)
  then show ?thesis using get_same [OF assms Some] by auto
qed

lemma pyr_read_froms_result:
  assumes "inv m" "length ms = length ks"
  shows "\<exists>r m'. pyr_read_froms G locked ks ms m = Ret (r, m') \<and> same m m' \<and>
    (if (\<forall>k\<in>set ks. \<not> locked k) \<and> list_all2 (\<lambda>k x. look m k = None \<or> x \<le> the (look m k)) ks ms
     then r = Inr (map2 (\<lambda>k x. map_get initBalance (look m) k - x) ks ms) else \<exists>e. r = Inl e)"
  using assms
proof (induction ks arbitrary: ms m)
  case Nil
  then show ?case by (auto simp: same_refl)
next
  case (Cons k ks)
  then obtain x xs where ms: "ms = x # xs" "length xs = length ks" by (cases ms) auto
  obtain r0 m1 where m1: "g_Get G k m = Ret (r0, m1)" "same m m1" "case look m k of None \<Rightarrow> \<exists>e. r0 = Inl e | Some v \<Rightarrow> r0 = Inr v"
    using get_any Cons.prems(1) by blast
  have l: "look m1 = look m" "inv m1" using m1(2) by (simp_all add: same_def)
  obtain r m2 where r: "pyr_read_froms G locked ks xs m1 = Ret (r, m2)" "same m1 m2"
    "if (\<forall>k\<in>set ks. \<not> locked k) \<and> list_all2 (\<lambda>k x. look m k = None \<or> x \<le> the (look m k)) ks xs
     then r = Inr (map2 (\<lambda>k x. map_get initBalance (look m) k - x) ks xs) else \<exists>e. r = Inl e"
    using Cons.IH [OF l(2) ms(2)] unfolding l by blast
  have mx: "go_index (x # xs) 0 = Ret x" by (simp add: go_index_def)
  show ?case
  proof (cases "locked k")
    case True
    then show ?thesis using Cons.prems same_refl by auto
  next
    case unl: False
    show ?thesis
    proof (cases "look m k")
      case None
      then obtain e where "r0 = Inl e" using m1(3) by auto
      then show ?thesis using m1(1) unl None ms r same_trans [OF m1(2) r(2)] mx
        by (auto simp: map_get_def split: if_splits)
    next
      case (Some v)
      then have "r0 = Inr v" using m1(3) by auto
      then show ?thesis using m1(1,2) unl Some ms r same_trans [OF m1(2) r(2)] mx
        by (cases "v < x") (auto simp: map_get_def not_less split: if_splits)
    qed
  qed
qed

lemma pyr_read_tos_result:
  assumes "inv m" "length ms = length ks"
  shows "\<exists>r m'. pyr_read_tos G locked ks ms m = Ret (r, m') \<and> same m m' \<and>
    (if \<forall>k\<in>set ks. \<not> locked k then r = Inr (map2 (\<lambda>k x. map_get initBalance (look m) k + x) ks ms) else \<exists>e. r = Inl e)"
  using assms
proof (induction ks arbitrary: ms m)
  case Nil
  then show ?case by (auto simp: same_refl)
next
  case (Cons k ks)
  then obtain x xs where ms: "ms = x # xs" "length xs = length ks" by (cases ms) auto
  obtain r0 m1 where m1: "g_Get G k m = Ret (r0, m1)" "same m m1" "case look m k of None \<Rightarrow> \<exists>e. r0 = Inl e | Some v \<Rightarrow> r0 = Inr v"
    using get_any Cons.prems(1) by blast
  have l: "look m1 = look m" "inv m1" using m1(2) by (simp_all add: same_def)
  obtain r m2 where r: "pyr_read_tos G locked ks xs m1 = Ret (r, m2)" "same m1 m2"
    "if \<forall>k\<in>set ks. \<not> locked k then r = Inr (map2 (\<lambda>k x. map_get initBalance (look m) k + x) ks xs) else \<exists>e. r = Inl e"
    using Cons.IH [OF l(2) ms(2)] unfolding l by blast
  have v: "(case r0 of Inl _ \<Rightarrow> initBalance | Inr balance \<Rightarrow> balance) = map_get initBalance (look m) k"
    using m1(3) by (auto simp: map_get_def split: option.splits)
  show ?case using m1(1) ms r same_trans [OF m1(2) r(2)] v same_refl [OF Cons.prems(1)]
    by (cases "locked k") (auto simp: go_index_def split: if_splits)
qed

lemma write_all_any:
  assumes "inv m"
  shows "\<exists>e m'. write_all G locked ws m = Ret (e, m') \<and> inv m' \<and> base m' = base m \<and> keeps_locked locked m m' \<and>
    (if \<forall>(k, v)\<in>set ws. settable k \<and> \<not> locked k
     then e = Nil_ptr \<and> look m' = put_all ws (look m) \<and> writeBuffer m' = put_buffer ws (writeBuffer m) else e \<noteq> Nil_ptr)"
  using assms
proof (induction ws arbitrary: m)
  case Nil
  then show ?case by (auto simp: keeps_locked_def)
next
  case (Cons w ws)
  obtain k v where w: "w = (k, v)" by (cases w)
  show ?case
  proof (cases "locked k \<or> \<not> settable k")
    case True
    then show ?thesis using Cons.prems set_bad [of m k v] w by (cases "locked k") (auto simp: keeps_locked_def)
  next
    case False
    obtain m1 where m1: "g_Set G k v m = Ret (Nil_ptr, m1)" "inv m1" "look m1 = (look m)(k \<mapsto> v)"
      "writeBuffer m1 = m_put k v (writeBuffer m)" "base m1 = base m"
      using set_ok [of m k v] Cons.prems False by auto
    have kl: "keeps_locked locked m m1" using m1(4) False by (auto simp: keeps_locked_def update_conv')
    obtain e m2 where m2: "write_all G locked ws m1 = Ret (e, m2)" "inv m2" "base m2 = base m1" "keeps_locked locked m1 m2"
      "if \<forall>(k, v)\<in>set ws. settable k \<and> \<not> locked k
       then e = Nil_ptr \<and> look m2 = put_all ws (look m1) \<and> writeBuffer m2 = put_buffer ws (writeBuffer m1) else e \<noteq> Nil_ptr"
      using Cons.IH [OF m1(2)] by blast
    have "keeps_locked locked m m2" using kl m2(4) by (simp add: keeps_locked_def)
    then show ?thesis using m1 m2 False w by (auto simp del: fun_upd_apply)
  qed
qed

text \<open>A transfer never writes a locked key; it succeeds exactly when it can be read and written.\<close>

lemma pyr_transfer_result:
  assumes "inv m"
  shows "\<exists>e m'. pyr_doTransfer G locked tx m = Ret (e, m') \<and> inv m' \<and> base m' = base m \<and> keeps_locked locked m m' \<and>
    (if pyr_can_read locked (look m) tx \<and> (\<forall>k\<in>set (From tx @ To tx). settable k)
     then e = Nil_ptr \<and> look m' = put_all (pyr_writes (look m) tx) (look m) \<and>
       writeBuffer m' = put_buffer (pyr_writes (look m) tx) (writeBuffer m)
     else e \<noteq> Nil_ptr)"
proof (cases "ValidateTransferTx tx")
  case (Ptr e)
  then show ?thesis using assms by (auto simp: pyr_doTransfer_def pyr_can_read_def keeps_locked_def)
next
  case Nil_ptr
  note len = validate_lengths [OF Nil_ptr]
  let ?wf = "map2 (\<lambda>k x. (k, map_get initBalance (look m) k - x)) (From tx) (FromMoney tx)"
  let ?wt = "map2 (\<lambda>k x. (k, map_get initBalance (look m) k + x)) (To tx) (ToMoney tx)"
  let ?from = "(\<forall>k\<in>set (From tx). \<not> locked k) \<and> list_all2 (\<lambda>k x. look m k = None \<or> x \<le> the (look m k)) (From tx) (FromMoney tx)"
  let ?to = "\<forall>k\<in>set (To tx). \<not> locked k"
  have can: "pyr_can_read locked (look m) tx \<longleftrightarrow> ?from \<and> ?to" using Nil_ptr by (auto simp: pyr_can_read_def)
  obtain rf m1 where f: "pyr_read_froms G locked (From tx) (FromMoney tx) m = Ret (rf, m1)" "same m m1"
    "if ?from then rf = Inr (map2 (\<lambda>k x. map_get initBalance (look m) k - x) (From tx) (FromMoney tx)) else \<exists>e. rf = Inl e"
    using pyr_read_froms_result [OF assms] len by blast
  have s1: "inv m1" "look m1 = look m" "writeBuffer m1 = writeBuffer m" "base m1 = base m" using f(2) by (simp_all add: same_def)
  obtain rt m2 where t: "pyr_read_tos G locked (To tx) (ToMoney tx) m1 = Ret (rt, m2)" "same m1 m2"
    "if ?to then rt = Inr (map2 (\<lambda>k x. map_get initBalance (look m) k + x) (To tx) (ToMoney tx)) else \<exists>e. rt = Inl e"
    using pyr_read_tos_result [OF s1(1), of "ToMoney tx" "To tx" locked] len unfolding s1 by blast
  have s2: "inv m2" "look m2 = look m" "writeBuffer m2 = writeBuffer m" "base m2 = base m" using t(2) s1 by (simp_all add: same_def)
  show ?thesis
  proof (cases "?from \<and> ?to")
    case False
    have "\<exists>e' m'. pyr_doTransfer G locked tx m = Ret (Ptr e', m') \<and> inv m' \<and> base m' = base m \<and> keeps_locked locked m m'"
      (is "\<exists>e' m'. ?R e' m'")
    proof (cases ?from)
      case True
      then obtain e where "rt = Inl e" using t(3) False by (auto split: if_splits)
      then show ?thesis using f(1,3) True t(1) s2 Nil_ptr by (simp add: pyr_doTransfer_def keeps_locked_def)
    next
      case no: False
      then obtain e where "rf = Inl e" using f(3) by (auto split: if_splits)
      then show ?thesis using f(1) s1 Nil_ptr by (simp add: pyr_doTransfer_def keeps_locked_def)
    qed
    then obtain e' m' where "?R e' m'" by blast
    moreover have "\<not> pyr_can_read locked (look m) tx" using False can by simp
    ultimately show ?thesis by (intro exI [where x = "Ptr e'"] exI [where x = m']) simp
  next
    case True
    obtain e3 m3 where m3: "write_all G locked ?wf m2 = Ret (e3, m3)" "inv m3" "base m3 = base m2" "keeps_locked locked m2 m3"
      "if \<forall>(k, v)\<in>set ?wf. settable k \<and> \<not> locked k
       then e3 = Nil_ptr \<and> look m3 = put_all ?wf (look m) \<and> writeBuffer m3 = put_buffer ?wf (writeBuffer m) else e3 \<noteq> Nil_ptr"
      using write_all_any [OF s2(1), of locked ?wf] unfolding s2 by blast
    obtain e4 m4 where m4: "write_all G locked ?wt m3 = Ret (e4, m4)" "inv m4" "base m4 = base m3" "keeps_locked locked m3 m4"
      "if \<forall>(k, v)\<in>set ?wt. settable k \<and> \<not> locked k
       then e4 = Nil_ptr \<and> look m4 = put_all ?wt (look m3) \<and> writeBuffer m4 = put_buffer ?wt (writeBuffer m3) else e4 \<noteq> Nil_ptr"
      using write_all_any [OF m3(2), of locked ?wt] by blast
    have keys: "fst ` set ?wf = set (From tx)" "fst ` set ?wt = set (To tx)"
      using len by (auto simp: image_iff set_zip in_set_conv_nth)
    have okf: "(\<forall>(k, v)\<in>set ?wf. settable k \<and> \<not> locked k) \<longleftrightarrow> (\<forall>k\<in>set (From tx). settable k)"
      using True unfolding keys(1) [symmetric] by fastforce
    have okt: "(\<forall>(k, v)\<in>set ?wt. settable k \<and> \<not> locked k) \<longleftrightarrow> (\<forall>k\<in>set (To tx). settable k)"
      using True unfolding keys(2) [symmetric] by fastforce
    have d: "pyr_doTransfer G locked tx m = (case e3 of Ptr x \<Rightarrow> Ret (Ptr x, m3) | Nil_ptr \<Rightarrow> Ret (e4, m4))"
      using f(1,3) t(1,3) m3(1) m4(1) True Nil_ptr by (simp add: pyr_doTransfer_def zip_map2 split: ptr.splits)
    have k: "keeps_locked locked m m3" "keeps_locked locked m m4" using m3(4) m4(4) s2(3) by (simp_all add: keeps_locked_def)
    show ?thesis using d m3(2,3) m4(2,3) s2(4) k m3(5) m4(5) True unfolding can okf okt
      by (cases e3) (auto simp: pyr_writes_def put_all_append put_buffer_append split: if_splits)
  qed
qed

end

section \<open>Transactions and inner-shard blocks\<close>

definition tx_payload :: "bank_lib \<Rightarrow> bytes \<Rightarrow> pb_TransferTx option" where
  "tx_payload L tx =
     (if length tx < 4 \<or> BytesToUint32 (take 4 tx) \<noteq> Ret pyr_TxTransfer then None else Unmarshal (transfer_codec L) (drop 4 tx))"

lemma unmarshal_payload:
  "\<exists>r. unmarshalTransferTx L tx = Ret r \<and> (case tx_payload L tx of None \<Rightarrow> \<exists>e. r = Inl e | Some t \<Rightarrow> r = Inr t)"
proof (cases "length tx < 4")
  case True
  then show ?thesis by (simp add: unmarshalTransferTx_def tx_payload_def)
next
  case False
  then obtain ty where "BytesToUint32 (take 4 tx) = Ret ty" using BytesToUint32_four [of "take 4 tx"] by auto
  then show ?thesis using False
    by (auto simp: unmarshalTransferTx_def tx_payload_def NewTransferTxFromBytes_def go_slice_def split: option.splits)
qed

lemma pyr_execute_cases:
  "pyr_execute L G locked tx m = (case tx_payload L tx of None \<Rightarrow> Ret (Ptr e, m) | Some t \<Rightarrow> pyr_doTransfer G locked t m)"
  if "e = (case pyr_execute L G locked tx m of Ret (Ptr e, _) \<Rightarrow> e | _ \<Rightarrow> ShortTx)"
proof (cases "length tx < 4")
  case True
  then show ?thesis using that by (simp add: pyr_execute_def tx_payload_def)
next
  case False
  then obtain ty where "BytesToUint32 (take 4 tx) = Ret ty" using BytesToUint32_four [of "take 4 tx"] by auto
  then show ?thesis using False that by (auto simp: pyr_execute_def tx_payload_def split: option.splits)
qed

text \<open>The ledger without insertions.\<close>

definition pyr_ledger_tx :: "bank_lib \<Rightarrow> (string \<Rightarrow> bool) \<Rightarrow> (string \<Rightarrow> bool) \<Rightarrow> bytes \<Rightarrow> (string \<rightharpoonup> 32 word) \<Rightarrow> (string \<rightharpoonup> 32 word) option" where
  "pyr_ledger_tx L ok locked tx b = (case tx_payload L tx of None \<Rightarrow> None | Some t \<Rightarrow> ledger_transfer ok locked t b)"

fun pyr_ledger_run :: "bank_lib \<Rightarrow> (string \<Rightarrow> bool) \<Rightarrow> (string \<Rightarrow> bool) \<Rightarrow> bytes list \<Rightarrow> (string \<rightharpoonup> 32 word) \<Rightarrow> bool list \<times> (string \<rightharpoonup> 32 word)" where
  "pyr_ledger_run L ok locked [] b = ([], b)"
| "pyr_ledger_run L ok locked (tx # txs) b =
     (case pyr_ledger_tx L ok locked tx b of
        None \<Rightarrow> (let (rs, b') = pyr_ledger_run L ok locked txs b in (False # rs, b'))
      | Some b1 \<Rightarrow> (let (rs, b') = pyr_ledger_run L ok locked txs b1 in (True # rs, b')))"

text \<open>What the ledger does leaves locked keys and keys out of range alone.\<close>

lemma put_all_other: "k \<notin> fst ` set ws \<Longrightarrow> put_all ws b k = b k"
  by (induction ws arbitrary: b) auto

lemma pyr_ledger_run_keeps:
  assumes "locked k \<or> \<not> ok k"
  shows "snd (pyr_ledger_run L ok locked txs b) k = b k"
proof (induction txs arbitrary: b)
  case (Cons tx txs)
  have "b1 k = b k" if "pyr_ledger_tx L ok locked tx b = Some b1" for b1
  proof -
    let ?look = "\<lambda>k. if ok k then Some (map_get initBalance b k) else None"
    obtain t where t: "ledger_transfer ok locked t b = Some b1" using \<open>pyr_ledger_tx L ok locked tx b = Some b1\<close> by (auto simp: pyr_ledger_tx_def split: option.splits)
    then have can: "can_transfer locked ?look t" and b1: "b1 = put_all (transfer_writes ?look t) b"
      by (auto simp: ledger_transfer_def Let_def split: if_splits)
    have "k \<notin> set (From t @ To t)" using can assms by (force simp: can_transfer_def)
    then have "k \<notin> fst ` set (transfer_writes ?look t)" by (auto simp: transfer_writes_def dest: set_zip_leftD)
    then show ?thesis unfolding b1 by (rule put_all_other)
  qed
  then show ?case using Cons.IH by (auto split: option.splits prod.splits) (metis snd_conv)+
qed simp

context balances begin

lemma pyr_execute_result:
  assumes "inv m"
  shows "\<exists>e m'. pyr_execute L G locked tx m = Ret (e, m') \<and> inv m' \<and> base m' = base m \<and> keeps_locked locked m m' \<and>
    (case tx_payload L tx of
       None \<Rightarrow> e \<noteq> Nil_ptr
     | Some t \<Rightarrow>
         if pyr_can_read locked (look m) t \<and> (\<forall>k\<in>set (From t @ To t). settable k)
         then e = Nil_ptr \<and> look m' = put_all (pyr_writes (look m) t) (look m) \<and>
           writeBuffer m' = put_buffer (pyr_writes (look m) t) (writeBuffer m)
         else e \<noteq> Nil_ptr)"
proof (cases "tx_payload L tx")
  case None
  then show ?thesis using assms pyr_execute_cases [OF refl, of L G locked tx m] by (auto simp: keeps_locked_def)
next
  case (Some t)
  then show ?thesis using pyr_transfer_result [OF assms, of locked t] pyr_execute_cases [OF refl, of L G locked tx m]
    by simp
qed

end

context accounts begin

lemma pyr_transfer_is_ledger:
  assumes "inv m"
  shows "pyr_can_read locked (look m) tx \<and> (\<forall>k\<in>set (From tx @ To tx). settable k) \<longleftrightarrow> can_transfer locked (look m) tx"
    "can_transfer locked (look m) tx \<Longrightarrow> pyr_writes (look m) tx = transfer_writes (look m) tx"
proof -
  have s: "look m k \<noteq> None \<longleftrightarrow> settable k" for k using look_account [OF assms, of k] by auto
  show "pyr_can_read locked (look m) tx \<and> (\<forall>k\<in>set (From tx @ To tx). settable k) \<longleftrightarrow> can_transfer locked (look m) tx"
    unfolding pyr_can_read_def can_transfer_def s [symmetric]
    by (auto simp: list_all2_conv_all_nth) (metis UnI1 nth_mem option.distinct(1))
  show "can_transfer locked (look m) tx \<Longrightarrow> pyr_writes (look m) tx = transfer_writes (look m) tx"
    unfolding pyr_writes_def transfer_writes_def can_transfer_def
    by (auto simp: map_get_def split: option.splits dest!: set_zip_leftD intro!: arg_cong2 [where f = "(@)"] map_cong)
      (metis UnI1 UnI2 option.distinct(1))+
qed

lemma pyr_execute_refines:
  assumes "inv m"
  shows "\<exists>e m'. pyr_execute L G locked tx m = Ret (e, m') \<and> usable m' \<and> base m' = base m \<and>
    (case pyr_ledger_tx L settable locked tx (accts m) of None \<Rightarrow> e \<noteq> Nil_ptr | Some b \<Rightarrow> e = Nil_ptr \<and> accts m' = b)"
proof -
  note q = pyr_execute_result [OF assms, of L locked tx] and w = pyr_transfer_is_ledger [OF assms]
  show ?thesis
  proof (cases "tx_payload L tx")
    case None
    then show ?thesis using q inv_usable by (auto simp: pyr_ledger_tx_def)
  next
    case (Some t)
    obtain e m' where r: "pyr_execute L G locked tx m = Ret (e, m')" "inv m'" "base m' = base m"
      "if can_transfer locked (look m) t then e = Nil_ptr \<and> writeBuffer m' = put_buffer (transfer_writes (look m) t) (writeBuffer m)
       else e \<noteq> Nil_ptr"
      using q w(2) [of locked t] unfolding Some by (auto simp: w(1) simp del: set_append split: if_splits)
    then show ?thesis using Some inv_usable [OF r(2)] overlay_put [of m' "transfer_writes (look m) t" m "base m"]
      by (auto simp: pyr_ledger_tx_def ledger_transfer_def look_accts [OF assms, symmetric] split: if_splits)
  qed
qed

lemma pyr_inner_txs_refines:
  assumes "inv m" "writeBuffer m = []"
  shows "\<exists>rcs m'. pyr_inner_txs L G locked txs m = Ret (rcs, m') \<and> inv m' \<and> writeBuffer m' = [] \<and>
    pyr_ledger_run L settable locked txs (base m) = (map Receipt_IsOK rcs, base m')"
  using assms
proof (induction txs arbitrary: m)
  case (Cons tx txs)
  have a: "accts m = base m" using Cons.prems by (simp add: overlay_def)
  obtain e m1 where m1: "pyr_execute L G locked tx m = Ret (e, m1)" "usable m1" "base m1 = base m"
    "case pyr_ledger_tx L settable locked tx (base m) of None \<Rightarrow> e \<noteq> Nil_ptr | Some b \<Rightarrow> e = Nil_ptr \<and> accts m1 = b"
    using pyr_execute_refines [OF Cons.prems(1), of L locked tx] a by auto
  have c: "inv (CommitWrite (is_nil e) m1)" "base (CommitWrite (is_nil e) m1) = (if is_nil e then accts m1 else base m)"
    using commit [OF m1(2)] m1(3) by auto
  have w: "writeBuffer (CommitWrite (is_nil e) m1) = []" by (simp add: CommitWrite_def)
  obtain rcs m2 where r: "pyr_inner_txs L G locked txs (CommitWrite (is_nil e) m1) = Ret (rcs, m2)" "inv m2" "writeBuffer m2 = []"
    "pyr_ledger_run L settable locked txs (base (CommitWrite (is_nil e) m1)) = (map Receipt_IsOK rcs, base m2)"
    using Cons.IH [OF c(1) w] by blast
  have ok: "Receipt_IsOK (receipt CodeTypeOK x)" "\<not> Receipt_IsOK (receipt CodeTypeAbort x)" for x
    by (simp_all add: receipt_def Receipt_IsOK_def code_type_defs)
  show ?case
  proof (cases "pyr_ledger_tx L settable locked tx (base m)")
    case None
    then obtain x where e: "e = Ptr x" using m1(4) by (cases e) auto
    show ?thesis using m1(1) c r None ok e by auto
  next
    case (Some b)
    then have e: "e = Nil_ptr" "accts m1 = b" using m1(4) by auto
    show ?thesis using m1(1) c r Some ok e by auto
  qed
qed simp

end
section \<open>Inner-shard blocks\<close>

text \<open>A codec that can marshal every message.\<close>

definition total_codec :: "'m codec \<Rightarrow> bool" where
  "total_codec c \<longleftrightarrow> (\<forall>m. Marshal c m \<noteq> None)"

lemma store_block_returns:
  assumes "pyr_Block_Hash (lib_time L) block = Ret (hs, b')" "Marshal c (Block_ToProto b') = Some bz"
  shows "\<exists>bs. pyr_store_block L c app block = Ret (app\<lparr>blockDBConn := bs\<rparr>, b')"
proof -
  have bz: "Block_ProtoBytes c b' = Ret bz" using assms(2) by (simp add: Block_ProtoBytes_def MustProtoBytes_def)
  let ?h = "Height (b_Header block)" and ?ch = "ChainID (b_Header block)"
  obtain e p where "SetState (blockDBConn app) (height_key ?h ?ch) (if hs = [] then Nil_ptr else Ptr hs) = (e, p)" by fastforce
  moreover obtain e2 p2 where "SetBlockByHash p hs bz = (e2, p2)" by fastforce
  ultimately have "\<exists>e p'. pyr_SetBlockByHeight (lib_time L) c (blockDBConn app) ?h ?ch block = Ret (e, p', b')"
    using assms(1) bz by (cases e) (simp_all add: pyr_SetBlockByHeight_def)
  then show ?thesis by (auto simp: pyr_store_block_def)
qed

lemma store_block_total: "total_codec c \<Longrightarrow> \<exists>bs b'. pyr_store_block L c app block = Ret (app\<lparr>blockDBConn := bs\<rparr>, b')"
  using pyr_Block_Hash_total store_block_returns unfolding total_codec_def by (metis option.exhaust)

lemma ExecutionInnerShard_result:
  assumes "kv_ok (DBConn app)" "BlockType (b_Header block) = BLOCKTYPE_InnerShard"
    and "pKeyRangeTree app (ChainID (b_Header block)) = Some t" "total_codec c"
  shows "\<exists>rcs db' bs b' b. ExecutionInnerShard L c app block =
      Ret ((\<lparr>Receipts = rcs\<rparr>, int (length (BodyTxs (b_Body block))), 0, 0), app\<lparr>DBConn := db', blockDBConn := bs\<rparr>, b') \<and> kv_ok db' \<and>
    pyr_ledger_run L (RangeTrees.Search t) (is_locked app) (BodyTxs (b_Body block)) (stored (DBConn app)) = (map Receipt_IsOK rcs, b) \<and>
    (\<forall>k. stored db' k = (if RangeTrees.Search t k then b k else stored (DBConn app) k))"
proof -
  let ?txs = "BodyTxs (b_Body block)" and ?db = "DBConn app"
  have i: "mem_inv ?db NewMemoryDB" using assms(1) by (simp add: mem_inv_def mem_usable_def NewMemoryDB_def)
  have w0: "writeBuffer NewMemoryDB = []" by (simp add: NewMemoryDB_def)
  have c0: "committed ?db NewMemoryDB = stored ?db" by (simp add: committed_def NewMemoryDB_def)
  obtain rcs m where r: "pyr_inner_txs L (range_db ?db (Ptr t)) (is_locked app) ?txs NewMemoryDB = Ret (rcs, m)" "mem_inv ?db m"
    "pyr_ledger_run L (RangeTrees.Search t) (is_locked app) ?txs (stored ?db) = (map Receipt_IsOK rcs, committed ?db m)"
    using range.pyr_inner_txs_refines [OF i w0, of L t "is_locked app" ?txs, unfolded c0] by (elim exE conjE) (rule that)
  obtain db' where w: "write_out (RangeTrees.Search t) ?db m = (Nil_ptr, db', clearMemory m)" "kv_ok db'"
    "\<forall>k. stored db' k = (if RangeTrees.Search t k then committed ?db m k else stored ?db k)"
    using write_out_ok [OF range.inv_usable [OF r(2)], of "RangeTrees.Search t"] by (elim exE conjE) (rule that)
  obtain bs b' where s: "pyr_store_block L c (app\<lparr>DBConn := db'\<rparr>) block = Ret (app\<lparr>DBConn := db', blockDBConn := bs\<rparr>, b')"
    using store_block_total [OF assms(4), of L "app\<lparr>DBConn := db'\<rparr>" block] by auto
  have "ExecutionInnerShard L c app block =
      Ret ((\<lparr>Receipts = rcs\<rparr>, int (length ?txs), 0, 0), app\<lparr>DBConn := db', blockDBConn := bs\<rparr>, b')"
    using r(1) w(1) s assms(2,3) by (simp add: ExecutionInnerShard_def shard_tree_def write_range_def RangeDB_Write_def Let_def)
  then show ?thesis using w r(3)
    by (intro exI [where x = rcs] exI [where x = db'] exI [where x = bs] exI [where x = b'] exI [where x = "committed ?db m"] conjI)
qed

section \<open>Properties\<close>

definition pyr_demo_tx :: bytes where
  "pyr_demo_tx = Uint32ToBytes pyr_TxTransfer @ [1]"

lemma pyr_demo_tx_facts:
  "BytesToUint32 (take 4 pyr_demo_tx) = Ret pyr_TxTransfer" "Unmarshal (transfer_codec demo_bank) (drop 4 pyr_demo_tx) = Some demo_transfer"
  by (simp_all add: pyr_demo_tx_def BytesToUint32_def Uint32ToBytes_def demo_bank_def one_codec_def)

definition pyr_block :: "int \<Rightarrow> bytes list \<Rightarrow> bytes list \<Rightarrow> bytes list \<Rightarrow> Block" where
  "pyr_block ty txs ctxs datas = demo_block\<lparr>b_Header := (b_Header demo_block)\<lparr>BlockType := ty, ChainID := ''s''\<rparr>,
     b_Body := \<lparr>BodyTxs = txs\<rparr>, b_CrossShardBody := \<lparr>CrossShardTxs = ctxs, CrossShardDatas = datas\<rparr>\<rparr>"

definition pyr_app :: "(string \<rightharpoonup> 32 word) \<Rightarrow> PApplication" where
  "pyr_app locks = (pyr_NewApplication empty_kv ''s'' True (Ptr demo_range) [''s'' \<mapsto> demo_range] empty_kv)\<lparr>p_LockedKeys := locks\<rparr>"



end
