(* ===== verification/PyrCommit.thy ===== *)
theory PyrCommit
  imports PyrLedger
begin

text \<open>
  The two phases of a cross-shard block in the pyramid application (\<open>AcceptCrossShard\<close> and
  \<open>AcceptCommitShard\<close> of \<open>pyramid/abci/minibank/application.go\<close>): what preparing a block locks, that the
  locked values survive inner-shard blocks, that committing writes exactly them and aborting nothing, and
  how the abort of a conflicting block releases the locks of another one.
\<close>

section \<open>Preparing\<close>

text \<open>What a transaction writes when it is executed on the data of its block; \<open>None\<close> when it is refused.\<close>

definition prepared :: "bank_lib \<Rightarrow> (string \<Rightarrow> bool) \<Rightarrow> bytes \<Rightarrow> bytes \<Rightarrow> (string \<times> 32 word) list option" where
  "prepared L locked tx bz =
     (case NewCrossShardDataFromBytes L bz of
        Ret (Inr (d, True)) \<Rightarrow>
          (case tx_payload L tx of
             None \<Rightarrow> None
           | Some t \<Rightarrow> if pyr_can_read locked (m_get d) t then Some (pyr_writes (m_get d) t) else None)
      | _ \<Rightarrow> None)"

fun new_balances :: "bank_lib \<Rightarrow> (string \<Rightarrow> bool) \<Rightarrow> (bytes \<times> bytes) list \<Rightarrow> (string \<rightharpoonup> 32 word) \<Rightarrow> string \<rightharpoonup> 32 word" where
  "new_balances L locked [] b = b"
| "new_balances L locked ((tx, bz) # rest) b =
     new_balances L locked rest (case prepared L locked tx bz of None \<Rightarrow> b | Some ws \<Rightarrow> put_all ws b)"

definition tx_keyset :: "bank_lib \<Rightarrow> bytes \<Rightarrow> string set" where
  "tx_keyset L tx = (case tx_payload L tx of None \<Rightarrow> {} | Some t \<Rightarrow> set (From t @ To t))"

lemma put_all_map_add: "put_all ws b = b ++ map_of (rev ws)"
  by (induction ws arbitrary: b) (auto simp: map_add_def fun_eq_iff split: option.splits)

lemma prepared_keys: "prepared L locked tx bz = Some ws \<Longrightarrow> fst ` set ws = tx_keyset L tx \<and> (\<forall>k\<in>tx_keyset L tx. \<not> locked k)"
proof -
  assume "prepared L locked tx bz = Some ws"
  then obtain d t where t: "tx_payload L tx = Some t" "pyr_can_read locked (m_get d) t" "ws = pyr_writes (m_get d) t"
    by (auto simp: prepared_def split: option.splits sum.splits bool.splits if_splits)
  then have len: "length (FromMoney t) = length (From t)" "length (ToMoney t) = length (To t)"
    using validate_lengths by (auto simp: pyr_can_read_def)
  have "map fst ws = From t @ To t" using len by (simp add: t(3) pyr_writes_def map_fst_zip_take comp_def split_def)
  then have "fst ` set ws = set (From t @ To t)" by (metis set_map)
  then show ?thesis using t by (simp add: tx_keyset_def pyr_can_read_def)
qed

lemma cross_pyr_execute:
  assumes "writeBuffer m = []" "NewCrossShardDataFromBytes L bz = Ret (Inr (d, True))"
  shows "\<exists>e m'. pyr_execute L (cross_db d) locked tx m = Ret (e, m') \<and> memDB m' = memDB m \<and>
    (case prepared L locked tx bz of None \<Rightarrow> e \<noteq> Nil_ptr | Some ws \<Rightarrow> e = Nil_ptr \<and> writeBuffer m' = put_buffer ws [])"
proof -
  have "cross_look d m = m_get d" using assms(1) by (simp add: cross_look_def overlay_def)
  then show ?thesis using cross.pyr_execute_result [where m = m and L = L and data = d and locked = locked and tx = tx] assms
    by (auto simp: prepared_def split: option.splits if_splits)
qed

lemma prepare_txs_result:
  assumes "writeBuffer m = []" "readBuffer m = []" "length txs \<le> length datas - i"
    and "\<forall>bz\<in>set datas. NewCrossShardDataFromBytes L bz \<noteq> Panic"
  shows "\<exists>rcs m'. prepare_txs L locked datas (int i) txs m = Ret (rcs, m') \<and> writeBuffer m' = [] \<and> readBuffer m' = [] \<and>
    list_all2 (\<lambda>rc (tx, bz). Receipt_IsOK rc \<longleftrightarrow> prepared L locked tx bz \<noteq> None) rcs (zip txs (drop i datas)) \<and>
    m_get (memDB m') = new_balances L locked (zip txs (drop i datas)) (m_get (memDB m))"
  using assms(1-3)
proof (induction txs arbitrary: i m)
  case (Cons tx txs)
  then have i: "i < length datas" by simp
  let ?bz = "datas ! i"
  have d: "drop i datas = ?bz # drop (Suc i) datas" using i by (simp add: Cons_nth_drop_Suc)
  obtain r where r: "NewCrossShardDataFromBytes L ?bz = Ret r" using assms(4) i by (metis nth_mem option.exhaust)
  have "\<exists>rc m1. writeBuffer m1 = [] \<and> readBuffer m1 = [] \<and> (Receipt_IsOK rc \<longleftrightarrow> prepared L locked tx ?bz \<noteq> None) \<and>
      m_get (memDB m1) = (case prepared L locked tx ?bz of None \<Rightarrow> m_get (memDB m) | Some ws \<Rightarrow> put_all ws (m_get (memDB m))) \<and>
      (\<forall>rcs m2. prepare_txs L locked datas (int i + 1) txs m1 = Ret (rcs, m2) \<longrightarrow>
        prepare_txs L locked datas (int i) (tx # txs) m = Ret (rc # rcs, m2))"
  proof (cases "\<exists>dt. r = Inr (dt, True)")
    case False
    then have n: "prepared L locked tx ?bz = None" using r by (auto simp: prepared_def split: sum.splits bool.splits)
    have "\<not> Receipt_IsOK (receipt CodeTypeEncodingError x)" for x by (simp add: receipt_def Receipt_IsOK_def code_type_defs)
    moreover have "\<exists>x. \<forall>rcs m2. prepare_txs L locked datas (int i + 1) txs m = Ret (rcs, m2) \<longrightarrow>
        prepare_txs L locked datas (int i) (tx # txs) m = Ret (receipt CodeTypeEncodingError x # rcs, m2)"
      using r False i by (cases r) auto
    ultimately show ?thesis using n Cons.prems by auto
  next
    case True
    then obtain dt where dt: "NewCrossShardDataFromBytes L ?bz = Ret (Inr (dt, True))" using r by blast
    obtain e m' where e: "pyr_execute L (cross_db dt) locked tx m = Ret (e, m')" "memDB m' = memDB m"
      "case prepared L locked tx ?bz of None \<Rightarrow> e \<noteq> Nil_ptr | Some ws \<Rightarrow> e = Nil_ptr \<and> writeBuffer m' = put_buffer ws []"
      using cross_pyr_execute [OF Cons.prems(1) dt, of locked tx] by blast
    have ok: "Receipt_IsOK (receipt CodeTypeOK x)" "\<not> Receipt_IsOK (receipt CodeTypeUnknownError x)" for x
      by (simp_all add: receipt_def Receipt_IsOK_def code_type_defs)
    have c: "writeBuffer (CommitWrite b m') = []" "readBuffer (CommitWrite b m') = []" for b by (simp_all add: CommitWrite_def)
    have st: "prepare_txs L locked datas (int i) (tx # txs) m =
        do { (rcs, m2) \<leftarrow> prepare_txs L locked datas (int i + 1) txs (CommitWrite (is_nil e) m');
             Ret ((case e of Ptr e \<Rightarrow> receipt CodeTypeUnknownError (pyr_error_text L e) | Nil_ptr \<Rightarrow> receipt CodeTypeOK []) # rcs, m2) }"
      using dt e(1) i by simp
    show ?thesis
    proof (cases "prepared L locked tx ?bz")
      case None
      then obtain x where "e = Ptr x" using e(3) by (cases e) auto
      moreover have "memDB (CommitWrite False m') = memDB m" by (simp add: CommitWrite_def e(2))
      ultimately show ?thesis using None st ok c
        by (intro exI [where x = "receipt CodeTypeUnknownError (pyr_error_text L x)"] exI [where x = "CommitWrite False m'"]) simp
    next
      case (Some ws)
      then have ex: "e = Nil_ptr" "writeBuffer m' = put_buffer ws []" using e(3) by auto
      have "m_get (memDB (CommitWrite True m')) = put_all ws (m_get (memDB m))"
        by (simp add: commit_puts ex(2) map_of_rev_put_buffer e(2) put_all_map_add)
      then show ?thesis using Some st ok c ex
        by (intro exI [where x = "receipt CodeTypeOK []"] exI [where x = "CommitWrite True m'"]) simp
    qed
  qed
  then obtain rc m1 where m1: "writeBuffer m1 = []" "readBuffer m1 = []" "Receipt_IsOK rc \<longleftrightarrow> prepared L locked tx ?bz \<noteq> None"
    "m_get (memDB m1) = (case prepared L locked tx ?bz of None \<Rightarrow> m_get (memDB m) | Some ws \<Rightarrow> put_all ws (m_get (memDB m)))"
    "\<And>rcs m2. prepare_txs L locked datas (int i + 1) txs m1 = Ret (rcs, m2) \<Longrightarrow>
      prepare_txs L locked datas (int i) (tx # txs) m = Ret (rc # rcs, m2)"
    by blast
  have ln: "length txs \<le> length datas - Suc i" using Cons.prems(3) i by simp
  obtain rcs m2 where "prepare_txs L locked datas (int (Suc i)) txs m1 = Ret (rcs, m2)" "writeBuffer m2 = []" "readBuffer m2 = []"
    "list_all2 (\<lambda>rc (tx, bz). Receipt_IsOK rc \<longleftrightarrow> prepared L locked tx bz \<noteq> None) rcs (zip txs (drop (Suc i) datas))"
    "m_get (memDB m2) = new_balances L locked (zip txs (drop (Suc i) datas)) (m_get (memDB m1))"
    using Cons.IH [OF m1(1,2) ln] by (elim exE conjE) (rule that)
  then show ?case using m1(3,4) m1(5) [of rcs m2] unfolding d by (auto simp: add.commute)
qed simp

text \<open>The keys of the executed transactions, and those of all transactions of a block.\<close>

lemma set_add_keys [simp]: "set (add_keys ks s) = set ks \<union> set s"
  unfolding add_keys_def by (induction ks arbitrary: s) auto

lemma ok_keys_result:
  assumes "length rcs = length txs" "\<forall>(tx, rc)\<in>set (zip txs rcs). Receipt_IsOK rc \<longrightarrow> tx_payload L tx \<noteq> None"
  shows "\<exists>ws'. ok_keys L txs rcs (rs, ws) = Ret (rs, ws') \<and>
    set ws' = set ws \<union> (\<Union>(tx, rc)\<in>set (zip txs rcs). if Receipt_IsOK rc then tx_keyset L tx else {})"
  using assms
proof (induction txs arbitrary: rcs ws)
  case (Cons tx txs)
  then obtain rc rest where rcs: "rcs = rc # rest" "length rest = length txs" by (cases rcs) auto
  have g: "go_index (rc # rest) 0 = Ret rc" by (simp add: go_index_def)
  show ?case
  proof (cases "Receipt_IsOK rc")
    case False
    then show ?thesis using Cons.IH [OF rcs(2), of ws] Cons.prems(2) g rcs by auto
  next
    case True
    then obtain t where t: "tx_payload L tx = Some t" using Cons.prems(2) rcs by auto
    then have u: "unmarshalTransferTx L tx = Ret (Inr t)" using unmarshal_payload [of L tx] by auto
    obtain ws' where "ok_keys L txs rest (rs, add_keys (To t) (add_keys (From t) ws)) = Ret (rs, ws')"
      "set ws' = set (add_keys (To t) (add_keys (From t) ws)) \<union> (\<Union>(tx, rc)\<in>set (zip txs rest). if Receipt_IsOK rc then tx_keyset L tx else {})"
      using Cons.IH [OF rcs(2)] Cons.prems(2) rcs by fastforce
    then show ?thesis using True t u g rcs by (auto simp: appendRWSet_def tx_keyset_def)
  qed
qed simp

lemma tx_keys_result: "\<exists>ws'. tx_keys L txs (rs, ws) = Ret (rs, ws') \<and> set ws' = set ws \<union> (\<Union>tx\<in>set txs. tx_keyset L tx)"
proof (induction txs arbitrary: ws)
  case (Cons tx txs)
  obtain r where r: "unmarshalTransferTx L tx = Ret r" "case tx_payload L tx of None \<Rightarrow> \<exists>e. r = Inl e | Some t \<Rightarrow> r = Inr t"
    using unmarshal_payload [of L tx] by blast
  show ?case
  proof (cases "tx_payload L tx")
    case None
    then show ?thesis using Cons.IH [of ws] r by (auto simp: tx_keyset_def)
  next
    case (Some t)
    then show ?thesis using Cons.IH [of "add_keys (To t) (add_keys (From t) ws)"] r by (auto simp: tx_keyset_def appendRWSet_def)
  qed
qed simp

lemma new_balances_dom:
  "dom (new_balances L locked zs b) = dom b \<union> (\<Union>(tx, bz)\<in>set zs. if prepared L locked tx bz \<noteq> None then tx_keyset L tx else {})"
proof (induction zs arbitrary: b)
  case (Cons z zs)
  obtain tx bz where z: "z = (tx, bz)" by (cases z)
  have d: "dom (put_all ws b) = dom b \<union> fst ` set ws" for ws by (auto simp: put_all_map_add dom_map_of_conv_image_fst)
  show ?case
  proof (cases "prepared L locked tx bz")
    case None
    then show ?thesis using Cons.IH [of b] z by auto
  next
    case (Some ws)
    then show ?thesis using Cons.IH [of "put_all ws b"] z prepared_keys [OF Some] d [of ws] by simp blast
  qed
qed simp

lemma new_balances_unlocked:
  assumes "new_balances L locked zs b k \<noteq> None" "b k = None"
  shows "\<not> locked k"
  using assms
proof (induction zs arbitrary: b)
  case (Cons z zs)
  obtain tx bz where z: "z = (tx, bz)" by (cases z)
  show ?case
  proof (cases "prepared L locked tx bz")
    case None
    then show ?thesis using Cons z by simp
  next
    case (Some ws)
    show ?thesis
    proof (cases "k \<in> fst ` set ws")
      case True
      then show ?thesis using prepared_keys [OF Some] by blast
    next
      case False
      then show ?thesis using Cons.IH [of "put_all ws b"] Cons.prems Some z put_all_other [of k ws b] by simp
    qed
  qed
qed simp

text \<open>Locking reads the new balances back from the memory database.\<close>

lemma lock_keys_result:
  assumes "writeBuffer m = []" "\<And>k v. m_get (readBuffer m) k = Some v \<Longrightarrow> m_get (memDB m) k = Some v"
    and "set keys \<subseteq> dom (m_get (memDB m))"
  shows "lock_keys (Ptr t) keys m app = Ret (app\<lparr>p_LockedKeys := (\<lambda>k.
      if k \<in> set keys \<and> RangeTrees.Search t k \<and> p_LockedKeys app k = None then m_get (memDB m) k else p_LockedKeys app k)\<rparr>)"
  using assms
proof (induction keys arbitrary: m app)
  case (Cons key keys)
  show ?case
  proof (cases "RangeTrees.Search t key")
    case False
    have "lock_keys (Ptr t) keys m app = Ret (app\<lparr>p_LockedKeys := (\<lambda>k.
      if k \<in> set keys \<and> RangeTrees.Search t k \<and> p_LockedKeys app k = None then m_get (memDB m) k else p_LockedKeys app k)\<rparr>)"
      using Cons.IH [of m app] Cons.prems by simp
    moreover have "(\<lambda>k. if k \<in> set keys \<and> RangeTrees.Search t k \<and> p_LockedKeys app k = None then m_get (memDB m) k else p_LockedKeys app k) =
       (\<lambda>k. if k \<in> set (key # keys) \<and> RangeTrees.Search t k \<and> p_LockedKeys app k = None then m_get (memDB m) k else p_LockedKeys app k)"
      using False by auto
    ultimately show ?thesis using False by (simp add: tree_search_def)
  next
    case True
    obtain v where v: "m_get (memDB m) key = Some v" using Cons.prems(3) by auto
    define m1 where "m1 = (case m_get (readBuffer m) key of Some _ \<Rightarrow> m | None \<Rightarrow> m\<lparr>readBuffer := m_put key v (readBuffer m)\<rparr>)"
    have g: "MemoryDB_Get (DBConn app) key m = Ret (Inr v, m1)"
      using Cons.prems(1,2) v by (auto simp: MemoryDB_Get_def m1_def split: option.splits)
    have m1: "writeBuffer m1 = []" "memDB m1 = memDB m" "\<And>k v. m_get (readBuffer m1) k = Some v \<Longrightarrow> m_get (memDB m) k = Some v"
      using Cons.prems(1,2) v by (auto simp: m1_def update_conv' split: option.splits if_splits)
    let ?app1 = "snd (setLock app key v)"
    have a1: "?app1 = app\<lparr>p_LockedKeys := (\<lambda>k. if k = key \<and> p_LockedKeys app k = None then Some v else p_LockedKeys app k)\<rparr>"
      by (auto simp: setLock_def fun_eq_iff split: option.splits intro!: PApplication.equality)
    have "lock_keys (Ptr t) keys m1 ?app1 = Ret (?app1\<lparr>p_LockedKeys := (\<lambda>k.
        if k \<in> set keys \<and> RangeTrees.Search t k \<and> p_LockedKeys ?app1 k = None then m_get (memDB m1) k else p_LockedKeys ?app1 k)\<rparr>)"
      by (rule Cons.IH) (use m1 Cons.prems(3) in \<open>auto\<close>)
    also have "\<dots> = Ret (app\<lparr>p_LockedKeys := (\<lambda>k.
        if k \<in> set (key # keys) \<and> RangeTrees.Search t k \<and> p_LockedKeys app k = None then m_get (memDB m) k else p_LockedKeys app k)\<rparr>)"
      using v True unfolding a1 m1(2)
      by (auto simp: fun_eq_iff intro!: arg_cong [where f = "\<lambda>f. app\<lparr>p_LockedKeys := f\<rparr>"])
    finally show ?thesis using True g by (simp add: tree_search_def)
  qed
qed simp
lemma prepare_result:
  assumes "shard_tree app chain = Ptr t" "length txs \<le> length datas"
    and "\<forall>bz\<in>set datas. NewCrossShardDataFromBytes L bz \<noteq> Panic"
    and "txs = CrossShardTxs (b_CrossShardBody block)" "datas = CrossShardDatas (b_CrossShardBody block)"
    and "new = new_balances L (is_locked app) (zip txs datas) Map.empty"
  shows "\<exists>rcs. prepare L app block chain = Ret (rcs, app\<lparr>p_LockedKeys :=
      (\<lambda>k. if RangeTrees.Search t k \<and> new k \<noteq> None then new k else p_LockedKeys app k)\<rparr>) \<and>
    list_all2 (\<lambda>rc (tx, bz). Receipt_IsOK rc \<longleftrightarrow> prepared L (is_locked app) tx bz \<noteq> None) rcs (zip txs datas)"
proof -
  let ?P = "\<lambda>tx bz. prepared L (is_locked app) tx bz \<noteq> None"
  obtain rcs m where r: "prepare_txs L (is_locked app) datas 0 txs NewMemoryDB = Ret (rcs, m)" "writeBuffer m = []" "readBuffer m = []"
    "list_all2 (\<lambda>rc (tx, bz). Receipt_IsOK rc \<longleftrightarrow> ?P tx bz) rcs (zip txs datas)" "m_get (memDB m) = new"
    using prepare_txs_result [of NewMemoryDB txs datas 0 L "is_locked app"] assms(2,3,6) by (auto simp: NewMemoryDB_def)
  have len: "length rcs = length txs" "length (zip txs datas) = length txs" using list_all2_lengthD [OF r(4)] assms(2) by auto
  have pl: "?P tx bz \<Longrightarrow> tx_payload L tx \<noteq> None" for tx bz
    by (auto simp: prepared_def split: option.splits sum.splits bool.splits)
  have ok: "Receipt_IsOK (rcs ! i) \<longleftrightarrow> ?P (txs ! i) (datas ! i)" if "i < length txs" for i
    using list_all2_nthD2 [OF r(4), of i] that len assms(2) by simp
  have pay: "\<forall>(tx, rc)\<in>set (zip txs rcs). Receipt_IsOK rc \<longrightarrow> tx_payload L tx \<noteq> None"
    using ok pl len by (auto simp: set_zip)
  obtain ws where ws: "ok_keys L txs rcs ([], []) = Ret ([], ws)"
    "set ws = (\<Union>(tx, rc)\<in>set (zip txs rcs). if Receipt_IsOK rc then tx_keyset L tx else {})"
    using ok_keys_result [OF len(1) pay, of "[]" "[]"] by auto
  have "dom new = (\<Union>(tx, bz)\<in>set (zip txs datas). if ?P tx bz then tx_keyset L tx else {})"
    using new_balances_dom [of L "is_locked app" "zip txs datas" Map.empty] assms(6) by simp
  also have "\<dots> = (\<Union>i\<in>{..<length txs}. if ?P (txs ! i) (datas ! i) then tx_keyset L (txs ! i) else {})"
  proof -
    have "set (zip txs datas) = (\<lambda>i. (txs ! i, datas ! i)) ` {..<length txs}" using assms(2) by (auto simp: set_zip)
    then show ?thesis by simp
  qed
  also have "\<dots> = (\<Union>i\<in>{..<length txs}. if Receipt_IsOK (rcs ! i) then tx_keyset L (txs ! i) else {})"
    using ok by (intro SUP_cong) simp_all
  also have "\<dots> = set ws"
  proof -
    have "set (zip txs rcs) = (\<lambda>i. (txs ! i, rcs ! i)) ` {..<length txs}" using len(1) by (auto simp: set_zip)
    then show ?thesis unfolding ws(2) by simp
  qed
  finally have d: "dom new = set ws" .
  have unl: "p_LockedKeys app k = None" if "new k \<noteq> None" for k
    using new_balances_unlocked [of L "is_locked app" "zip txs datas" Map.empty k] that assms(6)
    by (auto simp: is_locked_def split: option.splits)
  have "lock_keys (Ptr t) ws m app = Ret (app\<lparr>p_LockedKeys := (\<lambda>k.
      if k \<in> set ws \<and> RangeTrees.Search t k \<and> p_LockedKeys app k = None then m_get (memDB m) k else p_LockedKeys app k)\<rparr>)"
    by (rule lock_keys_result) (use r(2,3,5) d in auto)
  also have "(\<lambda>k. if k \<in> set ws \<and> RangeTrees.Search t k \<and> p_LockedKeys app k = None then m_get (memDB m) k else p_LockedKeys app k) =
      (\<lambda>k. if RangeTrees.Search t k \<and> new k \<noteq> None then new k else p_LockedKeys app k)"
    using unl d r(5) by (auto simp: fun_eq_iff)
  finally show ?thesis using r(1,4) ws(1) assms(1,4,5) by (simp add: prepare_def)
qed

section \<open>Receiving\<close>

text \<open>The block of a hash is readable and marked as received.\<close>

definition received :: "pb_Block codec \<Rightarrow> PApplication \<Rightarrow> bytes \<Rightarrow> bytes list \<Rightarrow> bool" where
  "received c app hs txs \<longleftrightarrow>
     GetState (blockDBConn app) hs = Inr (Ptr (str_bytes ''ok'')) \<and>
     (\<exists>bz blk. GetBlockByHash (blockDBConn app) hs = Inr (Ptr bz) \<and> NewBlockFromBytes c bz = Ret (Ptr blk) \<and>
        CrossShardTxs (b_CrossShardBody blk) = txs)"

lemma lock_keys_frame: "lock_keys rt ks m app = Ret app' \<Longrightarrow> \<exists>ls. app' = app\<lparr>p_LockedKeys := ls\<rparr>"
proof (induction ks arbitrary: m app)
  case Nil
  then show ?case by (intro exI [where x = "p_LockedKeys app"]) simp
next
  case (Cons k ks)
  have s: "\<exists>ls. snd (setLock app k u) = app\<lparr>p_LockedKeys := ls\<rparr>" for u
  proof (cases "p_LockedKeys app k")
    case None
    then show ?thesis by (auto simp: setLock_def)
  next
    case (Some v)
    then show ?thesis by (intro exI [where x = "p_LockedKeys app"]) (simp add: setLock_def)
  qed
  obtain mine where mine: "tree_search rt k = Ret mine" using Cons.prems by (auto split: bind_splits)
  show ?case
  proof (cases mine)
    case False
    then show ?thesis using Cons.IH Cons.prems mine by simp
  next
    case True
    obtain u m' where "lock_keys rt ks m' (snd (setLock app k u)) = Ret app'"
      using Cons.prems mine True by (auto split: bind_splits sum.splits)
    then obtain ls where "app' = (snd (setLock app k u))\<lparr>p_LockedKeys := ls\<rparr>" using Cons.IH by blast
    then show ?thesis using s [of u] by auto
  qed
qed

lemma prepare_frame: "prepare L app block chain = Ret (rcs, app') \<Longrightarrow> \<exists>ls. app' = app\<lparr>p_LockedKeys := ls\<rparr>"
  using lock_keys_frame by (auto simp: prepare_def Let_def split: bind_splits)

lemma AcceptCrossShard_frame:
  assumes "AcceptCrossShard L c app block chain ifcommit = Ret (resp, app', block')"
  shows "\<exists>ls bs. app' = app\<lparr>p_LockedKeys := ls, blockDBConn := bs\<rparr>"
proof -
  obtain rcs app1 bs where a: "(if ifcommit then prepare L app block chain else Ret ([], app)) = Ret (rcs, app1)"
    "app' = app1\<lparr>blockDBConn := bs\<rparr>"
    using assms by (auto simp: AcceptCrossShard_def Let_def pyr_store_block_def split: if_splits bind_splits)
  have "\<exists>ls. app1 = app\<lparr>p_LockedKeys := ls\<rparr>"
  proof (cases ifcommit)
    case True
    then show ?thesis using a(1) prepare_frame by auto
  next
    case False
    then show ?thesis using a(1) by (intro exI [where x = "p_LockedKeys app"]) simp
  qed
  then show ?thesis using a(2) by auto
qed

lemma AcceptCrossShard_store:
  assumes "AcceptCrossShard L c app block chain ifcommit = Ret (resp, app', block')" "hs = blockhash block'" "length hs = 32"
    and "\<forall>k. \<not> failing (blockDBConn app) k"
  shows "DBConn app' = DBConn app" "pKeyRangeTree app' = pKeyRangeTree app" "pyr_Block_Hash (lib_time L) block = Ret (hs, block')"
    "\<exists>bz. Block_ProtoBytes c block' = Ret bz \<and> blockDBConn app' = (blockDBConn app)\<lparr>contents := (contents (blockDBConn app))
       (toStateKey hs \<mapsto> str_bytes ''ok'', toStateKey (height_key (Height (b_Header block)) (ChainID (b_Header block))) \<mapsto> hs,
        toDataKey hs \<mapsto> bz)\<rparr>"
proof -
  obtain rcs app1 h1 b1 app3 where a: "(if ifcommit then prepare L app block chain else Ret ([], app)) = Ret (rcs, app1)"
    "pyr_Block_Hash (lib_time L) block = Ret (h1, b1)"
    "pyr_store_block L c (app1\<lparr>blockDBConn := snd (SetState (blockDBConn app1) h1 (Ptr (str_bytes ''ok'')))\<rparr>) b1 = Ret (app', block')"
    using assms(1) by (auto simp: AcceptCrossShard_def Let_def split: if_splits bind_splits)
  have "\<exists>ls. app1 = app\<lparr>p_LockedKeys := ls\<rparr>"
    using a(1) prepare_frame by (cases ifcommit) (auto intro: exI [where x = "p_LockedKeys app"])
  then have f1: "blockDBConn app1 = blockDBConn app" "DBConn app1 = DBConn app" "pKeyRangeTree app1 = pKeyRangeTree app"
    by auto
  show "DBConn app' = DBConn app" "pKeyRangeTree app' = pKeyRangeTree app"
    using a(3) f1 by (auto simp: pyr_store_block_def split: bind_splits)
  have i: "pyr_Block_Hash (lib_time L) b1 = Ret (h1, b1)" using pyr_Block_Hash_idem a(2) by blast
  note fr = pyr_Block_Hash_frame [OF a(2)]
  have b': "block' = b1" using a(3) i by (auto simp: pyr_store_block_def pyr_SetBlockByHeight_def Let_def split: bind_splits prod.splits ptr.splits)
  have h: "h1 = hs" using assms(2) fr(8) b' by simp
  let ?bs = "blockDBConn app"
  let ?p = "?bs\<lparr>contents := (contents ?bs)(toStateKey hs \<mapsto> str_bytes ''ok'')\<rparr>"
  have s0: "snd (SetState ?bs hs (Ptr (str_bytes ''ok''))) = ?p" using assms(4) by (simp add: SetState_def db_Set_def)
  have ne: "hs \<noteq> []" using assms(3) by auto
  let ?key = "height_key (Height (b_Header block)) (ChainID (b_Header block))"
  show "pyr_Block_Hash (lib_time L) block = Ret (hs, block')" using a(2) b' h by simp
  show "\<exists>bz. Block_ProtoBytes c block' = Ret bz \<and> blockDBConn app' = ?bs\<lparr>contents := (contents ?bs)
      (toStateKey hs \<mapsto> str_bytes ''ok'', toStateKey ?key \<mapsto> hs, toDataKey hs \<mapsto> bz)\<rparr>"
    using a(3) i ne assms(4) fr(4,5) b' unfolding h f1 s0
    by (auto simp: pyr_store_block_def pyr_SetBlockByHeight_def SetState_def db_Set_def SetBlockByHash_def store_Set_def split: bind_splits)
qed

lemma AcceptCrossShard_received:
  assumes "AcceptCrossShard L c app block chain ifcommit = Ret (resp, app', block')" "hs = blockhash block'" "length hs = 32"
    and "codec_ok c" "header_fits (b_Header block')" "hs \<noteq> height_key (Height (b_Header block)) (ChainID (b_Header block))"
    and "\<forall>k. \<not> failing (blockDBConn app) k"
  shows "received c app' hs (CrossShardTxs (b_CrossShardBody block))"
proof -
  note st = AcceptCrossShard_store [OF assms(1-3,7)]
  let ?key = "height_key (Height (b_Header block)) (ChainID (b_Header block))" and ?bs = "blockDBConn app"
  obtain bz where bz: "Block_ProtoBytes c block' = Ret bz" "blockDBConn app' = ?bs\<lparr>contents := (contents ?bs)
      (toStateKey hs \<mapsto> str_bytes ''ok'', toStateKey ?key \<mapsto> hs, toDataKey hs \<mapsto> bz)\<rparr>"
    using st(4) by blast
  have rd: "NewBlockFromBytes c bz = Ret (Ptr (block'\<lparr>blockhash := []\<rparr>))"
    using Block_bytes_roundtrip [OF assms(4,5) bz(1)] .
  have k: "toStateKey ?key \<noteq> toStateKey hs" using assms(6) by simp
  have d: "toDataKey hs \<noteq> toStateKey hs" using key_spaces_disjoint by metis
  show ?thesis
    unfolding received_def
    using rd k d assms(7) pyr_Block_Hash_frame(1) [OF st(3)]
    by (auto simp: bz(2) GetState_def GetBlockByHash_def store_Get_def db_Get_def)
qed

section \<open>Committing and aborting\<close>

text \<open>The keys of the shard that a list of keys releases.\<close>

abbreviation in_range :: "RangeTree \<Rightarrow> string list \<Rightarrow> string \<Rightarrow> bool" where
  "in_range t keys k \<equiv> k \<in> set keys \<and> RangeTrees.Search t k"

lemma release_keys_locks:
  "\<exists>ops'. release_keys (Ptr t) commit keys app (Some ops) =
     Ret (app\<lparr>p_LockedKeys := (\<lambda>k. if in_range t keys k then None else p_LockedKeys app k)\<rparr>, Some ops') \<and>
   (\<forall>c y. (\<forall>k. in_range t keys k \<longrightarrow> y \<noteq> toDataKey (str_bytes k)) \<longrightarrow> foldl apply_op c ops' y = foldl apply_op c ops y) \<and>
   (\<forall>c k. in_range t keys k \<longrightarrow> foldl apply_op c ops' (toDataKey (str_bytes k)) =
      (case if commit then p_LockedKeys app k else None of
         Some v \<Rightarrow> Some (Uint32ToBytes v)
       | None \<Rightarrow> foldl apply_op c ops (toDataKey (str_bytes k)))) \<and>
   (\<not> commit \<longrightarrow> ops' = ops)"
proof (induction keys arbitrary: app ops)
  case Nil
  show ?case by simp
next
  case (Cons key keys)
  show ?case
  proof (cases "RangeTrees.Search t key")
    case False
    have e: "in_range t (key # keys) k \<longleftrightarrow> in_range t keys k" for k using False by auto
    have s: "release_keys (Ptr t) commit (key # keys) app (Some ops) = release_keys (Ptr t) commit keys app (Some ops)"
      using False by (simp add: tree_search_def)
    show ?thesis unfolding e s by (rule Cons.IH)
  next
    case True
    define app1 where "app1 = app\<lparr>p_LockedKeys := (p_LockedKeys app)(key := None)\<rparr>"
    define ops1 where "ops1 = (case if commit then p_LockedKeys app key else None of
        Some v \<Rightarrow> ops @ [opTypeSet (toDataKey (str_bytes key)) (Uint32ToBytes v)] | None \<Rightarrow> ops)"
    have st: "release_keys (Ptr t) commit (key # keys) app (Some ops) = release_keys (Ptr t) commit keys app1 (Some ops1)"
    proof (cases "p_LockedKeys app key")
      case None
      then have "app1 = app" by (auto simp: app1_def fun_upd_idem)
      then show ?thesis using True None by (simp add: tree_search_def releaseLock_def undoLock_def ops1_def fun_upd_idem)
    next
      case (Some v)
      then show ?thesis using True
        by (simp add: tree_search_def releaseLock_def undoLock_def ops1_def app1_def pbatch_Set_def batch_Set_def Let_def)
    qed
    obtain ops' where r: "release_keys (Ptr t) commit keys app1 (Some ops1) =
         Ret (app1\<lparr>p_LockedKeys := (\<lambda>k. if in_range t keys k then None else p_LockedKeys app1 k)\<rparr>, Some ops')"
      "\<And>c y. (\<forall>k. in_range t keys k \<longrightarrow> y \<noteq> toDataKey (str_bytes k)) \<Longrightarrow> foldl apply_op c ops' y = foldl apply_op c ops1 y"
      "\<And>c k. in_range t keys k \<Longrightarrow> foldl apply_op c ops' (toDataKey (str_bytes k)) =
        (case if commit then p_LockedKeys app1 k else None of
           Some v \<Rightarrow> Some (Uint32ToBytes v) | None \<Rightarrow> foldl apply_op c ops1 (toDataKey (str_bytes k)))"
      "\<not> commit \<Longrightarrow> ops' = ops1"
      using Cons.IH [of app1 ops1] by blast
    have l: "app1\<lparr>p_LockedKeys := (\<lambda>k. if in_range t keys k then None else p_LockedKeys app1 k)\<rparr> =
        app\<lparr>p_LockedKeys := (\<lambda>k. if in_range t (key # keys) k then None else p_LockedKeys app k)\<rparr>"
      using True by (auto simp: app1_def fun_eq_iff intro!: arg_cong [where f = "\<lambda>f. app\<lparr>p_LockedKeys := f\<rparr>"])
    have o1: "foldl apply_op c ops1 y = (if commit \<and> y = toDataKey (str_bytes key) \<and> p_LockedKeys app key \<noteq> None
        then map_option Uint32ToBytes (p_LockedKeys app key) else foldl apply_op c ops y)" for c y
      by (auto simp: ops1_def split: option.splits)
    have "foldl apply_op c ops' y = foldl apply_op c ops y" if "\<forall>k. in_range t (key # keys) k \<longrightarrow> y \<noteq> toDataKey (str_bytes k)" for c y
      using r(2) [of y c] that o1 [of c y] True by auto
    moreover have "foldl apply_op c ops' (toDataKey (str_bytes k)) =
        (case if commit then p_LockedKeys app k else None of
           Some v \<Rightarrow> Some (Uint32ToBytes v) | None \<Rightarrow> foldl apply_op c ops (toDataKey (str_bytes k)))"
      if "in_range t (key # keys) k" for c k
    proof (cases "in_range t keys k")
      case True
      then show ?thesis using r(3) [OF True, of c] o1 [of c "toDataKey (str_bytes k)"]
        by (cases "k = key") (auto simp: app1_def str_bytes_inject split: option.splits)
    next
      case False
      then have k: "k = key" using that by auto
      have "foldl apply_op c ops' (toDataKey (str_bytes k)) = foldl apply_op c ops1 (toDataKey (str_bytes k))"
        using False by (intro r(2)) (auto simp: str_bytes_inject)
      then show ?thesis using o1 [of c "toDataKey (str_bytes k)"] k by (auto split: option.splits)
    qed
    moreover have "\<not> commit \<longrightarrow> ops' = ops" using r(4) by (auto simp: ops1_def)
    ultimately show ?thesis using st r(1) unfolding l by (intro exI [where x = ops'] conjI allI impI) (simp_all only: simp_thms)
  qed
qed

definition block_keys :: "bank_lib \<Rightarrow> bytes list \<Rightarrow> string set" where
  "block_keys L txs = (\<Union>tx\<in>set txs. tx_keyset L tx)"

text \<open>One received block: its keys of the shard are released, and on commit the locked values are written.\<close>

lemma AcceptCommitShard_one:
  assumes "received c app hs txs" "shard_tree app chain = Ptr t" "kv_ok (DBConn app)"
  shows "\<exists>db'. AcceptCommitShard L c app [hs] [commit] chain =
      Ret ((\<lparr>Receipts = [receipt (if commit then CodeTypeOK else CodeTypeAbort) []]\<rparr>, 1, 0, 0),
        app\<lparr>p_LockedKeys := (\<lambda>k. if k \<in> block_keys L txs \<and> RangeTrees.Search t k then None else p_LockedKeys app k), DBConn := db'\<rparr>) \<and>
    kv_ok db' \<and>
    (\<forall>k. stored db' k = (if commit \<and> k \<in> block_keys L txs \<and> RangeTrees.Search t k \<and> p_LockedKeys app k \<noteq> None
                         then p_LockedKeys app k else stored (DBConn app) k))"
proof -
  obtain bz blk where rc: "GetState (blockDBConn app) hs = Inr (Ptr (str_bytes ''ok''))" "GetBlockByHash (blockDBConn app) hs = Inr (Ptr bz)"
    "NewBlockFromBytes c bz = Ret (Ptr blk)" "CrossShardTxs (b_CrossShardBody blk) = txs"
    using assms(1) by (auto simp: received_def)
  obtain ws where ws: "tx_keys L txs ([], []) = Ret ([], ws)" "set ws = block_keys L txs"
    using tx_keys_result [of L txs "[]" "[]"] by (auto simp: block_keys_def)
  obtain ops where r: "release_keys (Ptr t) commit ws app (Some []) =
       Ret (app\<lparr>p_LockedKeys := (\<lambda>k. if in_range t ws k then None else p_LockedKeys app k)\<rparr>, Some ops)"
    "\<And>c y. (\<forall>k. in_range t ws k \<longrightarrow> y \<noteq> toDataKey (str_bytes k)) \<Longrightarrow> foldl apply_op c ops y = c y"
    "\<And>c k. in_range t ws k \<Longrightarrow> foldl apply_op c ops (toDataKey (str_bytes k)) =
        (case if commit then p_LockedKeys app k else None of Some v \<Rightarrow> Some (Uint32ToBytes v) | None \<Rightarrow> c (toDataKey (str_bytes k)))"
    using release_keys_locks [of t commit ws app "[]", unfolded foldl_Nil] by blast
  let ?db = "DBConn app"
  let ?db' = "?db\<lparr>contents := foldl apply_op (contents ?db) ops\<rparr>"
  have fin: "finish_block L c (Ptr t) hs (go_index [commit] 0) app (Some []) =
      Ret (receipt (if commit then CodeTypeOK else CodeTypeAbort) [],
        app\<lparr>p_LockedKeys := (\<lambda>k. if in_range t ws k then None else p_LockedKeys app k)\<rparr>, Some ops)"
    using rc ws(1) r(1) by (simp add: finish_block_def slice_bytes_def go_index_def)
  have nf: "\<not> list_ex (failing ?db \<circ> op_key) ops" using assms(3) by (simp add: kv_ok_def list_ex_iff)
  have acc: "AcceptCommitShard L c app [hs] [commit] chain =
      Ret ((\<lparr>Receipts = [receipt (if commit then CodeTypeOK else CodeTypeAbort) []]\<rparr>, 1, 0, 0),
        app\<lparr>p_LockedKeys := (\<lambda>k. if in_range t ws k then None else p_LockedKeys app k), DBConn := ?db'\<rparr>)"
    using fin nf assms(2) by (simp add: AcceptCommitShard_def db_NewBatch_def pbatch_Write_def batch_Write_def)
  have cnt: "contents ?db' (toDataKey (str_bytes k)) =
      (if commit \<and> in_range t ws k \<and> p_LockedKeys app k \<noteq> None then map_option Uint32ToBytes (p_LockedKeys app k)
       else contents ?db (toDataKey (str_bytes k)))" for k
  proof (cases "in_range t ws k")
    case True
    then show ?thesis using r(3) [OF True, of "contents ?db"] by (auto split: option.splits)
  next
    case False
    then show ?thesis using r(2) [of "toDataKey (str_bytes k)" "contents ?db"] by (auto simp: str_bytes_inject)
  qed
  have b: "BytesToUint32 (Uint32ToBytes v) = Ret v" for v by (simp add: BytesToUint32_def Uint32ToBytes_def)
  have st: "stored ?db' k = (if commit \<and> in_range t ws k \<and> p_LockedKeys app k \<noteq> None then p_LockedKeys app k else stored ?db k)" for k
    unfolding stored_def cnt by (auto simp: b)
  have l: "length (Uint32ToBytes v) = 4" for v by (simp add: Uint32ToBytes_def)
  have ok: "kv_ok ?db'" unfolding kv_ok_def
  proof (intro conjI allI impI)
    fix x show "\<not> failing ?db' x" using assms(3) by (simp add: kv_ok_def)
  next
    fix x v assume "contents ?db' (toDataKey x) = Some v"
    then show "length v = 4" using cnt [of "bytes_str x"] assms(3) l by (auto simp: kv_ok_def split: if_splits)
  qed
  show ?thesis using acc st ok unfolding ws(2) by (intro exI [where x = ?db'] conjI allI) (simp_all only: conj_assoc)
qed
section \<open>Inner-shard blocks between the phases\<close>

lemma ExecutionInnerShard_frame:
  assumes "ExecutionInnerShard L c app block = Ret (r, app', b')" "kv_ok (DBConn app)"
    and "pKeyRangeTree app (ChainID (b_Header block)) = Some t"
  shows "kv_ok (DBConn app')" "p_LockedKeys app' = p_LockedKeys app" "pKeyRangeTree app' = pKeyRangeTree app"
    "\<And>k. is_locked app k \<Longrightarrow> stored (DBConn app') k = stored (DBConn app) k"
proof -
  let ?txs = "BodyTxs (b_Body block)" and ?db = "DBConn app"
  have i: "mem_inv ?db NewMemoryDB" using assms(2) by (simp add: mem_inv_def mem_usable_def NewMemoryDB_def)
  have w0: "writeBuffer NewMemoryDB = []" by (simp add: NewMemoryDB_def)
  have c0: "committed ?db NewMemoryDB = stored ?db" by (simp add: committed_def NewMemoryDB_def)
  obtain rcs m where q: "pyr_inner_txs L (range_db ?db (Ptr t)) (is_locked app) ?txs NewMemoryDB = Ret (rcs, m)" "mem_inv ?db m"
    "pyr_ledger_run L (RangeTrees.Search t) (is_locked app) ?txs (stored ?db) = (map Receipt_IsOK rcs, committed ?db m)"
    using range.pyr_inner_txs_refines [OF i w0, of L t "is_locked app" ?txs, unfolded c0] by (elim exE conjE) (rule that)
  obtain db' where w: "write_out (RangeTrees.Search t) ?db m = (Nil_ptr, db', clearMemory m)" "kv_ok db'"
    "\<forall>k. stored db' k = (if RangeTrees.Search t k then committed ?db m k else stored ?db k)"
    using write_out_ok [OF range.inv_usable [OF q(2)], of "RangeTrees.Search t"] by (elim exE conjE) (rule that)
  obtain bs where a: "app' = app\<lparr>DBConn := db', blockDBConn := bs\<rparr>"
    using assms(1,3) q(1) w(1)
    by (auto simp: ExecutionInnerShard_def shard_tree_def write_range_def RangeDB_Write_def Let_def pyr_store_block_def split: if_splits bind_splits)
  show "kv_ok (DBConn app')" "p_LockedKeys app' = p_LockedKeys app" "pKeyRangeTree app' = pKeyRangeTree app"
    using a w(2) by simp_all
  show "stored (DBConn app') k = stored (DBConn app) k" if "is_locked app k" for k
    using a w(3) pyr_ledger_run_keeps [of "is_locked app" k "RangeTrees.Search t" L ?txs "stored ?db"] q(3) that by simp
qed

text \<open>A run of inner-shard blocks.\<close>

fun run_inner :: "bank_lib \<Rightarrow> pb_Block codec \<Rightarrow> Block list \<Rightarrow> PApplication \<Rightarrow> PApplication go" where
  "run_inner L c [] app = Ret app"
| "run_inner L c (b # bs) app = do { (_, app', _) \<leftarrow> ExecutionInnerShard L c app b; run_inner L c bs app' }"

lemma run_inner_frame:
  assumes "run_inner L c bs app = Ret app'" "kv_ok (DBConn app)" "\<forall>b\<in>set bs. pKeyRangeTree app (ChainID (b_Header b)) \<noteq> None"
  shows "kv_ok (DBConn app') \<and> p_LockedKeys app' = p_LockedKeys app \<and> pKeyRangeTree app' = pKeyRangeTree app \<and>
    (\<forall>k. is_locked app k \<longrightarrow> stored (DBConn app') k = stored (DBConn app) k)"
  using assms
proof (induction bs arbitrary: app)
  case (Cons b bs)
  obtain r app1 b1 where e: "ExecutionInnerShard L c app b = Ret (r, app1, b1)" "run_inner L c bs app1 = Ret app'"
    using Cons.prems(1) by (auto split: bind_splits)
  obtain t where "pKeyRangeTree app (ChainID (b_Header b)) = Some t" using Cons.prems(3) by auto
  note f = ExecutionInnerShard_frame [OF e(1) Cons.prems(2) this]
  have "is_locked app1 = is_locked app" by (simp add: is_locked_def f(2) fun_eq_iff)
  then show ?case using Cons.IH [OF e(2) f(1)] Cons.prems(3) f by simp
qed simp

lemma AcceptCrossShard_locks:
  assumes "AcceptCrossShard L c app block chain True = Ret (resp, app', block')" "shard_tree app chain = Ptr t"
    and "length (CrossShardTxs (b_CrossShardBody block)) \<le> length (CrossShardDatas (b_CrossShardBody block))"
    and "\<forall>bz\<in>set (CrossShardDatas (b_CrossShardBody block)). NewCrossShardDataFromBytes L bz \<noteq> Panic"
    and "new = new_balances L (is_locked app)
      (zip (CrossShardTxs (b_CrossShardBody block)) (CrossShardDatas (b_CrossShardBody block))) Map.empty"
  shows "p_LockedKeys app' = (\<lambda>k. if RangeTrees.Search t k \<and> new k \<noteq> None then new k else p_LockedKeys app k)"
    "DBConn app' = DBConn app" "pKeyRangeTree app' = pKeyRangeTree app"
proof -
  obtain rcs where r: "prepare L app block chain = Ret (rcs, app\<lparr>p_LockedKeys :=
      (\<lambda>k. if RangeTrees.Search t k \<and> new k \<noteq> None then new k else p_LockedKeys app k)\<rparr>)"
    using prepare_result [OF assms(2-4) refl refl assms(5)] by blast
  then have "\<exists>bs. app' = app\<lparr>p_LockedKeys := (\<lambda>k. if RangeTrees.Search t k \<and> new k \<noteq> None then new k else p_LockedKeys app k), blockDBConn := bs\<rparr>"
    using assms(1) by (auto simp: AcceptCrossShard_def Let_def pyr_store_block_def split: if_splits bind_splits)
  then show "p_LockedKeys app' = (\<lambda>k. if RangeTrees.Search t k \<and> new k \<noteq> None then new k else p_LockedKeys app k)"
    "DBConn app' = DBConn app" "pKeyRangeTree app' = pKeyRangeTree app" by auto
qed

lemma new_balances_in_block:
  assumes "new_balances L locked (zip txs datas) Map.empty k \<noteq> None"
  shows "k \<in> block_keys L txs"
proof -
  have "k \<in> dom (new_balances L locked (zip txs datas) Map.empty)" using assms by auto
  then have "\<exists>(tx, bz)\<in>set (zip txs datas). k \<in> tx_keyset L tx"
    using new_balances_dom [of L locked "zip txs datas" Map.empty] by (fastforce split: if_splits)
  then show ?thesis by (auto simp: block_keys_def dest: set_zip_leftD)
qed
section \<open>Properties\<close>

text \<open>C5: a cross-shard block takes effect on the shard's keys entirely or not at all: when none of its keys was
  locked before (what the vote requires), preparing it, running any inner-shard blocks and then committing
  it sets exactly the shard's keys to the values that executing its transactions on the data of the block
  gives, aborting it changes no balance, in between none of these keys has changed, and afterwards the locks
  are those of before.\<close>

theorem cross_shard_two_phase:
  assumes "AcceptCrossShard L c app block chain True = Ret (resp, app1, block1)" "pKeyRangeTree app chain = Some t" "kv_ok (DBConn app)"
    and "txs = CrossShardTxs (b_CrossShardBody block)" "datas = CrossShardDatas (b_CrossShardBody block)" "length txs \<le> length datas"
    and "\<forall>bz\<in>set datas. NewCrossShardDataFromBytes L bz \<noteq> Panic" "\<forall>k\<in>block_keys L txs. p_LockedKeys app k = None"
    and "run_inner L c inner app1 = Ret app2" "\<forall>b\<in>set inner. pKeyRangeTree app (ChainID (b_Header b)) \<noteq> None"
    and "received c app2 (blockhash block1) txs" "new = new_balances L (is_locked app) (zip txs datas) Map.empty"
  shows "\<exists>resp' app3. AcceptCommitShard L c app2 [blockhash block1] [commit] chain = Ret (resp', app3) \<and>
    (\<forall>k. stored (DBConn app3) k = (if commit \<and> RangeTrees.Search t k \<and> new k \<noteq> None then new k else stored (DBConn app2) k)) \<and>
    (\<forall>k. RangeTrees.Search t k \<and> new k \<noteq> None \<longrightarrow> stored (DBConn app2) k = stored (DBConn app) k) \<and>
    p_LockedKeys app3 = p_LockedKeys app"
proof -
  have st: "shard_tree app chain = Ptr t" using assms(2) by (simp add: shard_tree_def)
  note l1 = AcceptCrossShard_locks [OF assms(1) st assms(6,7) [unfolded assms(4,5)] assms(12) [unfolded assms(4,5)]]
  have i: "kv_ok (DBConn app2)" "p_LockedKeys app2 = p_LockedKeys app1" "pKeyRangeTree app2 = pKeyRangeTree app1"
    "\<And>k. is_locked app1 k \<Longrightarrow> stored (DBConn app2) k = stored (DBConn app1) k"
    using run_inner_frame [OF assms(9)] assms(3,10) l1(2,3) by auto
  have st2: "shard_tree app2 chain = Ptr t" using assms(2) i(3) l1(3) by (simp add: shard_tree_def)
  obtain r db' where c: "AcceptCommitShard L c app2 [blockhash block1] [commit] chain =
      Ret (r, app2\<lparr>p_LockedKeys := (\<lambda>k. if k \<in> block_keys L txs \<and> RangeTrees.Search t k then None else p_LockedKeys app2 k), DBConn := db'\<rparr>)"
    "\<And>k. stored db' k = (if commit \<and> k \<in> block_keys L txs \<and> RangeTrees.Search t k \<and> p_LockedKeys app2 k \<noteq> None
                         then p_LockedKeys app2 k else stored (DBConn app2) k)"
    using AcceptCommitShard_one [OF assms(11) st2 i(1), of L commit] by blast
  have nk: "new k \<noteq> None \<Longrightarrow> k \<in> block_keys L txs" for k using new_balances_in_block assms(12) by blast
  have locks: "p_LockedKeys app2 k = (if RangeTrees.Search t k \<and> new k \<noteq> None then new k else p_LockedKeys app k)" for k
    by (simp add: i(2) l1(1))
  have s3: "stored db' k = (if commit \<and> RangeTrees.Search t k \<and> new k \<noteq> None then new k else stored (DBConn app2) k)" for k
    using nk [of k] assms(8) by (auto simp: c(2) locks)
  have keep: "stored (DBConn app2) k = stored (DBConn app) k" if "RangeTrees.Search t k" "new k \<noteq> None" for k
  proof -
    have "is_locked app1 k" using that by (auto simp: is_locked_def l1(1) split: option.splits)
    then show ?thesis using i(4) l1(2) by simp
  qed
  have "(\<lambda>k. if k \<in> block_keys L txs \<and> RangeTrees.Search t k then None else p_LockedKeys app2 k) = p_LockedKeys app"
    using nk assms(8) by (auto simp: fun_eq_iff locks)
  then show ?thesis using c(1) s3 keep
    by (intro exI [where x = r] exI [where x = "app2\<lparr>p_LockedKeys := p_LockedKeys app, DBConn := db'\<rparr>"] conjI allI impI) simp_all
qed

lemma collect_keys_result:
  "\<exists>r. collect_keys L txs (rs, ws) = Ret r \<and>
    (case r of None \<Rightarrow> (\<exists>tx\<in>set txs. tx_payload L tx = None)
     | Some (rs', ws') \<Rightarrow> rs' = rs \<and> set ws' = set ws \<union> block_keys L txs \<and> (\<forall>tx\<in>set txs. tx_payload L tx \<noteq> None))"
proof (induction txs arbitrary: ws)
  case Nil
  show ?case by (simp add: block_keys_def)
next
  case (Cons tx txs)
  obtain r where r: "unmarshalTransferTx L tx = Ret r" "case tx_payload L tx of None \<Rightarrow> \<exists>e. r = Inl e | Some t \<Rightarrow> r = Inr t"
    using unmarshal_payload [of L tx] by blast
  show ?case
  proof (cases "tx_payload L tx")
    case None
    then show ?thesis using r by auto
  next
    case (Some t)
    then have u: "r = Inr t" "tx_keyset L tx = set (From t @ To t)" using r by (auto simp: tx_keyset_def)
    obtain q where q: "collect_keys L txs (rs, add_keys (To t) (add_keys (From t) ws)) = Ret q"
      "case q of None \<Rightarrow> (\<exists>tx\<in>set txs. tx_payload L tx = None)
       | Some (rs', ws') \<Rightarrow> rs' = rs \<and> set ws' = set (add_keys (To t) (add_keys (From t) ws)) \<union> block_keys L txs \<and> (\<forall>tx\<in>set txs. tx_payload L tx \<noteq> None)"
      using Cons.IH by blast
    have "block_keys L (tx # txs) = set (From t @ To t) \<union> block_keys L txs" by (simp add: block_keys_def u(2))
    then show ?thesis using r(1) u(1) q Some by (cases q) (auto simp: appendRWSet_def)
  qed
qed

text \<open>The vote on a block without body transactions, as boundary shards create them.\<close>

lemma vote_result:
  assumes "BlockType (b_Header block) = BLOCKTYPE_CrossShard" "p_IsI app" "BodyTxs (b_Body block) = []"
  shows "\<exists>v. pyr_PreExecutionI L app block = Ret v \<and>
    (RespI_IsOK v \<longleftrightarrow> (\<forall>tx\<in>set (CrossShardTxs (b_CrossShardBody block)). tx_payload L tx \<noteq> None) \<and>
       (\<forall>k\<in>block_keys L (CrossShardTxs (b_CrossShardBody block)). p_LockedKeys app k = None))"
proof -
  let ?txs = "CrossShardTxs (b_CrossShardBody block)"
  obtain r where r: "collect_keys L ?txs ([], []) = Ret r"
    "case r of None \<Rightarrow> (\<exists>tx\<in>set ?txs. tx_payload L tx = None)
     | Some (rs', ws') \<Rightarrow> rs' = [] \<and> set ws' = set [] \<union> block_keys L ?txs \<and> (\<forall>tx\<in>set ?txs. tx_payload L tx \<noteq> None)"
    using collect_keys_result by blast
  have ab: "\<not> RespI_IsOK (abort_I x)" for x by (simp add: RespI_IsOK_def abort_I_def code_type_defs)
  have fr: "list_all (requireLock app) ws \<longleftrightarrow> (\<forall>k\<in>set ws. p_LockedKeys app k = None)" for ws
    by (auto simp: list_all_iff requireLock_def split: option.splits)
  show ?thesis using r assms ab by (cases r) (auto simp: pyr_PreExecutionI_def fr RespI_IsOK_def)
qed
text \<open>Concrete blocks, with their hash cached.\<close>

definition two_codec :: "'m \<Rightarrow> 'm \<Rightarrow> 'm codec" where
  "two_codec m1 m2 = \<lparr>Marshal = (\<lambda>m. if m = m1 then Some [1] else if m = m2 then Some [2] else None),
     Unmarshal = (\<lambda>bz. if bz = [1] then Some m1 else if bz = [2] then Some m2 else None)\<rparr>"

lemma two_codec_ok: "m1 \<noteq> m2 \<Longrightarrow> codec_ok (two_codec m1 m2)"
  by (auto simp: codec_ok_def two_codec_def)

definition demo_transfer2 :: pb_TransferTx where
  "demo_transfer2 = \<lparr>From = [''a''], To = [''z''], FromMoney = [7], ToMoney = [7], tx_Buffer = [], tx_Time = Nil_ptr\<rparr>"

definition demo_tx2 :: bytes where
  "demo_tx2 = Uint32ToBytes pyr_TxTransfer @ [2]"

definition pyr_bank :: bank_lib where
  "pyr_bank = demo_bank\<lparr>transfer_codec := two_codec demo_transfer demo_transfer2\<rparr>"

definition blockA :: Block where
  "blockA = (pyr_block BLOCKTYPE_CrossShard [] [pyr_demo_tx] [[3]])\<lparr>blockhash := replicate 32 1\<rparr>"

definition blockB :: Block where
  "blockB = (pyr_block BLOCKTYPE_CrossShard [] [demo_tx2] [[3]])\<lparr>blockhash := replicate 32 2\<rparr>"

abbreviation app0 :: PApplication where
  "app0 \<equiv> pyr_app Map.empty"

lemma demo_payload: "tx_payload pyr_bank pyr_demo_tx = Some demo_transfer" "tx_payload pyr_bank demo_tx2 = Some demo_transfer2"
  by (simp_all add: tx_payload_def pyr_bank_def two_codec_def pyr_demo_tx_def demo_tx2_def Uint32ToBytes_def BytesToUint32_def pyr_TxTransfer_def)

lemma demo_data_ok: "NewCrossShardDataFromBytes pyr_bank [3] = Ret (Inr ([(''a'', 1000000), (''c'', 1000000)], True))"
  by (simp add: NewCrossShardDataFromBytes_def pyr_bank_def demo_bank_def one_codec_def go_index_def)

lemma two_demo_new:
  "new_balances pyr_bank (is_locked app0) (zip [pyr_demo_tx] [[3]]) Map.empty = [''a'' \<mapsto> 999995, ''c'' \<mapsto> 1000005]"
proof -
  have "is_locked app0 = (\<lambda>k. False)" by (simp add: is_locked_def pyr_app_def fun_eq_iff)
  then have "prepared pyr_bank (is_locked app0) pyr_demo_tx [3] = Some [(''a'', 999995), (''c'', 1000005)]"
    by (simp add: prepared_def demo_data_ok demo_payload pyr_can_read_def pyr_writes_def demo_transfer_def ValidateTransferTx_def map_get_def)
  then show ?thesis by simp
qed

lemma demo_app:
  "kv_ok (DBConn app0)" "stored (DBConn app0) = Map.empty" "pKeyRangeTree app0 ''s'' = Some demo_range" "p_LockedKeys app0 = Map.empty"
  "blockDBConn app0 = empty_kv" "p_IsI app0"
  using demo_facts(1,2) by (simp_all add: pyr_app_def pyr_NewApplication_def)

lemma demo_hash:
  "\<exists>b. pyr_Block_Hash (lib_time pyr_bank) blockA = Ret (replicate 32 1, b) \<and> blockhash b = replicate 32 1"
  "\<exists>b. pyr_Block_Hash (lib_time pyr_bank) blockB = Ret (replicate 32 2, b) \<and> blockhash b = replicate 32 2"
  by (rule pyr_Block_Hash_cases [of blockA "lib_time pyr_bank"], simp add: pyr_Block_Hash_filled blockA_def)
    (rule pyr_Block_Hash_cases [of blockB "lib_time pyr_bank"], simp add: pyr_Block_Hash_filled blockB_def)

lemma demo_key: "height_key (Height (b_Header demo_block)) ''s'' \<noteq> replicate 32 x"
proof -
  have "length (height_key (Height (b_Header demo_block)) ''s'') < 32"
    by (simp add: height_key_def demo_block_def demo_header_def show_int_def show_nat.simps str_bytes_def)
  then show ?thesis by (metis length_replicate less_irrefl)
qed

lemma AcceptCrossShard_returns:
  assumes "BlockType (b_Header block) = BLOCKTYPE_CrossShard"
    and "(if ifcommit then prepare L app block chain else Ret ([], app)) = Ret (rcs, app1)"
    and "pyr_Block_Hash (lib_time L) block = Ret (hs, b1)" "Marshal c (Block_ToProto b1) = Some bz"
  shows "\<exists>app'. AcceptCrossShard L c app block chain ifcommit = Ret ((\<lparr>Receipts = rcs\<rparr>, 1, 0, 0), app', b1)"
proof -
  have h: "pyr_Block_Hash (lib_time L) b1 = Ret (hs, b1)" using pyr_Block_Hash_idem assms(3) by blast
  let ?a = "app1\<lparr>blockDBConn := snd (SetState (blockDBConn app1) hs (Ptr (str_bytes ''ok'')))\<rparr>"
  obtain bs where "pyr_store_block L c ?a b1 = Ret (?a\<lparr>blockDBConn := bs\<rparr>, b1)"
    using store_block_returns [OF h assms(4)] by blast
  then show ?thesis using assms(1-3) by (simp add: AcceptCrossShard_def Let_def)
qed
lemma demo_prepare:
  "\<exists>rcs. prepare pyr_bank app0 blockA ''s'' =
     Ret (rcs, app0\<lparr>p_LockedKeys := (\<lambda>k. if RangeTrees.Search demo_range k \<and> [''a'' \<mapsto> 999995, ''c'' \<mapsto> 1000005 :: 32 word] k \<noteq> None
       then [''a'' \<mapsto> 999995, ''c'' \<mapsto> 1000005] k else p_LockedKeys app0 k)\<rparr>)"
proof -
  have b: "CrossShardTxs (b_CrossShardBody blockA) = [pyr_demo_tx]" "CrossShardDatas (b_CrossShardBody blockA) = [[3]]"
    by (simp_all add: blockA_def pyr_block_def)
  have t: "shard_tree app0 ''s'' = Ptr demo_range" using demo_app(3) by (simp add: shard_tree_def)
  show ?thesis using prepare_result [OF t _ _ b(1) [symmetric] b(2) [symmetric] two_demo_new [symmetric]] demo_data_ok by auto
qed

lemma two_block_facts:
  "BlockType (b_Header blockA) = BLOCKTYPE_CrossShard" "BlockType (b_Header blockB) = BLOCKTYPE_CrossShard"
  "CrossShardTxs (b_CrossShardBody blockA) = [pyr_demo_tx]" "CrossShardDatas (b_CrossShardBody blockA) = [[3]]"
  "CrossShardTxs (b_CrossShardBody blockB) = [demo_tx2]" "BodyTxs (b_Body blockB) = []"
  "height_key (Height (b_Header blockA)) (ChainID (b_Header blockA)) \<noteq> replicate 32 x"
  "height_key (Height (b_Header blockB)) (ChainID (b_Header blockB)) \<noteq> replicate 32 x"
  "header_fits (b_Header blockA)" "header_fits (b_Header blockB)"
  using demo_key [of x]
  by (auto simp: blockA_def blockB_def pyr_block_def header_fits_def BLOCKTYPE_CrossShard_def demo_block_def demo_header_def time_ok_def)

lemma pyr_hash_fits: "pyr_Block_Hash tm b = Ret (h, b') \<Longrightarrow> header_fits (b_Header b) \<Longrightarrow> header_fits (b_Header b')"
  using pyr_Block_Hash_frame by (simp add: header_fits_def)

lemma demo_keys: "block_keys pyr_bank [pyr_demo_tx] = {''a'', ''c''}" "block_keys pyr_bank [demo_tx2] = {''a'', ''z''}"
  by (simp_all add: block_keys_def tx_keyset_def demo_payload demo_transfer_def demo_transfer2_def)

theorem cross_shard_two_phase_witness:
  "\<exists>c resp app1 b1 r app3. AcceptCrossShard pyr_bank c app0 blockA ''s'' True = Ret (resp, app1, b1) \<and>
     AcceptCommitShard pyr_bank c app1 [blockhash b1] [True] ''s'' = Ret (r, app3) \<and>
     stored (DBConn app3) ''a'' = Some 999995 \<and> stored (DBConn app3) ''c'' = Some 1000005"
proof -
  obtain b1 where h: "pyr_Block_Hash (lib_time pyr_bank) blockA = Ret (replicate 32 1, b1)" "blockhash b1 = replicate 32 1" using demo_hash(1) by blast
  define c where "c = one_codec (Block_ToProto b1) [1]"
  have m: "Marshal c (Block_ToProto b1) = Some [1]" "codec_ok c" by (simp_all add: c_def)
  obtain rcs app' where p: "(if True then prepare pyr_bank app0 blockA ''s'' else Ret ([], app0)) = Ret (rcs, app')" using demo_prepare by auto
  obtain app1 where a: "AcceptCrossShard pyr_bank c app0 blockA ''s'' True = Ret ((\<lparr>Receipts = rcs\<rparr>, 1, 0, 0), app1, b1)"
    using AcceptCrossShard_returns [OF two_block_facts(1) p h(1) m(1)] by blast
  have rc: "received c app1 (blockhash b1) [pyr_demo_tx]"
    using AcceptCrossShard_received [OF a refl _ m(2)] pyr_hash_fits [OF h(1) two_block_facts(9)] h(2) demo_app(5) two_block_facts(3,7)
    by (simp add: empty_kv_def) metis
  have free: "\<forall>k\<in>block_keys pyr_bank [pyr_demo_tx]. p_LockedKeys app0 k = None" by (simp add: demo_app(4))
  have i: "run_inner pyr_bank c [] app1 = Ret app1" by simp
  have ok: "length [pyr_demo_tx] \<le> length [[3 :: byte]]" "\<forall>bz\<in>set [[3]]. NewCrossShardDataFromBytes pyr_bank bz \<noteq> Panic"
    "\<forall>b\<in>set []. pKeyRangeTree app0 (ChainID (b_Header b)) \<noteq> None" by (simp_all add: demo_data_ok)
  obtain r app3 where r: "AcceptCommitShard pyr_bank c app1 [blockhash b1] [True] ''s'' = Ret (r, app3)"
    "\<forall>k. stored (DBConn app3) k = (if True \<and> RangeTrees.Search demo_range k \<and> [''a'' \<mapsto> 999995, ''c'' \<mapsto> 1000005 :: 32 word] k \<noteq> None
       then [''a'' \<mapsto> 999995, ''c'' \<mapsto> 1000005] k else stored (DBConn app1) k)"
    using cross_shard_two_phase [OF a demo_app(3,1) two_block_facts(3) [symmetric] two_block_facts(4) [symmetric] ok(1,2) free i ok(3) rc
        two_demo_new [symmetric], of True] by (elim exE conjE) (rule that)
  have "stored (DBConn app3) ''a'' = Some 999995" "stored (DBConn app3) ''c'' = Some 1000005"
    using r(2) demo_facts(3,4) by simp_all
  then show ?thesis using a r(1) by blast
qed

text \<open>C24: an abort releases locks that belong to another block: when a key of an inner shard is locked by a
  prepared block, the shard votes against every other block with that key; but it receives the other block all
  the same, and its abort releases the key, so that committing the first block reports success and leaves the
  balance of the key as it was.\<close>

theorem conflicting_abort_loses_commit:
  assumes "AcceptCrossShard L c app blkA chain True = Ret (ra, app1, a1)" "AcceptCrossShard L c app1 blkB chain False = Ret (rb, app2, b1)"
    and "pKeyRangeTree app1 chain = Some t" "kv_ok (DBConn app)" "p_IsI app1" "BodyTxs (b_Body blkB) = []"
    and "received c app2 (blockhash a1) txsA" "received c app2 (blockhash b1) (CrossShardTxs (b_CrossShardBody blkB))"
    and "k \<in> block_keys L (CrossShardTxs (b_CrossShardBody blkB))" "RangeTrees.Search t k" "p_LockedKeys app1 k \<noteq> None"
  shows "\<exists>v r3 app3 rcs counts app4. pyr_PreExecutionI L app1 blkB = Ret v \<and> \<not> RespI_IsOK v \<and>
    AcceptCommitShard L c app2 [blockhash b1] [False] chain = Ret (r3, app3) \<and>
    AcceptCommitShard L c app3 [blockhash a1] [True] chain = Ret ((\<lparr>Receipts = rcs\<rparr>, counts), app4) \<and>
    map Receipt_IsOK rcs = [True] \<and> stored (DBConn app4) k = stored (DBConn app) k"
proof -
  have bt: "BlockType (b_Header blkB) = BLOCKTYPE_CrossShard" using assms(2) by (auto simp: AcceptCrossShard_def split: if_splits)
  obtain v where v: "pyr_PreExecutionI L app1 blkB = Ret v" "\<not> RespI_IsOK v"
    using vote_result [OF bt assms(5,6), of L] assms(9,11) by (elim exE conjE) (rule that, assumption, simp, blast)
  have "\<exists>bs. app2 = app1\<lparr>blockDBConn := bs\<rparr>"
    using assms(2) by (auto simp: AcceptCrossShard_def Let_def pyr_store_block_def split: if_splits bind_splits)
  then obtain bs where a2: "app2 = app1\<lparr>blockDBConn := bs\<rparr>" by blast
  have "\<exists>ls bs. app1 = app\<lparr>p_LockedKeys := ls, blockDBConn := bs\<rparr>" by (rule AcceptCrossShard_frame [OF assms(1)])
  then have d: "DBConn app1 = DBConn app" by auto
  have st: "shard_tree app2 chain = Ptr t" "kv_ok (DBConn app2)" using assms(3,4) a2 d by (simp_all add: shard_tree_def)
  let ?K = "\<lambda>k. k \<in> block_keys L (CrossShardTxs (b_CrossShardBody blkB)) \<and> RangeTrees.Search t k"
  obtain r3 db3 where c3: "AcceptCommitShard L c app2 [blockhash b1] [False] chain =
      Ret (r3, app2\<lparr>p_LockedKeys := (\<lambda>k. if ?K k then None else p_LockedKeys app2 k), DBConn := db3\<rparr>)" "kv_ok db3"
    "\<And>k. stored db3 k = stored (DBConn app2) k"
    using AcceptCommitShard_one [OF assms(8) st, of L False] by auto
  let ?app3 = "app2\<lparr>p_LockedKeys := (\<lambda>k. if ?K k then None else p_LockedKeys app2 k), DBConn := db3\<rparr>"
  have st3: "received c ?app3 (blockhash a1) txsA" "shard_tree ?app3 chain = Ptr t" "kv_ok (DBConn ?app3)"
    using assms(7) st(1) c3(2) by (simp_all add: received_def shard_tree_def)
  obtain app4 where c4: "AcceptCommitShard L c ?app3 [blockhash a1] [True] chain = Ret ((\<lparr>Receipts = [receipt CodeTypeOK []]\<rparr>, 1, 0, 0), app4)"
    "stored (DBConn app4) k = stored db3 k"
    using AcceptCommitShard_one [OF st3, of L True] assms(9,10) by auto
  have "Receipt_IsOK (receipt CodeTypeOK [])" by (simp add: Receipt_IsOK_def receipt_def)
  then show ?thesis using v c3(1,3) c4 d a2
    by (intro exI [where x = v] exI [where x = r3] exI [where x = ?app3] exI [where x = "[receipt CodeTypeOK []]"]
        exI [where x = "(1, 0, 0)"] exI [where x = app4]) simp
qed
theorem conflicting_abort_loses_commit_witness:
  "\<exists>c ra app1 a1 rb app2 b1 r3 app3 rcs counts app4.
     AcceptCrossShard pyr_bank c app0 blockA ''s'' True = Ret (ra, app1, a1) \<and>
     AcceptCrossShard pyr_bank c app1 blockB ''s'' False = Ret (rb, app2, b1) \<and>
     AcceptCommitShard pyr_bank c app2 [blockhash b1] [False] ''s'' = Ret (r3, app3) \<and>
     AcceptCommitShard pyr_bank c app3 [blockhash a1] [True] ''s'' = Ret ((\<lparr>Receipts = rcs\<rparr>, counts), app4) \<and>
     map Receipt_IsOK rcs = [True] \<and> stored (DBConn app4) ''a'' = None"
proof -
  obtain a1 where h: "pyr_Block_Hash (lib_time pyr_bank) blockA = Ret (replicate 32 1, a1)" "blockhash a1 = replicate 32 1" using demo_hash(1) by blast
  obtain b1 where g: "pyr_Block_Hash (lib_time pyr_bank) blockB = Ret (replicate 32 2, b1)" "blockhash b1 = replicate 32 2" using demo_hash(2) by blast
  have ctx: "CrossShardTxs (b_CrossShardBody a1) = [pyr_demo_tx]" "CrossShardTxs (b_CrossShardBody b1) = [demo_tx2]"
    using pyr_Block_Hash_frame(1) [OF h(1)] pyr_Block_Hash_frame(1) [OF g(1)] two_block_facts(3,5) by simp_all
  have ne: "Block_ToProto a1 \<noteq> Block_ToProto b1"
  proof
    assume "Block_ToProto a1 = Block_ToProto b1"
    then have "CrossShardTxs (b_CrossShardBody a1) = CrossShardTxs (b_CrossShardBody b1)"
      by (simp add: Block_ToProto_def CrossShardBody_ToProto_def Txs_ToProto_def)
    then show False using ctx by (simp add: pyr_demo_tx_def demo_tx2_def)
  qed
  define c where "c = two_codec (Block_ToProto a1) (Block_ToProto b1)"
  have m: "Marshal c (Block_ToProto a1) = Some [1]" "Marshal c (Block_ToProto b1) = Some [2]" "codec_ok c"
    using ne two_codec_ok by (auto simp: c_def two_codec_def)
  obtain rcs app' where p: "(if True then prepare pyr_bank app0 blockA ''s'' else Ret ([], app0)) = Ret (rcs, app')" using demo_prepare by auto
  obtain app1 where a: "AcceptCrossShard pyr_bank c app0 blockA ''s'' True = Ret ((\<lparr>Receipts = rcs\<rparr>, 1, 0, 0), app1, a1)"
    using AcceptCrossShard_returns [OF two_block_facts(1) p h(1) m(1)] by blast
  obtain app2 where b: "AcceptCrossShard pyr_bank c app1 blockB ''s'' False = Ret ((\<lparr>Receipts = []\<rparr>, 1, 0, 0), app2, b1)"
    using AcceptCrossShard_returns [OF two_block_facts(2) _ g(1) m(2), of False app1 _ "[]"] by auto
  have st: "shard_tree app0 ''s'' = Ptr demo_range" using demo_app(3) by (simp add: shard_tree_def)
  have lk: "p_LockedKeys app1 ''a'' \<noteq> None"
    using AcceptCrossShard_locks(1) [OF a st _ _ refl] two_block_facts(3,4) demo_data_ok two_demo_new demo_facts(3) by simp
  have fr: "pKeyRangeTree app1 ''s'' = Some demo_range" "p_IsI app1" "\<forall>k. \<not> failing (blockDBConn app1) k"
    using AcceptCrossShard_frame [OF a] AcceptCrossShard_store(4) [OF a refl] demo_app(3,5,6) h(2) by (auto simp: empty_kv_def)
  have rb: "received c app2 (blockhash b1) [demo_tx2]"
    using AcceptCrossShard_received [OF b refl _ m(3)] pyr_hash_fits [OF g(1) two_block_facts(10)] g(2) fr(3) two_block_facts(5) two_block_facts(8) [THEN not_sym] by simp
  have f0: "\<forall>k. \<not> failing (blockDBConn app0) k" using demo_app(5) by (simp add: empty_kv_def)
  have la: "length (blockhash a1) = 32" "length (blockhash b1) = 32" using h(2) g(2) by simp_all
  have kd: "toStateKey x \<noteq> toDataKey y" for x y using key_spaces_disjoint by metis
  have rep: "replicate 32 (1 :: byte) \<noteq> replicate 32 2" by simp
  let ?key = "height_key (Height (b_Header blockA)) (ChainID (b_Header blockA))"
  let ?keyB = "height_key (Height (b_Header blockB)) (ChainID (b_Header blockB))"
  obtain z1 where z1: "Block_ProtoBytes c a1 = Ret z1" and c1: "blockDBConn app1 = (blockDBConn app0)\<lparr>contents := (contents (blockDBConn app0))
      (toStateKey (blockhash a1) \<mapsto> str_bytes ''ok'', toStateKey ?key \<mapsto> blockhash a1, toDataKey (blockhash a1) \<mapsto> z1)\<rparr>"
    using AcceptCrossShard_store(4) [OF a refl la(1) f0] by blast
  obtain z2 where c2: "blockDBConn app2 = (blockDBConn app1)\<lparr>contents := (contents (blockDBConn app1))
      (toStateKey (blockhash b1) \<mapsto> str_bytes ''ok'', toStateKey ?keyB \<mapsto> blockhash b1, toDataKey (blockhash b1) \<mapsto> z2)\<rparr>"
    using AcceptCrossShard_store(4) [OF b refl la(2) fr(3)] by blast
  have z: "contents (blockDBConn app1) (toStateKey (blockhash a1)) = Some (str_bytes ''ok'')"
    "contents (blockDBConn app1) (toDataKey (blockhash a1)) = Some z1"
    using two_block_facts(7) [of 1, THEN not_sym] h(2) by (simp_all add: c1 kd)
  have "contents (blockDBConn app2) (toStateKey (blockhash a1)) = Some (str_bytes ''ok'')"
    "contents (blockDBConn app2) (toDataKey (blockhash a1)) = Some z1" "failing (blockDBConn app2) = failing (blockDBConn app1)"
    using two_block_facts(8) [of 1, THEN not_sym] h(2) g(2) rep z by (simp_all add: c2 kd kd [THEN not_sym])
  then have ra: "received c app2 (blockhash a1) [pyr_demo_tx]"
    using z1 fr(3) Block_bytes_roundtrip [OF m(3) _ z1(1)] pyr_hash_fits [OF h(1) two_block_facts(9)] ctx(1)
    by (simp add: received_def GetState_def GetBlockByHash_def store_Get_def db_Get_def)
  obtain r3 app3 rcs' counts app4 where
    "AcceptCommitShard pyr_bank c app2 [blockhash b1] [False] ''s'' = Ret (r3, app3)"
    "AcceptCommitShard pyr_bank c app3 [blockhash a1] [True] ''s'' = Ret ((\<lparr>Receipts = rcs'\<rparr>, counts), app4)"
    "map Receipt_IsOK rcs' = [True]" "stored (DBConn app4) ''a'' = stored (DBConn app0) ''a''"
    using conflicting_abort_loses_commit [OF a b fr(1) demo_app(1) fr(2) two_block_facts(6) ra rb [folded two_block_facts(5)], of "''a''"]
      two_block_facts(5) demo_keys(2) demo_facts(3) lk by (elim meta_impE exE conjE) (auto intro: that)
  then show ?thesis using a b demo_app(2) by (intro exI conjI) (assumption | simp)+
qed

text \<open>An inner shard votes for a cross-shard block exactly when all its transactions are transfers and none of
  their keys is locked; the vote does not depend on the data of the block, for the check of the data looks at
  the body transactions, of which a cross-shard block has none.\<close>

theorem pyr_vote_ignores_data:
  assumes "BlockType (b_Header block) = BLOCKTYPE_CrossShard" "p_IsI app" "BodyTxs (b_Body block) = []"
  shows "\<exists>v. pyr_PreExecutionI L app block = Ret v \<and>
    (RespI_IsOK v \<longleftrightarrow> (\<forall>tx\<in>set (CrossShardTxs (b_CrossShardBody block)). tx_payload L tx \<noteq> None) \<and>
       (\<forall>k\<in>block_keys L (CrossShardTxs (b_CrossShardBody block)). p_LockedKeys app k = None)) \<and>
    pyr_PreExecutionI L app (block\<lparr>b_CrossShardBody := (b_CrossShardBody block)\<lparr>CrossShardDatas := datas\<rparr>\<rparr>) = Ret v"
proof -
  have "pyr_PreExecutionI L app (block\<lparr>b_CrossShardBody := (b_CrossShardBody block)\<lparr>CrossShardDatas := datas\<rparr>\<rparr>) =
      pyr_PreExecutionI L app block"
  proof -
    obtain r where "collect_keys L (CrossShardTxs (b_CrossShardBody block)) ([], []) = Ret r" using collect_keys_result by blast
    then show ?thesis using assms(3) by (cases r) (auto simp: pyr_PreExecutionI_def)
  qed
  then show ?thesis using vote_result [OF assms, of L] by auto
qed

theorem pyr_vote_ignores_data_witness:
  "\<exists>v. pyr_PreExecutionI pyr_bank app0 blockA = Ret v \<and> RespI_IsOK v \<and>
     pyr_PreExecutionI pyr_bank app0 (blockA\<lparr>b_CrossShardBody := (b_CrossShardBody blockA)\<lparr>CrossShardDatas := []\<rparr>\<rparr>) = Ret v"
  using pyr_vote_ignores_data [OF two_block_facts(1) demo_app(6), of pyr_bank "[]"] two_block_facts(3) demo_payload(1) demo_app(4)
  by (auto simp: blockA_def pyr_block_def)

end
