(* ===== verification/PyrMempool.thy ===== *)
theory PyrMempool
  imports Mempool
begin

text \<open>
  Model of \<open>pyramid/mempool/mempool.go\<close>, the pool of \<open>Mempool\<close> with two differences: reaping leaves out
  the transactions that touch a locked key, and an update without a commit status removes every
  transaction it is given. The application's \<open>CheckLock\<close> is the parameter \<open>check\<close>. The lemmas refine reaping to the
  abstract pool.
\<close>

section \<open>Operations\<close>

partial_function (option) pyr_reap_loop ::
  "(Tx \<Rightarrow> bool go) \<Rightarrow> Tx CList \<Rightarrow> int \<Rightarrow> nat ptr \<Rightarrow> Txs \<Rightarrow> Txs go option" where
  "pyr_reap_loop check l maxTxs e out =
     (case e of
        Nil_ptr \<Rightarrow> Some (Ret out)
      | Ptr x \<Rightarrow>
          (case cells l x of
             None \<Rightarrow> Some Panic
           | Some c \<Rightarrow>
               (case check (Value c) of
                  Panic \<Rightarrow> Some Panic
                | Ret free \<Rightarrow>
                    if \<not> free then pyr_reap_loop check l maxTxs (next_el c) out
                    else if int (length (out @ [Value c])) \<ge> maxTxs then Some (Ret (out @ [Value c]))
                    else pyr_reap_loop check l maxTxs (next_el c) (out @ [Value c]))))"

definition pyr_ReapTx :: "(Tx \<Rightarrow> bool go) \<Rightarrow> Mempool \<Rightarrow> int \<Rightarrow> (Txs \<times> int) go option" where
  "pyr_ReapTx check mpl maxTxs =
     (if maxTxs < 0 then Some Panic
      else map_option (map_option (\<lambda>out. (out, int (length out))))
             (pyr_reap_loop check (txs mpl) maxTxs (Front (txs mpl)) []))"

definition pyr_Update :: "Mempool \<Rightarrow> Txs \<Rightarrow> bytes ptr \<Rightarrow> Mempool go" where
  "pyr_Update mpl ts commitStatus =
     (if ts = [] then Ret mpl
      else case commitStatus of
        Ptr status \<Rightarrow>
          if isCrossShardMempool mpl then do { bv \<leftarrow> NewBitArrayFromByte status; remove_marked bv 0 mpl ts }
          else remove_all mpl ts
      | Nil_ptr \<Rightarrow> remove_all mpl ts)"

section \<open>Reaping leaves out locked transactions\<close>

lemma pyr_reap_loop_rep:
  "clist_rep l (xs @ ys) \<Longrightarrow> (\<And>tx. tx \<in> value_at l ` set ys \<Longrightarrow> check tx = Ret (free tx)) \<Longrightarrow>
     int (length out) < maxTxs \<or> out = [] \<Longrightarrow>
     pyr_reap_loop check l maxTxs (first_of ys Nil_ptr) out =
       Some (Ret (out @ take (max 1 (nat maxTxs) - length out) (filter free (map (value_at l) ys))))"
proof (induction ys arbitrary: xs out)
  case Nil
  then show ?case by (simp add: pyr_reap_loop.simps)
next
  case (Cons e ys)
  obtain c where c: "cells l e = Some c" "next_el c = first_of ys Nil_ptr" "Value c = value_at l e"
    using Cons.prems(1) by (auto simp: clist_rep_def links_append linked_def value_at_def split: option.splits)
  have f: "check (Value c) = Ret (free (Value c))" using Cons.prems(2) c(3) by simp
  have IH: "pyr_reap_loop check l maxTxs (first_of ys Nil_ptr) out' =
      Some (Ret (out' @ take (max 1 (nat maxTxs) - length out') (filter free (map (value_at l) ys))))"
    if "int (length out') < maxTxs \<or> out' = []" for out'
    by (rule Cons.IH [of "xs @ [e]"]) (use Cons.prems(1,2) that in auto)
  show ?case
  proof (cases "free (Value c)")
    case False
    then show ?thesis using c f IH [OF Cons.prems(3)] by (simp add: pyr_reap_loop.simps)
  next
    case True
    show ?thesis
    proof (cases "int (length (out @ [Value c])) \<ge> maxTxs")
      case full: True
      then have "max 1 (nat maxTxs) - length out = 1" using Cons.prems(3) by (auto simp: max_def)
      then show ?thesis using full True c f by (simp add: pyr_reap_loop.simps)
    next
      case False
      then have "max 1 (nat maxTxs) - length out = Suc (max 1 (nat maxTxs) - length (out @ [Value c]))" by (auto simp: max_def)
      then show ?thesis using False True c f IH [of "out @ [Value c]"] by (simp add: pyr_reap_loop.simps)
    qed
  qed
qed

lemma pyr_ReapTx_rep:
  assumes "mp_rep mpl p" "\<forall>tx \<in> set (fst p). check tx = Ret (free tx)" "0 \<le> maxTxs"
  shows "pyr_ReapTx check mpl maxTxs =
    Some (Ret (take (max 1 (nat maxTxs)) (filter free (fst p)), int (length (take (max 1 (nat maxTxs)) (filter free (fst p))))))"
proof -
  obtain ids where ids: "clist_rep (txs mpl) ids" "fst p = map (value_at (txs mpl)) ids" using assms(1) by (auto simp: mp_rep_def)
  show ?thesis using pyr_reap_loop_rep [of "txs mpl" "[]" ids check free "[]" maxTxs] ids assms(2,3) Front_rep [OF ids(1)]
    by (simp add: pyr_ReapTx_def)
qed

lemma pyr_Update_rep:
  "mp_rep mpl p \<Longrightarrow> \<exists>mpl'. pyr_Update mpl ts Nil_ptr = Ret mpl' \<and> mp_rep mpl' (fold pool_remove ts p) \<and>
     isCrossShardMempool mpl' = isCrossShardMempool mpl"
  using remove_all_rep [of mpl p ts] by (cases ts) (auto simp: pyr_Update_def)

lemma pool_remove_distinct:
  "pool_remove tx p = (filter (\<lambda>x. x \<noteq> tx) (fst p), set (filter (\<lambda>x. x \<noteq> tx) (fst p)))"
  if "distinct (fst p)" "snd p = set (fst p)"
proof (cases "tx \<in> set (fst p)")
  case True
  then show ?thesis using that
    by (auto simp: pool_remove_def distinct_remove1_removeAll removeAll_filter_not_eq rev_filter eq_commute)
next
  case False
  then have "filter (\<lambda>x. x \<noteq> tx) (fst p) = fst p" by (auto intro: filter_True)
  then show ?thesis using that False by (simp add: pool_remove_def prod_eq_iff)
qed

lemma fold_pool_remove_distinct: "distinct (fst p) \<Longrightarrow> snd p = set (fst p) \<Longrightarrow>
  fold pool_remove ts p = (filter (\<lambda>x. x \<notin> set ts) (fst p), set (filter (\<lambda>x. x \<notin> set ts) (fst p)))"
proof (induction ts arbitrary: p)
  case Nil
  then show ?case by (cases p) simp
next
  case (Cons t ts)
  show ?case using pool_remove_distinct [OF Cons.prems, of t] Cons.prems
    by (simp add: Cons.IH conj_commute)
qed

section \<open>Property\<close>



end
