(* ===== verification/PyrConsensus.thy ===== *)
theory PyrConsensus
  imports PyrHeightSteps PyrCommit PyrMempool Consensus
begin

text \<open>
  Model of \<open>pyramid/consensus/main.go\<close> (and of \<open>rapid/consensus/main.go\<close>, the same code but for log lines):
  the consensus state of a node over its two pools, its application and the data of its height; the
  reaction to every message, the steps of a height, the execution of the agreed block, the exchange between
  boundary and inner shards and the move to the next height. The state is passed explicitly and the
  transition function is closed by recursion on fuel, as in \<open>Consensus\<close>: \<open>None\<close> is fuel used up and
  \<open>Some Panic\<close> a panic. Messages handed to the network are appended to the outbox in the order of the calls,
  also those a goroutine sends. The block store of the application and that of the consensus state are one
  object (\<open>SetBlockStore\<close>), the field \<open>blockDBConn\<close> of the application here. Log output is not modelled.
\<close>

section \<open>Messages\<close>

definition PMsgPart :: "32 word" where "PMsgPart = 1"
definition PMsgProposal :: "32 word" where "PMsgProposal = 4"
definition PMsgPrevote :: "32 word" where "PMsgPrevote = 5"
definition PMsgPrecommit :: "32 word" where "PMsgPrecommit = 6"
definition PMsgAccept :: "32 word" where "PMsgAccept = 8"
definition PMsgCommit :: "32 word" where "PMsgCommit = 9"
definition PMsgOK :: "32 word" where "PMsgOK = 10"
definition PMsgCrossShardBlock :: "32 word" where "PMsgCrossShardBlock = 11"

lemmas pyr_msg_defs = PMsgPart_def PMsgProposal_def PMsgPrevote_def PMsgPrecommit_def PMsgAccept_def
  PMsgCommit_def PMsgOK_def PMsgCrossShardBlock_def

datatype pmsg =
  Y_Part Part | Y_Proposal Proposal | Y_Prevote Prevote | Y_Precommit Precommit
| Y_CSB CrossShardBlock | Y_Accept MessageAccept | Y_Commit MessageCommit | Y_OK MessageOK

section \<open>Receipts\<close>

text \<open>The message form keeps the map of options.\<close>

record pb_pyr_Receipt =
  ppr_Code :: int
  ppr_Log :: string
  ppr_Info :: string
  ppr_Options :: "(string \<times> string) list"

definition pyr_Receipt_ToProto :: "ABCIExecutionReceipt \<Rightarrow> pb_pyr_Receipt" where
  "pyr_Receipt_ToProto r =
     \<lparr>ppr_Code = i32 (rc_Code r), ppr_Log = Log r, ppr_Info = Info r, ppr_Options = Options r\<rparr>"

definition pyr_NewABCIReceiptFromProto :: "pb_pyr_Receipt \<Rightarrow> ABCIExecutionReceipt" where
  "pyr_NewABCIReceiptFromProto p =
     \<lparr>rc_Code = i8 (ppr_Code p), Log = ppr_Log p, Info = ppr_Info p, Options = ppr_Options p\<rparr>"

definition pyr_Receipt_ProtoBytes :: "pb_pyr_Receipt codec \<Rightarrow> ABCIExecutionReceipt \<Rightarrow> bytes go" where
  "pyr_Receipt_ProtoBytes c r = MustProtoBytes c (pyr_Receipt_ToProto r)"

definition pyr_NewABCIReceiptFromBytes :: "pb_pyr_Receipt codec \<Rightarrow> bytes \<Rightarrow> ABCIExecutionReceipt ptr go" where
  "pyr_NewABCIReceiptFromBytes c bz = from_bytes c (\<lambda>p. Ret (pyr_NewABCIReceiptFromProto p)) bz"

interpretation pyr_receipt_wire: wire_type "\<lambda>r. Ret (pyr_Receipt_ToProto r)" "\<lambda>p. Ret (pyr_NewABCIReceiptFromProto p)"
  "\<lambda>r. code_fits (rc_Code r)"
  by unfold_locales (simp add: pyr_NewABCIReceiptFromProto_def pyr_Receipt_ToProto_def)

section \<open>State\<close>

text \<open>
  What the node calls but does not contain: the libraries of the application, BLS, the codecs, the clock (the
  time read when the block of a height is proposed) and the random numbers.
\<close>

record PEnv =
  y_lib :: bank_lib
  y_bls :: bls
  y_codecs :: pyr_codecs
  y_receipt_codec :: "pb_pyr_Receipt codec"
  y_now :: "int \<Rightarrow> GoTime"
  y_rand :: "int \<Rightarrow> int"

definition y_tp :: "PEnv \<Rightarrow> pyr_thirdparty" where
  "y_tp E = \<lparr>p_bls = y_bls E, p_codecs = y_codecs E, p_time = lib_time (y_lib E)\<rparr>"

abbreviation y_block_codec :: "PEnv \<Rightarrow> pb_Block codec" where
  "y_block_codec E \<equiv> block_codec (base_codecs (y_codecs E))"

text \<open>
  The Go maps that are only read and written by key are functions; those that are iterated are lists of
  distinct keys. \<open>bseen\<close> and \<open>maPool\<close> may be nil (\<open>None\<close>): reading gives the zero value, writing panics.
  The keys \<open>string(hash)\<close> are kept as bytes; the pending hash \<open>[]\<close> is nil.
\<close>

record PState =
  y_Height :: int
  y_Round :: int
  y_Step :: int
  y_mempool :: Mempool
  y_cross_mempool :: Mempool
  y_app :: PApplication
  y_signer :: Signer
  y_signerIndex :: int
  y_heightDatas :: PHeightData
  y_relay :: "int \<rightharpoonup> (int \<rightharpoonup> pmsg list)"
  y_MinBlockInterval :: int
  y_LastBlockTime :: GoTime
  y_MaxPartSize :: int
  y_maxBlockTxNum :: int
  y_LastBlockHash :: bytes
  y_LastReceiptRoot :: bytes
  y_LastStateRoot :: bytes
  y_BlockHash :: bytes
  crossShardBlockPool :: "(bytes, CrossShardBlock) gomap"
  commitPool :: "(bytes, MessageCommit) gomap"
  committed :: "bytes \<rightharpoonup> bool"
  bcount :: int
  bseen :: "(string \<rightharpoonup> bool) option"
  pendingCrossShardBlockHash :: bytes
  pendingBlockSize :: int
  maCount :: int
  maPool :: "(string, MessageAccept) gomap option"
  shardHeight :: "string \<rightharpoonup> int"
  y_outbox :: "out_msg list"

definition pyr_NewConsensusState ::
  "bls \<Rightarrow> string \<Rightarrow> pyr_ShardInfo \<Rightarrow> Signer \<Rightarrow> int \<Rightarrow> Mempool \<Rightarrow> Mempool \<Rightarrow> PApplication \<Rightarrow> kv \<Rightarrow> GoTime \<Rightarrow> int \<Rightarrow> int \<Rightarrow> int
   \<Rightarrow> PState go" where
  "pyr_NewConsensusState B chain_id si signer signer_index mempool cross_mempool abci store now minBlockInterval maxPartSize maxTxNum =
     do { h \<leftarrow> pyr_NewHeightData B chain_id 0 si;
          Ret \<lparr>y_Height = 0, y_Round = 0, y_Step = RoundStepNewHeight, y_mempool = mempool, y_cross_mempool = cross_mempool,
               y_app = SetBlockStore abci store, y_signer = signer, y_signerIndex = signer_index, y_heightDatas = h,
               y_relay = Map.empty, y_MinBlockInterval = minBlockInterval, y_LastBlockTime = now,
               y_MaxPartSize = maxPartSize, y_maxBlockTxNum = maxTxNum, y_LastBlockHash = [], y_LastReceiptRoot = [],
               y_LastStateRoot = [], y_BlockHash = [], crossShardBlockPool = [], commitPool = [], committed = Map.empty,
               bcount = 0, bseen = None, pendingCrossShardBlockHash = [], pendingBlockSize = 0, maCount = -1,
               maPool = None, shardHeight = Map.empty, y_outbox = []\<rparr> }"

definition y_IsIShard :: "PState \<Rightarrow> bool" where
  "y_IsIShard s = ph_IsIShard (y_heightDatas s)"

definition y_IsBShard :: "PState \<Rightarrow> bool" where
  "y_IsBShard s = ph_IsBShard (y_heightDatas s)"

abbreviation y_related :: "PState \<Rightarrow> (string, bool) gomap" where
  "y_related s \<equiv> psi_Related (ph_ShardInfo (y_heightDatas s))"

text \<open>\<open>RelatedShards[chain]\<close>: a missing key is false.\<close>

definition y_is_related :: "PState \<Rightarrow> string \<Rightarrow> bool" where
  "y_is_related s chain = (m_get (y_related s) chain = Some True)"

text \<open>A message for a later height or round is kept; the first one for a height falls through to \<open>false\<close>.\<close>

definition pyr_addRelayMessageIfOverTime :: "PState \<Rightarrow> int \<Rightarrow> int \<Rightarrow> pmsg \<Rightarrow> bool \<times> PState" where
  "pyr_addRelayMessageIfOverTime s height rnd msg =
     (if y_Height s < height \<or> y_Height s = height \<and> y_Round s < rnd then
        case y_relay s height of
          Some u \<Rightarrow> (True, s\<lparr>y_relay := (y_relay s)(height \<mapsto> u(rnd \<mapsto> map_get [] u rnd @ [msg]))\<rparr>)
        | None \<Rightarrow> (False, s\<lparr>y_relay := (y_relay s)(height \<mapsto> [rnd \<mapsto> [msg]])\<rparr>)
      else (False, s))"

definition pyr_Next :: "PState \<Rightarrow> PState" where
  "pyr_Next s =
     (if y_Step s = RoundStepCommit then
        s\<lparr>y_relay := (y_relay s)(y_Height s := None), y_Round := 0, y_Height := y_Height s + 1, y_Step := RoundStepNewHeight\<rparr>
      else s\<lparr>y_Step := y_Step s + 1\<rparr>)"

section \<open>Sending\<close>

definition pyr_SendTo :: "string \<Rightarrow> bytes \<Rightarrow> 32 word \<Rightarrow> PState \<Rightarrow> PState" where
  "pyr_SendTo shardID bz messageType s = s\<lparr>y_outbox := y_outbox s @ [(shardID, bz, messageType)]\<rparr>"

definition pyr_SendInternal :: "bytes \<Rightarrow> 32 word \<Rightarrow> PState \<Rightarrow> PState" where
  "pyr_SendInternal bz messageType s = s\<lparr>y_outbox := y_outbox s @ [(ph_MyChainID (y_heightDatas s), bz, messageType)]\<rparr>"

definition pyr_SendToRelatedShards :: "bytes \<Rightarrow> 32 word \<Rightarrow> PState \<Rightarrow> PState" where
  "pyr_SendToRelatedShards bz messageType s = fold (\<lambda>shard. pyr_SendTo shard bz messageType) (m_keys (y_related s)) s"

definition pyr_SendToRelatedShardsExcept :: "bytes \<Rightarrow> 32 word \<Rightarrow> string \<Rightarrow> PState \<Rightarrow> PState" where
  "pyr_SendToRelatedShardsExcept bz messageType exception s =
     fold (\<lambda>shard s. if shard = exception then s else pyr_SendTo shard bz messageType s) (m_keys (y_related s)) s"

section \<open>Proposer and certificates\<close>

definition pyr_calculateProposer :: "PState \<Rightarrow> int go" where
  "pyr_calculateProposer s =
     do { n \<leftarrow> pyr_validator_size (y_heightDatas s) (ph_MyChainID (y_heightDatas s));
          if n = 0 then Panic else Ret ((y_Height s + y_Round s) smod n) }"

definition pyr_isProposer :: "PState \<Rightarrow> bool go" where
  "pyr_isProposer s = do { p \<leftarrow> pyr_calculateProposer s; Ret (p = y_signerIndex s) }"

text \<open>\<open>sig.VerifySignatures(AllValidatorSet[chain], sig.ValidatorBitVector.Byte())\<close>.\<close>

definition verify_certificate :: "PEnv \<Rightarrow> PState \<Rightarrow> string \<Rightarrow> PrecommitAggregated \<Rightarrow> bool go" where
  "verify_certificate E s chain pa =
     VerifySignatures (y_bls E) (precommit_codec (base_codecs (y_codecs E))) pa
       (pyr_validators (y_heightDatas s) chain) (Byte (pa_ValidatorBitVector pa))"

definition own_certificate :: "PEnv \<Rightarrow> PState \<Rightarrow> PrecommitAggregated go" where
  "own_certificate E s = pyr_GenerateAggregatePrecommitSignature (y_bls E) (y_heightDatas s)"

abbreviation cert_chain :: "PrecommitAggregated \<Rightarrow> string" where
  "cert_chain pa \<equiv> psh_ChainID (pa_Header pa)"

section \<open>Blocks of a new height\<close>

text \<open>The pools are reaped with the lock test of the application.\<close>

definition y_reap :: "PEnv \<Rightarrow> PState \<Rightarrow> Mempool \<Rightarrow> (Txs \<times> int) run" where
  "y_reap E s mpl = pyr_ReapTx (CheckLock (y_lib E) (y_app s)) mpl (y_maxBlockTxNum s)"

text \<open>\<open>new(types.Block)\<close> with its type and transactions; the header is filled in by \<open>block_header\<close>.\<close>

definition empty_block :: "int \<Rightarrow> Txs \<Rightarrow> Txs \<Rightarrow> Block" where
  "empty_block ty body cross =
     \<lparr>b_Header = \<lparr>BlockType = ty, HashPointer = [], ChainID = [], Height = 0, Time = \<lparr>sec = -62135596800, nsec = 0\<rparr>,
        BodyRoot = [], CrossShardBodyRoot = [], StateRoot = [], ReceiptRoot = [], RelationRoot = []\<rparr>,
      b_Body = \<lparr>BodyTxs = body\<rparr>, b_CrossShardBody = \<lparr>CrossShardTxs = cross, CrossShardDatas = []\<rparr>,
      b_Relation = \<lparr>RelatedCommitStatus = [], RelatedHash = [], MyCommitStatus = []\<rparr>, blockhash = []\<rparr>"

text \<open>\<open>rand.Intn(b)\<close> is some number below \<open>b\<close>; the pools are iterated in the order of their lists.\<close>

definition createIBlockTxs :: "PEnv \<Rightarrow> PState \<Rightarrow> Block run" where
  "createIBlockTxs E s =
     (if crossShardBlockPool s \<noteq> [] then
        Some (do { csb \<leftarrow> go_index (map snd (crossShardBlockPool s))
                            (y_rand E (y_Height s) mod int (length (crossShardBlockPool s)));
                   bz \<leftarrow> CrossShardBlock_ProtoBytes (csb_codec (y_codecs E)) csb;
                   Ret (empty_block BLOCKTYPE_IAcceptBlock [bz] []) })
      else if commitPool s \<noteq> [] then
        Some (do { bzs \<leftarrow> those (map (MessageCommit_ProtoBytes (mc_codec (y_codecs E)) \<circ> snd) (commitPool s));
                   Ret (empty_block BLOCKTYPE_ICommitBlock bzs []) })
      else run_bind (y_reap E s (y_mempool s)) (\<lambda>(ts, _). Some (Ret (empty_block BLOCKTYPE_InnerShard ts []))))"

definition commit_or_inner_block :: "PEnv \<Rightarrow> PState \<Rightarrow> Block run" where
  "commit_or_inner_block E s =
     (if maCount s = 0 then
        Some (do { bz \<leftarrow> MessageAcceptSet_ProtoBytes (mas_codec (y_codecs E))
                     \<lparr>Accepts = (case maPool s of None \<Rightarrow> [] | Some mas \<Rightarrow> map snd mas), mas_BlockHash = pendingCrossShardBlockHash s\<rparr>;
                   Ret (empty_block BLOCKTYPE_BCommitBlock [bz] []) })
      else run_bind (y_reap E s (y_mempool s)) (\<lambda>(ts, _). Some (Ret (empty_block BLOCKTYPE_InnerShard ts []))))"

definition createBBlockTxs :: "PEnv \<Rightarrow> PState \<Rightarrow> Block run" where
  "createBBlockTxs E s =
     (if maCount s = -1 then
        run_bind (y_reap E s (y_cross_mempool s))
          (\<lambda>(ts, n). if n > 0 then Some (FillData (y_lib E) (y_app s) (empty_block BLOCKTYPE_CrossShard [] ts))
                     else commit_or_inner_block E s)
      else commit_or_inner_block E s)"

definition block_header :: "PEnv \<Rightarrow> PState \<Rightarrow> Block \<Rightarrow> Block" where
  "block_header E s block =
     (let interval_dst = time_Add (y_LastBlockTime s) (y_MinBlockInterval s); t = y_now E (y_Height s)
      in block\<lparr>b_Header :=
           \<lparr>BlockType = BlockType (b_Header block), HashPointer = y_LastBlockHash s, ChainID = ph_MyChainID (y_heightDatas s),
            Height = y_Height s, Time = (if time_Before t interval_dst then interval_dst else t), BodyRoot = [],
            CrossShardBodyRoot = [], StateRoot = y_LastStateRoot s, ReceiptRoot = y_LastReceiptRoot s, RelationRoot = []\<rparr>\<rparr>)"

fun pyr_send_parts :: "PEnv \<Rightarrow> Part ptr list \<Rightarrow> PState \<Rightarrow> PState go" where
  "pyr_send_parts E [] s = Ret s"
| "pyr_send_parts E (q # qs) s =
     (case q of
        Nil_ptr \<Rightarrow> Panic
      | Ptr p \<Rightarrow> do { bz \<leftarrow> Part_ProtoBytes (part_codec (base_codecs (y_codecs E))) p;
                       pyr_send_parts E qs (pyr_SendInternal bz PMsgPart s) })"

text \<open>The goroutine that sends the proposal and its parts first sleeps until the block interval has passed.\<close>

definition pyr_propose_block :: "PEnv \<Rightarrow> Block \<Rightarrow> PartSet \<Rightarrow> PState \<Rightarrow> PState go" where
  "pyr_propose_block E block part_set s =
     (let c = proposal_codec (base_codecs (y_codecs E));
          proposal = NewProposal (ps_Header part_set) (y_signerIndex s) (ps_BlockHeaderHash part_set)
      in do { sig \<leftarrow> SignType (y_bls E) (y_signer s) (Proposal_SignBytes c proposal);
              let proposal' = proposal\<lparr>p_Signature := sig\<rparr>;
                  s' = s\<lparr>y_heightDatas := (y_heightDatas s)\<lparr>ph_Block := Ptr block, ph_PartSet := Ptr part_set,
                                                          ph_Proposal := Ptr proposal'\<rparr>\<rparr>
              in do { bz \<leftarrow> Proposal_ProtoBytes c proposal';
                      pyr_send_parts E (Parts part_set) (pyr_SendInternal bz PMsgProposal s') } })"

definition pyr_createBlockAndBroadcast :: "PEnv \<Rightarrow> PState \<Rightarrow> PState run" where
  "pyr_createBlockAndBroadcast E s =
     run_bind (if y_IsBShard s then createBBlockTxs E s else createIBlockTxs E s)
       (\<lambda>block. run_bind (pyr_PartSetFromBlock (lib_time (y_lib E)) (y_block_codec E) (block_header E s block) (y_MaxPartSize s) (y_Round s))
          (\<lambda>(part_set, block'). Some (pyr_propose_block E block' part_set s)))"

section \<open>Executing a block\<close>

definition updateIState :: "Block \<Rightarrow> bytes \<Rightarrow> PState \<Rightarrow> PState go" where
  "updateIState block cross_shard_block_hash s =
     (let ty = BlockType (b_Header block)
      in if ty = BLOCKTYPE_InnerShard then
           do { m \<leftarrow> pyr_Update (y_mempool s) (BodyTxs (b_Body block)) Nil_ptr; Ret (s\<lparr>y_mempool := m\<rparr>) }
         else if ty = BLOCKTYPE_IAcceptBlock then
           Ret (s\<lparr>crossShardBlockPool := AList.delete cross_shard_block_hash (crossShardBlockPool s)\<rparr>)
         else if ty = BLOCKTYPE_ICommitBlock then
           Ret (s\<lparr>commitPool := AList.delete cross_shard_block_hash (commitPool s),
                  committed := (committed s)(cross_shard_block_hash \<mapsto> True)\<rparr>)
         else Ret s)"

text \<open>A missing block is nil bytes without an error.\<close>

definition updateBState :: "PEnv \<Rightarrow> Block \<Rightarrow> bytes \<Rightarrow> bool \<Rightarrow> PState \<Rightarrow> PState go" where
  "updateBState E block cross_shard_block_hash ifcommit s =
     (let ty = BlockType (b_Header block)
      in if ty = BLOCKTYPE_InnerShard then
           do { m \<leftarrow> pyr_Update (y_mempool s) (BodyTxs (b_Body block)) Nil_ptr; Ret (s\<lparr>y_mempool := m\<rparr>) }
         else if ty = BLOCKTYPE_CrossShard then
           Ret (s\<lparr>maCount := int (length (y_related s)), maPool := Some [], pendingCrossShardBlockHash := cross_shard_block_hash,
                  pendingBlockSize := int (length (CrossShardTxs (b_CrossShardBody block)))\<rparr>)
         else if ty = BLOCKTYPE_BCommitBlock then
           do { s1 \<leftarrow> (if ifcommit then
                         (case GetBlockByHash (blockDBConn (y_app s)) cross_shard_block_hash of
                            Inl _ \<Rightarrow> Panic
                          | Inr bz \<Rightarrow>
                              do { q \<leftarrow> NewBlockFromBytes (y_block_codec E) (slice_bytes bz);
                                   case q of
                                     Nil_ptr \<Rightarrow> Panic
                                   | Ptr ublock \<Rightarrow>
                                       do { m \<leftarrow> pyr_Update (y_cross_mempool s) (CrossShardTxs (b_CrossShardBody ublock)) Nil_ptr;
                                            Ret (s\<lparr>y_cross_mempool := m\<rparr>) } })
                       else Ret s);
                Ret (s1\<lparr>maCount := -1, maPool := None, pendingCrossShardBlockHash := []\<rparr>) }
         else Ret s)"

text \<open>
  The results of executing a block: the response with its three counts, the block (storing it hashes it) and
  the state. \<open>cert\<close> is the own certificate in a consensus round and nil when a boundary shard replays the
  block of an inner shard, so that it also stands for the flag \<open>isConsensusRound\<close>.
\<close>

type_synonym exec_result = "(pyr_Response \<times> int \<times> int \<times> int) \<times> Block \<times> PState"

definition process_inner :: "PEnv \<Rightarrow> bool \<Rightarrow> Block \<Rightarrow> PState \<Rightarrow> exec_result go" where
  "process_inner E isConsensusRound block s =
     do { (r, app, block1) \<leftarrow> ExecutionInnerShard (y_lib E) (y_block_codec E) (y_app s) block;
          let s1 = s\<lparr>y_app := app\<rparr>
          in if isConsensusRound then
               do { (hs, block2) \<leftarrow> pyr_Block_Hash (lib_time (y_lib E)) block1;
                    s2 \<leftarrow> updateIState block2 hs s1;
                    Ret (r, block2, s2) }
             else Ret (r, block1, s1) }"

definition process_accept :: "PEnv \<Rightarrow> PrecommitAggregated ptr \<Rightarrow> string \<Rightarrow> bool \<Rightarrow> Block \<Rightarrow> PState \<Rightarrow> exec_result go" where
  "process_accept E cert chain_id isok block s =
     do { tx \<leftarrow> go_index (BodyTxs (b_Body block)) 0;
          q \<leftarrow> NewCrossShardBlockFromBytes (csb_codec (y_codecs E)) tx;
          case q of
            Nil_ptr \<Rightarrow> Panic
          | Ptr blocks \<Rightarrow>
              do { (r, app, b1) \<leftarrow> AcceptCrossShard (y_lib E) (y_block_codec E) (y_app s) (csb_Block blocks) chain_id
                                    (case cert of Ptr aggSig \<Rightarrow> PrecommitAggregated_IsOK aggSig | Nil_ptr \<Rightarrow> isok);
                   (hs, b2) \<leftarrow> pyr_Block_Hash (lib_time (y_lib E)) b1;
                   let s1 = s\<lparr>y_app := app\<rparr>
                   in do { p \<leftarrow> pyr_isProposer s1;
                           case cert of
                             Nil_ptr \<Rightarrow> Ret (r, block, s1)
                           | Ptr aggSig \<Rightarrow>
                               do { s2 \<leftarrow> (if p then
                                             do { bz \<leftarrow> MessageAccept_ProtoBytes (ma_codec (y_codecs E))
                                                          \<lparr>ma_B_BlockHash = hs, ma_CollectiveSignatures = aggSig\<rparr>;
                                                  Ret (pyr_SendTo (ChainID (b_Header b2)) bz PMsgAccept s1) }
                                           else Ret s1);
                                    s3 \<leftarrow> updateIState block hs s2;
                                    Ret (r, block, s3) } } } }"

fun decode_commits :: "pb_MessageCommit codec \<Rightarrow> bytes list \<Rightarrow> (bytes list \<times> bool list) go" where
  "decode_commits c [] = Ret ([], [])"
| "decode_commits c (tx # rest) =
     do { q \<leftarrow> NewMessageCommitFromBytes c tx;
          case q of
            Nil_ptr \<Rightarrow> Panic
          | Ptr mc \<Rightarrow> do { (hashes, commits) \<leftarrow> decode_commits c rest;
                           Ret (mc_B_BlockHash mc # hashes, PrecommitAggregated_IsOK (mc_CollectiveSignatures mc) # commits) } }"

fun updateIStates :: "Block \<Rightarrow> bytes list \<Rightarrow> PState \<Rightarrow> PState go" where
  "updateIStates block [] s = Ret s"
| "updateIStates block (hs # hashes) s = do { s1 \<leftarrow> updateIState block hs s; updateIStates block hashes s1 }"

definition process_commit :: "PEnv \<Rightarrow> bool \<Rightarrow> string \<Rightarrow> Block \<Rightarrow> PState \<Rightarrow> exec_result go" where
  "process_commit E isConsensusRound chain_id block s =
     do { (hashes, commits) \<leftarrow> decode_commits (mc_codec (y_codecs E)) (BodyTxs (b_Body block));
          (r, app) \<leftarrow> AcceptCommitShard (y_lib E) (y_block_codec E) (y_app s) hashes commits chain_id;
          let s1 = s\<lparr>y_app := app\<rparr>
          in do { s2 \<leftarrow> (if isConsensusRound then updateIStates block hashes s1 else Ret s1);
                  Ret (r, block, s2) } }"

text \<open>In a consensus round the proposer also sends the block with its certificate to the related shards.\<close>

definition deliver_block :: "PEnv \<Rightarrow> Block \<Rightarrow> PrecommitAggregated \<Rightarrow> PState \<Rightarrow> PState go" where
  "deliver_block E block aggSig s =
     do { p \<leftarrow> pyr_isProposer s;
          if p then
            do { bz \<leftarrow> CrossShardBlock_ProtoBytes (csb_codec (y_codecs E)) \<lparr>csb_Block = block, ColleciveSignatures = aggSig\<rparr>;
                 Ret (pyr_SendToRelatedShards bz PMsgCrossShardBlock s) }
          else Ret s }"

definition processIBlock :: "PEnv \<Rightarrow> Block \<Rightarrow> string \<Rightarrow> bool \<Rightarrow> bool \<Rightarrow> PState \<Rightarrow> exec_result go" where
  "processIBlock E block chain_id isConsensusRound isok s =
     do { (cert, s1) \<leftarrow> (if isConsensusRound then
                           do { aggSig \<leftarrow> own_certificate E s; s1 \<leftarrow> deliver_block E block aggSig s; Ret (Ptr aggSig, s1) }
                         else Ret (Nil_ptr, s));
          let ty = BlockType (b_Header block)
          in if ty = BLOCKTYPE_InnerShard then process_inner E isConsensusRound block s1
             else if ty = BLOCKTYPE_IAcceptBlock then process_accept E cert chain_id isok block s1
             else if ty = BLOCKTYPE_ICommitBlock then process_commit E isConsensusRound chain_id block s1
             else Panic }"

text \<open>A boundary shard. \<open>processBBlock\<close> is only called in a consensus round.\<close>

definition process_B_inner :: "PEnv \<Rightarrow> bool \<Rightarrow> Block \<Rightarrow> PState \<Rightarrow> exec_result go" where
  "process_B_inner E isConsensusRound block s =
     do { (r, app, block1) \<leftarrow> ExecutionInnerShard (y_lib E) (y_block_codec E) (y_app s) block;
          let s1 = s\<lparr>y_app := app\<rparr>
          in if isConsensusRound then
               do { (hs, block2) \<leftarrow> pyr_Block_Hash (lib_time (y_lib E)) block1;
                    s2 \<leftarrow> updateBState E block2 hs False s1;
                    Ret (r, block2, s2) }
             else Ret (r, block1, s1) }"

definition process_B_cross :: "PEnv \<Rightarrow> bool \<Rightarrow> Block \<Rightarrow> PState \<Rightarrow> exec_result go" where
  "process_B_cross E isConsensusRound block s =
     do { aggSig \<leftarrow> own_certificate E s;
          s1 \<leftarrow> (if isConsensusRound then deliver_block E block aggSig s else do { _ \<leftarrow> pyr_isProposer s; Ret s });
          let r = (\<lparr>Receipts = [receipt CodeTypeOK []]\<rparr>, 1, 0, 0)
          in if isConsensusRound then
               do { (hs, block1) \<leftarrow> pyr_Block_Hash (lib_time (y_lib E)) block;
                    s2 \<leftarrow> updateBState E block1 hs False s1;
                    Ret (r, block1, s2) }
             else Ret (r, block, s1) }"

definition process_B_commit :: "PEnv \<Rightarrow> bool \<Rightarrow> Block \<Rightarrow> PState \<Rightarrow> exec_result go" where
  "process_B_commit E isConsensusRound block s =
     do { aggSig \<leftarrow> own_certificate E s;
          p \<leftarrow> pyr_isProposer s;
          let mc = \<lparr>mc_B_BlockHash = pendingCrossShardBlockHash s, mc_CollectiveSignatures = aggSig\<rparr>
          in do { s1 \<leftarrow> (if p \<and> isConsensusRound then
                           do { bz \<leftarrow> MessageCommit_ProtoBytes (mc_codec (y_codecs E)) mc;
                                Ret (pyr_SendToRelatedShards bz PMsgCommit s) }
                         else Ret s);
                  s2 \<leftarrow> (if isConsensusRound then updateBState E block (mc_B_BlockHash mc) True s1 else Ret s1);
                  Ret ((\<lparr>Receipts = [receipt CodeTypeOK []]\<rparr>, 1,
                        if PrecommitAggregated_IsOK aggSig then pendingBlockSize s2 else 0, pendingBlockSize s2),
                       block, s2\<lparr>pendingBlockSize := 0\<rparr>) } }"

definition processBBlock :: "PEnv \<Rightarrow> Block \<Rightarrow> bool \<Rightarrow> PState \<Rightarrow> exec_result go" where
  "processBBlock E block isConsensusRound s =
     (let ty = BlockType (b_Header block)
      in if ty = BLOCKTYPE_InnerShard then process_B_inner E isConsensusRound block s
         else if ty = BLOCKTYPE_CrossShard then process_B_cross E isConsensusRound block s
         else if ty = BLOCKTYPE_BCommitBlock then process_B_commit E isConsensusRound block s
         else Panic)"

section \<open>Steps\<close>

text \<open>
  The checks of a proposed block: whether it is acceptable and whether to vote for committing it. The commit
  block of a boundary shard carries the accepts of all related shards.
\<close>

fun check_accepts :: "PEnv \<Rightarrow> PState \<Rightarrow> MessageAccept list \<Rightarrow> bool \<Rightarrow> (bool \<times> bool) go" where
  "check_accepts E s [] pvote = Ret (True, pvote)"
| "check_accepts E s (ma # mas) pvote =
     (let sig = ma_CollectiveSignatures ma
      in if \<not> y_is_related s (cert_chain sig) then Ret (False, pvote)
         else do { ok \<leftarrow> verify_certificate E s (cert_chain sig) sig;
                   if \<not> ok then Ret (False, pvote)
                   else check_accepts E s mas (PrecommitAggregated_IsOK sig \<and> pvote) })"

definition check_BCommit :: "PEnv \<Rightarrow> PState \<Rightarrow> Block \<Rightarrow> (bool \<times> bool) go" where
  "check_BCommit E s block =
     (case BodyTxs (b_Body block) of
        [tx] \<Rightarrow>
          do { q \<leftarrow> NewMessageAcceptSetFromBytes (mas_codec (y_codecs E)) tx;
               case q of
                 Nil_ptr \<Rightarrow> Ret (False, True)
               | Ptr ba \<Rightarrow>
                   if pendingCrossShardBlockHash s \<noteq> mas_BlockHash ba then Ret (False, True)
                   else if length (Accepts ba) \<noteq> length (y_related s) then Ret (False, True)
                   else check_accepts E s (Accepts ba) True }
      | _ \<Rightarrow> Ret (False, True))"

definition check_B :: "PEnv \<Rightarrow> PState \<Rightarrow> Block \<Rightarrow> (bool \<times> bool) go" where
  "check_B E s block =
     (let ty = BlockType (b_Header block)
      in if ty = BLOCKTYPE_InnerShard then Ret (True, True)
         else if ty = BLOCKTYPE_CrossShard then Ret (RespB_IsOK (PreExecutionB block), True)
         else if ty = BLOCKTYPE_BCommitBlock then check_BCommit E s block
         else Ret (False, True))"

definition check_IAccept :: "PEnv \<Rightarrow> PState \<Rightarrow> Block \<Rightarrow> (bool \<times> bool) go" where
  "check_IAccept E s block =
     (case BodyTxs (b_Body block) of
        [tx] \<Rightarrow>
          do { q \<leftarrow> NewCrossShardBlockFromBytes (csb_codec (y_codecs E)) tx;
               case q of
                 Nil_ptr \<Rightarrow> Ret (False, True)
               | Ptr csb \<Rightarrow>
                   let sig = ColleciveSignatures csb
                   in if \<not> y_is_related s (cert_chain sig) then Ret (False, True)
                      else do { ok \<leftarrow> verify_certificate E s (cert_chain sig) sig;
                                if \<not> ok then Ret (False, True)
                                else do { resp \<leftarrow> pyr_PreExecutionI (y_lib E) (y_app s) (csb_Block csb);
                                          Ret (True, RespI_IsOK resp) } } }
      | _ \<Rightarrow> Ret (False, True))"

fun check_ICommit :: "PEnv \<Rightarrow> PState \<Rightarrow> bytes list \<Rightarrow> bool go" where
  "check_ICommit E s [] = Ret True"
| "check_ICommit E s (tx # rest) =
     do { q \<leftarrow> NewMessageCommitFromBytes (mc_codec (y_codecs E)) tx;
          case q of
            Nil_ptr \<Rightarrow> Ret False
          | Ptr mc \<Rightarrow>
              let sig = mc_CollectiveSignatures mc
              in if \<not> y_is_related s (cert_chain sig) then Ret False
                 else do { ok \<leftarrow> verify_certificate E s (cert_chain sig) sig;
                           if \<not> ok then Ret False else check_ICommit E s rest } }"

definition check_I :: "PEnv \<Rightarrow> PState \<Rightarrow> Block \<Rightarrow> (bool \<times> bool) go" where
  "check_I E s block =
     (let ty = BlockType (b_Header block)
      in if ty = BLOCKTYPE_InnerShard then Ret (True, True)
         else if ty = BLOCKTYPE_IAcceptBlock then check_IAccept E s block
         else if ty = BLOCKTYPE_ICommitBlock then do { flag \<leftarrow> check_ICommit E s (BodyTxs (b_Body block)); Ret (flag, True) }
         else Ret (False, True))"

definition pyr_need_block :: "PState \<Rightarrow> Block go" where
  "pyr_need_block s = (case ph_Block (y_heightDatas s) of Nil_ptr \<Rightarrow> Panic | Ptr b \<Rightarrow> Ret b)"

definition put_block :: "Block \<Rightarrow> PState \<Rightarrow> PState" where
  "put_block b s = s\<lparr>y_heightDatas := (y_heightDatas s)\<lparr>ph_Block := Ptr b\<rparr>\<rparr>"

text \<open>Signing, counting and sending the own vote; the error of counting it is dropped.\<close>

definition cast_prevote :: "PEnv \<Rightarrow> bool \<Rightarrow> PState \<Rightarrow> PState go" where
  "cast_prevote E pvote s =
     (let c = prevote_codec (base_codecs (y_codecs E));
          vote = Prevote_SetOK (NewPrevote (y_Height s) (y_Round s) (y_BlockHash s) (y_signerIndex s)) pvote
      in do { sig \<leftarrow> SignType (y_bls E) (y_signer s) (Prevote_SignBytes c vote);
              let vote' = vote\<lparr>pv_Signature := sig\<rparr>
              in do { (_, h) \<leftarrow> pyr_AddPrevote (y_tp E) (y_heightDatas s) vote';
                      bz \<leftarrow> Prevote_ProtoBytes c vote';
                      Ret (pyr_SendInternal bz PMsgPrevote (s\<lparr>y_heightDatas := h\<rparr>)) } })"

definition pyr_doPropose :: "PEnv \<Rightarrow> PState \<Rightarrow> PState go" where
  "pyr_doPropose E s =
     do { block0 \<leftarrow> pyr_need_block s;
          (hs, block) \<leftarrow> pyr_Block_Hash (lib_time (y_lib E)) block0;
          let s1 = put_block block (s\<lparr>y_BlockHash := hs\<rparr>)
          in do { (flag, pvote) \<leftarrow> (if y_IsBShard s1 then check_B E s1 block else check_I E s1 block);
                  if \<not> flag then Panic
                  else do { s2 \<leftarrow> cast_prevote E pvote s1; Ret (pyr_Next s2) } } }"

definition pyr_doPrevote :: "PEnv \<Rightarrow> PState \<Rightarrow> PState go" where
  "pyr_doPrevote E s =
     (let (bz, ok) = vs_GetMaj23 (ph_Prevotes (y_heightDatas s));
          c = precommit_codec (base_codecs (y_codecs E));
          vote = Precommit_SetOK (NewPrecommit (y_Height s) (y_Round s) bz (y_signerIndex s)) ok
      in do { sig \<leftarrow> SignType (y_bls E) (y_signer s) (Precommit_SignBytes c vote);
              let vote' = vote\<lparr>pc_Signature := sig\<rparr>
              in do { (_, h) \<leftarrow> pyr_AddPrecommit (y_tp E) (y_heightDatas s) vote';
                      out \<leftarrow> Precommit_ProtoBytes c vote';
                      Ret (pyr_Next (pyr_SendInternal out PMsgPrecommit (s\<lparr>y_heightDatas := h\<rparr>))) } })"

text \<open>After the block is executed: its receipts, its hash, the state of the application, the block store.\<close>

definition record_block :: "PEnv \<Rightarrow> ABCIExecutionReceipt list \<Rightarrow> Block \<Rightarrow> PState \<Rightarrow> PState go" where
  "record_block E receipts block s =
     do { bzz \<leftarrow> those (map (pyr_Receipt_ProtoBytes (y_receipt_codec E)) receipts);
          (respRoot, _) \<leftarrow> ProofsFromByteSlices bzz;
          (hs, block1) \<leftarrow> pyr_Block_Hash (lib_time (y_lib E)) block;
          (app, block2) \<leftarrow> pyr_store_block (y_lib E) (y_block_codec E) (y_app s) block1;
          Ret (put_block block2 (s\<lparr>y_LastReceiptRoot := respRoot, y_LastBlockHash := hs, y_LastStateRoot := pyr_Commit (y_app s),
                                   y_LastBlockTime := Time (b_Header block1), y_app := app\<rparr>)) }"

definition pyr_doPrecommit :: "PEnv \<Rightarrow> PState \<Rightarrow> PState go" where
  "pyr_doPrecommit E s =
     do { block \<leftarrow> pyr_need_block s;
          ((resp, _), block1, s1) \<leftarrow>
            (if y_IsIShard s then processIBlock E block (ph_MyChainID (y_heightDatas s)) True False s
             else processBBlock E block True s);
          s2 \<leftarrow> record_block E (Receipts resp) block1 s1;
          Ret (pyr_Next s2) }"

text \<open>The last act of a height, up to the call of \<open>enterNewHeight\<close>.\<close>

definition finish_commit :: "PEnv \<Rightarrow> PState \<Rightarrow> PState go" where
  "finish_commit E s =
     do { p \<leftarrow> pyr_isProposer s;
          if p \<and> y_IsBShard s then
            do { bz \<leftarrow> (if y_related s = [] then Ret [] else
                         MessageOK_ProtoBytes (mok_codec (y_codecs E)) \<lparr>ok_Height = y_Height s, SrcChain = ph_MyChainID (y_heightDatas s)\<rparr>);
                 Ret (pyr_SendToRelatedShards bz PMsgOK s) }
          else Ret s }"

section \<open>Messages of the cross-shard commit\<close>

text \<open>
  A boundary shard that has stored the certified block of an inner shard executes the blocks of that shard in
  order of height as far as it has them; \<open>None\<close> if that never ends.
\<close>

definition sync_block :: "PEnv \<Rightarrow> string \<Rightarrow> bool \<Rightarrow> int \<Rightarrow> bytes \<Rightarrow> PState \<Rightarrow> PState go" where
  "sync_block E chain_id isok i0 blockBz s =
     do { q \<leftarrow> NewBlockFromBytes (y_block_codec E) blockBz;
          case q of
            Nil_ptr \<Rightarrow> Panic
          | Ptr iblock \<Rightarrow>
              do { (_, _, s1) \<leftarrow> processIBlock E iblock chain_id False isok s;
                   Ret (s1\<lparr>shardHeight := (shardHeight s1)(chain_id \<mapsto> i0)\<rparr>) } }"

partial_function (option) sync_blocks :: "PEnv \<Rightarrow> string \<Rightarrow> bool \<Rightarrow> int \<Rightarrow> PState \<Rightarrow> PState go option" where
  "sync_blocks E chain_id isok i0 s =
     (case GetBlockByHeight (blockDBConn (y_app s)) i0 chain_id of
        Inl _ \<Rightarrow> Some (Ret s)
      | Inr Nil_ptr \<Rightarrow> Some (Ret s)
      | Inr (Ptr blockBz) \<Rightarrow>
          (case sync_block E chain_id isok i0 blockBz s of
             Panic \<Rightarrow> Some Panic
           | Ret s1 \<Rightarrow> sync_blocks E chain_id isok (i0 + 1) s1))"

datatype PError =
  PHD PHDError | NonAdjacent | BlockSignature | IShardAccept | AcceptSignature | BShardCommit | CommitSignature

text \<open>
  Adding a message up to the call of \<open>handleStateTransition\<close>: the flag says whether it is called. An error
  \<open>DoNothing\<close> of the height data is no error.
\<close>

type_synonym added = "PError ptr \<times> bool \<times> PState"

definition add_result :: "PState \<Rightarrow> PHDError ptr \<times> PHeightData \<Rightarrow> added go" where
  "add_result s = (\<lambda>(e, h). Ret (case e of Nil_ptr \<Rightarrow> (Nil_ptr, True, s\<lparr>y_heightDatas := h\<rparr>)
     | Ptr PDoNothing \<Rightarrow> (Nil_ptr, False, s\<lparr>y_heightDatas := h\<rparr>) | Ptr x \<Rightarrow> (Ptr (PHD x), False, s\<lparr>y_heightDatas := h\<rparr>)))"

definition add_CSB :: "PEnv \<Rightarrow> CrossShardBlock \<Rightarrow> PState \<Rightarrow> added run" where
  "add_CSB E m s =
     (let sig = ColleciveSignatures m; chain_id = cert_chain sig
      in if \<not> y_is_related s chain_id then Some (Ret (Ptr NonAdjacent, False, s))
         else run_bind (Some (pyr_Block_Hash (lib_time (y_lib E)) (csb_Block m)))
           (\<lambda>(hs, block).
              if store_Has (blockDBConn (y_app s)) hs = Inr True then Some (Ret (Nil_ptr, False, s))
              else run_bind (Some (verify_certificate E s chain_id sig))
                (\<lambda>ok. if \<not> ok then Some (Ret (Ptr BlockSignature, False, s))
                      else if y_IsIShard s then
                        Some (Ret (Nil_ptr, True, s\<lparr>crossShardBlockPool :=
                                m_put hs \<lparr>csb_Block = block, ColleciveSignatures = sig\<rparr> (crossShardBlockPool s)\<rparr>))
                      else
                        run_bind (Some (pyr_SetBlockByHeight (lib_time (y_lib E)) (y_block_codec E) (blockDBConn (y_app s))
                                          (psh_Height (pa_Header sig)) chain_id block))
                          (\<lambda>(_, bs, _).
                             run_bind (sync_blocks E chain_id (PrecommitAggregated_IsOK sig) (map_get 0 (shardHeight s) chain_id + 1)
                                         (s\<lparr>y_app := SetBlockStore (y_app s) bs\<rparr>))
                               (\<lambda>s1. Some (Ret (Nil_ptr, True, s1)))))))"

definition add_Accept :: "PEnv \<Rightarrow> MessageAccept \<Rightarrow> PState \<Rightarrow> added go" where
  "add_Accept E m s =
     (let sig = ma_CollectiveSignatures m; chain_id = cert_chain sig
      in if y_IsIShard s then Ret (Ptr IShardAccept, False, s)
         else if ma_B_BlockHash m \<noteq> pendingCrossShardBlockHash s then Ret (Nil_ptr, False, s)
         else do { ok \<leftarrow> verify_certificate E s chain_id sig;
                   if \<not> ok then Ret (Ptr AcceptSignature, False, s)
                   else case maPool s of
                     None \<Rightarrow> Panic
                   | Some mas \<Rightarrow>
                       if m_get mas chain_id \<noteq> None then Ret (Nil_ptr, False, s)
                       else Ret (Nil_ptr, True, s\<lparr>maCount := maCount s - 1, maPool := Some (m_put chain_id m mas)\<rparr>) })"

definition add_Commit :: "PEnv \<Rightarrow> MessageCommit \<Rightarrow> PState \<Rightarrow> added go" where
  "add_Commit E m s =
     (let sig = mc_CollectiveSignatures m; chain_id = cert_chain sig
      in if y_IsBShard s then Ret (Ptr BShardCommit, False, s)
         else if map_get False (committed s) (mc_B_BlockHash m) then Ret (Nil_ptr, False, s)
         else do { ok \<leftarrow> verify_certificate E s chain_id sig;
                   if \<not> ok then Ret (Ptr CommitSignature, False, s)
                   else Ret (Nil_ptr, True, s\<lparr>commitPool := m_put (mc_B_BlockHash m) m (commitPool s)\<rparr>) })"

definition add_OK :: "MessageOK \<Rightarrow> PState \<Rightarrow> added go" where
  "add_OK m s =
     (if ok_Height m < y_Height s then Ret (Nil_ptr, False, s)
      else case bseen s of
        None \<Rightarrow> Panic
      | Some seen \<Rightarrow>
          if map_get False seen (SrcChain m) then Ret (Nil_ptr, False, s)
          else Ret (Nil_ptr, True, s\<lparr>bseen := Some (seen(SrcChain m \<mapsto> True)), bcount := bcount s - 1\<rparr>))"

definition pyr_add_message :: "PEnv \<Rightarrow> pmsg \<Rightarrow> PState \<Rightarrow> added run" where
  "pyr_add_message E m s =
     (let tp = y_tp E; h = y_heightDatas s
      in case m of
           Y_Part p \<Rightarrow> Some (pyr_AddPart tp h p \<bind> add_result s)
         | Y_Proposal p \<Rightarrow> Some (do { i \<leftarrow> pyr_calculateProposer s; pyr_AddProposal tp h p i \<bind> add_result s })
         | Y_Prevote p \<Rightarrow> Some (pyr_AddPrevote tp h p \<bind> add_result s)
         | Y_Precommit p \<Rightarrow> Some (pyr_AddPrecommit tp h p \<bind> add_result s)
         | Y_CSB c \<Rightarrow> add_CSB E c s
         | Y_Accept a \<Rightarrow> Some (add_Accept E a s)
         | Y_Commit c \<Rightarrow> Some (add_Commit E c s)
         | Y_OK k \<Rightarrow> Some (add_OK k s))"

text \<open>The height and round a message is kept for; blocks, accepts and commits are never kept.\<close>

fun pyr_msg_slot :: "pmsg \<Rightarrow> (int \<times> int) option" where
  "pyr_msg_slot (Y_Part p) = Some (pt_Height p, pt_Round p)"
| "pyr_msg_slot (Y_Proposal p) = Some (psh_Height (p_Header p), psh_Round (p_Header p))"
| "pyr_msg_slot (Y_Prevote p) = Some (pv_Height p, pv_Round p)"
| "pyr_msg_slot (Y_Precommit p) = Some (pc_Height p, pc_Round p)"
| "pyr_msg_slot (Y_OK k) = Some (ok_Height k, 0)"
| "pyr_msg_slot _ = None"

definition pyr_doMessage :: "PEnv \<Rightarrow> (PState \<Rightarrow> PState run) \<Rightarrow> pmsg \<Rightarrow> PState \<Rightarrow> (PError ptr \<times> PState) run" where
  "pyr_doMessage E rec m s =
     (case (case pyr_msg_slot m of None \<Rightarrow> (False, s) | Some (ht, rnd) \<Rightarrow> pyr_addRelayMessageIfOverTime s ht rnd m) of
        (True, s1) \<Rightarrow> Some (Ret (Nil_ptr, s1))
      | (False, s1) \<Rightarrow>
          run_bind (pyr_add_message E m s1)
            (\<lambda>(e, go_on, s2). if go_on then run_bind (rec s2) (\<lambda>s3. Some (Ret (e, s3))) else Some (Ret (e, s2))))"

section \<open>Transitions\<close>

fun pyr_relay_messages :: "PEnv \<Rightarrow> (PState \<Rightarrow> PState run) \<Rightarrow> pmsg list \<Rightarrow> PState \<Rightarrow> PState run" where
  "pyr_relay_messages E rec [] s = Some (Ret s)"
| "pyr_relay_messages E rec (m # ms) s = run_bind (pyr_doMessage E rec m s) (\<lambda>(_, s'). pyr_relay_messages E rec ms s')"

definition pyr_enterNewRound :: "PEnv \<Rightarrow> (PState \<Rightarrow> PState run) \<Rightarrow> PState \<Rightarrow> PState run" where
  "pyr_enterNewRound E rec s =
     (let s0 = s\<lparr>y_Step := RoundStepPropose\<rparr>
      in run_bind (Some (pyr_isProposer s0))
           (\<lambda>p. run_bind (if p then pyr_createBlockAndBroadcast E s0 else Some (Ret s0))
              (\<lambda>s1. case y_relay s1 (y_Height s1) of
                 None \<Rightarrow> Some (Ret s1)
               | Some relay_height \<Rightarrow>
                   (case relay_height (y_Round s1) of
                      None \<Rightarrow> Some (Ret s1)
                    | Some relayRound \<Rightarrow> pyr_relay_messages E rec relayRound s1))))"

definition pyr_reset_height :: "PState \<Rightarrow> PState go" where
  "pyr_reset_height s =
     (let s0 = s\<lparr>y_Step := RoundStepCommit\<rparr>;
          s1 = pyr_Next (if y_IsIShard s0 then s0\<lparr>bcount := int (length (y_related s0)), bseen := Some Map.empty\<rparr> else s0)
      in do { h \<leftarrow> pyr_NextHeight (y_heightDatas s1); Ret (s1\<lparr>y_heightDatas := h\<rparr>) })"

definition pyr_enterNewHeight :: "PEnv \<Rightarrow> (PState \<Rightarrow> PState run) \<Rightarrow> PState \<Rightarrow> PState run" where
  "pyr_enterNewHeight E rec s = run_bind (Some (pyr_reset_height s)) (pyr_enterNewRound E rec)"

text \<open>Whether the last step of a height is over: an inner shard waits for its boundary shards' OK messages, a
  boundary shard for the blocks of this height of its inner shards.\<close>

definition commit_done :: "PState \<Rightarrow> bool" where
  "commit_done s =
     (if y_IsIShard s then bcount s = 0
      else list_all (\<lambda>cid. \<not> map_get 0 (shardHeight s) cid < y_Height s) (m_keys (y_related s)))"

definition pyr_transition :: "PEnv \<Rightarrow> (PState \<Rightarrow> PState run) \<Rightarrow> PState \<Rightarrow> PState run" where
  "pyr_transition E rec s =
     (let h = y_heightDatas s; go_on = (\<lambda>f (ok, h'). if ok then run_bind (Some (f (s\<lparr>y_heightDatas := h'\<rparr>))) rec
                                                      else Some (Ret (s\<lparr>y_heightDatas := h'\<rparr>)))
      in if y_Step s = RoundStepPropose then run_bind (Some (pyr_FinishProposal h)) (go_on (pyr_doPropose E))
         else if y_Step s = RoundStepPrevote then run_bind (Some (pyr_FinishPrevote h)) (go_on (pyr_doPrevote E))
         else if y_Step s = RoundStepPrecommit then run_bind (Some (pyr_FinishPrecommit h)) (go_on (pyr_doPrecommit E))
         else if y_Step s = RoundStepCommit then
           (if commit_done s then run_bind (run_bind (Some (finish_commit E s)) (pyr_enterNewHeight E rec)) rec
            else Some (Ret s))
         else Some (Ret s))"

fun pyr_handleStateTransition :: "PEnv \<Rightarrow> nat \<Rightarrow> PState \<Rightarrow> PState run" where
  "pyr_handleStateTransition E 0 s = None"
| "pyr_handleStateTransition E (Suc fuel) s = pyr_transition E (pyr_handleStateTransition E fuel) s"

definition pyr_Start :: "PEnv \<Rightarrow> nat \<Rightarrow> PState \<Rightarrow> PState run" where
  "pyr_Start E fuel s =
     (if y_Height s = 0 then pyr_enterNewHeight E (pyr_handleStateTransition E fuel) s else pyr_handleStateTransition E fuel s)"

section \<open>Receiving\<close>

datatype PReceiveError = PUnmarshal | PBadPart PartBasicError | PBadVote VoteError | PUnrecognized | PFailed PError

definition pyr_decode ::
  "(bytes \<Rightarrow> 'b ptr go) \<Rightarrow> ('b \<Rightarrow> PReceiveError option) \<Rightarrow> ('b \<Rightarrow> pmsg) \<Rightarrow> bytes \<Rightarrow> (PReceiveError + pmsg) go" where
  "pyr_decode parse check con bz =
     do { p \<leftarrow> parse bz;
          case p of
            Nil_ptr \<Rightarrow> Ret (Inl PUnmarshal)
          | Ptr m \<Rightarrow> (case check m of Some e \<Rightarrow> Ret (Inl e) | None \<Rightarrow> Ret (Inr (con m))) }"

definition wrong :: "('e \<Rightarrow> PReceiveError) \<Rightarrow> 'e + unit \<Rightarrow> PReceiveError option" where
  "wrong f r = (case r of Inl e \<Rightarrow> Some (f e) | Inr _ \<Rightarrow> None)"

definition pyr_decode_message :: "PEnv \<Rightarrow> bytes \<Rightarrow> 32 word \<Rightarrow> (PReceiveError + pmsg) go" where
  "pyr_decode_message E bz messageType =
     (let c = y_codecs E; b = base_codecs c; cert = wrong PBadVote \<circ> PrecommitAggregated_ValidateBasic
      in if messageType = PMsgPart then pyr_decode (NewPartFromBytes (part_codec b)) (wrong PBadPart \<circ> Part_ValidateBasic) Y_Part bz
         else if messageType = PMsgProposal then
           pyr_decode (NewProposalFromBytes (proposal_codec b)) (wrong PBadVote \<circ> Proposal_ValidateBasic) Y_Proposal bz
         else if messageType = PMsgPrevote then
           pyr_decode (NewPrevoteFromBytes (prevote_codec b)) (wrong PBadVote \<circ> Prevote_ValidateBasic) Y_Prevote bz
         else if messageType = PMsgPrecommit then
           pyr_decode (NewPrecommitFromBytes (precommit_codec b)) (wrong PBadVote \<circ> Precommit_ValidateBasic) Y_Precommit bz
         else if messageType = PMsgCrossShardBlock then
           pyr_decode (NewCrossShardBlockFromBytes (csb_codec c)) (cert \<circ> ColleciveSignatures) Y_CSB bz
         else if messageType = PMsgAccept then
           pyr_decode (NewMessageAcceptFromBytes (ma_codec c)) (cert \<circ> ma_CollectiveSignatures) Y_Accept bz
         else if messageType = PMsgCommit then
           pyr_decode (NewMessageCommitFromBytes (mc_codec c)) (cert \<circ> mc_CollectiveSignatures) Y_Commit bz
         else if messageType = PMsgOK then pyr_decode (NewMessageOKFromBytes (mok_codec c)) (\<lambda>_. None) Y_OK bz
         else Ret (Inl PUnrecognized))"

definition pyr_Receive :: "PEnv \<Rightarrow> nat \<Rightarrow> bytes \<Rightarrow> 32 word \<Rightarrow> PState \<Rightarrow> (PReceiveError ptr \<times> PState) run" where
  "pyr_Receive E fuel bz messageType s =
     run_bind (Some (pyr_decode_message E bz messageType))
       (\<lambda>r. case r of
          Inl e \<Rightarrow> Some (Ret (Ptr e, s))
        | Inr m \<Rightarrow>
            run_bind (pyr_doMessage E (pyr_handleStateTransition E fuel) m s)
              (\<lambda>(e, s'). Some (Ret (case e of Nil_ptr \<Rightarrow> Nil_ptr | Ptr x \<Rightarrow> Ptr (PFailed x), s'))))"

end
