(* ===== verification/PyrNode.thy ===== *)
theory PyrNode
  imports PyrConsensus ConsensusFrame
begin

text \<open>
  The node of the pyramid protocol as a state machine: which parts of the state of \<open>PyrConsensus\<close> each
  operation leaves alone, the invariant of a node and its runs. The invariant of the height data
  (\<open>PyrHeightSteps\<close>) holds in every state of a node, height and round agree, and the step of the node never
  runs ahead of the steps its height data have completed. The properties: what a node that executes a block
  holds, and how the messages between shards are treated.
\<close>

section \<open>What the operations leave alone\<close>

text \<open>Executing blocks and adding cross-shard messages never touches the height data, the step or the buffer.\<close>

definition y_frame :: "PState \<Rightarrow> PState \<Rightarrow> bool" where
  "y_frame s s' \<longleftrightarrow> y_Height s' = y_Height s \<and> y_Round s' = y_Round s \<and> y_Step s' = y_Step s \<and> y_relay s' = y_relay s \<and>
     bseen s' = bseen s \<and> bcount s' = bcount s \<and> y_LastBlockHash s' = y_LastBlockHash s \<and> y_signerIndex s' = y_signerIndex s \<and> y_heightDatas s' = y_heightDatas s"

lemma y_frame_refl [simp]: "y_frame s s"
  by (simp add: y_frame_def)

lemma y_frame_trans: "y_frame a b \<Longrightarrow> y_frame b c \<Longrightarrow> y_frame a c"
  by (simp add: y_frame_def)

lemma y_frame_upd [simp]:
  "y_frame s (s\<lparr>y_mempool := m\<rparr>)" "y_frame s (s\<lparr>y_cross_mempool := m\<rparr>)" "y_frame s (s\<lparr>y_app := a\<rparr>)"
  "y_frame s (s\<lparr>crossShardBlockPool := p\<rparr>)" "y_frame s (s\<lparr>commitPool := c, committed := d\<rparr>)" "y_frame s (s\<lparr>commitPool := c\<rparr>)"
  "y_frame s (s\<lparr>shardHeight := g\<rparr>)" "y_frame s (s\<lparr>y_outbox := out\<rparr>)" "y_frame s (s\<lparr>pendingBlockSize := k\<rparr>)"
  "y_frame s (s\<lparr>maCount := k, maPool := mp\<rparr>)"
  by (simp_all add: y_frame_def)

lemma pyr_Send_frame [simp]:
  "y_frame s (pyr_SendTo c bz t s)" "y_frame s (pyr_SendInternal bz t s)" "y_frame s (pyr_SendToRelatedShards bz t s)"
proof -
  show "y_frame s (pyr_SendTo c bz t s)" "y_frame s (pyr_SendInternal bz t s)" for c s
    by (simp_all add: pyr_SendTo_def pyr_SendInternal_def)
  then have "y_frame s (fold (\<lambda>c. pyr_SendTo c bz t) cs s)" for cs
  proof (induction cs arbitrary: s)
    case (Cons c cs)
    then show ?case using y_frame_trans [of s "pyr_SendTo c bz t s"] by simp
  qed simp
  then show "y_frame s (pyr_SendToRelatedShards bz t s)" by (simp add: pyr_SendToRelatedShards_def)
qed

lemma updateIState_frame: "go_all (y_frame s) (updateIState b hs s)"
  unfolding updateIState_def Let_def by (intro go_all_rules y_frame_upd y_frame_refl)

lemma updateBState_frame: "go_all (y_frame s) (updateBState E b hs c s)"
  unfolding updateBState_def Let_def
  by (intro go_all_rules) (auto simp: y_frame_def split: if_splits sum.splits ptr.splits bind_splits)

lemma updateIStates_frame: "go_all (y_frame s) (updateIStates b hashes s)"
proof (induction hashes arbitrary: s)
  case (Cons hs hashes)
  show ?case unfolding updateIStates.simps
    by (rule go_all_bind [OF updateIState_frame]) (rule go_all_mono [OF Cons.IH], rule y_frame_trans)
qed (simp add: go_all_def)

text \<open>Executing a block that has been hashed returns it as it was.\<close>

definition y_hashed :: "PEnv \<Rightarrow> Block \<Rightarrow> bool" where
  "y_hashed E b \<longleftrightarrow> (\<exists>hs. pyr_Block_Hash (lib_time (y_lib E)) b = Ret (hs, b))"

definition exec_ok :: "PEnv \<Rightarrow> Block \<Rightarrow> PState \<Rightarrow> exec_result \<Rightarrow> bool" where
  "exec_ok E b s r \<longleftrightarrow> y_frame s (snd (snd r)) \<and> (y_hashed E b \<longrightarrow> fst (snd r) = b)"

lemma y_hashed_SetBlock:
  "pyr_SetBlockByHeight (lib_time (y_lib E)) c p ht ch b = Ret (e, p', b') \<Longrightarrow> y_hashed E b \<Longrightarrow> b' = b"
  by (auto simp: pyr_SetBlockByHeight_def y_hashed_def split: bind_splits ptr.splits prod.splits)

lemma y_hashed_store: "pyr_store_block (y_lib E) c a b = Ret (a', b') \<Longrightarrow> y_hashed E b \<Longrightarrow> b' = b"
  by (auto simp: pyr_store_block_def split: bind_splits dest: y_hashed_SetBlock)

lemma y_hashed_exec: "ExecutionInnerShard (y_lib E) c a b = Ret (r, a', b') \<Longrightarrow> y_hashed E b \<Longrightarrow> b' = b"
  by (auto simp: ExecutionInnerShard_def Let_def split: if_splits bind_splits dest: y_hashed_store)

lemma y_hashed_hash: "pyr_Block_Hash (lib_time (y_lib E)) b = Ret (hs, b') \<Longrightarrow> y_hashed E b \<Longrightarrow> b' = b"
  by (auto simp: y_hashed_def)

lemma process_inner_ok: "go_all (exec_ok E b s) (process_inner E f b s)"
  unfolding process_inner_def Let_def
  by (intro go_all_rules)
    (auto simp: exec_ok_def dest!: y_hashed_exec y_hashed_hash go_allD [OF updateIState_frame] intro: y_frame_trans [OF y_frame_upd(3)])

lemma process_accept_ok: "go_all (exec_ok E b s) (process_accept E cert chain isok b s)"
proof -
  have *: "y_frame s s2" if "updateIState b hs s1 = Ret s2" "y_frame s s1" for s1 s2 hs
    using go_allD [OF updateIState_frame that(1)] that(2) y_frame_trans by blast
  show ?thesis
    unfolding process_accept_def Let_def
    by (intro go_all_rules) (auto simp: exec_ok_def split: if_splits bind_splits dest!: *
        intro: y_frame_trans [OF y_frame_upd(3) pyr_Send_frame(1)])
qed

lemma process_commit_ok: "go_all (exec_ok E b s) (process_commit E f chain b s)"
  unfolding process_commit_def Let_def
  by (intro go_all_rules) (auto simp: exec_ok_def split: if_splits dest!: go_allD [OF updateIStates_frame] intro: y_frame_trans [OF y_frame_upd(3)])

lemma deliver_block_frame: "go_all (y_frame s) (deliver_block E b agg s)"
  unfolding deliver_block_def by (intro go_all_rules pyr_Send_frame y_frame_refl)

lemma exec_ok_after: "go_all (exec_ok E b s1) r \<Longrightarrow> y_frame s s1 \<Longrightarrow> go_all (exec_ok E b s) r"
  by (auto simp: go_all_def exec_ok_def intro: y_frame_trans)

lemma processIBlock_ok: "go_all (exec_ok E b s) (processIBlock E b chain f isok s)"
proof -
  have "go_all (\<lambda>(cert, s1). y_frame s s1)
      (if f then do { aggSig \<leftarrow> own_certificate E s; s1 \<leftarrow> deliver_block E b aggSig s; Ret (Ptr aggSig, s1) } else Ret (Nil_ptr, s))"
    by (intro go_all_rules) (auto dest: go_allD [OF deliver_block_frame])
  then show ?thesis
    unfolding processIBlock_def Let_def
    by (rule go_all_bind)
      (auto intro!: exec_ok_after [OF process_inner_ok] exec_ok_after [OF process_accept_ok] exec_ok_after [OF process_commit_ok] simp: go_all_rules(2))
qed

lemma processBBlock_ok: "go_all (exec_ok E b s) (processBBlock E b f s)"
proof -
  have u: "y_frame s s2" if "updateBState E b' hs c s1 = Ret s2" "y_frame s s1" for b' hs c s1 s2
    using go_allD [OF updateBState_frame that(1)] that(2) y_frame_trans by blast
  have d: "y_frame s s1" if "deliver_block E b agg s = Ret s1" for agg s1
    using go_allD [OF deliver_block_frame that] .
  have "go_all (exec_ok E b s) (process_B_inner E f b s)"
    unfolding process_B_inner_def Let_def
    by (intro go_all_rules) (auto simp: exec_ok_def dest!: y_hashed_exec y_hashed_hash u)
  moreover have "go_all (exec_ok E b s) (process_B_cross E f b s)"
    unfolding process_B_cross_def Let_def
    by (intro go_all_rules) (auto simp: exec_ok_def split: if_splits bind_splits dest!: y_hashed_hash d u)
  moreover have "go_all (exec_ok E b s) (process_B_commit E f b s)"
    unfolding process_B_commit_def Let_def
    by (intro go_all_rules) (auto simp: exec_ok_def split: if_splits bind_splits dest!: u intro: y_frame_trans)
  ultimately show ?thesis by (simp add: processBBlock_def Let_def go_all_rules(2))
qed

text \<open>Recording the block, with the block of the height data hashed already, leaves the height data alone too.\<close>

lemma record_block_frame:
  assumes "ph_Block (y_heightDatas s) = Ptr b" "pyr_Block_Hash (lib_time (y_lib E)) b = Ret (hs, b)"
  shows "go_all (y_frame (s\<lparr>y_LastBlockHash := hs\<rparr>)) (record_block E rcs b s)"
proof -
  have "y_hashed E b" using assms(2) by (auto simp: y_hashed_def)
  then show ?thesis
    unfolding record_block_def
    by (intro go_all_rules) (use assms in \<open>auto dest!: y_hashed_store simp: y_frame_def put_block_def\<close>)
qed

lemma sync_block_frame: "go_all (y_frame s) (sync_block E chain isok i bz s)"
  unfolding sync_block_def
  by (intro go_all_rules) (auto dest!: go_allD [OF processIBlock_ok] simp: exec_ok_def intro: y_frame_trans)

lemma sync_blocks_frame:
  assumes "sync_blocks E chain isok i s = Some (Ret s')"
  shows "y_frame s s'"
proof -
  have "\<forall>t. Ret s' = Ret t \<longrightarrow> y_frame s t"
  proof (rule sync_blocks.raw_induct [where P = "\<lambda>E chain isok i s r. \<forall>t. r = Ret t \<longrightarrow> y_frame s t", rotated, OF assms])
    fix f E chain isok i and s :: PState and y
    assume IH: "\<And>E chain isok i s y. f E chain isok i s = Some y \<Longrightarrow> \<forall>t. y = Ret t \<longrightarrow> y_frame s t"
      and body: "(case GetBlockByHeight (blockDBConn (y_app s)) i chain of Inl x \<Rightarrow> Some (Ret s)
        | Inr Nil_ptr \<Rightarrow> Some (Ret s) | Inr (Ptr bz) \<Rightarrow> (case sync_block E chain isok i bz s of Panic \<Rightarrow> Some Panic
            | Ret s1 \<Rightarrow> f E chain isok (i + 1) s1)) = Some y"
    show "\<forall>t. y = Ret t \<longrightarrow> y_frame s t"
      using body by (auto split: sum.splits ptr.splits option.splits dest!: go_allD [OF sync_block_frame] dest: IH intro: y_frame_trans)
  qed
  then show ?thesis by blast
qed

section \<open>The invariant of a node\<close>

fun msg_ok :: "pmsg \<Rightarrow> bool" where
  "msg_ok (Y_Prevote p) = (pv_VoteType p = VoteTypePrevote)"
| "msg_ok (Y_Precommit p) = (pc_VoteType p = VoteTypePrecommit)"
| "msg_ok _ = True"

definition relay_ok :: "PState \<Rightarrow> bool" where
  "relay_ok s \<longleftrightarrow> (\<forall>n u r ms. y_relay s n = Some u \<longrightarrow> u r = Some ms \<longrightarrow> list_all msg_ok ms)"

definition steps_ok :: "PState \<Rightarrow> bool" where
  "steps_ok s \<longleftrightarrow>
     (y_Step s = RoundStepPrevote \<longrightarrow> ph_PassStep (y_heightDatas s) \<ge> RoundStepPropose) \<and>
     (y_Step s = RoundStepPrecommit \<longrightarrow> ph_PassStep (y_heightDatas s) \<ge> RoundStepPrevote) \<and>
     (y_Step s = RoundStepCommit \<longrightarrow> ph_PassStep (y_heightDatas s) \<ge> RoundStepPrecommit \<and>
        (\<exists>p. ph_Proposal (y_heightDatas s) = Ptr p \<and> y_LastBlockHash s = p_BlockHeaderHash p))"

definition node_ok :: "PEnv \<Rightarrow> string \<Rightarrow> pyr_ShardInfo \<Rightarrow> PState \<Rightarrow> bool" where
  "node_ok E cid si s \<longleftrightarrow> ph_inv (y_tp E) (y_heightDatas s) \<and> ph_Height (y_heightDatas s) = y_Height s \<and>
     ph_Round (y_heightDatas s) = 0 \<and> y_Round s = 0 \<and> ph_MyChainID (y_heightDatas s) = cid \<and> ph_ShardInfo (y_heightDatas s) = si \<and>
     relay_ok s \<and> (psi_IsBShard si \<longrightarrow> bseen s = None) \<and> steps_ok s"

lemma y_frame_node: "node_ok E cid si s \<Longrightarrow> y_frame s s' \<Longrightarrow> node_ok E cid si s'"
  by (simp add: y_frame_def node_ok_def relay_ok_def steps_ok_def)

definition hd_keeps :: "pyr_thirdparty \<Rightarrow> PHeightData \<Rightarrow> PHeightData \<Rightarrow> bool" where
  "hd_keeps tp h h' \<longleftrightarrow> (ph_inv tp h \<longrightarrow> ph_inv tp h') \<and> ph_frame h h' \<and> ph_PassStep h \<le> ph_PassStep h' \<and>
     (ph_Proposal h \<noteq> Nil_ptr \<longrightarrow> ph_Proposal h' = ph_Proposal h)"

lemma hd_keeps_node: "node_ok E cid si s \<Longrightarrow> hd_keeps (y_tp E) (y_heightDatas s) h \<Longrightarrow> node_ok E cid si (s\<lparr>y_heightDatas := h\<rparr>)"
  by (auto simp: hd_keeps_def node_ok_def relay_ok_def steps_ok_def ph_frame_def)

lemma ph_fills_keeps: "ph_fills h h' \<and> ph_block_ok tp h' \<Longrightarrow> hd_keeps tp h h'"
  using ph_fills_inv [of tp h h'] by (auto simp: hd_keeps_def ph_fills_def)

lemma pyr_AddPart_keeps: "ph_inv tp h \<Longrightarrow> go_all (\<lambda>(e, h'). hd_keeps tp h h') (pyr_AddPart tp h p)"
  by (auto simp: go_all_def ph_inv_def intro!: ph_fills_keeps dest!: pyr_AddPart_fills)

lemma AddProposal_keeps: "ph_inv tp h \<Longrightarrow> go_all (\<lambda>(e, h'). hd_keeps tp h h') (pyr_AddProposal tp h p i)"
  by (auto simp: go_all_def ph_inv_def intro!: ph_fills_keeps dest!: pyr_AddProposal_fills)

lemma AddVote_pass:
  "go_all (\<lambda>(e, h'). ph_PassStep h' = ph_PassStep h \<and> ph_Proposal h' = ph_Proposal h) (pyr_AddPrevote tp h v)"
  "go_all (\<lambda>(e, h'). ph_PassStep h' = ph_PassStep h \<and> ph_Proposal h' = ph_Proposal h) (pyr_AddPrecommit tp h c)"
  unfolding pyr_AddPrevote_def pyr_AddPrecommit_def by (intro go_all_rules; simp)+

lemma AddPrevote_keeps:
  "ph_inv tp h \<Longrightarrow> pv_VoteType v = VoteTypePrevote \<Longrightarrow> go_all (\<lambda>(e, h'). hd_keeps tp h h') (pyr_AddPrevote tp h v)"
  using AddVote_pass(1) [of h tp v] pyr_AddPrevote_inv [of tp h v] by (fastforce simp: go_all_def hd_keeps_def)

lemma AddPrecommit_keeps:
  "ph_inv tp h \<Longrightarrow> pc_VoteType c = VoteTypePrecommit \<Longrightarrow> go_all (\<lambda>(e, h'). hd_keeps tp h h') (pyr_AddPrecommit tp h c)"
  using AddVote_pass(2) [of h tp c] pyr_AddPrecommit_inv [of tp h c] by (fastforce simp: go_all_def hd_keeps_def)

lemma passes_keeps: "ph_passes tp n h ok h' \<Longrightarrow> hd_keeps tp h h'"
  by (auto simp: ph_passes_def hd_keeps_def ph_frame_def)

section \<open>Adding a message\<close>

lemma add_result_ok:
  assumes "node_ok E cid si s" "go_all (\<lambda>(e, h'). hd_keeps (y_tp E) (y_heightDatas s) h') r"
  shows "go_all (\<lambda>(e, go_on, s'). node_ok E cid si s') (r \<bind> add_result s)"
proof -
  have "add_result s (e, h) = Ret x \<Longrightarrow> snd (snd x) = s\<lparr>y_heightDatas := h\<rparr>" for e h x
    by (auto simp: add_result_def split: ptr.splits PHDError.splits)
  then show ?thesis
    using assms hd_keeps_node [OF assms(1)] by (fastforce simp: go_all_def split: bind_splits)
qed

lemma add_CSB_frame: "run_all (\<lambda>(e, go_on, s'). y_frame s s') (add_CSB E m s)"
  unfolding add_CSB_def Let_def
  by (intro run_all_rules go_all_rules)
    (auto dest!: sync_blocks_frame simp: SetBlockStore_def y_frame_def)

lemma add_Accept_frame: "go_all (\<lambda>(e, go_on, s'). y_frame s s') (add_Accept E m s)"
  unfolding add_Accept_def Let_def by (intro go_all_rules; simp)

lemma add_Commit_frame: "go_all (\<lambda>(e, go_on, s'). y_frame s s') (add_Commit E m s)"
  unfolding add_Commit_def Let_def by (intro go_all_rules; simp)

lemma add_message_ok:
  assumes "node_ok E cid si s" "msg_ok m"
  shows "run_all (\<lambda>(e, go_on, s'). node_ok E cid si s') (pyr_add_message E m s)"
proof -
  have inv: "ph_inv (y_tp E) (y_heightDatas s)" using assms(1) by (simp add: node_ok_def)
  have fr: "go_all (\<lambda>(e, go_on, s'). y_frame s s') r \<Longrightarrow> go_all (\<lambda>(e, go_on, s'). node_ok E cid si s') r" for r :: "added go"
    by (erule go_all_mono) (use y_frame_node [OF assms(1)] in auto)
  show ?thesis
  proof (cases m)
    case (Y_Part p)
    then show ?thesis using add_result_ok [OF assms(1) pyr_AddPart_keeps [OF inv]] by (simp add: pyr_add_message_def run_all_rules(1))
  next
    case (Y_Proposal p)
    then show ?thesis unfolding pyr_add_message_def Let_def Y_Proposal pmsg.case
      by (intro run_all_rules(1)) (auto intro!: go_all_rules(3) add_result_ok [OF assms(1) AddProposal_keeps [OF inv]])
  next
    case (Y_Prevote p)
    then show ?thesis using add_result_ok [OF assms(1) AddPrevote_keeps [OF inv]] assms(2)
      by (simp add: pyr_add_message_def run_all_rules(1))
  next
    case (Y_Precommit p)
    then show ?thesis using add_result_ok [OF assms(1) AddPrecommit_keeps [OF inv]] assms(2)
      by (simp add: pyr_add_message_def run_all_rules(1))
  next
    case (Y_CSB c)
    then show ?thesis using add_CSB_frame [of s E c] y_frame_node [OF assms(1)]
      by (fastforce simp: pyr_add_message_def run_all_def)
  next
    case (Y_Accept a)
    then show ?thesis using fr [OF add_Accept_frame] by (simp add: pyr_add_message_def run_all_rules(1))
  next
    case (Y_Commit c)
    then show ?thesis using fr [OF add_Commit_frame] by (simp add: pyr_add_message_def run_all_rules(1))
  next
    case (Y_OK k)
    then show ?thesis using assms(1)
      by (auto simp: pyr_add_message_def run_all_def add_OK_def node_ok_def relay_ok_def steps_ok_def split: if_splits option.splits)
  qed
qed

lemma node_ok_relay: "node_ok E cid si s \<Longrightarrow> relay_ok (s\<lparr>y_relay := R\<rparr>) \<Longrightarrow> node_ok E cid si (s\<lparr>y_relay := R\<rparr>)"
  by (simp add: node_ok_def steps_ok_def)

lemma addRelay_ok:
  assumes "node_ok E cid si s" "msg_ok m" "pyr_addRelayMessageIfOverTime s ht rnd m = (b, s')"
  shows "node_ok E cid si s'"
proof (cases "s' = s")
  case False
  let ?u = "case y_relay s ht of None \<Rightarrow> [rnd \<mapsto> [m]] | Some u \<Rightarrow> u(rnd \<mapsto> map_get [] u rnd @ [m])"
  have s': "s' = s\<lparr>y_relay := (y_relay s)(ht \<mapsto> ?u)\<rparr>"
    using assms(3) False by (auto simp: pyr_addRelayMessageIfOverTime_def split: if_splits option.splits)
  have r: "relay_ok s" using assms(1) by (simp add: node_ok_def)
  have "list_all msg_ok ms" if ms: "?u r = Some ms" for r ms
  proof (cases "y_relay s ht")
    case None
    then show ?thesis using ms assms(2) by (auto split: if_splits)
  next
    case (Some u)
    have old: "u k = Some xs \<Longrightarrow> list_all msg_ok xs" for k xs using r Some unfolding relay_ok_def by blast
    then have "list_all msg_ok (map_get [] u k)" for k by (cases "u k") (simp_all add: map_get_def)
    then show ?thesis using ms Some assms(2) old by (auto split: if_splits)
  qed
  then have "relay_ok s'" using r unfolding s' relay_ok_def by (auto split: if_splits)
  then show ?thesis using assms(1) node_ok_relay unfolding s' by blast
qed (use assms in simp)

definition rec_ok :: "PEnv \<Rightarrow> string \<Rightarrow> pyr_ShardInfo \<Rightarrow> (PState \<Rightarrow> PState run) \<Rightarrow> bool" where
  "rec_ok E cid si rec \<longleftrightarrow> (\<forall>s. node_ok E cid si s \<longrightarrow> run_all (node_ok E cid si) (rec s))"

lemma doMessage_ok:
  assumes "node_ok E cid si s" "msg_ok m" "rec_ok E cid si rec"
  shows "run_all (\<lambda>(e, s'). node_ok E cid si s') (pyr_doMessage E rec m s)"
proof -
  obtain b s1 where b: "(case pyr_msg_slot m of None \<Rightarrow> (False, s) | Some (ht, rnd) \<Rightarrow> pyr_addRelayMessageIfOverTime s ht rnd m) = (b, s1)"
    by fastforce
  then have s1: "node_ok E cid si s1" using assms(1) addRelay_ok [OF assms(1,2)] by (auto split: option.splits)
  show ?thesis
  proof (cases b)
    case True
    then show ?thesis using b s1 by (simp add: pyr_doMessage_def run_all_def)
  next
    case False
    have "run_all (\<lambda>(e, s'). node_ok E cid si s') (run_bind (pyr_add_message E m s1)
        (\<lambda>(e, go_on, s2). if go_on then run_bind (rec s2) (\<lambda>s3. Some (Ret (e, s3))) else Some (Ret (e, s2))))"
      by (rule run_all_bind [OF add_message_ok [OF s1 assms(2)]])
        (use assms(3) in \<open>auto simp: rec_ok_def run_all_def run_bind_Ret split: if_splits\<close>)
    then show ?thesis using b False by (simp add: pyr_doMessage_def)
  qed
qed

lemma relay_messages_ok:
  "node_ok E cid si s \<Longrightarrow> list_all msg_ok ms \<Longrightarrow> rec_ok E cid si rec \<Longrightarrow> run_all (node_ok E cid si) (pyr_relay_messages E rec ms s)"
proof (induction ms arbitrary: s)
  case (Cons m ms)
  show ?case unfolding pyr_relay_messages.simps
    by (rule run_all_bind [OF doMessage_ok [OF Cons.prems(1) _ Cons.prems(3)]]) (use Cons in auto)
qed (simp add: run_all_def)

section \<open>Steps\<close>

text \<open>The proposer's own block is built for this height; its part set announces its hash.\<close>

lemma pyr_send_parts_frame: "go_all (y_frame s) (pyr_send_parts E qs s)"
proof (induction qs arbitrary: s)
  case (Cons q qs)
  show ?case unfolding pyr_send_parts.simps
    by (intro go_all_rules) (rule go_all_mono [OF Cons.IH], rule y_frame_trans [OF pyr_Send_frame(2)])
qed (simp add: go_all_def)

lemma propose_block_ok:
  assumes "node_ok E cid si s" "ph_PassStep (y_heightDatas s) < RoundStepPropose" "ph_Proposal (y_heightDatas s) = Nil_ptr"
    and ps: "pyr_PartSetFromBlock (lib_time (y_lib E)) c (block_header E s b) n (y_Round s) = Some (Ret (part_set, b'))"
  shows "go_all (\<lambda>s'. node_ok E cid si s' \<and> y_Height s' = y_Height s) (pyr_propose_block E b' part_set s)"
proof -
  let ?h = "\<lambda>p. (y_heightDatas s)\<lparr>ph_Block := Ptr b', ph_PartSet := Ptr part_set, ph_Proposal := Ptr p\<rparr>"
  have keeps: "hd_keeps (y_tp E) (y_heightDatas s) (?h p)"
    if "p_Header p = ps_Header part_set" "p_BlockHeaderHash p = ps_BlockHeaderHash part_set" for p
  proof -
    have "ph_inv (y_tp E) (?h p)"
      by (rule own_inv [where b = "block_header E s b" and c = c and n = n])
        (use assms that in \<open>simp_all add: node_ok_def block_header_def Let_def y_tp_def\<close>)
    then show ?thesis using assms(3) by (simp add: hd_keeps_def ph_frame_def)
  qed
  have ok: "node_ok E cid si (s\<lparr>y_heightDatas := ?h p\<rparr>)"
    if "p_Header p = ps_Header part_set" "p_BlockHeaderHash p = ps_BlockHeaderHash part_set" for p
    using hd_keeps_node [OF assms(1) keeps [OF that]] by simp
  have last: "go_all (\<lambda>s'. node_ok E cid si s' \<and> y_Height s' = y_Height s) (pyr_send_parts E qs (pyr_SendInternal bz t (s\<lparr>y_heightDatas := ?h p\<rparr>)))"
    if "p_Header p = ps_Header part_set" "p_BlockHeaderHash p = ps_BlockHeaderHash part_set" for p qs bz t
  proof (rule go_all_mono [OF pyr_send_parts_frame])
    fix x assume "y_frame (pyr_SendInternal bz t (s\<lparr>y_heightDatas := ?h p\<rparr>)) x"
    then have f: "y_frame (s\<lparr>y_heightDatas := ?h p\<rparr>) x" using y_frame_trans [OF pyr_Send_frame(2)] by blast
    then show "node_ok E cid si x \<and> y_Height x = y_Height s" using y_frame_node [OF ok [OF that]] by (simp add: y_frame_def)
  qed
  show ?thesis unfolding pyr_propose_block_def Let_def
    by (intro go_all_rules last) (simp_all add: NewProposal_def)
qed

lemma createBlock_ok:
  assumes "node_ok E cid si s" "ph_PassStep (y_heightDatas s) < RoundStepPropose" "ph_Proposal (y_heightDatas s) = Nil_ptr"
  shows "run_all (\<lambda>s'. node_ok E cid si s' \<and> y_Height s' = y_Height s) (pyr_createBlockAndBroadcast E s)"
  unfolding pyr_createBlockAndBroadcast_def
  by (intro run_all_rules) (auto intro: propose_block_ok [OF assms])

text \<open>Own votes.\<close>

lemma own_prevote_type: "pv_VoteType (Prevote_SetOK (NewPrevote h r hs i) ok\<lparr>pv_Signature := x\<rparr>) = VoteTypePrevote"
  by (simp add: Prevote_SetOK_def NewPrevote_def)

lemma own_precommit_type: "pc_VoteType (Precommit_SetOK (NewPrecommit h r hs i) ok\<lparr>pc_Signature := x\<rparr>) = VoteTypePrecommit"
  by (simp add: Precommit_SetOK_def NewPrecommit_def)

lemma node_inv: "node_ok E cid si s \<Longrightarrow> ph_inv (y_tp E) (y_heightDatas s)"
  by (simp add: node_ok_def)

lemma cast_prevote_ok:
  assumes "node_ok E cid si s"
  shows "go_all (\<lambda>s'. node_ok E cid si s' \<and> y_Step s' = y_Step s \<and> ph_PassStep (y_heightDatas s) \<le> ph_PassStep (y_heightDatas s'))
    (cast_prevote E ok s)"
  unfolding cast_prevote_def Let_def
proof (intro go_all_rules)
  fix sig r e h bz
  let ?v = "Prevote_SetOK (NewPrevote (y_Height s) (y_Round s) (y_BlockHash s) (y_signerIndex s)) ok\<lparr>pv_Signature := sig\<rparr>"
  assume "pyr_AddPrevote (y_tp E) (y_heightDatas s) ?v = Ret r" "r = (e, h)"
  then have k: "hd_keeps (y_tp E) (y_heightDatas s) h"
    using go_allD [OF AddPrevote_keeps [OF node_inv [OF assms] own_prevote_type]] by fastforce
  have "node_ok E cid si (pyr_SendInternal bz PMsgPrevote (s\<lparr>y_heightDatas := h\<rparr>))"
    using y_frame_node [OF hd_keeps_node [OF assms k]] by simp
  then show "node_ok E cid si (pyr_SendInternal bz PMsgPrevote (s\<lparr>y_heightDatas := h\<rparr>)) \<and>
      y_Step (pyr_SendInternal bz PMsgPrevote (s\<lparr>y_heightDatas := h\<rparr>)) = y_Step s \<and>
      ph_PassStep (y_heightDatas s) \<le> ph_PassStep (y_heightDatas (pyr_SendInternal bz PMsgPrevote (s\<lparr>y_heightDatas := h\<rparr>)))"
    using k by (simp add: pyr_SendInternal_def hd_keeps_def)
qed

lemma Next_ok:
  assumes "node_ok E cid si s" "y_Step s \<noteq> RoundStepCommit" "steps_ok (s\<lparr>y_Step := y_Step s + 1\<rparr>)"
  shows "node_ok E cid si (pyr_Next s)"
  using assms by (simp add: pyr_Next_def node_ok_def relay_ok_def)

lemma put_block_ok:
  assumes "node_ok E cid si s" "ph_Block (y_heightDatas s) = Ptr b" "pyr_Block_Hash (lib_time (y_lib E)) b = Ret (hs, b')"
  shows "b' = b" "y_hashed E b"
proof -
  have "ph_block_ok (y_tp E) (y_heightDatas s)" using node_inv [OF assms(1)] by (simp add: ph_inv_def)
  then have "\<exists>x. pyr_Block_Hash (lib_time (y_lib E)) b = Ret (x, b)"
    using assms(2) by (auto simp: ph_block_ok_def y_tp_def)
  then show "b' = b" "y_hashed E b" using assms(3) by (auto simp: y_hashed_def)
qed

lemma doPropose_ok:
  assumes "node_ok E cid si s" "y_Step s = RoundStepPropose" "ph_PassStep (y_heightDatas s) \<ge> RoundStepPropose"
  shows "go_all (node_ok E cid si) (pyr_doPropose E s)"
  unfolding pyr_doPropose_def Let_def
proof (intro go_all_rules)
  fix b0 r hs b q flag pvote s2
  let ?s1 = "put_block b (s\<lparr>y_BlockHash := hs\<rparr>)"
  assume b: "pyr_need_block s = Ret b0" "pyr_Block_Hash (lib_time (y_lib E)) b0 = Ret r" "r = (hs, b)"
    and c: "cast_prevote E pvote ?s1 = Ret s2"
  have "ph_Block (y_heightDatas s) = Ptr b0" using b(1) by (auto simp: pyr_need_block_def split: ptr.splits)
  then have "?s1 = s\<lparr>y_BlockHash := hs\<rparr>" using put_block_ok(1) [OF assms(1)] b by (simp add: put_block_def)
  then have s1: "node_ok E cid si ?s1" "y_Step ?s1 = RoundStepPropose" "ph_PassStep (y_heightDatas ?s1) \<ge> RoundStepPropose"
    using assms by (simp_all add: node_ok_def relay_ok_def steps_ok_def)
  show "node_ok E cid si (pyr_Next s2)"
    using go_allD [OF cast_prevote_ok [OF s1(1)] c] s1(2,3)
    by (intro Next_ok) (auto simp: steps_ok_def pyr_round_step_defs)
qed

lemma doPrevote_ok:
  assumes "node_ok E cid si s" "y_Step s = RoundStepPrevote" "ph_PassStep (y_heightDatas s) \<ge> RoundStepPrevote"
  shows "go_all (node_ok E cid si) (pyr_doPrevote E s)"
  unfolding pyr_doPrevote_def Let_def
proof (intro go_all_rules)
  fix x bz ok sig r e h out
  let ?c = "Precommit_SetOK (NewPrecommit (y_Height s) (y_Round s) bz (y_signerIndex s)) ok\<lparr>pc_Signature := sig\<rparr>"
  let ?s = "pyr_SendInternal out PMsgPrecommit (s\<lparr>y_heightDatas := h\<rparr>)"
  assume "pyr_AddPrecommit (y_tp E) (y_heightDatas s) ?c = Ret r" "r = (e, h)"
  then have k: "hd_keeps (y_tp E) (y_heightDatas s) h"
    using go_allD [OF AddPrecommit_keeps [OF node_inv [OF assms(1)] own_precommit_type]] by fastforce
  have "node_ok E cid si ?s" using y_frame_node [OF hd_keeps_node [OF assms(1) k]] by simp
  moreover have "y_Step ?s = RoundStepPrevote" "ph_PassStep (y_heightDatas ?s) \<ge> RoundStepPrevote"
    using assms k by (simp_all add: pyr_SendInternal_def hd_keeps_def)
  ultimately show "node_ok E cid si (pyr_Next ?s)" by (intro Next_ok) (auto simp: steps_ok_def pyr_round_step_defs)
qed

lemma doPrecommit_ok:
  assumes "node_ok E cid si s" "y_Step s = RoundStepPrecommit" "ph_PassStep (y_heightDatas s) \<ge> RoundStepPrecommit"
  shows "go_all (node_ok E cid si) (pyr_doPrecommit E s)"
proof -
  have main: "node_ok E cid si (pyr_Next s2)"
    if b: "pyr_need_block s = Ret b" and e: "exec_ok E b s (r, b1, s1)" and rc: "record_block E rcs b1 s1 = Ret s2" for b r b1 s1 rcs s2
  proof -
    have hb: "ph_Block (y_heightDatas s) = Ptr b" using b by (auto simp: pyr_need_block_def split: ptr.splits)
    have "ph_block_ok (y_tp E) (y_heightDatas s)" using node_inv [OF assms(1)] by (simp add: ph_inv_def)
    then obtain p where p: "ph_Proposal (y_heightDatas s) = Ptr p" "pyr_Block_Hash (lib_time (y_lib E)) b = Ret (p_BlockHeaderHash p, b)"
      using hb by (auto simp: ph_block_ok_def y_tp_def)
    then have f: "b1 = b" "y_frame s s1" using e by (auto simp: exec_ok_def y_hashed_def)
    have hb1: "ph_Block (y_heightDatas s1) = Ptr b" using f(2) hb by (simp add: y_frame_def)
    let ?t = "\<lambda>s. s\<lparr>y_LastBlockHash := p_BlockHeaderHash p\<rparr>"
    have "y_frame (?t s1) s2" using go_allD [OF record_block_frame [OF hb1 p(2)]] rc f(1) by blast
    then have f2: "y_frame (?t s) s2" using f(2) by (simp add: y_frame_def)
    have "node_ok E cid si (?t s)" using assms(1,2) by (simp add: node_ok_def relay_ok_def steps_ok_def pyr_round_step_defs)
    then show ?thesis
      using y_frame_node [OF _ f2] f2 assms(2,3) p(1) by (intro Next_ok) (auto simp: y_frame_def steps_ok_def pyr_round_step_defs)
  qed
  let ?k = "\<lambda>((resp :: pyr_Response, _ :: int \<times> int \<times> int), block1, s1). do { s2 \<leftarrow> record_block E (Receipts resp) block1 s1; Ret (pyr_Next s2) }"
  have k: "go_all (node_ok E cid si) (?k r)" if "pyr_need_block s = Ret b" "exec_ok E b s r" for b r
    using that by (cases r) (auto intro!: go_all_rules(3) go_all_rules(1) intro: main)
  have e: "go_all (exec_ok E b s) (if y_IsIShard s then processIBlock E b (ph_MyChainID (y_heightDatas s)) True False s
      else processBBlock E b True s)" for b
    by (simp add: processIBlock_ok processBBlock_ok)
  show ?thesis unfolding pyr_doPrecommit_def
    by (rule go_all_rules(3), rule go_all_bind [OF e]) (rule k)
qed

section \<open>Transitions\<close>

lemma reset_height_ok:
  assumes "node_ok E cid si s"
  shows "\<exists>s'. pyr_reset_height s = Ret s' \<and> node_ok E cid si s' \<and> y_Height s' = y_Height s + 1 \<and> y_Step s' = RoundStepNewHeight \<and>
    ph_PassStep (y_heightDatas s') = RoundStepNewHeight \<and> ph_Proposal (y_heightDatas s') = Nil_ptr \<and>
    y_relay s' = (y_relay s)(y_Height s := None) \<and> y_signerIndex s' = y_signerIndex s \<and>
    ph_AllValidatorSet (y_heightDatas s') = ph_AllValidatorSet (y_heightDatas s)"
proof -
  obtain h where h: "pyr_NextHeight (y_heightDatas s) = Ret h" "ph_inv (y_tp E) h" "ph_PassStep h = RoundStepNewHeight"
    "ph_Height h = ph_Height (y_heightDatas s) + 1" "ph_Round h = 0" "ph_MyChainID h = cid" "ph_ShardInfo h = si"
    "ph_AllValidatorSet h = ph_AllValidatorSet (y_heightDatas s)" "ph_Proposal h = Nil_ptr"
    using pyr_NextHeight_inv [OF node_inv [OF assms]] assms by (auto simp: node_ok_def)
  let ?s = "pyr_Next (if y_IsIShard s then s\<lparr>y_Step := RoundStepCommit, bcount := int (length (y_related s)), bseen := Some Map.empty\<rparr>
    else s\<lparr>y_Step := RoundStepCommit\<rparr>)"
  have e: "pyr_reset_height s = Ret (?s\<lparr>y_heightDatas := h\<rparr>)"
    using h(1) by (simp add: pyr_reset_height_def pyr_Next_def y_IsIShard_def)
  have "psi_IsBShard si \<longrightarrow> \<not> y_IsIShard s"
    using assms by (auto simp: node_ok_def y_IsIShard_def ph_IsIShard_def psi_IsIShard_def psi_IsBShard_def BLOCKTYPE_I_def BLOCKTYPE_B_def)
  then have "node_ok E cid si (?s\<lparr>y_heightDatas := h\<rparr>)"
    using assms h by (auto simp: node_ok_def pyr_Next_def relay_ok_def steps_ok_def pyr_round_step_defs)
  then show ?thesis using e h by (simp add: pyr_Next_def)
qed

lemma enterNewRound_ok:
  assumes "node_ok E cid si s" "ph_PassStep (y_heightDatas s) < RoundStepPropose" "ph_Proposal (y_heightDatas s) = Nil_ptr" "rec_ok E cid si rec"
  shows "run_all (node_ok E cid si) (pyr_enterNewRound E rec s)"
proof -
  have s0: "node_ok E cid si (s\<lparr>y_Step := RoundStepPropose\<rparr>)" "ph_PassStep (y_heightDatas (s\<lparr>y_Step := RoundStepPropose\<rparr>)) < RoundStepPropose"
    "ph_Proposal (y_heightDatas (s\<lparr>y_Step := RoundStepPropose\<rparr>)) = Nil_ptr"
    using assms by (simp_all add: node_ok_def relay_ok_def steps_ok_def pyr_round_step_defs)
  have c: "run_all (node_ok E cid si) (if p then pyr_createBlockAndBroadcast E (s\<lparr>y_Step := RoundStepPropose\<rparr>) else Some (Ret (s\<lparr>y_Step := RoundStepPropose\<rparr>)))" for p
    using createBlock_ok [OF s0] s0(1) by (auto simp: run_all_def)
  have m: "list_all msg_ok ms" if "node_ok E cid si s1" "y_relay s1 n = Some u" "u r = Some ms" for s1 n u r ms
    using that by (auto simp: node_ok_def relay_ok_def)
  show ?thesis unfolding pyr_enterNewRound_def Let_def
    by (rule run_all_rules(2), rule run_all_bind [OF c])
      (auto intro: relay_messages_ok m assms(4) simp: run_all_def split: option.splits dest: run_allD [OF relay_messages_ok])
qed

lemma enterNewHeight_ok:
  assumes "node_ok E cid si s" "rec_ok E cid si rec"
  shows "run_all (node_ok E cid si) (pyr_enterNewHeight E rec s)"
proof -
  obtain s' where "pyr_reset_height s = Ret s'" "node_ok E cid si s'" "ph_PassStep (y_heightDatas s') = RoundStepNewHeight"
    "ph_Proposal (y_heightDatas s') = Nil_ptr"
    using reset_height_ok [OF assms(1)] by blast
  then show ?thesis using enterNewRound_ok [OF _ _ _ assms(2)] by (simp add: pyr_enterNewHeight_def pyr_round_step_defs)
qed

lemma finish_commit_frame: "go_all (y_frame s) (finish_commit E s)"
  unfolding finish_commit_def by (intro go_all_rules pyr_Send_frame y_frame_refl)

lemma transition_ok:
  assumes "node_ok E cid si s" "rec_ok E cid si rec"
  shows "run_all (node_ok E cid si) (pyr_transition E rec s)"
proof -
  have step: "run_all (node_ok E cid si) (run_bind (Some r)
      (\<lambda>(ok, h'). if ok then run_bind (Some (f (s\<lparr>y_heightDatas := h'\<rparr>))) rec else Some (Ret (s\<lparr>y_heightDatas := h'\<rparr>))))"
    if p: "\<And>ok h. r = Ret (ok, h) \<Longrightarrow> ph_passes (y_tp E) n (y_heightDatas s) ok h"
      and f: "\<And>s1. node_ok E cid si s1 \<Longrightarrow> y_Step s1 = y_Step s \<Longrightarrow> ph_PassStep (y_heightDatas s1) \<ge> n \<Longrightarrow> go_all (node_ok E cid si) (f s1)" for r f n
  proof (rule run_all_rules(2), clarsimp, intro conjI impI)
    fix ok h assume r: "r = Ret (ok, h)"
    then have k: "node_ok E cid si (s\<lparr>y_heightDatas := h\<rparr>)" using hd_keeps_node [OF assms(1) passes_keeps [OF p]] by blast
    then show "run_all (node_ok E cid si) (Some (Ret (s\<lparr>y_heightDatas := h\<rparr>)))" by (simp add: run_all_def)
    assume ok
    then have "go_all (node_ok E cid si) (f (s\<lparr>y_heightDatas := h\<rparr>))" using f [OF k] p [OF r] by (simp add: ph_passes_def)
    then show "run_all (node_ok E cid si) (run_bind (Some (f (s\<lparr>y_heightDatas := h\<rparr>))) rec)"
      using assms(2) by (auto simp: run_all_def run_bind_Ret go_all_def rec_ok_def)
  qed
  have inv: "ph_inv (y_tp E) (y_heightDatas s)" by (rule node_inv [OF assms(1)])
  consider "y_Step s = RoundStepPropose" | "y_Step s = RoundStepPrevote" | "y_Step s = RoundStepPrecommit" | "y_Step s = RoundStepCommit" "commit_done s"
    | "y_Step s \<notin> {RoundStepPropose, RoundStepPrevote, RoundStepPrecommit}" "\<not> (y_Step s = RoundStepCommit \<and> commit_done s)"
    by blast
  then show ?thesis
  proof cases
    case 1
    then show ?thesis using step [OF pyr_FinishProposal_inv [OF _ inv] doPropose_ok] by (simp add: pyr_transition_def Let_def)
  next
    case 2
    then show ?thesis using step [OF pyr_FinishPrevote_inv [OF _ inv] doPrevote_ok] by (simp add: pyr_transition_def Let_def pyr_round_step_defs)
  next
    case 3
    then show ?thesis using step [OF pyr_FinishPrecommit_inv [OF _ inv] doPrecommit_ok] by (simp add: pyr_transition_def Let_def pyr_round_step_defs)
  next
    case 4
    have "run_all (node_ok E cid si) (run_bind (Some (finish_commit E s)) (pyr_enterNewHeight E rec))"
      by (rule run_all_bind [OF run_all_rules(1) [OF finish_commit_frame]])
        (intro enterNewHeight_ok [OF y_frame_node [OF assms(1)] assms(2)])
    then have "run_all (node_ok E cid si) (run_bind (run_bind (Some (finish_commit E s)) (pyr_enterNewHeight E rec)) rec)"
      by (rule run_all_bind) (use assms(2) in \<open>simp add: rec_ok_def\<close>)
    then show ?thesis using 4 by (simp add: pyr_transition_def Let_def pyr_round_step_defs)
  next
    case 5
    then show ?thesis using assms(1) by (auto simp: pyr_transition_def Let_def run_all_def)
  qed
qed

lemma handle_ok: "rec_ok E cid si (pyr_handleStateTransition E n)"
  by (induction n) (auto simp: rec_ok_def run_all_def dest: run_allD [OF transition_ok])

section \<open>Runs\<close>

inductive pyr_reach :: "PEnv \<Rightarrow> PState \<Rightarrow> PState \<Rightarrow> bool" for E s0 where
  new: "pyr_reach E s0 s0"
| start: "pyr_reach E s0 s \<Longrightarrow> pyr_Start E n s = Some (Ret s') \<Longrightarrow> pyr_reach E s0 s'"
| receive: "pyr_reach E s0 s \<Longrightarrow> pyr_Receive E n bz t s = Some (Ret (e, s')) \<Longrightarrow> pyr_reach E s0 s'"

definition pyr_new_node :: "PEnv \<Rightarrow> string \<Rightarrow> pyr_ShardInfo \<Rightarrow> PState \<Rightarrow> bool" where
  "pyr_new_node E cid si s \<longleftrightarrow> pyr_shard_ok si cid \<and>
     (\<exists>signer i mp cmp app kv now interval size num.
        pyr_NewConsensusState (y_bls E) cid si signer i mp cmp app kv now interval size num = Ret s)"

lemma new_node_ok: "pyr_new_node E cid si s \<Longrightarrow> node_ok E cid si s \<and> y_Height s = 0"
proof -
  assume n: "pyr_new_node E cid si s"
  then have "pyr_shard_ok si cid" by (simp add: pyr_new_node_def)
  then obtain h where h: "pyr_NewHeightData (y_bls E) cid 0 si = Ret h" "ph_inv (y_tp E) h" "ph_PassStep h = RoundStepNewHeight"
    "ph_Height h = 0" "ph_Round h = 0" "ph_MyChainID h = cid" "ph_ShardInfo h = si"
    using pyr_NewHeightData_inv [of si cid "y_tp E" 0] by (auto simp: y_tp_def)
  then show ?thesis
    using n by (auto simp: pyr_new_node_def pyr_NewConsensusState_def node_ok_def relay_ok_def steps_ok_def pyr_round_step_defs)
qed

lemma wrong_None: "wrong f r = None \<Longrightarrow> r = Inr ()"
  by (auto simp: wrong_def split: sum.splits)

lemma pyr_decode_ok:
  "(\<And>x. check x = None \<Longrightarrow> P (con x)) \<Longrightarrow> go_all (\<lambda>r. \<forall>m. r = Inr m \<longrightarrow> P m) (pyr_decode parse check con bz)"
  by (auto simp: pyr_decode_def go_all_def split: bind_splits ptr.splits option.splits)

text \<open>Messages that pass the basic checks are votes of the right type.\<close>

lemma decode_msg_ok: "go_all (\<lambda>r. \<forall>m. r = Inr m \<longrightarrow> msg_ok m) (pyr_decode_message E bz t)"
  unfolding pyr_decode_message_def Let_def
  by (intro go_all_rules(4) pyr_decode_ok)
    (auto simp: go_all_def dest!: wrong_None intro: ValidateBasic_type)

lemma reach_ok: "pyr_reach E s0 s \<Longrightarrow> pyr_new_node E cid si s0 \<Longrightarrow> node_ok E cid si s"
proof (induction rule: pyr_reach.induct)
  case new
  then show ?case using new_node_ok by blast
next
  case (start s n s')
  have "run_all (node_ok E cid si) (pyr_Start E n s)"
    using enterNewHeight_ok [OF start.IH [OF start.prems] handle_ok] handle_ok [of E cid si n] start.IH [OF start.prems]
    by (simp add: pyr_Start_def rec_ok_def)
  then show ?case using start.hyps(2) by (rule run_allD)
next
  case (receive s n bz t e s')
  have d: "run_all (\<lambda>(e, s'). node_ok E cid si s') (pyr_doMessage E (pyr_handleStateTransition E n) m s)"
    if "pyr_decode_message E bz t = Ret (Inr m)" for m
    using doMessage_ok [OF receive.IH [OF receive.prems] _ handle_ok] go_allD [OF decode_msg_ok that] by blast
  have "run_all (\<lambda>(e, s'). node_ok E cid si s') (pyr_Receive E n bz t s)"
    unfolding pyr_Receive_def
  proof (rule run_all_rules(2))
    fix r assume r: "Some (pyr_decode_message E bz t) = Some (Ret r)"
    show "run_all (\<lambda>(e, s'). node_ok E cid si s') (case r of Inl e \<Rightarrow> Some (Ret (Ptr e, s))
      | Inr m \<Rightarrow> run_bind (pyr_doMessage E (pyr_handleStateTransition E n) m s)
          (\<lambda>(e, s'). Some (Ret (case e of Nil_ptr \<Rightarrow> Nil_ptr | Ptr x \<Rightarrow> Ptr (PFailed x), s'))))"
    proof (cases r)
      case (Inl e)
      then show ?thesis using receive.IH [OF receive.prems] by (simp add: run_all_def)
    next
      case (Inr m)
      then show ?thesis using d [of m] r by (fastforce simp: run_all_def run_bind_Ret)
    qed
  qed
  then show ?case using receive.hyps(2) by (fastforce simp: run_all_def)
qed

end
