(* ===== verification/PyrDemo.thy ===== *)
theory PyrDemo
  imports PyrNode
begin

text \<open>
  A run of one node of the pyramid protocol (\<open>pyramid/consensus/main.go\<close>) for the instances of the properties
  of \<open>PyrRuns\<close>: the second of two validators of an inner shard, with three quarters of the voting power and
  two boundary shards next to it. It proposes the block of height 1, agrees on it and waits for both shards.
\<close>

section \<open>The node\<close>

definition solo_peers :: "Peer list" where
  "solo_peers = [demo_peer, demo_peer\<lparr>Vote := 3\<rparr>]"

definition solo_si :: pyr_ShardInfo where
  "solo_si = \<lparr>psi_PeerListM = [''a'' \<mapsto> solo_peers], psi_Related = [(''b'', True), (''c'', True)],
     psi_PeerRelated = Map.empty, psi_Identity = BLOCKTYPE_I, psi_KeyRangeMap = Map.empty\<rparr>"

text \<open>A codec for OK messages of height 1; the first byte tells the source.\<close>

definition ok_codec :: "pb_MessageOK codec" where
  "ok_codec = \<lparr>Marshal = (\<lambda>m. Some [9]), Unmarshal = (\<lambda>bz. Some \<lparr>pok_Chain_ID = (if bz = [1] then ''b'' else ''c''), pok_Height = 1\<rparr>)\<rparr>"

definition solo_env :: PEnv where
  "solo_env = \<lparr>y_lib = \<lparr>transfer_codec = any_codec, insert_codec = any_codec, data_codec = any_codec, lib_time = (\<lambda>t. Some [7]),
       unmarshal_text = (\<lambda>_. []), store_text = (\<lambda>_. [])\<rparr>,
     y_bls = toy_bls, y_codecs = demo_pyr_codecs\<lparr>mok_codec := ok_codec\<rparr>, y_receipt_codec = any_codec,
     y_now = (\<lambda>_. \<lparr>sec = 0, nsec = 0\<rparr>), y_rand = (\<lambda>_. 0)\<rparr>"

definition solo_kv :: kv where
  "solo_kv = \<lparr>contents = Map.empty, failing = (\<lambda>_. False)\<rparr>"

definition solo_app :: PApplication where
  "solo_app = pyr_NewApplication solo_kv ''a'' True Nil_ptr Map.empty solo_kv"

abbreviation solo_set :: Verifier where
  "solo_set \<equiv> NewVerifier toy_bls [''p'', ''p'']"

definition solo_hd :: "int \<Rightarrow> PHeightData" where
  "solo_hd n = \<lparr>ph_Height = n, ph_Round = 0, ph_MyChainID = ''a'', ph_PassStep = RoundStepNewHeight, ph_ShardInfo = solo_si,
     ph_ShardVotes = [''a'' \<mapsto> 4], ph_AllValidatorSet = [''a'' \<mapsto> solo_set], ph_Proposal = Nil_ptr,
     ph_Prevotes = NewVoteSet 2 4, ph_Precommits = NewVoteSet 2 4, ph_PartSet = Nil_ptr, ph_Block = Nil_ptr, ph_buffer = []\<rparr>"

definition solo_state :: PState where
  "solo_state = \<lparr>y_Height = 0, y_Round = 0, y_Step = RoundStepNewHeight, y_mempool = NewMempool False,
     y_cross_mempool = NewMempool True, y_app = solo_app, y_signer = \<lparr>privateKey = 1\<rparr>, y_signerIndex = 1, y_heightDatas = solo_hd 0,
     y_relay = Map.empty, y_MinBlockInterval = 0, y_LastBlockTime = \<lparr>sec = 0, nsec = 0\<rparr>, y_MaxPartSize = 2,
     y_maxBlockTxNum = 10, y_LastBlockHash = [], y_LastReceiptRoot = [], y_LastStateRoot = [], y_BlockHash = [],
     crossShardBlockPool = [], commitPool = [], committed = Map.empty, bcount = 0, bseen = None,
     pendingCrossShardBlockHash = [], pendingBlockSize = 0, maCount = -1, maPool = None, shardHeight = Map.empty, y_outbox = []\<rparr>"

lemmas solo_defs = solo_state_def solo_hd_def solo_env_def solo_si_def

lemma solo_peers_ok: "votes_ok solo_peers" "total_votes solo_peers = 4" "length solo_peers = 2" "pyr_shard_ok solo_si ''a''"
  by (simp_all add: pyr_shard_ok_def solo_si_def solo_peers_def votes_ok_def total_votes_def demo_peer_def)

lemma solo_fresh: "fresh_votes h = Ret (NewVoteSet 2 4)"
  if "ph_AllValidatorSet h = [''a'' \<mapsto> solo_set]" "ph_ShardVotes h = [''a'' \<mapsto> 4]" "ph_MyChainID h = ''a''"
  using that by (simp add: fresh_votes_def pyr_validator_size_def NewVerifier_def Verifier_Size_def map_get_def i32_id)

lemma solo_new_hd: "pyr_NewHeightData toy_bls ''a'' 0 solo_si = Ret (solo_hd 0)"
proof -
  have "(\<lambda>cid. map_option (\<lambda>ps. NewVerifier toy_bls (map Pubkey ps)) (psi_PeerListM solo_si cid)) = [''a'' \<mapsto> solo_set]"
    "(\<lambda>cid. map_option (\<lambda>ps. foldl (\<lambda>t peer. t + Vote peer) 0 ps) (psi_PeerListM solo_si cid)) = [''a'' \<mapsto> 4]"
    by (auto simp: solo_si_def solo_peers_def demo_peer_def fun_eq_iff)
  then show ?thesis
    by (simp add: pyr_NewHeightData_def pyr_clearAll_def pyr_clearPrevote_def pyr_clearPrecommit_def solo_fresh
        pyr_clearProposal_def pyr_SetShardInfo_def solo_hd_def)
qed

lemma solo_NextHeight: "pyr_NextHeight h = Ret (h\<lparr>ph_Height := ph_Height h + 1, ph_Round := 0, ph_PassStep := RoundStepNewHeight,
    ph_Proposal := Nil_ptr, ph_Block := Nil_ptr, ph_PartSet := Nil_ptr, ph_Prevotes := NewVoteSet 2 4, ph_Precommits := NewVoteSet 2 4\<rparr>)"
  if "ph_AllValidatorSet h = [''a'' \<mapsto> solo_set]" "ph_ShardVotes h = [''a'' \<mapsto> 4]" "ph_MyChainID h = ''a''"
  using that by (simp add: pyr_NextHeight_def pyr_clearAll_def pyr_clearPrevote_def pyr_clearPrecommit_def solo_fresh pyr_clearProposal_def)

lemma solo_new: "pyr_NewConsensusState (y_bls solo_env) ''a'' solo_si \<lparr>privateKey = 1\<rparr> 1 (NewMempool False) (NewMempool True) solo_app solo_kv
    \<lparr>sec = 0, nsec = 0\<rparr> 0 2 10 = Ret solo_state"
  by (simp add: pyr_NewConsensusState_def solo_new_hd solo_env_def solo_state_def solo_app_def pyr_NewApplication_def SetBlockStore_def)

lemma solo_proposer: "pyr_isProposer s = Ret ((y_Height s + y_Round s) smod 2 = y_signerIndex s)"
  if "ph_AllValidatorSet (y_heightDatas s) = [''a'' \<mapsto> solo_set]" "ph_MyChainID (y_heightDatas s) = ''a''"
  using that by (simp add: pyr_isProposer_def pyr_calculateProposer_def pyr_validator_size_def NewVerifier_def Verifier_Size_def)

lemma solo_sign: "Verifier_Verify toy_bls solo_set (Sign toy_bls \<lparr>privateKey = 1\<rparr> [9]) [9] 1 = Ret True"
  by (simp add: Verifier_Verify_def NewVerifier_def toy_bls_def Sign_def go_index_def numeral_2_eq_2)

section \<open>The proposal\<close>

text \<open>The states of height 1 up to the execution of its block.\<close>

definition solo_at :: "int \<Rightarrow> int \<Rightarrow> int \<Rightarrow> (string \<rightharpoonup> bool) \<Rightarrow> Block \<Rightarrow> PartSet \<Rightarrow> Proposal \<Rightarrow> VoteSet \<Rightarrow> VoteSet \<Rightarrow> bytes \<Rightarrow> out_msg list \<Rightarrow> PState" where
  "solo_at step pass bc seen b ps p pv pc hs out = solo_state\<lparr>y_Step := step, y_Height := 1, bcount := bc, bseen := Some seen, y_BlockHash := hs,
     y_heightDatas := (solo_hd 1)\<lparr>ph_PassStep := pass, ph_Block := Ptr b, ph_PartSet := Ptr ps, ph_Proposal := Ptr p, ph_Prevotes := pv,
       ph_Precommits := pc\<rparr>, y_outbox := out\<rparr>"

abbreviation solo_proposed :: "Block \<Rightarrow> PartSet \<Rightarrow> Proposal \<Rightarrow> out_msg list \<Rightarrow> PState" where
  "solo_proposed b ps p \<equiv> solo_at RoundStepPropose RoundStepNewHeight 2 Map.empty b ps p (NewVoteSet 2 4) (NewVoteSet 2 4) []"

definition solo_block :: "Block \<Rightarrow> PartSet \<Rightarrow> Proposal \<Rightarrow> bool" where
  "solo_block b ps p \<longleftrightarrow> pyr_Block_Hash (\<lambda>t. Some [7]) b = Ret (p_BlockHeaderHash p, b) \<and> BlockType (b_Header b) = BLOCKTYPE_InnerShard \<and>
     BodyTxs (b_Body b) = [] \<and> IsComplete ps"

lemma solo_reap: "y_reap solo_env s (NewMempool False) = Some (Ret ([], 0))" if "y_maxBlockTxNum s = 10"
  using pyr_ReapTx_rep [OF NewMempool_rep, of _ "\<lambda>_. True" 10 False] that by (simp add: y_reap_def)

lemma solo_parts: "\<exists>s'. pyr_send_parts solo_env (map Ptr parts) s = Ret s' \<and> (\<exists>out. s' = s\<lparr>y_outbox := out\<rparr>)"
proof (induction parts arbitrary: s)
  case Nil
  show ?case by (auto intro: exI [of _ "y_outbox s"])
next
  case (Cons p parts)
  have "\<exists>bz. Part_ProtoBytes (part_codec (base_codecs (y_codecs solo_env))) p = Ret bz"
    by (simp add: Part_ProtoBytes_def solo_env_def demo_pyr_codecs_def)
  then show ?case using Cons [of "pyr_SendInternal _ PMsgPart s"] by (fastforce simp: pyr_SendInternal_def)
qed

lemma solo_start: "\<exists>b ps p out. pyr_Start solo_env n solo_state = Some (Ret (solo_proposed b ps p out)) \<and> solo_block b ps p"
proof -
  let ?s = "solo_state\<lparr>y_Step := RoundStepPropose, y_Height := 1, bcount := 2, bseen := Some Map.empty, y_heightDatas := solo_hd 1\<rparr>"
  have "pyr_reset_height solo_state = Ret (?s\<lparr>y_Step := RoundStepNewHeight\<rparr>)"
    by (simp add: pyr_reset_height_def pyr_Next_def y_IsIShard_def ph_IsIShard_def psi_IsIShard_def solo_NextHeight solo_defs)
  then have st: "pyr_Start solo_env n solo_state = pyr_enterNewRound solo_env (pyr_handleStateTransition solo_env n) (?s\<lparr>y_Step := RoundStepNewHeight\<rparr>)"
    by (simp add: pyr_Start_def pyr_enterNewHeight_def) (simp add: solo_state_def)
  have pr: "pyr_isProposer ?s = Ret True"
    by (subst solo_proposer) (simp_all add: solo_defs signed_modulo_int_def)
  let ?b = "block_header solo_env ?s (empty_block BLOCKTYPE_InnerShard [] [])"
  have "Block_ProtoBytes any_codec ?b = Ret [9]" by (simp add: Block_ProtoBytes_def)
  then obtain parts hdr x b where ps: "pyr_PartSetFromBlock (\<lambda>t. Some [7]) any_codec ?b 2 0 = Some (Ret (\<lparr>ps_Header = hdr, Parts = map Ptr parts,
        count = int (length parts), ps_BlockHeaderHash = x\<rparr>, b))" "pyr_Block_Hash (\<lambda>t. Some [7]) ?b = Ret (x, b)" "genuine hdr parts"
    using pyr_PartSetFromBlock_spec [of any_codec ?b "[9]" 2] pyr_PartSetFromBlock_fields(4) by (metis zero_less_numeral)
  let ?ps = "\<lparr>ps_Header = hdr, Parts = map Ptr parts, count = int (length parts), ps_BlockHeaderHash = x\<rparr>"
  obtain sig where sig: "SignType toy_bls (y_signer ?s) (Proposal_SignBytes any_codec (NewProposal hdr 1 x)) = Ret sig"
    by (simp add: SignType_def Proposal_SignBytes_def)
  let ?p = "(NewProposal hdr 1 x)\<lparr>p_Signature := sig\<rparr>"
  have E: "block_codec (base_codecs (y_codecs solo_env)) = any_codec" "proposal_codec (base_codecs (y_codecs solo_env)) = any_codec"
    "lib_time (y_lib solo_env) = (\<lambda>t. Some [7])" "y_bls solo_env = toy_bls"
    by (simp_all add: solo_env_def demo_pyr_codecs_def)
  have "\<exists>out. pyr_propose_block solo_env b ?ps ?s = Ret (solo_proposed b ?ps ?p out)"
  proof -
    have "Proposal_ProtoBytes any_codec ?p = Ret [9]" by (simp add: Proposal_ProtoBytes_def)
    moreover obtain out where "pyr_send_parts solo_env (map Ptr parts) (pyr_SendInternal [9] PMsgProposal (?s\<lparr>y_heightDatas := (solo_hd 1)
        \<lparr>ph_Block := Ptr b, ph_PartSet := Ptr ?ps, ph_Proposal := Ptr ?p\<rparr>\<rparr>)) = Ret (pyr_SendInternal [9] PMsgProposal (?s\<lparr>y_heightDatas := (solo_hd 1)
        \<lparr>ph_Block := Ptr b, ph_PartSet := Ptr ?ps, ph_Proposal := Ptr ?p\<rparr>\<rparr>)\<lparr>y_outbox := out\<rparr>)" (is "?send = Ret ?r") using solo_parts by blast
    moreover have "?r = solo_proposed b ?ps ?p out" by (simp add: solo_at_def pyr_SendInternal_def solo_state_def solo_hd_def)
    moreover have "y_signerIndex solo_state = 1" "y_heightDatas ?s = solo_hd 1" by (simp_all add: solo_state_def)
    ultimately show ?thesis using sig by (auto simp add: pyr_propose_block_def E)
  qed
  then obtain out where out: "pyr_propose_block solo_env b ?ps ?s = Ret (solo_proposed b ?ps ?p out)" by blast
  have "pyr_createBlockAndBroadcast solo_env ?s = Some (Ret (solo_proposed b ?ps ?p out))"
    using out ps(1) solo_reap [of ?s] E
    by (simp add: pyr_createBlockAndBroadcast_def createIBlockTxs_def y_IsBShard_def ph_IsBShard_def psi_IsBShard_def solo_state_def solo_hd_def solo_si_def BLOCKTYPE_I_def BLOCKTYPE_B_def)
  then have "pyr_Start solo_env n solo_state = Some (Ret (solo_proposed b ?ps ?p out))"
    using st pr by (simp add: pyr_enterNewRound_def) (simp add: solo_at_def solo_state_def)
  moreover have "solo_block b ?ps ?p"
    using pyr_Block_Hash_idem [OF ps(2)] pyr_Block_Hash_frame [OF ps(2)] ps(3)
    by (simp add: solo_block_def NewProposal_def block_header_def Let_def empty_block_def IsComplete_def genuine_def)
  ultimately show ?thesis by blast
qed

section \<open>The votes\<close>

lemma transition_steps:
  "y_Step s = RoundStepPropose \<Longrightarrow> pyr_FinishProposal (y_heightDatas s) = Ret (True, h) \<Longrightarrow>
     pyr_doPropose E (s\<lparr>y_heightDatas := h\<rparr>) = Ret s' \<Longrightarrow> pyr_transition E rec s = rec s'"
  "y_Step s = RoundStepPrevote \<Longrightarrow> pyr_FinishPrevote (y_heightDatas s) = Ret (True, h) \<Longrightarrow>
     pyr_doPrevote E (s\<lparr>y_heightDatas := h\<rparr>) = Ret s' \<Longrightarrow> pyr_transition E rec s = rec s'"
  "y_Step s = RoundStepPrecommit \<Longrightarrow> pyr_FinishPrecommit (y_heightDatas s) = Ret (True, h) \<Longrightarrow>
     pyr_doPrecommit E (s\<lparr>y_heightDatas := h\<rparr>) = Ret s' \<Longrightarrow> pyr_transition E rec s = rec s'"
  by (simp_all add: pyr_transition_def Let_def pyr_round_step_defs)

lemma solo_at_step [simp]: "y_Step (solo_at st pass bc seen b ps p pv pc hs out) = st"
  by (simp add: solo_at_def)

lemma solo_at_hd [simp]: "solo_at st pass bc seen b ps p pv pc hs out\<lparr>y_heightDatas := y_heightDatas (solo_at st' pass' bc' seen' b' ps' p' pv' pc' hs' out')\<rparr> =
    solo_at st pass' bc seen b' ps' p' pv' pc' hs out"
  by (simp add: solo_at_def)

lemma solo_env_simps [simp]:
  "prevote_codec (base_codecs (y_codecs solo_env)) = any_codec" "precommit_codec (base_codecs (y_codecs solo_env)) = any_codec"
  "block_codec (base_codecs (y_codecs solo_env)) = any_codec" "lib_time (y_lib solo_env) = (\<lambda>t. Some [7])" "y_bls solo_env = toy_bls"
  "csb_codec (y_codecs solo_env) = any_codec" "y_receipt_codec solo_env = any_codec" "mok_codec (y_codecs solo_env) = ok_codec"
  by (simp_all add: solo_env_def demo_pyr_codecs_def)

lemma solo_my_vote: "pyr_my_vote h 1 = Ret 3" if "ph_ShardInfo h = solo_si" "ph_MyChainID h = ''a''"
  using that by (simp add: pyr_my_vote_def solo_si_def solo_peers_def demo_peer_def map_get_def go_index_def)

lemma solo_vote: "vote_GetIndex v = 1 \<Longrightarrow> \<exists>s. AddVote (NewVoteSet 2 4) v 3 = Ret (Nil_ptr, s) \<and> has_mj23 s \<and>
    vs_GetMaj23 s = (GetBlockHeaderHash v, vote_IsOK v) \<and> votes s = [Nil_ptr, Ptr v]"
  using heavy_vote [OF solo_peers_ok(1), of 1 v] solo_peers_ok by (simp add: solo_peers_def numeral_2_eq_2)

lemma solo_propose:
  assumes "solo_block b ps p"
  shows "\<exists>pv out'. (\<forall>rec. pyr_transition solo_env rec (solo_at RoundStepPropose RoundStepNewHeight bc seen b ps p (NewVoteSet 2 4) (NewVoteSet 2 4) [] out) =
      rec (solo_at RoundStepPrevote RoundStepPropose bc seen b ps p pv (NewVoteSet 2 4) (p_BlockHeaderHash p) out')) \<and>
      has_mj23 pv \<and> vs_GetMaj23 pv = (p_BlockHeaderHash p, True)"
proof -
  let ?s = "solo_at RoundStepPropose RoundStepPropose bc seen b ps p (NewVoteSet 2 4) (NewVoteSet 2 4) (p_BlockHeaderHash p) out"
  let ?v = "NewPrevote 1 0 (p_BlockHeaderHash p) 1\<lparr>pv_Signature := Sign toy_bls \<lparr>privateKey = 1\<rparr> [9]\<rparr>"
  obtain pv where pv: "AddVote (NewVoteSet 2 4) (PrevoteV ?v) 3 = Ret (Nil_ptr, pv)" "has_mj23 pv" "vs_GetMaj23 pv = (p_BlockHeaderHash p, True)"
    using solo_vote [of "PrevoteV ?v"] by (auto simp: NewPrevote_def Prevote_IsOK_def)
  have add: "pyr_AddPrevote (y_tp solo_env) (y_heightDatas ?s) ?v = Ret (Nil_ptr, (y_heightDatas ?s)\<lparr>ph_Prevotes := pv\<rparr>)"
    using solo_sign pv(1)
    by (simp add: pyr_AddPrevote_def solo_at_def solo_hd_def NewPrevote_def y_tp_def Prevote_SignBytes_def solo_my_vote vote_error_def Verifier_Size_def NewVerifier_def)
  have "cast_prevote solo_env True ?s = Ret (solo_at RoundStepPropose RoundStepPropose bc seen b ps p pv (NewVoteSet 2 4) (p_BlockHeaderHash p) (out @ [(''a'', [9], PMsgPrevote)]))"
    using add
    by (simp add: cast_prevote_def solo_at_def solo_state_def SignType_def Prevote_SignBytes_def Prevote_ProtoBytes_def Prevote_SetOK_def NewPrevote_def pyr_SendInternal_def solo_hd_def)
  moreover have "pyr_FinishProposal (y_heightDatas (solo_at RoundStepPropose RoundStepNewHeight bc seen b ps p (NewVoteSet 2 4) (NewVoteSet 2 4) [] out)) =
      Ret (True, y_heightDatas ?s)"
    using assms by (simp add: pyr_FinishProposal_def solo_at_def solo_hd_def solo_block_def pyr_round_step_defs)
  moreover have "put_block b (solo_at RoundStepPropose RoundStepNewHeight bc seen b ps p (NewVoteSet 2 4) (NewVoteSet 2 4) [] out
      \<lparr>y_heightDatas := y_heightDatas ?s, y_BlockHash := p_BlockHeaderHash p\<rparr>) = ?s"
    by (simp add: put_block_def solo_at_def)
  moreover have "check_I solo_env ?s b = Ret (True, True)" "\<not> y_IsBShard ?s" "ph_Block (y_heightDatas ?s) = Ptr b"
    "pyr_Block_Hash (\<lambda>t. Some [7]) b = Ret (p_BlockHeaderHash p, b)"
    using assms by (simp_all add: check_I_def solo_block_def solo_at_def y_IsBShard_def ph_IsBShard_def psi_IsBShard_def solo_hd_def solo_si_def BLOCKTYPE_I_def BLOCKTYPE_B_def)
  moreover have "pyr_Next (solo_at RoundStepPropose RoundStepPropose bc seen b ps p pv (NewVoteSet 2 4) (p_BlockHeaderHash p) out') =
      solo_at RoundStepPrevote RoundStepPropose bc seen b ps p pv (NewVoteSet 2 4) (p_BlockHeaderHash p) out'" for out'
    by (simp add: pyr_Next_def solo_at_def pyr_round_step_defs)
  ultimately show ?thesis
    using pv(2,3) by (auto simp: pyr_transition_def pyr_doPropose_def pyr_need_block_def solo_at_def [of RoundStepPropose RoundStepNewHeight] Let_def)
qed

lemma solo_prevote:
  assumes "vs_GetMaj23 pv = (x, True)" "has_mj23 pv"
  shows "\<exists>pc out'. (\<forall>rec. pyr_transition solo_env rec (solo_at RoundStepPrevote RoundStepPropose bc seen b ps p pv (NewVoteSet 2 4) hs out) =
      rec (solo_at RoundStepPrecommit RoundStepPrevote bc seen b ps p pv pc hs out')) \<and>
      has_mj23 pc \<and> vs_GetMaj23 pc = (x, True) \<and> abort_code_only pc solo_peers"
proof -
  let ?s = "solo_at RoundStepPrevote RoundStepPrevote bc seen b ps p pv (NewVoteSet 2 4) hs out"
  let ?v = "NewPrecommit 1 0 x 1\<lparr>pc_Signature := Sign toy_bls \<lparr>privateKey = 1\<rparr> [9]\<rparr>"
  obtain pc where pc: "AddVote (NewVoteSet 2 4) (PrecommitV ?v) 3 = Ret (Nil_ptr, pc)" "has_mj23 pc" "vs_GetMaj23 pc = (x, True)"
      "votes pc = [Nil_ptr, Ptr (PrecommitV ?v)]"
    using solo_vote [of "PrecommitV ?v"] by (auto simp: NewPrecommit_def Precommit_IsOK_def)
  have "abort_code_only pc solo_peers"
    by (auto simp: abort_code_only_def pc(4) nth_Cons solo_peers_def NewPrecommit_def split: nat.splits)
  moreover have "pyr_AddPrecommit (y_tp solo_env) (y_heightDatas ?s) ?v = Ret (Nil_ptr, (y_heightDatas ?s)\<lparr>ph_Precommits := pc\<rparr>)"
    using solo_sign pc(1)
    by (simp add: pyr_AddPrecommit_def solo_at_def solo_hd_def NewPrecommit_def y_tp_def Precommit_SignBytes_def solo_my_vote vote_error_def Verifier_Size_def NewVerifier_def)
  then have "pyr_doPrevote solo_env ?s = Ret (solo_at RoundStepPrecommit RoundStepPrevote bc seen b ps p pv pc hs (out @ [(''a'', [9], PMsgPrecommit)]))"
    using assms(1) pc
    by (simp add: pyr_doPrevote_def solo_at_def solo_state_def SignType_def Precommit_SignBytes_def Precommit_ProtoBytes_def Precommit_SetOK_def
        NewPrecommit_def pyr_SendInternal_def solo_hd_def pyr_Next_def pyr_round_step_defs)
  moreover have "pyr_FinishPrevote (y_heightDatas (solo_at RoundStepPrevote RoundStepPropose bc seen b ps p pv (NewVoteSet 2 4) hs out)) =
      Ret (True, y_heightDatas ?s)"
    using assms(2) by (simp add: pyr_FinishPrevote_def pyr_FinishProposal_def solo_at_def solo_hd_def pyr_round_step_defs vs_HasMaj23_def)
  ultimately show ?thesis using pc(2,3) transition_steps(2) [of "solo_at _ _ _ _ _ _ _ _ _ _ _"] by fastforce
qed

section \<open>Execution\<close>

lemma write_nothing: "\<exists>db'. write_range tree NewMemoryDB db = Ret db'"
  by (auto simp: write_range_def RangeDB_Write_def NewMemoryDB_def write_out_def db_NewBatch_def pbatch_Write_def batch_Write_def split: ptr.splits)

lemma solo_store:
  assumes "pyr_Block_Hash (lib_time L) b = Ret (x, b)"
  shows "\<exists>app'. pyr_store_block L any_codec app b = Ret (app', b)"
  using assms by (auto simp: pyr_store_block_def pyr_SetBlockByHeight_def Block_ProtoBytes_def split: ptr.splits prod.splits)

lemma solo_precommit:
  assumes "solo_block b ps p" "has_mj23 pc" "abort_code_only pc solo_peers"
    and ok: "node_ok solo_env ''a'' solo_si (solo_at RoundStepPrecommit RoundStepPrevote bc seen b ps p pv pc hs out)"
  shows "\<exists>s'. pyr_transition solo_env rec (solo_at RoundStepPrecommit RoundStepPrevote bc seen b ps p pv pc hs out) = rec s' \<and>
    y_Step s' = RoundStepCommit \<and> y_Height s' = 1 \<and> y_relay s' = Map.empty \<and> bcount s' = bc \<and> bseen s' = Some seen \<and> y_signerIndex s' = 1 \<and> y_IsIShard s'"
proof -
  let ?start = "solo_at RoundStepPrecommit RoundStepPrevote bc seen b ps p pv pc hs out"
  let ?s = "solo_at RoundStepPrecommit RoundStepPrecommit bc seen b ps p pv pc hs out"
  have fin: "pyr_FinishPrecommit (y_heightDatas ?start) = Ret (True, y_heightDatas ?s)"
    using assms(2) by (simp add: pyr_FinishPrecommit_def pyr_FinishPrevote_def solo_at_def solo_hd_def pyr_round_step_defs vs_HasMaj23_def)
  then have inv: "ph_inv (y_tp solo_env) (y_heightDatas ?s)"
    using pyr_FinishPrecommit_inv [OF fin node_inv [OF ok]] by (simp add: ph_passes_def)
  have com: "ph_committee (y_heightDatas ?s) solo_peers solo_set"
    using solo_peers_ok by (simp add: ph_committee_def solo_at_def solo_hd_def solo_si_def Verifier_Size_def NewVerifier_def)
  have hd: "ph_Proposal (y_heightDatas ?s) = Ptr p" "ph_Precommits (y_heightDatas ?s) = pc" by (simp_all add: solo_at_def)
  have e: "bls_ok (p_bls (y_tp solo_env))" by (simp add: y_tp_def toy_bls_ok)
  obtain pa where pa: "own_certificate solo_env ?s = Ret pa"
    using certificate_verifies [OF e inv com hd(1)] hd(2) assms(2,3) by (auto simp: own_certificate_def y_tp_def)
  have pr: "pyr_isProposer ?s = Ret True"
    by (subst solo_proposer) (simp_all add: solo_at_def solo_defs signed_modulo_int_def)
  obtain s1 where s1: "deliver_block solo_env b pa ?s = Ret s1"
    using pr by (simp add: deliver_block_def CrossShardBlock_ProtoBytes_def)
  have b: "pyr_Block_Hash (lib_time (y_lib solo_env)) b = Ret (p_BlockHeaderHash p, b)" using assms(1) by (simp add: solo_block_def)
  have sb: "\<exists>app'. pyr_store_block (y_lib solo_env) (y_block_codec solo_env) app b = Ret (app', b)" for app
    using solo_store [OF b] by simp
  have f1: "y_frame ?s s1" using go_allD [OF deliver_block_frame s1] .
  obtain db where db: "write_range (shard_tree (y_app s1) (ChainID (b_Header b))) NewMemoryDB (DBConn (y_app s1)) = Ret db" using write_nothing by blast
  obtain app where app: "pyr_store_block (y_lib solo_env) (y_block_codec solo_env) (y_app s1\<lparr>DBConn := db\<rparr>) b = Ret (app, b)" using sb by blast
  let ?t = "s1\<lparr>y_app := app\<rparr>"
  obtain r where r: "process_inner solo_env True b s1 = Ret (r, b, ?t)" "Receipts (fst r) = []"
    using assms(1) db app b
    by (simp add: process_inner_def ExecutionInnerShard_def solo_block_def updateIState_def pyr_Update_def)
  have "processIBlock solo_env b (ph_MyChainID (y_heightDatas ?s)) True False ?s = Ret (r, b, ?t)"
    using pa s1 r(1) assms(1) by (simp add: processIBlock_def solo_block_def)
  moreover obtain root proofs where "ProofsFromByteSlices [] = Some (root, proofs)" using ProofsFromByteSlices_spec by blast
  moreover obtain app' where "pyr_store_block (y_lib solo_env) (y_block_codec solo_env) app b = Ret (app', b)" using sb by blast
  moreover have "y_IsIShard ?s" "pyr_need_block ?s = Ret b"
    by (simp_all add: solo_at_def y_IsIShard_def ph_IsIShard_def psi_IsIShard_def solo_hd_def solo_si_def pyr_need_block_def)
  ultimately obtain s2 where s2: "pyr_doPrecommit solo_env ?s = Ret (pyr_Next s2)" "record_block solo_env [] b ?t = Ret s2"
    using r(2) b by (cases r) (auto simp: pyr_doPrecommit_def record_block_def)
  have "ph_Block (y_heightDatas ?t) = Ptr b" using f1 by (simp add: y_frame_def solo_at_def)
  then have "y_frame (?t\<lparr>y_LastBlockHash := p_BlockHeaderHash p\<rparr>) s2"
    using go_allD [OF record_block_frame [OF _ b] s2(2)] by simp
  then have "y_frame (?s\<lparr>y_LastBlockHash := p_BlockHeaderHash p\<rparr>) s2" using f1 by (simp add: y_frame_def)
  moreover have "pyr_transition solo_env rec ?start = rec (pyr_Next s2)"
    using transition_steps(3) [OF _ fin] s2(1) by simp
  ultimately show ?thesis
    by (intro exI [of _ "pyr_Next s2"]) (simp add: pyr_Next_def y_frame_def y_IsIShard_def solo_at_def solo_defs ph_IsIShard_def psi_IsIShard_def pyr_round_step_defs)
qed

section \<open>The run\<close>

lemma solo_new_node: "pyr_new_node solo_env ''a'' solo_si solo_state"
  unfolding pyr_new_node_def using solo_new solo_peers_ok(4) by blast

text \<open>After any transition the invariant holds, whatever the node does next.\<close>

lemma transition_to:
  assumes "\<forall>rec. pyr_transition E rec s = rec s'" "node_ok E cid si s"
  shows "node_ok E cid si s'"
  using run_allD [OF transition_ok [OF assms(2), of "\<lambda>s. Some (Ret s)"]] assms(1) by (simp add: rec_ok_def run_all_def)

lemma solo_rounds:
  assumes "solo_block b ps p" "node_ok solo_env ''a'' solo_si s"
    "s = solo_at RoundStepPropose RoundStepNewHeight 1 seen b ps p (NewVoteSet 2 4) (NewVoteSet 2 4) [] out"
  shows "\<exists>s'. pyr_handleStateTransition solo_env 4 s = Some (Ret s') \<and> y_Step s' = RoundStepCommit \<and> y_Height s' = 1 \<and>
    y_relay s' = Map.empty \<and> bcount s' = 1 \<and> bseen s' = Some seen \<and> y_signerIndex s' = 1"
proof -
  obtain pv out1 where a: "\<forall>rec. pyr_transition solo_env rec s =
      rec (solo_at RoundStepPrevote RoundStepPropose 1 seen b ps p pv (NewVoteSet 2 4) (p_BlockHeaderHash p) out1)"
    "has_mj23 pv" "vs_GetMaj23 pv = (p_BlockHeaderHash p, True)"
    using solo_propose [OF assms(1)] unfolding assms(3) by blast
  obtain pc out2 where b: "\<forall>rec. pyr_transition solo_env rec (solo_at RoundStepPrevote RoundStepPropose 1 seen b ps p pv (NewVoteSet 2 4) (p_BlockHeaderHash p) out1) =
      rec (solo_at RoundStepPrecommit RoundStepPrevote 1 seen b ps p pv pc (p_BlockHeaderHash p) out2)" "has_mj23 pc" "abort_code_only pc solo_peers"
    using solo_prevote [OF a(3,2)] by blast
  have n: "node_ok solo_env ''a'' solo_si (solo_at RoundStepPrecommit RoundStepPrevote 1 seen b ps p pv pc (p_BlockHeaderHash p) out2)"
    using transition_to [OF b(1) transition_to [OF a(1) assms(2)]] .
  obtain s' where s': "pyr_transition solo_env (pyr_handleStateTransition solo_env (Suc 0)) (solo_at RoundStepPrecommit RoundStepPrevote 1 seen b ps p pv pc (p_BlockHeaderHash p) out2) =
      pyr_handleStateTransition solo_env (Suc 0) s'"
    "y_Step s' = RoundStepCommit" "y_Height s' = 1" "y_relay s' = Map.empty" "bcount s' = 1" "bseen s' = Some seen" "y_signerIndex s' = 1" "y_IsIShard s'"
    using solo_precommit [OF assms(1) b(2,3) n] by blast
  have "pyr_handleStateTransition solo_env (Suc 0) s' = Some (Ret s')"
    using s' by (simp add: pyr_transition_def commit_done_def pyr_round_step_defs)
  then have "pyr_handleStateTransition solo_env (Suc (Suc (Suc (Suc 0)))) s = Some (Ret s')" using a(1) b(1) s'(1) by simp
  then show ?thesis using s' by (simp add: eval_nat_numeral)
qed

text \<open>Started, and with one of the two OK messages, the node has executed its block and waits for the other.\<close>

lemma solo_run:
  "\<exists>s. pyr_reach solo_env solo_state s \<and> y_Step s = RoundStepCommit \<and> y_Height s = 1 \<and> y_relay s = Map.empty \<and>
     bcount s = 1 \<and> bseen s = Some [''b'' \<mapsto> True] \<and> y_signerIndex s = 1"
proof -
  obtain b ps p out where st: "pyr_Start solo_env 0 solo_state = Some (Ret (solo_proposed b ps p out))" "solo_block b ps p"
    using solo_start by blast
  have r1: "pyr_reach solo_env solo_state (solo_proposed b ps p out)" using pyr_reach.start [OF pyr_reach.new st(1)] .
  let ?m = "\<lparr>ok_Height = 1, SrcChain = ''b''\<rparr>"
  let ?s = "solo_at RoundStepPropose RoundStepNewHeight 1 [''b'' \<mapsto> True] b ps p (NewVoteSet 2 4) (NewVoteSet 2 4) [] out"
  have add: "pyr_add_message solo_env (Y_OK ?m) (solo_proposed b ps p out) = Some (Ret (Nil_ptr, True, ?s))"
    by (simp add: pyr_add_message_def add_OK_def solo_at_def map_get_def)
  have n: "node_ok solo_env ''a'' solo_si ?s"
    using run_allD [OF add_message_ok [OF reach_ok [OF r1 solo_new_node]] add] by simp
  obtain s' where s': "pyr_handleStateTransition solo_env 4 ?s = Some (Ret s')" "y_Step s' = RoundStepCommit" "y_Height s' = 1"
    "y_relay s' = Map.empty" "bcount s' = 1" "bseen s' = Some [''b'' \<mapsto> True]" "y_signerIndex s' = 1"
    using solo_rounds [OF st(2) n refl] by blast
  have dec: "pyr_decode_message solo_env [1] PMsgOK = Ret (Inr (Y_OK ?m))"
    by (simp add: pyr_decode_message_def pyr_msg_defs pyr_decode_def NewMessageOKFromBytes_def from_bytes_def ok_codec_def NewMessageOKFromProto_def)
  have "pyr_doMessage solo_env (pyr_handleStateTransition solo_env 4) (Y_OK ?m) (solo_proposed b ps p out) = Some (Ret (Nil_ptr, s'))"
    using add s'(1) by (simp add: pyr_doMessage_def pyr_addRelayMessageIfOverTime_def) (simp add: solo_at_def solo_state_def)
  then have "pyr_Receive solo_env 4 [1] PMsgOK (solo_proposed b ps p out) = Some (Ret (Nil_ptr, s'))"
    using dec by (simp add: pyr_Receive_def)
  then show ?thesis using pyr_reach.receive [OF r1] s' by blast
qed

end
