(* ===== verification/PyrRuns.thy ===== *)
theory PyrRuns
  imports PyrDemo
begin

text \<open>
  Runs of a node of the pyramid protocol (\<open>pyramid/consensus/main.go\<close>): every state a new node can reach by
  being started and by receiving any bytes, with any fuel. The properties: a node that has executed the block
  of a height holds a quorum for it, the vote on a cross-shard commit, how far certificates bind the messages
  between shards, and the end of a height at an inner shard.
\<close>

section \<open>The end of a height\<close>

lemma relay_now: "y_Height s = ht \<Longrightarrow> y_Round s = 0 \<Longrightarrow> pyr_addRelayMessageIfOverTime s ht 0 m = (False, s)"
  by (simp add: pyr_addRelayMessageIfOverTime_def)

lemma OK_now:
  assumes "ok_Height m = y_Height s" "y_Round s = 0" "bseen s = Some seen" "\<not> map_get False seen (SrcChain m)"
  shows "pyr_doMessage E rec (Y_OK m) s =
    run_bind (rec (s\<lparr>bseen := Some (seen(SrcChain m \<mapsto> True)), bcount := bcount s - 1\<rparr>)) (\<lambda>s'. Some (Ret (Nil_ptr, s')))"
  using assms relay_now [of s "y_Height s"] by (simp add: pyr_doMessage_def pyr_add_message_def add_OK_def)

text \<open>A node in step Commit belongs to a committee with a majority, so that the next proposer is defined.\<close>

lemma node_isProposer:
  assumes "node_ok E cid si s" "psi_PeerListM si cid = Some ps" "ps \<noteq> []"
  shows "pyr_isProposer s = Ret ((y_Height s) smod int (length ps) = y_signerIndex s)"
proof -
  obtain ps' V where c: "ph_committee (y_heightDatas s) ps' V" using node_inv [OF assms(1)] by (auto simp: ph_inv_def ph_votes_ok_def)
  then have "ps' = ps" using assms(1,2) by (simp add: node_ok_def ph_committee_def)
  then show ?thesis
    using c assms(1,3) by (simp add: ph_committee_def node_ok_def pyr_isProposer_def pyr_calculateProposer_def pyr_validator_size_def)
qed

lemma committee_nonempty:
  assumes "node_ok E cid si s" "psi_PeerListM si cid = Some ps" "y_Step s = RoundStepCommit"
  shows "ps \<noteq> []"
proof -
  have "ph_PassStep (y_heightDatas s) \<ge> RoundStepPrecommit" using assms by (simp add: node_ok_def steps_ok_def)
  from commit_quorum [OF node_inv [OF assms(1)] this] obtain ps' V k ok
    where q: "ph_committee (y_heightDatas s) ps' V" "3 * tally (ph_Precommits (y_heightDatas s)) ps' k ok > 2 * total_votes ps'" by blast
  then have "ps' = ps" using assms(1,2) by (simp add: node_ok_def ph_committee_def)
  then show ?thesis using q(2) by (auto simp: tally_def total_votes_def)
qed

lemma I_not_B: "psi_IsIShard si \<Longrightarrow> \<not> psi_IsBShard si"
  by (simp add: psi_IsIShard_def psi_IsBShard_def BLOCKTYPE_I_def BLOCKTYPE_B_def)

text \<open>The next height of a node that does not propose and has kept no message for it.\<close>

lemma next_height_idle:
  assumes ok: "node_ok E cid si s" "psi_PeerListM si cid = Some ps" "psi_IsIShard si" "y_Step s = RoundStepCommit" "bcount s = 0"
    and np: "(y_Height s + 1) smod int (length ps) \<noteq> y_signerIndex s" "y_relay s (y_Height s + 1) = None" and fuel: "2 \<le> fuel"
  shows "\<exists>s'. pyr_handleStateTransition E fuel s = Some (Ret s') \<and> y_Height s' = y_Height s + 1 \<and> y_Step s' = RoundStepPropose"
proof -
  have ps: "ps \<noteq> []" by (rule committee_nonempty [OF ok(1,2,4)])
  obtain n where n: "fuel = Suc (Suc n)" using fuel by (metis add_2_eq_Suc le_Suc_ex)
  obtain s1 where s1: "pyr_reset_height s = Ret s1" "node_ok E cid si s1" "y_Height s1 = y_Height s + 1"
    "ph_PassStep (y_heightDatas s1) = RoundStepNewHeight" "ph_Proposal (y_heightDatas s1) = Nil_ptr"
    "y_relay s1 = (y_relay s)(y_Height s := None)" "y_signerIndex s1 = y_signerIndex s"
    using reset_height_ok [OF ok(1)] by blast
  let ?t = "s1\<lparr>y_Step := RoundStepPropose\<rparr>"
  have I: "y_IsIShard s" "\<not> y_IsBShard s"
    using ok(1,3) I_not_B [OF ok(3)] by (simp_all add: node_ok_def y_IsIShard_def ph_IsIShard_def y_IsBShard_def ph_IsBShard_def)
  have "node_ok E cid si ?t" using s1(2) by (simp add: node_ok_def relay_ok_def steps_ok_def pyr_round_step_defs)
  then have "pyr_isProposer ?t = Ret False" using node_isProposer [OF _ ok(2) ps] np(1) s1(3,7) by fastforce
  moreover have "finish_commit E s = Ret s"
    using node_isProposer [OF ok(1,2) ps] I by (simp add: finish_commit_def)
  ultimately have "pyr_handleStateTransition E fuel s = pyr_handleStateTransition E (Suc n) ?t"
    using n ok(4,5) I s1(1,3,6) np(2) by (simp add: pyr_transition_def commit_done_def pyr_enterNewHeight_def pyr_enterNewRound_def pyr_round_step_defs)
  also have "\<dots> = Some (Ret ?t)"
    using s1(4,5) by (simp add: pyr_transition_def pyr_FinishProposal_def pyr_round_step_defs)
  finally show ?thesis using s1(3) by auto
qed

lemma OKs_advance:
  assumes "node_ok E cid si s" "psi_PeerListM si cid = Some ps" "psi_IsIShard si" "y_Step s = RoundStepCommit"
    "bseen s = Some seen" "ms \<noteq> []" "bcount s = int (length ms)" "distinct (map SrcChain ms)"
    "\<forall>m \<in> set ms. ok_Height m = y_Height s \<and> \<not> map_get False seen (SrcChain m)"
    "(y_Height s + 1) smod int (length ps) \<noteq> y_signerIndex s" "y_relay s (y_Height s + 1) = None" "2 \<le> fuel"
  shows "\<exists>s'. pyr_relay_messages E (pyr_handleStateTransition E fuel) (map Y_OK ms) s = Some (Ret s') \<and>
    y_Height s' = y_Height s + 1 \<and> y_Step s' = RoundStepPropose"
  using assms
proof (induction ms arbitrary: s seen)
  case (Cons m ms)
  let ?seen = "seen(SrcChain m \<mapsto> True)"
  let ?t = "s\<lparr>bseen := Some ?seen, bcount := bcount s - 1\<rparr>"
  have add: "pyr_add_message E (Y_OK m) s = Some (Ret (Nil_ptr, True, ?t))"
    using Cons.prems(5,9) by (simp add: pyr_add_message_def add_OK_def)
  have t: "node_ok E cid si ?t" using run_allD [OF add_message_ok [OF Cons.prems(1)] add] by simp
  have msg: "pyr_doMessage E rec (Y_OK m) s = run_bind (rec ?t) (\<lambda>s'. Some (Ret (Nil_ptr, s')))" for rec
    using OK_now [OF _ _ Cons.prems(5)] Cons.prems(1,9) by (simp add: node_ok_def)
  obtain n where n: "fuel = Suc n" using Cons.prems(12) by (cases fuel) auto
  show ?case
  proof (cases "ms = []")
    case True
    then obtain s' where "pyr_handleStateTransition E fuel ?t = Some (Ret s')" "y_Height s' = y_Height s + 1" "y_Step s' = RoundStepPropose"
      using next_height_idle [OF t Cons.prems(2,3)] Cons.prems by auto
    then show ?thesis using True msg by simp
  next
    case False
    then have "pyr_handleStateTransition E fuel ?t = Some (Ret ?t)"
      using n Cons.prems(1,3,4,7) by (simp add: pyr_transition_def commit_done_def node_ok_def y_IsIShard_def ph_IsIShard_def pyr_round_step_defs)
    moreover have seen: "\<forall>k \<in> set ms. ok_Height k = y_Height ?t \<and> \<not> map_get False ?seen (SrcChain k)"
      using Cons.prems(8,9) by (auto simp: map_get_def rev_image_eqI)
    have "\<exists>s'. pyr_relay_messages E (pyr_handleStateTransition E fuel) (map Y_OK ms) ?t = Some (Ret s') \<and>
        y_Height s' = y_Height ?t + 1 \<and> y_Step s' = RoundStepPropose"
      by (rule Cons.IH [OF t Cons.prems(2,3) _ _ False _ _ seen]) (use Cons.prems in auto)
    ultimately show ?thesis using msg by simp
  qed
qed simp

section \<open>Certificates between shards\<close>

lemma one_bit:
  assumes "i < n"
  obtains b where "bv_wf b" "Bits b = int n" "bv_indices b = [i]"
proof -
  obtain b0 where b0: "bv_wf b0" "bv_list b0 = replicate n False" using NewBitVector_wf [of "int n"] by auto
  then have n0: "nat (Bits b0) = n" "Bits b0 = int n" by (auto simp: bv_list_def bv_wf_def dest: arg_cong [of _ _ length])
  then obtain b where b: "bv_wf b" "Bits b = int n" "bv_list b = (replicate n False)[i := True]"
    using SetIndex_bv [OF b0(1), of i True] assms b0(2) by metis
  have "bv_bit b j \<longleftrightarrow> j = i" if "j < n" for j
    using nth_bv_list [of j b] that b(2,3) assms by (auto simp: nth_list_update split: if_splits)
  then have "bv_indices b = filter (\<lambda>j. j = i) [0..<n]" using b(2) by (auto simp: bv_indices_def intro: filter_cong)
  also have "[0..<n] = [0..<i] @ i # [Suc i..<n]" using assms upt_add_eq_append [of 0 i "n - i"] by (simp add: upt_conv_Cons)
  finally show thesis using that [OF b(1,2)] by (simp add: filter_empty_conv)
qed

text \<open>The signature of one validator makes a certificate.\<close>

lemma one_vote_certificate:
  assumes "bls_ok B" "i < length (publicKeys V)" "publicKeys V ! i = Ptr pk" "sig_parse B sig = Some \<sigma>" "sig_verify B \<sigma> pk msg"
    "Precommit_SignBytes c (NewPrecommit (psh_Height hdr) (psh_Round hdr) x (-1)\<lparr>pcm_Code := code\<rparr>) = Ret msg"
  obtains b agg where "bv_wf b" "Bits b = Verifier_Size V" "bv_indices b = [i]"
    "VerifySignatures B c \<lparr>pa_VoteType = VoteTypePrecommitAggregated, pa_Code = code, pa_ValidatorBitVector = Ptr b, pa_Header = hdr,
       pa_BlockHeaderHash = x, AggregatedSignatures = agg\<rparr> (Ptr V) (Byte (Ptr b)) = Ret True"
proof -
  obtain b where b: "bv_wf b" "Bits b = Verifier_Size V" "bv_indices b = [i]"
    using one_bit [OF assms(2)] by (metis Verifier_Size_def)
  obtain agg where "VerifyAggregateSignature B V agg msg (Byte (Ptr b)) = Ret True"
    using aggregate_verifies [OF assms(1) b(1,2), of "[i]" "\<lambda>_. pk" "\<lambda>_. sig" "\<lambda>_. \<sigma>" msg] b(3) assms(3-5) by auto
  then show thesis using b assms(6) by (intro that [of b agg]) (simp_all add: VerifySignatures_def Aggregated_Precommit_def)
qed

lemma check_accepts_spec:
  "check_accepts E s mas ok = Ret (True, v) \<Longrightarrow> v = (ok \<and> (\<forall>ma \<in> set mas. PrecommitAggregated_IsOK (ma_CollectiveSignatures ma))) \<and>
     (\<forall>ma \<in> set mas. let sig = ma_CollectiveSignatures ma in y_is_related s (cert_chain sig) \<and> verify_certificate E s (cert_chain sig) sig = Ret True)"
proof (induction mas arbitrary: ok)
  case (Cons ma mas)
  have "y_is_related s (cert_chain (ma_CollectiveSignatures ma)) \<and> verify_certificate E s (cert_chain (ma_CollectiveSignatures ma)) (ma_CollectiveSignatures ma) = Ret True \<and>
      check_accepts E s mas (PrecommitAggregated_IsOK (ma_CollectiveSignatures ma) \<and> ok) = Ret (True, v)"
    using Cons.prems by (auto simp: Let_def split: if_splits bind_splits)
  then show ?case using Cons.IH by (auto simp: Let_def)
qed simp

lemma check_accepts_same:
  "y_is_related s (cert_chain (ma_CollectiveSignatures ma)) \<Longrightarrow> verify_certificate E s (cert_chain (ma_CollectiveSignatures ma)) (ma_CollectiveSignatures ma) = Ret True \<Longrightarrow>
   check_accepts E s (replicate n ma) ok = Ret (True, (n \<noteq> 0 \<longrightarrow> PrecommitAggregated_IsOK (ma_CollectiveSignatures ma)) \<and> ok)"
  by (induction n arbitrary: ok) (auto simp: Let_def)

lemma cast_prevote_sends:
  "cast_prevote E ok s = Ret s' \<Longrightarrow> \<exists>v bz. y_outbox s' = y_outbox s @ [(ph_MyChainID (y_heightDatas s), bz, PMsgPrevote)] \<and>
     Prevote_ProtoBytes (prevote_codec (base_codecs (y_codecs E))) v = Ret bz \<and> Prevote_IsOK v = ok"
proof -
  have "Prevote_IsOK (Prevote_SetOK (NewPrevote h r x i) ok\<lparr>pv_Signature := sig\<rparr>) = ok" for h r x i sig
    by (simp add: Prevote_IsOK_def Prevote_SetOK_def NewPrevote_def CodeTypeOK_def CodeTypeAbort_def)
  moreover have "ph_MyChainID h = ph_MyChainID h0" if "pyr_AddPrevote tp h0 v = Ret (e, h)" for tp h0 v e h
    using that by (auto simp: pyr_AddPrevote_def split: if_splits option.splits bind_splits)
  moreover assume "cast_prevote E ok s = Ret s'"
  ultimately show ?thesis by (fastforce simp: cast_prevote_def Let_def pyr_SendInternal_def split: bind_splits)
qed

text \<open>A node at height 0 next to shard b, whose second validator has signed one precommit, and its messages.\<close>

definition edge_state :: "int \<Rightarrow> Block ptr \<Rightarrow> PState" where
  "edge_state identity b = solo_state\<lparr>y_Step := RoundStepPropose, pendingCrossShardBlockHash := [5],
     y_heightDatas := (solo_hd 0)\<lparr>ph_ShardInfo := \<lparr>psi_PeerListM = [''a'' \<mapsto> solo_peers, ''b'' \<mapsto> solo_peers],
         psi_Related = [(''b'', True)], psi_PeerRelated = Map.empty, psi_Identity = identity, psi_KeyRangeMap = Map.empty\<rparr>,
       ph_AllValidatorSet := [''a'' \<mapsto> solo_set, ''b'' \<mapsto> solo_set], ph_Block := b\<rparr>\<rparr>"

definition edge_cert :: PrecommitAggregated where
  "edge_cert = \<lparr>pa_VoteType = VoteTypePrecommitAggregated, pa_Code = CodeTypeOK, pa_ValidatorBitVector = Ptr \<lparr>Bits = 2, Elems = [2]\<rparr>,
     pa_Header = \<lparr>psh_Height = 0, psh_Round = 0, psh_Total = 1, psh_Root = [1], psh_ChainID = ''b''\<rparr>, pa_BlockHeaderHash = [],
     AggregatedSignatures = Sign toy_bls \<lparr>privateKey = 1\<rparr> [9]\<rparr>"

definition edge_accepts :: MessageAcceptSet where
  "edge_accepts = \<lparr>Accepts = [\<lparr>ma_B_BlockHash = [5], ma_CollectiveSignatures = edge_cert\<rparr>], mas_BlockHash = [5]\<rparr>"

definition edge_env :: PEnv where
  "edge_env = solo_env\<lparr>y_codecs := demo_pyr_codecs\<lparr>mas_codec := \<lparr>Marshal = (\<lambda>_. Some [9]), Unmarshal = (\<lambda>_. Some (MessageAcceptSet_ToProto edge_accepts))\<rparr>\<rparr>\<rparr>"

lemma edge_verifies: "verify_certificate edge_env (edge_state i b) ''b'' edge_cert = Ret True"
proof -
  have bv: "Byte (Ptr \<lparr>Bits = 2, Elems = [2]\<rparr>) = [6, 2]" "NewBitArrayFromByte [6, 2] = Ret (Ptr \<lparr>Bits = 2, Elems = [2]\<rparr>)"
    "agg_keys toy_bls solo_set (Ptr \<lparr>Bits = 2, Elems = [2]\<rparr>) 2 0 0 = Ret (Some 1)" by code_simp+
  show ?thesis
    using bv by (simp add: verify_certificate_def edge_cert_def VerifySignatures_def pyr_validators_def edge_state_def edge_env_def solo_env_def
        demo_pyr_codecs_def Precommit_SignBytes_def VerifyAggregateSignature_def Size_def Sign_def)
      (simp add: toy_bls_def NewVerifier_def BitVec.Size_def)
qed

lemma edge_decodes: "NewMessageAcceptSetFromBytes (mas_codec (y_codecs edge_env)) tx = Ret (Ptr edge_accepts)"
proof -
  have "NewMessageAcceptSetFromProto (MessageAcceptSet_ToProto edge_accepts) = Ret edge_accepts" by code_simp
  then show ?thesis by (simp add: NewMessageAcceptSetFromBytes_def from_bytes_def edge_env_def demo_pyr_codecs_def)
qed

section \<open>Properties\<close>

text \<open>
  C3: in every state a pyramid node can reach, consensus state and height data agree on height and round; and
  once the node has executed the block of the height (step Commit), it holds the proposal and a block with
  the announced hash, which is the block it executed, and for the prevotes and for the precommits verified
  votes of distinct validators with more than two thirds of the voting power for one hash and code.
\<close>

theorem pyr_node_commits_with_quorum:
  assumes "pyr_new_node E cid si s0" "pyr_reach E s0 s" "y_Step s = RoundStepCommit"
  shows "ph_Height (y_heightDatas s) = y_Height s \<and> ph_Round (y_heightDatas s) = y_Round s \<and>
    (\<exists>p b ps V. let h = y_heightDatas s in ph_Proposal h = Ptr p \<and> ph_Block h = Ptr b \<and>
       pyr_Block_Hash (lib_time (y_lib E)) b = Ret (p_BlockHeaderHash p, b) \<and> y_LastBlockHash s = p_BlockHeaderHash p \<and>
       psi_PeerListM si cid = Some ps \<and> ph_AllValidatorSet h cid = Some V \<and>
       (\<forall>i v. i < length ps \<longrightarrow> (votes (ph_Prevotes h) ! i = Ptr v \<longrightarrow> prevote_ok (y_tp E) h V i v) \<and>
          (votes (ph_Precommits h) ! i = Ptr v \<longrightarrow> precommit_ok (y_tp E) h V i v)) \<and>
       (\<exists>k ok. vs_GetMaj23 (ph_Prevotes h) = (k, ok) \<and> 3 * tally (ph_Prevotes h) ps k ok > 2 * total_votes ps) \<and>
       (\<exists>k ok. vs_GetMaj23 (ph_Precommits h) = (k, ok) \<and> 3 * tally (ph_Precommits h) ps k ok > 2 * total_votes ps))"
proof -
  have n: "node_ok E cid si s" by (rule reach_ok [OF assms(2,1)])
  then have st: "ph_PassStep (y_heightDatas s) \<ge> RoundStepPrecommit"
    "\<exists>p. ph_Proposal (y_heightDatas s) = Ptr p \<and> y_LastBlockHash s = p_BlockHeaderHash p"
    using assms(3) by (auto simp: node_ok_def steps_ok_def pyr_round_step_defs)
  show ?thesis
    using commit_quorum [OF node_inv [OF n] st(1)] st(2) n
    by (fastforce simp: node_ok_def ph_committee_def y_tp_def Let_def)
qed

theorem pyr_node_commits_with_quorum_witness:
  "\<exists>s p b. pyr_reach solo_env solo_state s \<and> ph_Proposal (y_heightDatas s) = Ptr p \<and> ph_Block (y_heightDatas s) = Ptr b \<and>
     pyr_Block_Hash (\<lambda>t. Some [7]) b = Ret (y_LastBlockHash s, b) \<and>
     (\<exists>k ok. vs_GetMaj23 (ph_Precommits (y_heightDatas s)) = (k, ok) \<and> 3 * tally (ph_Precommits (y_heightDatas s)) solo_peers k ok > 2 * 4)"
proof -
  obtain s where s: "pyr_reach solo_env solo_state s" "y_Step s = RoundStepCommit" using solo_run by blast
  show ?thesis
    using pyr_node_commits_with_quorum [OF solo_new_node s] s(1) solo_peers_ok(2) by (intro exI [of _ s]) (auto simp: Let_def solo_si_def)
qed



text \<open>
  C8: an OK message crashes every node of a boundary shard, which never makes the map it is entered in: in
  every reachable state, if the message is for the current height, or the first one kept for a later height.
\<close>

theorem ok_message_crashes_boundary:
  assumes "pyr_new_node E cid si s0" "pyr_reach E s0 s" "psi_IsBShard si"
    and "NewMessageOKFromBytes (mok_codec (y_codecs E)) bz = Ret (Ptr m)"
    and "y_Height s \<le> ok_Height m" "ok_Height m = y_Height s \<or> y_relay s (ok_Height m) = None"
  shows "pyr_Receive E fuel bz PMsgOK s = Some Panic"
proof -
  have n: "bseen s = None" "y_Round s = 0" using reach_ok [OF assms(2,1)] assms(3) by (simp_all add: node_ok_def)
  obtain s1 where s1: "pyr_addRelayMessageIfOverTime s (ok_Height m) 0 (Y_OK m) = (False, s1)" "bseen s1 = None" "y_Height s1 = y_Height s"
    using assms(5,6) n by (cases "y_Height s < ok_Height m") (auto simp: pyr_addRelayMessageIfOverTime_def)
  have "pyr_decode_message E bz PMsgOK = Ret (Inr (Y_OK m))"
    using assms(4) by (simp add: pyr_decode_message_def pyr_msg_defs pyr_decode_def)
  then show ?thesis
    using s1 assms(5) by (simp add: pyr_Receive_def pyr_doMessage_def pyr_add_message_def add_OK_def)
qed

theorem ok_message_crashes_boundary_witness:
  "\<exists>s. pyr_new_node solo_env ''a'' (SetBShard solo_si) s \<and> pyr_Receive solo_env 5 [1] PMsgOK s = Some Panic"
proof -
  have ok: "pyr_shard_ok (SetBShard solo_si) ''a''" using solo_peers_ok(4) by (simp add: pyr_shard_ok_def SetBShard_def)
  obtain h where "pyr_NewHeightData toy_bls ''a'' 0 (SetBShard solo_si) = Ret h"
    using pyr_NewHeightData_inv [OF ok, of "y_tp solo_env"] by (auto simp: y_tp_def)
  then obtain s where s: "pyr_NewConsensusState (y_bls solo_env) ''a'' (SetBShard solo_si) \<lparr>privateKey = 1\<rparr> 1 (NewMempool False) (NewMempool True)
      solo_app solo_kv \<lparr>sec = 0, nsec = 0\<rparr> 0 2 10 = Ret s" "y_Height s = 0" "y_relay s = Map.empty"
    by (simp add: pyr_NewConsensusState_def)
  then have n: "pyr_new_node solo_env ''a'' (SetBShard solo_si) s" unfolding pyr_new_node_def using ok by blast
  have "NewMessageOKFromBytes (mok_codec (y_codecs solo_env)) [1] = Ret (Ptr \<lparr>ok_Height = 1, SrcChain = ''b''\<rparr>)"
    by (simp add: NewMessageOKFromBytes_def from_bytes_def ok_codec_def NewMessageOKFromProto_def)
  from ok_message_crashes_boundary [OF n pyr_reach.new _ this, of 5] n s show ?thesis
    by (auto simp: SetBShard_def psi_IsBShard_def)
qed



text \<open>
  C10: the accepts in a commit block are not compared with each other: a boundary node takes one accept, repeated
  for every related shard, for the agreement of all of them.
\<close>

theorem one_accept_counts_for_all:
  assumes "BlockType (b_Header b) = BLOCKTYPE_BCommitBlock" "BodyTxs (b_Body b) = [tx]"
    and "NewMessageAcceptSetFromBytes (mas_codec (y_codecs E)) tx = Ret (Ptr ba)" "mas_BlockHash ba = pendingCrossShardBlockHash s"
    and "Accepts ba = replicate (length (y_related s)) ma" "PrecommitAggregated_IsOK (ma_CollectiveSignatures ma)"
    and "y_is_related s (cert_chain (ma_CollectiveSignatures ma))"
    and "verify_certificate E s (cert_chain (ma_CollectiveSignatures ma)) (ma_CollectiveSignatures ma) = Ret True"
  shows "check_B E s b = Ret (True, True)"
  using assms check_accepts_same [OF assms(7,8)]
  by (simp add: check_B_def check_BCommit_def BLOCKTYPE_InnerShard_def BLOCKTYPE_CrossShard_def BLOCKTYPE_BCommitBlock_def)

theorem one_accept_counts_for_all_witness:
  "check_B edge_env (edge_state BLOCKTYPE_B Nil_ptr) (empty_block BLOCKTYPE_BCommitBlock [[1]] []) = Ret (True, True)"
  by (rule one_accept_counts_for_all [where tx = "[1]" and ba = edge_accepts and ma = "hd (Accepts edge_accepts)"])
    (simp_all add: edge_decodes, simp_all add: empty_block_def edge_accepts_def edge_state_def y_is_related_def edge_cert_def PrecommitAggregated_IsOK_def
      edge_verifies [unfolded edge_cert_def edge_state_def])

text \<open>
  C4: one precommit of one validator of a neighbour shard, for any block and height, makes a commit message for
  any cross-shard block: the certificate that marks only this validator passes, a node of an inner shard keeps the message, and it
  accepts and decodes a commit block with it. The voting power behind a certificate is never asked for, and it
  does not cover the hash of the block to commit.
\<close>

theorem one_vote_commits_any_block:
  assumes "bls_ok (y_bls E)" "\<not> y_IsBShard s" "pyr_validators (y_heightDatas s) chain = Ptr V" "y_is_related s chain"
    and "i < length (publicKeys V)" "publicKeys V ! i = Ptr pk" "sig_parse (y_bls E) sig = Some \<sigma>" "sig_verify (y_bls E) \<sigma> pk msg"
    and "Precommit_SignBytes (precommit_codec (base_codecs (y_codecs E))) (NewPrecommit (psh_Height hdr) (psh_Round hdr) x (-1)\<lparr>pcm_Code := CodeTypeOK\<rparr>) = Ret msg"
    and "psh_ChainID (hdr :: PartSetHeader) = chain" "\<not> map_get False (committed s) hs"
  shows "\<exists>m b. mc_B_BlockHash m = hs \<and> pa_ValidatorBitVector (mc_CollectiveSignatures m) = Ptr b \<and> bv_indices b = [i] \<and>
    add_Commit E m s = Ret (Nil_ptr, True, s\<lparr>commitPool := m_put hs m (commitPool s)\<rparr>) \<and>
    (\<forall>tx. NewMessageCommitFromBytes (mc_codec (y_codecs E)) tx = Ret (Ptr m) \<longrightarrow>
       check_ICommit E s [tx] = Ret True \<and> decode_commits (mc_codec (y_codecs E)) [tx] = Ret ([hs], [True]))"
proof -
  obtain b agg where b: "bv_indices b = [i]" "VerifySignatures (y_bls E) (precommit_codec (base_codecs (y_codecs E)))
      \<lparr>pa_VoteType = VoteTypePrecommitAggregated, pa_Code = CodeTypeOK, pa_ValidatorBitVector = Ptr b, pa_Header = hdr,
       pa_BlockHeaderHash = x, AggregatedSignatures = agg\<rparr> (Ptr V) (Byte (Ptr b)) = Ret True"
    using one_vote_certificate [OF assms(1,5-9)] by blast
  let ?pa = "\<lparr>pa_VoteType = VoteTypePrecommitAggregated, pa_Code = CodeTypeOK, pa_ValidatorBitVector = Ptr b, pa_Header = hdr,
       pa_BlockHeaderHash = x, AggregatedSignatures = agg\<rparr>"
  let ?m = "\<lparr>mc_B_BlockHash = hs, mc_CollectiveSignatures = ?pa\<rparr>"
  have "verify_certificate E s chain ?pa = Ret True" using b(2) assms(3) by (simp add: verify_certificate_def)
  then show ?thesis
    using assms(2,4,10,11) b(1)
    by (intro exI [of _ ?m] exI [of _ b]) (simp add: add_Commit_def PrecommitAggregated_IsOK_def)
qed

theorem one_vote_commits_any_block_witness:
  "\<exists>m b. mc_B_BlockHash m = [5] \<and> pa_ValidatorBitVector (mc_CollectiveSignatures m) = Ptr b \<and> bv_indices b = [1] \<and>
     add_Commit solo_env m (edge_state BLOCKTYPE_I Nil_ptr) =
       Ret (Nil_ptr, True, (edge_state BLOCKTYPE_I Nil_ptr)\<lparr>commitPool := [([5], m)]\<rparr>)"
proof -
  let ?s = "edge_state BLOCKTYPE_I Nil_ptr"
  have "\<not> y_IsBShard ?s" "pyr_validators (y_heightDatas ?s) ''b'' = Ptr solo_set" "y_is_related ?s ''b''" "commitPool ?s = []"
    "\<not> map_get False (committed ?s) [5]"
    by (simp_all add: edge_state_def y_IsBShard_def ph_IsBShard_def psi_IsBShard_def BLOCKTYPE_I_def BLOCKTYPE_B_def pyr_validators_def y_is_related_def
        solo_state_def map_get_def)
  moreover have "1 < length (publicKeys solo_set)" "publicKeys solo_set ! 1 = Ptr 1" "sig_parse toy_bls ''++'' = Some 2" "sig_verify toy_bls 2 1 [9]"
    by (simp_all add: NewVerifier_def toy_bls_def)
  ultimately show ?thesis
    using one_vote_commits_any_block [of solo_env ?s "''b''" solo_set 1 1 "''++''" 2 "[9]" "pa_Header edge_cert" "[]" "[5]"] toy_bls_ok
    by (auto simp: Precommit_SignBytes_def edge_cert_def)
qed

end
